(* ===== verification/MqttPrelude.thy ===== *)
theory MqttPrelude
  imports Main "HOL-Library.Word" "HOL-Library.Monad_Syntax"
begin

text \<open>
  Shared vocabulary of the development: the machine types of \<open>platform.h\<close>, memory
  regions, and the lemmas about them that every component uses.

  A C memory region is the list of its bytes. An access outside the region is undefined
  behaviour in C; here it is the value \<open>None\<close> of the option type, and every operation
  that touches memory is written in the option monad, so that \<open>Some\<close> means the code ran
  without a bad access. A C pointer into a static pool is \<open>nat option\<close> (the index of the
  pool element, \<open>None\<close> for \<open>NULL\<close>).
\<close>

unbundle bit_operations_syntax

section \<open>Machine types\<close>

type_synonym u8 = "8 word"
type_synonym u16 = "16 word"
type_synonym u32 = "32 word"
type_synonym c8 = "8 word"
type_synonym i32 = int
type_synonym ptr = "nat option"

named_theorems mem_simps \<open>evaluation of memory accesses\<close>
named_theorems wire_consts \<open>numeric constants of the protocol\<close>

section \<open>Bits of words\<close>

lemma bit_less_exp:
  fixes x :: "'a::len word"
  assumes "unat x < 2 ^ k" "k \<le> n" shows "\<not> bit x n"
proof -
  have "unat x < 2 ^ n" using assms by (meson le_less_trans less_le_trans linorder_not_less one_le_numeral power_increasing)
  then have "\<not> bit (unat x) n" by (simp add: bit_iff_odd)
  then show ?thesis by (simp add: bit_unsigned_iff bit_imp_le_length)
qed

lemma masks: "(0xF::u8) = mask 4" "(0xF0::u8) = push_bit 4 (mask 4)" "(0x7F::u32) = mask 7" "(0x7F::u8) = mask 7"
   "(0x6::u8) = push_bit 1 (mask 2)" "(0x80::u8) = push_bit 7 1" "(0x3::u8) = mask 2"
  by (simp_all add: mask_eq_exp_minus_1)

lemma and_80: "(b AND 0x80 = 0) = (\<not> bit b 7)" for b :: u8
  using and_exp_eq_0_iff_not_bit[of b 7] by simp

lemma u8_less_4: "unat (q::u8) < 4 \<Longrightarrow> q = 0 \<or> q = 1 \<or> q = 2 \<or> q = 3"
proof -
  assume "unat q < 4"
  moreover have "q = of_nat n \<Longrightarrow> n = 0 \<or> n = 1 \<or> n = 2 \<or> n = 3 \<Longrightarrow> q = 0 \<or> q = 1 \<or> q = 2 \<or> q = 3" for n
    by (elim disjE) simp_all
  moreover have "q = of_nat (unat q)" by (metis of_nat_unat ucast_id)
  ultimately show ?thesis by fastforce
qed

lemma unat_drop_bit: "unat (drop_bit k x) = unat x div 2 ^ k" for x :: "'a::len word"
proof -
  have "unat (drop_bit k x) = drop_bit k (unat x)" by (rule unat_drop_bit_eq)
  then show ?thesis by (simp only: drop_bit_eq_div)
qed

lemma drop_bit_eq_0_iff: "drop_bit k x = 0 \<longleftrightarrow> unat x < 2 ^ k" for x :: "'a::len word"
proof -
  have "drop_bit k x = 0 \<longleftrightarrow> unat (drop_bit k x) = 0" by (rule unat_eq_zero[symmetric])
  also have "\<dots> \<longleftrightarrow> unat x < 2 ^ k" unfolding unat_drop_bit by (simp add: div_eq_0_iff)
  finally show ?thesis .
qed

lemma unat_of_nat_eq: "n < 2 ^ LENGTH('a) \<Longrightarrow> unat (of_nat n :: 'a::len word) = n"
  by (simp add: unsigned_of_nat take_bit_nat_eq_self)

lemma unat_ucast_up_simp:
  "LENGTH('a) \<le> LENGTH('b) \<Longrightarrow> unat (ucast x :: 'b::len word) = unat (x :: 'a::len word)"
proof -
  assume a: "LENGTH('a) \<le> LENGTH('b)"
  have "unat x < 2 ^ LENGTH('b)"
    using unsigned_less[of x] a by (meson less_le_trans one_le_numeral power_increasing)
  then have "unat (of_nat (unat x) :: 'b word) = unat x" by (rule unat_of_nat_eq)
  then show ?thesis by (simp only: of_nat_unat)
qed

lemma uint_int_unat: "uint x = int (unat x)" for x :: "'a::len word"
  by simp

lemma unat_1_of_nat: "Suc n < 2 ^ LENGTH('a) \<Longrightarrow> unat (1 + of_nat n :: 'a::len word) = Suc n"
  using unat_of_nat_eq[of "Suc n", where 'a = 'a] by simp

section \<open>Memory regions\<close>

definition buf_get :: "'a list \<Rightarrow> nat \<Rightarrow> 'a option" where
  "buf_get buf i = (if i < length buf then Some (buf ! i) else None)"

definition buf_put :: "'a list \<Rightarrow> nat \<Rightarrow> 'a \<Rightarrow> 'a list option" where
  "buf_put buf i v = (if i < length buf then Some (buf[i := v]) else None)"

definition overlay :: "'a list \<Rightarrow> nat \<Rightarrow> 'a list \<Rightarrow> 'a list" where
  "overlay buf d xs = take d buf @ xs @ drop (d + length xs) buf"

lemma buf_get_Some [mem_simps]: "i < length buf \<Longrightarrow> buf_get buf i = Some (buf ! i)"
  by (simp add: buf_get_def)

lemma buf_get_None [mem_simps]: "length buf \<le> i \<Longrightarrow> buf_get buf i = None"
  by (simp add: buf_get_def)

lemma buf_put_Some [mem_simps]: "i < length buf \<Longrightarrow> buf_put buf i v = Some (buf[i := v])"
  by (simp add: buf_put_def)

lemma buf_put_None [mem_simps]: "length buf \<le> i \<Longrightarrow> buf_put buf i v = None"
  by (simp add: buf_put_def)

lemma length_overlay [simp]: "d + length xs \<le> length buf \<Longrightarrow> length (overlay buf d xs) = length buf"
  by (simp add: overlay_def)

lemma overlay_Nil [simp]: "overlay buf d [] = buf"
  by (simp add: overlay_def)

lemma overlay_Cons:
  "d < length buf \<Longrightarrow> overlay (buf[d := x]) (Suc d) xs = overlay buf d (x # xs)"
  by (simp add: overlay_def take_Suc_conv_app_nth)

lemma take_overlay [simp]: "n \<le> d \<Longrightarrow> d \<le> length buf \<Longrightarrow> take n (overlay buf d xs) = take n buf"
  by (simp add: overlay_def)

lemma drop_overlay_at [simp]:
  "d \<le> length buf \<Longrightarrow> drop d (overlay buf d xs) = xs @ drop (d + length xs) buf"
  by (simp add: overlay_def)

lemma drop_overlay_past:
  "d \<le> length buf \<Longrightarrow> d + length xs \<le> n \<Longrightarrow> drop n (overlay buf d xs) = drop n buf"
  by (simp add: overlay_def add.commute)

lemma nth_overlay_in:
  "d + length xs \<le> length buf \<Longrightarrow> d \<le> i \<Longrightarrow> i < d + length xs \<Longrightarrow> overlay buf d xs ! i = xs ! (i - d)"
  by (auto simp: overlay_def nth_append min_def)

lemma nth_overlay_below:
  "d + length xs \<le> length buf \<Longrightarrow> i < d \<Longrightarrow> overlay buf d xs ! i = buf ! i"
  by (auto simp: overlay_def nth_append min_def)

lemma nth_overlay_above:
  "d + length xs \<le> length buf \<Longrightarrow> d + length xs \<le> i \<Longrightarrow> i < length buf \<Longrightarrow>
   overlay buf d xs ! i = buf ! i"
  by (auto simp: overlay_def nth_append min_def)

lemma overlay_overlay:
  "d + length xs \<le> length buf \<Longrightarrow>
   overlay (overlay buf d xs) (d + length xs) ys = overlay buf d (xs @ ys)"
  by (simp add: overlay_def ac_simps)

section \<open>The copy loops of \<open>mqtt_common.h\<close>\<close>

text \<open>\<open>buf_wr_nbytes(dst, src, n)\<close>: \<open>while(c--) *dst++ = *src++\<close>.\<close>

fun buf_wr_nbytes :: "u8 list \<Rightarrow> nat \<Rightarrow> u8 list \<Rightarrow> nat \<Rightarrow> u8 list option" where
  "buf_wr_nbytes buf d src 0 = Some buf"
| "buf_wr_nbytes buf d src (Suc c) =
     (case src of [] \<Rightarrow> None
      | x # xs \<Rightarrow> do { buf' \<leftarrow> buf_put buf d x; buf_wr_nbytes buf' (Suc d) xs c })"

fun buf_set :: "u8 list \<Rightarrow> nat \<Rightarrow> u8 \<Rightarrow> nat \<Rightarrow> u8 list option" where
  "buf_set buf d v 0 = Some buf"
| "buf_set buf d v (Suc c) = do { buf' \<leftarrow> buf_put buf d v; buf_set buf' (Suc d) v c }"

lemma buf_wr_nbytes_eq [mem_simps]:
  "buf_wr_nbytes buf d src n =
   (if n \<le> length src \<and> (n = 0 \<or> d + n \<le> length buf) then Some (overlay buf d (take n src)) else None)"
proof (induction n arbitrary: buf d src)
  case 0
  then show ?case by simp
next
  case (Suc n)
  show ?case
  proof (cases src)
    case Nil
    then show ?thesis by simp
  next
    case (Cons x xs)
    then show ?thesis
      by (cases "d < length buf") (auto simp: Suc.IH buf_put_def overlay_Cons)
  qed
qed

lemma buf_set_eq [mem_simps]:
  "buf_set buf d v n =
   (if n = 0 \<or> d + n \<le> length buf then Some (overlay buf d (replicate n v)) else None)"
proof (induction n arbitrary: buf d)
  case 0
  then show ?case by simp
next
  case (Suc n)
  then show ?case
    by (cases "d < length buf") (auto simp: buf_put_def overlay_Cons)
qed

text \<open>Two-byte values in network byte order.\<close>

definition hi8 :: "u16 \<Rightarrow> u8" where
  "hi8 v = ucast (drop_bit 8 v)"

definition lo8 :: "u16 \<Rightarrow> u8" where
  "lo8 v = ucast v"

definition buf_wr_nbo_2B :: "u8 list \<Rightarrow> nat \<Rightarrow> u16 \<Rightarrow> u8 list option" where
  "buf_wr_nbo_2B buf d val = do { b \<leftarrow> buf_put buf d (hi8 val); buf_put b (Suc d) (lo8 val) }"

definition mk16 :: "u8 \<Rightarrow> u8 \<Rightarrow> u16" where
  "mk16 h l = push_bit 8 (ucast h) OR ucast l"

definition buf_rd_nbo_2B :: "u8 list \<Rightarrow> nat \<Rightarrow> u16 option" where
  "buf_rd_nbo_2B buf d = do { h \<leftarrow> buf_get buf d; l \<leftarrow> buf_get buf (Suc d); Some (mk16 h l) }"

lemma mk16_hi8_lo8 [simp]: "mk16 (hi8 v) (lo8 v) = v"
  unfolding mk16_def hi8_def lo8_def
  by (rule bit_word_eqI) (auto simp: bit_simps not_less)

lemma hi8_mk16 [simp]: "hi8 (mk16 h l) = h"
  unfolding mk16_def hi8_def
  by (rule bit_word_eqI) (auto simp: bit_simps dest: bit_imp_le_length)

lemma lo8_mk16 [simp]: "lo8 (mk16 h l) = l"
  unfolding mk16_def lo8_def
  by (rule bit_word_eqI) (auto simp: bit_simps)

lemma buf_wr_nbo_2B_eq [mem_simps]:
  "buf_wr_nbo_2B buf d v = (if Suc d < length buf then Some (overlay buf d [hi8 v, lo8 v]) else None)"
proof (cases "Suc d < length buf")
  case True
  then have "overlay buf d [hi8 v, lo8 v] = overlay (buf[d := hi8 v]) (Suc d) [lo8 v]"
    by (simp add: overlay_Cons)
  also have "\<dots> = overlay (buf[d := hi8 v, Suc d := lo8 v]) (Suc (Suc d)) []"
    using True by (subst overlay_Cons) simp_all
  finally show ?thesis using True by (simp add: buf_wr_nbo_2B_def buf_put_def)
next
  case False
  then show ?thesis by (auto simp: buf_wr_nbo_2B_def buf_put_def Option.bind_eq_None_conv)
qed

lemma buf_rd_nbo_2B_eq [mem_simps]:
  "buf_rd_nbo_2B buf d = (if Suc d < length buf then Some (mk16 (buf ! d) (buf ! Suc d)) else None)"
  by (auto simp: buf_rd_nbo_2B_def buf_get_def)

lemma buf_rd_wr_nbo_2B:
  "buf_wr_nbo_2B buf d v = Some buf' \<Longrightarrow> buf_rd_nbo_2B buf' d = Some v"
  by (auto simp: mem_simps nth_overlay_in split: if_splits)

section \<open>Text\<close>

abbreviation SLASH :: c8 where "SLASH \<equiv> 0x2F"
abbreviation PLUS :: c8 where "PLUS \<equiv> 0x2B"
abbreviation HASH :: c8 where "HASH \<equiv> 0x23"

text \<open>
  A NUL-terminated string is the list of its characters up to the terminator;
  \<open>cstr_of\<close> reads one out of a memory region.
\<close>

definition cstr_of :: "c8 list \<Rightarrow> c8 list" where
  "cstr_of = takeWhile (\<lambda>c. c \<noteq> 0)"

lemma cstr_of_no_nul [simp]: "0 \<notin> set (cstr_of s)"
  unfolding cstr_of_def using set_takeWhileD by fastforce

lemma cstr_of_id [simp]: "0 \<notin> set s \<Longrightarrow> cstr_of s = s"
  unfolding cstr_of_def by (subst takeWhile_eq_all_conv) auto

text \<open>The text at the start of a region, which must hold a NUL; \<open>strncpy(dst, src, n)\<close> copies
  the characters of \<open>src\<close> up to a NUL and then writes zeros, \<open>n\<close> bytes in all.\<close>

definition cstr_get :: "c8 list \<Rightarrow> c8 list option" where
  "cstr_get buf = (if 0 \<in> set buf then Some (cstr_of buf) else None)"

definition strncpy :: "c8 list \<Rightarrow> nat \<Rightarrow> c8 list \<Rightarrow> nat \<Rightarrow> c8 list option" where
  "strncpy buf d src n =
     (if n \<le> length src \<or> 0 \<in> set src
      then let s = cstr_of (take n src) in buf_wr_nbytes buf d (s @ replicate (n - length s) 0) n
      else None)"

lemma strncpy_Some:
  assumes "n \<le> length src \<or> 0 \<in> set src" "d + n \<le> length buf"
  shows "\<exists>dst. strncpy buf d src n = Some dst \<and> length dst = length buf"
proof -
  let ?s = "cstr_of (take n src)"
  have n: "n \<le> length (?s @ replicate (n - length ?s) 0)" by simp
  have "d + n \<le> length buf \<Longrightarrow> length (overlay buf d (take n (?s @ replicate (n - length ?s) 0))) = length buf"
    using n by (subst length_overlay) simp_all
  then show ?thesis using assms n by (auto simp: strncpy_def Let_def buf_wr_nbytes_eq)
qed

end
