(* ===== verification/MqttWire.thy ===== *)
theory MqttWire
  imports MqttPrelude
begin

text \<open>
  The packet buffer of \<open>netapps/mqtt/common/mqtt_common.[ch]\<close>: the record
  \<open>mqtt_packet\<close>, the codecs of the fixed header and of the remaining length, the
  construction of a PUBLISH (\<open>mqp_pub_append_topic\<close>, \<open>mqp_pub_append_data\<close>,
  \<open>mqp_prep_fh\<close>) and the processing of a received packet (\<open>mqp_proc_pub_rx\<close>,
  \<open>mqp_proc_msg_id_ack_rx\<close>).
\<close>

section \<open>Constants and fixed-header macros\<close>

abbreviation MQTT_CONNECT :: u8 where "MQTT_CONNECT \<equiv> 0x01"
abbreviation MQTT_CONNACK :: u8 where "MQTT_CONNACK \<equiv> 0x02"
abbreviation MQTT_PUBLISH :: u8 where "MQTT_PUBLISH \<equiv> 0x03"
abbreviation MQTT_PUBACK :: u8 where "MQTT_PUBACK \<equiv> 0x04"
abbreviation MQTT_PUBREC :: u8 where "MQTT_PUBREC \<equiv> 0x05"
abbreviation MQTT_PUBREL :: u8 where "MQTT_PUBREL \<equiv> 0x06"
abbreviation MQTT_PUBCOMP :: u8 where "MQTT_PUBCOMP \<equiv> 0x07"
abbreviation MQTT_SUBSCRIBE :: u8 where "MQTT_SUBSCRIBE \<equiv> 0x08"
abbreviation MQTT_SUBACK :: u8 where "MQTT_SUBACK \<equiv> 0x09"
abbreviation MQTT_UNSUBSCRIBE :: u8 where "MQTT_UNSUBSCRIBE \<equiv> 0x0A"
abbreviation MQTT_UNSUBACK :: u8 where "MQTT_UNSUBACK \<equiv> 0x0B"
abbreviation MQTT_PINGREQ :: u8 where "MQTT_PINGREQ \<equiv> 0x0C"
abbreviation MQTT_PINGRSP :: u8 where "MQTT_PINGRSP \<equiv> 0x0D"
abbreviation MQTT_DISCONNECT :: u8 where "MQTT_DISCONNECT \<equiv> 0x0E"

abbreviation MQP_ERR_NETWORK :: i32 where "MQP_ERR_NETWORK \<equiv> - 1"
abbreviation MQP_ERR_TIMEOUT :: i32 where "MQP_ERR_TIMEOUT \<equiv> - 2"
abbreviation MQP_ERR_NET_OPS :: i32 where "MQP_ERR_NET_OPS \<equiv> - 3"
abbreviation MQP_ERR_FNPARAM :: i32 where "MQP_ERR_FNPARAM \<equiv> - 4"
abbreviation MQP_ERR_PKT_AVL :: i32 where "MQP_ERR_PKT_AVL \<equiv> - 5"
abbreviation MQP_ERR_PKT_LEN :: i32 where "MQP_ERR_PKT_LEN \<equiv> - 6"
abbreviation MQP_ERR_NOTCONN :: i32 where "MQP_ERR_NOTCONN \<equiv> - 7"
abbreviation MQP_ERR_BADCALL :: i32 where "MQP_ERR_BADCALL \<equiv> - 8"
abbreviation MQP_ERR_CONTENT :: i32 where "MQP_ERR_CONTENT \<equiv> - 9"
abbreviation MQP_ERR_LIBQUIT :: i32 where "MQP_ERR_LIBQUIT \<equiv> - 10"
abbreviation MQP_ERR_NOT_DEF :: i32 where "MQP_ERR_NOT_DEF \<equiv> - 32"

abbreviation WILL_RETAIN_VAL :: u8 where "WILL_RETAIN_VAL \<equiv> 0x20"
abbreviation WILL_CONFIG_VAL :: u8 where "WILL_CONFIG_VAL \<equiv> 0x04"
abbreviation CLEAN_START_VAL :: u8 where "CLEAN_START_VAL \<equiv> 0x02"
abbreviation USER_NAME_OPVAL :: u8 where "USER_NAME_OPVAL \<equiv> 0x80"
abbreviation PASS_WORD_OPVAL :: u8 where "PASS_WORD_OPVAL \<equiv> 0x40"

definition MAX_FH_LEN :: nat where [wire_consts]: "MAX_FH_LEN = 5"
definition MAX_REMLEN_BYTES :: nat where [wire_consts]: "MAX_REMLEN_BYTES = MAX_FH_LEN - 1"

type_synonym mqtt_qos = u8 \<comment> \<open>the C enum holds any value cast into it\<close>

abbreviation MQTT_QOS0 :: mqtt_qos where "MQTT_QOS0 \<equiv> 0"
abbreviation MQTT_QOS1 :: mqtt_qos where "MQTT_QOS1 \<equiv> 1"
abbreviation MQTT_QOS2 :: mqtt_qos where "MQTT_QOS2 \<equiv> 2"
abbreviation QID_VMASK :: u8 where "QID_VMASK \<equiv> 0x3"
abbreviation QFL_VALUE :: u8 where "QFL_VALUE \<equiv> 0x80"

definition MAKE_FH_BYTE1 :: "u8 \<Rightarrow> u8 \<Rightarrow> u8" where
  "MAKE_FH_BYTE1 msg_type flags = push_bit 4 msg_type OR flags"

definition MAKE_FH_FLAGS :: "bool \<Rightarrow> mqtt_qos \<Rightarrow> bool \<Rightarrow> u8" where
  "MAKE_FH_FLAGS dup qos retain =
     (push_bit 3 (of_bool dup) OR push_bit 1 qos OR of_bool retain) AND 0xF"

definition QOS_VALUE :: "mqtt_qos \<Rightarrow> u8" where
  "QOS_VALUE qos = qos AND QID_VMASK"

definition DUP_FLAG_VAL :: "bool \<Rightarrow> u8" where
  "DUP_FLAG_VAL b = push_bit 3 (of_bool b)"

definition BOOL_RETAIN :: "u8 \<Rightarrow> bool" where "BOOL_RETAIN b = (b AND 0x1 \<noteq> 0)"
definition BOOL_DUP :: "u8 \<Rightarrow> bool" where "BOOL_DUP b = (b AND 0x8 \<noteq> 0)"
definition ENUM_QOS :: "u8 \<Rightarrow> mqtt_qos" where "ENUM_QOS b = drop_bit 1 (b AND 0x6)"
definition MSG_TYPE :: "u8 \<Rightarrow> u8" where "MSG_TYPE b = drop_bit 4 (b AND 0xF0)"

section \<open>The packet\<close>

text \<open>
  \<open>p_free_hook\<close> says whether the \<open>free\<close> function pointer is set. \<open>p_buffer\<close> is the
  attached buffer as a memory region.
\<close>

record mqtt_packet =
  p_msg_type :: u8
  p_fh_byte1 :: u8
  p_msg_id :: u16
  p_n_refs :: u8
  p_offset :: u8
  p_fh_len :: u8
  p_vh_len :: u16
  p_pl_len :: u32
  p_private :: u32
  p_maxlen :: u32
  p_buffer :: "u8 list"
  p_free_hook :: bool
  p_next :: ptr

text \<open>A string argument: the memory behind the pointer and the length it comes with.\<close>

record utf8_string =
  u_buffer :: "c8 list"
  u_length :: u16

text \<open>\<open>struct utf8_strqos\<close>: the memory from the start of the topic on, its length and the QoS.\<close>

record utf8_strqos =
  q_buffer :: "c8 list"
  q_length :: u16
  q_qosreq :: mqtt_qos

definition u_content :: "utf8_string \<Rightarrow> c8 list" where
  "u_content s = take (unat (u_length s)) (u_buffer s)"

definition u_valid :: "utf8_string \<Rightarrow> bool" where
  "u_valid s = (unat (u_length s) \<le> length (u_buffer s))"

definition MQP_FHEADER_BUF :: "mqtt_packet \<Rightarrow> nat" where
  "MQP_FHEADER_BUF mqp = unat (p_offset mqp)"

definition MQP_VHEADER_BUF :: "mqtt_packet \<Rightarrow> nat" where
  "MQP_VHEADER_BUF mqp = MQP_FHEADER_BUF mqp + unat (p_fh_len mqp)"

definition MQP_PAYLOAD_BUF :: "mqtt_packet \<Rightarrow> nat" where
  "MQP_PAYLOAD_BUF mqp = MQP_VHEADER_BUF mqp + unat (p_vh_len mqp)"

definition MQP_CONTENT_LEN :: "mqtt_packet \<Rightarrow> u32" where
  "MQP_CONTENT_LEN mqp = ucast (p_fh_len mqp) + ucast (p_vh_len mqp) + p_pl_len mqp"

definition MQP_FREEBUF_LEN :: "mqtt_packet \<Rightarrow> u32" where
  "MQP_FREEBUF_LEN mqp = p_maxlen mqp - ucast (p_offset mqp) - MQP_CONTENT_LEN mqp"

text \<open>The start of the topic and its length in a processed PUBLISH (\<open>u16\<close> field of the
  string it is stored in); the payload pointer.\<close>

definition MQP_PUB_TOP_BUF :: "mqtt_packet \<Rightarrow> nat" where
  "MQP_PUB_TOP_BUF mqp = MQP_VHEADER_BUF mqp + 2"

definition MQP_PUB_TOP_LEN :: "mqtt_packet \<Rightarrow> u16" where
  "MQP_PUB_TOP_LEN mqp = p_vh_len mqp - 2 - (if p_msg_id mqp \<noteq> 0 then 2 else 0)"

definition MQP_PUB_PAY_BUF :: "mqtt_packet \<Rightarrow> nat option" where
  "MQP_PUB_PAY_BUF mqp = (if p_pl_len mqp \<noteq> 0 then Some (MQP_PAYLOAD_BUF mqp) else None)"

definition MQP_PUB_PAY_LEN :: "mqtt_packet \<Rightarrow> u32" where
  "MQP_PUB_PAY_LEN mqp = p_pl_len mqp"

text \<open>\<open>free_mqp\<close>: the second component says whether the \<open>free\<close> hook was called.\<close>

definition free_mqp :: "mqtt_packet \<Rightarrow> mqtt_packet \<times> bool" where
  "free_mqp mqp =
     (if p_free_hook mqp
      then let mqp' = mqp\<lparr>p_n_refs := p_n_refs mqp - 1\<rparr> in (mqp', p_n_refs mqp' = 0)
      else (mqp, False))"

definition mqp_reset :: "mqtt_packet \<Rightarrow> mqtt_packet" where
  "mqp_reset mqp = mqp\<lparr>p_msg_type := 0, p_fh_byte1 := 0, p_msg_id := 0, p_fh_len := 0,
     p_vh_len := 0, p_pl_len := 0, p_private := 0\<rparr>"

definition mqp_init :: "mqtt_packet \<Rightarrow> u8 \<Rightarrow> mqtt_packet" where
  "mqp_init mqp ofst = (mqp_reset mqp)\<lparr>p_offset := ofst, p_n_refs := 1, p_next := None\<rparr>"

definition mqp_buffer_attach :: "mqtt_packet \<Rightarrow> u8 list \<Rightarrow> u32 \<Rightarrow> u8 \<Rightarrow> mqtt_packet" where
  "mqp_buffer_attach mqp buffer len ofst =
     (mqp_init mqp ofst)\<lparr>p_buffer := buffer, p_maxlen := len, p_free_hook := False\<rparr>"

section \<open>Codecs\<close>

text \<open>\<open>buf_wr_utf8\<close>: number of bytes written and the new buffer.\<close>

definition buf_wr_utf8 :: "u8 list \<Rightarrow> nat \<Rightarrow> utf8_string \<Rightarrow> (nat \<times> u8 list) option" where
  "buf_wr_utf8 buf d utf8 = do {
     b \<leftarrow> buf_wr_nbo_2B buf d (u_length utf8);
     b \<leftarrow> buf_wr_nbytes b (d + 2) (u_buffer utf8) (unat (u_length utf8));
     Some (2 + unat (u_length utf8), b) }"

text \<open>
  The local array \<open>val[MAX_REMLEN_BYTES]\<close> of \<open>buf_tail_wr_remlen\<close> as filled from index
  \<open>i\<close>; a fifth byte would be stored behind the array.
\<close>

function remlen_vals :: "nat \<Rightarrow> u32 \<Rightarrow> u8 list option" where
  "remlen_vals i remlen =
     (if MAX_REMLEN_BYTES \<le> i then None
      else let v = ucast (remlen AND 0x7F); r = drop_bit 7 remlen in
        if r \<noteq> 0 then map_option (\<lambda>vs. (v OR 0x80) # vs) (remlen_vals (Suc i) r)
        else Some [v])"
  by pat_completeness auto
termination by (relation "measure (\<lambda>(i, _). MAX_REMLEN_BYTES - i)") auto

declare remlen_vals.simps [simp del]

text \<open>\<open>d\<close> is the position one past the tail: the pointer argument plus \<open>MAX_REMLEN_BYTES\<close>.\<close>

definition buf_tail_wr_remlen :: "u8 list \<Rightarrow> nat \<Rightarrow> u32 \<Rightarrow> (nat \<times> u8 list) option" where
  "buf_tail_wr_remlen buf d remlen = do {
     vals \<leftarrow> remlen_vals 0 remlen;
     let i = length vals;
     b \<leftarrow> (if i \<le> d then buf_wr_nbytes buf (d - i) vals i else None);
     Some (i, b) }"

text \<open>
  \<open>buf_rd_remlen\<close>: the do-while loop from byte \<open>i\<close> with the running value; the result is
  the return value (\<open>- 1\<close> when no final byte was found) and \<open>*remlen\<close>.
\<close>

function rd_remlen_loop :: "u8 list \<Rightarrow> nat \<Rightarrow> nat \<Rightarrow> u32 \<Rightarrow> (i32 \<times> u32) option" where
  "rd_remlen_loop buf d i val = do {
     b \<leftarrow> buf_get buf (d + i);
     let val' = val + push_bit (7 * i) (ucast (b AND 0x7F));
     if b AND 0x80 \<noteq> 0 \<and> Suc i < MAX_REMLEN_BYTES then rd_remlen_loop buf d (Suc i) val'
     else Some (if b AND 0x80 \<noteq> 0 then - 1 else int (Suc i), val') }"
  by pat_completeness auto
termination by (relation "measure (\<lambda>(_, _, i, _). MAX_REMLEN_BYTES - i)") auto

declare rd_remlen_loop.simps [simp del]

definition buf_rd_remlen :: "u8 list \<Rightarrow> nat \<Rightarrow> (i32 \<times> u32) option" where
  "buf_rd_remlen buf d = rd_remlen_loop buf d 0 0"

section \<open>Construction of a packet\<close>

text \<open>
  The guard of the second test is \<open>topic + msg_id? 2 : 0\<close>, which C parses as
  \<open>(topic + msg_id)? 2 : 0\<close>: for a valid pointer the constant 2.
\<close>

definition mqp_pub_append_topic ::
  "mqtt_packet \<Rightarrow> utf8_string \<Rightarrow> u16 \<Rightarrow> (i32 \<times> mqtt_packet) option" where
  "mqp_pub_append_topic mqp topic msg_id =
     (let buf = MQP_VHEADER_BUF mqp in
      if p_vh_len mqp \<noteq> 0 then Some (- 1, mqp)
      else if MQP_FREEBUF_LEN mqp < 2 then Some (MQP_ERR_PKT_LEN, mqp)
      else do {
        (n, b) \<leftarrow> buf_wr_utf8 (p_buffer mqp) buf topic;
        (n, b, mqp) \<leftarrow>
          (if msg_id \<noteq> 0
           then do { b \<leftarrow> buf_wr_nbo_2B b (buf + n) msg_id; Some (n + 2, b, mqp\<lparr>p_msg_id := msg_id\<rparr>) }
           else Some (n, b, mqp));
        Some (int n, mqp\<lparr>p_buffer := b, p_vh_len := p_vh_len mqp + of_nat n\<rparr>) })"

definition mqp_pub_append_data ::
  "mqtt_packet \<Rightarrow> u8 list \<Rightarrow> u32 \<Rightarrow> (i32 \<times> mqtt_packet) option" where
  "mqp_pub_append_data mqp data_buf data_len =
     (let buf = MQP_PAYLOAD_BUF mqp + unat (p_pl_len mqp) in
      if p_vh_len mqp = 0 then Some (- 1, mqp)
      else if MQP_FREEBUF_LEN mqp < data_len then Some (MQP_ERR_PKT_LEN, mqp)
      else do {
        b \<leftarrow> buf_wr_nbytes (p_buffer mqp) buf data_buf (unat data_len);
        Some (uint data_len, mqp\<lparr>p_buffer := b, p_pl_len := p_pl_len mqp + data_len\<rparr>) })"

definition mqp_prep_fh :: "mqtt_packet \<Rightarrow> u8 \<Rightarrow> (i32 \<times> mqtt_packet) option" where
  "mqp_prep_fh mqp flags =
     (let remlen = ucast (p_vh_len mqp) + p_pl_len mqp; ref = unat (p_offset mqp);
          byte1 = MAKE_FH_BYTE1 (p_msg_type mqp) flags in
      do {
        (i, b) \<leftarrow> buf_tail_wr_remlen (p_buffer mqp) ref remlen;
        b \<leftarrow> (if Suc i \<le> ref then buf_put b (ref - i - 1) byte1 else None);
        Some (int (Suc i), mqp\<lparr>p_buffer := b, p_fh_byte1 := byte1, p_fh_len := of_nat (Suc i),
                p_offset := p_offset mqp - of_nat (Suc i)\<rparr>) })"

section \<open>Processing of a received packet\<close>

definition proc_vh_msg_id_rx :: "mqtt_packet \<Rightarrow> (bool \<times> mqtt_packet) option" where
  "proc_vh_msg_id_rx mqp =
     (if p_pl_len mqp < 2 then Some (False, mqp)
      else do {
        mid \<leftarrow> buf_rd_nbo_2B (p_buffer mqp) (MQP_VHEADER_BUF mqp);
        Some (True, mqp\<lparr>p_msg_id := mid, p_vh_len := p_vh_len mqp + 2, p_pl_len := p_pl_len mqp - 2\<rparr>) })"

definition mqp_proc_msg_id_ack_rx :: "mqtt_packet \<Rightarrow> bool \<Rightarrow> (bool \<times> mqtt_packet) option" where
  "mqp_proc_msg_id_ack_rx mqp has_pl = do {
     (ok, mqp) \<leftarrow> proc_vh_msg_id_rx mqp;
     Some (ok \<and> has_pl = (p_pl_len mqp \<noteq> 0), mqp) }"

definition mqp_proc_pub_rx :: "mqtt_packet \<Rightarrow> (bool \<times> mqtt_packet) option" where
  "mqp_proc_pub_rx mqp =
     (let ref = MQP_VHEADER_BUF mqp in
      if p_pl_len mqp < 2 then Some (False, mqp)
      else do {
        tmp \<leftarrow> buf_rd_nbo_2B (p_buffer mqp) ref;
        let n = 2 + unat tmp;
        if ENUM_QOS (p_fh_byte1 mqp) \<noteq> MQTT_QOS0 then
          (if p_pl_len mqp < of_nat (n + 2) then Some (False, mqp)
           else do {
             mid \<leftarrow> buf_rd_nbo_2B (p_buffer mqp) (ref + n);
             Some (True, mqp\<lparr>p_msg_id := mid, p_vh_len := p_vh_len mqp + of_nat (n + 2),
                            p_pl_len := p_pl_len mqp - of_nat (n + 2)\<rparr>) })
        else Some (True, mqp\<lparr>p_vh_len := p_vh_len mqp + of_nat n,
                            p_pl_len := p_pl_len mqp - of_nat n\<rparr>) })"


section \<open>Header bytes\<close>

lemma MSG_TYPE_MAKE_FH_BYTE1:
  assumes "unat msg_type < 16" "unat flags < 16"
  shows "MSG_TYPE (MAKE_FH_BYTE1 msg_type flags) = msg_type"
proof (rule bit_word_eqI)
  fix n assume n: "n < LENGTH(8)"
  have "\<not> bit flags m" "\<not> bit msg_type m" if "4 \<le> m" for m
    using assms bit_less_exp[of _ 4] that by simp_all
  then have "\<not> bit flags (n + 4)" "n < 4 \<or> \<not> bit msg_type n" by (auto simp: not_less)
  with n show "bit (MSG_TYPE (MAKE_FH_BYTE1 msg_type flags)) n = bit msg_type n"
    unfolding MSG_TYPE_def MAKE_FH_BYTE1_def masks
    by (auto simp: bit_simps add.commute)
qed

lemma fh_byte1_and_6: "MAKE_FH_BYTE1 m f AND 0x6 = f AND 0x6"
proof -
  have "push_bit 4 m AND 0x6 = 0"
    by (rule bit_word_eqI) (use bit_less_exp[of "0x6::u8" 3] in \<open>auto simp: bit_simps\<close>)
  then show ?thesis by (simp add: MAKE_FH_BYTE1_def bit.conj_disj_distrib2)
qed

lemma ENUM_QOS_flags:
  assumes "unat qos < 4"
  shows "ENUM_QOS (MAKE_FH_BYTE1 msg_type (MAKE_FH_FLAGS dup qos retain)) = qos"
  unfolding ENUM_QOS_def fh_byte1_and_6 MAKE_FH_FLAGS_def
  using u8_less_4[OF assms] by (elim disjE; cases dup; cases retain; simp)

lemma fh_byte1_and_hi: "MAKE_FH_BYTE1 m f AND 0x8 = f AND 0x8" "MAKE_FH_BYTE1 m f AND 0x1 = f AND 0x1"
proof -
  have "push_bit 4 m AND 0x8 = 0" "push_bit 4 m AND 0x1 = 0"
    by (rule bit_word_eqI; use bit_less_exp[of "0x8::u8" 4] bit_less_exp[of "0x1::u8" 4] in \<open>auto simp: bit_simps\<close>)+
  then show "MAKE_FH_BYTE1 m f AND 0x8 = f AND 0x8" "MAKE_FH_BYTE1 m f AND 0x1 = f AND 0x1"
    by (simp_all add: MAKE_FH_BYTE1_def bit.conj_disj_distrib2)
qed

lemma MAKE_FH_FLAGS_less: "unat (MAKE_FH_FLAGS dup qos retain) < 16"
proof -
  have "MAKE_FH_FLAGS dup qos retain \<le> 0xF" unfolding MAKE_FH_FLAGS_def by (rule word_and_le1)
  then show ?thesis by (simp add: word_le_nat_alt)
qed

lemma flags_of_byte1:
  assumes "unat qos < 4"
  shows "BOOL_DUP (MAKE_FH_BYTE1 m (MAKE_FH_FLAGS dup qos retain)) = dup"
    "BOOL_RETAIN (MAKE_FH_BYTE1 m (MAKE_FH_FLAGS dup qos retain)) = retain"
proof -
  show "BOOL_DUP (MAKE_FH_BYTE1 m (MAKE_FH_FLAGS dup qos retain)) = dup"
    unfolding BOOL_DUP_def fh_byte1_and_hi(1) MAKE_FH_FLAGS_def
    using u8_less_4[OF assms] by (elim disjE; cases dup; cases retain; simp)
  show "BOOL_RETAIN (MAKE_FH_BYTE1 m (MAKE_FH_FLAGS dup qos retain)) = retain"
    unfolding BOOL_RETAIN_def fh_byte1_and_hi(2) MAKE_FH_FLAGS_def
    using u8_less_4[OF assms] by (elim disjE; cases dup; cases retain; simp)
qed

section \<open>The remaining length\<close>

lemma remlen_split: "(r AND 0x7F) + push_bit 7 (drop_bit 7 r) = r" for r :: u32
  using bits_ident[of 7 r] unfolding masks by (simp only: take_bit_eq_mask add.commute)
lemma push_split: "push_bit n r = push_bit n (r AND 0x7F) + push_bit (n + 7) (drop_bit 7 r)" for r :: u32
proof -
  have "push_bit n r = push_bit n ((r AND 0x7F) + push_bit 7 (drop_bit 7 r))"
    by (simp only: remlen_split)
  also have "\<dots> = push_bit n (r AND 0x7F) + push_bit (n + 7) (drop_bit 7 r)"
    by (simp add: push_bit_add)
  finally show ?thesis .
qed
definition remlen_size :: "u32 \<Rightarrow> nat" where
 "remlen_size r = (if unat r < 2^7 then 1 else if unat r < 2^14 then 2 else if unat r < 2^21 then 3 else 4)"

lemma remlen_vals_step:
  "i < 4 \<Longrightarrow> remlen_vals i r =
     (if unat r < 128 then Some [ucast (r AND 0x7F)]
      else map_option (\<lambda>vs. (ucast (r AND 0x7F) OR 0x80) # vs) (remlen_vals (i + 1) (drop_bit 7 r)))"
  using drop_bit_eq_0_iff[of 7 r] by (simp add: remlen_vals.simps[of i] wire_consts Let_def)

lemma remlen_vals_end: "4 \<le> i \<Longrightarrow> remlen_vals i r = None"
  by (simp add: remlen_vals.simps wire_consts)

lemma remlen_vals_all:
  "remlen_vals 0 r =
    (let b0 = ucast (r AND 0x7F); b1 = ucast (drop_bit 7 r AND 0x7F);
         b2 = ucast (drop_bit 14 r AND 0x7F); b3 = ucast (drop_bit 21 r AND 0x7F) in
     if unat r < 2 ^ 7 then Some [b0]
     else if unat r < 2 ^ 14 then Some [b0 OR 0x80, b1]
     else if unat r < 2 ^ 21 then Some [b0 OR 0x80, b1 OR 0x80, b2]
     else if unat r < 2 ^ 28 then Some [b0 OR 0x80, b1 OR 0x80, b2 OR 0x80, b3]
     else None)"
proof -
  have "remlen_vals 0 r = (if unat r < 2 ^ 7 then Some [ucast (r AND 0x7F)]
      else map_option (\<lambda>vs. (ucast (r AND 0x7F) OR 0x80) # vs) (remlen_vals 1 (drop_bit 7 r)))"
    using remlen_vals_step[of 0 r] by simp
  moreover have "remlen_vals 1 (drop_bit 7 r) =
     (if unat r < 2 ^ 14 then Some [ucast (drop_bit 7 r AND 0x7F)]
      else map_option (\<lambda>vs. (ucast (drop_bit 7 r AND 0x7F) OR 0x80) # vs) (remlen_vals 2 (drop_bit 14 r)))"
    using remlen_vals_step[of 1 "drop_bit 7 r"]
    by (simp add: unat_drop_bit div_less_iff_less_mult numeral_2_eq_2[symmetric] del: One_nat_def)
  moreover have "remlen_vals 2 (drop_bit 14 r) =
     (if unat r < 2 ^ 21 then Some [ucast (drop_bit 14 r AND 0x7F)]
      else map_option (\<lambda>vs. (ucast (drop_bit 14 r AND 0x7F) OR 0x80) # vs) (remlen_vals 3 (drop_bit 21 r)))"
    using remlen_vals_step[of 2 "drop_bit 14 r"]
    by (simp add: unat_drop_bit div_less_iff_less_mult)
  moreover have "remlen_vals 3 (drop_bit 21 r) =
     (if unat r < 2 ^ 28 then Some [ucast (drop_bit 21 r AND 0x7F)] else None)"
    using remlen_vals_step[of 3 "drop_bit 21 r"] remlen_vals_end[of 4]
    by (simp add: unat_drop_bit div_less_iff_less_mult)
  ultimately show ?thesis by (simp add: Let_def)
qed

lemma remlen_vals_None_iff: "remlen_vals 0 r = None \<longleftrightarrow> 2 ^ 28 \<le> unat r"
  by (simp add: remlen_vals_all Let_def)

lemma remlen_vals_length: "remlen_vals 0 r = Some vs \<Longrightarrow> length vs = remlen_size r"
  by (auto simp: remlen_vals_all Let_def remlen_size_def split: if_splits)

lemma remlen_byte:
  fixes r :: u32
  shows "\<not> bit (ucast (r AND 0x7F) :: u8) 7" "bit ((ucast (r AND 0x7F) :: u8) OR 0x80) 7"
    "ucast ((ucast (r AND 0x7F) :: u8) AND 0x7F) = r AND 0x7F"
    "ucast (((ucast (r AND 0x7F) :: u8) OR 0x80) AND 0x7F) = r AND 0x7F"
  by (simp_all only: masks take_bit_eq_mask[symmetric])
   (auto simp: bit_simps intro!: bit_word_eqI)
lemma rd_step_last: "i < 4 \<Longrightarrow> buf_get buf (d + i) = Some b \<Longrightarrow> \<not> bit b 7 \<Longrightarrow>
   rd_remlen_loop buf d i val = Some (int (Suc i), val + push_bit (7 * i) (ucast (b AND 0x7F)))"
   by (simp add: rd_remlen_loop.simps[of buf d i] and_80)
lemma rd_step_more: "Suc i < 4 \<Longrightarrow> buf_get buf (d + i) = Some b \<Longrightarrow> bit b 7 \<Longrightarrow>
   rd_remlen_loop buf d i val = rd_remlen_loop buf d (Suc i) (val + push_bit (7 * i) (ucast (b AND 0x7F)))"
   by (simp add: rd_remlen_loop.simps[of buf d i] and_80 wire_consts)
lemma rd_remlen_loop_vals:
  assumes "remlen_vals i r = Some vs" "\<And>j. j < length vs \<Longrightarrow> buf_get buf (d + i + j) = Some (vs ! j)"
  shows "rd_remlen_loop buf d i val = Some (int (i + length vs), val + push_bit (7 * i) r)"
  using assms
proof (induction "4 - i" arbitrary: i r vs val)
  case 0
  then show ?case using remlen_vals_end[of i r] by simp
next
  case (Suc k)
  then have i: "i < 4" by simp
  show ?case
  proof (cases "unat r < 128")
    case True
    then have vs: "vs = [ucast (r AND 0x7F)]" using Suc.prems(1) i by (simp add: remlen_vals_step)
    have "drop_bit 7 r = 0" using True drop_bit_eq_0_iff[of 7 r] by simp
    then have "push_bit (7 * i) r = push_bit (7 * i) (r AND 0x7F)" using push_split[of "7 * i" r] by simp
    then show ?thesis using vs rd_step_last[OF i, of buf d "ucast (r AND 0x7F)"] Suc.prems(2)[of 0] remlen_byte[of r] by simp
  next
    case False
    let ?b = "ucast (r AND 0x7F) OR 0x80 :: u8" and ?val' = "val + push_bit (7 * i) (r AND 0x7F)"
    obtain vs' where vs': "remlen_vals (Suc i) (drop_bit 7 r) = Some vs'" "vs = ?b # vs'"
      using Suc.prems(1) i False by (auto simp: remlen_vals_step)
    have g: "buf_get buf (d + i) = Some ?b" using Suc.prems(2)[of 0] vs'(2) by simp
    have si: "Suc i < 4" using vs'(1) remlen_vals_end[of "Suc i"] by (cases "Suc i < 4") auto
    have k: "k = 4 - Suc i" using Suc.hyps(2) by simp
    have tail: "buf_get buf (d + Suc i + j) = Some (vs' ! j)" if "j < length vs'" for j
      using Suc.prems(2)[of "Suc j"] that vs'(2) by simp
    have "rd_remlen_loop buf d i val = rd_remlen_loop buf d (Suc i) ?val'"
      using rd_step_more[OF si g, of val] remlen_byte[of r] by simp
    also have "\<dots> = Some (int (Suc i + length vs'), ?val' + push_bit (7 * Suc i) (drop_bit 7 r))"
      by (rule Suc.hyps(1)[OF k vs'(1)]) (rule tail)
    also have "?val' + push_bit (7 * Suc i) (drop_bit 7 r) = val + push_bit (7 * i) r"
      unfolding push_split[of "7 * i" r] by (simp only: mult_Suc_right add.commute add.left_commute)
    finally show ?thesis using vs'(2) by simp
  qed
qed
lemma buf_tail_wr_remlen_eq:
  "buf_tail_wr_remlen buf d r =
    (case remlen_vals 0 r of None \<Rightarrow> None
     | Some vs \<Rightarrow> if length vs \<le> d \<and> d \<le> length buf then Some (length vs, overlay buf (d - length vs) vs) else None)"
proof (cases "remlen_vals 0 r")
  case None
  then show ?thesis by (simp add: buf_tail_wr_remlen_def)
next
  case (Some vs)
  moreover have "length vs \<noteq> 0" using remlen_vals_length[OF Some] by (simp add: remlen_size_def)
  ultimately show ?thesis by (auto simp: buf_tail_wr_remlen_def mem_simps Let_def)
qed

lemma remlen_size_bounds: "1 \<le> remlen_size r" "remlen_size r \<le> 4" by (auto simp: remlen_size_def)

text \<open>
  C26: the codec of the remaining length. Every value below \<open>2 ^ 28\<close> is written into the
  tail of the header space as 1 to 4 bytes, \<open>buf_rd_remlen\<close> reads the value back from
  exactly those bytes, and nothing else in the buffer changes.
\<close>

theorem remlen_roundtrip:
  assumes "unat r < 2 ^ 28" "4 \<le> d" "d \<le> length buf"
  shows "\<exists>buf'. buf_tail_wr_remlen buf d r = Some (remlen_size r, buf') \<and>
     buf_rd_remlen buf' (d - remlen_size r) = Some (int (remlen_size r), r) \<and>
     take (d - remlen_size r) buf' = take (d - remlen_size r) buf \<and> drop d buf' = drop d buf"
proof -
  obtain vs where vs: "remlen_vals 0 r = Some vs" using assms(1) remlen_vals_None_iff[of r] by fastforce
  let ?n = "remlen_size r" and ?buf = "overlay buf (d - remlen_size r) vs"
  have n: "length vs = ?n" "?n \<le> d" using remlen_vals_length[OF vs] remlen_size_bounds[of r] assms(2) by auto
  have "buf_get ?buf (d - ?n + 0 + j) = Some (vs ! j)" if "j < length vs" for j
    using that n assms(3) by (simp add: mem_simps nth_overlay_in)
  then have "buf_rd_remlen ?buf (d - ?n) = Some (int ?n, r)"
    unfolding buf_rd_remlen_def using rd_remlen_loop_vals[OF vs, of ?buf "d - ?n" 0] n by simp
  then show ?thesis using vs n assms(3) by (simp add: buf_tail_wr_remlen_eq drop_overlay_past)
qed


theorem remlen_roundtrip_witness:
  "\<exists>buf'. buf_tail_wr_remlen (replicate 6 0) 5 321 = Some (remlen_size 321, buf') \<and>
     buf_rd_remlen buf' (5 - remlen_size 321) = Some (int (remlen_size 321), 321) \<and>
     take (5 - remlen_size 321) buf' = take (5 - remlen_size 321) (replicate 6 0) \<and>
     drop 5 buf' = drop 5 (replicate 6 0)"
  using remlen_roundtrip [of 321 5 "replicate 6 0"] by simp

text \<open>A value of \<open>2 ^ 28\<close> or more would be stored behind the local array of the encoder.\<close>

lemma buf_tail_wr_remlen_None: "2 ^ 28 \<le> unat r \<Longrightarrow> buf_tail_wr_remlen buf d r = None"
  using remlen_vals_None_iff[of r] by (simp add: buf_tail_wr_remlen_def)

section \<open>Building a PUBLISH\<close>

text \<open>
  The bytes that a PUBLISH has on the wire: the variable header (topic and, for a QoS above
  0, the packet identifier), the header in front of it and the data behind it.
\<close>

definition pub_vheader :: "c8 list \<Rightarrow> u16 \<Rightarrow> u8 list" where
  "pub_vheader topic mid = [hi8 (of_nat (length topic)), lo8 (of_nat (length topic))] @ topic @
     (if mid \<noteq> 0 then [hi8 mid, lo8 mid] else [])"
definition pub_wire :: "u8 \<Rightarrow> c8 list \<Rightarrow> u16 \<Rightarrow> u8 list \<Rightarrow> u8 list" where
  "pub_wire flags topic mid data =
    (let body = pub_vheader topic mid @ data in
     MAKE_FH_BYTE1 MQTT_PUBLISH flags # the (remlen_vals 0 (of_nat (length body))) @ body)"
definition mqp_fresh :: "mqtt_packet \<Rightarrow> bool" where
  "mqp_fresh mqp \<longleftrightarrow> p_fh_len mqp = 0 \<and> p_vh_len mqp = 0 \<and> p_pl_len mqp = 0 \<and> p_msg_id mqp = 0 \<and>
      p_msg_type mqp = MQTT_PUBLISH \<and> p_offset mqp = 5 \<and> unat (p_maxlen mqp) \<le> length (p_buffer mqp)"
definition mqp_content :: "mqtt_packet \<Rightarrow> u8 list" where
  "mqp_content mqp = take (unat (MQP_CONTENT_LEN mqp)) (drop (MQP_FHEADER_BUF mqp) (p_buffer mqp))"

lemma u_content_valid: "u_valid t \<Longrightarrow> length (u_content t) = unat (u_length t)"
  by (simp add: u_valid_def u_content_def)
lemma length_pub_vheader: "length (pub_vheader t mid) = 2 + length t + (if mid \<noteq> 0 then 2 else 0)"
  by (simp add: pub_vheader_def)

lemma append_topic_fits:
  assumes "p_fh_len mqp = 0" "p_vh_len mqp = 0" "p_pl_len mqp = 0" "u_valid topic"
    "unat (p_maxlen mqp) \<le> length (p_buffer mqp)"
    "unat (p_offset mqp) + length (pub_vheader (u_content topic) mid) \<le> unat (p_maxlen mqp)"
  shows "mqp_pub_append_topic mqp topic mid = Some (int (length (pub_vheader (u_content topic) mid)),
     mqp\<lparr>p_buffer := overlay (p_buffer mqp) (unat (p_offset mqp)) (pub_vheader (u_content topic) mid),
         p_vh_len := of_nat (length (pub_vheader (u_content topic) mid)),
         p_msg_id := if mid \<noteq> 0 then mid else p_msg_id mqp\<rparr>)"
proof -
  let ?o = "unat (p_offset mqp)" and ?l = "unat (u_length topic)" and ?b = "p_buffer mqp" and ?m = "p_maxlen mqp"
  have l: "length (u_content topic) = ?l" by (rule u_content_valid[OF assms(4)])
  have fit: "?o + 2 + ?l + (if mid \<noteq> 0 then 2 else 0) \<le> length ?b"
    using assms(5,6) by (simp add: length_pub_vheader l)
  have "unat (?m - ucast (p_offset mqp)) = unat ?m - ?o"
    using assms(6) by (subst unat_sub) (auto simp: word_le_nat_alt unat_ucast_up_simp)
  then have free: "\<not> MQP_FREEBUF_LEN mqp < 2"
    using assms(6) by (simp add: MQP_FREEBUF_LEN_def MQP_CONTENT_LEN_def assms(1-3) word_less_nat_alt length_pub_vheader)
  have w1: "buf_wr_nbo_2B ?b ?o (u_length topic) = Some (overlay ?b ?o [hi8 (u_length topic), lo8 (u_length topic)])"
    using fit by (simp add: mem_simps)
  let ?s = "[hi8 (u_length topic), lo8 (u_length topic)] @ u_content topic"
  have w2: "buf_wr_nbytes (overlay ?b ?o [hi8 (u_length topic), lo8 (u_length topic)]) (?o + 2) (u_buffer topic) ?l =
     Some (overlay ?b ?o ?s)"
    using fit assms(4) overlay_overlay[of ?o "[hi8 (u_length topic), lo8 (u_length topic)]" ?b "u_content topic"]
    by (simp add: mem_simps u_valid_def u_content_def)
  have w3: "buf_wr_nbo_2B (overlay ?b ?o ?s) (?o + (2 + ?l)) mid = Some (overlay ?b ?o (?s @ [hi8 mid, lo8 mid]))" if "mid \<noteq> 0"
    using fit that l overlay_overlay[of ?o ?s ?b "[hi8 mid, lo8 mid]"] by (simp add: mem_simps)
  have v: "MQP_VHEADER_BUF mqp = ?o" by (simp add: MQP_VHEADER_BUF_def MQP_FHEADER_BUF_def assms)
  show ?thesis
    using w1 w2 w3 free assms(2)
    by (simp add: mqp_pub_append_topic_def v buf_wr_utf8_def pub_vheader_def l)
qed

lemma append_data_fits:
  assumes "p_vh_len mqp \<noteq> 0" "unat (p_maxlen mqp) \<le> length (p_buffer mqp)" "unat len \<le> length data"
    "MQP_PAYLOAD_BUF mqp + unat (p_pl_len mqp) + unat len \<le> unat (p_maxlen mqp)"
  shows "mqp_pub_append_data mqp data len = Some (uint len,
     mqp\<lparr>p_buffer := overlay (p_buffer mqp) (MQP_PAYLOAD_BUF mqp + unat (p_pl_len mqp)) (take (unat len) data),
         p_pl_len := p_pl_len mqp + len\<rparr>)"
proof -
  let ?c = "unat (p_fh_len mqp) + unat (p_vh_len mqp) + unat (p_pl_len mqp)"
  have b: "unat (p_offset mqp) + ?c + unat len \<le> unat (p_maxlen mqp)"
    using assms(4) by (simp add: MQP_PAYLOAD_BUF_def MQP_VHEADER_BUF_def MQP_FHEADER_BUF_def)
  have m: "unat (p_maxlen mqp) < 2 ^ 32" using unsigned_less[of "p_maxlen mqp"] by simp
  have c: "unat (MQP_CONTENT_LEN mqp) = ?c"
    unfolding MQP_CONTENT_LEN_def using b m by (simp add: unat_word_ariths unat_ucast_up_simp)
  have "unat (p_maxlen mqp - ucast (p_offset mqp)) = unat (p_maxlen mqp) - unat (p_offset mqp)"
    using b by (subst unat_sub) (auto simp: word_le_nat_alt unat_ucast_up_simp)
  then have "unat (MQP_FREEBUF_LEN mqp) = unat (p_maxlen mqp) - unat (p_offset mqp) - ?c"
    unfolding MQP_FREEBUF_LEN_def using b c by (subst unat_sub) (auto simp: word_le_nat_alt)
  then have "\<not> MQP_FREEBUF_LEN mqp < len" using b by (simp add: word_less_nat_alt)
  then show ?thesis using assms by (simp add: mqp_pub_append_data_def mem_simps)
qed

lemma prep_fh_fits:
  assumes "remlen_vals 0 (ucast (p_vh_len mqp) + p_pl_len mqp) = Some vs"
    "Suc (length vs) \<le> unat (p_offset mqp)" "unat (p_offset mqp) \<le> length (p_buffer mqp)"
  shows "mqp_prep_fh mqp flags = Some (int (Suc (length vs)),
     mqp\<lparr>p_buffer := overlay (p_buffer mqp) (unat (p_offset mqp) - Suc (length vs))
                       (MAKE_FH_BYTE1 (p_msg_type mqp) flags # vs),
         p_fh_byte1 := MAKE_FH_BYTE1 (p_msg_type mqp) flags, p_fh_len := of_nat (Suc (length vs)),
         p_offset := p_offset mqp - of_nat (Suc (length vs))\<rparr>)"
proof -
  let ?o = "unat (p_offset mqp)" and ?B = "MAKE_FH_BYTE1 (p_msg_type mqp) flags" and ?b = "p_buffer mqp"
  have "(overlay ?b (?o - length vs) vs)[?o - Suc (length vs) := ?B] = overlay ?b (?o - Suc (length vs)) (?B # vs)"
    using assms(2,3) 
    by (simp add: overlay_def list_update_append1 Suc_diff_Suc[symmetric] take_Suc_conv_app_nth list_update_append)
  then show ?thesis using assms
    by (simp add: mqp_prep_fh_def Let_def buf_tail_wr_remlen_eq mem_simps)
qed

definition pub_build :: "mqtt_packet \<Rightarrow> utf8_string \<Rightarrow> u16 \<Rightarrow> u8 list \<Rightarrow> u32 \<Rightarrow> u8 \<Rightarrow> mqtt_packet option" where
  "pub_build mqp topic mid data len flags = do {
     (_, mqp) \<leftarrow> mqp_pub_append_topic mqp topic mid;
     (_, mqp) \<leftarrow> mqp_pub_append_data mqp data len;
     (_, mqp) \<leftarrow> mqp_prep_fh mqp flags;
     Some mqp }"

lemma pub_build_steps:
  assumes "mqp_fresh mqp" "u_valid topic" "unat (p_maxlen mqp) \<le> 0xFFFF"
    "5 + length (pub_vheader (u_content topic) mid) + length data \<le> unat (p_maxlen mqp)"
  shows "\<exists>r1 m1 r2 m2 r3 mqp'. mqp_pub_append_topic mqp topic mid = Some (r1, m1) \<and> 0 \<le> r1 \<and>
     mqp_pub_append_data m1 data (of_nat (length data)) = Some (r2, m2) \<and> 0 \<le> r2 \<and>
     mqp_prep_fh m2 flags = Some (r3, mqp') \<and>
     mqp_content mqp' = pub_wire flags (u_content topic) mid data \<and>
     p_msg_id mqp' = mid \<and> unat (MQP_CONTENT_LEN mqp') = length (pub_wire flags (u_content topic) mid data) \<and>
     MQP_FHEADER_BUF mqp' + unat (MQP_CONTENT_LEN mqp') \<le> unat (p_maxlen mqp) \<and>
     p_fh_byte1 mqp' = MAKE_FH_BYTE1 MQTT_PUBLISH flags \<and> length (p_buffer mqp') = length (p_buffer mqp) \<and>
     p_maxlen mqp' = p_maxlen mqp \<and> p_free_hook mqp' = p_free_hook mqp \<and> p_n_refs mqp' = p_n_refs mqp \<and>
     p_private mqp' = p_private mqp"
proof -
  let ?V = "pub_vheader (u_content topic) mid" and ?b = "p_buffer mqp"
  let ?B = "MAKE_FH_BYTE1 MQTT_PUBLISH flags"
  have f: "p_fh_len mqp = 0" "p_vh_len mqp = 0" "p_pl_len mqp = 0" "p_offset mqp = 5" "p_msg_id mqp = 0"
    "p_msg_type mqp = MQTT_PUBLISH" "unat (p_maxlen mqp) \<le> length ?b"
    using assms(1) by (auto simp: mqp_fresh_def)
  have V: "2 \<le> length ?V" "length ?V < 2 ^ 16" "length ?V + length data < 2 ^ 16"
    using assms(3,4) by (auto simp: length_pub_vheader)
  let ?m1 = "mqp\<lparr>p_buffer := overlay ?b 5 ?V, p_vh_len := of_nat (length ?V), p_msg_id := mid\<rparr>"
  have 1: "mqp_pub_append_topic mqp topic mid = Some (int (length ?V), ?m1)"
    using append_topic_fits[OF f(1-3) assms(2) f(7), of mid] assms(4) f by (cases "mid = 0") simp_all
  have vh: "unat (p_vh_len ?m1) = length ?V" using V by (simp add: unat_of_nat_eq)
  have vn: "p_vh_len ?m1 \<noteq> 0" using vh V by auto
  have dl: "unat (of_nat (length data) :: u32) = length data" using V by (simp add: unat_of_nat_eq)
  let ?m2 = "?m1\<lparr>p_buffer := overlay ?b 5 (?V @ data), p_pl_len := of_nat (length data)\<rparr>"
  have 2: "mqp_pub_append_data ?m1 data (of_nat (length data)) = Some (uint (of_nat (length data) :: u32), ?m2)"
    using append_data_fits[OF vn, of "of_nat (length data)" data] assms(4) f dl vh overlay_overlay[of 5 ?V ?b data]
    by (simp add: MQP_PAYLOAD_BUF_def MQP_VHEADER_BUF_def MQP_FHEADER_BUF_def)
  let ?body = "?V @ data" and ?r = "of_nat (length (?V @ data)) :: u32"
  have r: "ucast (p_vh_len ?m2) + p_pl_len ?m2 = ?r"
    using V by (simp add: word_unat_eq_iff unat_word_ariths unat_ucast_up_simp unat_of_nat_eq)
  have "unat ?r < 2 ^ 28" using V by (simp add: unat_of_nat_eq del: of_nat_add)
  then obtain vs where vs: "remlen_vals 0 ?r = Some vs" using remlen_vals_None_iff[of ?r] by fastforce
  have n: "1 \<le> length vs" "length vs \<le> 4" using remlen_vals_length[OF vs] remlen_size_bounds[of ?r] by auto
  let ?m3 = "?m2\<lparr>p_buffer := overlay (overlay ?b 5 ?body) (5 - Suc (length vs)) (?B # vs), p_fh_byte1 := ?B,
      p_fh_len := of_nat (Suc (length vs)), p_offset := 5 - of_nat (Suc (length vs))\<rparr>"
  have 3: "mqp_prep_fh ?m2 flags = Some (int (Suc (length vs)), ?m3)"
    using prep_fh_fits[of ?m2 vs flags] r vs n f assms(4) by simp
  have o: "unat (p_offset ?m3) = 5 - Suc (length vs)"
    using n by (simp add: unat_sub word_le_nat_alt unat_1_of_nat unat_of_nat_eq)
  have c: "unat (MQP_CONTENT_LEN ?m3) = Suc (length vs) + length ?body"
    using V n by (simp add: MQP_CONTENT_LEN_def unat_word_ariths unat_ucast_up_simp unat_of_nat_eq unat_1_of_nat)
  have "drop (5 - Suc (length vs)) (p_buffer ?m3) = (?B # vs) @ ?body @ drop (5 + length ?body) ?b"
    using n assms(4) f by simp
  then have "mqp_content ?m3 = (?B # vs) @ ?body"
    unfolding mqp_content_def c MQP_FHEADER_BUF_def o by simp
  moreover have "pub_wire flags (u_content topic) mid data = (?B # vs) @ ?body"
    using vs by (simp add: pub_wire_def Let_def)
  moreover have "MQP_FHEADER_BUF ?m3 + unat (MQP_CONTENT_LEN ?m3) \<le> unat (p_maxlen mqp)"
    unfolding c MQP_FHEADER_BUF_def o using n assms(4) by simp
  moreover have "length (p_buffer ?m3) = length ?b" using n assms(4) f by simp
  ultimately show ?thesis using 1 2 3 c by simp
qed

lemma pub_build_spec:
  assumes "mqp_fresh mqp" "u_valid topic" "unat (p_maxlen mqp) \<le> 0xFFFF"
    "5 + length (pub_vheader (u_content topic) mid) + length data \<le> unat (p_maxlen mqp)"
  shows "\<exists>mqp'. pub_build mqp topic mid data (of_nat (length data)) flags = Some mqp' \<and>
     mqp_content mqp' = pub_wire flags (u_content topic) mid data \<and>
     p_msg_id mqp' = mid \<and> unat (MQP_CONTENT_LEN mqp') = length (pub_wire flags (u_content topic) mid data)"
  using pub_build_steps[OF assms, of flags] by (auto simp: pub_build_def)

text \<open>
  C25: what \<open>mqp_pub_append_topic\<close>, \<open>mqp_pub_append_data\<close> and \<open>mqp_prep_fh\<close> leave in
  the buffer of a freshly allocated packet, from its offset on and for
  \<open>MQP_CONTENT_LEN\<close> bytes, is the PUBLISH packet of the topic, the identifier and the
  data, provided it fits in the buffer.
\<close>

theorem pub_build_wire:
  assumes "mqp_fresh mqp" "u_valid topic" "unat (p_maxlen mqp) \<le> 0xFFFF"
    "5 + length (pub_vheader (u_content topic) mid) + length data \<le> unat (p_maxlen mqp)"
  shows "\<exists>mqp'. pub_build mqp topic mid data (of_nat (length data)) flags = Some mqp' \<and>
     mqp_content mqp' = pub_wire flags (u_content topic) mid data \<and>
     p_msg_id mqp' = mid \<and> unat (MQP_CONTENT_LEN mqp') = length (pub_wire flags (u_content topic) mid data)"
  by (rule pub_build_spec[OF assms])

definition sample_tx :: mqtt_packet where
  "sample_tx = \<lparr>p_msg_type = MQTT_PUBLISH, p_fh_byte1 = 0, p_msg_id = 0, p_n_refs = 1, p_offset = 5,
     p_fh_len = 0, p_vh_len = 0, p_pl_len = 0, p_private = 0, p_maxlen = 16, p_buffer = replicate 16 0,
     p_free_hook = True, p_next = None\<rparr>"

definition sample_topic :: utf8_string where
  "sample_topic = \<lparr>u_buffer = [0x61, SLASH, 0x62], u_length = 3\<rparr>"

lemma sample_facts:
  "mqp_fresh sample_tx" "u_valid sample_topic" "u_content sample_topic = [0x61, SLASH, 0x62]"
  by (simp_all add: mqp_fresh_def sample_tx_def u_valid_def u_content_def sample_topic_def)

theorem pub_build_wire_witness:
  "\<exists>mqp'. pub_build sample_tx sample_topic 7 [1, 2] 2 2 = Some mqp' \<and>
     mqp_content mqp' = pub_wire 2 [0x61, SLASH, 0x62] 7 [1, 2] \<and>
     p_msg_id mqp' = 7 \<and> unat (MQP_CONTENT_LEN mqp') = length (pub_wire 2 [0x61, SLASH, 0x62] 7 [1, 2])"
  using pub_build_wire [of sample_tx sample_topic 7 "[1, 2]" 2] sample_facts
  by (simp add: length_pub_vheader sample_tx_def)

text \<open>
  C27: the length test of \<open>mqp_pub_append_topic\<close> is \<open>topic + msg_id? 2 : 0\<close>, which only
  ever asks for two bytes. For a topic that is longer than the free space but with two bytes
  free, the copy runs past the end of the packet buffer.
\<close>

theorem append_topic_overflow:
  assumes "p_fh_len mqp = 0" "p_vh_len mqp = 0" "p_pl_len mqp = 0" "u_valid topic"
    "length (p_buffer mqp) = unat (p_maxlen mqp)" "unat (p_offset mqp) + 2 \<le> unat (p_maxlen mqp)"
    "unat (p_maxlen mqp) < unat (p_offset mqp) + 2 + unat (u_length topic)"
  shows "mqp_pub_append_topic mqp topic mid = None"
proof -
  let ?o = "unat (p_offset mqp)" and ?m = "p_maxlen mqp"
  have "unat (?m - ucast (p_offset mqp)) = unat ?m - ?o"
    using assms(6) by (subst unat_sub) (auto simp: word_le_nat_alt unat_ucast_up_simp)
  then have free: "\<not> MQP_FREEBUF_LEN mqp < 2"
    using assms(6) by (simp add: MQP_FREEBUF_LEN_def MQP_CONTENT_LEN_def assms(1-3) word_less_nat_alt)
  have "u_length topic \<noteq> 0" using assms(6,7) by auto
  then have "unat (u_length topic) \<noteq> 0" by (simp add: unat_eq_zero)
  then show ?thesis using free assms 
    by (simp add: mqp_pub_append_topic_def MQP_VHEADER_BUF_def MQP_FHEADER_BUF_def buf_wr_utf8_def mem_simps u_valid_def)
qed

theorem append_topic_overflow_witness:
  "mqp_pub_append_topic (sample_tx\<lparr>p_maxlen := 8, p_buffer := replicate 8 0\<rparr>) sample_topic 0 = None"
  by (rule append_topic_overflow)
     (simp_all add: sample_tx_def sample_topic_def u_valid_def)

text \<open>
  C28: \<open>mqp_proc_pub_rx\<close> does not compare the topic length inside a QoS 0 PUBLISH with the
  length of the packet. A packet that declares a longer topic than it holds is accepted, and
  the payload length, an unsigned subtraction, wraps around to a value near \<open>2 ^ 32\<close>.
\<close>

theorem proc_pub_rx_topic_overrun:
  assumes "ENUM_QOS (p_fh_byte1 mqp) = MQTT_QOS0" "2 \<le> p_pl_len mqp" "p_pl_len mqp < 2 ^ 28"
    "buf_rd_nbo_2B (p_buffer mqp) (MQP_VHEADER_BUF mqp) = Some n"
    "unat (p_pl_len mqp) < 2 + unat n"
  shows "\<exists>m. mqp_proc_pub_rx mqp = Some (True, m) \<and>
     unat (p_pl_len m) = 2 ^ 32 - (2 + unat n - unat (p_pl_len mqp)) \<and> p_pl_len mqp < p_pl_len m"
proof -
  have n: "unat n < 2 ^ 16" using unsigned_less[of n, where 'a = nat] by simp
  let ?w = "of_nat (2 + unat n) :: u32"
  have w: "unat ?w = 2 + unat n" by (rule unat_of_nat_eq) (use n in simp)
  have "unat (p_pl_len mqp - ?w) = 2 ^ 32 - (2 + unat n - unat (p_pl_len mqp))"
    using assms(5) w n by (simp add: unat_sub_if_size word_size not_le del: of_nat_add)
  moreover have "unat (p_pl_len mqp) < 2 ^ 28" using assms(3) by (simp add: word_less_nat_alt)
  moreover have "mqp_proc_pub_rx mqp = Some (True, mqp\<lparr>p_vh_len := p_vh_len mqp + of_nat (2 + unat n),
      p_pl_len := p_pl_len mqp - ?w\<rparr>)"
    using assms(1,2,4) by (simp add: mqp_proc_pub_rx_def not_less[symmetric] del: of_nat_add of_nat_numeral)
  ultimately show ?thesis using n by (simp add: word_less_nat_alt del: of_nat_add)
qed

definition sample_rx :: mqtt_packet where
  "sample_rx = \<lparr>p_msg_type = MQTT_PUBLISH, p_fh_byte1 = 0x30, p_msg_id = 0, p_n_refs = 1, p_offset = 0,
     p_fh_len = 2, p_vh_len = 0, p_pl_len = 3, p_private = 0, p_maxlen = 16,
     p_buffer = [0x30, 3, 0, 9, 0x61] @ replicate 11 0, p_free_hook = False, p_next = None\<rparr>"

theorem proc_pub_rx_topic_overrun_witness:
  "\<exists>m. mqp_proc_pub_rx sample_rx = Some (True, m) \<and> unat (p_pl_len m) = 2 ^ 32 - 8 \<and> 3 < p_pl_len m"
proof -
  have r: "buf_rd_nbo_2B (p_buffer sample_rx) (MQP_VHEADER_BUF sample_rx) = Some 9"
    by (simp add: sample_rx_def MQP_VHEADER_BUF_def MQP_FHEADER_BUF_def mem_simps mk16_def)
  have "\<exists>m. mqp_proc_pub_rx sample_rx = Some (True, m) \<and>
     unat (p_pl_len m) = 2 ^ 32 - (2 + unat (9::u16) - unat (p_pl_len sample_rx)) \<and>
     p_pl_len sample_rx < p_pl_len m"
    by (rule proc_pub_rx_topic_overrun [OF _ _ _ r]) (simp_all add: sample_rx_def ENUM_QOS_def)
  then show ?thesis by (simp add: sample_rx_def)
qed

end
