(* ===== verification/MqttRecv.thy ===== *)
theory MqttRecv
  imports MqttWire
begin

text \<open>
  \<open>mqp_recv\<close> of \<open>netapps/mqtt/common/mqtt_common.c\<close>: the isolation of one packet from
  the TCP stream. The network service \<open>recv\<close> is a parameter of the model. Shown here: no
  network that obeys the documented contract of \<open>recv\<close> makes \<open>mqp_recv\<close> write outside
  the packet buffer or loop; on a byte stream it takes exactly one packet however the stream
  is cut into pieces; and a PUBLISH that one side builds is the one the other side parses.
\<close>

section \<open>Reception of one packet from the stream\<close>

text \<open>
  \<open>recv\<close> stands for \<open>net_ops->recv\<close> on one connection: from the state of the network
  and the number of bytes asked for to the return value, the bytes stored in the buffer and
  the new state. \<open>recv_ok\<close> is what \<open>mqtt_common.h\<close> documents of it: no more bytes than
  asked for, and a positive return value is their number.
\<close>

type_synonym 'n recv_fn = "'n \<Rightarrow> nat \<Rightarrow> i32 \<times> u8 list \<times> 'n"

definition recv_ok :: "'n recv_fn \<Rightarrow> bool" where
  "recv_ok recv = (\<forall>n len. case recv n len of (rv, bs, n') \<Rightarrow>
     length bs \<le> len \<and> (1 \<le> rv \<longrightarrow> rv = int (length bs)))"

function recv_fh_min :: "'n recv_fn \<Rightarrow> mqtt_packet \<Rightarrow> 'n \<Rightarrow> (i32 \<times> mqtt_packet \<times> 'n) option" where
  "recv_fh_min recv mqp n =
     (if p_fh_len mqp < 2 then
        (let (rv, bs, n') = recv n 1 in do {
           b \<leftarrow> buf_wr_nbytes (p_buffer mqp) (MQP_VHEADER_BUF mqp) bs (length bs);
           if rv < 1 then Some (MQP_ERR_NETWORK, mqp\<lparr>p_buffer := b\<rparr>, n')
           else recv_fh_min recv (mqp\<lparr>p_buffer := b, p_fh_len := p_fh_len mqp + 1\<rparr>) n' })
      else Some (0, mqp, n))"
  by pat_completeness auto
termination
  by (relation "measure (\<lambda>(_, mqp, _). 2 - unat (p_fh_len mqp))")
     (auto simp: word_less_nat_alt unat_word_ariths)

function recv_fh_rest :: "'n recv_fn \<Rightarrow> mqtt_packet \<Rightarrow> 'n \<Rightarrow> (i32 \<times> mqtt_packet \<times> 'n) option" where
  "recv_fh_rest recv mqp n = do {
     c \<leftarrow> buf_get (p_buffer mqp) (MQP_FHEADER_BUF mqp + unat (p_fh_len mqp) - 1);
     if c AND 0x80 \<noteq> 0 then
       (if of_nat MAX_FH_LEN < p_fh_len mqp then Some (MQP_ERR_NOT_DEF, mqp, n)
        else (let (rv, bs, n') = recv n 1 in do {
          b \<leftarrow> buf_wr_nbytes (p_buffer mqp) (MQP_VHEADER_BUF mqp) bs (length bs);
          if rv < 1 then Some (MQP_ERR_NETWORK, mqp\<lparr>p_buffer := b\<rparr>, n')
          else recv_fh_rest recv (mqp\<lparr>p_buffer := b, p_fh_len := p_fh_len mqp + 1\<rparr>) n' }))
     else Some (0, mqp, n) }"
  by pat_completeness auto
termination
  by (relation "measure (\<lambda>(_, mqp, _). 6 - unat (p_fh_len mqp))")
     (auto simp: word_less_nat_alt not_less unat_word_ariths MAX_FH_LEN_def)

declare recv_fh_min.simps [simp del] recv_fh_rest.simps [simp del]

partial_function (option) recv_payload ::
  "'n recv_fn \<Rightarrow> u32 \<Rightarrow> mqtt_packet \<Rightarrow> 'n \<Rightarrow> (i32 \<times> mqtt_packet \<times> 'n) option" where
  "recv_payload recv remlen mqp n =
     (if p_pl_len mqp < remlen then
        (case recv n (unat (remlen - p_pl_len mqp)) of (rv, bs, n') \<Rightarrow> do {
           b \<leftarrow> buf_wr_nbytes (p_buffer mqp) (MQP_VHEADER_BUF mqp + unat (p_pl_len mqp)) bs (length bs);
           if rv < 1 then Some (MQP_ERR_NETWORK, mqp\<lparr>p_buffer := b\<rparr>, n')
           else recv_payload recv remlen
                  (mqp\<lparr>p_buffer := b, p_pl_len := p_pl_len mqp + of_int rv\<rparr>) n' })
      else Some (0, mqp, n))"

text \<open>
  A loop that ended early returns its error; otherwise the next one runs. The length of the
  packet is checked against \<open>maxlen\<close> before the payload is read, and the result of
  \<open>mqp_buf_rd_remlen\<close> is not looked at.
\<close>

definition mqp_recv :: "'n recv_fn \<Rightarrow> mqtt_packet \<Rightarrow> 'n \<Rightarrow> (i32 \<times> mqtt_packet \<times> 'n) option" where
  "mqp_recv recv mqp n = do {
     (e, mqp, n) \<leftarrow> recv_fh_min recv mqp n;
     if e \<noteq> 0 then Some (e, mqp, n)
     else do {
       (e, mqp, n) \<leftarrow> recv_fh_rest recv mqp n;
       if e \<noteq> 0 then Some (e, mqp, n)
       else do {
         (_, remlen) \<leftarrow> buf_rd_remlen (p_buffer mqp) (MQP_FHEADER_BUF mqp + 1);
         if p_maxlen mqp < remlen + ucast (p_fh_len mqp) then Some (MQP_ERR_PKT_LEN, mqp, n)
         else do {
           (e, mqp, n) \<leftarrow> recv_payload recv remlen mqp n;
           if e \<noteq> 0 then Some (e, mqp, n)
           else do {
             c \<leftarrow> buf_get (p_buffer mqp) (MQP_FHEADER_BUF mqp);
             Some (uint (ucast (p_fh_len mqp) + remlen),
                   mqp\<lparr>p_fh_byte1 := c, p_msg_type := MSG_TYPE c\<rparr>, n) } } } } }"

text \<open>
  One network that obeys \<open>recv_ok\<close>: a byte stream handed out in pieces of arbitrary sizes.
\<close>

type_synonym stream = "u8 list \<times> nat list"

definition stream_recv :: "stream recv_fn" where
  "stream_recv = (\<lambda>(bs, ks) len.
     let k = max 1 (case ks of [] \<Rightarrow> len | k # _ \<Rightarrow> k); xs = take (min k len) bs
     in (int (length xs), xs, (drop (length xs) bs, tl ks)))"

lemma stream_recv_ok [simp]: "recv_ok stream_recv"
  by (auto simp: recv_ok_def stream_recv_def Let_def)

section \<open>Framing on a byte stream\<close>

lemma stream_recv_step:
  assumes "bs \<noteq> []" "0 < len"
  shows "\<exists>k ks'. 1 \<le> k \<and> k \<le> len \<and> k \<le> length bs \<and>
     stream_recv (bs, ks) len = (int k, take k bs, (drop k bs, ks'))"
proof -
  let ?c = "min (max 1 (case ks of [] \<Rightarrow> len | k # _ \<Rightarrow> k)) len"
  let ?k = "min ?c (length bs)"
  have "1 \<le> ?k" using assms by (cases bs) auto
  moreover have "take ?c bs = take ?k bs" by (cases "?c \<le> length bs") (auto simp: min_def)
  then have "stream_recv (bs, ks) len = (int ?k, take ?k bs, (drop ?k bs, tl ks))"
    unfolding stream_recv_def Let_def prod.case length_take by (simp only: min.commute[of "length bs"])
  ultimately show ?thesis using assms by (intro exI[of _ ?k] exI[of _ "tl ks"]) auto
qed

lemma stream_recv_1: "stream_recv (b # bs, ks) 1 = (1, [b], (bs, tl ks))"
  using stream_recv_step[of "b # bs" 1 ks] by (auto simp: stream_recv_def Let_def)

lemma recv_payload_stream:
  assumes "unat (p_pl_len mqp) + length body = unat remlen"
    "MQP_VHEADER_BUF mqp + unat remlen \<le> length (p_buffer mqp)"
  shows "\<exists>ks'. recv_payload stream_recv remlen mqp (body @ tail, ks) =
     Some (0, mqp\<lparr>p_buffer := overlay (p_buffer mqp) (MQP_VHEADER_BUF mqp + unat (p_pl_len mqp)) body,
                  p_pl_len := remlen\<rparr>, (tail, ks'))"
  using assms
proof (induction body arbitrary: mqp ks rule: length_induct)
  case (1 body)
  show ?case
  proof (cases "body = []")
    case True
    then have "p_pl_len mqp = remlen" using "1.prems"(1) by (simp add: word_unat_eq_iff)
    then show ?thesis using True by (simp add: recv_payload.simps)
  next
    case False
    let ?len = "unat (remlen - p_pl_len mqp)"
    have lt: "p_pl_len mqp < remlen" using False "1.prems"(1) by (cases body) (auto simp: word_less_nat_alt)
    have len: "?len = length body" using "1.prems"(1) by (subst unat_sub) (auto simp: word_le_nat_alt)
    obtain k ks' where k: "1 \<le> k" "k \<le> length body"
      "stream_recv (body @ tail, ks) ?len = (int k, take k body, (drop k body @ tail, ks'))"
      using stream_recv_step[of "body @ tail" ?len ks] False len by fastforce
    let ?d = "MQP_VHEADER_BUF mqp + unat (p_pl_len mqp)"
    let ?mqp = "mqp\<lparr>p_buffer := overlay (p_buffer mqp) ?d (take k body), p_pl_len := p_pl_len mqp + of_nat k\<rparr>"
    have pl: "unat (p_pl_len ?mqp) = unat (p_pl_len mqp) + k"
    proof -
      have "unat (p_pl_len mqp) + k < 2 ^ 32"
        using k "1.prems"(1) unsigned_less[of remlen, where 'a = nat] by simp
      then show ?thesis by (simp add: unat_word_ariths unat_of_nat)
    qed
    have V: "MQP_VHEADER_BUF ?mqp = MQP_VHEADER_BUF mqp" by (simp add: MQP_VHEADER_BUF_def MQP_FHEADER_BUF_def)
    have ln: "length (p_buffer ?mqp) = length (p_buffer mqp)" using k "1.prems" by simp
    have "\<exists>ks''. recv_payload stream_recv remlen ?mqp (drop k body @ tail, ks') =
     Some (0, ?mqp\<lparr>p_buffer := overlay (p_buffer ?mqp) (MQP_VHEADER_BUF ?mqp + unat (p_pl_len ?mqp)) (drop k body),
                  p_pl_len := remlen\<rparr>, (tail, ks''))"
      using "1.IH"[rule_format, of "drop k body" ?mqp ks'] k pl V ln "1.prems" by simp
    moreover have "overlay (p_buffer ?mqp) (MQP_VHEADER_BUF ?mqp + unat (p_pl_len ?mqp)) (drop k body) =
        overlay (p_buffer mqp) ?d body"
      unfolding pl V using overlay_overlay[of ?d "take k body" "p_buffer mqp" "drop k body"] k "1.prems"
      by (simp add: add.assoc)
    moreover have "recv_payload stream_recv remlen mqp (body @ tail, ks) =
        recv_payload stream_recv remlen ?mqp (drop k body @ tail, ks')"
      by (subst recv_payload.simps) (use k "1.prems" lt in \<open>simp add: mem_simps\<close>)
    ultimately show ?thesis by (auto)
  qed
qed

lemma remlen_vals_bits:
  "remlen_vals 0 r = Some vs \<Longrightarrow> j < length vs \<Longrightarrow> bit (vs ! j) 7 = (Suc j < length vs)"
  by (auto simp: remlen_vals_all Let_def remlen_byte less_Suc_eq nth_Cons' numeral_3_eq_3 split: if_splits)

lemma recv_fh_rest_stream:
  assumes "remlen_vals 0 r = Some vs" "p_buffer mqp = overlay buf (unat (p_offset mqp)) (B # take k vs)"
   "1 \<le> k" "k \<le> length vs" "p_fh_len mqp = of_nat (Suc k)" "unat (p_offset mqp) + Suc (length vs) \<le> length buf"
  shows "\<exists>ks'. recv_fh_rest stream_recv mqp (drop k vs @ tail, ks) =
    Some (0, mqp\<lparr>p_buffer := overlay buf (unat (p_offset mqp)) (B # vs), p_fh_len := of_nat (Suc (length vs))\<rparr>, (tail, ks'))"
  using assms
proof (induction "length vs - k" arbitrary: k mqp ks)
  case 0
  then have k: "k = length vs" by simp
  have vl: "length vs \<le> 4" using remlen_vals_length[OF "0.prems"(1)] remlen_size_bounds[of r] by simp
  have fl: "unat (p_fh_len mqp) = Suc k" using "0.prems"(5) k vl by (simp add: unat_1_of_nat)
  have ne: "vs \<noteq> []" using k "0.prems"(3) by auto
  have g: "buf_get (p_buffer mqp) (MQP_FHEADER_BUF mqp + unat (p_fh_len mqp) - 1) = Some (vs ! (k - 1))"
    using "0.prems"(2,3,6) k fl ne by (simp add: mem_simps MQP_FHEADER_BUF_def nth_overlay_in nth_Cons')
  have "\<not> bit (vs ! (k - 1)) 7" using remlen_vals_bits[OF "0.prems"(1), of "k - 1"] k "0.prems"(3) by simp
  then show ?case using g "0.prems" k
    by (simp add: recv_fh_rest.simps[of _ mqp] and_80)
next
  case (Suc m)
  then have k: "k < length vs" by simp
  have vl: "length vs \<le> 4" using remlen_vals_length[OF Suc.prems(1)] remlen_size_bounds[of r] by simp
  have fl: "unat (p_fh_len mqp) = Suc k" using Suc.prems(5) k vl by (simp add: unat_1_of_nat)
  let ?o = "unat (p_offset mqp)"
  have V: "MQP_VHEADER_BUF mqp = ?o + Suc k" by (simp add: MQP_VHEADER_BUF_def MQP_FHEADER_BUF_def fl)
  have g: "buf_get (p_buffer mqp) (MQP_FHEADER_BUF mqp + unat (p_fh_len mqp) - 1) = Some (vs ! (k - 1))"
    using Suc.prems k fl by (simp add: mem_simps MQP_FHEADER_BUF_def nth_overlay_in nth_Cons')
  have b: "bit (vs ! (k - 1)) 7" using remlen_vals_bits[OF Suc.prems(1), of "k - 1"] k Suc.prems(3) by simp
  have mx: "\<not> of_nat MAX_FH_LEN < p_fh_len mqp" using fl k vl by (simp add: word_less_nat_alt wire_consts)
  have dr: "drop k vs @ tail = vs ! k # drop (Suc k) vs @ tail" using k by (simp add: Cons_nth_drop_Suc[symmetric])
  let ?mqp = "mqp\<lparr>p_buffer := overlay buf ?o (B # take (Suc k) vs), p_fh_len := p_fh_len mqp + 1\<rparr>"
  have w: "buf_wr_nbytes (p_buffer mqp) (MQP_VHEADER_BUF mqp) [vs ! k] 1 = Some (overlay buf ?o (B # take (Suc k) vs))"
    using Suc.prems k V overlay_overlay[of ?o "B # take k vs" buf "[vs ! k]"]
    by (simp add: mem_simps take_Suc_conv_app_nth)
  then have "buf_put (p_buffer mqp) (MQP_VHEADER_BUF mqp) (vs ! k) = Some (overlay buf ?o (B # take (Suc k) vs))"
    by simp
  then have "recv_fh_rest stream_recv mqp (drop k vs @ tail, ks) = recv_fh_rest stream_recv ?mqp (drop (Suc k) vs @ tail, tl ks)"
    unfolding dr recv_fh_rest.simps[of _ mqp] using g b mx
    by (simp add: and_80 stream_recv_1 del: One_nat_def)
  moreover have "\<exists>ks'. recv_fh_rest stream_recv ?mqp (drop (Suc k) vs @ tail, tl ks) =
    Some (0, ?mqp\<lparr>p_buffer := overlay buf (unat (p_offset ?mqp)) (B # vs), p_fh_len := of_nat (Suc (length vs))\<rparr>, (tail, ks'))"
    by (rule Suc.hyps(1)) (use Suc.hyps(2) Suc.prems k in auto)
  ultimately show ?case by auto
qed

lemma recv_fh_min_stream:
  assumes "p_fh_len mqp = 0" "unat (p_offset mqp) + 2 \<le> length (p_buffer mqp)"
  shows "\<exists>ks'. recv_fh_min stream_recv mqp (B # v # tail, ks) =
    Some (0, mqp\<lparr>p_buffer := overlay (p_buffer mqp) (unat (p_offset mqp)) [B, v], p_fh_len := 2\<rparr>, (tail, ks'))"
proof -
  let ?o = "unat (p_offset mqp)"
  have a: "buf_wr_nbytes (p_buffer mqp) ?o [B] (Suc 0) = Some (overlay (p_buffer mqp) ?o [B])"
    using assms by (simp add: mem_simps)
  have b: "buf_wr_nbytes (overlay (p_buffer mqp) ?o [B]) (Suc ?o) [v] (Suc 0) = Some (overlay (p_buffer mqp) ?o [B, v])"
    using assms overlay_overlay[of ?o "[B]" "p_buffer mqp" "[v]"] by (simp add: mem_simps)
  show ?thesis using assms a b stream_recv_1[unfolded One_nat_def]
    by (simp add: recv_fh_min.simps MQP_VHEADER_BUF_def MQP_FHEADER_BUF_def)
qed

definition mqp_frame :: "u8 \<Rightarrow> u8 list \<Rightarrow> u8 list" where
  "mqp_frame B body = B # the (remlen_vals 0 (of_nat (length body))) @ body"

definition rx_of_frame :: "mqtt_packet \<Rightarrow> u8 \<Rightarrow> u8 list \<Rightarrow> mqtt_packet" where
  "rx_of_frame mqp B body =
     mqp\<lparr>p_buffer := overlay (p_buffer mqp) (unat (p_offset mqp)) (mqp_frame B body),
         p_fh_len := of_nat (length (mqp_frame B body) - length body),
         p_pl_len := of_nat (length body), p_fh_byte1 := B, p_msg_type := MSG_TYPE B\<rparr>"

lemma mqp_recv_frame:
  assumes "p_fh_len mqp = 0" "p_pl_len mqp = 0" "length body < 2 ^ 28"
    "unat (p_offset mqp) + length (mqp_frame B body) \<le> length (p_buffer mqp)"
    "length (mqp_frame B body) \<le> unat (p_maxlen mqp)"
  shows "\<exists>ks'. mqp_recv stream_recv mqp (mqp_frame B body @ tail, ks) =
      Some (int (length (mqp_frame B body)), rx_of_frame mqp B body, (tail, ks'))"
proof -
  let ?r = "of_nat (length body) :: u32" and ?o = "unat (p_offset mqp)" and ?b = "p_buffer mqp"
  have r: "unat ?r = length body" using assms(3) by (simp add: unat_of_nat_eq)
  then obtain vs where vs: "remlen_vals 0 ?r = Some vs" using remlen_vals_None_iff[of ?r] assms(3) by fastforce
  have n: "1 \<le> length vs" "length vs \<le> 4" using remlen_vals_length[OF vs] remlen_size_bounds[of ?r] by auto
  then obtain v ws where v: "vs = v # ws" by (cases vs) auto
  have frame: "mqp_frame B body = B # vs @ body" using vs by (simp add: mqp_frame_def)
  note fits = assms(4)[unfolded frame]
  let ?m1 = "mqp\<lparr>p_buffer := overlay ?b ?o [B, v], p_fh_len := 2\<rparr>"
  obtain k1 where 1: "recv_fh_min stream_recv mqp (B # v # ws @ body @ tail, ks) = Some (0, ?m1, (ws @ body @ tail, k1))"
    using recv_fh_min_stream[OF assms(1), of B v "ws @ body @ tail" ks] fits v by auto
  let ?m2 = "?m1\<lparr>p_buffer := overlay ?b ?o (B # vs), p_fh_len := of_nat (Suc (length vs))\<rparr>"
  obtain k2 where 2: "recv_fh_rest stream_recv ?m1 (ws @ body @ tail, k1) = Some (0, ?m2, (body @ tail, k2))"
    using recv_fh_rest_stream[OF vs, of ?m1 ?b B 1 "body @ tail" k1] fits v n by auto
  have fl: "unat (p_fh_len ?m2) = Suc (length vs)" using n by (simp add: unat_1_of_nat)
  have V: "MQP_VHEADER_BUF ?m2 = ?o + Suc (length vs)"
    unfolding MQP_VHEADER_BUF_def MQP_FHEADER_BUF_def fl by simp
  have g: "buf_get (p_buffer ?m2) (MQP_FHEADER_BUF ?m2 + 1 + 0 + j) = Some (vs ! j)" if "j < length vs" for j
    using that fits by (simp add: mem_simps MQP_FHEADER_BUF_def nth_overlay_in nth_Cons')
  have 3: "buf_rd_remlen (p_buffer ?m2) (MQP_FHEADER_BUF ?m2 + 1) = Some (int (length vs), ?r)"
    unfolding buf_rd_remlen_def using rd_remlen_loop_vals[OF vs, of "p_buffer ?m2" "MQP_FHEADER_BUF ?m2 + 1" 0] g
    by simp
  have tot: "unat (?r + ucast (p_fh_len ?m2)) = length body + Suc (length vs)"
    using r fl assms(3) n by (simp add: unat_word_ariths unat_ucast_up_simp)
  then have len: "\<not> p_maxlen ?m2 < ?r + ucast (p_fh_len ?m2)" using assms(5) frame by (simp add: word_less_nat_alt)
  let ?m3 = "?m2\<lparr>p_buffer := overlay ?b ?o (B # vs @ body), p_pl_len := ?r\<rparr>"
  have V2: "MQP_VHEADER_BUF ?m2 + unat (p_pl_len ?m2) = ?o + length (B # vs)" unfolding V by (simp add: assms(2))
  have fit2: "MQP_VHEADER_BUF ?m2 + unat ?r \<le> length (p_buffer ?m2)" unfolding V r using fits by simp
  have ov: "overlay (p_buffer ?m2) (?o + length (B # vs)) body = overlay ?b ?o (B # vs @ body)"
    using fits overlay_overlay[of ?o "B # vs" ?b body] by simp
  have pl: "unat (p_pl_len ?m2) + length body = unat ?r" unfolding r by (simp add: assms(2))
  obtain k3 where 4: "recv_payload stream_recv ?r ?m2 (body @ tail, k2) = Some (0, ?m3, (tail, k3))"
    using recv_payload_stream[OF pl fit2, of tail k2] unfolding V2 ov by auto
  have 5: "buf_get (p_buffer ?m3) (MQP_FHEADER_BUF ?m3) = Some B"
    using fits by (simp add: mem_simps MQP_FHEADER_BUF_def nth_overlay_in)
  have "p_fh_len ?m3 = p_fh_len ?m2" by simp
  then have tot3: "unat (ucast (p_fh_len ?m3) + ?r) = length body + Suc (length vs)"
    using tot by (simp only: add.commute)
  have u: "uint (ucast (p_fh_len ?m3) + ?r :: u32) = int (length (mqp_frame B body))"
    using tot3 by (simp only: uint_int_unat frame list.size length_append add_Suc add_Suc_right add_0 add_0_right add.commute)
  have e: "?m3\<lparr>p_fh_byte1 := B, p_msg_type := MSG_TYPE B\<rparr> = rx_of_frame mqp B body"
    by (simp add: rx_of_frame_def frame)
  have s: "mqp_frame B body @ tail = B # v # ws @ body @ tail" using frame v by simp
  show ?thesis unfolding s mqp_recv_def 1 2 3 4 5 using len u e
    by (simp only: 2 3 4 5 bind.simps prod.case if_False if_True simp_thms) simp
qed


section \<open>From the sender to the receiver\<close>

lemma pub_wire_frame: "pub_wire flags topic mid data = mqp_frame (MAKE_FH_BYTE1 MQTT_PUBLISH flags) (pub_vheader topic mid @ data)"
  by (simp add: pub_wire_def mqp_frame_def Let_def)

definition pub_topic_of :: "mqtt_packet \<Rightarrow> c8 list" where
  "pub_topic_of m = take (unat (MQP_PUB_TOP_LEN m)) (drop (MQP_PUB_TOP_BUF m) (p_buffer m))"
definition pub_payload_of :: "mqtt_packet \<Rightarrow> u8 list" where
  "pub_payload_of m =
     (case MQP_PUB_PAY_BUF m of None \<Rightarrow> [] | Some b \<Rightarrow> take (unat (MQP_PUB_PAY_LEN m)) (drop b (p_buffer m)))"

lemma pub_payload_of_eq:
  "pub_payload_of m = take (unat (MQP_PUB_PAY_LEN m)) (drop (MQP_PAYLOAD_BUF m) (p_buffer m))"
  by (simp add: pub_payload_of_def MQP_PUB_PAY_BUF_def MQP_PUB_PAY_LEN_def)

lemma mqp_frame_length:
  assumes "length body < 2 ^ 28" 
  shows "length (mqp_frame B body) = 1 + remlen_size (of_nat (length body)) + length body"
proof -
  have "unat (of_nat (length body) :: u32) = length body" using assms by (simp add: unat_of_nat_eq)
  then obtain vs where vs: "remlen_vals 0 (of_nat (length body)) = Some vs"
    using remlen_vals_None_iff[of "of_nat (length body)"] assms by fastforce
  then show ?thesis using remlen_vals_length[OF vs] by (simp add: mqp_frame_def)
qed

lemma rx_of_frame_body:
  assumes "length body < 2 ^ 28" "unat (p_offset mqp) + length (mqp_frame B body) \<le> length (p_buffer mqp)"
  shows "drop (MQP_VHEADER_BUF (rx_of_frame mqp B body)) (p_buffer (rx_of_frame mqp B body)) =
     body @ drop (unat (p_offset mqp) + length (mqp_frame B body)) (p_buffer mqp)"
    "length (p_buffer (rx_of_frame mqp B body)) = length (p_buffer mqp)"
    "MQP_VHEADER_BUF (rx_of_frame mqp B body) + length body \<le> length (p_buffer mqp)"
proof -
  let ?n = "length (mqp_frame B body) - length body"
  have L: "length (mqp_frame B body) = 1 + remlen_size (of_nat (length body)) + length body"
    by (rule mqp_frame_length[OF assms(1)])
  have n: "?n \<le> 5" using L remlen_size_bounds[of "of_nat (length body)"] by simp
  then have fl: "unat (p_fh_len (rx_of_frame mqp B body)) = ?n" by (simp add: rx_of_frame_def unat_of_nat_eq)
  have V: "MQP_VHEADER_BUF (rx_of_frame mqp B body) = unat (p_offset mqp) + ?n"
    unfolding MQP_VHEADER_BUF_def fl by (simp add: MQP_FHEADER_BUF_def rx_of_frame_def)
  have d: "drop ?n (mqp_frame B body) = body" using L by (simp add: mqp_frame_def)
  have "drop (unat (p_offset mqp) + ?n) (overlay (p_buffer mqp) (unat (p_offset mqp)) (mqp_frame B body)) =
     drop ?n (drop (unat (p_offset mqp)) (overlay (p_buffer mqp) (unat (p_offset mqp)) (mqp_frame B body)))"
    by (simp add: add.commute)
  also have "\<dots> = body @ drop (unat (p_offset mqp) + length (mqp_frame B body)) (p_buffer mqp)"
    using assms(2) d L by simp
  finally show "drop (MQP_VHEADER_BUF (rx_of_frame mqp B body)) (p_buffer (rx_of_frame mqp B body)) =
     body @ drop (unat (p_offset mqp) + length (mqp_frame B body)) (p_buffer mqp)"
    unfolding V by (simp add: rx_of_frame_def)
  show "length (p_buffer (rx_of_frame mqp B body)) = length (p_buffer mqp)" using assms by (simp add: rx_of_frame_def)
  show "MQP_VHEADER_BUF (rx_of_frame mqp B body) + length body \<le> length (p_buffer mqp)"
    unfolding V using assms(2) L by simp
qed

lemma nth_of_drop: "drop n xs = ys \<Longrightarrow> i < length ys \<Longrightarrow> xs ! (n + i) = ys ! i"
  by (metis add.commute length_drop less_imp_le_nat nth_drop  drop_all length_0_conv linorder_not_le not_less0 nat_le_linear)

lemma proc_pub_rx_frame:
  fixes topic mid data B mqp
  defines "body \<equiv> pub_vheader topic mid @ data"
  assumes "p_vh_len mqp = 0" "p_msg_id mqp = 0" "length topic < 2 ^ 16 - 4" "length body < 2 ^ 28"
    "unat (p_offset mqp) + length (mqp_frame B body) \<le> length (p_buffer mqp)"
    "(mid = 0) = (ENUM_QOS B = MQTT_QOS0)"
  shows "\<exists>m. mqp_proc_pub_rx (rx_of_frame mqp B body) = Some (True, m) \<and> pub_topic_of m = topic \<and>
     pub_payload_of m = data \<and> p_msg_id m = mid \<and> p_fh_byte1 m = B"
proof -
  let ?m = "rx_of_frame mqp B body" and ?V = "MQP_VHEADER_BUF (rx_of_frame mqp B body)"
  note bd = rx_of_frame_body[OF assms(5,6)]
  let ?lt = "of_nat (length topic) :: u16"
  have lt: "unat ?lt = length topic" using assms(4) by (simp add: unat_of_nat_eq)
  have byte: "p_buffer ?m ! (?V + i) = body ! i" if "i < length body" for i
    using nth_of_drop[OF bd(1), of i] that by (simp add: nth_append)
  have len: "length body = 2 + length topic + (if mid \<noteq> 0 then 2 else 0) + length data"
    by (simp add: body_def length_pub_vheader)
  have pl: "unat (p_pl_len ?m) = length body" using assms(5) by (simp add: rx_of_frame_def unat_of_nat_eq)
  have r1: "buf_rd_nbo_2B (p_buffer ?m) ?V = Some ?lt"
    using byte[of 0] byte[of 1] len bd(2,3) by (simp add: mem_simps body_def pub_vheader_def)
  have r2: "buf_rd_nbo_2B (p_buffer ?m) (?V + (2 + length topic)) = Some mid" if "mid \<noteq> 0"
  proof -
    have "body ! (2 + length topic) = hi8 mid" "body ! (2 + length topic + 1) = lo8 mid"
      using that by (simp_all add: body_def pub_vheader_def nth_append)
    then show ?thesis using byte[of "2 + length topic"] byte[of "2 + length topic + 1"] len bd(2,3) that
      by (simp add: mem_simps add.assoc)
  qed
  let ?n = "2 + length topic + (if mid \<noteq> 0 then 2 else 0)"
  let ?m' = "?m\<lparr>p_msg_id := mid, p_vh_len := of_nat ?n, p_pl_len := of_nat (length body) - of_nat ?n\<rparr>"
  have q: "ENUM_QOS (p_fh_byte1 ?m) = ENUM_QOS B" "p_vh_len ?m = 0" "p_msg_id ?m = 0"
    "p_pl_len ?m = of_nat (length body)" using assms by (simp_all add: rx_of_frame_def)
  have n4: "unat (of_nat (2 + length topic + 2) :: u32) = 2 + length topic + 2"
    by (rule unat_of_nat_eq) (use assms(4) in simp)
  have c: "\<not> p_pl_len ?m < 2" "mid \<noteq> 0 \<Longrightarrow> \<not> p_pl_len ?m < of_nat (2 + length topic + 2)"
    unfolding word_less_nat_alt n4 pl using len by simp_all
  have ul: "(ucast ?lt :: u32) = of_nat (length topic)" by (metis lt of_nat_unat)
  have m0: "?m\<lparr>p_msg_id := 0\<rparr> = ?m" using q(3) by (cases ?m) simp
  have run: "mqp_proc_pub_rx ?m = Some (True, ?m')"
  proof (cases "mid = 0")
    case True
    then have e: "ENUM_QOS B = 0" using assms(7) by simp
    then show ?thesis using r1 c(1) q(1,2,4) lt True ul m0 by (simp add: mqp_proc_pub_rx_def)
  next
    case False
    then have e: "ENUM_QOS B \<noteq> 0" using assms(7) by simp
    then show ?thesis using r1 c q(1,2,4) lt r2[OF False] False ul
      by (simp add: mqp_proc_pub_rx_def add.commute add.left_commute)
  qed
  have "unat (of_nat ?n :: u16) = ?n" by (rule unat_of_nat_eq) (use assms(4) in simp)
  then have vl: "unat (p_vh_len ?m') = ?n" by simp
  have V': "MQP_VHEADER_BUF ?m' = ?V" by (simp add: MQP_VHEADER_BUF_def MQP_FHEADER_BUF_def)
  have tl: "MQP_PUB_TOP_LEN ?m' = of_nat (length topic)"
    by (simp add: MQP_PUB_TOP_LEN_def)
  have "drop (?V + 2) (p_buffer ?m) = drop 2 (drop ?V (p_buffer ?m))" by (simp add: add.commute)
  then have dT: "take (length topic) (drop (?V + 2) (p_buffer ?m)) = take (length topic) (drop 2 body)"
    unfolding bd(1) using len by simp
  have "take (length topic) (drop 2 body) = topic" by (simp add: body_def pub_vheader_def)
  then have "pub_topic_of ?m' = topic"
    unfolding pub_topic_of_def tl lt MQP_PUB_TOP_BUF_def V' using dT by simp
  moreover have "pub_payload_of ?m' = data"
  proof -
    have "unat (MQP_PUB_PAY_LEN ?m') = length data"
      unfolding MQP_PUB_PAY_LEN_def using len assms(5)
      by (simp add: unat_sub unat_of_nat_eq word_le_nat_alt flip: of_nat_diff)
    moreover have "drop (MQP_PAYLOAD_BUF ?m') (p_buffer ?m') = drop ?n (drop ?V (p_buffer ?m))"
      unfolding MQP_PAYLOAD_BUF_def V' vl by (simp add: add.commute)
    moreover have "drop ?n body = data" using len by (simp add: body_def length_pub_vheader pub_vheader_def)
    ultimately show ?thesis unfolding pub_payload_of_eq using bd(1) len by simp
  qed
  ultimately show ?thesis using run by (auto simp: rx_of_frame_def)
qed

definition mqp_clean :: "mqtt_packet \<Rightarrow> bool" where
  "mqp_clean mqp \<longleftrightarrow> p_fh_len mqp = 0 \<and> p_vh_len mqp = 0 \<and> p_pl_len mqp = 0 \<and> p_msg_id mqp = 0"

text \<open>The receiving half, for the wire image of any PUBLISH.\<close>

lemma pub_wire_received:
  assumes "unat qos < 4" "(mid = 0) = (qos = 0)" "5 + length (pub_vheader t mid) + length data \<le> M" "M \<le> 0xFFFF"
    "mqp_clean rx" "unat (p_offset rx) + M \<le> length (p_buffer rx)" "M \<le> unat (p_maxlen rx)"
  shows "\<exists>rx' ks' m.
     mqp_recv stream_recv rx (pub_wire (MAKE_FH_FLAGS dup qos retain) t mid data @ tail, ks) =
       Some (int (length (pub_wire (MAKE_FH_FLAGS dup qos retain) t mid data)), rx', (tail, ks')) \<and>
     mqp_proc_pub_rx rx' = Some (True, m) \<and> p_msg_type m = MQTT_PUBLISH \<and>
     pub_topic_of m = t \<and> pub_payload_of m = data \<and> p_msg_id m = mid \<and>
     ENUM_QOS (p_fh_byte1 m) = qos \<and> BOOL_DUP (p_fh_byte1 m) = dup \<and> BOOL_RETAIN (p_fh_byte1 m) = retain"
proof -
  let ?fl = "MAKE_FH_FLAGS dup qos retain"
  let ?B = "MAKE_FH_BYTE1 MQTT_PUBLISH ?fl" and ?body = "pub_vheader t mid @ data"
  have len: "length ?body < 2 ^ 28" using assms(3,4) by simp
  have fl: "length (mqp_frame ?B ?body) \<le> M"
    using assms(3) remlen_size_bounds[of "of_nat (length ?body)"] unfolding mqp_frame_length[OF len] by simp
  note clean = assms(5)[unfolded mqp_clean_def]
  obtain ks' where rx: "mqp_recv stream_recv rx (mqp_frame ?B ?body @ tail, ks) =
      Some (int (length (mqp_frame ?B ?body)), rx_of_frame rx ?B ?body, (tail, ks'))"
    using mqp_recv_frame[OF _ _ len, of rx ?B tail ks] clean fl assms(6,7) by auto
  have q: "(mid = 0) = (ENUM_QOS ?B = MQTT_QOS0)" unfolding ENUM_QOS_flags[OF assms(1)] by (rule assms(2))
  have tl: "length t < 2 ^ 16 - 4" using assms(3,4) by (simp add: length_pub_vheader)
  have mt: "p_msg_type (rx_of_frame rx ?B ?body) = MQTT_PUBLISH"
    using MSG_TYPE_MAKE_FH_BYTE1[of MQTT_PUBLISH ?fl] MAKE_FH_FLAGS_less by (simp add: rx_of_frame_def)
  obtain m where m: "mqp_proc_pub_rx (rx_of_frame rx ?B ?body) = Some (True, m)"
     "pub_topic_of m = t" "pub_payload_of m = data" "p_msg_id m = mid" "p_fh_byte1 m = ?B"
    using proc_pub_rx_frame[OF _ _ tl len _ q, of rx] clean fl assms(6,7) by auto
  have "p_msg_type m = p_msg_type (rx_of_frame rx ?B ?body)"
    using m(1) by (auto simp: mqp_proc_pub_rx_def Let_def split: if_splits bind_splits)
  then show ?thesis using rx m mt flags_of_byte1[OF assms(1)] ENUM_QOS_flags[OF assms(1)] unfolding pub_wire_frame
    by (intro exI[of _ "rx_of_frame rx ?B ?body"] exI[of _ ks'] exI[of _ m]) simp
qed

text \<open>
  C5: end to end. A PUBLISH built in a fresh packet and sent over a byte stream that is cut
  into pieces of any sizes is received by \<open>mqp_recv\<close> as one packet, with the rest of the
  stream left in place, and \<open>mqp_proc_pub_rx\<close> recovers the topic, the payload, the packet
  identifier, the QoS and the DUP and RETAIN flags.
\<close>

theorem publish_roundtrip:
  assumes "mqp_fresh tx" "u_valid topic" "unat (p_maxlen tx) \<le> 0xFFFF" "unat qos < 4" "(mid = 0) = (qos = 0)"
    and "5 + length (pub_vheader (u_content topic) mid) + length data \<le> unat (p_maxlen tx)"
    and "mqp_clean rx" "unat (p_offset rx) + unat (p_maxlen tx) \<le> length (p_buffer rx)"
    and "unat (p_maxlen tx) \<le> unat (p_maxlen rx)"
  shows "\<exists>tx' rx' ks' m.
     pub_build tx topic mid data (of_nat (length data)) (MAKE_FH_FLAGS dup qos retain) = Some tx' \<and>
     mqp_recv stream_recv rx (mqp_content tx' @ tail, ks) = Some (uint (MQP_CONTENT_LEN tx'), rx', (tail, ks')) \<and>
     mqp_proc_pub_rx rx' = Some (True, m) \<and> p_msg_type m = MQTT_PUBLISH \<and>
     pub_topic_of m = u_content topic \<and> pub_payload_of m = data \<and> p_msg_id m = mid \<and>
     ENUM_QOS (p_fh_byte1 m) = qos \<and> BOOL_DUP (p_fh_byte1 m) = dup \<and> BOOL_RETAIN (p_fh_byte1 m) = retain"
proof -
  let ?fl = "MAKE_FH_FLAGS dup qos retain"
  obtain tx' where tx': "pub_build tx topic mid data (of_nat (length data)) ?fl = Some tx'"
    "mqp_content tx' = pub_wire ?fl (u_content topic) mid data" "unat (MQP_CONTENT_LEN tx') = length (pub_wire ?fl (u_content topic) mid data)"
    using pub_build_spec[OF assms(1-3,6), of ?fl] by blast
  have "uint (MQP_CONTENT_LEN tx') = int (length (pub_wire ?fl (u_content topic) mid data))"
    using tx'(3) by (simp add: uint_int_unat del: of_nat_unat)
  then show ?thesis using pub_wire_received[OF assms(4-6,3,7-9), of dup retain tail ks] tx'(1,2) by fastforce
qed

definition sample_in :: mqtt_packet where
  "sample_in = \<lparr>p_msg_type = 0, p_fh_byte1 = 0, p_msg_id = 0, p_n_refs = 1, p_offset = 0,
     p_fh_len = 0, p_vh_len = 0, p_pl_len = 0, p_private = 0, p_maxlen = 32, p_buffer = replicate 32 0,
     p_free_hook = False, p_next = None\<rparr>"

theorem publish_roundtrip_witness:
  "\<exists>tx' rx' ks' m.
     pub_build sample_tx sample_topic 7 [1, 2] (of_nat (length [1::u8, 2])) (MAKE_FH_FLAGS True 1 False) = Some tx' \<and>
     mqp_recv stream_recv sample_in (mqp_content tx' @ [0xC0, 0], [3, 1]) = Some (uint (MQP_CONTENT_LEN tx'), rx', ([0xC0, 0], ks')) \<and>
     mqp_proc_pub_rx rx' = Some (True, m) \<and> p_msg_type m = MQTT_PUBLISH \<and>
     pub_topic_of m = u_content sample_topic \<and> pub_payload_of m = [1, 2] \<and> p_msg_id m = 7 \<and>
     ENUM_QOS (p_fh_byte1 m) = 1 \<and> BOOL_DUP (p_fh_byte1 m) = True \<and> BOOL_RETAIN (p_fh_byte1 m) = False"
  by (rule publish_roundtrip)
     (simp_all add: sample_facts length_pub_vheader sample_tx_def sample_in_def mqp_clean_def
        sample_facts(1)[unfolded sample_tx_def])

section \<open>Any network\<close>

lemma recv_okD: "recv_ok recv \<Longrightarrow> recv n len = (rv, bs, n') \<Longrightarrow> length bs \<le> len \<and> (1 \<le> rv \<longrightarrow> rv = int (length bs))"
  unfolding recv_ok_def by (metis (mono_tags, lifting) prod.case)

definition rx_same :: "mqtt_packet \<Rightarrow> mqtt_packet \<Rightarrow> bool" where
  "rx_same mqp0 mqp \<longleftrightarrow> length (p_buffer mqp) = length (p_buffer mqp0) \<and> p_maxlen mqp = p_maxlen mqp0 \<and>
     p_offset mqp = p_offset mqp0 \<and> p_vh_len mqp = p_vh_len mqp0"

lemma unat_Suc_word8: "unat (x :: u8) < 255 \<Longrightarrow> unat (x + 1) = Suc (unat x)"
  by (simp add: unat_word_ariths)

lemma recv_byte_step:
  assumes "recv_ok recv" "recv n 1 = (rv, bs, n1)" "p_offset mqp = 0" "unat (p_fh_len mqp) < length (p_buffer mqp)"
  shows "buf_wr_nbytes (p_buffer mqp) (MQP_VHEADER_BUF mqp) bs (length bs) =
     Some (overlay (p_buffer mqp) (MQP_VHEADER_BUF mqp) bs)"
    "length (overlay (p_buffer mqp) (MQP_VHEADER_BUF mqp) bs) = length (p_buffer mqp)"
proof -
  have "length bs \<le> 1" using recv_okD[OF assms(1,2)] by simp
  moreover have "MQP_VHEADER_BUF mqp = unat (p_fh_len mqp)"
    by (simp add: MQP_VHEADER_BUF_def MQP_FHEADER_BUF_def assms(3))
  ultimately show "buf_wr_nbytes (p_buffer mqp) (MQP_VHEADER_BUF mqp) bs (length bs) =
     Some (overlay (p_buffer mqp) (MQP_VHEADER_BUF mqp) bs)"
    "length (overlay (p_buffer mqp) (MQP_VHEADER_BUF mqp) bs) = length (p_buffer mqp)"
    using assms(4) by (simp_all add: mem_simps)
qed

lemma recv_fh_min_total:
  assumes "recv_ok recv" "p_offset mqp = 0" "6 \<le> length (p_buffer mqp)" "unat (p_fh_len mqp) \<le> 2"
  shows "\<exists>e m n'. recv_fh_min recv mqp n = Some (e, m, n') \<and> rx_same mqp m \<and> p_pl_len m = p_pl_len mqp \<and> e \<le> 0 \<and>
     (e = 0 \<longrightarrow> unat (p_fh_len m) = 2)"
  using assms(2-)
proof (induction "2 - unat (p_fh_len mqp)" arbitrary: mqp n)
  case 0
  then show ?case by (simp add: recv_fh_min.simps rx_same_def word_less_nat_alt)
next
  case (Suc k)
  then have lt: "p_fh_len mqp < 2" by (simp add: word_less_nat_alt)
  obtain rv bs n1 where r: "recv n 1 = (rv, bs, n1)" by (cases "recv n 1") auto
  note w = recv_byte_step[OF assms(1) r Suc.prems(1)]
  let ?m = "mqp\<lparr>p_buffer := overlay (p_buffer mqp) (MQP_VHEADER_BUF mqp) bs, p_fh_len := p_fh_len mqp + 1\<rparr>"
  show ?case
  proof (cases "rv < 1")
    case True
    then show ?thesis using lt r w Suc.prems by (simp add: recv_fh_min.simps[of _ mqp] rx_same_def)
  next
    case False
    have f: "unat (p_fh_len ?m) = Suc (unat (p_fh_len mqp))" using Suc.prems(3) by (simp add: unat_Suc_word8)
    have "\<exists>e m n'. recv_fh_min recv ?m n1 = Some (e, m, n') \<and> rx_same ?m m \<and> p_pl_len m = p_pl_len ?m \<and> e \<le> 0 \<and>
       (e = 0 \<longrightarrow> unat (p_fh_len m) = 2)"
      by (rule Suc.hyps(1)) (use f Suc w in auto)
    then show ?thesis using lt r w False Suc.prems by (auto simp: recv_fh_min.simps[of _ mqp] rx_same_def)
  qed
qed

lemma recv_fh_rest_total:
  assumes "recv_ok recv" "p_offset mqp = 0" "6 \<le> length (p_buffer mqp)" "2 \<le> unat (p_fh_len mqp)" "unat (p_fh_len mqp) \<le> 6"
  shows "\<exists>e m n'. recv_fh_rest recv mqp n = Some (e, m, n') \<and> rx_same mqp m \<and> p_pl_len m = p_pl_len mqp \<and> e \<le> 0 \<and>
     (e = 0 \<longrightarrow> 2 \<le> unat (p_fh_len m) \<and> unat (p_fh_len m) \<le> 6)"
  using assms(2-)
proof (induction "6 - unat (p_fh_len mqp)" arbitrary: mqp n)
  case 0
  then have six: "unat (p_fh_len mqp) = 6" by simp
  obtain c where c: "buf_get (p_buffer mqp) (MQP_FHEADER_BUF mqp + unat (p_fh_len mqp) - 1) = Some c"
    using 0 six by (simp add: mem_simps MQP_FHEADER_BUF_def)
  have "of_nat MAX_FH_LEN < p_fh_len mqp" using six by (simp add: word_less_nat_alt wire_consts)
  then show ?case using c 0 six by (simp add: recv_fh_rest.simps[of _ mqp] rx_same_def)
next
  case (Suc k)
  then have lt: "unat (p_fh_len mqp) < 6" by simp
  obtain rv bs n1 where r: "recv n 1 = (rv, bs, n1)" by (cases "recv n 1") auto
  obtain c where c: "buf_get (p_buffer mqp) (MQP_FHEADER_BUF mqp + unat (p_fh_len mqp) - 1) = Some c"
    using Suc.prems lt by (simp add: mem_simps MQP_FHEADER_BUF_def)
  have nmax: "\<not> of_nat MAX_FH_LEN < p_fh_len mqp" using lt by (simp add: word_less_nat_alt wire_consts)
  note w = recv_byte_step[OF assms(1) r Suc.prems(1)]
  let ?m = "mqp\<lparr>p_buffer := overlay (p_buffer mqp) (MQP_VHEADER_BUF mqp) bs, p_fh_len := p_fh_len mqp + 1\<rparr>"
  show ?case
  proof (cases "c AND 0x80 = 0 \<or> rv < 1")
    case True
    then show ?thesis using lt r w c nmax Suc.prems
      by (cases "c AND 0x80 = 0") (simp_all add: recv_fh_rest.simps[of _ mqp] rx_same_def)
  next
    case False
    have f: "unat (p_fh_len ?m) = Suc (unat (p_fh_len mqp))" using Suc.prems(4) by (simp add: unat_Suc_word8)
    have "\<exists>e m n'. recv_fh_rest recv ?m n1 = Some (e, m, n') \<and> rx_same ?m m \<and> p_pl_len m = p_pl_len ?m \<and> e \<le> 0 \<and>
       (e = 0 \<longrightarrow> 2 \<le> unat (p_fh_len m) \<and> unat (p_fh_len m) \<le> 6)"
      by (rule Suc.hyps(1)) (use f Suc w lt in auto)
    then show ?thesis using r w c nmax False Suc.prems lt by (auto simp: recv_fh_rest.simps[of _ mqp] rx_same_def)
  qed
qed

lemma remlen_val_bound:
  fixes b :: u8 and val :: u32
  assumes "i < 4" "unat val < 2 ^ (7 * i)"
  shows "unat (val + push_bit (7 * i) (ucast (b AND 0x7F))) < 2 ^ (7 * Suc i)"
proof -
  let ?c = "ucast (b AND 0x7F) :: u32"
  have "b AND 0x7F \<le> 0x7F" by (rule word_and_le1)
  then have c: "unat ?c < 128" by (simp add: word_le_nat_alt unat_ucast_up_simp)
  have p: "(2::nat) ^ (7 * i) \<le> 2 ^ 21" using assms(1) by (intro power_increasing) auto
  have m: "unat ?c * 2 ^ (7 * i) + 2 ^ (7 * i) \<le> 2 ^ (7 * Suc i)"
  proof -
    have "(unat ?c + 1) * 2 ^ (7 * i) \<le> 128 * 2 ^ (7 * i)" by (rule mult_le_mono1) (use c in simp)
    then show ?thesis by (simp add: power_add)
  qed
  have "unat ?c * 2 ^ (7 * i) \<le> 127 * 2 ^ 21" using c p by (intro mult_le_mono) auto
  then have "unat ?c * 2 ^ (7 * i) < 2 ^ 32" by simp
  then have "unat (of_nat (unat ?c * 2 ^ (7 * i)) :: u32) = unat ?c * 2 ^ (7 * i)"
    by (intro unat_of_nat_eq) simp
  moreover have "push_bit (7 * i) ?c = of_nat (unat ?c * 2 ^ (7 * i))"
    by (simp add: push_bit_eq_mult unat_ucast_up_simp)
  ultimately have "unat (push_bit (7 * i) ?c) = unat ?c * 2 ^ (7 * i)" by simp
  then show ?thesis using assms m
    by (simp add: unat_word_ariths)
qed

lemma rd_remlen_loop_total:
  "i < 4 \<Longrightarrow> d + 4 \<le> length buf \<Longrightarrow> unat val < 2 ^ (7 * i) \<Longrightarrow>
   \<exists>k r. rd_remlen_loop buf d i val = Some (k, r) \<and> unat r < 2 ^ 28"
proof (induction "4 - i" arbitrary: i val)
  case (Suc k)
  have g: "buf_get buf (d + i) = Some (buf ! (d + i))" using Suc.prems by (simp add: mem_simps)
  let ?v = "val + push_bit (7 * i) (ucast (buf ! (d + i) AND 0x7F))"
  have v: "unat ?v < 2 ^ (7 * Suc i)" by (rule remlen_val_bound) (use Suc.prems in auto)
  show ?case
  proof (cases "Suc i < 4 \<and> (buf ! (d + i)) AND 0x80 \<noteq> 0")
    case True
    have "\<exists>k r. rd_remlen_loop buf d (Suc i) ?v = Some (k, r) \<and> unat r < 2 ^ 28"
      by (rule Suc.hyps(1)) (use Suc True v in auto)
    then show ?thesis using g True by (simp add: rd_remlen_loop.simps[of buf d i] wire_consts)
  next
    case False
    have "(2::nat) ^ (7 * Suc i) \<le> 2 ^ 28" using Suc.prems(1) by (intro power_increasing) auto
    then have "unat ?v < 2 ^ 28" using v by linarith
    then show ?thesis using g False by (auto simp: rd_remlen_loop.simps[of buf d i] wire_consts)
  qed
qed simp

lemma recv_payload_total:
  assumes "recv_ok recv" "MQP_VHEADER_BUF mqp + unat remlen \<le> length (p_buffer mqp)" "p_pl_len mqp \<le> remlen"
  shows "\<exists>e m n'. recv_payload recv remlen mqp n = Some (e, m, n') \<and> rx_same mqp m \<and> e \<le> 0 \<and> p_fh_len m = p_fh_len mqp \<and>
      (e = 0 \<longrightarrow> p_pl_len m = remlen)"
  using assms(2-)
proof (induction "unat remlen - unat (p_pl_len mqp)" arbitrary: mqp n rule: less_induct)
  case less
  show ?case
  proof (cases "p_pl_len mqp < remlen")
    case False
    then show ?thesis using less.prems by (simp add: recv_payload.simps rx_same_def)
  next
    case True
    let ?len = "unat (remlen - p_pl_len mqp)" and ?d = "MQP_VHEADER_BUF mqp + unat (p_pl_len mqp)"
    obtain rv bs n1 where r: "recv n ?len = (rv, bs, n1)" by (cases "recv n ?len") auto
    have len: "?len = unat remlen - unat (p_pl_len mqp)" using True by (subst unat_sub) (auto simp: word_less_nat_alt word_le_nat_alt)
    have ok: "length bs \<le> ?len" "1 \<le> rv \<Longrightarrow> rv = int (length bs)" using recv_okD[OF assms(1) r] by auto
    have fit: "?d + length bs \<le> length (p_buffer mqp)" using ok(1) len less.prems True by (simp add: word_less_nat_alt)
    then have w: "buf_wr_nbytes (p_buffer mqp) ?d bs (length bs) = Some (overlay (p_buffer mqp) ?d bs)"
      by (simp add: mem_simps)
    show ?thesis
    proof (cases "rv < 1")
      case rv: True
      then show ?thesis using True r w fit by (subst recv_payload.simps) (simp add: rx_same_def)
    next
      case False
      let ?m = "mqp\<lparr>p_buffer := overlay (p_buffer mqp) ?d bs, p_pl_len := p_pl_len mqp + of_int rv\<rparr>"
      have rv: "rv = int (length bs)" "1 \<le> length bs" using ok(2) False by (cases bs; auto)+
      have "unat (p_pl_len mqp) + length bs < 2 ^ 32"
        using ok(1) len True unsigned_less[of remlen, where 'a = nat] by (simp add: word_less_nat_alt)
      then have pl: "unat (p_pl_len ?m) = unat (p_pl_len mqp) + length bs"
        using rv(1) by (simp add: unat_word_ariths unat_of_nat)
      have le: "p_pl_len ?m \<le> remlen" using pl ok(1) len True by (simp add: word_le_nat_alt word_less_nat_alt)
      have V: "MQP_VHEADER_BUF ?m = MQP_VHEADER_BUF mqp" by (simp add: MQP_VHEADER_BUF_def MQP_FHEADER_BUF_def)
      have "\<exists>e m n'. recv_payload recv remlen ?m n1 = Some (e, m, n') \<and> rx_same ?m m \<and> e \<le> 0 \<and> p_fh_len m = p_fh_len ?m \<and>
         (e = 0 \<longrightarrow> p_pl_len m = remlen)"
        by (rule less.hyps) (use pl le V fit rv True less.prems in \<open>auto simp: word_less_nat_alt\<close>)
      then show ?thesis using True r w fit False
        by (subst recv_payload.simps) (auto simp: rx_same_def)
    qed
  qed
qed

text \<open>The part of \<open>mqp_recv\<close> after the fixed header has been read.\<close>

definition recv_tail :: "'n recv_fn \<Rightarrow> u32 \<Rightarrow> mqtt_packet \<Rightarrow> 'n \<Rightarrow> (i32 \<times> mqtt_packet \<times> 'n) option" where
  "recv_tail recv r mqp n = do {
     (e, mqp, n) \<leftarrow> recv_payload recv r mqp n;
     if e \<noteq> 0 then Some (e, mqp, n)
     else do {
       c \<leftarrow> buf_get (p_buffer mqp) (MQP_FHEADER_BUF mqp);
       Some (uint (ucast (p_fh_len mqp) + r), mqp\<lparr>p_fh_byte1 := c, p_msg_type := MSG_TYPE c\<rparr>, n) } }"

lemma recv_tail_total:
  assumes "recv_ok recv" "MQP_FHEADER_BUF mqp = 0" "p_pl_len mqp = 0" "unat r < 2 ^ 28" "unat (p_fh_len mqp) \<le> 6"
    "unat (p_fh_len mqp) + unat r \<le> length (p_buffer mqp)" "0 < length (p_buffer mqp)"
  shows "\<exists>rv m n'. recv_tail recv r mqp n = Some (rv, m, n') \<and> rx_same mqp m \<and>
     (0 < rv \<longrightarrow> rv = int (unat (p_fh_len m) + unat (p_pl_len m)) \<and> unat (p_fh_len m) + unat (p_pl_len m) = unat (p_fh_len mqp) + unat r)"
proof -
  have fit: "MQP_VHEADER_BUF mqp + unat r \<le> length (p_buffer mqp)"
    using assms(2,6) by (simp add: MQP_VHEADER_BUF_def)
  obtain e m n' where 1: "recv_payload recv r mqp n = Some (e, m, n')" "rx_same mqp m" "e \<le> 0"
    "p_fh_len m = p_fh_len mqp" "e = 0 \<Longrightarrow> p_pl_len m = r"
    using recv_payload_total[OF assms(1) fit, of n] assms(3) by fastforce
  have s: "unat (ucast (p_fh_len mqp) + r) = unat (p_fh_len mqp) + unat r"
    using assms(4,5) by (simp add: unat_word_ariths unat_ucast_up_simp)
  show ?thesis
  proof (cases "e = 0")
    case False
    then show ?thesis using 1 by (simp add: recv_tail_def)
  next
    case True
    have "MQP_FHEADER_BUF m = 0" "0 < length (p_buffer m)" using 1(2) assms(2,7) by (simp_all add: MQP_FHEADER_BUF_def rx_same_def)
    then obtain c where c: "buf_get (p_buffer m) (MQP_FHEADER_BUF m) = Some c" by (simp add: buf_get_def)
    have "uint (ucast (p_fh_len m) + r) = int (unat (p_fh_len m) + unat r)"
      using s 1(4) unfolding uint_int_unat by (simp only:)
    then show ?thesis using 1 True c by (simp add: recv_tail_def rx_same_def)
  qed
qed

text \<open>
  C6: for every network whose \<open>recv\<close> obeys its contract, \<open>mqp_recv\<close> on a clean packet
  returns (its loops end), never accesses memory outside the packet buffer, and a positive
  result is the length of the packet, at most the size of the buffer.
\<close>

theorem mqp_recv_total:
  assumes "recv_ok recv" "p_offset mqp = 0" "p_fh_len mqp = 0" "p_pl_len mqp = 0"
    "length (p_buffer mqp) = unat (p_maxlen mqp)" "6 \<le> unat (p_maxlen mqp)"
  shows "\<exists>rv m n'. mqp_recv recv mqp n = Some (rv, m, n') \<and> rx_same mqp m \<and>
     (0 < rv \<longrightarrow> rv = int (unat (p_fh_len m) + unat (p_pl_len m)) \<and> rv \<le> int (unat (p_maxlen mqp)))"
proof -
  obtain e1 m1 n1 where 1: "recv_fh_min recv mqp n = Some (e1, m1, n1)" "rx_same mqp m1" "p_pl_len m1 = p_pl_len mqp" "e1 \<le> 0"
    "e1 = 0 \<Longrightarrow> unat (p_fh_len m1) = 2"
    using recv_fh_min_total[of recv mqp n] assms by fastforce
  show ?thesis
  proof (cases "e1 = 0")
    case False
    then show ?thesis using 1 by (simp add: mqp_recv_def)
  next
    case e1: True
    obtain e2 m2 n2 where 2: "recv_fh_rest recv m1 n1 = Some (e2, m2, n2)" "rx_same m1 m2" "p_pl_len m2 = p_pl_len m1" "e2 \<le> 0"
      "e2 = 0 \<Longrightarrow> 2 \<le> unat (p_fh_len m2) \<and> unat (p_fh_len m2) \<le> 6"
      using recv_fh_rest_total[of recv m1 n1] assms 1 e1 by (fastforce simp: rx_same_def)
    have v: "MQP_FHEADER_BUF m2 = 0" "p_maxlen m2 = p_maxlen mqp" "length (p_buffer m2) = unat (p_maxlen mqp)" "p_pl_len m2 = 0"
      using 1 2 assms by (simp_all add: MQP_FHEADER_BUF_def rx_same_def)
    obtain k r where 3: "buf_rd_remlen (p_buffer m2) 1 = Some (k, r)" "unat r < 2 ^ 28"
      using rd_remlen_loop_total[of 0 1 "p_buffer m2" 0] v assms(6) by (auto simp: buf_rd_remlen_def)
    have run: "mqp_recv recv mqp n = (if e2 \<noteq> 0 then Some (e2, m2, n2)
       else if p_maxlen m2 < r + ucast (p_fh_len m2) then Some (MQP_ERR_PKT_LEN, m2, n2) else recv_tail recv r m2 n2)"
      using 1(1) 2(1) 3(1) e1 v(1) by (simp add: mqp_recv_def recv_tail_def)
    show ?thesis
    proof (cases "e2 = 0 \<and> \<not> p_maxlen m2 < r + ucast (p_fh_len m2)")
      case False
      then show ?thesis unfolding run using 1(2) 2(2,4) by (auto simp: rx_same_def)
    next
      case True
      have s: "unat (r + ucast (p_fh_len m2)) = unat r + unat (p_fh_len m2)"
        using 3(2) 2(5) True by (simp add: unat_word_ariths unat_ucast_up_simp)
      have fit: "unat (p_fh_len m2) + unat r \<le> unat (p_maxlen mqp)" using True s v(2) by (simp add: word_less_nat_alt)
      obtain rv m3 n3 where 4: "recv_tail recv r m2 n2 = Some (rv, m3, n3)" "rx_same m2 m3"
          "0 < rv \<longrightarrow> rv = int (unat (p_fh_len m3) + unat (p_pl_len m3)) \<and> unat (p_fh_len m3) + unat (p_pl_len m3) = unat (p_fh_len m2) + unat r"
        using recv_tail_total[OF assms(1) v(1,4) 3(2), of n2] 2(5) True fit v(3) assms(6) by auto
      have "rv \<le> int (unat (p_maxlen mqp))" if "0 < rv" using 4(3) that fit by (metis of_nat_le_iff)
      then show ?thesis unfolding run using 4 True 1(2) 2(2) by (auto simp: rx_same_def)
    qed
  qed
qed

theorem mqp_recv_total_witness:
  "\<exists>rv m n'. mqp_recv stream_recv sample_in ([0xC0, 0], []) = Some (rv, m, n') \<and> rx_same sample_in m \<and>
     (0 < rv \<longrightarrow> rv = int (unat (p_fh_len m) + unat (p_pl_len m)) \<and> rv \<le> int (unat (p_maxlen sample_in)))"
  by (rule mqp_recv_total) (simp_all add: sample_in_def)

end
