(* ===== verification/Qos2Cq.thy ===== *)
theory Qos2Cq
  imports MqttPrelude
begin

text \<open>
  The circular queue \<open>pub_qos2_cq\<close> of \<open>netapps/mqtt/common/mqtt_common.[ch]\<close>, in which
  a receiver of QoS 2 messages logs the packet identifiers that wait for their PUBREL (and a
  sender those that wait for their PUBCOMP). The interface is the locale \<open>msg_id_log\<close>; the
  queue is shown to be a first-in-first-out log of at most \<open>MAX_PUBREL_INFLT\<close> identifiers
  as long as identifiers are released in the order in which they were logged.
\<close>

section \<open>The queue\<close>

definition MAX_PUBREL_INFLT :: nat where [wire_consts]: "MAX_PUBREL_INFLT = 8"

record pub_qos2_cq =
  cq_id_vec :: "u16 list"
  cq_n_free :: u8
  cq_rd_idx :: u8
  cq_wr_idx :: u8

definition qos2_pub_cq_reset :: "pub_qos2_cq \<Rightarrow> pub_qos2_cq" where
  "qos2_pub_cq_reset cq =
     cq\<lparr>cq_id_vec := replicate MAX_PUBREL_INFLT 0, cq_n_free := of_nat MAX_PUBREL_INFLT,
        cq_rd_idx := 0, cq_wr_idx := 0\<rparr>"

definition qos2_pub_cq_logup :: "pub_qos2_cq \<Rightarrow> u16 \<Rightarrow> (bool \<times> pub_qos2_cq) option" where
  "qos2_pub_cq_logup cq msg_id =
     (if cq_n_free cq \<noteq> 0 then do {
        v \<leftarrow> buf_put (cq_id_vec cq) (unat (cq_wr_idx cq)) msg_id;
        Some (True, cq\<lparr>cq_id_vec := v, cq_wr_idx := (cq_wr_idx cq + 1) AND (of_nat MAX_PUBREL_INFLT - 1),
                       cq_n_free := cq_n_free cq - 1\<rparr>) }
      else Some (False, cq))"

text \<open>The read index is advanced by the comparison itself, and masked only on a match.\<close>

definition qos2_pub_cq_unlog :: "pub_qos2_cq \<Rightarrow> u16 \<Rightarrow> (bool \<times> pub_qos2_cq) option" where
  "qos2_pub_cq_unlog cq msg_id =
     (if cq_n_free cq < of_nat MAX_PUBREL_INFLT then do {
        x \<leftarrow> buf_get (cq_id_vec cq) (unat (cq_rd_idx cq));
        let rd = cq_rd_idx cq + 1;
        if msg_id = x
        then Some (True, cq\<lparr>cq_rd_idx := rd AND (of_nat MAX_PUBREL_INFLT - 1),
                            cq_n_free := cq_n_free cq + 1\<rparr>)
        else Some (False, cq\<lparr>cq_rd_idx := rd\<rparr>) }
      else Some (False, cq))"

text \<open>The loop of \<open>qos2_pub_cq_check\<close> with \<open>k\<close> rounds left.\<close>

fun cq_check_loop :: "u16 list \<Rightarrow> u8 \<Rightarrow> nat \<Rightarrow> u16 \<Rightarrow> bool option" where
  "cq_check_loop vec rd 0 msg_id = Some False"
| "cq_check_loop vec rd (Suc k) msg_id = do {
     x \<leftarrow> buf_get vec (unat rd);
     if msg_id = x then Some True
     else cq_check_loop vec ((rd + 1) AND (of_nat MAX_PUBREL_INFLT - 1)) k msg_id }"

definition qos2_pub_cq_check :: "pub_qos2_cq \<Rightarrow> u16 \<Rightarrow> bool option" where
  "qos2_pub_cq_check cq msg_id =
     cq_check_loop (cq_id_vec cq) (cq_rd_idx cq) (MAX_PUBREL_INFLT - unat (cq_n_free cq)) msg_id"

definition qos2_pub_cq_count :: "pub_qos2_cq \<Rightarrow> i32" where
  "qos2_pub_cq_count cq = int MAX_PUBREL_INFLT - uint (cq_n_free cq)"

section \<open>The interface\<close>

text \<open>
  A sequence of uses of a log, run on an implementation (given by its operations) and on the
  specification: a list of at most \<open>cap\<close> identifiers, oldest first. A release is in order
  when it names the oldest identifier or when nothing is logged.
\<close>

datatype log_op = Logup u16 | Unlog u16 | Check u16

fun log_run :: "('q \<Rightarrow> u16 \<Rightarrow> (bool \<times> 'q) option) \<Rightarrow> ('q \<Rightarrow> u16 \<Rightarrow> (bool \<times> 'q) option) \<Rightarrow>
    ('q \<Rightarrow> u16 \<Rightarrow> bool option) \<Rightarrow> log_op list \<Rightarrow> 'q \<Rightarrow> (bool list \<times> 'q) option" where
  "log_run logup unlog check [] q = Some ([], q)"
| "log_run logup unlog check (op # ops) q = do {
     (b, q') \<leftarrow> (case op of Logup m \<Rightarrow> logup q m | Unlog m \<Rightarrow> unlog q m
                  | Check m \<Rightarrow> map_option (\<lambda>b. (b, q)) (check q m));
     (bs, q'') \<leftarrow> log_run logup unlog check ops q';
     Some (b # bs, q'') }"

fun log_step :: "nat \<Rightarrow> log_op \<Rightarrow> u16 list \<Rightarrow> bool \<times> u16 list" where
  "log_step cap (Logup m) ms = (if length ms < cap then (True, ms @ [m]) else (False, ms))"
| "log_step cap (Unlog m) ms = (if ms = [] then (False, ms) else (True, tl ms))"
| "log_step cap (Check m) ms = (m \<in> set ms, ms)"

fun log_spec :: "nat \<Rightarrow> log_op list \<Rightarrow> u16 list \<Rightarrow> bool list \<times> u16 list" where
  "log_spec cap [] ms = ([], ms)"
| "log_spec cap (op # ops) ms =
     (let (b, ms') = log_step cap op ms; (bs, ms'') = log_spec cap ops ms' in (b # bs, ms''))"

fun log_in_order :: "nat \<Rightarrow> log_op list \<Rightarrow> u16 list \<Rightarrow> bool" where
  "log_in_order cap [] ms = True"
| "log_in_order cap (op # ops) ms =
     ((case op of Unlog m \<Rightarrow> ms = [] \<or> hd ms = m | _ \<Rightarrow> True) \<and> log_in_order cap ops (snd (log_step cap op ms)))"

text \<open>
  What a client of such a log relies on: an abstraction to the list of logged identifiers
  (oldest first), an invariant that every operation keeps, and the effect of each operation.
\<close>

locale msg_id_log =
  fixes reset :: "'q \<Rightarrow> 'q"
    and logup :: "'q \<Rightarrow> u16 \<Rightarrow> (bool \<times> 'q) option"
    and unlog :: "'q \<Rightarrow> u16 \<Rightarrow> (bool \<times> 'q) option"
    and check :: "'q \<Rightarrow> u16 \<Rightarrow> bool option"
    and ids :: "'q \<Rightarrow> u16 list"
    and inv :: "'q \<Rightarrow> bool"
    and cap :: nat
  assumes reset_inv: "inv (reset q)"
    and reset_ids: "ids (reset q) = []"
    and ids_cap: "inv q \<Longrightarrow> length (ids q) \<le> cap"
    and logup_room: "inv q \<Longrightarrow> length (ids q) < cap \<Longrightarrow>
          \<exists>q'. logup q m = Some (True, q') \<and> inv q' \<and> ids q' = ids q @ [m]"
    and logup_full: "inv q \<Longrightarrow> length (ids q) = cap \<Longrightarrow> logup q m = Some (False, q)"
    and unlog_empty: "inv q \<Longrightarrow> ids q = [] \<Longrightarrow> unlog q m = Some (False, q)"
    and unlog_head: "inv q \<Longrightarrow> ids q = m # ms \<Longrightarrow>
          \<exists>q'. unlog q m = Some (True, q') \<and> inv q' \<and> ids q' = ms"
    and check_ids: "inv q \<Longrightarrow> check q m = Some (m \<in> set (ids q))"
begin

lemma update_seen:
  assumes "inv q" "m \<in> set (ids q)"
  shows "check q m = Some True"
  using assms by (simp add: check_ids)

lemma update_new:
  assumes "inv q" "m \<notin> set (ids q)" "length (ids q) < cap"
  shows "\<exists>q'. check q m = Some False \<and> logup q m = Some (True, q') \<and> inv q' \<and> check q' m = Some True \<and>
     ids q' = ids q @ [m]"
  using assms logup_room[of q m] by (auto simp: check_ids)

lemma release_then_unseen:
  assumes "inv q" "ids q = m # ms" "m \<notin> set ms"
  shows "\<exists>q'. unlog q m = Some (True, q') \<and> inv q' \<and> ids q' = ms \<and> check q' m = Some False"
  using assms unlog_head[of q m ms] by (auto simp: check_ids)

lemma step_refines:
  assumes "inv q" "case op of Unlog m \<Rightarrow> ids q = [] \<or> hd (ids q) = m | _ \<Rightarrow> True"
  shows "\<exists>q'. (case op of Logup m \<Rightarrow> logup q m | Unlog m \<Rightarrow> unlog q m
                  | Check m \<Rightarrow> map_option (\<lambda>b. (b, q)) (check q m)) = Some (fst (log_step cap op (ids q)), q') \<and>
     inv q' \<and> ids q' = snd (log_step cap op (ids q))"
proof (cases op)
  case (Logup m)
  then show ?thesis using assms(1) logup_room[of q m] logup_full[of q m] ids_cap[of q]
    by (cases "length (ids q) < cap") (auto simp: le_neq_implies_less)
next
  case (Unlog m)
  then show ?thesis using assms unlog_empty[of q m] unlog_head[of q m "tl (ids q)"]
    by (cases "ids q") auto
next
  case (Check m)
  then show ?thesis using assms(1) by (simp add: check_ids)
qed

lemma run_refines:
  "inv q \<Longrightarrow> log_in_order cap ops (ids q) \<Longrightarrow>
   \<exists>q'. log_run logup unlog check ops q = Some (fst (log_spec cap ops (ids q)), q') \<and>
      inv q' \<and> ids q' = snd (log_spec cap ops (ids q))"
proof (induction ops arbitrary: q)
  case (Cons op ops)
  then have "case op of Unlog m \<Rightarrow> ids q = [] \<or> hd (ids q) = m | _ \<Rightarrow> True" by simp
  from step_refines[OF Cons.prems(1) this] obtain q' where
    q': "(case op of Logup m \<Rightarrow> logup q m | Unlog m \<Rightarrow> unlog q m
           | Check m \<Rightarrow> map_option (\<lambda>b. (b, q)) (check q m)) = Some (fst (log_step cap op (ids q)), q')"
    "inv q'" "ids q' = snd (log_step cap op (ids q))" by blast
  then obtain q'' where "log_run logup unlog check ops q' = Some (fst (log_spec cap ops (ids q')), q'')"
    "inv q''" "ids q'' = snd (log_spec cap ops (ids q'))"
    using Cons by fastforce
  then show ?case using q' by (simp add: Let_def split_beta)
qed simp

end

section \<open>The invariant and the abstraction of the circular queue\<close>

definition cq_inv :: "pub_qos2_cq \<Rightarrow> bool" where
  "cq_inv cq \<longleftrightarrow> length (cq_id_vec cq) = 8 \<and> unat (cq_n_free cq) \<le> 8 \<and> unat (cq_rd_idx cq) < 8 \<and>
     unat (cq_wr_idx cq) = (unat (cq_rd_idx cq) + (8 - unat (cq_n_free cq))) mod 8"

definition cq_ids :: "pub_qos2_cq \<Rightarrow> u16 list" where
  "cq_ids cq = map (\<lambda>k. cq_id_vec cq ! ((unat (cq_rd_idx cq) + k) mod 8)) [0..<8 - unat (cq_n_free cq)]"

lemma mod_add_inj:
  fixes r i j n :: nat
  assumes "(r + i) mod n = (r + j) mod n" "i < n" "j < n"
  shows "i = j"
proof -
  have "int (r + i) mod int n = int (r + j) mod int n" using assms(1) by (metis zmod_int)
  then have "int n dvd int i - int j" by (simp add: mod_eq_dvd_iff)
  then show ?thesis using assms(2,3) zdvd_imp_le[of "int n" "int i - int j"] zdvd_imp_le[of "int n" "int j - int i"]
    by (cases i j rule: linorder_cases) (auto simp: dvd_diff_commute)
qed

lemma and_7_mod: "unat (x AND 7) = unat x mod 8" for x :: u8
proof -
  have "x AND 7 = take_bit 3 x" by (simp add: take_bit_eq_mask mask_eq_exp_minus_1)
  then have "unat (x AND 7) = unat (take_bit 3 x)" by simp
  also have "\<dots> = unat x mod 2 ^ 3" by (simp only: unsigned_take_bit_eq) (simp only: take_bit_eq_mod)
  finally show ?thesis by simp
qed

lemma idx_succ: "unat (x :: u8) < 8 \<Longrightarrow> unat ((x + 1) AND 7) = (unat x + 1) mod 8"
  by (simp add: and_7_mod unat_word_ariths)

lemma cq_ids_length: "length (cq_ids cq) = 8 - unat (cq_n_free cq)"
  by (simp add: cq_ids_def)

lemma reset_cq: "cq_inv (qos2_pub_cq_reset cq)" "cq_ids (qos2_pub_cq_reset cq) = []"
  by (simp_all add: cq_inv_def cq_ids_def qos2_pub_cq_reset_def wire_consts)

lemma logup_cq:
  assumes "cq_inv cq" "length (cq_ids cq) < 8"
  shows "\<exists>cq'. qos2_pub_cq_logup cq m = Some (True, cq') \<and> cq_inv cq' \<and> cq_ids cq' = cq_ids cq @ [m]"
proof -
  let ?f = "unat (cq_n_free cq)" and ?r = "unat (cq_rd_idx cq)" and ?w = "unat (cq_wr_idx cq)"
  have f: "0 < ?f" "?f \<le> 8" using assms by (auto simp: cq_ids_length cq_inv_def)
  then have nf: "cq_n_free cq \<noteq> 0" by auto
  have w: "?w < 8" "?w = (?r + (8 - ?f)) mod 8" using assms(1) by (auto simp: cq_inv_def)
  let ?cq = "cq\<lparr>cq_id_vec := (cq_id_vec cq)[?w := m], cq_wr_idx := (cq_wr_idx cq + 1) AND 7,
      cq_n_free := cq_n_free cq - 1\<rparr>"
  have f1: "unat (cq_n_free cq - 1) = ?f - 1" using nf by (simp add: unat_minus_one)
  have run: "qos2_pub_cq_logup cq m = Some (True, ?cq)"
    using nf w assms(1) by (simp add: qos2_pub_cq_logup_def mem_simps wire_consts cq_inv_def)
  have "(?w + 1) mod 8 = (?r + (8 - (?f - 1))) mod 8"
  proof -
    have "?r + (8 - (?f - 1)) = ?r + (8 - ?f) + 1" using f by simp
    then show ?thesis using w(2) by (simp only: mod_add_left_eq)
  qed
  then have inv: "cq_inv ?cq" using assms(1) f w(1) by (simp add: cq_inv_def f1 idx_succ)
  have u: "[0..<8 - (?f - 1)] = [0..<8 - ?f] @ [8 - ?f]"
  proof -
    have "8 - (?f - 1) = Suc (8 - ?f)" using f by simp
    then show ?thesis by simp
  qed
  have ne: "(?r + k) mod 8 \<noteq> ?w" if "k < 8 - ?f" for k
  proof
    assume "(?r + k) mod 8 = ?w"
    then have "(?r + k) mod 8 = (?r + (8 - ?f)) mod 8" using w(2) by simp
    moreover have "k < 8 - ?f" "8 - ?f < 8" using that f by simp_all
    ultimately show False using mod_add_inj[of ?r k 8 "8 - ?f"] by simp
  qed
  have lv: "?w < length (cq_id_vec cq)" using assms(1) w(1) by (simp add: cq_inv_def)
  have "cq_ids ?cq = map (\<lambda>k. (cq_id_vec cq)[?w := m] ! ((?r + k) mod 8)) ([0..<8 - ?f] @ [8 - ?f])"
    by (simp only: cq_ids_def u[symmetric]) (simp add: f1)
  also have "\<dots> = map (\<lambda>k. (cq_id_vec cq)[?w := m] ! ((?r + k) mod 8)) [0..<8 - ?f] @ [(cq_id_vec cq)[?w := m] ! ?w]"
    by (simp only: w(2)[symmetric] map_append list.map)
  also have "map (\<lambda>k. (cq_id_vec cq)[?w := m] ! ((?r + k) mod 8)) [0..<8 - ?f] = cq_ids cq"
    unfolding cq_ids_def using ne by (intro map_cong refl) (metis atLeastLessThan_iff nth_list_update_neq set_upt)
  finally have "cq_ids ?cq = cq_ids cq @ [m]" using lv by simp
  then show ?thesis using run inv by blast
qed

lemma logup_full_cq:
  assumes "cq_inv cq" "length (cq_ids cq) = 8"
  shows "qos2_pub_cq_logup cq m = Some (False, cq)"
proof -
  have "unat (cq_n_free cq) = 0" using assms by (auto simp: cq_ids_length cq_inv_def)
  then have "cq_n_free cq = 0" by (simp only: unat_eq_zero)
  then show ?thesis by (simp add: qos2_pub_cq_logup_def)
qed

lemma n_free_less: "(cq_n_free cq < of_nat MAX_PUBREL_INFLT) = (unat (cq_n_free cq) < 8)"
  by (simp add: wire_consts word_less_nat_alt)

lemma unlog_empty_cq:
  assumes "cq_ids cq = []"
  shows "qos2_pub_cq_unlog cq m = Some (False, cq)"
proof -
  have "8 - unat (cq_n_free cq) = 0" using assms by (metis cq_ids_length list.size(3))
  then show ?thesis using n_free_less[of cq] by (simp add: qos2_pub_cq_unlog_def)
qed

lemma cq_ids_Cons:
  assumes "unat (cq_n_free cq) < 8" "unat (cq_rd_idx cq) < 8"
  shows "cq_ids cq = cq_id_vec cq ! unat (cq_rd_idx cq) #
     map (\<lambda>k. cq_id_vec cq ! ((unat (cq_rd_idx cq) + 1 + k) mod 8)) [0..<7 - unat (cq_n_free cq)]"
proof -
  have "8 - unat (cq_n_free cq) = Suc (7 - unat (cq_n_free cq))" using assms by simp
  then have "[0..<8 - unat (cq_n_free cq)] = 0 # map Suc [0..<7 - unat (cq_n_free cq)]"
    by (simp only: upt_conv_Cons map_Suc_upt zero_less_Suc)
  then show ?thesis using assms(2) by (simp add: cq_ids_def comp_def del: upt_Suc)
qed

lemma unlog_head_cq:
  assumes "cq_inv cq" "cq_ids cq = m # ms"
  shows "\<exists>cq'. qos2_pub_cq_unlog cq m = Some (True, cq') \<and> cq_inv cq' \<and> cq_ids cq' = ms"
proof -
  let ?f = "unat (cq_n_free cq)" and ?r = "unat (cq_rd_idx cq)"
  have f: "?f < 8" using assms(2) by (metis cq_ids_length length_Cons zero_less_Suc zero_less_diff)
  have r: "?r < 8" "length (cq_id_vec cq) = 8" using assms(1) by (auto simp: cq_inv_def)
  note c = cq_ids_Cons[OF f r(1), unfolded assms(2)]
  let ?cq = "cq\<lparr>cq_rd_idx := (cq_rd_idx cq + 1) AND 7, cq_n_free := cq_n_free cq + 1\<rparr>"
  have f1: "unat (cq_n_free cq + 1) = ?f + 1" using f by (simp add: unat_word_ariths)
  have run: "qos2_pub_cq_unlog cq m = Some (True, ?cq)"
    using f r c by (simp add: qos2_pub_cq_unlog_def n_free_less) (simp add: mem_simps wire_consts)
  have "(?r + (8 - ?f)) mod 8 = ((?r + 1) mod 8 + (8 - (?f + 1))) mod 8"
  proof -
    have "?r + (8 - ?f) = ?r + 1 + (8 - (?f + 1))" using f by simp
    then show ?thesis by (simp only: mod_add_left_eq)
  qed
  then have inv: "cq_inv ?cq" using assms(1) f r by (simp add: cq_inv_def f1 idx_succ)
  have "7 - ?f = 8 - (?f + 1)" by simp
  then have "cq_ids ?cq = ms" using c r by (simp add: cq_ids_def f1 idx_succ mod_add_left_eq)
  then show ?thesis using run inv by blast
qed

lemma cq_check_loop_ids:
  "unat rd < 8 \<Longrightarrow> length vec = 8 \<Longrightarrow>
   cq_check_loop vec rd k m = Some (m \<in> (\<lambda>i. vec ! ((unat rd + i) mod 8)) ` {..<k})"
proof (induction k arbitrary: rd)
  case 0
  then show ?case by simp
next
  case (Suc k)
  let ?rd = "(rd + 1) AND 7"
  have n: "unat ?rd = (unat rd + 1) mod 8" using Suc.prems(1) by (rule idx_succ)
  have "unat ?rd < 8" using n by simp
  then have IH: "cq_check_loop vec ?rd k m = Some (m \<in> (\<lambda>i. vec ! ((unat ?rd + i) mod 8)) ` {..<k})"
    using Suc by blast
  have "(\<lambda>i. vec ! ((unat ?rd + i) mod 8)) ` {..<k} = (\<lambda>i. vec ! ((unat rd + i) mod 8)) ` (Suc ` {..<k})"
    by (simp add: n image_image mod_add_left_eq)
  then show ?case using Suc.prems IH
    by (simp add: mem_simps wire_consts lessThan_Suc_eq_insert_0 insert_iff)
qed

lemma check_cq: "cq_inv cq \<Longrightarrow> qos2_pub_cq_check cq m = Some (m \<in> set (cq_ids cq))"
  by (simp add: qos2_pub_cq_check_def cq_check_loop_ids cq_inv_def cq_ids_def wire_consts atLeast0LessThan)

interpretation cq: msg_id_log qos2_pub_cq_reset qos2_pub_cq_logup qos2_pub_cq_unlog qos2_pub_cq_check
  cq_ids cq_inv 8
  by unfold_locales
    (auto simp: reset_cq logup_full_cq unlog_empty_cq check_cq cq_ids_length intro: logup_cq unlog_head_cq)

lemma cq_count_ids: "cq_inv cq \<Longrightarrow> qos2_pub_cq_count cq = int (length (cq_ids cq))"
  by (simp add: qos2_pub_cq_count_def cq_ids_length cq_inv_def wire_consts of_nat_diff)

section \<open>Properties\<close>

text \<open>
  C19: after a reset, every sequence of log, release and check operations in which releases
  come in the order of logging returns what a first-in-first-out list of at most eight
  identifiers returns, and ends with that list in the queue; in particular no identifier is
  lost or reported twice, and no access leaves the array.
\<close>

theorem qos2_cq_fifo:
  assumes "log_in_order 8 ops []"
  shows "\<exists>cq'. log_run qos2_pub_cq_logup qos2_pub_cq_unlog qos2_pub_cq_check ops (qos2_pub_cq_reset cq) =
       Some (fst (log_spec 8 ops []), cq') \<and>
     cq_inv cq' \<and> cq_ids cq' = snd (log_spec 8 ops []) \<and>
     qos2_pub_cq_count cq' = int (length (snd (log_spec 8 ops [])))"
  using cq.run_refines[OF cq.reset_inv, of ops cq] assms by (auto simp: reset_cq cq_count_ids)

definition sample_cq :: pub_qos2_cq where
  "sample_cq = \<lparr>cq_id_vec = [], cq_n_free = 0, cq_rd_idx = 0, cq_wr_idx = 0\<rparr>"

theorem qos2_cq_fifo_witness:
  "\<exists>cq'. log_run qos2_pub_cq_logup qos2_pub_cq_unlog qos2_pub_cq_check
       [Logup 5, Logup 6, Check 6, Unlog 5, Check 5, Unlog 6, Unlog 6] (qos2_pub_cq_reset sample_cq) =
       Some ([True, True, True, True, False, True, False], cq') \<and>
     cq_inv cq' \<and> cq_ids cq' = [] \<and> qos2_pub_cq_count cq' = 0"
  using qos2_cq_fifo[of "[Logup 5, Logup 6, Check 6, Unlog 5, Check 5, Unlog 6, Unlog 6]" sample_cq]
  by simp




end
