(* ===== verification/Chain.thy ===== *)
theory Chain
  imports MqttPrelude
begin

text \<open>
  Singly linked lists in memory: \<open>seg n p xs q\<close> says that the cells \<open>xs\<close> are met, in this
  order, when the \<open>next\<close> links \<open>n\<close> are followed from pointer \<open>p\<close> until pointer \<open>q\<close>; \<open>n\<close> is
  partial because a cell may have been freed. The lemmas are shared by the wait lists of
  packets, the list of client contexts and the free lists.
\<close>

type_synonym links = "nat \<Rightarrow> ptr option"

fun seg :: "links \<Rightarrow> ptr \<Rightarrow> nat list \<Rightarrow> ptr \<Rightarrow> bool" where
  "seg n p [] q = (p = q)"
| "seg n p (x # xs) q = (p = Some x \<and> (\<exists>r. n x = Some r \<and> seg n r xs q))"

abbreviation chain :: "links \<Rightarrow> ptr \<Rightarrow> nat list \<Rightarrow> bool" where
  "chain n p xs \<equiv> seg n p xs None"

lemma seg_append [simp]: "seg n p (xs @ ys) q = (\<exists>m. seg n p xs m \<and> seg n m ys q)"
  by (induction xs arbitrary: p) auto

lemma seg_det: "seg n p xs q \<Longrightarrow> seg n p xs q' \<Longrightarrow> q = q'"
  by (induction xs arbitrary: p) auto

lemma chain_det: "chain n p xs \<Longrightarrow> chain n p ys \<Longrightarrow> xs = ys"
proof (induction xs arbitrary: p ys)
  case Nil
  then show ?case by (cases ys) auto
next
  case (Cons x xs)
  then show ?case by (cases ys) auto
qed

lemma seg_cong: "seg n p xs q \<Longrightarrow> (\<And>x. x \<in> set xs \<Longrightarrow> n' x = n x) \<Longrightarrow> seg n' p xs q"
  by (induction xs arbitrary: p) auto

lemma seg_upd [simp]: "x \<notin> set xs \<Longrightarrow> seg (n(x := r)) p xs q = seg n p xs q"
  by (induction xs arbitrary: p) auto

lemma chain_distinct: "chain n p xs \<Longrightarrow> distinct xs"
proof (induction xs arbitrary: p)
  case (Cons x xs)
  then obtain r where r: "p = Some x" "n x = Some r" "chain n r xs" by auto
  have "x \<notin> set xs"
  proof
    assume "x \<in> set xs"
    then obtain ys zs where "xs = ys @ x # zs" by (meson split_list)
    then have "chain n (Some x) (x # zs)" using r(3) by auto
    moreover have "chain n (Some x) (x # xs)" using r by simp
    ultimately have "x # zs = x # xs" by (rule chain_det)
    then show False using \<open>xs = ys @ x # zs\<close> by (metis impossible_Cons length_append le_add2 list.inject)
  qed
  then show ?case using Cons.IH r(3) by simp
qed simp

lemma seg_nempty: "seg n p xs q \<Longrightarrow> xs \<noteq> [] \<Longrightarrow> p = Some (hd xs)"
  by (cases xs) auto

lemma seg_alloc: "seg n p xs q \<Longrightarrow> x \<in> set xs \<Longrightarrow> n x \<noteq> None"
  by (induction xs arbitrary: p) auto

lemma seg_last: "seg n p (xs @ [x]) q \<Longrightarrow> n x = Some q"
  by auto

text \<open>Linking a cell behind the last one, and unlinking the cell behind a given one.\<close>

lemma chain_snoc:
  assumes "chain n p (xs @ [t])" "x \<notin> set (xs @ [t])"
  shows "chain (n(x \<mapsto> None, t \<mapsto> Some x)) p (xs @ [t, x])"
proof -
  have "t \<notin> set xs" using chain_distinct[OF assms(1)] by simp
  then show ?thesis using assms by auto
qed

lemma chain_insert_mid:
  assumes "chain n p (xs @ t # ys)" "x \<notin> set (xs @ t # ys)" "n t = Some r"
  shows "chain (n(t \<mapsto> Some x, x \<mapsto> r)) p (xs @ t # x # ys)"
proof -
  have d: "t \<notin> set xs" "t \<notin> set ys" using chain_distinct[OF assms(1)] by auto
  obtain m where m: "seg n p xs m" "m = Some t" "chain n r ys" using assms(1,3) by auto
  then show ?thesis using d assms(2) by auto
qed

lemma chain_remove_mid:
  assumes "chain n p (xs @ t # x # ys)" "n x = Some r"
  shows "chain (n(t \<mapsto> r)) p (xs @ t # ys)"
proof -
  have d: "t \<notin> set xs" "t \<notin> set ys" using chain_distinct[OF assms(1)] by auto
  obtain m where m: "seg n p xs m" "m = Some t" "chain n r ys" using assms by auto
  then show ?thesis using d by auto
qed

text \<open>The place of a new element: before the first element with a greater key.\<close>

definition tmo_ins :: "(nat \<Rightarrow> 'k::linorder) \<Rightarrow> nat \<Rightarrow> nat list \<Rightarrow> nat list" where
  "tmo_ins t x ys = takeWhile (\<lambda>y. t y \<le> t x) ys @ x # dropWhile (\<lambda>y. t y \<le> t x) ys"

lemma tmo_ins_Cons: "tmo_ins t x (y # ys) = (if t y \<le> t x then y # tmo_ins t x ys else x # y # ys)"
  by (simp add: tmo_ins_def)

lemma tmo_ins_all: "(\<And>y. y \<in> set ys \<Longrightarrow> t y \<le> t x) \<Longrightarrow> tmo_ins t x ys = ys @ [x]"
  by (induction ys) (simp_all add: tmo_ins_Cons, simp add: tmo_ins_def)

lemma set_tmo_ins [simp]: "set (tmo_ins t x ys) = insert x (set ys)"
  by (induction ys) (auto simp: tmo_ins_Cons, simp_all add: tmo_ins_def)

lemma sorted_tmo_ins: "sorted (map t ys) \<Longrightarrow> sorted (map t (tmo_ins t x ys))"
  by (induction ys) (auto simp: tmo_ins_Cons, simp_all add: tmo_ins_def)

end
