(* ===== verification/AckWlist.thy ===== *)
theory AckWlist
  imports MqttWire Chain
begin

text \<open>
  The wait list of packets whose acknowledgement is pending (\<open>struct mqtt_ack_wlist\<close> of
  \<open>netapps/mqtt/common/mqtt_common.[ch]\<close>), a linked list threaded through the packets. The
  packets live in a heap, a partial map from addresses. The list is shown to implement a
  sequence of packets (locale \<open>wait_list\<close> and its interpretation).
\<close>

section \<open>The code\<close>

type_synonym mqp_heap = "nat \<Rightarrow> mqtt_packet option"

record mqtt_ack_wlist =
  wl_head :: ptr
  wl_tail :: ptr

definition mqp_ack_wlist_is_empty :: "mqtt_ack_wlist \<Rightarrow> bool" where
  "mqp_ack_wlist_is_empty l \<longleftrightarrow> wl_head l = None"

definition mqp_ack_wlist_append :: "mqp_heap \<Rightarrow> mqtt_ack_wlist \<Rightarrow> nat \<Rightarrow> (mqp_heap \<times> mqtt_ack_wlist) option" where
  "mqp_ack_wlist_append h l elem = do {
     e \<leftarrow> h elem;
     let h = h(elem \<mapsto> e\<lparr>p_next := None\<rparr>);
     case wl_tail l of
       Some t \<Rightarrow> do {
         te \<leftarrow> h t;
         Some (h(t \<mapsto> te\<lparr>p_next := Some elem\<rparr>), l\<lparr>wl_tail := Some elem\<rparr>) }
     | None \<Rightarrow> Some (h, l\<lparr>wl_tail := Some elem, wl_head := Some elem\<rparr>) }"

text \<open>
  Unlinking of \<open>elem\<close>, whose predecessor is \<open>prev\<close>: \<open>wl_remove\<close> of \<open>client_mgmt.c\<close>, and the
  body of the match in \<open>mqp_ack_wlist_remove\<close>.
\<close>

definition wl_remove :: "mqp_heap \<Rightarrow> mqtt_ack_wlist \<Rightarrow> ptr \<Rightarrow> nat \<Rightarrow> (mqp_heap \<times> mqtt_ack_wlist) option" where
  "wl_remove h l prev elem = do {
     e \<leftarrow> h elem;
     (h, l) \<leftarrow> (case prev of
         Some p \<Rightarrow> do { pe \<leftarrow> h p; Some (h(p \<mapsto> pe\<lparr>p_next := p_next e\<rparr>), l) }
       | None \<Rightarrow> Some (h, l\<lparr>wl_head := p_next e\<rparr>));
     let l = (if wl_head l = None then l\<lparr>wl_tail := None\<rparr> else l);
     let l = (if wl_tail l = Some elem then l\<lparr>wl_tail := prev\<rparr> else l);
     Some (h, l) }"

partial_function (option) wlist_remove_loop ::
  "mqp_heap \<Rightarrow> mqtt_ack_wlist \<Rightarrow> u16 \<Rightarrow> ptr \<Rightarrow> ptr \<Rightarrow> (ptr \<times> mqp_heap \<times> mqtt_ack_wlist) option" where
  "wlist_remove_loop h l msg_id prev elem =
     (case elem of
        None \<Rightarrow> Some (None, h, l)
      | Some a \<Rightarrow> do {
          e \<leftarrow> h a;
          if msg_id = p_msg_id e then do { (h, l) \<leftarrow> wl_remove h l prev a; Some (Some a, h, l) }
          else wlist_remove_loop h l msg_id (Some a) (p_next e) })"

definition mqp_ack_wlist_remove ::
  "mqp_heap \<Rightarrow> mqtt_ack_wlist \<Rightarrow> u16 \<Rightarrow> (ptr \<times> mqp_heap \<times> mqtt_ack_wlist) option" where
  "mqp_ack_wlist_remove h l msg_id = wlist_remove_loop h l msg_id None (wl_head l)"

text \<open>
  \<open>mqp_ack_wlist_purge\<close>: \<open>free_fn\<close> is \<open>free_mqp\<close> on the state \<open>'s\<close> of the library the packets
  belong to (the \<open>free\<close> hook of a packet returns it to that library's pool), \<open>heap_of\<close> reads
  the packets in that state.
\<close>

partial_function (option) wlist_purge_loop ::
  "('s \<Rightarrow> mqp_heap) \<Rightarrow> (nat \<Rightarrow> 's \<Rightarrow> 's option) \<Rightarrow> 's \<Rightarrow> ptr \<Rightarrow> 's option" where
  "wlist_purge_loop heap_of free_fn s elem =
     (case elem of
        None \<Rightarrow> Some s
      | Some a \<Rightarrow> do {
          e \<leftarrow> heap_of s a;
          s \<leftarrow> free_fn a s;
          wlist_purge_loop heap_of free_fn s (p_next e) })"

definition mqp_ack_wlist_purge ::
  "('s \<Rightarrow> mqp_heap) \<Rightarrow> (nat \<Rightarrow> 's \<Rightarrow> 's option) \<Rightarrow> 's \<Rightarrow> mqtt_ack_wlist \<Rightarrow> ('s \<times> mqtt_ack_wlist) option" where
  "mqp_ack_wlist_purge heap_of free_fn s l = do {
     s \<leftarrow> wlist_purge_loop heap_of free_fn s (wl_head l);
     Some (s, l\<lparr>wl_head := None, wl_tail := None\<rparr>) }"

section \<open>The interface\<close>

text \<open>
  What a user of a wait list relies on. \<open>rep s l ps\<close>: in memory \<open>s\<close>, the list \<open>l\<close> holds the
  packets \<open>ps\<close> in this order. \<open>mid s p\<close>: the identifier of packet \<open>p\<close> (\<open>None\<close>: no such packet).
\<close>

datatype wl_op = Append nat | Remove u16

fun wl_run :: "('s \<Rightarrow> 'l \<Rightarrow> nat \<Rightarrow> ('s \<times> 'l) option) \<Rightarrow> ('s \<Rightarrow> 'l \<Rightarrow> u16 \<Rightarrow> (ptr \<times> 's \<times> 'l) option) \<Rightarrow>
    wl_op list \<Rightarrow> 's \<Rightarrow> 'l \<Rightarrow> (ptr list \<times> 's \<times> 'l) option" where
  "wl_run app rem [] s l = Some ([], s, l)"
| "wl_run app rem (Append p # ops) s l = do { (s, l) \<leftarrow> app s l p; wl_run app rem ops s l }"
| "wl_run app rem (Remove m # ops) s l = do {
     (r, s, l) \<leftarrow> rem s l m;
     (rs, s, l) \<leftarrow> wl_run app rem ops s l;
     Some (r # rs, s, l) }"

text \<open>The specification of such a sequence on lists of packets; \<open>mid\<close> gives a packet's identifier.\<close>

fun wl_spec :: "(nat \<Rightarrow> u16 option) \<Rightarrow> wl_op list \<Rightarrow> nat list \<Rightarrow> ptr list \<times> nat list" where
  "wl_spec mid [] ps = ([], ps)"
| "wl_spec mid (Append p # ops) ps = wl_spec mid ops (ps @ [p])"
| "wl_spec mid (Remove m # ops) ps =
     (let r = find (\<lambda>p. mid p = Some m) ps;
          (rs, ps') = wl_spec mid ops (case r of None \<Rightarrow> ps | Some p \<Rightarrow> remove1 p ps)
      in (r # rs, ps'))"

text \<open>Only packets that exist and do not wait already are appended.\<close>

fun wl_ok :: "(nat \<Rightarrow> u16 option) \<Rightarrow> wl_op list \<Rightarrow> nat list \<Rightarrow> bool" where
  "wl_ok mid [] ps = True"
| "wl_ok mid (Append p # ops) ps = (mid p \<noteq> None \<and> p \<notin> set ps \<and> wl_ok mid ops (ps @ [p]))"
| "wl_ok mid (Remove m # ops) ps =
     wl_ok mid ops (case find (\<lambda>p. mid p = Some m) ps of None \<Rightarrow> ps | Some p \<Rightarrow> remove1 p ps)"

locale wait_list =
  fixes append :: "'s \<Rightarrow> 'l \<Rightarrow> nat \<Rightarrow> ('s \<times> 'l) option"
    and remove :: "'s \<Rightarrow> 'l \<Rightarrow> u16 \<Rightarrow> (ptr \<times> 's \<times> 'l) option"
    and empty :: "'l \<Rightarrow> bool"
    and rep :: "'s \<Rightarrow> 'l \<Rightarrow> nat list \<Rightarrow> bool"
    and mid :: "'s \<Rightarrow> nat \<Rightarrow> u16 option"
  assumes rep_distinct: "rep s l ps \<Longrightarrow> distinct ps"
    and rep_alloc: "rep s l ps \<Longrightarrow> p \<in> set ps \<Longrightarrow> mid s p \<noteq> None"
    and empty_rep: "rep s l ps \<Longrightarrow> empty l = (ps = [])"
    and append_rep: "rep s l ps \<Longrightarrow> mid s p \<noteq> None \<Longrightarrow> p \<notin> set ps \<Longrightarrow>
          \<exists>s' l'. append s l p = Some (s', l') \<and> rep s' l' (ps @ [p]) \<and> mid s' = mid s"
    and remove_rep: "rep s l ps \<Longrightarrow>
          \<exists>s' l'. remove s l m = Some (find (\<lambda>p. mid s p = Some m) ps, s', l') \<and>
             rep s' l' (case find (\<lambda>p. mid s p = Some m) ps of None \<Rightarrow> ps | Some p \<Rightarrow> remove1 p ps) \<and> mid s' = mid s"
begin

text \<open>A packet that waits under an identifier no other waiting packet has is what an
  acknowledgement with that identifier takes out, whatever was queued in between.\<close>

lemma remove_in:
  assumes "rep s l ps" "p \<in> set ps" "mid s p = Some m" "\<And>q. q \<in> set ps \<Longrightarrow> mid s q = Some m \<Longrightarrow> q = p"
  shows "\<exists>s' l'. remove s l m = Some (Some p, s', l') \<and> rep s' l' (remove1 p ps) \<and> mid s' = mid s"
proof -
  have "find (\<lambda>p. mid s p = Some m) ps = Some p"
  proof (cases "find (\<lambda>p. mid s p = Some m) ps")
    case None
    then have "p \<notin> set ps" using assms(3) by (simp add: find_None_iff) blast
    then show ?thesis using assms(2) by contradiction
  next
    case (Some q)
    then have "q \<in> set ps" "mid s q = Some m" unfolding find_Some_iff by auto
    then have "q = p" by (rule assms(4))
    then show ?thesis using Some by simp
  qed
  then show ?thesis using remove_rep[OF assms(1), of m] by auto
qed

lemma remove_out:
  assumes "rep s l ps" "\<And>p. p \<in> set ps \<Longrightarrow> mid s p \<noteq> Some m"
  shows "\<exists>s' l'. remove s l m = Some (None, s', l') \<and> rep s' l' ps \<and> mid s' = mid s"
proof -
  have "find (\<lambda>p. mid s p = Some m) ps = None" using assms(2) by (simp add: find_None_iff)
  then show ?thesis using remove_rep[OF assms(1), of m] by auto
qed

lemma append_remove:
  assumes "rep s l ps" "mid s p = Some m" "p \<notin> set ps" "\<And>q. q \<in> set ps \<Longrightarrow> mid s q \<noteq> Some m"
  shows "\<exists>s1 l1 s2 l2. append s l p = Some (s1, l1) \<and> rep s1 l1 (ps @ [p]) \<and>
     remove s1 l1 m = Some (Some p, s2, l2) \<and> rep s2 l2 ps"
proof -
  obtain s1 l1 where 1: "append s l p = Some (s1, l1)" "rep s1 l1 (ps @ [p])" "mid s1 = mid s"
    using append_rep[OF assms(1) _ assms(3)] assms(2) by auto
  then obtain s2 l2 where "remove s1 l1 m = Some (Some p, s2, l2)" "rep s2 l2 (remove1 p (ps @ [p]))"
    using remove_in[OF 1(2), of p m] assms by auto
  then show ?thesis using 1 assms(3) by (auto simp: remove1_append)
qed

lemma run_refines:
  "rep s l ps \<Longrightarrow> wl_ok (mid s) ops ps \<Longrightarrow>
   \<exists>s' l'. wl_run append remove ops s l = Some (fst (wl_spec (mid s) ops ps), s', l') \<and>
     rep s' l' (snd (wl_spec (mid s) ops ps)) \<and> mid s' = mid s"
proof (induction ops arbitrary: s l ps)
  case (Cons op ops)
  show ?case
  proof (cases op)
    case (Append p)
    then obtain s1 l1 where 1: "append s l p = Some (s1, l1)" "rep s1 l1 (ps @ [p])" "mid s1 = mid s"
      using append_rep[OF Cons.prems(1), of p] Cons.prems(2) by auto
    then show ?thesis using Cons.IH[OF 1(2)] Cons.prems(2) Append by simp
  next
    case (Remove m)
    let ?ps = "case find (\<lambda>p. mid s p = Some m) ps of None \<Rightarrow> ps | Some p \<Rightarrow> remove1 p ps"
    obtain s1 l1 where 1: "remove s l m = Some (find (\<lambda>p. mid s p = Some m) ps, s1, l1)" "rep s1 l1 ?ps" "mid s1 = mid s"
      using remove_rep[OF Cons.prems(1), of m] by blast
    have "wl_ok (mid s) ops ?ps" using Cons.prems(2) Remove by simp
    then obtain s2 l2 where "wl_run append remove ops s1 l1 = Some (fst (wl_spec (mid s) ops ?ps), s2, l2)"
        "rep s2 l2 (snd (wl_spec (mid s) ops ?ps))" "mid s2 = mid s"
      using Cons.IH[OF 1(2)] unfolding 1(3) by blast
    then show ?thesis using 1 Remove by (simp add: Let_def split_beta)
  qed
qed simp

end

section \<open>The code implements the interface\<close>

definition wnext :: "mqp_heap \<Rightarrow> links" where
  "wnext h p = map_option p_next (h p)"

definition wlist_rep :: "mqp_heap \<Rightarrow> mqtt_ack_wlist \<Rightarrow> nat list \<Rightarrow> bool" where
  "wlist_rep h l ps \<longleftrightarrow> chain (wnext h) (wl_head l) ps \<and> wl_tail l = (if ps = [] then None else Some (last ps))"

definition heap_mid :: "mqp_heap \<Rightarrow> nat \<Rightarrow> u16 option" where
  "heap_mid h p = map_option p_msg_id (h p)"

text \<open>Two heaps with the same packets up to their links.\<close>

definition same_pkts :: "mqp_heap \<Rightarrow> mqp_heap \<Rightarrow> bool" where
  "same_pkts h h' \<longleftrightarrow> (\<forall>p. map_option (p_next_update (\<lambda>_. None)) (h p) = map_option (p_next_update (\<lambda>_. None)) (h' p))"

lemma same_pkts_refl [simp]: "same_pkts h h" by (simp add: same_pkts_def)

lemma same_pkts_trans: "same_pkts h h' \<Longrightarrow> same_pkts h' h'' \<Longrightarrow> same_pkts h h''" by (simp add: same_pkts_def)

lemma same_pkts_upd: "h a = Some e \<Longrightarrow> same_pkts h (h(a \<mapsto> e\<lparr>p_next := r\<rparr>))" by (simp add: same_pkts_def)

lemma same_pkts_mid: "same_pkts h h' \<Longrightarrow> heap_mid h' = heap_mid h"
proof (rule ext)
  fix p assume "same_pkts h h'"
  then have "map_option (p_next_update (\<lambda>_. None)) (h p) = map_option (p_next_update (\<lambda>_. None)) (h' p)"
    by (simp add: same_pkts_def)
  then have "map_option p_msg_id (map_option (p_next_update (\<lambda>_. None)) (h p)) =
      map_option p_msg_id (map_option (p_next_update (\<lambda>_. None)) (h' p))" by simp
  then show "heap_mid h' p = heap_mid h p" by (cases "h p"; cases "h' p") (simp_all add: heap_mid_def)
qed

lemma wnext_upd [simp]: "wnext (h(a \<mapsto> e)) = (wnext h)(a \<mapsto> p_next e)" by (auto simp: wnext_def)

lemma wnext_Some: "wnext h a = Some r \<longleftrightarrow> (\<exists>e. h a = Some e \<and> p_next e = r)" by (auto simp: wnext_def)

lemma rep_alloc: "wlist_rep h l ps \<Longrightarrow> p \<in> set ps \<Longrightarrow> \<exists>e. h p = Some e"
  using seg_alloc[of "wnext h" "wl_head l" ps None p] by (auto simp: wlist_rep_def wnext_def)

lemma append_wlist:
  assumes "wlist_rep h l ps" "h a = Some e" "a \<notin> set ps"
  shows "\<exists>h' l'. mqp_ack_wlist_append h l a = Some (h', l') \<and> wlist_rep h' l' (ps @ [a]) \<and> same_pkts h h'"
proof (cases ps rule: rev_cases)
  case Nil
  let ?h = "h(a \<mapsto> e\<lparr>p_next := None\<rparr>)" and ?l = "l\<lparr>wl_tail := Some a, wl_head := Some a\<rparr>"
  have "mqp_ack_wlist_append h l a = Some (?h, ?l)"
    using assms(1,2) Nil by (simp add: mqp_ack_wlist_append_def wlist_rep_def)
  moreover have "wlist_rep ?h ?l (ps @ [a])" using Nil by (simp add: wlist_rep_def)
  ultimately show ?thesis using same_pkts_upd[of h a e None] assms(2) by blast
next
  case (snoc xs t)
  obtain te where te: "h t = Some te" using rep_alloc[OF assms(1), of t] snoc by auto
  have ne: "t \<noteq> a" using assms(3) snoc by auto
  let ?h1 = "h(a \<mapsto> e\<lparr>p_next := None\<rparr>)"
  let ?h = "?h1(t \<mapsto> te\<lparr>p_next := Some a\<rparr>)" and ?l = "l\<lparr>wl_tail := Some a\<rparr>"
  have tl: "wl_tail l = Some t" using assms(1) snoc by (simp add: wlist_rep_def)
  then have run: "mqp_ack_wlist_append h l a = Some (?h, ?l)"
    using assms(2) te ne by (simp add: mqp_ack_wlist_append_def)
  have c: "chain (wnext h) (wl_head l) (xs @ [t])" using assms(1) snoc by (simp only: wlist_rep_def)
  have "a \<notin> set (xs @ [t])" using assms(3) snoc by simp
  then have "chain ((wnext h)(a \<mapsto> None, t \<mapsto> Some a)) (wl_head l) (xs @ [t, a])" by (rule chain_snoc[OF c])
  then have rep: "wlist_rep ?h ?l (ps @ [a])" using snoc by (simp add: wlist_rep_def)
  have "same_pkts h ?h1" "same_pkts ?h1 ?h" using same_pkts_upd[of h a e None] same_pkts_upd[of ?h1 t te "Some a"] assms(2) te ne
    by (simp_all del: fun_upd_apply add: fun_upd_other)
  then have "same_pkts h ?h" by (rule same_pkts_trans)
  then show ?thesis using run rep by blast
qed

lemma wl_remove_wlist:
  assumes "wlist_rep h l (pre @ a # post)" "prev = (if pre = [] then None else Some (last pre))"
  shows "\<exists>h' l'. wl_remove h l prev a = Some (h', l') \<and> wlist_rep h' l' (pre @ post) \<and> same_pkts h h' \<and>
     (\<forall>p. p \<notin> set pre \<longrightarrow> h' p = h p)"
proof -
  obtain e where e: "h a = Some e" using rep_alloc[OF assms(1), of a] by auto
  have ch: "chain (wnext h) (wl_head l) (pre @ a # post)" and tl: "wl_tail l = Some (last (a # post))"
    using assms(1) by (simp_all add: wlist_rep_def)
  note d = chain_distinct[OF ch]
  show ?thesis
  proof (cases pre rule: rev_cases)
    case Nil
    have c: "chain (wnext h) (p_next e) post" using ch Nil e by (auto simp: wnext_def)
    show ?thesis
    proof (cases post)
      case Nil': Nil
      then show ?thesis using e c Nil assms(2) by (simp add: wl_remove_def wlist_rep_def)
    next
      case (Cons b bs)
      then have "p_next e \<noteq> None" "wl_tail l \<noteq> Some a" using c tl d Nil by auto
      then show ?thesis using e c Nil Cons assms(2) tl by (simp add: wl_remove_def wlist_rep_def)
    qed
  next
    case (snoc xs t)
    have t: "prev = Some t" using assms(2) snoc by simp
    obtain te where te: "h t = Some te" using rep_alloc[OF assms(1), of t] snoc by auto
    let ?h = "h(t \<mapsto> te\<lparr>p_next := p_next e\<rparr>)"
    have c: "chain ((wnext h)(t \<mapsto> p_next e)) (wl_head l) (xs @ t # post)"
      by (rule chain_remove_mid) (use ch snoc e in \<open>auto simp: wnext_def\<close>)
    have hd: "wl_head l \<noteq> None" using ch snoc by (cases xs) auto
    have s: "same_pkts h ?h" using te by (rule same_pkts_upd)
    show ?thesis
    proof (cases "post = []")
      case True
      then have "wl_remove h l prev a = Some (?h, l\<lparr>wl_tail := prev\<rparr>)"
        using e te t tl by (cases "wl_head l") (use hd in \<open>auto simp: wl_remove_def\<close>)
      moreover have "wlist_rep ?h (l\<lparr>wl_tail := prev\<rparr>) (pre @ post)"
        using c True snoc t unfolding wlist_rep_def by (simp del: seg_append)
      ultimately show ?thesis using s snoc by auto
    next
      case False
      then have "wl_tail l \<noteq> Some a" using tl d snoc by (metis distinct.simps(2) distinct_append last_ConsR last_in_set option.inject)
      then have "wl_remove h l prev a = Some (?h, l)" using e te t
        by (cases "wl_head l") (use hd in \<open>auto simp: wl_remove_def\<close>)
      moreover have "wlist_rep ?h l (pre @ post)"
        using c False snoc tl unfolding wlist_rep_def by (simp del: seg_append)
      ultimately show ?thesis using s snoc by auto
    qed
  qed
qed

lemma remove_loop_wlist:
  assumes "wlist_rep h l (pre @ post)" "prev = (if pre = [] then None else Some (last pre))"
    "seg (wnext h) p post None" "\<And>q. q \<in> set pre \<Longrightarrow> heap_mid h q \<noteq> Some m"
  shows "\<exists>h' l'. wlist_remove_loop h l m prev p = Some (find (\<lambda>p. heap_mid h p = Some m) post, h', l') \<and>
     wlist_rep h' l' (case find (\<lambda>p. heap_mid h p = Some m) post of None \<Rightarrow> pre @ post | Some p \<Rightarrow> remove1 p (pre @ post)) \<and>
     same_pkts h h'"
  using assms
proof (induction post arbitrary: pre prev p)
  case Nil
  then show ?case by (simp add: wlist_remove_loop.simps)
next
  case (Cons a post)
  then obtain e where e: "p = Some a" "h a = Some e" "seg (wnext h) (p_next e) post None"
    by (auto simp: wnext_Some)
  show ?case
  proof (cases "p_msg_id e = m")
    case True
    have "distinct (pre @ a # post)" using Cons.prems(1) unfolding wlist_rep_def by (blast dest: chain_distinct)
    then have "a \<notin> set pre" by simp
    obtain h' l' where w: "wl_remove h l prev a = Some (h', l')" "wlist_rep h' l' (pre @ post)" "same_pkts h h'"
      using wl_remove_wlist[OF Cons.prems(1,2)] by blast
    have f: "find (\<lambda>p. heap_mid h p = Some m) (a # post) = Some a" using True e by (simp add: heap_mid_def)
    have "wlist_remove_loop h l m prev p = Some (Some a, h', l')"
      using w e True by (subst wlist_remove_loop.simps) simp
    then show ?thesis using w f \<open>a \<notin> set pre\<close> by (simp add: remove1_append)
  next
    case False
    have "\<exists>h' l'. wlist_remove_loop h l m (Some a) (p_next e) = Some (find (\<lambda>p. heap_mid h p = Some m) post, h', l') \<and>
     wlist_rep h' l' (case find (\<lambda>p. heap_mid h p = Some m) post of None \<Rightarrow> (pre @ [a]) @ post | Some p \<Rightarrow> remove1 p ((pre @ [a]) @ post)) \<and>
     same_pkts h h'"
      by (rule Cons.IH) (use Cons.prems e False in \<open>auto simp: heap_mid_def\<close>)
    moreover have "(pre @ [a]) @ post = pre @ a # post" by simp
    moreover have "wlist_remove_loop h l m prev p = wlist_remove_loop h l m (Some a) (p_next e)"
      using e False by (subst wlist_remove_loop.simps) auto
    moreover have "find (\<lambda>p. heap_mid h p = Some m) (a # post) = find (\<lambda>p. heap_mid h p = Some m) post"
      using e False by (simp add: heap_mid_def)
    ultimately show ?thesis by (simp only:)
  qed
qed

lemma remove_wlist:
  assumes "wlist_rep h l ps"
  shows "\<exists>h' l'. mqp_ack_wlist_remove h l m = Some (find (\<lambda>p. heap_mid h p = Some m) ps, h', l') \<and>
     wlist_rep h' l' (case find (\<lambda>p. heap_mid h p = Some m) ps of None \<Rightarrow> ps | Some p \<Rightarrow> remove1 p ps) \<and> same_pkts h h'"
proof -
  have "seg (wnext h) (wl_head l) ps None" using assms by (simp add: wlist_rep_def)
  then show ?thesis using remove_loop_wlist[of h l "[]" ps None "wl_head l" m] assms
    by (simp only: mqp_ack_wlist_remove_def append_Nil if_True simp_thms list.set empty_iff)
qed

interpretation wlist: wait_list mqp_ack_wlist_append mqp_ack_wlist_remove mqp_ack_wlist_is_empty wlist_rep heap_mid
proof unfold_locales
  fix h l ps p assume "wlist_rep h l ps" "heap_mid h p \<noteq> None" "p \<notin> set ps"
  then show "\<exists>s' l'. mqp_ack_wlist_append h l p = Some (s', l') \<and> wlist_rep s' l' (ps @ [p]) \<and> heap_mid s' = heap_mid h"
    using append_wlist[of h l ps p] same_pkts_mid by (fastforce simp: heap_mid_def)
next
  fix h l ps m assume "wlist_rep h l ps"
  then show "\<exists>s' l'. mqp_ack_wlist_remove h l m = Some (find (\<lambda>p. heap_mid h p = Some m) ps, s', l') \<and>
     wlist_rep s' l' (case find (\<lambda>p. heap_mid h p = Some m) ps of None \<Rightarrow> ps | Some p \<Rightarrow> remove1 p ps) \<and> heap_mid s' = heap_mid h"
    using remove_wlist[of h l ps m] same_pkts_mid by blast
next
  fix h l ps assume "wlist_rep h l ps"
  then show "mqp_ack_wlist_is_empty l = (ps = [])"
    using seg_nempty[of "wnext h" "wl_head l" ps None] by (cases ps) (auto simp: wlist_rep_def mqp_ack_wlist_is_empty_def)
next
  fix h l ps assume "wlist_rep h l ps"
  then show "distinct ps" unfolding wlist_rep_def by (blast dest: chain_distinct)
next
  fix h l ps p assume "wlist_rep h l ps" "p \<in> set ps"
  then show "heap_mid h p \<noteq> None" using rep_alloc by (fastforce simp: heap_mid_def)
qed

section \<open>Properties\<close>

text \<open>
  C20: the wait list is a sequence of packets. Whatever packets are appended and whatever
  identifiers are acknowledged, in any order, each acknowledgement takes out the packet that
  has waited longest under that identifier (or none), the others keep their order, the tail
  pointer stays right (so that later appends are not lost), and the code never follows a
  dangling link.
\<close>

theorem ack_wlist_refines:
  assumes "wlist_rep h l ps" "wl_ok (heap_mid h) ops ps"
  shows "\<exists>h' l'. wl_run mqp_ack_wlist_append mqp_ack_wlist_remove ops h l =
       Some (fst (wl_spec (heap_mid h) ops ps), h', l') \<and>
     wlist_rep h' l' (snd (wl_spec (heap_mid h) ops ps)) \<and> heap_mid h' = heap_mid h \<and>
     mqp_ack_wlist_is_empty l' = (snd (wl_spec (heap_mid h) ops ps) = [])"
  using wlist.run_refines[OF assms] wlist.empty_rep by fast

definition sample_pkt :: "u16 \<Rightarrow> mqtt_packet" where
  "sample_pkt m = (mqp_buffer_attach (sample_rx\<lparr>p_next := None\<rparr>) [] 0 0)\<lparr>p_msg_id := m\<rparr>"

definition sample_heap :: mqp_heap where
  "sample_heap = [0 \<mapsto> sample_pkt 7, 1 \<mapsto> sample_pkt 9, 2 \<mapsto> sample_pkt 11]"

theorem ack_wlist_refines_witness:
  "\<exists>h' l'. wl_run mqp_ack_wlist_append mqp_ack_wlist_remove
       [Append 0, Append 1, Append 2, Remove 9, Remove 11, Append 1, Remove 5, Remove 7] sample_heap
       \<lparr>wl_head = None, wl_tail = None\<rparr> = Some ([Some 1, Some 2, None, Some 0], h', l') \<and>
     wlist_rep h' l' [1]"
proof -
  let ?ops = "[Append 0, Append 1, Append 2, Remove 9, Remove 11, Append 1, Remove 5, Remove 7]"
  have r: "wlist_rep sample_heap \<lparr>wl_head = None, wl_tail = None\<rparr> []" by (simp add: wlist_rep_def)
  have m: "heap_mid sample_heap 0 = Some 7" "heap_mid sample_heap 1 = Some 9" "heap_mid sample_heap 2 = Some 11"
    by (simp_all add: heap_mid_def sample_heap_def sample_pkt_def)
  then have "wl_ok (heap_mid sample_heap) ?ops []"
    "wl_spec (heap_mid sample_heap) ?ops [] = ([Some 1, Some 2, None, Some 0], [1])" by simp_all
  then show ?thesis using ack_wlist_refines[OF r, of ?ops] by auto
qed

end
