(* ===== verification/ClientCtx.thy ===== *)
theory ClientCtx
  imports Chain
begin

text \<open>
  The client contexts: \<open>struct client_ctx\<close> and its operations in
  \<open>netapps/mqtt/common/mqtt_common.[ch]\<close> (reset, the list that is kept in the order of the
  keep-alive timeouts, the update of a timeout), and the pool of contexts of
  \<open>netapps/mqtt/server/server_pkts.c\<close> (\<open>cl_ctx_init\<close>, \<open>cl_ctx_alloc\<close>, \<open>cl_ctx_free\<close>).
  The pool contract is the locale \<open>object_pool\<close>.
\<close>

section \<open>The context and its timeout list (mqtt_common)\<close>

record client_ctx =
  cx_usr :: ptr
  cx_net :: i32
  cx_remote_ip :: "u8 list"
  cx_ip_length :: u32
  cx_timeout :: u32
  cx_ka_secs :: u16
  cx_flags :: u32
  cx_next :: ptr

type_synonym ctx_heap = "nat \<Rightarrow> client_ctx option"

abbreviation KA_TIMEOUT_NONE :: u32 where "KA_TIMEOUT_NONE \<equiv> 0xFFFFFFFF"

definition cl_ctx_reset :: "client_ctx \<Rightarrow> client_ctx" where
  "cl_ctx_reset c = c\<lparr>cx_usr := None, cx_net := - 1, cx_ip_length := 16, cx_timeout := 0,
                      cx_ka_secs := 0, cx_flags := 0\<rparr>"

text \<open>The loop of \<open>cl_ctx_timeout_insert\<close>; the result is the final \<open>curr\<close> and \<open>prev\<close>
  together with the memory and the head.\<close>

partial_function (option) tins_loop ::
  "ctx_heap \<Rightarrow> ptr \<Rightarrow> nat \<Rightarrow> ptr \<Rightarrow> ptr \<Rightarrow> (ptr \<times> ptr \<times> ctx_heap \<times> ptr) option" where
  "tins_loop h head elem cur prev =
     (case cur of
        None \<Rightarrow> Some (None, prev, h, head)
      | Some c \<Rightarrow> do {
          ee \<leftarrow> h elem;
          ce \<leftarrow> h c;
          if cx_timeout ee < cx_timeout ce then
            (case prev of
               None \<Rightarrow> Some (cur, prev, h(elem \<mapsto> ee\<lparr>cx_next := head\<rparr>), Some elem)
             | Some p \<Rightarrow> do {
                 pe \<leftarrow> h p;
                 let h = h(p \<mapsto> pe\<lparr>cx_next := Some elem\<rparr>);
                 ee \<leftarrow> h elem;
                 Some (cur, prev, h(elem \<mapsto> ee\<lparr>cx_next := Some c\<rparr>), head) })
          else tins_loop h head elem (cx_next ce) (Some c) })"

definition cl_ctx_timeout_insert :: "ctx_heap \<Rightarrow> ptr \<Rightarrow> nat \<Rightarrow> (ctx_heap \<times> ptr) option" where
  "cl_ctx_timeout_insert h head elem =
     (if head = None then Some (h, Some elem)
      else do {
        (cur, prev, h, head) \<leftarrow> tins_loop h head elem head None;
        if cur = None then do {
          p \<leftarrow> prev;
          pe \<leftarrow> h p;
          Some (h(p \<mapsto> pe\<lparr>cx_next := Some elem\<rparr>), head) }
        else Some (h, head) })"

partial_function (option) cl_ctx_remove_loop ::
  "ctx_heap \<Rightarrow> ptr \<Rightarrow> nat \<Rightarrow> ptr \<Rightarrow> ptr \<Rightarrow> (ctx_heap \<times> ptr) option" where
  "cl_ctx_remove_loop h head elem cur prev =
     (case cur of
        None \<Rightarrow> Some (h, head)
      | Some c \<Rightarrow>
          if c = elem then do {
            ee \<leftarrow> h elem;
            (h, head) \<leftarrow> (case prev of
                None \<Rightarrow> Some (h, cx_next ee)
              | Some p \<Rightarrow> do { pe \<leftarrow> h p; Some (h(p \<mapsto> pe\<lparr>cx_next := cx_next ee\<rparr>), head) });
            ee \<leftarrow> h elem;
            Some (h(elem \<mapsto> ee\<lparr>cx_next := None\<rparr>), head) }
          else do { ce \<leftarrow> h c; cl_ctx_remove_loop h head elem (cx_next ce) (Some c) })"

definition cl_ctx_remove :: "ctx_heap \<Rightarrow> ptr \<Rightarrow> nat \<Rightarrow> (ctx_heap \<times> ptr) option" where
  "cl_ctx_remove h head elem = cl_ctx_remove_loop h head elem head None"

definition cl_ctx_timeout_update :: "client_ctx \<Rightarrow> u32 \<Rightarrow> client_ctx" where
  "cl_ctx_timeout_update c now_secs =
     (if cx_ka_secs c = 0 \<and> cx_timeout c = KA_TIMEOUT_NONE then c
      else c\<lparr>cx_timeout := (if cx_ka_secs c \<noteq> 0 then now_secs + ucast (cx_ka_secs c) else KA_TIMEOUT_NONE)\<rparr>)"

section \<open>The pool of contexts (server_pkts)\<close>

definition MAX_NWCONN :: nat where "MAX_NWCONN = 6"

record ctx_pool =
  contexts :: ctx_heap
  used_ctxs :: ptr
  free_ctxs :: ptr

definition cl_ctx_free :: "'a ctx_pool_scheme \<Rightarrow> nat \<Rightarrow> 'a ctx_pool_scheme option" where
  "cl_ctx_free s c = do {
     cx \<leftarrow> contexts s c;
     Some (s\<lparr>contexts := (contexts s)(c \<mapsto> (cl_ctx_reset cx)\<lparr>cx_next := free_ctxs s\<rparr>), free_ctxs := Some c\<rparr>) }"

fun cl_ctx_init_loop :: "'a ctx_pool_scheme \<Rightarrow> nat list \<Rightarrow> 'a ctx_pool_scheme option" where
  "cl_ctx_init_loop s [] = Some s"
| "cl_ctx_init_loop s (i # is) = do { s \<leftarrow> cl_ctx_free s i; cl_ctx_init_loop s is }"

text \<open>The body of the loop of \<open>cl_ctx_init\<close> is that of \<open>cl_ctx_free\<close>.\<close>

definition cl_ctx_init :: "'a ctx_pool_scheme \<Rightarrow> 'a ctx_pool_scheme option" where
  "cl_ctx_init s = cl_ctx_init_loop s [0..<MAX_NWCONN]"

definition cl_ctx_alloc :: "'a ctx_pool_scheme \<Rightarrow> (ptr \<times> 'a ctx_pool_scheme) option" where
  "cl_ctx_alloc s =
     (case free_ctxs s of
        None \<Rightarrow> Some (None, s)
      | Some c \<Rightarrow> do {
          cx \<leftarrow> contexts s c;
          Some (Some c, s\<lparr>free_ctxs := cx_next cx, contexts := (contexts s)(c \<mapsto> cx\<lparr>cx_next := None\<rparr>)\<rparr>) })"

definition used_ctxs_insert :: "'a ctx_pool_scheme \<Rightarrow> nat \<Rightarrow> 'a ctx_pool_scheme option" where
  "used_ctxs_insert s c = do {
     (h, head) \<leftarrow> cl_ctx_timeout_insert (contexts s) (used_ctxs s) c;
     Some (s\<lparr>contexts := h, used_ctxs := head\<rparr>) }"

definition used_ctxs_remove :: "'a ctx_pool_scheme \<Rightarrow> nat \<Rightarrow> 'a ctx_pool_scheme option" where
  "used_ctxs_remove s c = do {
     (h, head) \<leftarrow> cl_ctx_remove (contexts s) (used_ctxs s) c;
     Some (s\<lparr>contexts := h, used_ctxs := head\<rparr>) }"

section \<open>The pool contract\<close>

text \<open>A pool of objects with a free list: \<open>rep s xs\<close> says that \<open>xs\<close> are the free objects.\<close>

locale object_pool =
  fixes alloc :: "'s \<Rightarrow> (ptr \<times> 's) option"
    and free :: "'s \<Rightarrow> nat \<Rightarrow> 's option"
    and rep :: "'s \<Rightarrow> nat list \<Rightarrow> bool"
    and valid :: "'s \<Rightarrow> nat \<Rightarrow> bool"
  assumes rep_distinct: "rep s xs \<Longrightarrow> distinct xs"
    and rep_valid: "rep s xs \<Longrightarrow> x \<in> set xs \<Longrightarrow> valid s x"
    and alloc_none: "rep s [] \<Longrightarrow> alloc s = Some (None, s)"
    and alloc_some: "rep s (x # xs) \<Longrightarrow> \<exists>s'. alloc s = Some (Some x, s') \<and> rep s' xs \<and> valid s' = valid s"
    and free_rep: "rep s xs \<Longrightarrow> valid s x \<Longrightarrow> x \<notin> set xs \<Longrightarrow>
          \<exists>s'. free s x = Some s' \<and> rep s' (x # xs) \<and> valid s' = valid s"
begin

lemma alloc_total: "rep s xs \<Longrightarrow> \<exists>r s'. alloc s = Some (r, s') \<and> (r = None \<longleftrightarrow> xs = [])"
  using alloc_none[of s] alloc_some[of s "hd xs" "tl xs"] by (cases xs) auto

text \<open>What was allocated is not handed out again before it is freed; and freeing makes
  the next allocation succeed.\<close>

lemma alloc_fresh:
  assumes "rep s (x # xs)"
  shows "\<exists>s'. alloc s = Some (Some x, s') \<and> rep s' xs \<and> x \<notin> set xs \<and> valid s' x"
  using alloc_some[OF assms] rep_distinct[OF assms] rep_valid[OF assms] by auto

lemma free_alloc:
  assumes "rep s xs" "valid s x" "x \<notin> set xs"
  shows "\<exists>s' s''. free s x = Some s' \<and> alloc s' = Some (Some x, s'') \<and> rep s'' xs"
  using free_rep[OF assms] alloc_some[of _ x xs] by blast

end

section \<open>The lists in memory\<close>

definition cnext :: "ctx_heap \<Rightarrow> links" where
  "cnext h p = map_option cx_next (h p)"

definition ctx_tmo :: "ctx_heap \<Rightarrow> nat \<Rightarrow> u32" where
  "ctx_tmo h p = (case h p of None \<Rightarrow> 0 | Some c \<Rightarrow> cx_timeout c)"

definition same_ctxs :: "ctx_heap \<Rightarrow> ctx_heap \<Rightarrow> bool" where
  "same_ctxs h h' \<longleftrightarrow> (\<forall>p. map_option (cx_next_update (\<lambda>_. None)) (h p) = map_option (cx_next_update (\<lambda>_. None)) (h' p))"

lemma same_ctxs_refl [simp]: "same_ctxs h h" by (simp add: same_ctxs_def)

lemma same_ctxs_upd: "same_ctxs h h' \<Longrightarrow> h' a = Some e \<Longrightarrow> same_ctxs h (h'(a \<mapsto> e\<lparr>cx_next := r\<rparr>))"
  by (simp add: same_ctxs_def)

lemma same_ctxs_at: "same_ctxs h h' \<Longrightarrow> map_option (cx_next_update (\<lambda>_. None)) (h p) = map_option (cx_next_update (\<lambda>_. None)) (h' p)"
  by (simp add: same_ctxs_def)

lemma same_ctxs_tmo: "same_ctxs h h' \<Longrightarrow> ctx_tmo h' = ctx_tmo h"
proof (rule ext)
  fix p assume "same_ctxs h h'"
  from same_ctxs_at[OF this, of p] have "map_option cx_timeout (map_option (cx_next_update (\<lambda>_. None)) (h p)) =
      map_option cx_timeout (map_option (cx_next_update (\<lambda>_. None)) (h' p))" by simp
  then show "ctx_tmo h' p = ctx_tmo h p" by (cases "h p"; cases "h' p") (simp_all add: ctx_tmo_def)
qed

lemma cnext_upd [simp]: "cnext (h(a \<mapsto> e)) = (cnext h)(a \<mapsto> cx_next e)" by (auto simp: cnext_def)

lemma cnext_Some: "cnext h a = Some r \<longleftrightarrow> (\<exists>e. h a = Some e \<and> cx_next e = r)" by (auto simp: cnext_def)

lemma cchain_alloc: "seg (cnext h) p xs q \<Longrightarrow> x \<in> set xs \<Longrightarrow> \<exists>e. h x = Some e"
  using seg_alloc[of "cnext h" p xs q x] by (auto simp: cnext_def)

lemma tins_loop_spec:
  assumes "chain (cnext h) head (pre @ post)" "seg (cnext h) p post None" "x \<notin> set (pre @ post)" "h x = Some ee"
    "prev = (if pre = [] then None else Some (last pre))"
  shows "(\<forall>y \<in> set post. ctx_tmo h y \<le> ctx_tmo h x) \<and>
       tins_loop h head x p prev = Some (None, (if pre @ post = [] then None else Some (last (pre @ post))), h, head) \<or>
     (\<exists>c q h' head'. tins_loop h head x p prev = Some (Some c, q, h', head') \<and>
       chain (cnext h') head' (pre @ tmo_ins (ctx_tmo h) x post) \<and> same_ctxs h h' \<and> (\<forall>y. y \<notin> insert x (set (pre @ post)) \<longrightarrow> h' y = h y))"
  using assms
proof (induction post arbitrary: pre p prev)
  case Nil
  then show ?case by (simp add: tins_loop.simps)
next
  case (Cons c post)
  then obtain ce where c: "p = Some c" "h c = Some ce" "seg (cnext h) (cx_next ce) post None"
    by (auto simp: cnext_Some)
  show ?case
  proof (cases "cx_timeout ee < cx_timeout ce")
    case False
    then have le: "ctx_tmo h c \<le> ctx_tmo h x" using c Cons.prems(4) by (simp add: ctx_tmo_def)
    have e: "(pre @ [c]) @ ys = pre @ c # ys" for ys by simp
    have step: "tins_loop h head x p prev = tins_loop h head x (cx_next ce) (Some c)"
      using c Cons.prems(4) False by (subst tins_loop.simps) simp
    show ?thesis using Cons.IH[of "pre @ [c]" "cx_next ce" "Some c"] Cons.prems c le
      unfolding step e tmo_ins_Cons by (simp del: seg_append)
  next
    case True
    then have gt: "\<not> ctx_tmo h c \<le> ctx_tmo h x" using c Cons.prems(4) by (simp add: ctx_tmo_def)
    show ?thesis
    proof (cases pre rule: rev_cases)
      case Nil
      let ?h = "h(x \<mapsto> ee\<lparr>cx_next := head\<rparr>)"
      have "tins_loop h head x p prev = Some (Some c, None, ?h, Some x)"
        using c Cons.prems(4,5) True Nil by (subst tins_loop.simps) simp
      moreover have "chain (cnext ?h) (Some x) (x # c # post)"
      proof -
        have "chain (cnext h) head (c # post)" "x \<notin> set (c # post)" using Cons.prems(1,3) Nil by auto
        then have "chain ((cnext h)(x \<mapsto> head)) head (c # post)" by (subst seg_upd)
        moreover have "cnext ?h = (cnext h)(x \<mapsto> head)" by simp
        ultimately have "chain (cnext ?h) head (c # post)" "cnext ?h x = Some head" by (simp_all only: fun_upd_same)
        then show ?thesis using seg.simps(2)[of "cnext ?h" "Some x" x] by blast
      qed
      ultimately show ?thesis using gt Nil same_ctxs_upd[of h h x ee head] Cons.prems(4)
        by (auto simp: tmo_ins_Cons simp del: seg.simps)
    next
      case (snoc xs t)
      obtain te where te: "h t = Some te" using cchain_alloc[OF Cons.prems(1), of t] snoc by auto
      have ne: "x \<noteq> t" using Cons.prems(3) snoc by auto
      let ?h1 = "h(t \<mapsto> te\<lparr>cx_next := Some x\<rparr>)"
      let ?h = "?h1(x \<mapsto> ee\<lparr>cx_next := Some c\<rparr>)"
      have pv: "prev = Some t" using Cons.prems(5) snoc by simp
      have run: "tins_loop h head x p prev = Some (Some c, prev, ?h, head)"
        using c Cons.prems(4) True te ne pv by (subst tins_loop.simps) simp
      have ch: "chain (cnext h) head (xs @ t # c # post)" using Cons.prems(1) snoc by simp
      then have nt: "cnext h t = Some (Some c)" by auto
      have "chain ((cnext h)(t \<mapsto> Some x, x \<mapsto> Some c)) head (xs @ t # x # c # post)"
        by (rule chain_insert_mid[OF ch _ nt]) (use Cons.prems(3) snoc in auto)
      then have "chain (cnext ?h) head (pre @ tmo_ins (ctx_tmo h) x (c # post))"
        using gt snoc by (simp add: tmo_ins_Cons del: seg_append)
      moreover have "same_ctxs h ?h"
        by (intro same_ctxs_upd same_ctxs_refl) (use te ne Cons.prems(4) in simp_all)
      moreover have "\<forall>y. y \<notin> insert x (set (pre @ c # post)) \<longrightarrow> ?h y = h y" using snoc by auto
      ultimately show ?thesis using run by blast
    qed
  qed
qed

lemma timeout_insert_chain:
  assumes "chain (cnext h) head xs" "h x = Some ee" "cx_next ee = None" "x \<notin> set xs"
  shows "\<exists>h' head'. cl_ctx_timeout_insert h head x = Some (h', head') \<and>
     chain (cnext h') head' (tmo_ins (ctx_tmo h) x xs) \<and> same_ctxs h h' \<and> head' \<noteq> None \<and>
     (\<forall>y. y \<notin> insert x (set xs) \<longrightarrow> h' y = h y)"
proof (cases "xs = []")
  case True
  then show ?thesis using assms by (simp add: cl_ctx_timeout_insert_def tmo_ins_def cnext_def)
next
  case False
  then have hd: "head \<noteq> None" using seg_nempty[OF assms(1)] by simp
  consider (last) "\<forall>y \<in> set xs. ctx_tmo h y \<le> ctx_tmo h x" "tins_loop h head x head None = Some (None, Some (last xs), h, head)"
    | (mid) c q h' head' where "tins_loop h head x head None = Some (Some c, q, h', head')"
       "chain (cnext h') head' (tmo_ins (ctx_tmo h) x xs)" "same_ctxs h h'" "\<forall>y. y \<notin> insert x (set xs) \<longrightarrow> h' y = h y"
    using tins_loop_spec[of h head "[]" xs head x ee None] assms False by auto
  then show ?thesis
  proof cases
    case last
    obtain ys t where xs: "xs = ys @ [t]" using False by (metis rev_exhaust)
    obtain te where te: "h t = Some te" using cchain_alloc[OF assms(1), of t] xs by auto
    let ?h = "h(t \<mapsto> te\<lparr>cx_next := Some x\<rparr>)"
    have "chain ((cnext h)(x \<mapsto> None, t \<mapsto> Some x)) head (ys @ [t, x])"
      by (rule chain_snoc) (use assms xs in auto)
    moreover have "(cnext h)(x \<mapsto> None) = cnext h" using assms(2,3) by (auto simp: cnext_def)
    ultimately have "chain (cnext ?h) head (xs @ [x])" using xs by (simp del: seg_append)
    moreover have "tmo_ins (ctx_tmo h) x xs = xs @ [x]" by (rule tmo_ins_all) (use last in auto)
    moreover have "cl_ctx_timeout_insert h head x = Some (?h, head)"
      using last(2) hd te xs by (simp add: cl_ctx_timeout_insert_def)
    ultimately show ?thesis using hd te same_ctxs_upd[of h h t te "Some x"] xs by simp
  next
    case mid
    have "head' \<noteq> None" using seg_nempty[OF mid(2)] by (simp add: tmo_ins_def)
    then show ?thesis using mid hd by (auto simp: cl_ctx_timeout_insert_def)
  qed
qed

lemma ctx_remove_loop_chain:
  assumes "chain (cnext h) head (pre @ post)" "seg (cnext h) p post None" "prev = (if pre = [] then None else Some (last pre))"
    "x \<notin> set pre"
  shows "\<exists>h' head'. cl_ctx_remove_loop h head x p prev = Some (h', head') \<and>
     chain (cnext h') head' (pre @ remove1 x post) \<and> same_ctxs h h' \<and>
     (x \<in> set post \<longrightarrow> cnext h' x = Some None) \<and> (x \<notin> set post \<longrightarrow> h' = h \<and> head' = head) \<and>
     (\<forall>y. y \<notin> set (pre @ post) \<longrightarrow> h' y = h y)"
  using assms
proof (induction post arbitrary: pre p prev)
  case Nil
  then show ?case by (simp add: cl_ctx_remove_loop.simps)
next
  case (Cons c post)
  then obtain ce where c: "p = Some c" "h c = Some ce" "seg (cnext h) (cx_next ce) post None"
    by (auto simp: cnext_Some)
  show ?case
  proof (cases "c = x")
    case False
    have e: "(pre @ [c]) @ ys = pre @ c # ys" for ys by simp
    have step: "cl_ctx_remove_loop h head x p prev = cl_ctx_remove_loop h head x (cx_next ce) (Some c)"
      using c False by (subst cl_ctx_remove_loop.simps) simp
    show ?thesis using Cons.IH[of "pre @ [c]" "cx_next ce" "Some c"] Cons.prems c False
      unfolding step e by (auto simp del: seg_append)
  next
    case True
    have dist: "distinct (pre @ c # post)" using Cons.prems(1) by (rule chain_distinct)
    show ?thesis
    proof (cases pre rule: rev_cases)
      case Nil
      let ?h = "h(x \<mapsto> ce\<lparr>cx_next := None\<rparr>)"
      have "cl_ctx_remove_loop h head x p prev = Some (?h, cx_next ce)"
        using c True Cons.prems(3) Nil by (subst cl_ctx_remove_loop.simps) simp
      moreover have "chain (cnext ?h) (cx_next ce) post" using c True dist Nil by simp
      moreover have "same_ctxs h ?h" by (intro same_ctxs_upd same_ctxs_refl) (use c True in simp)
      ultimately show ?thesis using True Nil by auto
    next
      case (snoc xs t)
      obtain te where te: "h t = Some te" using cchain_alloc[OF Cons.prems(1), of t] snoc by auto
      have ne: "x \<noteq> t" using Cons.prems(4) snoc by auto
      let ?h1 = "h(t \<mapsto> te\<lparr>cx_next := cx_next ce\<rparr>)"
      let ?h = "?h1(x \<mapsto> ce\<lparr>cx_next := None\<rparr>)"
      have pv: "prev = Some t" using Cons.prems(3) snoc by simp
      have run: "cl_ctx_remove_loop h head x p prev = Some (?h, head)"
        using c True te ne pv by (subst cl_ctx_remove_loop.simps) simp
      have "chain ((cnext h)(t \<mapsto> cx_next ce)) head (xs @ t # post)"
      proof (rule chain_remove_mid)
        show "chain (cnext h) head (xs @ t # c # post)" using Cons.prems(1) snoc by simp
        show "cnext h c = Some (cx_next ce)" using c by (simp add: cnext_def)
      qed
      moreover have "x \<notin> set (xs @ t # post)" using dist True snoc by auto
      ultimately have "chain (cnext ?h) head (pre @ remove1 x (c # post))"
        using snoc True by (simp del: seg_append)
      moreover have "same_ctxs h ?h" by (intro same_ctxs_upd same_ctxs_refl) (use te ne c True in simp_all)
      ultimately show ?thesis using run True snoc by auto
    qed
  qed
qed

lemma ctx_remove_chain:
  assumes "chain (cnext h) head xs"
  shows "\<exists>h' head'. cl_ctx_remove h head x = Some (h', head') \<and> chain (cnext h') head' (remove1 x xs) \<and>
     same_ctxs h h' \<and> (x \<in> set xs \<longrightarrow> cnext h' x = Some None) \<and> (x \<notin> set xs \<longrightarrow> h' = h \<and> head' = head) \<and>
     (\<forall>y. y \<notin> set xs \<longrightarrow> h' y = h y)"
  using ctx_remove_loop_chain[of h head "[]" xs head None x] assms by (simp add: cl_ctx_remove_def)

section \<open>The pool of contexts implements the contract\<close>

definition ctx_free_rep :: "'a ctx_pool_scheme \<Rightarrow> nat list \<Rightarrow> bool" where
  "ctx_free_rep s xs \<longleftrightarrow> chain (cnext (contexts s)) (free_ctxs s) xs"

definition ctx_valid :: "'a ctx_pool_scheme \<Rightarrow> nat \<Rightarrow> bool" where
  "ctx_valid s c \<longleftrightarrow> contexts s c \<noteq> None"

lemma cx_next_reset [simp]: "cx_next (cl_ctx_reset c) = cx_next c" by (simp add: cl_ctx_reset_def)

lemma ctx_valid_upd: "contexts s c = Some cx \<Longrightarrow> contexts s' = (contexts s)(c \<mapsto> cx') \<Longrightarrow> ctx_valid s' = ctx_valid s"
  by (rule ext) (auto simp: ctx_valid_def)

interpretation ctx_pool: object_pool cl_ctx_alloc cl_ctx_free ctx_free_rep ctx_valid
proof unfold_locales
  fix s :: "'a ctx_pool_scheme" and xs assume "ctx_free_rep s xs"
  then show "distinct xs" unfolding ctx_free_rep_def by (rule chain_distinct)
next
  fix s :: "'a ctx_pool_scheme" and xs x assume "ctx_free_rep s xs" "x \<in> set xs"
  then show "ctx_valid s x" using cchain_alloc unfolding ctx_free_rep_def ctx_valid_def by fastforce
next
  fix s :: "'a ctx_pool_scheme" assume "ctx_free_rep s []"
  then show "cl_ctx_alloc s = Some (None, s)" by (simp add: ctx_free_rep_def cl_ctx_alloc_def)
next
  fix s :: "'a ctx_pool_scheme" and x xs assume a: "ctx_free_rep s (x # xs)"
  then obtain cx where cx: "free_ctxs s = Some x" "contexts s x = Some cx" "chain (cnext (contexts s)) (cx_next cx) xs"
    by (auto simp: ctx_free_rep_def cnext_Some)
  have "x \<notin> set xs" using a chain_distinct unfolding ctx_free_rep_def by fastforce
  then show "\<exists>s'. cl_ctx_alloc s = Some (Some x, s') \<and> ctx_free_rep s' xs \<and> ctx_valid s' = ctx_valid s"
    using cx by (auto simp: cl_ctx_alloc_def ctx_free_rep_def intro!: ctx_valid_upd)
next
  fix s :: "'a ctx_pool_scheme" and xs x assume a: "ctx_free_rep s xs" "ctx_valid s x" "x \<notin> set xs"
  then show "\<exists>s'. cl_ctx_free s x = Some s' \<and> ctx_free_rep s' (x # xs) \<and> ctx_valid s' = ctx_valid s"
    by (auto simp: cl_ctx_free_def ctx_free_rep_def ctx_valid_def fun_eq_iff)
qed

lemma cl_ctx_init_loop_rep:
  "ctx_free_rep s fs \<Longrightarrow> (\<And>i. i \<in> set is \<Longrightarrow> ctx_valid s i \<and> i \<notin> set fs) \<Longrightarrow> distinct is \<Longrightarrow>
   \<exists>s'. cl_ctx_init_loop s is = Some s' \<and> ctx_free_rep s' (rev is @ fs) \<and> ctx_valid s' = ctx_valid s"
proof (induction "is" arbitrary: s fs)
  case (Cons i js)
  then obtain s1 where 1: "cl_ctx_free s i = Some s1" "ctx_free_rep s1 (i # fs)" "ctx_valid s1 = ctx_valid s"
    using ctx_pool.free_rep[of s fs i] by auto
  have "\<exists>s'. cl_ctx_init_loop s1 js = Some s' \<and> ctx_free_rep s' (rev js @ i # fs) \<and> ctx_valid s' = ctx_valid s1"
    by (rule Cons.IH) (use 1 Cons.prems in auto)
  then show ?case using 1 by auto
qed simp

section \<open>How the broker uses the contexts\<close>

text \<open>The states of the pool that the calls of \<open>server_pkts.c\<close> produce, with the set \<open>U\<close> of the contexts that were
  inserted into the list of used contexts and the set \<open>H\<close> of those that are in hand, allocated and in no list: a context is taken
  from the pool, set up, inserted; its fields other than the timeout change; its timeout is updated and it is put in its place
  again (\<open>rx_timeout_update\<close>); it is removed and given back.\<close>

definition ctx_put :: "nat \<Rightarrow> client_ctx \<Rightarrow> 'a ctx_pool_scheme \<Rightarrow> 'a ctx_pool_scheme" where
  "ctx_put c cx s = s\<lparr>contexts := (contexts s)(c \<mapsto> cx)\<rparr>"

inductive pool_state :: "'a ctx_pool_scheme \<Rightarrow> nat set \<Rightarrow> nat set \<Rightarrow> bool" where
  start: "\<forall>i. contexts s0 i \<noteq> None \<longleftrightarrow> i < MAX_NWCONN \<Longrightarrow> used_ctxs s0 = None \<Longrightarrow> free_ctxs s0 = None \<Longrightarrow>
     cl_ctx_init s0 = Some s \<Longrightarrow> pool_state s {} {}"
| take: "pool_state s U H \<Longrightarrow> cl_ctx_alloc s = Some (Some c, s') \<Longrightarrow> pool_state s' U (insert c H)"
| set_up: "pool_state s U H \<Longrightarrow> c \<in> H \<Longrightarrow> contexts s c = Some cx \<Longrightarrow> cx_next cx' = cx_next cx \<Longrightarrow> pool_state (ctx_put c cx' s) U H"
| change: "pool_state s U H \<Longrightarrow> c \<in> U \<Longrightarrow> contexts s c = Some cx \<Longrightarrow> cx_next cx' = cx_next cx \<Longrightarrow> cx_timeout cx' = cx_timeout cx \<Longrightarrow>
     pool_state (ctx_put c cx' s) U H"
| insert: "pool_state s U H \<Longrightarrow> c \<in> H \<Longrightarrow> used_ctxs_insert s c = Some s' \<Longrightarrow> pool_state s' (insert c U) (H - {c})"
| refresh: "pool_state s U H \<Longrightarrow> c \<in> U \<Longrightarrow> contexts s c = Some cx \<Longrightarrow>
     used_ctxs_remove (ctx_put c (cl_ctx_timeout_update cx now) s) c = Some s1 \<Longrightarrow> used_ctxs_insert s1 c = Some s2 \<Longrightarrow> pool_state s2 U H"
| remove: "pool_state s U H \<Longrightarrow> c \<in> U \<Longrightarrow> used_ctxs_remove s c = Some s' \<Longrightarrow> pool_state s' (U - {c}) (insert c H)"
| free: "pool_state s U H \<Longrightarrow> c \<in> H \<Longrightarrow> cl_ctx_free s c = Some s' \<Longrightarrow> pool_state s' U (H - {c})"

text \<open>The lists in such a state, without and with the order of the used contexts.\<close>

definition pool_lists :: "'a ctx_pool_scheme \<Rightarrow> nat list \<Rightarrow> nat list \<Rightarrow> nat set \<Rightarrow> bool" where
  "pool_lists s us fs H \<longleftrightarrow> chain (cnext (contexts s)) (used_ctxs s) us \<and> chain (cnext (contexts s)) (free_ctxs s) fs \<and>
     set us \<inter> set fs = {} \<and> (set us \<union> set fs) \<inter> H = {} \<and> set us \<union> set fs \<union> H = {..<MAX_NWCONN} \<and>
     (\<forall>c \<in> H. cnext (contexts s) c = Some None)"

definition pool_inv :: "'a ctx_pool_scheme \<Rightarrow> nat list \<Rightarrow> nat list \<Rightarrow> nat set \<Rightarrow> bool" where
  "pool_inv s us fs H \<longleftrightarrow> pool_lists s us fs H \<and> sorted (map (ctx_tmo (contexts s)) us)"

lemma ctx_put_views [simp]: "contexts (ctx_put c cx s) = (contexts s)(c \<mapsto> cx)" "used_ctxs (ctx_put c cx s) = used_ctxs s"
  "free_ctxs (ctx_put c cx s) = free_ctxs s"
  by (simp_all add: ctx_put_def)

lemma put_lists:
  assumes "pool_lists s us fs H" "contexts s c = Some cx" "cx_next cx' = cx_next cx"
  shows "pool_lists (ctx_put c cx' s) us fs H"
proof -
  have e: "cnext ((contexts s)(c \<mapsto> cx')) = cnext (contexts s)" using assms(2,3) by (auto simp: cnext_def)
  show ?thesis using assms(1) unfolding pool_lists_def ctx_put_views e .
qed

lemma put_tmo: "ctx_tmo ((contexts s)(c \<mapsto> cx)) u = (if u = c then cx_timeout cx else ctx_tmo (contexts s) u)"
  by (simp add: ctx_tmo_def)

lemma insert_lists:
  assumes "pool_lists s us fs H" "c \<in> H"
  shows "\<exists>s'. used_ctxs_insert s c = Some s' \<and> pool_lists s' (tmo_ins (ctx_tmo (contexts s)) c us) fs (H - {c}) \<and>
     same_ctxs (contexts s) (contexts s')"
proof -
  note p = assms(1)[unfolded pool_lists_def]
  obtain cx where cx: "contexts s c = Some cx" "cx_next cx = None" using p assms(2) by (auto simp: cnext_Some)
  have nu: "c \<notin> set us" using p assms(2) by blast
  obtain h head where r: "cl_ctx_timeout_insert (contexts s) (used_ctxs s) c = Some (h, head)"
     "chain (cnext h) head (tmo_ins (ctx_tmo (contexts s)) c us)" "same_ctxs (contexts s) h" "\<forall>y. y \<notin> insert c (set us) \<longrightarrow> h y = contexts s y"
    using timeout_insert_chain[OF conjunct1[OF p] cx nu] by blast
  have o: "cnext h y = cnext (contexts s) y" if "y \<notin> insert c (set us)" for y using r(4) that by (simp add: cnext_def)
  have f: "y \<notin> insert c (set us)" if "y \<in> set fs \<union> (H - {c})" for y using p assms(2) that by blast
  have "chain (cnext h) (free_ctxs s) fs" using seg_cong[of "cnext (contexts s)" "free_ctxs s" fs None "cnext h"] p o f by blast
  then have "pool_lists (s\<lparr>contexts := h, used_ctxs := head\<rparr>) (tmo_ins (ctx_tmo (contexts s)) c us) fs (H - {c})"
    unfolding pool_lists_def using r(2) p assms(2) o f by auto
  then show ?thesis using r(1,3) by (simp add: used_ctxs_insert_def)
qed

lemma remove_lists:
  assumes "pool_lists s us fs H" "c \<in> set us"
  shows "\<exists>s'. used_ctxs_remove s c = Some s' \<and> pool_lists s' (remove1 c us) fs (insert c H) \<and> same_ctxs (contexts s) (contexts s')"
proof -
  note p = assms(1)[unfolded pool_lists_def]
  obtain h head where r: "cl_ctx_remove (contexts s) (used_ctxs s) c = Some (h, head)" "chain (cnext h) head (remove1 c us)"
     "same_ctxs (contexts s) h" "cnext h c = Some None" "\<forall>y. y \<notin> set us \<longrightarrow> h y = contexts s y"
    using ctx_remove_chain[OF conjunct1[OF p], of c] assms(2) by blast
  have o: "cnext h y = cnext (contexts s) y" if "y \<notin> set us" for y using r(5) that by (simp add: cnext_def)
  have f: "y \<notin> set us" if "y \<in> set fs \<union> H" for y using p that by blast
  have "chain (cnext h) (free_ctxs s) fs" using seg_cong[of "cnext (contexts s)" "free_ctxs s" fs None "cnext h"] p o f by blast
  moreover have "set (remove1 c us) = set us - {c}" using chain_distinct[OF conjunct1[OF p]] by simp
  ultimately have "pool_lists (s\<lparr>contexts := h, used_ctxs := head\<rparr>) (remove1 c us) fs (insert c H)"
    unfolding pool_lists_def using r(2,4) p assms(2) o f by auto
  then show ?thesis using r(1,3) by (simp add: used_ctxs_remove_def)
qed

lemma insert_inv:
  assumes "pool_inv s us fs H" "c \<in> H"
  shows "\<exists>s'. used_ctxs_insert s c = Some s' \<and> pool_inv s' (tmo_ins (ctx_tmo (contexts s)) c us) fs (H - {c}) \<and>
     same_ctxs (contexts s) (contexts s')"
  using insert_lists[of s us fs H c] assms sorted_tmo_ins unfolding pool_inv_def by (metis same_ctxs_tmo)

lemma remove_inv_ctx:
  assumes "pool_inv s us fs H" "c \<in> set us"
  shows "\<exists>s'. used_ctxs_remove s c = Some s' \<and> pool_inv s' (remove1 c us) fs (insert c H) \<and> same_ctxs (contexts s) (contexts s')"
  using remove_lists[of s us fs H c] assms sorted_map_remove1 unfolding pool_inv_def by (metis same_ctxs_tmo)

text \<open>The update of a timeout: the list is out of order at the context until it has been inserted again.\<close>

lemma refresh_inv:
  assumes "pool_inv s us fs H" "c \<in> set us" "contexts s c = Some cx" "cx' = cl_ctx_timeout_update cx now"
  shows "\<exists>s1 s2. used_ctxs_remove (ctx_put c cx' s) c = Some s1 \<and> used_ctxs_insert s1 c = Some s2 \<and>
     pool_inv s2 (tmo_ins (ctx_tmo (contexts s2)) c (remove1 c us)) fs H \<and> same_ctxs ((contexts s)(c \<mapsto> cx')) (contexts s2)"
proof -
  let ?s = "ctx_put c cx' s"
  have "cx_next cx' = cx_next cx" unfolding assms(4) by (simp add: cl_ctx_timeout_update_def)
  then have "pool_lists ?s us fs H" using put_lists[OF _ assms(3)] assms(1) unfolding pool_inv_def by blast
  then obtain s1 where 1: "used_ctxs_remove ?s c = Some s1" "pool_lists s1 (remove1 c us) fs (insert c H)" "same_ctxs (contexts ?s) (contexts s1)"
    using remove_lists assms(2) by blast
  have d: "distinct us" and nh: "c \<notin> H" using assms(1,2) chain_distinct unfolding pool_inv_def pool_lists_def by blast+
  have t1: "ctx_tmo (contexts s1) = ctx_tmo ((contexts s)(c \<mapsto> cx'))" using same_ctxs_tmo[OF 1(3)] by simp
  have "map (ctx_tmo (contexts s1)) (remove1 c us) = map (ctx_tmo (contexts s)) (remove1 c us)"
    unfolding t1 using d by (simp add: put_tmo)
  then have "pool_inv s1 (remove1 c us) fs (insert c H)"
    using 1(2) assms(1) sorted_map_remove1 unfolding pool_inv_def by metis
  then obtain s2 where 2: "used_ctxs_insert s1 c = Some s2" "pool_inv s2 (tmo_ins (ctx_tmo (contexts s1)) c (remove1 c us)) fs (insert c H - {c})"
     "same_ctxs (contexts s1) (contexts s2)" using insert_inv by blast
  moreover have "ctx_tmo (contexts s1) = ctx_tmo (contexts s2)" using same_ctxs_tmo[OF 2(3)] by simp
  moreover have "same_ctxs (contexts ?s) (contexts s2)" using 1(3) 2(3) unfolding same_ctxs_def by simp
  ultimately show ?thesis using 1(1) nh by simp
qed

lemma alloc_inv:
  assumes "pool_inv s us fs H"
  shows "case fs of [] \<Rightarrow> cl_ctx_alloc s = Some (None, s) | c # fs' \<Rightarrow> \<exists>s'. cl_ctx_alloc s = Some (Some c, s') \<and> pool_inv s' us fs' (insert c H)"
proof (cases fs)
  case Nil
  then show ?thesis using assms by (simp add: pool_inv_def pool_lists_def cl_ctx_alloc_def)
next
  case (Cons c fs')
  note p = assms[unfolded pool_inv_def pool_lists_def Cons]
  then obtain cx where cx: "free_ctxs s = Some c" "contexts s c = Some cx" "chain (cnext (contexts s)) (cx_next cx) fs'" by (auto simp: cnext_Some)
  let ?s = "s\<lparr>free_ctxs := cx_next cx, contexts := (contexts s)(c \<mapsto> cx\<lparr>cx_next := None\<rparr>)\<rparr>"
  have "distinct (c # fs')" using p chain_distinct by blast
  then have n: "c \<notin> set fs'" "c \<notin> set us" using p by auto
  have "ctx_tmo (contexts ?s) = ctx_tmo (contexts s)" using cx(2) by (auto simp: ctx_tmo_def fun_eq_iff)
  then have "pool_inv ?s us fs' (insert c H)" unfolding pool_inv_def pool_lists_def using p cx(3) n by auto
  then show ?thesis using cx(1,2) Cons by (simp add: cl_ctx_alloc_def)
qed

lemma free_inv:
  assumes "pool_inv s us fs H" "c \<in> H"
  shows "\<exists>s'. cl_ctx_free s c = Some s' \<and> pool_inv s' us (c # fs) (H - {c})"
proof -
  note p = assms(1)[unfolded pool_inv_def pool_lists_def]
  obtain cx where cx: "contexts s c = Some cx" using p assms(2) by (auto simp: cnext_Some)
  let ?s = "s\<lparr>contexts := (contexts s)(c \<mapsto> (cl_ctx_reset cx)\<lparr>cx_next := free_ctxs s\<rparr>), free_ctxs := Some c\<rparr>"
  have n: "c \<notin> set fs" "c \<notin> set us" using p assms(2) by blast+
  have "map (ctx_tmo (contexts ?s)) us = map (ctx_tmo (contexts s)) us" using n by (auto simp: ctx_tmo_def)
  then have "sorted (map (ctx_tmo (contexts ?s)) us)" using p by metis
  moreover have "pool_lists ?s us (c # fs) (H - {c})" unfolding pool_lists_def using p n assms(2) by auto
  ultimately have "pool_inv ?s us (c # fs) (H - {c})" unfolding pool_inv_def by blast
  then show ?thesis using cx by (simp add: cl_ctx_free_def)
qed

lemma pool_state_inv: "pool_state s U H \<Longrightarrow> \<exists>us fs. pool_inv s us fs H \<and> set us = U"
proof (induction rule: pool_state.induct)
  case (start s0 s)
  have "ctx_free_rep s0 []" using start(3) by (simp add: ctx_free_rep_def)
  then obtain s' where s': "cl_ctx_init s0 = Some s'" "ctx_free_rep s' (rev [0..<MAX_NWCONN])"
    using cl_ctx_init_loop_rep[of s0 "[]" "[0..<MAX_NWCONN]"] start(1) by (auto simp: cl_ctx_init_def ctx_valid_def)
  have "used_ctxs s' = None"
  proof -
    have "used_ctxs s' = used_ctxs s" if "cl_ctx_init_loop s is = Some s'" for s s' :: "'a ctx_pool_scheme" and "is"
      using that by (induction "is" arbitrary: s) (auto simp: cl_ctx_free_def split: Option.bind_splits)
    then show ?thesis using s'(1) start(2) by (simp add: cl_ctx_init_def)
  qed
  then have "pool_inv s' [] (rev [0..<MAX_NWCONN]) {}" using s'(2) by (auto simp: pool_inv_def pool_lists_def ctx_free_rep_def)
  then show ?case using s'(1) start(4) by fastforce
next
  case (take s U H c s')
  then obtain us fs where i: "pool_inv s us fs H" "set us = U" by blast
  from alloc_inv[OF i(1)] show ?case using take(2) i(2) by (cases fs) auto
next
  case (set_up s U H c cx cx')
  then obtain us fs where i: "pool_inv s us fs H" "set us = U" by blast
  have "c \<notin> set us" using i(1) set_up(2) unfolding pool_inv_def pool_lists_def by blast
  then have "map (ctx_tmo (contexts (ctx_put c cx' s))) us = map (ctx_tmo (contexts s)) us" by (auto simp: put_tmo)
  then show ?case using i put_lists[OF _ set_up(3,4)] unfolding pool_inv_def by metis
next
  case (change s U H c cx cx')
  then obtain us fs where i: "pool_inv s us fs H" "set us = U" by blast
  have "ctx_tmo (contexts (ctx_put c cx' s)) = ctx_tmo (contexts s)" using change(3,5) by (auto simp: ctx_tmo_def)
  then show ?case using i put_lists[OF _ change(3,4)] unfolding pool_inv_def by metis
next
  case (insert s U H c s')
  then show ?case using insert_inv by fastforce
next
  case (refresh s U H c cx now s1 s2)
  then obtain us fs where i: "pool_inv s us fs H" "set us = U" by blast
  have "distinct us" using i(1) chain_distinct unfolding pool_inv_def pool_lists_def by blast
  then have "insert c (set (remove1 c us)) = U" using i(2) refresh(2) by auto
  then show ?case using refresh_inv[OF i(1) _ refresh(3) refl, of now] refresh(2,4,5) i(2) by (metis option.inject set_tmo_ins)
next
  case (remove s U H c s')
  then obtain us fs where i: "pool_inv s us fs H" "set us = U" by blast
  have "distinct us" using i(1) chain_distinct unfolding pool_inv_def pool_lists_def by blast
  then have "set (remove1 c us) = U - {c}" using i(2) by simp
  then show ?case using remove_inv_ctx[OF i(1), of c] remove(2,3) i(2) by fastforce
next
  case (free s U H c s')
  then show ?case using free_inv by fastforce
qed

section \<open>Properties\<close>

text \<open>
  C31: the lists of contexts under any sequence of the broker's calls. In every state that is reached from the
  initialisation of the pool the list of used contexts consists of exactly the contexts that were inserted and not removed since,
  in the order of their timeouts; the free list consists of exactly those that are neither in use nor in hand. In such a state
  every call succeeds: an insertion puts the context behind those with an earlier or equal timeout, a removal takes
  exactly the context out and clears its link, an update of the timeout moves it to its new place,
  a context that is given back is the next one to be handed out, and an allocation fails only if no context is left. Insertions,
  removals and updates touch no other field of any context.
\<close>

theorem used_ctxs_sorted:
  assumes "pool_state s U H"
  shows "\<exists>us fs. chain (cnext (contexts s)) (used_ctxs s) us \<and> set us = U \<and> sorted (map (ctx_tmo (contexts s)) us) \<and>
     chain (cnext (contexts s)) (free_ctxs s) fs \<and> set fs = {..<MAX_NWCONN} - (U \<union> H) \<and> U \<inter> H = {} \<and>
     (\<forall>c \<in> H. \<exists>s'. used_ctxs_insert s c = Some s' \<and> same_ctxs (contexts s) (contexts s') \<and>
        chain (cnext (contexts s')) (used_ctxs s') (takeWhile (\<lambda>u. ctx_tmo (contexts s) u \<le> ctx_tmo (contexts s) c) us @ c #
          dropWhile (\<lambda>u. ctx_tmo (contexts s) u \<le> ctx_tmo (contexts s) c) us)) \<and>
     (\<forall>c \<in> U. \<exists>s'. used_ctxs_remove s c = Some s' \<and> same_ctxs (contexts s) (contexts s') \<and>
        chain (cnext (contexts s')) (used_ctxs s') (remove1 c us) \<and> cnext (contexts s') c = Some None) \<and>
     (\<forall>c \<in> U. \<forall>now. \<exists>cx s1 s2. contexts s c = Some cx \<and>
        used_ctxs_remove (ctx_put c (cl_ctx_timeout_update cx now) s) c = Some s1 \<and> used_ctxs_insert s1 c = Some s2 \<and>
        same_ctxs ((contexts s)(c \<mapsto> cl_ctx_timeout_update cx now)) (contexts s2) \<and>
        chain (cnext (contexts s2)) (used_ctxs s2) (takeWhile (\<lambda>u. ctx_tmo (contexts s2) u \<le> ctx_tmo (contexts s2) c) (remove1 c us) @ c #
          dropWhile (\<lambda>u. ctx_tmo (contexts s2) u \<le> ctx_tmo (contexts s2) c) (remove1 c us))) \<and>
     (\<forall>c \<in> H. \<exists>s'. cl_ctx_free s c = Some s' \<and> chain (cnext (contexts s')) (free_ctxs s') (c # fs)) \<and>
     (\<exists>s'. cl_ctx_alloc s = Some (if fs = [] then None else Some (hd fs), s'))"
proof -
  obtain us fs where i: "pool_inv s us fs H" "set us = U" using pool_state_inv[OF assms] by blast
  note p = i(1)[unfolded pool_inv_def pool_lists_def]
  have "\<exists>s'. used_ctxs_insert s c = Some s' \<and> same_ctxs (contexts s) (contexts s') \<and>
      chain (cnext (contexts s')) (used_ctxs s') (tmo_ins (ctx_tmo (contexts s)) c us)" if "c \<in> H" for c
    using insert_inv[OF i(1) that] unfolding pool_inv_def pool_lists_def by blast
  moreover have "\<exists>s'. used_ctxs_remove s c = Some s' \<and> same_ctxs (contexts s) (contexts s') \<and>
      chain (cnext (contexts s')) (used_ctxs s') (remove1 c us) \<and> cnext (contexts s') c = Some None" if "c \<in> U" for c
    using remove_inv_ctx[OF i(1), of c] that i(2) unfolding pool_inv_def pool_lists_def by blast
  moreover have "\<exists>cx s1 s2. contexts s c = Some cx \<and>
        used_ctxs_remove (ctx_put c (cl_ctx_timeout_update cx now) s) c = Some s1 \<and> used_ctxs_insert s1 c = Some s2 \<and>
        same_ctxs ((contexts s)(c \<mapsto> cl_ctx_timeout_update cx now)) (contexts s2) \<and>
        chain (cnext (contexts s2)) (used_ctxs s2) (tmo_ins (ctx_tmo (contexts s2)) c (remove1 c us))" if "c \<in> U" for c now
  proof -
    have m: "c \<in> set us" using that i(2) by simp
    obtain cx where "contexts s c = Some cx" using cchain_alloc[OF conjunct1[OF conjunct1[OF p]] m] by blast
    then show ?thesis using refresh_inv[OF i(1) m _ refl, of cx now] unfolding pool_inv_def pool_lists_def by blast
  qed
  moreover have "\<exists>s'. cl_ctx_free s c = Some s' \<and> chain (cnext (contexts s')) (free_ctxs s') (c # fs)" if "c \<in> H" for c
    using free_inv[OF i(1) that] unfolding pool_inv_def pool_lists_def by blast
  moreover have "\<exists>s'. cl_ctx_alloc s = Some (if fs = [] then None else Some (hd fs), s')"
    using alloc_inv[OF i(1)] by (cases fs) auto
  moreover have "set fs = {..<MAX_NWCONN} - (U \<union> H)" "U \<inter> H = {}" using p i(2) by blast+
  ultimately show ?thesis using p i(2) unfolding tmo_ins_def by (intro exI[of _ us] exI[of _ fs] conjI ballI allI) simp_all
qed

definition sample_ctx :: "u32 \<Rightarrow> ptr \<Rightarrow> client_ctx" where
  "sample_ctx t nx = \<lparr>cx_usr = None, cx_net = 4, cx_remote_ip = [], cx_ip_length = 16, cx_timeout = t,
     cx_ka_secs = 0, cx_flags = 0, cx_next = nx\<rparr>"

definition sample_static :: ctx_pool where
  "sample_static = \<lparr>contexts = (\<lambda>i. if i < MAX_NWCONN then Some (sample_ctx 0 None) else None),
     used_ctxs = None, free_ctxs = None\<rparr>"

text \<open>Two contexts taken, the second one with the earlier timeout.\<close>

declare tins_loop.simps [code] cl_ctx_remove_loop.simps [code]

definition "run_pool = the (cl_ctx_init sample_static)"
definition "run_taken = snd (the (cl_ctx_alloc run_pool))"
definition "run_one = the (used_ctxs_insert (ctx_put 5 (sample_ctx 30 None) run_taken) 5)"
definition "run_more = snd (the (cl_ctx_alloc run_one))"
definition "run_two = the (used_ctxs_insert (ctx_put 4 (sample_ctx 10 None) run_more) 4)"

lemmas run_defs = run_pool_def run_taken_def run_one_def run_more_def run_two_def

lemma pool_run_results:
  "map_option used_ctxs (cl_ctx_init sample_static) = Some None"
  "map_option fst (cl_ctx_alloc run_pool) = Some (Some 5)" "map_option cx_next (contexts run_taken 5) = Some None"
  "map_option used_ctxs (used_ctxs_insert (ctx_put 5 (sample_ctx 30 None) run_taken) 5) = Some (Some 5)"
  "map_option fst (cl_ctx_alloc run_one) = Some (Some 4)" "map_option cx_next (contexts run_more 4) = Some None"
  "map_option used_ctxs (used_ctxs_insert (ctx_put 4 (sample_ctx 10 None) run_more) 4) = Some (Some 4)"
  "ctx_tmo (contexts run_two) 4 = 10" "ctx_tmo (contexts run_two) 5 = 30"
  by code_simp+

lemma pool_run_steps:
  "cl_ctx_init sample_static = Some run_pool" "cl_ctx_alloc run_pool = Some (Some 5, run_taken)"
  "used_ctxs_insert (ctx_put 5 (sample_ctx 30 None) run_taken) 5 = Some run_one"
  "cl_ctx_alloc run_one = Some (Some 4, run_more)"
  "used_ctxs_insert (ctx_put 4 (sample_ctx 10 None) run_more) 4 = Some run_two"
  using pool_run_results(1,2,4,5,7) by (auto simp: run_defs)

lemma pool_run_state: "pool_state run_two {4, 5} {}"
proof -
  have n: "cx_next (sample_ctx t None) = None" for t by (simp add: sample_ctx_def)
  have "pool_state run_pool {} {}"
    by (rule pool_state.start[OF _ _ _ pool_run_steps(1)]) (simp_all add: sample_static_def)
  from pool_state.take[OF this pool_run_steps(2)] have 1: "pool_state run_taken {} {5}" by simp
  obtain x where "contexts run_taken 5 = Some x" "cx_next x = None" using pool_run_results(3) by auto
  then have "pool_state (ctx_put 5 (sample_ctx 30 None) run_taken) {} {5}" using pool_state.set_up[OF 1] n by simp
  from pool_state.insert[OF this _ pool_run_steps(3)] have "pool_state run_one {5} {}" by simp
  from pool_state.take[OF this pool_run_steps(4)] have 3: "pool_state run_more {5} {4}" by simp
  obtain y where "contexts run_more 4 = Some y" "cx_next y = None" using pool_run_results(6) by auto
  then have "pool_state (ctx_put 4 (sample_ctx 10 None) run_more) {5} {4}" using pool_state.set_up[OF 3] n by simp
  from pool_state.insert[OF this _ pool_run_steps(5)] show ?thesis by simp
qed

theorem used_ctxs_sorted_witness:
  "chain (cnext (contexts run_two)) (used_ctxs run_two) [4, 5] \<and>
   (\<exists>s'. used_ctxs_remove run_two 4 = Some s' \<and> chain (cnext (contexts s')) (used_ctxs s') [5] \<and> cnext (contexts s') 4 = Some None)"
proof -
  obtain us where us: "chain (cnext (contexts run_two)) (used_ctxs run_two) us" "set us = {4, 5}"
    "sorted (map (ctx_tmo (contexts run_two)) us)"
    "\<forall>c \<in> {4, 5}. \<exists>s'. used_ctxs_remove run_two c = Some s' \<and> same_ctxs (contexts run_two) (contexts s') \<and>
        chain (cnext (contexts s')) (used_ctxs s') (remove1 c us) \<and> cnext (contexts s') c = Some None"
    using used_ctxs_sorted[OF pool_run_state] by (elim exE conjE) (rule that)
  have t: "ctx_tmo (contexts run_two) 4 = 10" "ctx_tmo (contexts run_two) 5 = 30"
    by (rule pool_run_results)+
  have d: "distinct us" by (rule chain_distinct[OF us(1)])
  then have "length us = 2" using distinct_card[OF d] us(2) by simp
  then obtain a b where ab: "us = [a, b]" by (cases us; cases "tl us") auto
  then have "a = 4 \<and> b = 5 \<or> a = 5 \<and> b = 4" using us(2) d by (auto simp: doubleton_eq_iff)
  then have e: "us = [4, 5]" using us(3) t ab by (elim disjE) simp_all
  obtain s' where "used_ctxs_remove run_two 4 = Some s'" "chain (cnext (contexts s')) (used_ctxs s') (remove1 4 us)" "cnext (contexts s') 4 = Some None"
    using bspec[OF us(4), of 4] by blast
  then show ?thesis using us(1) unfolding e by simp
qed

text \<open>
  C32: after \<open>cl_ctx_init\<close> the pool hands out each of its \<open>MAX_NWCONN\<close> contexts exactly once
  and then reports that none is left. But the head of the free list is not reset: a second
  initialisation (\<open>mqtt_server_lib_init\<close> after a failed one) closes the free list to a cycle,
  and the seventh allocation hands out a context that is already in use.
\<close>

fun cl_ctx_allocs :: "nat \<Rightarrow> 'a ctx_pool_scheme \<Rightarrow> (ptr list \<times> 'a ctx_pool_scheme) option" where
  "cl_ctx_allocs 0 s = Some ([], s)"
| "cl_ctx_allocs (Suc k) s = do { (c, s) \<leftarrow> cl_ctx_alloc s; (cs, s) \<leftarrow> cl_ctx_allocs k s; Some (c # cs, s) }"

lemma upt_6: "[0..<MAX_NWCONN] = [0, 1, 2, 3, 4, 5]" by (simp add: MAX_NWCONN_def upt_rec)

lemma valid_6: "(\<And>i. i < MAX_NWCONN \<Longrightarrow> ctx_valid s i) \<Longrightarrow>
   \<exists>c0 c1 c2 c3 c4 c5. contexts s 0 = Some c0 \<and> contexts s 1 = Some c1 \<and> contexts s 2 = Some c2 \<and>
     contexts s 3 = Some c3 \<and> contexts s 4 = Some c4 \<and> contexts s 5 = Some c5"
  by (simp add: MAX_NWCONN_def ctx_valid_def)

theorem ctx_init_once_twice:
  assumes "\<And>i. i < MAX_NWCONN \<Longrightarrow> ctx_valid s i" "free_ctxs s = None"
  shows "\<exists>s1 s2 t. cl_ctx_init s = Some s1 \<and> ctx_free_rep s1 (rev [0..<MAX_NWCONN]) \<and>
     (\<exists>t. cl_ctx_allocs 7 s1 = Some ([Some 5, Some 4, Some 3, Some 2, Some 1, Some 0, None], t)) \<and>
     cl_ctx_init s1 = Some s2 \<and>
     cl_ctx_allocs 7 s2 = Some ([Some 5, Some 4, Some 3, Some 2, Some 1, Some 0, Some 5], t)"
proof -
  obtain c0 c1 c2 c3 c4 c5 where c: "contexts s 0 = Some c0" "contexts s 1 = Some c1" "contexts s 2 = Some c2"
    "contexts s 3 = Some c3" "contexts s 4 = Some c4" "contexts s 5 = Some c5" using valid_6[OF assms(1)] by blast
  have "ctx_free_rep s []" using assms(2) by (simp add: ctx_free_rep_def)
  then have "\<exists>s1. cl_ctx_init s = Some s1 \<and> ctx_free_rep s1 (rev [0..<MAX_NWCONN])"
    using cl_ctx_init_loop_rep[of s "[]" "[0..<MAX_NWCONN]"] assms(1) by (auto simp: cl_ctx_init_def)
  then show ?thesis using c assms(2)
    by (simp add: cl_ctx_init_def upt_6 cl_ctx_free_def numeral_eq_Suc cl_ctx_alloc_def)
qed

theorem ctx_init_once_twice_witness:
  "\<exists>s1 s2 t. cl_ctx_init sample_static = Some s1 \<and> cl_ctx_init s1 = Some s2 \<and>
     cl_ctx_allocs 7 s2 = Some ([Some 5, Some 4, Some 3, Some 2, Some 1, Some 0, Some 5], t)"
proof -
  have "\<And>i. i < MAX_NWCONN \<Longrightarrow> ctx_valid sample_static i" "free_ctxs sample_static = None"
    by (simp_all add: sample_static_def ctx_valid_def)
  from ctx_init_once_twice[OF this] show ?thesis by blast
qed

end
