(* ===== verification/TopicTree.thy ===== *)
theory TopicTree
  imports MqttWire ClientCtx "HOL-Library.Tree" "HOL-Library.Multiset"
begin

text \<open>
  The topic tree of the broker (\<open>netapps/mqtt/server/server_core.c\<close>): the pool of topic nodes,
  the reading of sub-topics, the search for the node of a topic, the creation of the missing
  nodes and the deletion of nodes that are no longer used. The nodes hang together by four
  links each; the relation \<open>tree_rep\<close> ties them to a binary tree (left: next hierarchy level,
  right: next neighbour), on which the specifications are stated.

  A topic string is the list of its characters without the terminating NUL; a pointer to the
  remaining topic (\<open>next_subtop\<close>) is the remaining string, \<open>None\<close> for \<open>NULL\<close>.
\<close>

section \<open>Nodes\<close>

definition MAX_SUBTOP_LEN :: nat where "MAX_SUBTOP_LEN = 32"
definition MAX_TOP_NODES :: nat where "MAX_TOP_NODES = 32"
abbreviation PG_MAP_ALL_DFLTS :: u8 where "PG_MAP_ALL_DFLTS \<equiv> 0xFF"
abbreviation TNODE_PROP_RETAIN_DATA :: u8 where "TNODE_PROP_RETAIN_DATA \<equiv> 0x04"

record topic_node =
  tn_dn_nhbr :: ptr
  tn_up_nhbr :: ptr
  tn_dn_hier :: ptr
  tn_up_hier :: ptr
  tn_cl_map :: "u32 list"
  tn_my_data :: "u8 list option"
  tn_my_dlen :: u32
  tn_will_cl :: ptr
  tn_my_prop :: u8
  tn_pg_map :: u8
  tn_toplen :: u16
  tn_subtop :: "c8 list"

record topic_tree =
  nodes :: "nat \<Rightarrow> topic_node"
  free_nodes :: ptr
  root_node :: ptr

definition is_node_retain :: "topic_node \<Rightarrow> bool" where
  "is_node_retain n \<longleftrightarrow> tn_my_prop n AND TNODE_PROP_RETAIN_DATA \<noteq> 0"

definition node_retain_set :: "bool \<Rightarrow> topic_node \<Rightarrow> topic_node" where
  "node_retain_set retain n =
     n\<lparr>tn_my_prop := (if retain then tn_my_prop n OR TNODE_PROP_RETAIN_DATA
                      else tn_my_prop n AND NOT TNODE_PROP_RETAIN_DATA)\<rparr>"

definition node_qid_set :: "u8 \<Rightarrow> topic_node \<Rightarrow> topic_node" where
  "node_qid_set qid n = n\<lparr>tn_my_prop := (tn_my_prop n AND NOT QID_VMASK) OR qid\<rparr>"

definition node_qid_get :: "topic_node \<Rightarrow> u8" where
  "node_qid_get n = tn_my_prop n AND QID_VMASK"

definition is_node_willed :: "topic_node \<Rightarrow> bool" where
  "is_node_willed n \<longleftrightarrow> tn_will_cl n \<noteq> None"

definition enrolls_plugin :: "topic_node \<Rightarrow> bool" where
  "enrolls_plugin n \<longleftrightarrow> tn_pg_map n \<noteq> PG_MAP_ALL_DFLTS"

definition node_reset :: "topic_node \<Rightarrow> topic_node" where
  "node_reset n = n\<lparr>tn_dn_nhbr := None, tn_up_nhbr := None, tn_dn_hier := None, tn_up_hier := None,
     tn_cl_map := [0, 0, 0], tn_my_data := None, tn_my_dlen := 0, tn_will_cl := None,
     tn_my_prop := QID_VMASK, tn_pg_map := PG_MAP_ALL_DFLTS, tn_toplen := 0\<rparr>"

definition upd_node :: "nat \<Rightarrow> (topic_node \<Rightarrow> topic_node) \<Rightarrow> topic_tree \<Rightarrow> topic_tree" where
  "upd_node i f t = t\<lparr>nodes := (nodes t)(i := f (nodes t i))\<rparr>"

definition free_node :: "topic_tree \<Rightarrow> nat \<Rightarrow> topic_tree" where
  "free_node t i = (upd_node i (\<lambda>n. (node_reset n)\<lparr>tn_dn_nhbr := free_nodes t\<rparr>) t)\<lparr>free_nodes := Some i\<rparr>"

text \<open>The loop body of \<open>topic_node_init\<close> is that of \<open>free_node\<close>.\<close>

definition topic_node_init :: "topic_tree \<Rightarrow> topic_tree" where
  "topic_node_init t = foldl free_node t [0..<MAX_TOP_NODES]"

definition alloc_topic_node :: "topic_tree \<Rightarrow> ptr \<times> topic_tree" where
  "alloc_topic_node t =
     (case free_nodes t of
        None \<Rightarrow> (None, t)
      | Some i \<Rightarrow> (Some i, upd_node i node_reset (t\<lparr>free_nodes := tn_dn_nhbr (nodes t i)\<rparr>)))"

section \<open>Sub-topics\<close>

text \<open>\<open>is_end_of_subtop\<close>: \<open>None\<close> for false, otherwise \<open>*next_subtop\<close>.\<close>

fun is_end_of_subtop :: "c8 list \<Rightarrow> c8 list option option" where
  "is_end_of_subtop [] = Some None"
| "is_end_of_subtop (c # cs) = (if c = SLASH then Some (if cs = [] then None else Some cs) else None)"

text \<open>
  The copy loop of \<open>subtop_read\<close> with room for \<open>r\<close> more characters: the characters copied
  (without a NUL) and \<open>*next_subtop\<close>, if it was set.
\<close>

fun subtop_loop :: "nat \<Rightarrow> c8 list \<Rightarrow> c8 list \<times> c8 list option option" where
  "subtop_loop 0 s = ([], None)"
| "subtop_loop (Suc r) [] = ([], Some None)"
| "subtop_loop (Suc r) (c # cs) =
     (case is_end_of_subtop (c # cs) of
        Some nx \<Rightarrow> ([c], Some nx)
      | None \<Rightarrow> let (s, nx) = subtop_loop r cs in (c # s, nx))"

text \<open>
  \<open>subtop_read\<close>: the return value, the text now in the buffer, and \<open>*next_subtop\<close>. A buffer
  of length 1 makes the code read the byte in front of the buffer.
\<close>

definition subtop_read :: "c8 list \<Rightarrow> nat \<Rightarrow> (i32 \<times> c8 list \<times> c8 list option) option" where
  "subtop_read topstr buf_length =
     (if buf_length = 0 then Some (- 1, [], Some topstr)
      else if buf_length = 1 then None
      else let (s, nx) = subtop_loop (buf_length - 1) topstr
           in Some (int (length s), s, case nx of None \<Rightarrow> Some topstr | Some n \<Rightarrow> n))"

definition alloc_node_subtop :: "topic_tree \<Rightarrow> c8 list \<Rightarrow> (ptr \<times> c8 list option \<times> topic_tree) option" where
  "alloc_node_subtop t topstr =
     (case alloc_topic_node t of
        (None, t) \<Rightarrow> Some (None, Some topstr, t)
      | (Some i, t) \<Rightarrow> do {
          (rv, s, nx) \<leftarrow> subtop_read topstr MAX_SUBTOP_LEN;
          let len = (of_int rv :: u16);
          let t = upd_node i (\<lambda>n. n\<lparr>tn_subtop := s\<rparr>) t;
          if len = 0 then Some (None, nx, free_node t i)
          else Some (Some i, nx, upd_node i (\<lambda>n. n\<lparr>tn_toplen := len\<rparr>) t) })"

text \<open>\<open>is_first_subtop\<close>: \<open>None\<close> for false, otherwise \<open>*next_subtop\<close>.\<close>

fun is_first_subtop :: "c8 list \<Rightarrow> c8 list \<Rightarrow> c8 list option option" where
  "is_first_subtop [] [] = Some None"
| "is_first_subtop (a # as) (b # bs) =
     (if a = b then (case is_end_of_subtop (b # bs) of Some nx \<Rightarrow> Some nx | None \<Rightarrow> is_first_subtop as bs)
      else None)"
| "is_first_subtop _ _ = None"

section \<open>Search\<close>

partial_function (option) subtop_nhbr_node_find ::
  "topic_tree \<Rightarrow> ptr \<Rightarrow> c8 list \<Rightarrow> (nat \<times> c8 list option) option option" where
  "subtop_nhbr_node_find t root_nh topstr =
     (case root_nh of
        None \<Rightarrow> Some None
      | Some r \<Rightarrow>
          (case is_first_subtop (tn_subtop (nodes t r)) topstr of
             Some nx \<Rightarrow> Some (Some (r, nx))
           | None \<Rightarrow> subtop_nhbr_node_find t (tn_dn_nhbr (nodes t r)) topstr))"

definition nhbr_node_find :: "topic_tree \<Rightarrow> ptr \<Rightarrow> c8 list \<Rightarrow> ptr option" where
  "nhbr_node_find t root_nh subtop = map_option (map_option fst) (subtop_nhbr_node_find t root_nh subtop)"

text \<open>The loop of \<open>lowest_node_find\<close>; the result is the node, \<open>*flag_nh\<close> and \<open>*next_subtop\<close>.\<close>

partial_function (option) lowest_loop ::
  "topic_tree \<Rightarrow> ptr \<Rightarrow> c8 list \<Rightarrow> ptr \<Rightarrow> c8 list option \<Rightarrow> (ptr \<times> bool \<times> c8 list option) option" where
  "lowest_loop t root_nh topstr node nx =
     (case root_nh of
        None \<Rightarrow> Some (node, False, nx)
      | Some r \<Rightarrow> do {
          f \<leftarrow> subtop_nhbr_node_find t root_nh topstr;
          case f of
            None \<Rightarrow> Some (root_nh, True, nx)
          | Some (n, nx') \<Rightarrow>
              (case nx' of
                 None \<Rightarrow> Some (Some n, False, None)
               | Some rest \<Rightarrow> lowest_loop t (tn_dn_hier (nodes t n)) rest (Some n) (Some rest)) })"

definition lowest_node_find :: "topic_tree \<Rightarrow> c8 list \<Rightarrow> (ptr \<times> bool \<times> c8 list option) option" where
  "lowest_node_find t topstr = lowest_loop t (root_node t) topstr None (Some topstr)"

definition leaf_node_find :: "topic_tree \<Rightarrow> c8 list \<Rightarrow> ptr option" where
  "leaf_node_find t topstr = do {
     (node, flag_nh, nx) \<leftarrow> lowest_node_find t topstr;
     Some (if nx = None then node else None) }"

section \<open>Deletion\<close>

definition can_delete_node :: "topic_node \<Rightarrow> bool" where
  "can_delete_node n \<longleftrightarrow> \<not> (tn_up_nhbr n \<noteq> None \<and> tn_up_hier n \<noteq> None) \<and>
     tn_dn_nhbr n = None \<and> tn_dn_hier n = None"

definition node_delete :: "topic_tree \<Rightarrow> nat \<Rightarrow> ptr \<times> topic_tree" where
  "node_delete t i =
     (let n = nodes t i in
      if \<not> can_delete_node n then (None, t)
      else
        let (nxt, t) = (case tn_up_nhbr n of None \<Rightarrow> (None, t)
              | Some u \<Rightarrow> (Some u, upd_node u (\<lambda>m. m\<lparr>tn_dn_nhbr := None\<rparr>) t));
            (nxt, t) = (case tn_up_hier n of None \<Rightarrow> (nxt, t)
              | Some u \<Rightarrow> (Some u, upd_node u (\<lambda>m. m\<lparr>tn_dn_hier := None\<rparr>) t));
            t = (if tn_up_nhbr n = None \<and> tn_up_hier n = None then t\<lparr>root_node := None\<rparr> else t)
        in (nxt, free_node t i))"

definition node_in_use :: "topic_node \<Rightarrow> bool" where
  "node_in_use n \<longleftrightarrow> is_node_retain n \<or> is_node_willed n \<or> enrolls_plugin n \<or> list_ex (\<lambda>m. m \<noteq> 0) (tn_cl_map n)"

partial_function (option) try_node_delete :: "topic_tree \<Rightarrow> ptr \<Rightarrow> topic_tree option" where
  "try_node_delete t node =
     (case node of
        None \<Rightarrow> Some t
      | Some i \<Rightarrow>
          if node_in_use (nodes t i) then Some t
          else (let (nxt, t') = node_delete t i in try_node_delete t' nxt))"

section \<open>Creation\<close>

definition link_hier :: "nat \<Rightarrow> nat \<Rightarrow> topic_tree \<Rightarrow> topic_tree" where
  "link_hier up dn t = upd_node dn (\<lambda>n. n\<lparr>tn_up_hier := Some up\<rparr>) (upd_node up (\<lambda>n. n\<lparr>tn_dn_hier := Some dn\<rparr>) t)"

text \<open>The loop of \<open>hier_nodes_create\<close>; the result is the base and the leaf.\<close>

partial_function (option) hier_loop ::
  "topic_tree \<Rightarrow> c8 list \<Rightarrow> ptr \<Rightarrow> ptr \<Rightarrow> (ptr \<times> ptr \<times> topic_tree) option" where
  "hier_loop t topstr base prev = do {
     (node, nx, t) \<leftarrow> alloc_node_subtop t topstr;
     case node of
       None \<Rightarrow> do { t \<leftarrow> try_node_delete t prev; Some (None, None, t) }
     | Some i \<Rightarrow>
         (let (base, t) = (case prev of None \<Rightarrow> (Some i, t) | Some p \<Rightarrow> (base, link_hier p i t)) in
          case nx of None \<Rightarrow> Some (base, Some i, t)
          | Some rest \<Rightarrow> hier_loop t rest base (Some i)) }"

definition hier_nodes_create :: "topic_tree \<Rightarrow> c8 list \<Rightarrow> (ptr \<times> ptr \<times> topic_tree) option" where
  "hier_nodes_create t topstr = hier_loop t topstr None None"

partial_function (option) install_nhbr_node :: "topic_tree \<Rightarrow> nat \<Rightarrow> nat \<Rightarrow> topic_tree option" where
  "install_nhbr_node t base node =
     (case tn_dn_nhbr (nodes t base) of
        Some b \<Rightarrow> install_nhbr_node t b node
      | None \<Rightarrow> Some (upd_node node (\<lambda>n. n\<lparr>tn_up_nhbr := Some base\<rparr>)
                      (upd_node base (\<lambda>n. n\<lparr>tn_dn_nhbr := Some node\<rparr>) t)))"

definition topic_node_create :: "topic_tree \<Rightarrow> c8 list \<Rightarrow> (ptr \<times> topic_tree) option" where
  "topic_node_create t topstr = do {
     (base, flag_nh, nx) \<leftarrow> lowest_node_find t topstr;
     case nx of
       None \<Rightarrow> Some (base, t)
     | Some rest \<Rightarrow> do {
         (node, leaf, t) \<leftarrow> hier_nodes_create t rest;
         case node of
           None \<Rightarrow> Some (None, t)
         | Some n \<Rightarrow>
             (case base of
                None \<Rightarrow> Some (leaf, t\<lparr>root_node := Some n\<rparr>)
              | Some b \<Rightarrow>
                  if flag_nh then do { t \<leftarrow> install_nhbr_node t b n; Some (leaf, t) }
                  else Some (leaf, link_hier b n t)) } }"

section \<open>Topics as lists of levels\<close>

text \<open>The first sub-topic (with its \<open>/\<close>) and the rest, on strings of any length.\<close>

fun cut_top :: "c8 list \<Rightarrow> c8 list \<times> c8 list option" where
  "cut_top [] = ([], None)"
| "cut_top (c # cs) = (if c = SLASH then ([c], if cs = [] then None else Some cs)
     else let (s, nx) = cut_top cs in (c # s, nx))"

lemma cut_top_shorter: "snd (cut_top s) = Some r \<Longrightarrow> length r < length s \<and> r \<noteq> []"
  by (induction s) (auto simp: Let_def split_beta split: if_splits)

function levels :: "c8 list \<Rightarrow> c8 list list" where
  "levels s = (if s = [] then [] else fst (cut_top s) # (case snd (cut_top s) of None \<Rightarrow> [] | Some r \<Rightarrow> levels r))"
  by pat_completeness auto
termination by (relation "measure length") (auto simp: cut_top_shorter)

declare levels.simps [simp del]

lemma levels_Nil [simp]: "levels [] = []" by (simp add: levels.simps)

lemma levels_eq_Nil [simp]: "levels s = [] \<longleftrightarrow> s = []" by (simp add: levels.simps[of s])

lemma levels_Cons: "s \<noteq> [] \<Longrightarrow> levels s = fst (cut_top s) # (case snd (cut_top s) of None \<Rightarrow> [] | Some r \<Rightarrow> levels r)"
  by (simp add: levels.simps[of s])

lemma concat_levels: "concat (levels s) = s"
proof (induction s rule: levels.induct)
  case (1 s)
  have c: "s = fst (cut_top s) @ (case snd (cut_top s) of None \<Rightarrow> [] | Some r \<Rightarrow> r)"
    by (induction s) (auto simp: Let_def split_beta)
  show ?case
  proof (cases "snd (cut_top s)")
    case None
    then show ?thesis using c by (cases "s = []") (simp_all add: levels_Cons)
  next
    case (Some r)
    then show ?thesis using c 1 by (cases "s = []") (simp_all add: levels_Cons)
  qed
qed

text \<open>A well-formed sub-topic: not empty, and a \<open>/\<close> only at the end.\<close>

definition wf_level :: "c8 list \<Rightarrow> bool" where
  "wf_level p \<longleftrightarrow> p \<noteq> [] \<and> SLASH \<notin> set (butlast p)"

lemma wf_cut: "s \<noteq> [] \<Longrightarrow> wf_level (fst (cut_top s))"
proof (induction s)
  case (Cons c cs)
  then show ?case by (cases cs) (auto simp: wf_level_def Let_def split_beta)
qed simp

lemma wf_levels: "p \<in> set (levels s) \<Longrightarrow> wf_level p"
proof (induction s rule: levels.induct)
  case (1 s)
  then show ?case by (cases "s = []"; cases "snd (cut_top s)") (auto simp: levels_Cons wf_cut)
qed

lemma is_first_subtop_cut:
  "wf_level p \<Longrightarrow> is_first_subtop p s = (if s \<noteq> [] \<and> p = fst (cut_top s) then Some (snd (cut_top s)) else None)"
proof (induction p s rule: is_first_subtop.induct)
  case (2 a as b bs)
  show ?case
  proof (cases "a = b \<and> a \<noteq> SLASH")
    case False
    then show ?thesis using 2 by (cases as) (auto simp: wf_level_def Let_def split_beta)
  next
    case True
    show ?thesis
    proof (cases "as = []")
      case True': True
      then show ?thesis using True by (cases bs) (auto simp: Let_def split_beta)
    next
      case ne: False
      then have "wf_level as" using 2(2) by (auto simp: wf_level_def)
      have "is_first_subtop as bs = (if bs \<noteq> [] \<and> as = fst (cut_top bs) then Some (snd (cut_top bs)) else None)"
        by (rule 2(1)) (use True \<open>wf_level as\<close> in auto)
      then show ?thesis using True ne by (cases bs) (auto simp: Let_def split_beta)
    qed
  qed
qed (auto simp: wf_level_def)

lemma subtop_loop_cut: "length (fst (cut_top s)) < r \<Longrightarrow> subtop_loop r s = (fst (cut_top s), Some (snd (cut_top s)))"
proof (induction r s rule: subtop_loop.induct)
  case (3 r c cs)
  then show ?case by (cases "c = SLASH") (auto simp: Let_def split_beta)
qed auto

text \<open>The sub-topics of a topic fit into the text field of a node.\<close>

definition fits :: "c8 list \<Rightarrow> bool" where
  "fits s \<longleftrightarrow> s \<noteq> [] \<and> (\<forall>p \<in> set (levels s). length p < MAX_SUBTOP_LEN - 1)"

lemma subtop_read_fits:
  assumes "fits s"
  shows "subtop_read s MAX_SUBTOP_LEN = Some (int (length (fst (cut_top s))), fst (cut_top s), snd (cut_top s))"
proof -
  have "length (fst (cut_top s)) < MAX_SUBTOP_LEN - 1" using assms by (simp add: fits_def levels_Cons)
  then show ?thesis using subtop_loop_cut[of s "MAX_SUBTOP_LEN - 1"] by (simp add: subtop_read_def MAX_SUBTOP_LEN_def)
qed

lemma fits_rest: "fits s \<Longrightarrow> snd (cut_top s) = Some r \<Longrightarrow> fits r"
  using cut_top_shorter[of s r] by (auto simp: fits_def levels_Cons)

section \<open>The tree in memory\<close>

fun tree_rep :: "(nat \<Rightarrow> topic_node) \<Rightarrow> nat tree \<Rightarrow> ptr \<Rightarrow> ptr \<Rightarrow> ptr \<Rightarrow> bool" where
  "tree_rep f Leaf p un uh = (p = None)"
| "tree_rep f (Node h i r) p un uh =
     (p = Some i \<and> tn_up_nhbr (f i) = un \<and> tn_up_hier (f i) = uh \<and>
      tree_rep f h (tn_dn_hier (f i)) None (Some i) \<and> tree_rep f r (tn_dn_nhbr (f i)) (Some i) None)"

definition tlinks :: "(nat \<Rightarrow> topic_node) \<Rightarrow> links" where
  "tlinks f i = Some (tn_dn_nhbr (f i))"

definition tsub :: "topic_tree \<Rightarrow> nat \<Rightarrow> c8 list" where
  "tsub t i = tn_subtop (nodes t i)"

text \<open>The invariant: \<open>T\<close> is the tree, \<open>fs\<close> the free list, together they are all nodes, and
  the sub-topics of the nodes of the tree are well formed.\<close>

definition tree_inv :: "topic_tree \<Rightarrow> nat tree \<Rightarrow> nat list \<Rightarrow> bool" where
  "tree_inv t T fs \<longleftrightarrow> tree_rep (nodes t) T (root_node t) None None \<and> distinct (preorder T) \<and>
     chain (tlinks (nodes t)) (free_nodes t) fs \<and> set_tree T \<inter> set fs = {} \<and>
     set_tree T \<union> set fs = {..<MAX_TOP_NODES} \<and> (\<forall>i \<in> set_tree T. wf_level (tsub t i))"

lemma tree_rep_cong: "tree_rep f T p un uh \<Longrightarrow> (\<And>i. i \<in> set_tree T \<Longrightarrow> f' i = f i) \<Longrightarrow> tree_rep f' T p un uh"
  by (induction T arbitrary: p un uh) auto

lemma tree_rep_root: "tree_rep f T p un uh \<Longrightarrow> p = (case T of Leaf \<Rightarrow> None | Node h i r \<Rightarrow> Some i)"
  by (cases T) auto

text \<open>The node of a topic, given as its levels.\<close>

fun lfind :: "(nat \<Rightarrow> c8 list) \<Rightarrow> nat tree \<Rightarrow> c8 list list \<Rightarrow> ptr" where
  "lfind sub Leaf ps = None"
| "lfind sub (Node h i r) [] = None"
| "lfind sub (Node h i r) (p # ps) =
     (if sub i = p then (if ps = [] then Some i else lfind sub h ps) else lfind sub r (p # ps))"

text \<open>The neighbour with a given sub-topic, and its down hierarchy.\<close>

fun nfind :: "(nat \<Rightarrow> c8 list) \<Rightarrow> nat tree \<Rightarrow> c8 list \<Rightarrow> (nat tree \<times> nat) option" where
  "nfind sub Leaf p = None"
| "nfind sub (Node h i r) p = (if sub i = p then Some (h, i) else nfind sub r p)"

lemma lfind_nfind: "lfind sub T (p # ps) =
   (case nfind sub T p of None \<Rightarrow> None | Some (h, i) \<Rightarrow> if ps = [] then Some i else lfind sub h ps)"
  by (induction T) auto

lemma nfind_mem: "nfind sub T p = Some (h, i) \<Longrightarrow> i \<in> set_tree T \<and> set_tree h \<subseteq> set_tree T \<and> size h < size T \<and> sub i = p"
  by (induction T) (auto split: if_splits)

lemma nfind_rep: "tree_rep f T p un uh \<Longrightarrow> nfind sub T q = Some (h, i) \<Longrightarrow> tree_rep f h (tn_dn_hier (f i)) None (Some i)"
  by (induction T arbitrary: p un uh) (auto split: if_splits)

lemma nfind_distinct: "distinct (preorder T) \<Longrightarrow> nfind sub T q = Some (h, i) \<Longrightarrow> distinct (preorder h) \<and> i \<notin> set_tree h"
  by (induction T) (auto split: if_splits)

lemma nhbr_find_rep:
  "tree_rep (nodes t) T p un uh \<Longrightarrow> (\<And>i. i \<in> set_tree T \<Longrightarrow> wf_level (tsub t i)) \<Longrightarrow> s \<noteq> [] \<Longrightarrow>
   subtop_nhbr_node_find t p s =
     Some (map_option (\<lambda>(h, i). (i, snd (cut_top s))) (nfind (tsub t) T (fst (cut_top s))))"
proof (induction T arbitrary: p un uh)
  case Leaf
  then show ?case by (simp add: subtop_nhbr_node_find.simps)
next
  case (Node h i r)
  have w: "wf_level (tn_subtop (nodes t i))" using Node.prems(2)[of i] by (simp add: tsub_def)
  have r: "subtop_nhbr_node_find t (tn_dn_nhbr (nodes t i)) s =
     Some (map_option (\<lambda>(h, i). (i, snd (cut_top s))) (nfind (tsub t) r (fst (cut_top s))))"
    using Node by auto
  have e: "tn_subtop (nodes t i) = tsub t i" by (simp add: tsub_def)
  show ?case using Node.prems(1,3) is_first_subtop_cut[OF w, of s] r unfolding e
    by (subst subtop_nhbr_node_find.simps) (auto simp: e)
qed

section \<open>Search in the tree\<close>

text \<open>Hanging the tree \<open>N\<close> at the place where the search for the levels fails.\<close>

fun tadd :: "(nat \<Rightarrow> c8 list) \<Rightarrow> nat tree \<Rightarrow> c8 list list \<Rightarrow> nat tree \<Rightarrow> nat tree" where
  "tadd sub Leaf ps N = N"
| "tadd sub (Node h i r) [] N = Node h i r"
| "tadd sub (Node h i r) (p # ps) N =
     (if sub i = p then Node (tadd sub h ps N) i r else Node h i (tadd sub r (p # ps) N))"

text \<open>The levels that are left when the search fails.\<close>

fun trest :: "(nat \<Rightarrow> c8 list) \<Rightarrow> nat tree \<Rightarrow> c8 list list \<Rightarrow> c8 list list" where
  "trest sub Leaf ps = ps"
| "trest sub (Node h i r) [] = []"
| "trest sub (Node h i r) (p # ps) = (if sub i = p then trest sub h ps else trest sub r (p # ps))"

lemma trest_nfind: "trest sub T (p # ps) = (case nfind sub T p of None \<Rightarrow> p # ps | Some (h, i) \<Rightarrow> trest sub h ps)"
  by (induction T) auto

lemma trest_suffix: "\<exists>pre. ps = pre @ trest sub T ps"
proof (induction T arbitrary: ps)
  case (Node h i r)
  then show ?case by (cases ps) (auto intro: exI[of _ "_ # _"], metis append_Cons)
qed simp

definition link_nhbr :: "nat \<Rightarrow> nat \<Rightarrow> topic_tree \<Rightarrow> topic_tree" where
  "link_nhbr l n t = upd_node n (\<lambda>m. m\<lparr>tn_up_nhbr := Some l\<rparr>) (upd_node l (\<lambda>m. m\<lparr>tn_dn_nhbr := Some n\<rparr>) t)"

text \<open>The links of node \<open>l\<close> when \<open>n\<close> hangs below it as a neighbour, or as its hierarchy.\<close>

definition hang :: "bool \<Rightarrow> nat \<Rightarrow> topic_node \<Rightarrow> topic_node" where
  "hang flag n m = (if flag then m\<lparr>tn_dn_nhbr := Some n\<rparr> else m\<lparr>tn_dn_hier := Some n\<rparr>)"

lemma spine_none:
  assumes "tree_rep (nodes t) T p un uh" "T \<noteq> Leaf" "nfind sub T q = None" "distinct (preorder T)"
  shows "\<exists>l \<in> set_tree T. \<exists>b. p = Some b \<and> tn_dn_nhbr (nodes t l) = None \<and>
     (\<forall>t' n. (\<forall>i \<in> set_tree T. nodes t' i = nodes t i) \<longrightarrow> install_nhbr_node t' b n = Some (link_nhbr l n t')) \<and>
     (\<forall>f' N n. (\<forall>i \<in> set_tree T - {l}. f' i = nodes t i) \<and> f' l = hang True n (nodes t l) \<and>
        tree_rep f' N (Some n) (Some l) None \<longrightarrow> tree_rep f' (tadd sub T (q # qs) N) p un uh)"
  using assms
proof (induction T arbitrary: p un uh)
  case (Node h i r)
  then have ne: "sub i \<noteq> q" "nfind sub r q = None" by (auto split: if_splits)
  show ?case
  proof (cases "r = Leaf")
    case True
    have "tree_rep f' h (tn_dn_hier (nodes t i)) None (Some i)"
      if "\<forall>j \<in> set_tree h \<union> set_tree r. j \<noteq> i \<longrightarrow> f' j = nodes t j" for f'
      by (rule tree_rep_cong[of "nodes t"]) (use Node.prems(1,4) that in auto)
    then show ?thesis using Node.prems(1) True ne
      by (intro bexI[of _ i] exI[of _ i]) (auto simp: install_nhbr_node.simps link_nhbr_def hang_def)
  next
    case False
    have rr: "tree_rep (nodes t) r (tn_dn_nhbr (nodes t i)) (Some i) None" using Node.prems(1) by simp
    have dr: "distinct (preorder r)" using Node.prems(4) by simp
    from Node.IH(2)[OF rr False ne(2) dr] obtain l b where l: "l \<in> set_tree r" "tn_dn_nhbr (nodes t i) = Some b"
      "tn_dn_nhbr (nodes t l) = None"
      "\<And>t' n. (\<forall>i \<in> set_tree r. nodes t' i = nodes t i) \<Longrightarrow> install_nhbr_node t' b n = Some (link_nhbr l n t')"
      "\<And>f' N n. (\<forall>i \<in> set_tree r - {l}. f' i = nodes t i) \<Longrightarrow> f' l = hang True n (nodes t l) \<Longrightarrow>
        tree_rep f' N (Some n) (Some l) None \<Longrightarrow> tree_rep f' (tadd sub r (q # qs) N) (tn_dn_nhbr (nodes t i)) (Some i) None"
      by blast
    have il: "i \<noteq> l" "l \<notin> set_tree h" using l(1) Node.prems(4) by auto
    have w: "install_nhbr_node t' i n = Some (link_nhbr l n t')"
      if "\<forall>j \<in> set_tree (Node h i r). nodes t' j = nodes t j" for t' n
      using l(2,4) that by (subst install_nhbr_node.simps) simp
    have rep: "tree_rep f' (tadd sub (Node h i r) (q # qs) N) p un uh"
      if a: "\<forall>j \<in> set_tree (Node h i r) - {l}. f' j = nodes t j" "f' l = hang True n (nodes t l)"
        "tree_rep f' N (Some n) (Some l) None" for f' N n
    proof -
      have "tree_rep f' h (tn_dn_hier (nodes t i)) None (Some i)"
        by (rule tree_rep_cong[of "nodes t"]) (use Node.prems(1) a(1) il in auto)
      moreover have "tree_rep f' (tadd sub r (q # qs) N) (tn_dn_nhbr (nodes t i)) (Some i) None"
        by (rule l(5)) (use a in auto)
      ultimately show ?thesis using Node.prems(1) a(1) il ne(1) by simp
    qed
    have "p = Some i" "l \<in> set_tree (Node h i r)" using Node.prems(1) l(1) by auto
    then show ?thesis using l(3) w rep by blast
  qed
qed simp

lemma spine_some:
  assumes "tree_rep f T p un uh" "nfind sub T q = Some (h, i)" "distinct (preorder T)"
    "\<forall>j \<in> set_tree T - set_tree h - {i}. f' j = f j" "\<exists>x. f' i = (f i)\<lparr>tn_dn_hier := x\<rparr>"
    "tree_rep f' (tadd sub h qs N) (tn_dn_hier (f' i)) None (Some i)"
  shows "tree_rep f' (tadd sub T (q # qs) N) p un uh"
  using assms
proof (induction T arbitrary: p un uh)
  case (Node h0 k r)
  show ?case
  proof (cases "sub k = q")
    case True
    then have e: "h = h0" "k = i" using Node.prems(2) by auto
    have "tree_rep f' r (tn_dn_nhbr (f k)) (Some k) None"
      by (rule tree_rep_cong[of f]) (use Node.prems e in auto)
    then show ?thesis using Node.prems e True by auto
  next
    case False
    then have n: "nfind sub r q = Some (h, i)" using Node.prems(2) by simp
    have m: "i \<in> set_tree r" "set_tree h \<subseteq> set_tree r" using nfind_mem[OF n] by auto
    have "tree_rep f' (tadd sub r (q # qs) N) (tn_dn_nhbr (f k)) (Some k) None"
      by (rule Node.IH(2)) (use Node.prems n in auto)
    moreover have "tree_rep f' h0 (tn_dn_hier (f k)) None (Some k)"
      by (rule tree_rep_cong[of f]) (use Node.prems m in auto)
    moreover have "f' k = f k" using Node.prems(3,4) m by auto
    ultimately show ?thesis using Node.prems(1) False by simp
  qed
qed simp

lemma lowest_found:
  assumes "tree_rep (nodes t) T p un uh" "\<And>j. j \<in> set_tree T \<Longrightarrow> wf_level (tsub t j)" "s \<noteq> []"
    "lfind (tsub t) T (levels s) = Some i"
  shows "lowest_loop t p s node nx = Some (Some i, False, None)"
  using assms
proof (induction "size T" arbitrary: T p un uh s node nx rule: less_induct)
  case less
  let ?q = "fst (cut_top s)"
  obtain h k where n: "nfind (tsub t) T ?q = Some (h, k)"
    using less.prems(3,4) by (auto simp: levels_Cons lfind_nfind split: option.splits)
  have p: "p \<noteq> None" using less.prems(1,4) by (cases T) auto
  note f = nhbr_find_rep[OF less.prems(1,2,3)]
  note m = nfind_mem[OF n]
  show ?case
  proof (cases "snd (cut_top s)")
    case None
    then show ?thesis using less.prems(3,4) n f p by (auto simp: levels_Cons lfind_nfind lowest_loop.simps[of t p])
  next
    case (Some r)
    then have r: "r \<noteq> []" using cut_top_shorter[of s r] by simp
    have "lowest_loop t (tn_dn_hier (nodes t k)) r (Some k) (Some r) = Some (Some i, False, None)"
      by (rule less.hyps[of h _ None "Some k"])
        (use m nfind_rep[OF less.prems(1) n] less.prems(2,3,4) n r Some in \<open>auto simp: levels_Cons lfind_nfind\<close>)
    then show ?thesis using n f p Some by (auto simp: lowest_loop.simps[of t p])
  qed
qed

text \<open>A new chain of nodes may be hung at \<open>l\<close>, to the right of it (\<open>flag\<close>) or below it: the tree then has the
  levels \<open>qs\<close> in addition.\<close>

definition place :: "topic_tree \<Rightarrow> nat tree \<Rightarrow> c8 list list \<Rightarrow> ptr \<Rightarrow> ptr \<Rightarrow> ptr \<Rightarrow> nat \<Rightarrow> bool \<Rightarrow> nat \<Rightarrow> bool" where
  "place t T qs p un uh b flag l \<longleftrightarrow> l \<in> set_tree T \<and> b \<in> set_tree T \<and>
     (if flag then tn_dn_nhbr (nodes t l) = None \<and>
        (\<forall>t' n. (\<forall>i \<in> set_tree T. nodes t' i = nodes t i) \<longrightarrow> install_nhbr_node t' b n = Some (link_nhbr l n t'))
      else l = b \<and> tn_dn_hier (nodes t l) = None) \<and>
     (\<forall>f' N n. (\<forall>i \<in> set_tree T - {l}. f' i = nodes t i) \<and> f' l = hang flag n (nodes t l) \<and>
        tree_rep f' N (Some n) (if flag then Some l else None) (if flag then None else Some l) \<longrightarrow>
        tree_rep f' (tadd (tsub t) T qs N) p un uh)"

lemma place_leaf:
  assumes "tree_rep (nodes t) T p un uh" "distinct (preorder T)" "nfind (tsub t) T q = Some (Leaf, k)"
  shows "place t T (q # qs) p un uh k False k"
proof -
  have "tree_rep f' (tadd (tsub t) T (q # qs) N) p un uh"
    if "\<forall>i \<in> set_tree T - {k}. f' i = nodes t i" "f' k = hang False n (nodes t k)" "tree_rep f' N (Some n) None (Some k)" for f' N n
    by (rule spine_some[OF assms(1,3,2)]) (use that in \<open>auto simp: hang_def\<close>)
  then show ?thesis using nfind_mem[OF assms(3)] nfind_rep[OF assms(1,3)] by (simp add: place_def)
qed

lemma place_below:
  assumes "tree_rep (nodes t) T p un uh" "distinct (preorder T)" "nfind (tsub t) T q = Some (h, k)"
    "place t h qs (tn_dn_hier (nodes t k)) None (Some k) b flag l" "h \<noteq> Leaf" "qs \<noteq> []"
  shows "place t T (q # qs) p un uh b flag l"
proof -
  note m = nfind_mem[OF assms(3)] and dh = nfind_distinct[OF assms(2,3)] and h = assms(4)[unfolded place_def]
  have sub: "set_tree h \<subseteq> set_tree T" "k \<noteq> l" "l \<in> set_tree h" using m h dh by auto
  have "tree_rep f' (tadd (tsub t) T (q # qs) N) p un uh"
    if a: "\<forall>i \<in> set_tree T - {l}. f' i = nodes t i" "f' l = hang flag n (nodes t l)"
      "tree_rep f' N (Some n) (if flag then Some l else None) (if flag then None else Some l)" for f' N n
  proof -
    have k: "f' k = nodes t k" using a(1) m sub by auto
    have "\<forall>i \<in> set_tree h - {l}. f' i = nodes t i" using a(1) sub by blast
    then have "tree_rep f' (tadd (tsub t) h qs N) (tn_dn_hier (f' k)) None (Some k)" unfolding k using h a(2,3) by blast
    then show ?thesis
      by (intro spine_some[OF assms(1,3,2)]) (use a k sub assms(5,6) in \<open>auto intro: exI[of _ "tn_dn_hier (nodes t k)"]\<close>)
  qed
  moreover have "(\<forall>i \<in> set_tree T. nodes t' i = nodes t i) \<Longrightarrow> \<forall>i \<in> set_tree h. nodes t' i = nodes t i" for t'
    using sub(1) by blast
  ultimately show ?thesis using h sub(1) unfolding place_def by (cases flag) (simp_all, blast+)
qed

lemma lowest_attach:
  assumes "tree_rep (nodes t) T p un uh" "\<And>j. j \<in> set_tree T \<Longrightarrow> wf_level (tsub t j)" "s \<noteq> []"
    "lfind (tsub t) T (levels s) = None" "T \<noteq> Leaf" "distinct (preorder T)"
  shows "\<exists>b flag rest l. lowest_loop t p s node (Some s) = Some (Some b, flag, Some rest) \<and>
     rest \<noteq> [] \<and> levels rest = trest (tsub t) T (levels s) \<and> place t T (levels s) p un uh b flag l"
  using assms
proof (induction "size T" arbitrary: T p un uh s node rule: less_induct)
  case less
  let ?q = "fst (cut_top s)"
  let ?qs = "case snd (cut_top s) of None \<Rightarrow> [] | Some r \<Rightarrow> levels r"
  have lv: "levels s = ?q # ?qs" using less.prems(3) by (rule levels_Cons)
  note f = nhbr_find_rep[OF less.prems(1,2,3)]
  obtain b0 where b0: "p = Some b0" "b0 \<in> set_tree T" using less.prems(1,5) by (cases T) auto
  show ?case
  proof (cases "nfind (tsub t) T ?q")
    case None
    then have "lowest_loop t p s node (Some s) = Some (Some b0, True, Some s)"
      using f b0 by (subst lowest_loop.simps) simp
    moreover obtain l where "place t T (levels s) p un uh b0 True l"
      using spine_none[OF less.prems(1,5) None less.prems(6), of ?qs] b0 lv unfolding place_def by auto
    moreover have "levels s = trest (tsub t) T (levels s)" using None unfolding lv trest_nfind by simp
    ultimately show ?thesis using less.prems(3) by metis
  next
    case (Some hi)
    then obtain h k where n: "nfind (tsub t) T ?q = Some (h, k)" by (cases hi) auto
    note m = nfind_mem[OF n] and rh = nfind_rep[OF less.prems(1) n] and dh = nfind_distinct[OF less.prems(6) n]
    obtain r where r: "snd (cut_top s) = Some r" using less.prems(4) n unfolding lv lfind_nfind
      by (cases "snd (cut_top s)") auto
    then have rne: "r \<noteq> []" using cut_top_shorter by blast
    have lvr: "levels s = ?q # levels r" using lv r by simp
    have tr: "trest (tsub t) T (levels s) = trest (tsub t) h (levels r)" unfolding lvr trest_nfind n by simp
    have step: "lowest_loop t p s node (Some s) = lowest_loop t (tn_dn_hier (nodes t k)) r (Some k) (Some r)"
      using n f b0 r by (subst lowest_loop.simps) simp
    show ?thesis
    proof (cases "h = Leaf")
      case True
      then have "tn_dn_hier (nodes t k) = None" using rh by simp
      then have "lowest_loop t p s node (Some s) = Some (Some k, False, Some r)" unfolding step by (simp add: lowest_loop.simps)
      moreover have "place t T (levels s) p un uh k False k"
        unfolding lvr using place_leaf[OF less.prems(1,6), of ?q k] n True by simp
      ultimately show ?thesis using rne tr True by (intro exI[of _ k] exI[of _ False] exI[of _ r] exI[of _ k]) simp
    next
      case False
      have lh: "lfind (tsub t) h (levels r) = None" using less.prems(4) n rne unfolding lvr lfind_nfind by simp
      have wfh: "\<And>j. j \<in> set_tree h \<Longrightarrow> wf_level (tsub t j)" using less.prems(2) m by auto
      from less.hyps[OF conjunct1[OF conjunct2[OF conjunct2[OF m]]] rh wfh rne lh False conjunct1[OF dh], of "Some k"]
      obtain b flag rest l where I: "lowest_loop t (tn_dn_hier (nodes t k)) r (Some k) (Some r) = Some (Some b, flag, Some rest)"
        "rest \<noteq> []" "levels rest = trest (tsub t) h (levels r)" "place t h (levels r) (tn_dn_hier (nodes t k)) None (Some k) b flag l"
        by blast
      have "place t T (levels s) p un uh b flag l"
        unfolding lvr by (rule place_below[OF less.prems(1,6) n I(4) False]) (use rne in simp)
      then show ?thesis using I(1-3) tr unfolding step by (intro exI[of _ b] exI[of _ flag] exI[of _ rest] exI[of _ l]) simp
    qed
  qed
qed

lemmas lowest_attached = lowest_attach[unfolded place_def]

section \<open>Creation of nodes\<close>

fun hchain :: "nat list \<Rightarrow> nat tree" where
  "hchain [] = Leaf"
| "hchain (n # ns) = Node (hchain ns) n Leaf"

lemma hchain_set [simp]: "set_tree (hchain ns) = set ns" by (induction ns) auto

lemma hchain_preorder [simp]: "preorder (hchain ns) = ns" by (induction ns) auto

lemma hchain_Leaf [simp]: "hchain ns = Leaf \<longleftrightarrow> ns = []" by (cases ns) auto

lemma lfind_hchain: "ns \<noteq> [] \<Longrightarrow> map sub ns = ps \<Longrightarrow> lfind sub (hchain ns) ps = Some (last ns)"
  by (induction ns arbitrary: ps) auto

text \<open>What a node that has just been created holds besides its links and its sub-topic.\<close>

definition node_fresh :: "topic_node \<Rightarrow> bool" where
  "node_fresh n \<longleftrightarrow> tn_cl_map n = [0, 0, 0] \<and> tn_my_data n = None \<and> tn_my_dlen n = 0 \<and> tn_will_cl n = None \<and>
     tn_my_prop n = QID_VMASK \<and> tn_pg_map n = PG_MAP_ALL_DFLTS \<and> tn_toplen n = of_nat (length (tn_subtop n))"

lemma nodes_upd_node [simp]: "nodes (upd_node i f t) = (nodes t)(i := f (nodes t i))" by (simp add: upd_node_def)
lemma free_upd_node [simp]: "free_nodes (upd_node i f t) = free_nodes t" by (simp add: upd_node_def)
lemma root_upd_node [simp]: "root_node (upd_node i f t) = root_node t" by (simp add: upd_node_def)

lemma tlinks_Some [simp]: "tlinks f i = Some r \<longleftrightarrow> tn_dn_nhbr (f i) = r" by (simp add: tlinks_def)

lemma tlinks_upd: "j \<notin> set xs \<Longrightarrow> seg (tlinks (f(j := n))) p xs q = seg (tlinks f) p xs q"
proof -
  assume a: "j \<notin> set xs"
  have "tlinks (f(j := n)) = (tlinks f)(j \<mapsto> tn_dn_nhbr n)" by (auto simp: tlinks_def)
  then show ?thesis using a by simp
qed

text \<open>The node \<open>alloc_node_subtop\<close> makes for the first sub-topic of \<open>s\<close>.\<close>

definition new_node :: "c8 list \<Rightarrow> topic_node \<Rightarrow> topic_node" where
  "new_node s n = (node_reset n)\<lparr>tn_subtop := fst (cut_top s), tn_toplen := of_nat (length (fst (cut_top s)))\<rparr>"

lemma new_node_simps [simp]: "tn_dn_nhbr (new_node s n) = None" "tn_up_nhbr (new_node s n) = None"
  "tn_dn_hier (new_node s n) = None" "tn_up_hier (new_node s n) = None" "tn_subtop (new_node s n) = fst (cut_top s)"
  "node_fresh (new_node s n)"
  by (simp_all add: new_node_def node_reset_def node_fresh_def)

lemma node_fresh_links [simp]: "node_fresh (n\<lparr>tn_up_hier := x\<rparr>) = node_fresh n" "node_fresh (n\<lparr>tn_dn_hier := x\<rparr>) = node_fresh n"
  "node_fresh (n\<lparr>tn_up_nhbr := x\<rparr>) = node_fresh n" "node_fresh (n\<lparr>tn_dn_nhbr := x\<rparr>) = node_fresh n"
  by (simp_all add: node_fresh_def)

lemma alloc_node_fits:
  assumes "free_nodes t = Some i" "fits s"
  shows "alloc_node_subtop t s = Some (Some i, snd (cut_top s),
     t\<lparr>nodes := (nodes t)(i := new_node s (nodes t i)), free_nodes := tn_dn_nhbr (nodes t i)\<rparr>)"
proof -
  have s: "s \<noteq> []" using assms(2) by (simp add: fits_def)
  have l: "0 < length (fst (cut_top s))" "length (fst (cut_top s)) < 31"
    using wf_cut[OF s] assms(2) s by (auto simp: wf_level_def fits_def levels_Cons MAX_SUBTOP_LEN_def)
  then have "unat (of_nat (length (fst (cut_top s))) :: u16) = length (fst (cut_top s))" by (intro unat_of_nat_eq) simp
  then have "(of_nat (length (fst (cut_top s))) :: u16) \<noteq> 0" using l(1) by (metis less_not_refl unat_0)
  then show ?thesis using assms(1) subtop_read_fits[OF assms(2)]
    by (cases "cut_top s") (simp add: alloc_node_subtop_def alloc_topic_node_def upd_node_def new_node_def)
qed

lemma hier_loop_ok:
  assumes "chain (tlinks (nodes t)) (free_nodes t) (ns @ fs)" "fits s" "length ns = length (levels s)"
    "\<And>p. prev = Some p \<Longrightarrow> p \<notin> set (ns @ fs)"
  shows "\<exists>t'. hier_loop t s base prev = Some (if prev = None then Some (hd ns) else base, Some (last ns), t') \<and>
     chain (tlinks (nodes t')) (free_nodes t') fs \<and> root_node t' = root_node t \<and>
     (\<forall>j. j \<notin> set ns \<and> prev \<noteq> Some j \<longrightarrow> nodes t' j = nodes t j) \<and>
     (\<forall>p. prev = Some p \<longrightarrow> nodes t' p = hang False (hd ns) (nodes t p)) \<and>
     tree_rep (nodes t') (hchain ns) (Some (hd ns)) None prev \<and> map (tsub t') ns = levels s \<and>
     (\<forall>j \<in> set ns. node_fresh (nodes t' j))"
  using assms
proof (induction ns arbitrary: t s base prev)
  case Nil
  then show ?case by (simp add: fits_def)
next
  case (Cons i ns)
  have s: "s \<noteq> []" using Cons.prems(2) by (simp add: fits_def)
  have fr: "free_nodes t = Some i" "chain (tlinks (nodes t)) (tn_dn_nhbr (nodes t i)) (ns @ fs)"
    using Cons.prems(1) by auto
  have d: "distinct (i # ns @ fs)" using chain_distinct[OF Cons.prems(1)] by simp
  define t1 where "t1 = t\<lparr>nodes := (nodes t)(i := new_node s (nodes t i)), free_nodes := tn_dn_nhbr (nodes t i)\<rparr>"
  define t2 where "t2 = (case prev of None \<Rightarrow> t1 | Some p \<Rightarrow> link_hier p i t1)"
  define base2 where "base2 = (case prev of None \<Rightarrow> Some i | Some _ \<Rightarrow> base)"
  have pi: "prev \<noteq> Some i" using Cons.prems(4) by auto
  have al: "alloc_node_subtop t s = Some (Some i, snd (cut_top s), t1)"
    unfolding t1_def by (rule alloc_node_fits[OF fr(1) Cons.prems(2)])
  have step: "hier_loop t s base prev = (case snd (cut_top s) of None \<Rightarrow> Some (base2, Some i, t2)
      | Some rest \<Rightarrow> hier_loop t2 rest base2 (Some i))"
    by (subst hier_loop.simps) (simp add: al t2_def base2_def Let_def split: option.splits)
  have n2: "nodes t2 i = (new_node s (nodes t i))\<lparr>tn_up_hier := prev\<rparr>"
    using pi by (cases prev) (auto simp: t2_def t1_def link_hier_def new_node_def node_reset_def)
  have o2: "\<And>j. j \<noteq> i \<Longrightarrow> prev \<noteq> Some j \<Longrightarrow> nodes t2 j = nodes t j" "\<And>p. prev = Some p \<Longrightarrow> nodes t2 p = hang False i (nodes t p)"
    "root_node t2 = root_node t"
    using pi by (cases prev; auto simp: t2_def t1_def link_hier_def hang_def)+
  have "chain (tlinks (nodes t1)) (free_nodes t1) (ns @ fs)"
    using fr(2) d by (simp add: t1_def tlinks_upd del: seg_append)
  then have c2: "chain (tlinks (nodes t2)) (free_nodes t2) (ns @ fs)"
  proof (cases prev)
    case (Some p)
    then have "p \<notin> set (ns @ fs)" "i \<notin> set (ns @ fs)" using Cons.prems(4) d by auto
    then show ?thesis using \<open>chain (tlinks (nodes t1)) (free_nodes t1) (ns @ fs)\<close> Some
      by (simp add: t2_def link_hier_def tlinks_upd del: seg_append fun_upd_apply)
  qed (simp add: t2_def)
  show ?case
  proof (cases "snd (cut_top s)")
    case None
    then have ns: "ns = []" using Cons.prems(3) s by (simp add: levels_Cons)
    have "hier_loop t s base prev = Some (base2, Some i, t2)" using step None by simp
    moreover have "base2 = (if prev = None then Some i else base)" by (cases prev) (simp_all add: base2_def)
    ultimately show ?thesis using ns c2 n2 o2 None s by (auto simp: levels_Cons tsub_def)
  next
    case (Some rest)
    have rest: "fits rest" "levels s = fst (cut_top s) # levels rest"
      using fits_rest[OF Cons.prems(2) Some] s Some by (simp_all add: levels_Cons)
    have len: "length ns = length (levels rest)" using Cons.prems(3) rest(2) by simp
    then have ne: "ns \<noteq> []" using rest(1) by (auto simp: fits_def)
    have pd: "\<And>p. Some i = Some p \<Longrightarrow> p \<notin> set (ns @ fs)" using d by auto
    note IH = Cons.IH[of t2 rest "Some i" base2]
    obtain t' where
      I: "hier_loop t2 rest base2 (Some i) = Some (base2, Some (last ns), t')"
      "chain (tlinks (nodes t')) (free_nodes t') fs" "root_node t' = root_node t2"
      "\<And>j. j \<notin> set ns \<Longrightarrow> i \<noteq> j \<Longrightarrow> nodes t' j = nodes t2 j" "nodes t' i = hang False (hd ns) (nodes t2 i)"
      "tree_rep (nodes t') (hchain ns) (Some (hd ns)) None (Some i)" "map (tsub t') ns = levels rest"
      "\<And>j. j \<in> set ns \<Longrightarrow> node_fresh (nodes t' j)"
      using IH[OF c2 rest(1) len] pd by auto
    have "hier_loop t s base prev = Some (base2, Some (last ns), t')" using step Some I(1) by simp
    moreover have "base2 = (if prev = None then Some i else base)" by (cases prev) (simp_all add: base2_def)
    moreover have "tree_rep (nodes t') (hchain (i # ns)) (Some i) None prev"
      using I(5,6) n2 ne by (simp add: hang_def)
    moreover have "map (tsub t') (i # ns) = levels s" using I(5,7) n2 rest(2) by (simp add: tsub_def hang_def)
    moreover have "node_fresh (nodes t' i)" using I(5) n2 by (simp add: hang_def)
    moreover have "nodes t' j = nodes t j" if "j \<notin> set (i # ns)" "prev \<noteq> Some j" for j
      using that I(4)[of j] o2(1)[of j] by auto
    moreover have "nodes t' p = hang False i (nodes t p)" if "prev = Some p" for p
      using that Cons.prems(4)[OF that] I(4)[of p] o2(2)[OF that] by auto
    ultimately show ?thesis using I(2,3,8) o2(3) ne by auto
  qed
qed

lemma lfind_cong: "(\<And>i. i \<in> set_tree T \<Longrightarrow> sub' i = sub i) \<Longrightarrow> lfind sub' T ps = lfind sub T ps"
proof (induction T arbitrary: ps)
  case (Node h i r)
  then show ?case by (cases ps) auto
qed simp

lemma tadd_cong: "(\<And>i. i \<in> set_tree T \<Longrightarrow> sub' i = sub i) \<Longrightarrow> tadd sub' T ps N = tadd sub T ps N"
proof (induction T arbitrary: ps)
  case (Node h i r)
  then show ?case by (cases ps) auto
qed simp

lemma trest_cong: "(\<And>i. i \<in> set_tree T \<Longrightarrow> sub' i = sub i) \<Longrightarrow> trest sub' T ps = trest sub T ps"
proof (induction T arbitrary: ps)
  case (Node h i r)
  then show ?case by (cases ps) auto
qed simp

lemma mset_tadd: "lfind sub T ps = None \<Longrightarrow> ps \<noteq> [] \<Longrightarrow>
   mset (preorder (tadd sub T ps N)) = mset (preorder T) + mset (preorder N)"
proof (induction T arbitrary: ps)
  case (Node h i r)
  then show ?case by (cases ps) (auto split: if_splits)
qed simp

lemma lfind_tadd:
  "lfind sub T ps = None \<Longrightarrow> ps \<noteq> [] \<Longrightarrow> ns \<noteq> [] \<Longrightarrow> map sub ns = trest sub T ps \<Longrightarrow>
   lfind sub (tadd sub T ps (hchain ns)) ps = Some (last ns)"
proof (induction T arbitrary: ps)
  case Leaf
  then show ?case by (simp add: lfind_hchain)
next
  case (Node h i r)
  then show ?case by (cases ps) (auto split: if_splits)
qed

lemma lfind_tadd_old: "lfind sub T qs = Some m \<Longrightarrow> lfind sub (tadd sub T ps N) qs = Some m"
proof (induction T arbitrary: ps qs)
  case (Node h i r)
  then show ?case by (cases ps; cases qs) (auto split: if_splits)
qed simp

lemma lfind_hchain_inv: "lfind sub (hchain ns) qs = Some m \<Longrightarrow> \<exists>k. qs = take k (map sub ns) \<and> m \<in> set ns"
proof (induction ns arbitrary: qs)
  case (Cons n ns)
  then obtain q qs' where q: "qs = q # qs'" "sub n = q" by (cases qs) (auto split: if_splits)
  show ?case
  proof (cases "qs' = []")
    case True
    then show ?thesis using Cons.prems q by (intro exI[of _ 1]) simp
  next
    case False
    then have "lfind sub (hchain ns) qs' = Some m" using Cons.prems q by simp
    from Cons.IH[OF this] obtain k where "qs' = take k (map sub ns)" "m \<in> set ns" by blast
    then show ?thesis using q by (intro exI[of _ "Suc k"]) simp
  qed
qed simp

lemma lfind_tadd_new:
  "lfind sub (tadd sub T ps (hchain ns)) qs = Some m \<Longrightarrow> map sub ns = trest sub T ps \<Longrightarrow>
   lfind sub T qs = Some m \<or> (\<exists>k. qs = take k ps \<and> m \<in> set ns)"
proof (induction T arbitrary: ps qs)
  case Leaf
  then show ?case using lfind_hchain_inv by fastforce
next
  case (Node h i r)
  show ?case
  proof (cases "ps = [] \<or> qs = []")
    case True
    then show ?thesis using Node.prems by (cases ps; cases qs) (auto split: if_splits)
  next
    case False
    then obtain p ps' q qs' where e: "ps = p # ps'" "qs = q # qs'" by (meson neq_Nil_conv)
    show ?thesis
    proof (cases "sub i = p")
      case False
      then have "lfind sub r qs = Some m \<or> (\<exists>k. qs = take k ps \<and> m \<in> set ns)" if "sub i \<noteq> q"
        using that Node.IH(2)[of ps qs] Node.prems e by simp
      then show ?thesis using Node.prems e False by (cases "sub i = q") auto
    next
      case p: True
      show ?thesis
      proof (cases "sub i = q \<and> qs' \<noteq> []")
        case True
        then have "lfind sub h qs' = Some m \<or> (\<exists>k. qs' = take k ps' \<and> m \<in> set ns)"
          using p Node.IH(1)[of ps' qs'] Node.prems e by simp
        then show ?thesis using p e True by (auto intro: exI[of _ "Suc _"])
      next
        case False
        then show ?thesis using p Node.prems e by (auto split: if_splits)
      qed
    qed
  qed
qed

text \<open>What a node holds besides its links.\<close>

definition node_data :: "topic_node \<Rightarrow> topic_node" where
  "node_data n = n\<lparr>tn_dn_nhbr := None, tn_up_nhbr := None, tn_dn_hier := None, tn_up_hier := None\<rparr>"

lemma node_data_links [simp]: "node_data (n\<lparr>tn_up_hier := x\<rparr>) = node_data n" "node_data (n\<lparr>tn_dn_hier := x\<rparr>) = node_data n"
  "node_data (n\<lparr>tn_up_nhbr := x\<rparr>) = node_data n" "node_data (n\<lparr>tn_dn_nhbr := x\<rparr>) = node_data n" "node_data (hang b k n) = node_data n"
  by (simp_all add: node_data_def hang_def)

lemma node_data_sub: "node_data n = node_data m \<Longrightarrow> tn_subtop n = tn_subtop m"
proof -
  assume "node_data n = node_data m"
  then have "tn_subtop (node_data n) = tn_subtop (node_data m)" by simp
  then show ?thesis by (simp add: node_data_def)
qed

lemma hchain_up_nhbr:
  assumes "tree_rep f (hchain ns) (Some (hd ns)) None None" "ns \<noteq> []" "distinct ns"
    "\<And>j. j \<in> set ns \<Longrightarrow> f' j = (if j = hd ns then (f j)\<lparr>tn_up_nhbr := un, tn_up_hier := uh\<rparr> else f j)"
  shows "tree_rep f' (hchain ns) (Some (hd ns)) un uh"
proof (cases ns)
  case (Cons n ms)
  have "tree_rep f' (hchain ms) (tn_dn_hier (f n)) None (Some n)"
    by (rule tree_rep_cong[of f]) (use assms Cons in auto)
  then show ?thesis using assms Cons by simp
qed (use assms in simp)

lemma disjoint_distinct: "distinct xs \<Longrightarrow> distinct ys \<Longrightarrow> set xs \<inter> set ys = {} \<Longrightarrow> mset zs = mset xs + mset ys \<Longrightarrow> distinct zs"
  by (metis distinct_append mset_append mset_eq_imp_distinct_iff)

text \<open>
  The node that \<open>topic_node_create\<close> makes when the topic is not in the tree: the nodes \<open>ns\<close>
  come from the free list, the new tree is \<open>tadd\<close>, the data of all other nodes stay.
\<close>

text \<open>Where a new chain of nodes is attached: at the pool's root, after the neighbour \<open>l\<close>, or below \<open>l\<close>.\<close>

definition attach_at :: "topic_tree \<Rightarrow> nat tree \<Rightarrow> c8 list \<Rightarrow> ptr \<Rightarrow> bool \<Rightarrow> nat \<Rightarrow> bool" where
  "attach_at t T s b flag l \<longleftrightarrow> T = Leaf \<and> b = None \<or> b \<noteq> None \<and> T \<noteq> Leaf \<and> l \<in> set_tree T \<and> the b \<in> set_tree T \<and>
     (if flag then tn_dn_nhbr (nodes t l) = None \<and>
        (\<forall>t' n. (\<forall>i \<in> set_tree T. nodes t' i = nodes t i) \<longrightarrow> install_nhbr_node t' (the b) n = Some (link_nhbr l n t'))
      else l = the b \<and> tn_dn_hier (nodes t l) = None) \<and>
     (\<forall>f' N n. (\<forall>i \<in> set_tree T - {l}. f' i = nodes t i) \<and> f' l = hang flag n (nodes t l) \<and>
        tree_rep f' N (Some n) (if flag then Some l else None) (if flag then None else Some l) \<longrightarrow>
        tree_rep f' (tadd (tsub t) T (levels s) N) (root_node t) None None)"

definition hook :: "ptr \<Rightarrow> bool \<Rightarrow> nat \<Rightarrow> nat \<Rightarrow> topic_tree \<Rightarrow> topic_tree" where
  "hook b flag l n t = (case b of None \<Rightarrow> t\<lparr>root_node := Some n\<rparr>
     | Some c \<Rightarrow> if flag then link_nhbr l n t else link_hier l n t)"

lemma lowest_place:
  assumes "tree_rep (nodes t) T (root_node t) None None" "distinct (preorder T)" "\<And>j. j \<in> set_tree T \<Longrightarrow> wf_level (tsub t j)"
    "s \<noteq> []" "lfind (tsub t) T (levels s) = None"
  shows "\<exists>b flag rest l. lowest_node_find t s = Some (b, flag, Some rest) \<and> rest \<noteq> [] \<and>
     levels rest = trest (tsub t) T (levels s) \<and> attach_at t T s b flag l"
proof (cases "T = Leaf")
  case True
  then have "root_node t = None" using assms(1) by simp
  then have "lowest_node_find t s = Some (None, False, Some s)"
    by (simp add: lowest_node_find_def lowest_loop.simps)
  then show ?thesis using assms(4) True by (intro exI[of _ None] exI[of _ False] exI[of _ s] exI[of _ 0]) (simp add: attach_at_def)
next
  case False
  from lowest_attached[OF assms(1,3,4,5) False assms(2), of None] obtain b flag rest l where
    "lowest_loop t (root_node t) s None (Some s) = Some (Some b, flag, Some rest)" "rest \<noteq> []"
    "levels rest = trest (tsub t) T (levels s)" "l \<in> set_tree T" "b \<in> set_tree T"
    "if flag then tn_dn_nhbr (nodes t l) = None \<and>
      (\<forall>t' n. (\<forall>i \<in> set_tree T. nodes t' i = nodes t i) \<longrightarrow> install_nhbr_node t' b n = Some (link_nhbr l n t'))
     else l = b \<and> tn_dn_hier (nodes t l) = None"
    "\<forall>f' N n. (\<forall>i \<in> set_tree T - {l}. f' i = nodes t i) \<and> f' l = hang flag n (nodes t l) \<and>
      tree_rep f' N (Some n) (if flag then Some l else None) (if flag then None else Some l) \<longrightarrow>
      tree_rep f' (tadd (tsub t) T (levels s) N) (root_node t) None None" by blast
  then show ?thesis using False
    by (intro exI[of _ "Some b"] exI[of _ flag] exI[of _ rest] exI[of _ l]) (auto simp: attach_at_def lowest_node_find_def split: if_splits)
qed

lemma hook_nodes:
  assumes "b \<noteq> None \<Longrightarrow> l \<noteq> n"
  shows "nodes (hook b flag l n t) j =
    (if b = None then nodes t j else if j = n then (if flag then (nodes t j)\<lparr>tn_up_nhbr := Some l\<rparr> else (nodes t j)\<lparr>tn_up_hier := Some l\<rparr>)
     else if j = l then hang flag n (nodes t j) else nodes t j)"
    "root_node (hook b flag l n t) = (if b = None then Some n else root_node t)" "free_nodes (hook b flag l n t) = free_nodes t"
    "node_data (nodes (hook b flag l n t) j) = node_data (nodes t j)"
  using assms by (cases b; simp add: hook_def link_nhbr_def link_hier_def hang_def)+

lemma hook_run:
  assumes "lowest_node_find t s = Some (b, flag, Some rest)" "attach_at t T s b flag l"
    "hier_nodes_create t rest = Some (Some n, Some m, t1)" "\<And>j. j \<in> set_tree T \<Longrightarrow> nodes t1 j = nodes t j"
  shows "topic_node_create t s = Some (Some m, hook b flag l n t1)"
proof (cases b)
  case None
  then show ?thesis by (simp add: topic_node_create_def assms(1,3) hook_def)
next
  case (Some c)
  then show ?thesis using assms(2,4)
    by (cases flag) (auto simp: topic_node_create_def assms(1,3) hook_def attach_at_def)
qed

lemma hook_tree:
  assumes "attach_at t T s b flag l" "tree_rep (nodes t1) (hchain ns) (Some (hd ns)) None None" "ns \<noteq> []" "distinct ns"
    "\<And>j. j \<in> set_tree T \<Longrightarrow> nodes t1 j = nodes t j" "set_tree T \<inter> set ns = {}" "root_node t1 = root_node t"
  shows "tree_rep (nodes (hook b flag l (hd ns) t1)) (tadd (tsub t) T (levels s) (hchain ns)) (root_node (hook b flag l (hd ns) t1)) None None"
proof -
  define t' where "t' = hook b flag l (hd ns) t1"
  have hdn: "hd ns \<in> set ns" using assms(3) by simp
  have lT: "b \<noteq> None \<Longrightarrow> l \<in> set_tree T" using assms(1) by (auto simp: attach_at_def)
  then have lns: "b \<noteq> None \<Longrightarrow> l \<notin> set ns" using assms(6) by auto
  then have "b \<noteq> None \<Longrightarrow> l \<noteq> hd ns" using hdn by auto
  note nds = hook_nodes[of b l "hd ns", OF this, of flag t1, folded t'_def]
  have "tree_rep (nodes t') (tadd (tsub t) T (levels s) (hchain ns)) (root_node t') None None"
  proof (cases b)
    case None
    then have "T = Leaf" using assms(1) by (auto simp: attach_at_def)
    moreover have "tree_rep (nodes t') (hchain ns) (Some (hd ns)) None None"
      by (rule tree_rep_cong[OF assms(2)]) (simp add: t'_def hook_def None)
    ultimately show ?thesis using None by (simp add: t'_def hook_def)
  next
    case (Some c)
    have N: "tree_rep (nodes t') (hchain ns) (Some (hd ns)) (if flag then Some l else None) (if flag then None else Some l)"
    proof (rule hchain_up_nhbr[OF assms(2,3,4)])
      have "tn_up_nhbr (nodes t1 (hd ns)) = None" "tn_up_hier (nodes t1 (hd ns)) = None"
        using assms(2,3) by (cases ns; simp)+
      then show "nodes t' j = (if j = hd ns then nodes t1 j\<lparr>tn_up_nhbr := if flag then Some l else None, tn_up_hier := if flag then None else Some l\<rparr> else nodes t1 j)"
        if "j \<in> set ns" for j using that lns Some by (auto simp: nds)
    qed
    have "\<forall>i \<in> set_tree T - {l}. nodes t' i = nodes t i" using assms(5,6) hdn by (auto simp: nds)
    moreover have "nodes t' l = hang flag (hd ns) (nodes t l)" using lT lns Some assms(5) hdn by (auto simp: nds)
    ultimately show ?thesis using assms(1,7) N Some nds(2) by (auto simp: attach_at_def)
  qed
  then show ?thesis unfolding t'_def .
qed

lemma topic_node_create_new:
  assumes "tree_inv t T (ns @ fs)" "fits s" "lfind (tsub t) T (levels s) = None"
    "length ns = length (trest (tsub t) T (levels s))"
  shows "\<exists>t'. topic_node_create t s = Some (Some (last ns), t') \<and> ns \<noteq> [] \<and>
     tree_inv t' (tadd (tsub t) T (levels s) (hchain ns)) fs \<and> map (tsub t') ns = trest (tsub t) T (levels s) \<and>
     (\<forall>j \<in> set ns. node_fresh (nodes t' j)) \<and> (\<forall>j. j \<notin> set ns \<longrightarrow> node_data (nodes t' j) = node_data (nodes t j))"
proof -
  have rep: "tree_rep (nodes t) T (root_node t) None None" and dT: "distinct (preorder T)"
    and ch: "chain (tlinks (nodes t)) (free_nodes t) (ns @ fs)" and dis: "set_tree T \<inter> set (ns @ fs) = {}"
    and all: "set_tree T \<union> set (ns @ fs) = {..<MAX_TOP_NODES}" and wf: "\<And>j. j \<in> set_tree T \<Longrightarrow> wf_level (tsub t j)"
    using assms(1) unfolding tree_inv_def by blast+
  have s: "s \<noteq> []" using assms(2) by (simp add: fits_def)
  have dns: "distinct (ns @ fs)" using ch by (rule chain_distinct)
  obtain b flag rest l where low: "lowest_node_find t s = Some (b, flag, Some rest)" "rest \<noteq> []"
      "levels rest = trest (tsub t) T (levels s)" and att: "attach_at t T s b flag l"
    using lowest_place[OF rep dT _ s assms(3)] wf by blast
  obtain pre where "levels s = pre @ levels rest" using trest_suffix[of "levels s" "tsub t" T] low(3) by metis
  then have fr: "fits rest" using assms(2) low(2) by (simp add: fits_def)
  have len: "length ns = length (levels rest)" using assms(4) low(3) by simp
  have ne: "ns \<noteq> []" using len low(2) by auto
  obtain t1 where h: "hier_nodes_create t rest = Some (Some (hd ns), Some (last ns), t1)"
    "chain (tlinks (nodes t1)) (free_nodes t1) fs" "root_node t1 = root_node t"
    "\<And>j. j \<notin> set ns \<Longrightarrow> nodes t1 j = nodes t j" "tree_rep (nodes t1) (hchain ns) (Some (hd ns)) None None"
    "map (tsub t1) ns = levels rest" "\<And>j. j \<in> set ns \<Longrightarrow> node_fresh (nodes t1 j)"
    using hier_loop_ok[OF ch fr len, of None None] by (auto simp: hier_nodes_create_def)
  define t' where "t' = hook b flag l (hd ns) t1"
  have old: "nodes t1 j = nodes t j" if "j \<in> set_tree T" for j using that dis h(4) by auto
  have run: "topic_node_create t s = Some (Some (last ns), t')" unfolding t'_def by (rule hook_run[OF low(1) att h(1) old])
  have hdn: "hd ns \<in> set ns" using ne by simp
  have lns: "b \<noteq> None \<Longrightarrow> l \<notin> set (ns @ fs)" using att dis by (auto simp: attach_at_def)
  then have "b \<noteq> None \<Longrightarrow> l \<noteq> hd ns" using hdn by auto
  note nds = hook_nodes[of b l "hd ns", OF this, of flag t1, folded t'_def]
  have subs: "tsub t' j = tsub t1 j" for j using node_data_sub[OF nds(4)] by (simp add: tsub_def)
  have tree: "tree_rep (nodes t') (tadd (tsub t) T (levels s) (hchain ns)) (root_node t') None None"
    unfolding t'_def by (rule hook_tree[OF att h(5) ne _ old _ h(3)]) (use dns dis in auto)
  have m: "mset (preorder (tadd (tsub t) T (levels s) (hchain ns))) = mset (preorder T) + mset ns"
    using mset_tadd[OF assms(3)] s by simp
  have st: "set_tree (tadd (tsub t) T (levels s) (hchain ns)) = set_tree T \<union> set ns"
    using arg_cong[OF m, of set_mset] by (simp add: set_preorder)
  have dis': "distinct (preorder (tadd (tsub t) T (levels s) (hchain ns)))"
    by (rule disjoint_distinct[OF dT _ _ m]) (use dns dis in \<open>auto simp: set_preorder\<close>)
  have "tlinks (nodes t') j = tlinks (nodes t1) j" if "j \<in> set fs" for j
    using that lns dns hdn by (auto simp: tlinks_def nds)
  then have chf: "chain (tlinks (nodes t')) (free_nodes t') fs" using seg_cong[OF h(2), of "tlinks (nodes t')"] nds(3) by simp
  have wf': "wf_level (tsub t' j)" if "j \<in> set_tree T \<union> set ns" for j
  proof (cases "j \<in> set ns")
    case True
    then have "tsub t' j \<in> set (levels rest)" using subs h(6) by (metis imageI list.set_map)
    then show ?thesis by (rule wf_levels)
  next
    case False
    then have "tsub t' j = tsub t j" using subs[of j] h(4) by (simp add: tsub_def)
    then show ?thesis using wf that False by auto
  qed
  have "tree_inv t' (tadd (tsub t) T (levels s) (hchain ns)) fs"
    unfolding tree_inv_def st using tree dis' chf dis dns all wf' by auto
  moreover have "map (tsub t') ns = trest (tsub t) T (levels s)" using h(6) low(3) subs by (metis map_cong)
  moreover have "node_fresh (nodes t' j)" if "j \<in> set ns" for j
    using h(7)[OF that] that lns by (auto simp: nds)
  moreover have "node_data (nodes t' j) = node_data (nodes t j)" if "j \<notin> set ns" for j
    using nds(4) h(4)[OF that] by simp
  ultimately show ?thesis using run ne by blast
qed

end
