(* ===== verification/TopicOps.thy ===== *)
theory TopicOps
  imports TopicTree
begin

text \<open>
  Properties of the operations of \<open>TopicTree\<close>: lookup and creation of topics, deletion of unused
  nodes, the node pool, and the loss of the tree after a failed creation.
\<close>

section \<open>Lookup\<close>

lemma leaf_node_find_inv:
  assumes "tree_inv t T fs" "s \<noteq> []"
  shows "leaf_node_find t s = Some (lfind (tsub t) T (levels s))"
proof -
  have rep: "tree_rep (nodes t) T (root_node t) None None" and dT: "distinct (preorder T)"
    and wf: "\<And>j. j \<in> set_tree T \<Longrightarrow> wf_level (tsub t j)"
    using assms(1) unfolding tree_inv_def by blast+
  show ?thesis
  proof (cases "lfind (tsub t) T (levels s)")
    case (Some i)
    then show ?thesis using lowest_found[OF rep wf assms(2), of i None "Some s"]
      by (simp add: leaf_node_find_def lowest_node_find_def)
  next
    case None
    show ?thesis
    proof (cases "T = Leaf")
      case True
      then show ?thesis using rep by (simp add: leaf_node_find_def lowest_node_find_def lowest_loop.simps)
    next
      case False
      from lowest_attached[OF rep wf assms(2) None False dT, of None] show ?thesis
        using None by (auto simp: leaf_node_find_def lowest_node_find_def)
    qed
  qed
qed

lemma leaf_node_find_empty: "leaf_node_find t [] = Some None" if "tree_inv t T fs"
proof -
  have rep: "tree_rep (nodes t) T (root_node t) None None" and wf: "\<And>j. j \<in> set_tree T \<Longrightarrow> wf_level (tsub t j)"
    using that unfolding tree_inv_def by blast+
  have f: "tree_rep (nodes t) T p un uh \<Longrightarrow> (\<And>j. j \<in> set_tree T \<Longrightarrow> wf_level (tsub t j)) \<Longrightarrow>
     subtop_nhbr_node_find t p [] = Some None" for p un uh
  proof (induction T arbitrary: p un uh)
    case (Node h i r)
    have "wf_level (tn_subtop (nodes t i))" using Node.prems(2)[of i] by (simp add: tsub_def)
    then have "is_first_subtop (tn_subtop (nodes t i)) [] = None" by (simp add: is_first_subtop_cut)
    moreover have "subtop_nhbr_node_find t (tn_dn_nhbr (nodes t i)) [] = Some None" using Node by auto
    ultimately show ?case using Node.prems(1) by (subst subtop_nhbr_node_find.simps) simp
  qed (simp add: subtop_nhbr_node_find.simps)
  have "subtop_nhbr_node_find t (root_node t) [] = Some None" by (rule f[OF rep wf])
  then show ?thesis
    by (cases "root_node t") (simp_all add: leaf_node_find_def lowest_node_find_def lowest_loop.simps)
qed

lemma topic_node_create_found:
  assumes "tree_inv t T fs" "s \<noteq> []" "lfind (tsub t) T (levels s) = Some i"
  shows "topic_node_create t s = Some (Some i, t)"
proof -
  have "lowest_node_find t s = Some (Some i, False, None)"
    using assms lowest_found[of t T _ None None s i] unfolding tree_inv_def lowest_node_find_def by blast
  then show ?thesis by (simp add: topic_node_create_def)
qed

section \<open>Deletion of one node\<close>

fun tdel :: "nat \<Rightarrow> nat tree \<Rightarrow> nat tree" where
  "tdel i Leaf = Leaf"
| "tdel i (Node h j r) = (if j = i \<and> h = Leaf \<and> r = Leaf then Leaf else Node (tdel i h) j (tdel i r))"

lemma tdel_notin [simp]: "i \<notin> set_tree T \<Longrightarrow> tdel i T = T"
  by (induction T) auto

text \<open>The links without those to \<open>i\<close>.\<close>

definition unlink :: "nat \<Rightarrow> topic_node \<Rightarrow> topic_node" where
  "unlink i n = (if tn_dn_nhbr n = Some i then (if tn_dn_hier n = Some i then n\<lparr>tn_dn_nhbr := None, tn_dn_hier := None\<rparr>
       else n\<lparr>tn_dn_nhbr := None\<rparr>) else if tn_dn_hier n = Some i then n\<lparr>tn_dn_hier := None\<rparr> else n)"

lemma unlink_simps [simp]: "tn_dn_nhbr (unlink i n) = (if tn_dn_nhbr n = Some i then None else tn_dn_nhbr n)"
  "tn_dn_hier (unlink i n) = (if tn_dn_hier n = Some i then None else tn_dn_hier n)"
  "tn_up_nhbr (unlink i n) = tn_up_nhbr n" "tn_up_hier (unlink i n) = tn_up_hier n" "node_data (unlink i n) = node_data n"
  by (simp_all add: unlink_def node_data_def)

lemma tree_rep_mem_root: "tree_rep f T (Some i) un uh \<Longrightarrow> i \<in> set_tree T"
  by (cases T) auto

lemma tdel_rep:
  assumes "tree_rep f T p un uh" "tn_dn_nhbr (f i) = None" "tn_dn_hier (f i) = None" "distinct (preorder T)"
    "\<And>j. j \<in> set_tree T \<Longrightarrow> j \<noteq> i \<Longrightarrow> f' j = unlink i (f j)"
  shows "tree_rep f' (tdel i T) (if p = Some i then None else p) un uh"
  using assms
proof (induction T arbitrary: p un uh)
  case (Node h j r)
  show ?case
  proof (cases "j = i")
    case True
    then have "tree_rep f h None None (Some i)" "tree_rep f r None (Some i) None" using Node.prems by auto
    then have "h = Leaf" "r = Leaf" by (cases h; cases r; simp)+
    then show ?thesis using True Node.prems(1) by simp
  next
    case False
    have "tree_rep f' (tdel i h) (if tn_dn_hier (f j) = Some i then None else tn_dn_hier (f j)) None (Some j)"
      by (rule Node.IH(1)) (use Node.prems in auto)
    moreover have "tree_rep f' (tdel i r) (if tn_dn_nhbr (f j) = Some i then None else tn_dn_nhbr (f j)) (Some j) None"
      by (rule Node.IH(2)) (use Node.prems in auto)
    moreover have "f' j = unlink i (f j)" using Node.prems(5)[of j] False by simp
    ultimately show ?thesis using Node.prems(1) False by auto
  qed
qed simp

lemma tdel_preorder:
  assumes "tree_rep f T p un uh" "tn_dn_nhbr (f i) = None" "tn_dn_hier (f i) = None" "i \<in> set_tree T" "distinct (preorder T)"
  shows "mset (preorder T) = add_mset i (mset (preorder (tdel i T)))"
  using assms
proof (induction T arbitrary: p un uh)
  case (Node h j r)
  show ?case
  proof (cases "j = i")
    case True
    then have "tree_rep f h None None (Some i)" "tree_rep f r None (Some i) None" using Node.prems by auto
    then have "h = Leaf" "r = Leaf" by (cases h; cases r; simp)+
    then show ?thesis using True by simp
  next
    case False
    have dhr: "distinct (preorder h)" "distinct (preorder r)" "set_tree h \<inter> set_tree r = {}" using Node.prems(5) by (auto simp: set_preorder)
    show ?thesis
    proof (cases "i \<in> set_tree h")
      case True
      then have "i \<notin> set_tree r" using dhr by auto
      moreover have "mset (preorder h) = add_mset i (mset (preorder (tdel i h)))"
        by (rule Node.IH(1)) (use Node.prems True dhr in auto)
      ultimately show ?thesis using False by simp
    next
      case ih: False
      then have "mset (preorder r) = add_mset i (mset (preorder (tdel i r)))"
        by (intro Node.IH(2)) (use Node.prems False dhr in auto)
      then show ?thesis using False ih by simp
    qed
  qed
qed simp

lemma lfind_tdel: "lfind sub T qs = Some m \<Longrightarrow> m \<in> set_tree (tdel i T) \<Longrightarrow> distinct (preorder T) \<Longrightarrow>
   lfind sub (tdel i T) qs = Some m"
proof (induction T arbitrary: qs)
  case (Node h j r)
  then obtain q qs' where q: "qs = q # qs'" by (cases qs) auto
  have mem: "lfind sub T' ps = Some k \<Longrightarrow> k \<in> set_tree T'" for T' ps k
  proof (induction T' arbitrary: ps)
    case (Node h0 j0 r0)
    then show ?case by (cases ps) (auto split: if_splits)
  qed simp
  have sub: "set_tree (tdel i T') \<subseteq> set_tree T'" for T' by (induction T') auto
  have d: "set_tree h \<inter> set_tree r = {}" "j \<notin> set_tree h" "j \<notin> set_tree r"
    using Node.prems(3) by (auto simp: set_preorder)
  show ?case
  proof (cases "j = i \<and> h = Leaf \<and> r = Leaf")
    case True
    then show ?thesis using Node.prems(2) by simp
  next
    case False
    consider "sub j = q" "qs' = []" "m = j" | "sub j = q" "qs' \<noteq> []" "lfind sub h qs' = Some m" | "sub j \<noteq> q" "lfind sub r qs = Some m"
      using Node.prems(1) q by (auto split: if_splits)
    then show ?thesis
    proof cases
      case 1
      then show ?thesis using False q by simp
    next
      case 2
      then have "m \<in> set_tree (tdel i h)" using mem[OF 2(3)] Node.prems(2) False d sub[of r] by auto
      then show ?thesis using 2 Node.IH(1)[OF 2(3)] Node.prems(3) False q by auto
    next
      case 3
      then have "m \<in> set_tree (tdel i r)" using mem[OF 3(2)] Node.prems(2) False d sub[of h] by auto
      then show ?thesis using 3 Node.IH(2)[OF 3(2)] Node.prems(3) False q by auto
    qed
  qed
qed simp

text \<open>The only link to a node of the tree comes from the node its up-links name.\<close>

lemma tree_parent:
  assumes "tree_rep f T p un uh" "i \<in> set_tree T" "distinct (preorder T)"
  shows "(p = Some i \<and> tn_up_nhbr (f i) = un \<and> tn_up_hier (f i) = uh \<and>
            (\<forall>j \<in> set_tree T. tn_dn_nhbr (f j) \<noteq> Some i \<and> tn_dn_hier (f j) \<noteq> Some i)) \<or>
     (\<exists>u \<in> set_tree T. u \<noteq> i \<and> p \<noteq> Some i \<and> (\<forall>j \<in> set_tree T. j \<noteq> u \<longrightarrow> tn_dn_nhbr (f j) \<noteq> Some i \<and> tn_dn_hier (f j) \<noteq> Some i) \<and>
        (tn_up_nhbr (f i) = Some u \<and> tn_up_hier (f i) = None \<and> tn_dn_nhbr (f u) = Some i \<and> tn_dn_hier (f u) \<noteq> Some i \<or>
         tn_up_nhbr (f i) = None \<and> tn_up_hier (f i) = Some u \<and> tn_dn_nhbr (f u) \<noteq> Some i \<and> tn_dn_hier (f u) = Some i))"
  using assms
proof (induction T arbitrary: p un uh)
  case (Node h j r)
  have rh: "tree_rep f h (tn_dn_hier (f j)) None (Some j)" "tree_rep f r (tn_dn_nhbr (f j)) (Some j) None" "p = Some j"
    using Node.prems(1) by auto
  have d: "set_tree h \<inter> set_tree r = {}" "j \<notin> set_tree h" "j \<notin> set_tree r" "distinct (preorder h)" "distinct (preorder r)"
    using Node.prems(3) by (auto simp: set_preorder)
  have links: "tree_rep f T' p' un' uh' \<Longrightarrow> k \<in> set_tree T' \<Longrightarrow> (tn_dn_nhbr (f k) = Some x \<longrightarrow> x \<in> set_tree T') \<and> (tn_dn_hier (f k) = Some x \<longrightarrow> x \<in> set_tree T')"
    for T' p' un' uh' k x
  proof (induction T' arbitrary: p' un' uh')
    case (Node h0 j0 r0)
    then show ?case using tree_rep_mem_root by fastforce
  qed simp
  have L: "k \<in> set_tree h \<Longrightarrow> i \<notin> set_tree h \<Longrightarrow> tn_dn_nhbr (f k) \<noteq> Some i \<and> tn_dn_hier (f k) \<noteq> Some i"
    "k \<in> set_tree r \<Longrightarrow> i \<notin> set_tree r \<Longrightarrow> tn_dn_nhbr (f k) \<noteq> Some i \<and> tn_dn_hier (f k) \<noteq> Some i" for k
    using links[OF rh(1), of k i] links[OF rh(2), of k i] by auto
  have J: "i \<notin> set_tree h \<Longrightarrow> tn_dn_hier (f j) \<noteq> Some i" "i \<notin> set_tree r \<Longrightarrow> tn_dn_nhbr (f j) \<noteq> Some i"
    using tree_rep_mem_root[of f h i] tree_rep_mem_root[of f r i] rh by auto
  consider "i = j" | "i \<in> set_tree h" | "i \<in> set_tree r" using Node.prems(2) by auto
  then show ?case
  proof cases
    case 1
    then show ?thesis using Node.prems(1) d L J by auto
  next
    case 2
    then have nr: "i \<notin> set_tree r" "i \<noteq> j" using d by auto
    from Node.IH(1)[OF rh(1) 2 d(4)] show ?thesis
    proof
      assume a: "tn_dn_hier (f j) = Some i \<and> tn_up_nhbr (f i) = None \<and> tn_up_hier (f i) = Some j \<and>
        (\<forall>k \<in> set_tree h. tn_dn_nhbr (f k) \<noteq> Some i \<and> tn_dn_hier (f k) \<noteq> Some i)"
      show ?thesis by (rule disjI2, rule bexI[of _ j]) (use a nr J L rh in auto)
    next
      assume "\<exists>u \<in> set_tree h. u \<noteq> i \<and> tn_dn_hier (f j) \<noteq> Some i \<and> (\<forall>j \<in> set_tree h. j \<noteq> u \<longrightarrow> tn_dn_nhbr (f j) \<noteq> Some i \<and> tn_dn_hier (f j) \<noteq> Some i) \<and>
        (tn_up_nhbr (f i) = Some u \<and> tn_up_hier (f i) = None \<and> tn_dn_nhbr (f u) = Some i \<and> tn_dn_hier (f u) \<noteq> Some i \<or>
         tn_up_nhbr (f i) = None \<and> tn_up_hier (f i) = Some u \<and> tn_dn_nhbr (f u) \<noteq> Some i \<and> tn_dn_hier (f u) = Some i)"
      then obtain u where u: "u \<in> set_tree h" "u \<noteq> i" "tn_dn_hier (f j) \<noteq> Some i"
        "\<forall>j \<in> set_tree h. j \<noteq> u \<longrightarrow> tn_dn_nhbr (f j) \<noteq> Some i \<and> tn_dn_hier (f j) \<noteq> Some i"
        "tn_up_nhbr (f i) = Some u \<and> tn_up_hier (f i) = None \<and> tn_dn_nhbr (f u) = Some i \<and> tn_dn_hier (f u) \<noteq> Some i \<or>
         tn_up_nhbr (f i) = None \<and> tn_up_hier (f i) = Some u \<and> tn_dn_nhbr (f u) \<noteq> Some i \<and> tn_dn_hier (f u) = Some i" by blast
      show ?thesis by (rule disjI2, rule bexI[of _ u]) (use u nr J L rh in auto)
    qed
  next
    case 3
    then have nh: "i \<notin> set_tree h" "i \<noteq> j" using d by auto
    from Node.IH(2)[OF rh(2) 3 d(5)] show ?thesis
    proof
      assume a: "tn_dn_nhbr (f j) = Some i \<and> tn_up_nhbr (f i) = Some j \<and> tn_up_hier (f i) = None \<and>
        (\<forall>k \<in> set_tree r. tn_dn_nhbr (f k) \<noteq> Some i \<and> tn_dn_hier (f k) \<noteq> Some i)"
      show ?thesis by (rule disjI2, rule bexI[of _ j]) (use a nh J L rh in auto)
    next
      assume "\<exists>u \<in> set_tree r. u \<noteq> i \<and> tn_dn_nhbr (f j) \<noteq> Some i \<and> (\<forall>j \<in> set_tree r. j \<noteq> u \<longrightarrow> tn_dn_nhbr (f j) \<noteq> Some i \<and> tn_dn_hier (f j) \<noteq> Some i) \<and>
        (tn_up_nhbr (f i) = Some u \<and> tn_up_hier (f i) = None \<and> tn_dn_nhbr (f u) = Some i \<and> tn_dn_hier (f u) \<noteq> Some i \<or>
         tn_up_nhbr (f i) = None \<and> tn_up_hier (f i) = Some u \<and> tn_dn_nhbr (f u) \<noteq> Some i \<and> tn_dn_hier (f u) = Some i)"
      then obtain u where u: "u \<in> set_tree r" "u \<noteq> i" "tn_dn_nhbr (f j) \<noteq> Some i"
        "\<forall>j \<in> set_tree r. j \<noteq> u \<longrightarrow> tn_dn_nhbr (f j) \<noteq> Some i \<and> tn_dn_hier (f j) \<noteq> Some i"
        "tn_up_nhbr (f i) = Some u \<and> tn_up_hier (f i) = None \<and> tn_dn_nhbr (f u) = Some i \<and> tn_dn_hier (f u) \<noteq> Some i \<or>
         tn_up_nhbr (f i) = None \<and> tn_up_hier (f i) = Some u \<and> tn_dn_nhbr (f u) \<noteq> Some i \<and> tn_dn_hier (f u) = Some i" by blast
      show ?thesis by (rule disjI2, rule bexI[of _ u]) (use u nh J L rh in auto)
    qed
  qed
qed simp

lemma node_data_unlinked [simp]: "node_data (m\<lparr>tn_dn_nhbr := None\<rparr>) = node_data m" by simp

lemma node_delete_run:
  assumes "tree_rep (nodes t) T (root_node t) None None" "distinct (preorder T)" "i \<in> set_tree T" "can_delete_node (nodes t i)"
  shows "\<exists>nxt t'. node_delete t i = (nxt, t') \<and> (\<forall>j \<in> set_tree T. j \<noteq> i \<longrightarrow> nodes t' j = unlink i (nodes t j)) \<and>
     (\<forall>j. j \<notin> set_tree T \<longrightarrow> nodes t' j = nodes t j) \<and>
     root_node t' = (if root_node t = Some i then None else root_node t) \<and> free_nodes t' = Some i \<and>
     tn_dn_nhbr (nodes t' i) = free_nodes t \<and> (\<forall>u. nxt = Some u \<longrightarrow> u \<in> set_tree T \<and> u \<noteq> i)"
proof -
  let ?f = "nodes t"
  show ?thesis
    using tree_parent[OF assms(1,3,2)]
  proof (elim disjE bexE)
    assume a: "root_node t = Some i \<and> tn_up_nhbr (?f i) = None \<and> tn_up_hier (?f i) = None \<and>
       (\<forall>j \<in> set_tree T. tn_dn_nhbr (?f j) \<noteq> Some i \<and> tn_dn_hier (?f j) \<noteq> Some i)"
    then have "node_delete t i = (None, free_node (t\<lparr>root_node := None\<rparr>) i)"
      using assms(4) by (simp add: node_delete_def)
    then show ?thesis using a assms(3) by (auto simp: free_node_def unlink_def)
  next
    fix u assume u: "u \<in> set_tree T" and a: "u \<noteq> i \<and> root_node t \<noteq> Some i \<and>
       (\<forall>j \<in> set_tree T. j \<noteq> u \<longrightarrow> tn_dn_nhbr (?f j) \<noteq> Some i \<and> tn_dn_hier (?f j) \<noteq> Some i) \<and>
       (tn_up_nhbr (?f i) = Some u \<and> tn_up_hier (?f i) = None \<and> tn_dn_nhbr (?f u) = Some i \<and> tn_dn_hier (?f u) \<noteq> Some i \<or>
        tn_up_nhbr (?f i) = None \<and> tn_up_hier (?f i) = Some u \<and> tn_dn_nhbr (?f u) \<noteq> Some i \<and> tn_dn_hier (?f u) = Some i)"
    have a1: "u \<noteq> i" "root_node t \<noteq> Some i"
      and a2: "\<And>j. j \<in> set_tree T \<Longrightarrow> j \<noteq> u \<Longrightarrow> tn_dn_nhbr (?f j) \<noteq> Some i \<and> tn_dn_hier (?f j) \<noteq> Some i"
      using a by simp_all
    from a consider
       "tn_up_nhbr (?f i) = Some u" "tn_up_hier (?f i) = None" "tn_dn_nhbr (?f u) = Some i" "tn_dn_hier (?f u) \<noteq> Some i"
     | "tn_up_nhbr (?f i) = None" "tn_up_hier (?f i) = Some u" "tn_dn_nhbr (?f u) \<noteq> Some i" "tn_dn_hier (?f u) = Some i" by auto
    then show ?thesis
    proof cases
      case 1
      then have "node_delete t i = (Some u, free_node (upd_node u (\<lambda>m. m\<lparr>tn_dn_nhbr := None\<rparr>) t) i)"
        using assms(4) by (simp add: node_delete_def)
      then show ?thesis using a1 u 1 assms(3) a2 by (simp add: free_node_def) (auto simp: unlink_def)
    next
      case 2
      then have "node_delete t i = (Some u, free_node (upd_node u (\<lambda>m. m\<lparr>tn_dn_hier := None\<rparr>) t) i)"
        using assms(4) by (simp add: node_delete_def)
      then show ?thesis using a1 u 2 assms(3) a2 by (simp add: free_node_def) (auto simp: unlink_def)
    qed
  qed
qed

lemma node_delete_inv:
  assumes "tree_inv t T fs" "i \<in> set_tree T" "can_delete_node (nodes t i)"
  shows "\<exists>nxt t'. node_delete t i = (nxt, t') \<and> tree_inv t' (tdel i T) (i # fs) \<and>
     (\<forall>j. j \<noteq> i \<longrightarrow> node_data (nodes t' j) = node_data (nodes t j)) \<and> (\<forall>u. nxt = Some u \<longrightarrow> u \<in> set_tree (tdel i T)) \<and>
     set_tree T = insert i (set_tree (tdel i T)) \<and> i \<notin> set_tree (tdel i T)"
proof -
  let ?f = "nodes t"
  have rep: "tree_rep ?f T (root_node t) None None" and dT: "distinct (preorder T)"
    and ch: "chain (tlinks ?f) (free_nodes t) fs" and dis: "set_tree T \<inter> set fs = {}"
    and all: "set_tree T \<union> set fs = {..<MAX_TOP_NODES}" and wf: "\<And>j. j \<in> set_tree T \<Longrightarrow> wf_level (tsub t j)"
    using assms(1) unfolding tree_inv_def by blast+
  have dn: "tn_dn_nhbr (?f i) = None" "tn_dn_hier (?f i) = None" using assms(3) by (auto simp: can_delete_node_def)
  have m: "mset (preorder T) = add_mset i (mset (preorder (tdel i T)))" by (rule tdel_preorder[OF rep dn assms(2) dT])
  have sT: "set_tree T = insert i (set_tree (tdel i T))" using arg_cong[OF m, of set_mset] by (simp add: set_preorder)
  have "mset (preorder T) = mset (i # preorder (tdel i T))" using m by simp
  then have dT': "distinct (i # preorder (tdel i T))" using dT mset_eq_imp_distinct_iff by blast
  then have ni: "i \<notin> set_tree (tdel i T)" by (simp add: set_preorder)
  obtain nxt t' where run: "node_delete t i = (nxt, t')" and P1: "\<And>j. j \<in> set_tree T \<Longrightarrow> j \<noteq> i \<Longrightarrow> nodes t' j = unlink i (?f j)"
    and P2: "\<And>j. j \<notin> set_tree T \<Longrightarrow> nodes t' j = ?f j"
    and P3: "root_node t' = (if root_node t = Some i then None else root_node t)" and P4: "free_nodes t' = Some i"
    and P5: "tn_dn_nhbr (nodes t' i) = free_nodes t" and P6: "\<forall>u. nxt = Some u \<longrightarrow> u \<in> set_tree T \<and> u \<noteq> i"
    using node_delete_run[OF rep dT assms(2,3)] by blast
  have data: "node_data (nodes t' j) = node_data (?f j)" if "j \<noteq> i" for j
    using P1[of j] P2[of j] that by (cases "j \<in> set_tree T") simp_all
  have rep': "tree_rep (nodes t') (tdel i T) (root_node t') None None"
    unfolding P3 by (rule tdel_rep[OF rep dn dT P1])
  have ch': "chain (tlinks (nodes t')) (free_nodes t') (i # fs)"
  proof -
    have "tlinks (nodes t') j = tlinks ?f j" if "j \<in> set fs" for j
    proof -
      have "j \<notin> set_tree T" using that dis by blast
      then show ?thesis using P2[of j] by (simp add: tlinks_def)
    qed
    then have "chain (tlinks (nodes t')) (free_nodes t) fs" using seg_cong[OF ch] by blast
    then show ?thesis using P4 P5 by simp
  qed
  have wf': "\<forall>j \<in> set_tree (tdel i T). wf_level (tsub t' j)"
  proof
    fix j assume j: "j \<in> set_tree (tdel i T)"
    then have "j \<noteq> i" "j \<in> set_tree T" using sT ni by blast+
    then show "wf_level (tsub t' j)" using wf[of j] node_data_sub[OF data[of j]] by (simp add: tsub_def)
  qed
  have d2: "set_tree (tdel i T) \<inter> set (i # fs) = {}" using dis sT ni by auto
  have a2: "set_tree (tdel i T) \<union> set (i # fs) = {..<MAX_TOP_NODES}" using all sT by auto
  have "tree_inv t' (tdel i T) (i # fs)" unfolding tree_inv_def using dT' rep' ch' wf' d2 a2 by simp
  moreover have "\<forall>u. nxt = Some u \<longrightarrow> u \<in> set_tree (tdel i T)" using P6 sT by blast
  ultimately show ?thesis using run data sT ni by blast
qed

lemma node_in_use_data: "node_data n = node_data m \<Longrightarrow> node_in_use n = node_in_use m"
proof -
  assume a: "node_data n = node_data m"
  have "node_in_use (node_data k) = node_in_use k" for k
    by (simp add: node_in_use_def node_data_def is_node_retain_def is_node_willed_def enrolls_plugin_def)
  then show ?thesis using a by metis
qed

lemma try_node_delete_inv:
  assumes "tree_inv t T fs" "\<forall>i. node = Some i \<longrightarrow> i \<in> set_tree T"
  shows "\<exists>t' T' fs'. try_node_delete t node = Some t' \<and> tree_inv t' T' fs' \<and> set_tree T' \<subseteq> set_tree T \<and>
     (\<forall>j \<in> set_tree T. node_in_use (nodes t j) \<longrightarrow> j \<in> set_tree T') \<and>
     (\<forall>j \<in> set_tree T'. node_data (nodes t' j) = node_data (nodes t j)) \<and>
     (\<forall>qs m. lfind (tsub t) T qs = Some m \<and> m \<in> set_tree T' \<longrightarrow> lfind (tsub t') T' qs = Some m)"
  using assms
proof (induction "card (set_tree T)" arbitrary: t T fs node rule: less_induct)
  case less
  show ?case
  proof (cases node)
    case None
    then show ?thesis using less.prems(1) by (intro exI[of _ t] exI[of _ T] exI[of _ fs]) (simp add: try_node_delete.simps)
  next
    case (Some i)
    then have iT: "i \<in> set_tree T" using less.prems(2) by simp
    show ?thesis
    proof (cases "node_in_use (nodes t i)")
      case True
      then show ?thesis using less.prems(1) Some
        by (intro exI[of _ t] exI[of _ T] exI[of _ fs]) (simp add: try_node_delete.simps)
    next
      case nu: False
      show ?thesis
      proof (cases "can_delete_node (nodes t i)")
        case False
        then show ?thesis using less.prems(1) Some nu
          by (intro exI[of _ t] exI[of _ T] exI[of _ fs]) (simp add: try_node_delete.simps node_delete_def)
      next
        case True
        from node_delete_inv[OF less.prems(1) iT True] obtain nxt t1 where
          D: "node_delete t i = (nxt, t1)" "tree_inv t1 (tdel i T) (i # fs)"
          "\<And>j. j \<noteq> i \<Longrightarrow> node_data (nodes t1 j) = node_data (nodes t j)" "\<forall>u. nxt = Some u \<longrightarrow> u \<in> set_tree (tdel i T)"
          "set_tree T = insert i (set_tree (tdel i T))" "i \<notin> set_tree (tdel i T)" by blast
        have "card (set_tree (tdel i T)) < card (set_tree T)" using D(5,6) by (simp add: card_insert_disjoint)
        from less.hyps[OF this D(2,4)] obtain t2 T2 fs2 where
          E: "try_node_delete t1 nxt = Some t2" "tree_inv t2 T2 fs2" "set_tree T2 \<subseteq> set_tree (tdel i T)"
          "\<And>j. j \<in> set_tree (tdel i T) \<Longrightarrow> node_in_use (nodes t1 j) \<Longrightarrow> j \<in> set_tree T2"
          "\<And>j. j \<in> set_tree T2 \<Longrightarrow> node_data (nodes t2 j) = node_data (nodes t1 j)"
          "\<And>qs m. lfind (tsub t1) (tdel i T) qs = Some m \<Longrightarrow> m \<in> set_tree T2 \<Longrightarrow> lfind (tsub t2) T2 qs = Some m" by blast
        have run: "try_node_delete t node = Some t2" using Some nu D(1) E(1) by (simp add: try_node_delete.simps[of t])
        have use: "j \<in> set_tree T2" if "j \<in> set_tree T" "node_in_use (nodes t j)" for j
        proof -
          have "j \<noteq> i" using that nu by auto
          moreover have "j \<in> set_tree (tdel i T)" using that(1) D(5) \<open>j \<noteq> i\<close> by blast
          ultimately show ?thesis using that(2) node_in_use_data[OF D(3)] E(4) by blast
        qed
        have dat: "node_data (nodes t2 j) = node_data (nodes t j)" if "j \<in> set_tree T2" for j
          using that E(3) E(5)[OF that] D(3)[of j] D(6) by (cases "j = i") auto
        have look: "lfind (tsub t2) T2 qs = Some m" if a: "lfind (tsub t) T qs = Some m" "m \<in> set_tree T2" for qs m
        proof -
          have dT: "distinct (preorder T)" using less.prems(1) unfolding tree_inv_def by blast
          have "lfind (tsub t) (tdel i T) qs = Some m" by (rule lfind_tdel[OF a(1) _ dT]) (use a(2) E(3) in blast)
          moreover have "lfind (tsub t1) (tdel i T) qs = lfind (tsub t) (tdel i T) qs"
          proof (rule lfind_cong)
            fix j assume "j \<in> set_tree (tdel i T)"
            then have "j \<noteq> i" using D(6) by blast
            then show "tsub t1 j = tsub t j" using node_data_sub[OF D(3)] by (simp add: tsub_def)
          qed
          ultimately show ?thesis using E(6) a(2) by simp
        qed
        have "set_tree T2 \<subseteq> set_tree T" using E(3) D(5) by blast
        then show ?thesis using run E(2) use dat look by blast
      qed
    qed
  qed
qed

section \<open>The pool of nodes\<close>

definition node_rep :: "topic_tree \<Rightarrow> nat list \<Rightarrow> bool" where
  "node_rep t xs \<longleftrightarrow> chain (tlinks (nodes t)) (free_nodes t) xs"

lemma free_node_rep: "node_rep t xs \<Longrightarrow> x \<notin> set xs \<Longrightarrow> node_rep (free_node t x) (x # xs)"
  by (simp add: node_rep_def free_node_def tlinks_upd)

interpretation node_pool: object_pool "\<lambda>t. Some (alloc_topic_node t)" "\<lambda>t i. Some (free_node t i)" node_rep "\<lambda>t i. True"
proof unfold_locales
  fix t xs assume "node_rep t xs"
  then show "distinct xs" unfolding node_rep_def by (rule chain_distinct)
next
  fix t assume "node_rep t []"
  then show "Some (alloc_topic_node t) = Some (None, t)" by (simp add: node_rep_def alloc_topic_node_def)
next
  fix t x xs assume a: "node_rep t (x # xs)"
  then have "x \<notin> set xs" unfolding node_rep_def using chain_distinct by fastforce
  then show "\<exists>s'. Some (alloc_topic_node t) = Some (Some x, s') \<and> node_rep s' xs \<and> (\<lambda>i. True) = (\<lambda>i. True)"
    using a by (auto simp: node_rep_def alloc_topic_node_def tlinks_upd)
next
  fix t xs x assume "node_rep t xs" "x \<notin> set xs"
  then show "\<exists>s'. Some (free_node t x) = Some s' \<and> node_rep s' (x # xs) \<and> (\<lambda>i. True) = (\<lambda>i. True)"
    using free_node_rep by blast
qed simp_all

lemma root_free_node [simp]: "root_node (free_node t i) = root_node t" by (simp add: free_node_def)

lemma topic_node_init_inv:
  assumes "free_nodes t = None" "root_node t = None"
  shows "tree_inv (topic_node_init t) Leaf (rev [0..<MAX_TOP_NODES])"
proof -
  have "k \<le> MAX_TOP_NODES \<Longrightarrow> node_rep (foldl free_node t [0..<k]) (rev [0..<k]) \<and> root_node (foldl free_node t [0..<k]) = None" for k
  proof (induction k)
    case 0
    then show ?case using assms by (simp add: node_rep_def)
  next
    case (Suc k)
    then have "node_rep (foldl free_node t [0..<k]) (rev [0..<k])" "root_node (foldl free_node t [0..<k]) = None" by auto
    then show ?case using free_node_rep[of "foldl free_node t [0..<k]" "rev [0..<k]" k] by simp
  qed
  from this[of MAX_TOP_NODES] show ?thesis
    by (auto simp: tree_inv_def topic_node_init_def node_rep_def)
qed

section \<open>The topic store\<close>

text \<open>
  What the broker's message handlers rely on: topics are found once they were created, what
  was found stays found, and releasing a topic keeps everything that is in use. \<open>room s tp\<close>
  says that the nodes for \<open>tp\<close> are available.
\<close>

locale topic_store =
  fixes find :: "'s \<Rightarrow> c8 list \<Rightarrow> ptr option"
    and create :: "'s \<Rightarrow> c8 list \<Rightarrow> (ptr \<times> 's) option"
    and release :: "'s \<Rightarrow> ptr \<Rightarrow> 's option"
    and used :: "'s \<Rightarrow> nat \<Rightarrow> bool"
    and ok :: "'s \<Rightarrow> bool"
    and room :: "'s \<Rightarrow> c8 list \<Rightarrow> bool"
  assumes find_total: "ok s \<Longrightarrow> \<exists>r. find s tp = Some r"
    and create_ok: "ok s \<Longrightarrow> room s tp \<Longrightarrow>
          \<exists>n s'. create s tp = Some (Some n, s') \<and> ok s' \<and> find s' tp = Some (Some n)"
    and create_keeps: "ok s \<Longrightarrow> room s tp \<Longrightarrow> create s tp = Some (r, s') \<Longrightarrow> find s q = Some (Some m) \<Longrightarrow>
          find s' q = Some (Some m) \<and> used s' m = used s m"
    and release_ok: "ok s \<Longrightarrow> find s tp = Some (Some n) \<Longrightarrow>
          \<exists>s'. release s (Some n) = Some s' \<and> ok s'"
    and release_keeps: "ok s \<Longrightarrow> find s tp = Some (Some n) \<Longrightarrow> release s (Some n) = Some s' \<Longrightarrow>
          find s q = Some (Some m) \<Longrightarrow> used s m \<Longrightarrow> find s' q = Some (Some m) \<and> used s' m"
begin

lemma create_two:
  assumes "ok s" "room s a" "\<And>s' n. create s a = Some (Some n, s') \<Longrightarrow> room s' b"
  shows "\<exists>n m s' s''. create s a = Some (Some n, s') \<and> create s' b = Some (Some m, s'') \<and> ok s'' \<and>
     find s'' a = Some (Some n) \<and> find s'' b = Some (Some m)"
proof -
  obtain n s' where 1: "create s a = Some (Some n, s')" "ok s'" "find s' a = Some (Some n)"
    using create_ok[OF assms(1,2)] by blast
  then obtain m s'' where 2: "create s' b = Some (Some m, s'')" "ok s''" "find s'' b = Some (Some m)"
    using create_ok[OF 1(2) assms(3)] by blast
  then show ?thesis using 1 create_keeps[OF 1(2) assms(3)[OF 1(1)] 2(1) 1(3)] by blast
qed

text \<open>A topic in use survives the creation and the release of any other topic.\<close>

lemma used_survives:
  assumes "ok s" "room s b" "find s a = Some (Some m)" "used s m"
  shows "\<exists>n s' s''. create s b = Some (Some n, s') \<and> release s' (Some n) = Some s'' \<and> ok s'' \<and> find s'' a = Some (Some m)"
proof -
  obtain n s' where 1: "create s b = Some (Some n, s')" "ok s'" "find s' b = Some (Some n)"
    using create_ok[OF assms(1,2)] by blast
  have 2: "find s' a = Some (Some m)" "used s' m" using create_keeps[OF assms(1,2) 1(1) assms(3)] assms(4) by auto
  obtain s'' where 3: "release s' (Some n) = Some s''" "ok s''" using release_ok[OF 1(2,3)] by blast
  then show ?thesis using 1 2 release_keeps[OF 1(2,3) 3(1) 2] by blast
qed

end

definition tree_ok :: "topic_tree \<Rightarrow> bool" where
  "tree_ok t \<longleftrightarrow> (\<exists>T fs. tree_inv t T fs)"

definition tree_room :: "topic_tree \<Rightarrow> c8 list \<Rightarrow> bool" where
  "tree_room t s \<longleftrightarrow> fits s \<and> (\<exists>T fs. tree_inv t T fs \<and>
     (lfind (tsub t) T (levels s) = None \<longrightarrow> length (trest (tsub t) T (levels s)) \<le> length fs))"

lemma tree_rep_unique: "tree_rep f T p un uh \<Longrightarrow> tree_rep f T' p un uh \<Longrightarrow> T = T'"
proof (induction T arbitrary: p un uh T')
  case Leaf
  then show ?case by (cases T') auto
next
  case (Node h i r)
  then show ?case by (cases T') auto
qed

lemma tree_inv_unique: "tree_inv t T fs \<Longrightarrow> tree_inv t T' fs' \<Longrightarrow> T = T' \<and> fs = fs'"
proof -
  assume a: "tree_inv t T fs" and b: "tree_inv t T' fs'"
  have "tree_rep (nodes t) T (root_node t) None None" "tree_rep (nodes t) T' (root_node t) None None"
    "chain (tlinks (nodes t)) (free_nodes t) fs" "chain (tlinks (nodes t)) (free_nodes t) fs'"
    using a b unfolding tree_inv_def by simp_all
  then show ?thesis using tree_rep_unique chain_det by blast
qed

lemma lfind_mem: "lfind sub T ps = Some k \<Longrightarrow> k \<in> set_tree T"
proof (induction T arbitrary: ps)
  case (Node h j r)
  then show ?case by (cases ps) (auto split: if_splits)
qed simp

lemma create_full:
  assumes "tree_inv t T fs" "fits s" "lfind (tsub t) T (levels s) = None \<longrightarrow> length (trest (tsub t) T (levels s)) \<le> length fs"
  shows "\<exists>n t' T' fs'. topic_node_create t s = Some (Some n, t') \<and> tree_inv t' T' fs' \<and> lfind (tsub t') T' (levels s) = Some n \<and>
     (\<forall>qs m. lfind (tsub t) T qs = Some m \<longrightarrow> lfind (tsub t') T' qs = Some m) \<and>
     (\<forall>qs m. lfind (tsub t') T' qs = Some m \<longrightarrow> lfind (tsub t) T qs = Some m \<or> (\<exists>k. qs = take k (levels s)) \<and> node_fresh (nodes t' m)) \<and>
     (\<forall>j \<in> set_tree T. node_data (nodes t' j) = node_data (nodes t j)) \<and> (lfind (tsub t) T (levels s) = None \<longrightarrow> node_fresh (nodes t' n))"
proof (cases "lfind (tsub t) T (levels s)")
  case (Some i)
  have "s \<noteq> []" using assms(2) by (simp add: fits_def)
  then have run: "topic_node_create t s = Some (Some i, t)" using topic_node_create_found[OF assms(1) _ Some] by blast
  show ?thesis
    by (rule exI[of _ i], rule exI[of _ t], rule exI[of _ T], rule exI[of _ fs]) (use run assms(1) Some in simp)
next
  case None
  define ns where "ns = take (length (trest (tsub t) T (levels s))) fs"
  define fs' where "fs' = drop (length (trest (tsub t) T (levels s))) fs"
  have fs: "fs = ns @ fs'" by (simp add: ns_def fs'_def)
  have len: "length ns = length (trest (tsub t) T (levels s))" using assms(3) None by (simp add: ns_def)
  from topic_node_create_new[OF assms(1)[unfolded fs] assms(2) None len] obtain t' where
    c: "topic_node_create t s = Some (Some (last ns), t')" "ns \<noteq> []"
    "tree_inv t' (tadd (tsub t) T (levels s) (hchain ns)) fs'" "map (tsub t') ns = trest (tsub t) T (levels s)"
    "\<And>j. j \<in> set ns \<Longrightarrow> node_fresh (nodes t' j)" "\<And>j. j \<notin> set ns \<Longrightarrow> node_data (nodes t' j) = node_data (nodes t j)" by blast
  let ?T = "tadd (tsub t) T (levels s) (hchain ns)"
  have ns: "j \<notin> set ns" if "j \<in> set_tree T" for j using assms(1) that unfolding tree_inv_def fs by auto
  have sub: "tsub t' j = tsub t j" if "j \<in> set_tree T" for j using node_data_sub[OF c(6)[OF ns[OF that]]] by (simp add: tsub_def)
  have T': "?T = tadd (tsub t') T (levels s) (hchain ns)" using sub by (intro tadd_cong[symmetric]) simp
  have lo: "lfind (tsub t') T qs = lfind (tsub t) T qs" for qs using sub by (rule lfind_cong)
  have tr: "trest (tsub t') T (levels s) = trest (tsub t) T (levels s)" using sub by (rule trest_cong)
  have sne: "levels s \<noteq> []" using assms(2) by (simp add: fits_def)
  have "lfind (tsub t') ?T (levels s) = Some (last ns)"
    unfolding T' by (rule lfind_tadd) (use None lo sne c(2,4) tr in simp_all)
  moreover have "lfind (tsub t') ?T qs = Some m" if "lfind (tsub t) T qs = Some m" for qs m
    unfolding T' by (rule lfind_tadd_old) (use that lo in simp)
  moreover have "lfind (tsub t) T qs = Some m \<or> (\<exists>k. qs = take k (levels s)) \<and> node_fresh (nodes t' m)"
    if "lfind (tsub t') ?T qs = Some m" for qs m
    using lfind_tadd_new[OF that[unfolded T']] c(4,5) tr lo by auto
  moreover have "node_data (nodes t' j) = node_data (nodes t j)" if "j \<in> set_tree T" for j using c(6)[OF ns[OF that]] .
  moreover have "node_fresh (nodes t' (last ns))" using c(5)[of "last ns"] c(2) by simp
  ultimately show ?thesis using c(1,3)
    by (intro exI[of _ "last ns"] exI[of _ t'] exI[of _ ?T] exI[of _ fs'] conjI) simp_all
qed

lemma find_levels: "tree_inv t T fs \<Longrightarrow> leaf_node_find t q = Some (lfind (tsub t) T (levels q))"
  using leaf_node_find_inv leaf_node_find_empty by (cases "q = []"; cases T) fastforce+

lemma create_store:
  assumes "tree_ok t" "tree_room t s"
  shows "\<exists>n t'. topic_node_create t s = Some (Some n, t') \<and> tree_ok t' \<and> leaf_node_find t' s = Some (Some n) \<and>
     (\<forall>q m. leaf_node_find t q = Some (Some m) \<longrightarrow> leaf_node_find t' q = Some (Some m) \<and>
        node_in_use (nodes t' m) = node_in_use (nodes t m))"
proof -
  obtain T fs where i: "tree_inv t T fs" and r: "fits s"
    "lfind (tsub t) T (levels s) = None \<longrightarrow> length (trest (tsub t) T (levels s)) \<le> length fs"
    using assms(2) unfolding tree_room_def by auto
  from create_full[OF i r] obtain n t' T' fs' where c: "topic_node_create t s = Some (Some n, t')" "tree_inv t' T' fs'"
    "lfind (tsub t') T' (levels s) = Some n" "\<And>qs m. lfind (tsub t) T qs = Some m \<Longrightarrow> lfind (tsub t') T' qs = Some m"
    "\<And>j. j \<in> set_tree T \<Longrightarrow> node_data (nodes t' j) = node_data (nodes t j)" by blast
  have "node_in_use (nodes t' m) = node_in_use (nodes t m)" if "lfind (tsub t) T qs = Some m" for qs m
    using node_in_use_data[OF c(5)[OF lfind_mem[OF that]]] .
  then show ?thesis using c find_levels[OF i] find_levels[OF c(2)] unfolding tree_ok_def by auto
qed

interpretation topics: topic_store leaf_node_find topic_node_create try_node_delete "\<lambda>t i. node_in_use (nodes t i)"
  tree_ok tree_room
proof unfold_locales
  fix t tp assume "tree_ok t"
  then show "\<exists>r. leaf_node_find t tp = Some r" using find_levels unfolding tree_ok_def by blast
next
  fix t tp assume "tree_ok t" "tree_room t tp"
  then show "\<exists>n s'. topic_node_create t tp = Some (Some n, s') \<and> tree_ok s' \<and> leaf_node_find s' tp = Some (Some n)"
    using create_store by blast
next
  fix t tp r t' q m
  assume "tree_ok t" "tree_room t tp" "topic_node_create t tp = Some (r, t')" "leaf_node_find t q = Some (Some m)"
  then show "leaf_node_find t' q = Some (Some m) \<and> node_in_use (nodes t' m) = node_in_use (nodes t m)"
    using create_store[of t tp] by auto
next
  fix t tp n assume a: "tree_ok t" "leaf_node_find t tp = Some (Some n)"
  then obtain T fs where i: "tree_inv t T fs" unfolding tree_ok_def by blast
  then have "n \<in> set_tree T" using a(2) find_levels[OF i] lfind_mem by auto
  then show "\<exists>s'. try_node_delete t (Some n) = Some s' \<and> tree_ok s'"
    using try_node_delete_inv[OF i, of "Some n"] unfolding tree_ok_def by blast
next
  fix t tp n t' q m
  assume a: "tree_ok t" "leaf_node_find t tp = Some (Some n)" "try_node_delete t (Some n) = Some t'"
    "leaf_node_find t q = Some (Some m)" "node_in_use (nodes t m)"
  then obtain T fs where i: "tree_inv t T fs" unfolding tree_ok_def by blast
  have mem: "n \<in> set_tree T" "m \<in> set_tree T" "lfind (tsub t) T (levels q) = Some m"
    using a(2,4) find_levels[OF i] lfind_mem by auto
  then obtain T' fs' where d: "tree_inv t' T' fs'" "m \<in> set_tree T'" "node_data (nodes t' m) = node_data (nodes t m)"
    "lfind (tsub t') T' (levels q) = Some m"
    using try_node_delete_inv[OF i, of "Some n"] a(3,5) by auto
  then show "leaf_node_find t' q = Some (Some m) \<and> node_in_use (nodes t' m)"
    using find_levels[OF d(1)] node_in_use_data[OF d(3)] a(5) by auto
qed

section \<open>Creation without enough nodes\<close>

text \<open>A hierarchy under construction, from its lowest node \<open>p\<close> upwards, not hanging in the tree.\<close>

fun upchain :: "(nat \<Rightarrow> topic_node) \<Rightarrow> ptr \<Rightarrow> nat list \<Rightarrow> bool" where
  "upchain f b [] = True"
| "upchain f b (p # us) = (tn_dn_hier (f p) = b \<and> tn_dn_nhbr (f p) = None \<and> tn_up_nhbr (f p) = None \<and>
     tn_up_hier (f p) = (case us of [] \<Rightarrow> None | u # _ \<Rightarrow> Some u) \<and> \<not> node_in_use (f p) \<and> upchain f (Some p) us)"

lemma upchain_cong: "upchain f b us \<Longrightarrow> (\<And>j. j \<in> set us \<Longrightarrow> f' j = f j) \<Longrightarrow> upchain f' b us"
  by (induction us arbitrary: b) auto

lemma node_in_use_links [simp]: "node_in_use (n\<lparr>tn_dn_hier := x\<rparr>) = node_in_use n" "node_in_use (n\<lparr>tn_up_hier := x\<rparr>) = node_in_use n"
  using node_in_use_data[of "n\<lparr>tn_dn_hier := x\<rparr>" n] node_in_use_data[of "n\<lparr>tn_up_hier := x\<rparr>" n] by simp_all

lemma upchain_delete:
  "upchain (nodes t) None (p # us) \<Longrightarrow> distinct (p # us) \<Longrightarrow>
   \<exists>t'. try_node_delete t (Some p) = Some t' \<and> root_node t' = None"
proof (induction us arbitrary: t p)
  case Nil
  then have "node_delete t p = (None, free_node (t\<lparr>root_node := None\<rparr>) p)"
    by (simp add: node_delete_def can_delete_node_def)
  then show ?case using Nil by (simp add: try_node_delete.simps)
next
  case (Cons u us)
  let ?t = "free_node (upd_node u (\<lambda>m. m\<lparr>tn_dn_hier := None\<rparr>) t) p"
  have d: "node_delete t p = (Some u, ?t)" using Cons.prems by (simp add: node_delete_def can_delete_node_def)
  have "upchain (nodes ?t) (Some u) us"
    by (rule upchain_cong[of "nodes t"]) (use Cons.prems in \<open>auto simp: free_node_def\<close>)
  then have "upchain (nodes ?t) None (u # us)" using Cons.prems by (auto simp: free_node_def)
  from Cons.IH[OF this] Cons.prems d show ?case by (simp add: try_node_delete.simps[of t])
qed

text \<open>Reading \<open>n\<close> sub-topics of \<open>s\<close> never reaches its end.\<close>

fun runs_on :: "nat \<Rightarrow> c8 list \<Rightarrow> bool" where
  "runs_on 0 s = True"
| "runs_on (Suc n) s = (case subtop_read s MAX_SUBTOP_LEN of
     Some (rv, _, Some rest) \<Rightarrow> 0 < rv \<and> rv < 65536 \<and> runs_on n rest | _ \<Rightarrow> False)"

lemma hier_loop_exhaust:
  assumes "chain (tlinks (nodes t)) (free_nodes t) ns" "runs_on (length ns) s" "upchain (nodes t) None us" "distinct (us @ ns)"
    "us @ ns \<noteq> []" "prev = (case us of [] \<Rightarrow> None | u # _ \<Rightarrow> Some u)"
  shows "\<exists>t'. hier_loop t s base prev = Some (None, None, t') \<and> root_node t' = None"
  using assms
proof (induction ns arbitrary: t s us base prev)
  case Nil
  then obtain u us' where us: "us = u # us'" by (cases us) auto
  have "alloc_node_subtop t s = Some (None, Some s, t)" using Nil.prems(1) by (simp add: alloc_node_subtop_def alloc_topic_node_def)
  moreover obtain t' where "try_node_delete t (Some u) = Some t'" "root_node t' = None"
    using upchain_delete[of t u us'] Nil.prems us by auto
  ultimately show ?case using Nil.prems(6) us by (simp add: hier_loop.simps)
next
  case (Cons i ns)
  from Cons.prems(2) obtain rv sub rest where r: "subtop_read s MAX_SUBTOP_LEN = Some (rv, sub, Some rest)" "0 < rv" "rv < 65536"
    "runs_on (length ns) rest" by (auto split: option.splits)
  have "uint (of_int rv :: u16) = rv" using r(2,3) by (simp add: uint_word_of_int)
  then have nz: "(of_int rv :: u16) \<noteq> 0" using r(2) by auto
  define t1 where "t1 = upd_node i (\<lambda>n. n\<lparr>tn_toplen := of_int rv\<rparr>) (upd_node i (\<lambda>n. n\<lparr>tn_subtop := sub\<rparr>)
     (upd_node i node_reset (t\<lparr>free_nodes := tn_dn_nhbr (nodes t i)\<rparr>)))"
  have fr: "free_nodes t = Some i" "chain (tlinks (nodes t)) (tn_dn_nhbr (nodes t i)) ns" using Cons.prems(1) by auto
  have al: "alloc_node_subtop t s = Some (Some i, Some rest, t1)"
    using fr(1) r(1) nz by (simp add: alloc_node_subtop_def alloc_topic_node_def t1_def)
  define t2 where "t2 = (case prev of None \<Rightarrow> t1 | Some p \<Rightarrow> link_hier p i t1)"
  have step: "hier_loop t s base prev = hier_loop t2 rest (case prev of None \<Rightarrow> Some i | Some _ \<Rightarrow> base) (Some i)"
    by (subst hier_loop.simps) (simp add: al t2_def Let_def split: option.splits)
  have d: "i \<notin> set us" "i \<notin> set ns" "distinct us" "distinct ns" "set us \<inter> set ns = {}" using Cons.prems(4) by auto
  have n1: "nodes t1 i = (node_reset (nodes t i))\<lparr>tn_subtop := sub, tn_toplen := of_int rv\<rparr>" "\<And>j. j \<noteq> i \<Longrightarrow> nodes t1 j = nodes t j"
    "free_nodes t1 = tn_dn_nhbr (nodes t i)" by (simp_all add: t1_def)
  have nu: "\<not> node_in_use (nodes t1 i)"
    unfolding n1 by (simp add: node_in_use_def node_reset_def is_node_retain_def is_node_willed_def enrolls_plugin_def)
  have "\<exists>t'. hier_loop t2 rest (case prev of None \<Rightarrow> Some i | Some _ \<Rightarrow> base) (Some i) = Some (None, None, t') \<and> root_node t' = None"
  proof (rule Cons.IH[of t2 rest "i # us"])
    show "chain (tlinks (nodes t2)) (free_nodes t2) ns"
    proof -
      have e: "nodes t2 j = nodes t j" if "j \<in> set ns" for j
        using that d n1(2)[of j] Cons.prems(6) by (cases us) (auto simp: t2_def link_hier_def split: option.splits)
      have "free_nodes t2 = tn_dn_nhbr (nodes t i)" by (simp add: t2_def n1(3) link_hier_def split: option.splits)
      then show ?thesis using seg_cong[OF fr(2), of "tlinks (nodes t2)"] e by (simp add: tlinks_def)
    qed
    show "upchain (nodes t2) None (i # us)"
    proof (cases us)
      case Nil
      then show ?thesis using nu n1(1) Cons.prems(6) by (simp add: t2_def node_reset_def)
    next
      case (Cons u us')
      then have "prev = Some u" using Cons.prems(6) by simp
      then have n2: "nodes t2 i = (nodes t1 i)\<lparr>tn_up_hier := Some u\<rparr>" "nodes t2 u = (nodes t u)\<lparr>tn_dn_hier := Some i\<rparr>"
        "\<And>j. j \<in> set us' \<Longrightarrow> nodes t2 j = nodes t j"
        using d Cons n1(2) by (auto simp: t2_def link_hier_def)
      have "upchain (nodes t2) (Some u) us'"
        by (rule upchain_cong[of "nodes t"]) (use Cons.prems(3) Cons n2 in auto)
      moreover have "\<not> node_in_use (nodes t2 i)" using nu n2(1) by simp
      moreover have "tn_dn_hier (nodes t2 i) = None \<and> tn_dn_nhbr (nodes t2 i) = None \<and> tn_up_nhbr (nodes t2 i) = None \<and>
          tn_up_hier (nodes t2 i) = Some u" unfolding n2(1) n1(1) by (simp add: node_reset_def)
      ultimately show ?thesis using n2(2) Cons.prems(3) Cons by simp
    qed
  qed (use r(4) Cons.prems(4) in auto)
  then show ?case using step by simp
qed

section \<open>Properties\<close>

text \<open>
  C16: subscribing to a topic. With enough free nodes \<open>topic_node_create\<close> returns a node, keeps
  the tree well formed (links both ways, no node lost), the node is what a later search for the
  topic finds, every topic that was found before is still found at the same node with its data
  untouched, and a topic that is newly found is the created topic or one of its prefixes and
  carries no subscription.
\<close>

theorem topic_create_lookup:
  assumes "tree_inv t T fs" "fits s" "length (levels s) \<le> length fs"
  shows "\<exists>n t' T' fs'. topic_node_create t s = Some (Some n, t') \<and> tree_inv t' T' fs' \<and>
     leaf_node_find t' s = Some (Some n) \<and>
     (\<forall>q m. leaf_node_find t q = Some (Some m) \<longrightarrow>
        leaf_node_find t' q = Some (Some m) \<and> node_data (nodes t' m) = node_data (nodes t m)) \<and>
     (\<forall>q m. leaf_node_find t' q = Some (Some m) \<and> leaf_node_find t q = Some None \<longrightarrow>
        (\<exists>k. levels q = take k (levels s)) \<and> \<not> node_in_use (nodes t' m))"
proof -
  obtain pre where "levels s = pre @ trest (tsub t) T (levels s)" using trest_suffix by blast
  then have "length (trest (tsub t) T (levels s)) \<le> length (levels s)" by (metis length_append le_add2)
  then have "lfind (tsub t) T (levels s) = None \<longrightarrow> length (trest (tsub t) T (levels s)) \<le> length fs" using assms(3) by simp
  from create_full[OF assms(1,2) this] obtain n t' T' fs' where c: "topic_node_create t s = Some (Some n, t')" "tree_inv t' T' fs'"
    "lfind (tsub t') T' (levels s) = Some n" "\<And>qs m. lfind (tsub t) T qs = Some m \<Longrightarrow> lfind (tsub t') T' qs = Some m"
    "\<And>qs m. lfind (tsub t') T' qs = Some m \<Longrightarrow> lfind (tsub t) T qs = Some m \<or> (\<exists>k. qs = take k (levels s)) \<and> node_fresh (nodes t' m)"
    "\<And>j. j \<in> set_tree T \<Longrightarrow> node_data (nodes t' j) = node_data (nodes t j)" by auto
  have nu: "\<not> node_in_use k" if "node_fresh k" for k
    using that by (simp add: node_fresh_def node_in_use_def is_node_retain_def is_node_willed_def enrolls_plugin_def)
  have new: "\<forall>q m. lfind (tsub t') T' (levels q) = Some m \<and> lfind (tsub t) T (levels q) = None \<longrightarrow>
     (\<exists>k. levels q = take k (levels s)) \<and> \<not> node_in_use (nodes t' m)"
    using c(5) nu by (metis option.distinct(1))
  have old: "\<forall>q m. lfind (tsub t) T (levels q) = Some m \<longrightarrow>
     lfind (tsub t') T' (levels q) = Some m \<and> node_data (nodes t' m) = node_data (nodes t m)"
    using c(4) c(6)[OF lfind_mem] by blast
  show ?thesis unfolding find_levels[OF assms(1)]
    by (intro exI[of _ n] exI[of _ t'] exI[of _ T'] exI[of _ fs'])
      (simp only: find_levels[OF c(2)] option.inject c(1-3) simp_thms, intro conjI old new)
qed

text \<open>The nodes at start-up, and the topics \<open>a/b\<close>, \<open>a\<close> and one of 40 characters.\<close>

definition sample_node :: topic_node where
  "sample_node = \<lparr>tn_dn_nhbr = None, tn_up_nhbr = None, tn_dn_hier = None, tn_up_hier = None, tn_cl_map = [0, 0, 0],
     tn_my_data = None, tn_my_dlen = 0, tn_will_cl = None, tn_my_prop = 0, tn_pg_map = 0, tn_toplen = 0, tn_subtop = []\<rparr>"

definition sample_tree :: topic_tree where
  "sample_tree = topic_node_init \<lparr>nodes = (\<lambda>_. sample_node), free_nodes = None, root_node = None\<rparr>"

definition topic_ab :: "c8 list" where "topic_ab = [0x61, SLASH, 0x62]"
definition topic_a :: "c8 list" where "topic_a = [0x61]"
definition topic_long :: "c8 list" where "topic_long = replicate 40 0x62"

lemma sample_tree_inv: "tree_inv sample_tree Leaf (rev [0..<MAX_TOP_NODES])"
  unfolding sample_tree_def by (rule topic_node_init_inv) simp_all

lemma sample_levels: "levels topic_ab = [[0x61, SLASH], [0x62]]" "levels topic_a = [[0x61]]"
  "fits topic_ab" "fits topic_a"
  by (simp_all add: topic_ab_def topic_a_def levels.simps fits_def MAX_SUBTOP_LEN_def)

lemma sample_room: "length (levels topic_ab) \<le> length (rev [0..<MAX_TOP_NODES])" "length (levels topic_a) \<le> length (rev [0..<MAX_TOP_NODES])"
  by (simp_all add: sample_levels MAX_TOP_NODES_def)

theorem topic_create_lookup_witness:
  "\<exists>n t' T' fs'. topic_node_create sample_tree topic_ab = Some (Some n, t') \<and> tree_inv t' T' fs' \<and>
     leaf_node_find t' topic_ab = Some (Some n)"
  using topic_create_lookup[OF sample_tree_inv sample_levels(3) sample_room(1)] by blast

lemma sample_one: "\<exists>n t' T' fs'. topic_node_create sample_tree topic_a = Some (Some n, t') \<and> tree_inv t' T' fs' \<and>
   leaf_node_find t' topic_a = Some (Some n) \<and> T' = hchain [n] \<and> fs' \<noteq> [] \<and> tsub t' n = [0x61]"
proof -
  have e: "MAX_TOP_NODES = Suc 31" by (simp add: MAX_TOP_NODES_def)
  have "rev [0..<Suc n] = [n] @ rev [0..<n]" for n by simp
  then have m: "rev [0..<MAX_TOP_NODES] = [31] @ rev [0..<31]" unfolding e by blast
  have i: "tree_inv sample_tree Leaf ([31] @ rev [0..<31])" using sample_tree_inv m by simp
  from topic_node_create_new[OF i sample_levels(4)] obtain t' where t': "topic_node_create sample_tree topic_a = Some (Some 31, t')"
    "tree_inv t' (tadd (tsub sample_tree) Leaf (levels topic_a) (hchain [31])) (rev [0..<31])" "map (tsub t') [31] = levels topic_a"
    by (auto simp: sample_levels)
  have s: "tsub t' 31 = [0x61]" using t'(3) by (simp add: sample_levels)
  have i2: "tree_inv t' (hchain [31]) (rev [0..<31])" using t'(2) by simp
  have "leaf_node_find t' topic_a = Some (Some 31)" using find_levels[OF i2] s by (simp add: sample_levels)
  moreover have "rev [0..<31] \<noteq> ([] :: nat list)" by simp
  ultimately show ?thesis using t'(1) i2 s by blast
qed

text \<open>
  C17: releasing a topic. \<open>try_node_delete\<close> returns, keeps the tree well formed, and every
  topic whose node is in use (a subscription, retained data, a will or a plugin) is still found
  at the same node with the same data.
\<close>

theorem topic_delete_safe:
  assumes "tree_inv t T fs" "leaf_node_find t s = Some (Some n)"
  shows "\<exists>t' T' fs'. try_node_delete t (Some n) = Some t' \<and> tree_inv t' T' fs' \<and>
     (\<forall>q m. leaf_node_find t q = Some (Some m) \<and> node_in_use (nodes t m) \<longrightarrow>
        leaf_node_find t' q = Some (Some m) \<and> node_data (nodes t' m) = node_data (nodes t m))"
proof -
  have "n \<in> set_tree T" using assms find_levels lfind_mem by fastforce
  then obtain t' T' fs' where d: "try_node_delete t (Some n) = Some t'" "tree_inv t' T' fs'"
    "\<And>j. j \<in> set_tree T \<Longrightarrow> node_in_use (nodes t j) \<Longrightarrow> j \<in> set_tree T'"
    "\<And>j. j \<in> set_tree T' \<Longrightarrow> node_data (nodes t' j) = node_data (nodes t j)"
    "\<And>qs m. lfind (tsub t) T qs = Some m \<Longrightarrow> m \<in> set_tree T' \<Longrightarrow> lfind (tsub t') T' qs = Some m"
    using try_node_delete_inv[OF assms(1), of "Some n"] by auto
  show ?thesis unfolding find_levels[OF assms(1)]
    using d lfind_mem find_levels[OF d(2)]
    by (intro exI[of _ t'] exI[of _ T'] exI[of _ fs']) (simp, blast)
qed

theorem topic_delete_safe_witness:
  "\<exists>n t t' T' fs'. topic_node_create sample_tree topic_a = Some (Some n, t) \<and>
     try_node_delete t (Some n) = Some t' \<and> tree_inv t' T' fs'"
proof -
  obtain n t T fs where c: "topic_node_create sample_tree topic_a = Some (Some n, t)" "tree_inv t T fs"
    "leaf_node_find t topic_a = Some (Some n)" using sample_one by blast
  from topic_delete_safe[OF c(2,3)] c(1) show ?thesis by blast
qed

text \<open>
  C30: one subscription to a topic whose first sub-topic has more than 30 characters (and is
  not in the tree) makes the broker forget every topic: the reader of the sub-topic never gets
  past its beginning, the nodes run out, and the clean-up of the half-built hierarchy, which
  does not hang in the tree, resets the root of the tree.
\<close>

theorem long_subtopic_loses_tree:
  assumes "tree_inv t T fs" "T \<noteq> Leaf" "fs \<noteq> []" "MAX_SUBTOP_LEN - 1 \<le> length (fst (cut_top s))"
    "SLASH \<notin> set (take (MAX_SUBTOP_LEN - 1) s)" "nfind (tsub t) T (fst (cut_top s)) = None"
  shows "\<exists>t'. topic_node_create t s = Some (None, t') \<and> (\<forall>q. leaf_node_find t' q = Some None)"
proof -
  have rep: "tree_rep (nodes t) T (root_node t) None None" and ch: "chain (tlinks (nodes t)) (free_nodes t) fs"
    and wf: "\<And>j. j \<in> set_tree T \<Longrightarrow> wf_level (tsub t j)" using assms(1) unfolding tree_inv_def by blast+
  have s: "s \<noteq> []" using assms(4) by (auto simp: MAX_SUBTOP_LEN_def)
  obtain r where r: "root_node t = Some r" using rep assms(2) by (cases T) auto
  have "lowest_node_find t s = Some (Some r, True, Some s)"
    using nhbr_find_rep[OF rep wf s] assms(6) r by (simp add: lowest_node_find_def lowest_loop.simps)
  moreover have loop: "subtop_loop k s' = (take k s', None)" if "k \<le> length (fst (cut_top s'))" "SLASH \<notin> set (take k s')" for k s'
    using that
  proof (induction k s' rule: subtop_loop.induct)
    case (3 k c cs)
    then show ?case by (cases "c = SLASH") (auto simp: Let_def split_beta)
  qed auto
  have len: "length (take 31 s) = 31"
  proof -
    have "length (fst (cut_top s)) \<le> length s" by (induction s) (auto simp: Let_def split_beta)
    then show ?thesis using assms(4) by (simp add: MAX_SUBTOP_LEN_def)
  qed
  have read: "subtop_read s MAX_SUBTOP_LEN = Some (31, take 31 s, Some s)"
    using loop[OF assms(4,5)] len by (simp add: subtop_read_def MAX_SUBTOP_LEN_def)
  have "runs_on k s" for k by (induction k) (simp_all add: read)
  then obtain t' where "hier_nodes_create t s = Some (None, None, t')" "root_node t' = None"
    using hier_loop_exhaust[OF ch, of s "[]" None None] assms(3) chain_distinct[OF ch] by (auto simp: hier_nodes_create_def)
  moreover have "leaf_node_find t' q = Some None" if "root_node t' = None" for t' q
    using that by (simp add: leaf_node_find_def lowest_node_find_def lowest_loop.simps)
  ultimately show ?thesis by (simp add: topic_node_create_def)
qed

theorem long_subtopic_loses_tree_witness:
  "\<exists>n t t'. topic_node_create sample_tree topic_a = Some (Some n, t) \<and> leaf_node_find t topic_a = Some (Some n) \<and>
     topic_node_create t topic_long = Some (None, t') \<and> leaf_node_find t' topic_a = Some None"
proof -
  obtain n t fs where c: "topic_node_create sample_tree topic_a = Some (Some n, t)" "tree_inv t (hchain [n]) fs"
    "leaf_node_find t topic_a = Some (Some n)" "fs \<noteq> []" "tsub t n = [0x61]" using sample_one by blast
  have ct: "cut_top (replicate k 0x62) = (replicate k 0x62, None)" for k by (induction k) simp_all
  have l: "MAX_SUBTOP_LEN - 1 \<le> length (fst (cut_top topic_long))" "SLASH \<notin> set (take (MAX_SUBTOP_LEN - 1) topic_long)"
    by (simp_all add: topic_long_def ct MAX_SUBTOP_LEN_def)
  have "nfind (tsub t) (hchain [n]) (fst (cut_top topic_long)) = None"
    by (simp add: c(5) topic_long_def ct) (simp add: numeral_eq_Suc)
  from long_subtopic_loses_tree[OF c(2) _ c(4) l this] c(1,3) show ?thesis by auto
qed

end
