(* ===== verification/TopicSearch.thy ===== *)
theory TopicSearch
  imports TopicOps
begin

text \<open>
  The searches of the broker over the topic tree (\<open>server_core.c\<close>): the explicit stack, the
  search for the subscriptions that match a published topic (\<open>SUB_leaf_search\<close> and the loop of
  \<open>proc_sub_tree_topPUB\<close>), and the search for the retained topics that match a subscription
  (\<open>pub_hier_search\<close> with the topic buffer). The first is shown to visit exactly the nodes
  whose topic filter matches, each once, without overflowing the stack.
\<close>

section \<open>The stack\<close>

text \<open>An entry of \<open>node_stack\<close>: the node, \<open>val1\<close> (a pointer to the rest of a topic) and \<open>val2\<close>.
  The head of the list is the top; an entry beyond the array is out of bounds.\<close>

type_synonym node_stack = "(nat \<times> c8 list \<times> u32) list"

definition stack_add :: "node_stack \<Rightarrow> nat \<Rightarrow> c8 list \<Rightarrow> u32 \<Rightarrow> node_stack option" where
  "stack_add st node val1 val2 = (if length st < MAX_TOP_NODES then Some ((node, val1, val2) # st) else None)"

text \<open>\<open>stack_pop\<close>: \<open>None\<close> for \<open>NULL\<close>, otherwise the entry and the new stack.\<close>

definition stack_pop :: "node_stack \<Rightarrow> ((nat \<times> c8 list \<times> u32) \<times> node_stack) option" where
  "stack_pop st = (case st of [] \<Rightarrow> None | e # st \<Rightarrow> Some (e, st))"

definition push_nhbr :: "topic_tree \<Rightarrow> nat \<Rightarrow> c8 list \<Rightarrow> u32 \<Rightarrow> node_stack \<Rightarrow> node_stack option" where
  "push_nhbr t n val1 val2 st = (case tn_dn_nhbr (nodes t n) of None \<Rightarrow> Some st | Some b \<Rightarrow> stack_add st b val1 val2)"

section \<open>Matching of sub-topics\<close>

definition is_wildcard_char :: "c8 \<Rightarrow> bool" where
  "is_wildcard_char c \<longleftrightarrow> c = PLUS \<or> c = HASH"

definition has_a_wildcard :: "topic_node \<Rightarrow> bool" where
  "has_a_wildcard n \<longleftrightarrow> list_ex is_wildcard_char (tn_subtop n)"

definition is_node_SUB_subtop :: "topic_node \<Rightarrow> c8 list \<Rightarrow> bool" where
  "is_node_SUB_subtop n subtop \<longleftrightarrow> \<not> has_a_wildcard n \<and>
     (tn_subtop n = subtop \<or> tn_dn_hier n \<noteq> None \<and> subtop = [PLUS, SLASH] \<or> tn_dn_hier n = None \<and> subtop = [PLUS])"

definition is_node_PUB_subtop :: "topic_node \<Rightarrow> c8 list \<Rightarrow> bool \<Rightarrow> bool" where
  "is_node_PUB_subtop n subtop endtop \<longleftrightarrow>
     subtop = tn_subtop n \<or> \<not> endtop \<and> tn_subtop n = [PLUS, SLASH] \<or> endtop \<and> tn_subtop n = [PLUS]"

section \<open>Search for subscriptions\<close>

partial_function (option) SUB_loop ::
  "topic_tree \<Rightarrow> c8 list \<Rightarrow> ptr \<Rightarrow> ptr \<Rightarrow> c8 list option \<Rightarrow> node_stack \<Rightarrow> (ptr \<times> node_stack) option" where
  "SUB_loop t topPUB node prev nx st =
     (case nx of
        None \<Rightarrow> Some (prev, st)
      | Some _ \<Rightarrow>
          (case node of
             None \<Rightarrow> Some (None, st)
           | Some n \<Rightarrow> do {
               (rv, subtop, nx) \<leftarrow> subtop_read topPUB MAX_SUBTOP_LEN;
               if rv \<le> 0 then Some (if nx \<noteq> None then None else prev, st)
               else do {
                 st \<leftarrow> push_nhbr t n topPUB 0 st;
                 if tn_subtop (nodes t n) = [HASH] then Some (Some n, st)
                 else if \<not> is_node_PUB_subtop (nodes t n) subtop (nx = None)
                   then Some (if nx \<noteq> None then None else prev, st)
                 else SUB_loop t (case nx of None \<Rightarrow> [] | Some s \<Rightarrow> s) (tn_dn_hier (nodes t n)) (Some n) nx st } }))"

definition SUB_leaf_search :: "topic_tree \<Rightarrow> c8 list \<Rightarrow> nat \<Rightarrow> node_stack \<Rightarrow> (ptr \<times> node_stack) option" where
  "SUB_leaf_search t topPUB base st = SUB_loop t topPUB (Some base) None (Some topPUB) st"

text \<open>
  The loop of \<open>proc_sub_tree_topPUB\<close>: \<open>send\<close> is \<open>leaf_msg_send\<close> on the state of the broker (which
  does not touch the tree or the stack), \<open>stack_ref\<close> the height of the stack at the start.
\<close>

partial_function (option) topPUB_loop ::
  "topic_tree \<Rightarrow> nat \<Rightarrow> (nat \<Rightarrow> 's \<Rightarrow> 's option) \<Rightarrow> node_stack \<Rightarrow> 's \<Rightarrow> 's option" where
  "topPUB_loop t stack_ref send st s =
     (if stack_ref < length st then do {
        ((node, val1, val2), st) \<leftarrow> stack_pop st;
        (leaf, st) \<leftarrow> SUB_leaf_search t val1 node st;
        s \<leftarrow> (case leaf of None \<Rightarrow> Some s | Some l \<Rightarrow> send l s);
        topPUB_loop t stack_ref send st s }
      else Some s)"

definition sub_tree_topPUB :: "topic_tree \<Rightarrow> c8 list \<Rightarrow> (nat \<Rightarrow> 's \<Rightarrow> 's option) \<Rightarrow> node_stack \<Rightarrow> 's \<Rightarrow> 's option" where
  "sub_tree_topPUB t topPUB send st s = do {
     st' \<leftarrow> (case root_node t of None \<Rightarrow> Some st | Some r \<Rightarrow> stack_add st r topPUB 0);
     topPUB_loop t (length st) send st' s }"

section \<open>The topic buffer and the search for retained topics\<close>

record topbuf_desc =
  tb_buffer :: "c8 list"
  tb_maxlen :: u16
  tb_offset :: u16

text \<open>Common part of \<open>topbuf_add\<close> and \<open>topbuf_cpy\<close>: the sub-topic is copied behind the topic
  built so far, with its NUL.\<close>

definition topbuf_cpy :: "topbuf_desc \<Rightarrow> c8 list \<Rightarrow> (bool \<times> topbuf_desc) option" where
  "topbuf_cpy tb subtop = do {
     (rv, s, nx) \<leftarrow> subtop_read subtop (unat (tb_maxlen tb - tb_offset tb));
     if rv < 0 then Some (False, tb)
     else do {
       b \<leftarrow> buf_wr_nbytes (tb_buffer tb) (unat (tb_offset tb)) (s @ [0]) (length s + 1);
       let tb = tb\<lparr>tb_buffer := b\<rparr>;
       if nx \<noteq> None then Some (False, tb) else Some (True, tb\<lparr>tb_offset := tb_offset tb + of_int rv\<rparr>) } }"

definition topbuf_add :: "topbuf_desc \<Rightarrow> topic_node \<Rightarrow> (bool \<times> topbuf_desc) option" where
  "topbuf_add tb node = topbuf_cpy tb (tn_subtop node)"

partial_function (option) pub_hier_loop ::
  "topic_tree \<Rightarrow> c8 list \<Rightarrow> ptr \<Rightarrow> ptr \<Rightarrow> c8 list option \<Rightarrow> topbuf_desc \<Rightarrow> node_stack \<Rightarrow>
   (ptr \<times> topbuf_desc \<times> node_stack) option" where
  "pub_hier_loop t topSUB node prev nx tb st =
     (case nx of
        None \<Rightarrow> Some (prev, tb, st)
      | Some _ \<Rightarrow>
          (case node of
             None \<Rightarrow> Some (None, tb, st)
           | Some n \<Rightarrow> do {
               (rv, subtop, nx) \<leftarrow> subtop_read topSUB MAX_SUBTOP_LEN;
               if rv \<le> 0 then Some (if nx \<noteq> None then None else prev, tb, st)
               else do {
                 st \<leftarrow> push_nhbr t n topSUB (ucast (tb_offset tb)) st;
                 if \<not> is_node_SUB_subtop (nodes t n) subtop
                   then Some (if nx \<noteq> None then None else prev, tb, st)
                 else do {
                   (ok, tb) \<leftarrow> topbuf_add tb (nodes t n);
                   if \<not> ok then Some (if nx \<noteq> None then None else prev, tb, st)
                   else pub_hier_loop t (case nx of None \<Rightarrow> [] | Some s \<Rightarrow> s) (tn_dn_hier (nodes t n)) (Some n) nx tb st } } }))"

definition pub_hier_search ::
  "topic_tree \<Rightarrow> c8 list \<Rightarrow> ptr \<Rightarrow> topbuf_desc \<Rightarrow> node_stack \<Rightarrow> (ptr \<times> topbuf_desc \<times> node_stack) option" where
  "pub_hier_search t topSUB base tb st = pub_hier_loop t topSUB base None (Some topSUB) tb st"

section \<open>The nodes a publication reaches\<close>

text \<open>The match of a filter and a topic that the search decides, level by level, where a level is kept with its
  \<open>/\<close>. How it differs from the matching of the MQTT standard is stated with \<open>names_match\<close> below.\<close>

definition level_match :: "c8 list \<Rightarrow> c8 list \<Rightarrow> bool \<Rightarrow> bool" where
  "level_match f p endtop \<longleftrightarrow> p = f \<or> \<not> endtop \<and> f = [PLUS, SLASH] \<or> endtop \<and> f = [PLUS]"

fun topic_match :: "c8 list list \<Rightarrow> c8 list list \<Rightarrow> bool" where
  "topic_match (f # fs) (p # ps) = (if f = [HASH] then fs = [] else level_match f p (ps = []) \<and> topic_match fs ps)"
| "topic_match fs ps = (fs = [] \<and> ps = [])"

text \<open>The topic filters in the tree, with their nodes.\<close>

fun tpaths :: "(nat \<Rightarrow> c8 list) \<Rightarrow> nat tree \<Rightarrow> (c8 list list \<times> nat) list" where
  "tpaths sub Leaf = []"
| "tpaths sub (Node h n r) = ([sub n], n) # map (\<lambda>(fs, m). (sub n # fs, m)) (tpaths sub h) @ tpaths sub r"

text \<open>One descent: the node found and the neighbours left for later (with the levels to match).\<close>

fun down :: "(nat \<Rightarrow> c8 list) \<Rightarrow> nat tree \<Rightarrow> ptr \<Rightarrow> c8 list list \<Rightarrow> ptr \<times> (nat tree \<times> c8 list list) list" where
  "down sub Leaf prev ps = (if ps = [] then prev else None, [])"
| "down sub (Node h n r) prev [] = (prev, [])"
| "down sub (Node h n r) prev (p # ps) =
     (let later = (if r = Leaf then [] else [(r, p # ps)]) in
      if sub n = [HASH] then (Some n, later)
      else if level_match (sub n) p (ps = []) then (let (l, q) = down sub h (Some n) ps in (l, q @ later))
      else (if ps = [] then prev else None, later))"

text \<open>All descents.\<close>

fun ptrs :: "ptr \<Rightarrow> nat list" where
  "ptrs None = []"
| "ptrs (Some m) = [m]"

lemma ptrs_set [simp]: "m \<in> set (ptrs p) \<longleftrightarrow> p = Some m"
  by (cases p) auto

lemma ptrs_distinct [simp]: "distinct (ptrs p)"
  by (cases p) auto

fun vis :: "(nat \<Rightarrow> c8 list) \<Rightarrow> nat tree \<Rightarrow> ptr \<Rightarrow> c8 list list \<Rightarrow> nat list" where
  "vis sub Leaf prev ps = (if ps = [] then ptrs prev else [])"
| "vis sub (Node h n r) prev [] = ptrs prev"
| "vis sub (Node h n r) prev (p # ps) =
     (if sub n = [HASH] then [n]
      else if level_match (sub n) p (ps = []) then vis sub h (Some n) ps
      else if ps = [] then ptrs prev else []) @ vis sub r None (p # ps)"

lemma vis_Nil: "vis sub T prev [] = ptrs prev"
  by (cases T) auto

lemma vis_down: "vis sub T prev ps = ptrs (fst (down sub T prev ps)) @
   concat (map (\<lambda>(T, ps). vis sub T None ps) (snd (down sub T prev ps)))"
proof (induction T arbitrary: prev ps)
  case (Node h n r)
  show ?case
  proof (cases ps)
    case (Cons p qs)
    have "r = Leaf \<Longrightarrow> vis sub r None (p # qs) = []" by simp
    then show ?thesis using Cons Node.IH(1)[of "Some n" qs] by (auto simp: Let_def split_beta)
  qed simp
qed simp

lemma down_size: "sum_list (map (\<lambda>e. size (fst e)) (snd (down sub T prev ps))) + (if T = Leaf \<or> ps = [] then 0 else 1) \<le> size T"
proof (induction T arbitrary: prev ps)
  case (Node h n r)
  show ?case
  proof (cases ps)
    case (Cons p qs)
    then show ?thesis using Node.IH(1)[of "Some n" qs] by (auto simp: Let_def split_beta)
  qed simp
qed simp

lemma down_nempty: "(T', qs) \<in> set (snd (down sub T prev ps)) \<Longrightarrow> T' \<noteq> Leaf \<and> qs \<noteq> []"
proof (induction T arbitrary: prev ps)
  case (Node h n r)
  show ?case
  proof (cases ps)
    case (Cons p qs)
    then show ?thesis using Node.IH(1)[of "Some n" qs] Node.prems by (auto simp: Let_def split_beta split: if_splits)
  qed (use Node.prems in simp)
qed simp

section \<open>The code makes these descents\<close>

fun send_all :: "(nat \<Rightarrow> 's \<Rightarrow> 's option) \<Rightarrow> nat list \<Rightarrow> 's \<Rightarrow> 's option" where
  "send_all send [] s = Some s"
| "send_all send (m # ms) s = do { s \<leftarrow> send m s; send_all send ms s }"

lemma send_all_append: "send_all send (xs @ ys) s = do { s \<leftarrow> send_all send xs s; send_all send ys s }"
proof (induction xs arbitrary: s)
  case (Cons x xs)
  then show ?case by (cases "send x s") simp_all
qed simp

fun troot :: "nat tree \<Rightarrow> nat" where
  "troot (Node h n r) = n"
| "troot Leaf = 0"

definition entry :: "nat tree \<times> c8 list list \<Rightarrow> nat \<times> c8 list \<times> u32" where
  "entry e = (troot (fst e), concat (snd e), 0)"

definition sub_rep :: "topic_tree \<Rightarrow> nat tree \<Rightarrow> ptr \<Rightarrow> bool" where
  "sub_rep t T p \<longleftrightarrow> (\<exists>un uh. tree_rep (nodes t) T p un uh) \<and> (\<forall>j \<in> set_tree T. wf_level (tsub t j))"

definition good_entry :: "topic_tree \<Rightarrow> nat tree \<times> c8 list list \<Rightarrow> bool" where
  "good_entry t e \<longleftrightarrow> fst e \<noteq> Leaf \<and> sub_rep t (fst e) (Some (troot (fst e))) \<and> (\<exists>s. fits s \<and> snd e = levels s)"

lemma sub_rep_Node: "sub_rep t (Node h n r) p \<longleftrightarrow> p = Some n \<and> wf_level (tsub t n) \<and>
   (\<exists>un uh. tn_up_nhbr (nodes t n) = un \<and> tn_up_hier (nodes t n) = uh \<and>
      tree_rep (nodes t) h (tn_dn_hier (nodes t n)) None (Some n) \<and> tree_rep (nodes t) r (tn_dn_nhbr (nodes t n)) (Some n) None) \<and>
   (\<forall>j \<in> set_tree h \<union> set_tree r. wf_level (tsub t j))"
  by (auto simp: sub_rep_def)

lemma sub_rep_parts:
  assumes "sub_rep t (Node h n r) p"
  shows "p = Some n" "sub_rep t h (tn_dn_hier (nodes t n))" "sub_rep t r (tn_dn_nhbr (nodes t n))"
    "r = Leaf \<Longrightarrow> tn_dn_nhbr (nodes t n) = None" "r \<noteq> Leaf \<Longrightarrow> tn_dn_nhbr (nodes t n) = Some (troot r)"
  using assms unfolding sub_rep_Node by (auto simp: sub_rep_def) (cases r; simp)

lemma SUB_loop_down:
  assumes "sub_rep t T p" "nx = None \<and> ps = [] \<or> nx \<noteq> None \<and> fits topPUB \<and> ps = levels topPUB" "length st + size T \<le> MAX_TOP_NODES"
  shows "SUB_loop t topPUB p prev nx st =
       Some (fst (down (tsub t) T prev ps), map entry (snd (down (tsub t) T prev ps)) @ st) \<and>
     (\<forall>e \<in> set (snd (down (tsub t) T prev ps)). good_entry t e)"
  using assms
proof (induction T arbitrary: p prev nx ps topPUB st)
  case Leaf
  then show ?case by (auto simp: SUB_loop.simps sub_rep_def fits_def)
next
  case (Node h n r)
  note parts = sub_rep_parts[OF Node.prems(1)]
  show ?case
  proof (cases "nx = None")
    case True
    then show ?thesis using Node.prems(2) by (simp add: SUB_loop.simps)
  next
    case False
    then obtain nx0 where nx0: "nx = Some nx0" and f: "fits topPUB" "ps = levels topPUB" using Node.prems(2) by auto
    then have s: "topPUB \<noteq> []" by (simp add: fits_def)
    define q where "q = fst (cut_top topPUB)"
    define ps' where "ps' = (case snd (cut_top topPUB) of None \<Rightarrow> [] | Some r \<Rightarrow> levels r)"
    have ps: "ps = q # ps'" using f(2) levels_Cons[OF s] by (simp add: q_def ps'_def)
    have last: "snd (cut_top topPUB) = None \<longleftrightarrow> ps' = []"
      using cut_top_shorter[of topPUB] by (cases "snd (cut_top topPUB)") (auto simp: ps'_def)
    have rd: "subtop_read topPUB MAX_SUBTOP_LEN = Some (int (length q), q, snd (cut_top topPUB))" "0 < int (length q)"
      using subtop_read_fits[OF f(1)] wf_cut[OF s] by (auto simp: q_def wf_level_def)
    define later where "later = (if r = Leaf then [] else [(r, q # ps')])"
    have push: "push_nhbr t n topPUB 0 st = Some (map entry later @ st)"
    proof (cases "r = Leaf")
      case True
      then show ?thesis using parts(4) by (simp add: push_nhbr_def later_def)
    next
      case False
      then have "length st < MAX_TOP_NODES" using Node.prems(3) by simp
      moreover have "concat (q # ps') = topPUB" using concat_levels[of topPUB] f(2) ps by simp
      ultimately show ?thesis using False parts(5) by (simp add: push_nhbr_def later_def entry_def stack_add_def)
    qed
    have gl: "\<forall>e \<in> set later. good_entry t e"
      using parts(3,5) f ps by (auto simp: later_def good_entry_def)
    have tn: "tn_subtop (nodes t n) = tsub t n" by (simp add: tsub_def)
    have pm: "is_node_PUB_subtop (nodes t n) q b = level_match (tsub t n) q b" for b
      by (simp add: is_node_PUB_subtop_def level_match_def tn)
    have step: "SUB_loop t topPUB p prev nx st =
      (if tsub t n = [HASH] then Some (Some n, map entry later @ st)
       else if \<not> level_match (tsub t n) q (ps' = []) then Some (if ps' = [] then prev else None, map entry later @ st)
       else SUB_loop t (case snd (cut_top topPUB) of None \<Rightarrow> [] | Some s \<Rightarrow> s) (tn_dn_hier (nodes t n)) (Some n) (snd (cut_top topPUB)) (map entry later @ st))"
      using rd by (subst SUB_loop.simps) (simp add: nx0 parts(1) push tn pm last)
    show ?thesis
    proof (cases "tsub t n \<noteq> [HASH] \<and> level_match (tsub t n) q (ps' = [])")
      case False
      then show ?thesis unfolding step ps using gl by (auto simp: Let_def later_def)
    next
      case True
      have sz: "length (map entry later @ st) + size h \<le> MAX_TOP_NODES"
        using Node.prems(3) by (cases r) (auto simp: later_def)
      have "SUB_loop t (case snd (cut_top topPUB) of None \<Rightarrow> [] | Some s \<Rightarrow> s) (tn_dn_hier (nodes t n)) (Some n) (snd (cut_top topPUB)) (map entry later @ st) =
         Some (fst (down (tsub t) h (Some n) ps'), map entry (snd (down (tsub t) h (Some n) ps')) @ map entry later @ st) \<and>
         (\<forall>e \<in> set (snd (down (tsub t) h (Some n) ps')). good_entry t e)"
        by (rule Node.IH(1)[OF parts(2) _ sz]) (use fits_rest[OF f(1)] in \<open>auto simp: ps'_def split: option.splits\<close>)
      then show ?thesis unfolding step ps using True gl
        by (auto simp: Let_def later_def split_beta)
    qed
  qed
qed

lemma topPUB_loop_vis:
  assumes "\<forall>e \<in> set qs. good_entry t e" "length st0 + sum_list (map (\<lambda>e. size (fst e)) qs) \<le> MAX_TOP_NODES"
  shows "topPUB_loop t (length st0) send (map entry qs @ st0) s =
    send_all send (concat (map (\<lambda>(T, ps). vis (tsub t) T None ps) qs)) s"
  using assms
proof (induction "sum_list (map (\<lambda>e. size (fst e)) qs)" arbitrary: qs s rule: less_induct)
  case less
  show ?case
  proof (cases qs)
    case Nil
    then show ?thesis by (simp add: topPUB_loop.simps)
  next
    case (Cons e es)
    obtain T ps where e: "e = (T, ps)" by (cases e) auto
    have g: "T \<noteq> Leaf" "sub_rep t T (Some (troot T))" "\<exists>s. fits s \<and> ps = levels s"
      using less.prems(1) Cons e by (auto simp: good_entry_def)
    then obtain tp where tp: "fits tp" "ps = levels tp" by blast
    have en: "entry e = (troot T, tp, 0)" by (simp add: entry_def e tp(2) concat_levels)
    have sz: "size T \<noteq> 0" using g(1) by (cases T) auto
    have le: "length (map entry es) \<le> sum_list (map (\<lambda>e. size (fst e)) es)"
    proof -
      have "\<forall>e \<in> set es. 1 \<le> size (fst e)"
      proof
        fix e' assume "e' \<in> set es"
        then have "fst e' \<noteq> Leaf" using less.prems(1) Cons by (auto simp: good_entry_def)
        then show "1 \<le> size (fst e')" by (cases "fst e'") auto
      qed
      then show ?thesis by (induction es) auto
    qed
    have room: "length (map entry es @ st0) + size T \<le> MAX_TOP_NODES" using less.prems(2) Cons e le by simp
    define D where "D = down (tsub t) T None ps"
    have D: "SUB_leaf_search t tp (troot T) (map entry es @ st0) = Some (fst D, map entry (snd D) @ map entry es @ st0)"
      "\<forall>e \<in> set (snd D). good_entry t e"
      using SUB_loop_down[OF g(2) _ room, of "Some tp" ps tp None] tp by (auto simp: SUB_leaf_search_def D_def)
    have dsz: "sum_list (map (\<lambda>e. size (fst e)) (snd D)) < size T"
      using down_size[of "tsub t" T None ps] g(1) tp by (auto simp: D_def split_beta fits_def)
    have IH: "topPUB_loop t (length st0) send (map entry (snd D @ es) @ st0) s' =
       send_all send (concat (map (\<lambda>(T, ps). vis (tsub t) T None ps) (snd D @ es))) s'" for s'
      by (rule less.hyps) (use dsz D(2) less.prems Cons e in auto)
    have v: "vis (tsub t) T None ps = ptrs (fst D) @ concat (map (\<lambda>(T, ps). vis (tsub t) T None ps) (snd D))"
      unfolding D_def by (rule vis_down)
    have "topPUB_loop t (length st0) send (map entry qs @ st0) s =
       (case fst D of None \<Rightarrow> Some s | Some l \<Rightarrow> send l s) \<bind> (\<lambda>s. topPUB_loop t (length st0) send (map entry (snd D @ es) @ st0) s)"
      using D(1) by (subst topPUB_loop.simps) (simp add: Cons en stack_pop_def)
    also have "\<dots> = send_all send (concat (map (\<lambda>(T, ps). vis (tsub t) T None ps) qs)) s"
      unfolding IH by (cases "fst D") (simp_all add: Cons e v)
    finally show ?thesis .
  qed
qed

lemma size_card: "distinct (preorder T) \<Longrightarrow> size T = card (set_tree T)"
  by (metis distinct_card length_preorder set_preorder)

lemma sub_tree_topPUB_vis:
  assumes "tree_inv t T fs" "fits s" 
  shows "sub_tree_topPUB t s send [] \<sigma> = send_all send (vis (tsub t) T None (levels s)) \<sigma>"
proof -
  have rep: "tree_rep (nodes t) T (root_node t) None None" and dT: "distinct (preorder T)"
    and all: "set_tree T \<union> set fs = {..<MAX_TOP_NODES}" and wf: "\<And>j. j \<in> set_tree T \<Longrightarrow> wf_level (tsub t j)"
    using assms(1) unfolding tree_inv_def by blast+
  have "card (set_tree T) \<le> card {..<MAX_TOP_NODES}" by (rule card_mono) (use all in auto)
  then have sz: "size T \<le> MAX_TOP_NODES" using size_card[OF dT] by simp
  show ?thesis
  proof (cases "T = Leaf")
    case True
    then show ?thesis using rep assms(2) by (simp add: sub_tree_topPUB_def topPUB_loop.simps fits_def)
  next
    case False
    then have r: "root_node t = Some (troot T)" using rep by (cases T) auto
    have g: "good_entry t (T, levels s)"
      using False rep r wf assms(2) by (auto simp: good_entry_def sub_rep_def)
    have "entry (T, levels s) = (troot T, s, 0)" by (simp add: entry_def concat_levels)
    then show ?thesis using topPUB_loop_vis[of "[(T, levels s)]" t "[]" send \<sigma>] g sz r
      by (simp add: sub_tree_topPUB_def stack_add_def MAX_TOP_NODES_def)
  qed
qed

section \<open>The descents find what matches\<close>

text \<open>The filter matches the topic without its last level.\<close>

fun parent_match :: "c8 list list \<Rightarrow> c8 list list \<Rightarrow> bool" where
  "parent_match (f # fs) (p # ps) = (level_match f p False \<and> ps \<noteq> [] \<and> (if fs = [] then length ps = 1 else parent_match fs ps))"
| "parent_match _ _ = False"

lemma tpaths_preorder: "map snd (tpaths sub T) = preorder T"
proof (induction T)
  case (Node h n r)
  have "map (snd \<circ> (\<lambda>(fs, m). (sub n # fs, m))) (tpaths sub h) = map snd (tpaths sub h)" by (rule map_cong) auto
  then show ?case using Node by simp
qed simp

lemma tpaths_unique: "distinct (preorder T) \<Longrightarrow> (fs, m) \<in> set (tpaths sub T) \<Longrightarrow> (fs', m) \<in> set (tpaths sub T) \<Longrightarrow> fs = fs'"
  unfolding tpaths_preorder[of sub, symmetric] by (metis distinct_map inj_onD prod.inject snd_conv)

lemma tpaths_mem: "(fs, m) \<in> set (tpaths sub T) \<Longrightarrow> m \<in> set_tree T \<and> fs \<noteq> [] \<and> last fs = sub m"
  by (induction T arbitrary: fs) auto

lemma vis_complete: "(fs, m) \<in> set (tpaths sub T) \<Longrightarrow> topic_match fs ps \<Longrightarrow> m \<in> set (vis sub T prev ps)"
proof (induction T arbitrary: fs ps prev)
  case (Node h n r)
  obtain f fs' where f: "fs = f # fs'" using tpaths_mem[OF Node.prems(1)] by (cases fs) auto
  then obtain p ps' where p: "ps = p # ps'" using Node.prems(2) by (cases ps) auto
  have m: "f = [HASH] \<and> fs' = [] \<or> f \<noteq> [HASH] \<and> level_match f p (ps' = []) \<and> topic_match fs' ps'"
    using Node.prems(2) f p by (cases "f = [HASH]") simp_all
  consider "fs' = []" "f = sub n" "m = n" | "(fs', m) \<in> set (tpaths sub h)" "f = sub n" | "(fs, m) \<in> set (tpaths sub r)"
    using Node.prems(1) f by auto
  then show ?case
  proof cases
    case 1
    then show ?thesis using m p by (auto simp: vis_Nil)
  next
    case 2
    then have "fs' \<noteq> []" using tpaths_mem by blast
    then show ?thesis using 2 m p Node.IH(1)[OF 2(1), of ps' "Some n"] by auto
  next
    case 3
    then show ?thesis using Node.IH(2)[OF 3 Node.prems(2), of None] p by simp
  qed
qed simp

lemma vis_sound: "m \<in> set (vis sub T prev ps) \<Longrightarrow>
   prev = Some m \<and> length ps \<le> 1 \<or> (\<exists>fs. (fs, m) \<in> set (tpaths sub T) \<and> (topic_match fs ps \<or> parent_match fs ps))"
proof (induction T arbitrary: ps prev)
  case Leaf
  then show ?case by (cases prev; cases "ps = []") simp_all
next
  case (Node h n r)
  show ?case
  proof (cases ps)
    case Nil
    then show ?thesis using Node.prems by (cases prev) auto
  next
    case (Cons p ps')
    have inr: ?thesis if "m \<in> set (vis sub r None (p # ps'))"
      using Node.IH(2)[OF that] Cons by auto
    show ?thesis
    proof (cases "m \<in> set (vis sub r None (p # ps'))")
      case False
      then consider "sub n = [HASH]" "m = n"
        | "sub n \<noteq> [HASH]" "level_match (sub n) p (ps' = [])" "m \<in> set (vis sub h (Some n) ps')"
        | "ps' = []" "prev = Some m"
        using Node.prems Cons by (auto split: if_splits option.splits)
      then show ?thesis
      proof cases
        case 1
        then show ?thesis using Cons by (intro disjI2 exI[of _ "[sub n]"]) simp
      next
        case 2
        from Node.IH(1)[OF 2(3)] show ?thesis
        proof (elim disjE exE conjE)
          assume a: "Some n = Some m" "length ps' \<le> 1"
          show ?thesis
          proof (cases "ps' = []")
            case True
            then show ?thesis using a 2 Cons by (intro disjI2 exI[of _ "[sub n]"]) simp
          next
            case ne: False
            then show ?thesis using a 2 Cons by (intro disjI2 exI[of _ "[sub n]"]) (cases ps'; simp)
          qed
        next
          fix fs assume a: "(fs, m) \<in> set (tpaths sub h)" "topic_match fs ps'"
          then show ?thesis using 2 Cons by (intro disjI2 exI[of _ "sub n # fs"]) auto
        next
          fix fs assume a: "(fs, m) \<in> set (tpaths sub h)" "parent_match fs ps'"
          then have "ps' \<noteq> []" "fs \<noteq> []" by (cases ps'; cases fs; simp)+
          then show ?thesis using a 2 Cons by (intro disjI2 exI[of _ "sub n # fs"]) auto
        qed
      next
        case 3
        then show ?thesis using Cons by simp
      qed
    qed (use inr in blast)
  qed
qed

lemma vis_set: "set (vis sub T prev ps) \<subseteq> set_tree T \<union> {m. prev = Some m}"
proof
  fix m assume "m \<in> set (vis sub T prev ps)"
  from vis_sound[OF this] show "m \<in> set_tree T \<union> {m. prev = Some m}" using tpaths_mem by fast
qed

lemma vis_distinct: "distinct (preorder T) \<Longrightarrow> prev \<notin> Some ` set_tree T \<Longrightarrow> distinct (vis sub T prev ps)"
proof (induction T arbitrary: ps prev)
  case Leaf
  then show ?case by (auto split: option.splits)
next
  case (Node h n r)
  show ?case
  proof (cases ps)
    case Nil
    then show ?thesis by (auto split: option.splits)
  next
    case (Cons p ps')
    have d: "distinct (preorder h)" "distinct (preorder r)" "n \<notin> set_tree h" "n \<notin> set_tree r" "set_tree h \<inter> set_tree r = {}"
      using Node.prems(1) by (auto simp: set_preorder)
    have r: "distinct (vis sub r None (p # ps'))" "set (vis sub r None (p # ps')) \<subseteq> set_tree r"
      using Node.IH(2)[OF d(2), of None "p # ps'"] vis_set[of sub r None "p # ps'"] by auto
    have h: "distinct (vis sub h (Some n) ps')" "set (vis sub h (Some n) ps') \<subseteq> insert n (set_tree h)"
      using Node.IH(1)[OF d(1), of "Some n" ps'] d(3) vis_set[of sub h "Some n" ps'] by auto
    have pv: "prev = Some k \<Longrightarrow> k \<notin> set_tree r" for k using Node.prems(2) by auto
    have hr: "set (vis sub h (Some n) ps') \<inter> set (vis sub r None (p # ps')) = {}" using r(2) h(2) d(4,5) by blast
    show ?thesis
    proof (cases prev)
      case None
      then show ?thesis using r h(1) hr d(4) Cons by auto
    next
      case (Some k)
      then have "k \<notin> set (vis sub r None (p # ps'))" using r(2) pv by blast
      then show ?thesis using Some r h(1) hr d(4) Cons by auto
    qed
  qed
qed

lemma levels_slash: "p \<in> set (butlast (levels s)) \<Longrightarrow> last p = SLASH"
proof (induction s rule: levels.induct)
  case (1 s)
  have c: "snd (cut_top s) = Some r \<Longrightarrow> last (fst (cut_top s)) = SLASH" for r
  proof (induction s)
    case (Cons c cs)
    then show ?case by (cases "fst (cut_top cs) = []"; cases cs) (auto simp: Let_def split_beta split: if_splits)
  qed simp
  show ?case
  proof (cases "s = []")
    case False
    then obtain r where r: "snd (cut_top s) = Some r" "p = fst (cut_top s) \<or> p \<in> set (butlast (levels r))"
      using 1(2) by (auto simp: levels_Cons split: option.splits if_splits)
    then show ?thesis using c 1(1)[OF False r(1)] by auto
  qed (use 1(2) in simp)
qed

lemma parent_match_slash: "parent_match fs ps \<Longrightarrow> (\<And>p. p \<in> set (butlast ps) \<Longrightarrow> last p = SLASH) \<Longrightarrow> last (last fs) = SLASH"
proof (induction fs ps rule: parent_match.induct)
  case (1 f fs p ps)
  show ?case
  proof (cases "fs = []")
    case True
    have "p \<in> set (butlast (p # ps))" using 1(2) by simp
    then have "last p = SLASH" by (rule 1(3))
    then show ?thesis using 1(2) True by (auto simp: level_match_def)
  next
    case False
    then show ?thesis using 1 by auto
  qed
qed auto

section \<open>Properties\<close>

lemma sub_tree_nodes:
  assumes "tree_inv t T fs" "fits s"
  shows "\<exists>ms. sub_tree_topPUB t s send [] \<sigma> = send_all send ms \<sigma> \<and> distinct ms \<and> set ms \<subseteq> set_tree T \<and>
     (\<forall>f m. (f, m) \<in> set (tpaths (tsub t) T) \<longrightarrow>
        (topic_match f (levels s) \<longrightarrow> m \<in> set ms) \<and>
        (m \<in> set ms \<and> last (tsub t m) \<noteq> SLASH \<longrightarrow> topic_match f (levels s)))"
proof (intro exI conjI allI impI)
  have dT: "distinct (preorder T)" using assms(1) unfolding tree_inv_def by blast
  let ?ms = "vis (tsub t) T None (levels s)"
  show "sub_tree_topPUB t s send [] \<sigma> = send_all send ?ms \<sigma>" by (rule sub_tree_topPUB_vis[OF assms])
  show "distinct ?ms" by (rule vis_distinct[OF dT]) simp
  show "set ?ms \<subseteq> set_tree T" using vis_set[of "tsub t" T None "levels s"] by simp
  fix f m assume p: "(f, m) \<in> set (tpaths (tsub t) T)"
  show "m \<in> set ?ms" if "topic_match f (levels s)" by (rule vis_complete[OF p that])
  show "topic_match f (levels s)" if a: "m \<in> set ?ms \<and> last (tsub t m) \<noteq> SLASH"
  proof -
    obtain f' where f': "(f', m) \<in> set (tpaths (tsub t) T)" "topic_match f' (levels s) \<or> parent_match f' (levels s)"
      using vis_sound[OF conjunct1[OF a]] by auto
    then have e: "f' = f" using tpaths_unique[OF dT _ p] by blast
    have "\<not> parent_match f (levels s)"
    proof
      assume "parent_match f (levels s)"
      then have "last (last f) = SLASH" by (rule parent_match_slash) (rule levels_slash)
      then show False using tpaths_mem[OF p] a by simp
    qed
    then show ?thesis using f'(2) e by simp
  qed
qed

section \<open>The matching rule of the standard\<close>

text \<open>The levels of a topic name as section 4.7 of MQTT 3.1.1 has them: the strings between the slashes, which may
  be empty.\<close>

fun level_names :: "c8 list \<Rightarrow> c8 list list" where
  "level_names [] = [[]]"
| "level_names (c # cs) = (if c = SLASH then [] # level_names cs else (c # hd (level_names cs)) # tl (level_names cs))"

text \<open>The rule of section 4.7.1: \<open>+\<close> stands for any one level and \<open>#\<close> for any number of them, none included, so that
  \<open>a/#\<close> matches \<open>a\<close> as well. Section 4.7.2 adds that a filter that begins with a wildcard does not match a topic that
  begins with \<open>$\<close>.\<close>

fun names_match :: "c8 list list \<Rightarrow> c8 list list \<Rightarrow> bool" where
  "names_match [] ps = (ps = [])"
| "names_match (f # fs) ps = (f = [HASH] \<and> fs = [] \<or> (case ps of [] \<Rightarrow> False | p # ps' \<Rightarrow> (f = [PLUS] \<or> f = p) \<and> names_match fs ps'))"

definition mqtt_match :: "c8 list \<Rightarrow> c8 list \<Rightarrow> bool" where
  "mqtt_match flt tpc \<longleftrightarrow> names_match (level_names flt) (level_names tpc) \<and>
     \<not> ((take 1 flt = [PLUS] \<or> take 1 flt = [HASH]) \<and> take 1 tpc = [0x24])"

text \<open>Levels are the names with a slash behind all but the last one.\<close>

fun slashed :: "c8 list list \<Rightarrow> c8 list list" where
  "slashed [] = []"
| "slashed [n] = [n]"
| "slashed (n # m # ns) = (n @ [SLASH]) # slashed (m # ns)"

lemma level_names_nempty [simp]: "level_names s \<noteq> []"
  by (cases s) auto

lemma level_names_slash: "n \<in> set (level_names s) \<Longrightarrow> SLASH \<notin> set n"
proof (induction s arbitrary: n)
  case (Cons c cs)
  then show ?case by (cases "level_names cs") (auto split: if_splits)
qed simp

lemma level_names_last: "s \<noteq> [] \<Longrightarrow> last s \<noteq> SLASH \<Longrightarrow> last (level_names s) \<noteq> []"
proof (induction s)
  case (Cons c cs)
  show ?case
  proof (cases "cs = []")
    case True
    then show ?thesis using Cons.prems by simp
  next
    case False
    then have "last (level_names cs) \<noteq> []" using Cons by simp
    then show ?thesis by (cases "level_names cs") (auto split: if_splits)
  qed
qed simp

lemma levels_names: "s \<noteq> [] \<Longrightarrow> last s \<noteq> SLASH \<Longrightarrow> levels s = slashed (level_names s)"
proof (induction s)
  case (Cons c cs)
  show ?case
  proof (cases "cs = []")
    case True
    then show ?thesis using Cons.prems by (simp add: levels_Cons Let_def)
  next
    case False
    then have ih: "levels cs = slashed (level_names cs)" using Cons by simp
    obtain n ns where n: "level_names cs = n # ns" by (cases "level_names cs") auto
    show ?thesis
    proof (cases "c = SLASH")
      case True
      then show ?thesis using ih n False by (simp add: levels_Cons)
    next
      case c: False
      have "levels (c # cs) = (c # hd (levels cs)) # tl (levels cs)"
        using False c by (simp add: levels_Cons Let_def split_beta)
      then show ?thesis using ih n c by (cases ns) simp_all
    qed
  qed
qed simp

lemma slashed_nempty [simp]: "slashed ns = [] \<longleftrightarrow> ns = []"
  by (cases ns rule: slashed.cases) auto

text \<open>For filters and topics that do not end in a slash, as all do after \<open>proc_forward_slash\<close> but the topic \<open>/\<close>, the search
  decides the rule of section 4.7.1, with the one exception that \<open>#\<close> wants at least one level.\<close>

lemma slashed_match:
  assumes "last fs \<noteq> []" "last ps \<noteq> []" "\<forall>f \<in> set fs. SLASH \<notin> set f" "\<forall>p \<in> set ps. SLASH \<notin> set p" "fs \<noteq> []" "ps \<noteq> []"
  shows "topic_match (slashed fs) (slashed ps) \<longleftrightarrow> names_match fs ps \<and> length fs \<le> length ps"
  using assms
proof (induction fs arbitrary: ps rule: slashed.induct)
  case (2 f)
  then obtain p ps' where p: "ps = p # ps'" by (cases ps) auto
  have s: "SLASH \<notin> set f" using 2(3) by simp
  show ?case
  proof (cases ps')
    case Nil
    then show ?thesis using p by (auto simp: level_match_def)
  next
    case (Cons p' qs)
    then show ?thesis using p s by (auto simp: level_match_def)
  qed
next
  case (3 f f' fs)
  obtain p ps' where p: "ps = p # ps'" using 3(7) by (cases ps) auto
  show ?case
  proof (cases ps')
    case Nil
    then show ?thesis using p by (simp add: level_match_def)
  next
    case (Cons p' qs)
    have ih: "topic_match (slashed (f' # fs)) (slashed (p' # qs)) \<longleftrightarrow> names_match (f' # fs) (p' # qs) \<and> length (f' # fs) \<le> length (p' # qs)"
      by (rule 3(1)) (use 3(2-7) p Cons in auto)
    show ?thesis using ih unfolding p Cons by (auto simp: level_match_def)
  qed
qed simp

lemma topic_match_names:
  assumes "flt \<noteq> []" "last flt \<noteq> SLASH" "tpc \<noteq> []" "last tpc \<noteq> SLASH"
  shows "topic_match (levels flt) (levels tpc) \<longleftrightarrow>
     names_match (level_names flt) (level_names tpc) \<and> length (level_names flt) \<le> length (level_names tpc)"
  unfolding levels_names[OF assms(1,2)] levels_names[OF assms(3,4)]
  by (rule slashed_match) (use level_names_last[OF assms(1,2)] level_names_last[OF assms(3,4)] level_names_slash in auto)

lemma last_levels:
  assumes s: "s \<noteq> []"
  shows "last (last (levels s)) = last s"
proof -
  have "levels s \<noteq> []" using s by simp
  moreover have "last (levels s) \<noteq> []" using wf_levels[OF last_in_set[OF calculation]] by (simp add: wf_level_def)
  ultimately have "last (concat (levels s)) = last (last (levels s))" by (cases "levels s" rule: rev_cases) auto
  then show ?thesis by (simp add: concat_levels)
qed

lemma tpaths_last: "(fs, m) \<in> set (tpaths sub T) \<Longrightarrow> fs \<noteq> [] \<and> last fs = sub m"
  by (induction T arbitrary: fs) auto

text \<open>
  C4: which subscriptions a publication reaches. For every topic whose levels
  fit a node, the search of \<open>proc_sub_tree_topPUB\<close> ends without overflowing its stack and
  calls \<open>leaf_msg_send\<close> once for each node of a list \<open>ms\<close> without repetitions; a node whose
  topic filter matches level by level is in the list,
  and a node in the list matches unless its own filter ends in \<open>/\<close>. In terms of the standard, for filters and topics
  that do not end in \<open>/\<close>: the node of a filter is reached if and only if the filter matches by section 4.7.1 of MQTT 3.1.1
  and has no more levels than the topic. So \<open>a/#\<close> does not reach the topic \<open>a\<close> by itself (\<open>proc_sub_ml_wildcard\<close>
  enters the parent \<open>a\<close> at the subscription instead), and, against section 4.7.2, a filter that begins with a wildcard
  does reach topics that begin with \<open>$\<close>: a filter that matches by the whole rule \<open>mqtt_match\<close> and has no more levels than the
  topic is reached, and the converse needs a topic without \<open>$\<close> in front or a filter without a wildcard in front.
\<close>

theorem publish_reaches_matching:
  assumes "tree_inv t T fs" "fits s"
  shows "\<exists>ms. sub_tree_topPUB t s send [] \<sigma> = send_all send ms \<sigma> \<and> distinct ms \<and> set ms \<subseteq> set_tree T \<and>
     (\<forall>f m. (f, m) \<in> set (tpaths (tsub t) T) \<longrightarrow>
        (topic_match f (levels s) \<longrightarrow> m \<in> set ms) \<and>
        (m \<in> set ms \<and> last (tsub t m) \<noteq> SLASH \<longrightarrow> topic_match f (levels s))) \<and>
     (\<forall>flt m. (levels flt, m) \<in> set (tpaths (tsub t) T) \<and> last flt \<noteq> SLASH \<and> last s \<noteq> SLASH \<longrightarrow>
        (m \<in> set ms \<longleftrightarrow> names_match (level_names flt) (level_names s) \<and> length (level_names flt) \<le> length (level_names s)) \<and>
        (take 1 flt \<notin> {[PLUS], [HASH]} \<or> take 1 s \<noteq> [0x24] \<longrightarrow>
          (m \<in> set ms \<longleftrightarrow> mqtt_match flt s \<and> length (level_names flt) \<le> length (level_names s))))"
proof -
  obtain ms where ms: "sub_tree_topPUB t s send [] \<sigma> = send_all send ms \<sigma>" "distinct ms" "set ms \<subseteq> set_tree T"
    and m: "\<forall>f m. (f, m) \<in> set (tpaths (tsub t) T) \<longrightarrow>
        (topic_match f (levels s) \<longrightarrow> m \<in> set ms) \<and> (m \<in> set ms \<and> last (tsub t m) \<noteq> SLASH \<longrightarrow> topic_match f (levels s))"
    using sub_tree_nodes[OF assms, of send \<sigma>] by blast
  have "m \<in> set ms \<longleftrightarrow> names_match (level_names flt) (level_names s) \<and> length (level_names flt) \<le> length (level_names s)"
    if a: "(levels flt, m) \<in> set (tpaths (tsub t) T)" "last flt \<noteq> SLASH" "last s \<noteq> SLASH" for flt m
  proof -
    have ne: "flt \<noteq> []" "s \<noteq> []" using tpaths_last[OF a(1)] assms(2) by (auto simp: fits_def)
    have "last (tsub t m) \<noteq> SLASH" using tpaths_last[OF a(1)] last_levels[OF ne(1)] a(2) by simp
    then have "m \<in> set ms \<longleftrightarrow> topic_match (levels flt) (levels s)" using m a(1) by blast
    then show ?thesis unfolding topic_match_names[OF ne(1) a(2) ne(2) a(3)] .
  qed
  then show ?thesis using ms m by (intro exI[of _ ms]) (auto simp: mqtt_match_def)
qed

theorem publish_reaches_matching_witness:
  "\<exists>n t. topic_node_create sample_tree topic_a = Some (Some n, t) \<and>
     sub_tree_topPUB t topic_a (\<lambda>m ms. Some (m # ms)) [] [] = Some [n]"
proof -
  obtain n t fs where c: "topic_node_create sample_tree topic_a = Some (Some n, t)" "tree_inv t (hchain [n]) fs"
    "tsub t n = [0x61]" using sample_one by blast
  obtain ms where ms: "sub_tree_topPUB t topic_a (\<lambda>m ms. Some (m # ms)) [] [] = send_all (\<lambda>m ms. Some (m # ms)) ms []"
    "distinct ms" "set ms \<subseteq> set_tree (hchain [n])"
    "\<forall>f m. (f, m) \<in> set (tpaths (tsub t) (hchain [n])) \<longrightarrow> topic_match f (levels topic_a) \<longrightarrow> m \<in> set ms"
    using publish_reaches_matching[OF c(2) sample_levels(4)] by metis
  have "n \<in> set ms" using ms(4) c(3) by (simp add: sample_levels level_match_def)
  then have "set ms = {n}" using ms(3) by auto
  then have "ms = [n]" using ms(2) by (cases ms; cases "tl ms") auto
  then show ?thesis using c(1) ms(1) by (auto intro!: exI[of _ n] exI[of _ t])
qed

end
