(* ===== verification/ServerEnv.thy ===== *)
theory ServerEnv
  imports MqttWire
begin

text \<open>
  What the broker calls and the sources under \<open>netapps/mqtt/server\<close> do not define: the network
  services (\<open>struct device_net_services\<close>), \<open>malloc\<close>, and the call-backs of the application.
  They are the fields of the record \<open>broker_env\<close>, an argument of the definitions that use
  them. Every answer may depend on the history of all earlier calls, the list of events (latest
  first). The call-backs of the application do not call back into the broker.
\<close>

datatype event =
    EvSend i32 "u8 list" i32            \<comment> \<open>\<open>send(net, buf)\<close> and its return value\<close>
  | EvTrigger i32                       \<comment> \<open>\<open>send_dest\<close> on the loopback port\<close>
  | EvClose i32
  | EvOpen i32
  | EvListen i32
  | EvIoMon i32
  | EvAccept i32
  | EvRecv i32
  | EvTime u32
  | EvMalloc nat bool                   \<comment> \<open>bytes requested, granted?\<close>
  | EvPlugConnect nat "c8 list option" "c8 list option" "c8 list option"
  | EvPlugPublish nat "c8 list" "u8 list" bool u8 bool
  | EvPlugDisconn nat ptr bool

type_synonym trace = "event list"

record broker_env =
  e_send :: "trace \<Rightarrow> i32 \<Rightarrow> u8 list \<Rightarrow> i32"
  e_send_dest :: "trace \<Rightarrow> i32 \<Rightarrow> i32"
  e_open :: "trace \<Rightarrow> u16 \<Rightarrow> i32"
  e_listen :: "trace \<Rightarrow> u16 \<Rightarrow> i32"
  e_io_mon :: "trace \<Rightarrow> i32 list \<Rightarrow> u32 \<Rightarrow> i32 \<times> i32 list"
  e_accept :: "trace \<Rightarrow> i32 \<Rightarrow> i32 \<times> u8 list \<times> u32"
  e_recv_from :: "trace \<Rightarrow> i32 \<Rightarrow> i32"
  e_recv :: "trace \<Rightarrow> i32 \<Rightarrow> nat \<Rightarrow> i32 \<times> u8 list"
  e_time :: "trace \<Rightarrow> u32"
  e_malloc :: "trace \<Rightarrow> nat \<Rightarrow> bool"
  e_connect :: "trace \<Rightarrow> nat \<Rightarrow> c8 list option \<Rightarrow> c8 list option \<Rightarrow> c8 list option \<Rightarrow> u16 \<times> ptr"

text \<open>The packets put on the network, oldest first, with the return values.\<close>

fun sends :: "trace \<Rightarrow> (i32 \<times> u8 list \<times> i32) list" where
  "sends [] = []"
| "sends (EvSend net buf rv # tr) = sends tr @ [(net, buf, rv)]"
| "sends (_ # tr) = sends tr"

end
