(* ===== verification/ServerPlug.thy ===== *)
theory ServerPlug
  imports ServerEnv
begin

text \<open>
  The plug-in module of the broker (\<open>netapps/mqtt/server/server_plug.[ch]\<close>): the table of the
  registered applications, the plug-in that controls access, and the maps of two bits per
  plug-in in which a topic node records who enrolled with which QoS.
\<close>

section \<open>The map of enrolled plug-ins\<close>

definition PG_MAP_BITS_SIZE :: nat where "PG_MAP_BITS_SIZE = 2"
definition PG_MAP_MAX_ELEMS :: nat where "PG_MAP_MAX_ELEMS = 4"
abbreviation PG_MAP_BITS_MASK :: u8 where "PG_MAP_BITS_MASK \<equiv> 0x3"

definition PG_MAP_HAS_VALUE :: "u8 \<Rightarrow> nat \<Rightarrow> bool" where
  "PG_MAP_HAS_VALUE pg_map index \<longleftrightarrow> drop_bit (index * PG_MAP_BITS_SIZE) (NOT pg_map) AND PG_MAP_BITS_MASK \<noteq> 0"

definition PG_MAP_VAL_SETUP :: "u8 \<Rightarrow> u8 \<Rightarrow> nat \<Rightarrow> u8" where
  "PG_MAP_VAL_SETUP pg_map qid index =
     (let ofst = index * PG_MAP_BITS_SIZE in
      (pg_map AND NOT (push_bit ofst PG_MAP_BITS_MASK)) OR push_bit ofst qid)"

definition PG_MAP_VAL_RESET :: "u8 \<Rightarrow> nat \<Rightarrow> u8" where
  "PG_MAP_VAL_RESET pg_map index = pg_map OR push_bit (index * PG_MAP_BITS_SIZE) PG_MAP_BITS_MASK"

section \<open>Plug-ins\<close>

definition MAX_PLUGINS :: nat where "MAX_PLUGINS = PG_MAP_MAX_ELEMS"
definition PG_NAME_LEN :: nat where "PG_NAME_LEN = 32"

text \<open>
  The call-backs of an application; the functions themselves are in the environment, here is
  which of the pointers are not \<open>NULL\<close>.
\<close>

record app_cbs =
  cb_connect :: bool
  cb_publish :: bool
  cb_disconn :: bool

text \<open>\<open>pl_name\<close>: the memory \<open>name\<close> points to, \<open>None\<close> for \<open>NULL\<close>.\<close>

record plugin_desc =
  pl_name :: "c8 list option"
  pl_index :: u8
  pl_inuse :: u8
  pl_cbs :: app_cbs

record plug_state =
  plugins :: "plugin_desc list"
  acl_pg :: ptr
  msg_cbs :: bool       \<comment> \<open>the pointer \<open>msg_cbs\<close> is set\<close>
  pg_inited :: bool

definition is_inuse :: "plugin_desc \<Rightarrow> bool" where
  "is_inuse p \<longleftrightarrow> pl_inuse p \<noteq> 0"

definition inuse_set :: "bool \<Rightarrow> plugin_desc \<Rightarrow> plugin_desc" where
  "inuse_set inuse p = p\<lparr>pl_inuse := (if inuse then 0x01 else 0x00)\<rparr>"

definition plugin_find :: "plug_state \<Rightarrow> nat \<Rightarrow> plugin_desc option" where
  "plugin_find ps idx = buf_get (plugins ps) idx"

definition plugin_reset :: "plugin_desc \<Rightarrow> plugin_desc" where
  "plugin_reset p = inuse_set False p"

text \<open>The loop of \<open>plugin_alloc\<close> from index \<open>idx\<close>.\<close>

function plugin_alloc_loop :: "plug_state \<Rightarrow> nat \<Rightarrow> (ptr \<times> plug_state) option" where
  "plugin_alloc_loop ps idx =
     (if idx < MAX_PLUGINS then do {
        p \<leftarrow> plugin_find ps idx;
        if \<not> is_inuse p then Some (Some idx, ps\<lparr>plugins := (plugins ps)[idx := inuse_set True p]\<rparr>)
        else plugin_alloc_loop ps (Suc idx) }
      else Some (None, ps))"
  by pat_completeness auto
termination by (relation "measure (\<lambda>(_, idx). MAX_PLUGINS - idx)") auto

declare plugin_alloc_loop.simps [simp del]

definition plugin_alloc :: "plug_state \<Rightarrow> (ptr \<times> plug_state) option" where
  "plugin_alloc ps = plugin_alloc_loop ps 0"

text \<open>\<open>plugin_connect\<close>: the CONNACK value and the handle of the application.\<close>

definition plugin_connect :: "broker_env \<Rightarrow> plug_state \<Rightarrow> c8 list option \<Rightarrow> c8 list option \<Rightarrow> c8 list option \<Rightarrow>
    trace \<Rightarrow> (u16 \<times> ptr \<times> trace) option" where
  "plugin_connect env ps clientId username password tr =
     (case acl_pg ps of
        None \<Rightarrow> Some (0x00, None, tr)
      | Some i \<Rightarrow> do {
          p \<leftarrow> plugin_find ps i;
          if \<not> cb_connect (pl_cbs p) then None
          else let (rv, app) = e_connect env tr i clientId username password
               in Some (rv, app, EvPlugConnect i clientId username password # tr) })"

fun plugin_publish_loop :: "plug_state \<Rightarrow> u8 \<Rightarrow> c8 list \<Rightarrow> u8 list \<Rightarrow> bool \<Rightarrow> u8 \<Rightarrow> bool \<Rightarrow> nat list \<Rightarrow> trace \<Rightarrow> trace option" where
  "plugin_publish_loop ps pg_map tp payload dup qos retain [] tr = Some tr"
| "plugin_publish_loop ps pg_map tp payload dup qos retain (i # is) tr = do {
     tr \<leftarrow> (if PG_MAP_HAS_VALUE pg_map i then do {
              p \<leftarrow> plugin_find ps i;
              if \<not> is_inuse p then Some tr
              else if \<not> cb_publish (pl_cbs p) then None
              else Some (EvPlugPublish i tp payload dup qos retain # tr) }
            else Some tr);
     plugin_publish_loop ps pg_map tp payload dup qos retain is tr }"

definition plugin_publish :: "plug_state \<Rightarrow> u8 \<Rightarrow> c8 list \<Rightarrow> u8 list \<Rightarrow> bool \<Rightarrow> u8 \<Rightarrow> bool \<Rightarrow> trace \<Rightarrow> trace option" where
  "plugin_publish ps pg_map tp payload dup qos retain tr =
     plugin_publish_loop ps pg_map tp payload dup qos retain [0..<MAX_PLUGINS] tr"

definition plugin_disconn :: "plug_state \<Rightarrow> ptr \<Rightarrow> bool \<Rightarrow> trace \<Rightarrow> trace option" where
  "plugin_disconn ps app_usr due2err tr =
     (case acl_pg ps of
        None \<Rightarrow> Some tr
      | Some i \<Rightarrow> do {
          p \<leftarrow> plugin_find ps i;
          if \<not> cb_disconn (pl_cbs p) then None else Some (EvPlugDisconn i app_usr due2err # tr) })"

definition server_app_register :: "plug_state \<Rightarrow> app_cbs \<Rightarrow> c8 list \<Rightarrow> (ptr \<times> plug_state) option" where
  "server_app_register ps cbs name = do {
     (plugin, ps) \<leftarrow> plugin_alloc ps;
     case plugin of
       None \<Rightarrow> Some (None, ps)
     | Some i \<Rightarrow> do {
         p \<leftarrow> plugin_find ps i;
         dst \<leftarrow> pl_name p;
         dst \<leftarrow> strncpy dst 0 name (PG_NAME_LEN - 1);
         let ps = ps\<lparr>plugins := (plugins ps)[i := p\<lparr>pl_name := Some dst, pl_cbs := cbs\<rparr>]\<rparr>;
         Some (Some i, if acl_pg ps = None \<and> cb_connect cbs then ps\<lparr>acl_pg := Some i\<rparr> else ps) } }"

text \<open>\<open>cbs\<close>: \<open>None\<close> for a \<open>NULL\<close> argument.\<close>

definition mqtt_server_app_register :: "plug_state \<Rightarrow> app_cbs option \<Rightarrow> c8 list \<Rightarrow> (ptr \<times> plug_state) option" where
  "mqtt_server_app_register ps cbs name =
     (case cbs of
        None \<Rightarrow> Some (None, ps)
      | Some cbs \<Rightarrow>
          if cb_connect cbs \<noteq> cb_disconn cbs \<or> acl_pg ps \<noteq> None \<and> cb_connect cbs then Some (None, ps)
          else server_app_register ps cbs name)"

text \<open>
  \<open>plugin_init\<close>: \<open>cbs\<close> says which of the three functions are set (\<open>None\<close> for a \<open>NULL\<close>
  argument); the core passes all three.
\<close>

definition plugin_init :: "plug_state \<Rightarrow> (bool \<times> bool \<times> bool) option \<Rightarrow> i32 \<times> plug_state" where
  "plugin_init ps cbs =
     (if pg_inited ps then (- 1, ps)
      else case cbs of
        None \<Rightarrow> (- 2, ps)
      | Some (topic_enroll, topic_cancel, publish) \<Rightarrow>
          if \<not> (topic_enroll \<and> topic_cancel \<and> publish) then (- 3, ps)
          else (0, ps\<lparr>plugins := map (\<lambda>(i, p). plugin_reset (p\<lparr>pl_index := of_nat i\<rparr>)) (enumerate 0 (plugins ps)),
                      msg_cbs := True, pg_inited := True\<rparr>))"

section \<open>Properties\<close>

lemma pg_shift: "i < 4 \<Longrightarrow> i * PG_MAP_BITS_SIZE = 0 \<or> i * PG_MAP_BITS_SIZE = 2 \<or> i * PG_MAP_BITS_SIZE = 4 \<or> i * PG_MAP_BITS_SIZE = 6"
  by (auto simp: PG_MAP_BITS_SIZE_def numeral_eq_Suc less_Suc_eq)

text \<open>The two bits of plug-in \<open>i\<close>.\<close>

lemma pg_has_bits:
  assumes "i < 4"
  shows "PG_MAP_HAS_VALUE m i \<longleftrightarrow> \<not> bit m (2 * i) \<or> \<not> bit m (2 * i + 1)"
proof -
  have "x AND PG_MAP_BITS_MASK \<noteq> 0 \<longleftrightarrow> bit x 0 \<or> bit x 1" for x :: u8
  proof -
    have "x AND PG_MAP_BITS_MASK = 0 \<longleftrightarrow> (\<forall>n. bit x n \<longrightarrow> \<not> n < 2)"
      unfolding masks
      apply (auto simp: bit_eq_iff bit_simps)
      subgoal for n by (drule spec[of _ n]) simp
      done
    then show ?thesis by (auto simp: numeral_2_eq_2 less_Suc_eq)
  qed
  then show ?thesis using assms
    by (simp add: PG_MAP_HAS_VALUE_def PG_MAP_BITS_SIZE_def bit_simps mult.commute add.commute)
qed

lemma pg_setup_has:
  assumes "i < 4" "j < 4" "unat qid < 4"
  shows "PG_MAP_HAS_VALUE (PG_MAP_VAL_SETUP m qid i) j \<longleftrightarrow> (if j = i then qid \<noteq> 3 else PG_MAP_HAS_VALUE m j)"
proof -
  have b: "bit (PG_MAP_VAL_SETUP m qid i) n \<longleftrightarrow> bit m n \<and> \<not> (2 * i \<le> n \<and> n < 2 * i + 2) \<or> 2 * i \<le> n \<and> bit qid (n - 2 * i)"
    if "n < 8" for n
    using that by (auto simp: PG_MAP_VAL_SETUP_def Let_def PG_MAP_BITS_SIZE_def masks bit_simps mult.commute)
  have q: "\<not> bit qid n" if "2 \<le> n" for n using bit_less_exp[of qid 2 n] assms(3) that by simp
  have q3: "qid \<noteq> 3 \<longleftrightarrow> \<not> bit qid 0 \<or> \<not> bit qid 1"
    using u8_less_4[OF assms(3)] by (elim disjE) (simp_all add: bit_1_iff)
  consider "j = i" | "j < i" | "i < j" by linarith
  then show ?thesis
  proof cases
    case 1
    then show ?thesis using assms(1) q3 by (simp add: pg_has_bits b)
  next
    case 2
    then show ?thesis using assms by (simp add: pg_has_bits b)
  next
    case 3
    then have "\<not> bit qid (2 * j - 2 * i)" "\<not> bit qid (2 * j + 1 - 2 * i)" by (intro q; simp)+
    then show ?thesis using assms 3 by (auto simp: pg_has_bits b)
  qed
qed

lemma pg_reset_has:
  assumes "i < 4" "j < 4"
  shows "PG_MAP_HAS_VALUE (PG_MAP_VAL_RESET m i) j \<longleftrightarrow> j \<noteq> i \<and> PG_MAP_HAS_VALUE m j"
proof -
  have b: "bit (PG_MAP_VAL_RESET m i) n \<longleftrightarrow> bit m n \<or> 2 * i \<le> n \<and> n < 2 * i + 2" if "n < 8" for n
    using that by (auto simp: PG_MAP_VAL_RESET_def PG_MAP_BITS_SIZE_def masks bit_simps mult.commute)
  show ?thesis using assms by (cases "j = i") (auto simp: pg_has_bits b)
qed

definition plug_ok :: "plug_state \<Rightarrow> bool" where
  "plug_ok ps \<longleftrightarrow> length (plugins ps) = MAX_PLUGINS \<and> (\<forall>p \<in> set (plugins ps). is_inuse p \<longrightarrow> cb_publish (pl_cbs p))"

lemma plugin_publish_loop_eq:
  "plug_ok ps \<Longrightarrow> \<forall>i \<in> set is. i < MAX_PLUGINS \<Longrightarrow>
   plugin_publish_loop ps m tp payload dup qos retain is tr =
     Some (rev (map (\<lambda>i. EvPlugPublish i tp payload dup qos retain)
             (filter (\<lambda>i. PG_MAP_HAS_VALUE m i \<and> is_inuse (plugins ps ! i)) is)) @ tr)"
proof (induction "is" arbitrary: tr)
  case (Cons i "is")
  then have "i < length (plugins ps)" "plugins ps ! i \<in> set (plugins ps)" by (auto simp: plug_ok_def)
  then show ?case using Cons by (auto simp: plugin_find_def mem_simps plug_ok_def)
qed simp

text \<open>
  C33: a publication reaches the plug-ins that are enrolled for the node, and only these. After
  plug-in \<open>i\<close> has enrolled with a QoS below 3, \<open>plugin_publish\<close> calls the publish function of
  every plug-in in use that is \<open>i\<close> or was enrolled before, once each and in ascending order;
  after \<open>i\<close> has cancelled, of those other than \<open>i\<close> that were enrolled before.
\<close>

theorem plugin_enroll_publish:
  assumes "plug_ok ps" "i < MAX_PLUGINS" "unat qid < 3"
  shows "plugin_publish ps (PG_MAP_VAL_SETUP m qid i) tp payload dup qos retain tr =
      Some (rev (map (\<lambda>j. EvPlugPublish j tp payload dup qos retain)
        (filter (\<lambda>j. (j = i \<or> PG_MAP_HAS_VALUE m j) \<and> is_inuse (plugins ps ! j)) [0..<MAX_PLUGINS])) @ tr) \<and>
    plugin_publish ps (PG_MAP_VAL_RESET m i) tp payload dup qos retain tr =
      Some (rev (map (\<lambda>j. EvPlugPublish j tp payload dup qos retain)
        (filter (\<lambda>j. j \<noteq> i \<and> PG_MAP_HAS_VALUE m j \<and> is_inuse (plugins ps ! j)) [0..<MAX_PLUGINS])) @ tr)"
proof -
  have i: "i < 4" and q: "unat qid < 4" "qid \<noteq> 3"
    using assms(2,3) by (auto simp: MAX_PLUGINS_def PG_MAP_MAX_ELEMS_def)
  have s: "j < MAX_PLUGINS \<Longrightarrow> PG_MAP_HAS_VALUE (PG_MAP_VAL_SETUP m qid i) j \<longleftrightarrow> j = i \<or> PG_MAP_HAS_VALUE m j"
    "j < MAX_PLUGINS \<Longrightarrow> PG_MAP_HAS_VALUE (PG_MAP_VAL_RESET m i) j \<longleftrightarrow> j \<noteq> i \<and> PG_MAP_HAS_VALUE m j" for j
    using pg_setup_has[OF i _ q(1)] pg_reset_has[OF i] q(2) by (simp_all add: MAX_PLUGINS_def PG_MAP_MAX_ELEMS_def)
  have f: "filter (\<lambda>j. PG_MAP_HAS_VALUE (PG_MAP_VAL_SETUP m qid i) j \<and> is_inuse (plugins ps ! j)) [0..<MAX_PLUGINS] =
      filter (\<lambda>j. (j = i \<or> PG_MAP_HAS_VALUE m j) \<and> is_inuse (plugins ps ! j)) [0..<MAX_PLUGINS]"
    "filter (\<lambda>j. PG_MAP_HAS_VALUE (PG_MAP_VAL_RESET m i) j \<and> is_inuse (plugins ps ! j)) [0..<MAX_PLUGINS] =
      filter (\<lambda>j. j \<noteq> i \<and> PG_MAP_HAS_VALUE m j \<and> is_inuse (plugins ps ! j)) [0..<MAX_PLUGINS]"
    by (rule filter_cong; simp add: s)+
  have 1: "plugin_publish ps (PG_MAP_VAL_SETUP m qid i) tp payload dup qos retain tr =
      Some (rev (map (\<lambda>j. EvPlugPublish j tp payload dup qos retain)
        (filter (\<lambda>j. (j = i \<or> PG_MAP_HAS_VALUE m j) \<and> is_inuse (plugins ps ! j)) [0..<MAX_PLUGINS])) @ tr)"
    unfolding plugin_publish_def by (subst plugin_publish_loop_eq[OF assms(1)]) (simp_all add: f)
  have 2: "plugin_publish ps (PG_MAP_VAL_RESET m i) tp payload dup qos retain tr =
      Some (rev (map (\<lambda>j. EvPlugPublish j tp payload dup qos retain)
        (filter (\<lambda>j. j \<noteq> i \<and> PG_MAP_HAS_VALUE m j \<and> is_inuse (plugins ps ! j)) [0..<MAX_PLUGINS])) @ tr)"
    unfolding plugin_publish_def by (subst plugin_publish_loop_eq[OF assms(1)]) (simp_all add: f)
  show ?thesis using 1 2 by blast
qed

definition sample_cbs :: app_cbs where
  "sample_cbs = \<lparr>cb_connect = False, cb_publish = True, cb_disconn = False\<rparr>"

definition sample_plugin :: "nat \<Rightarrow> u8 \<Rightarrow> plugin_desc" where
  "sample_plugin i inuse = \<lparr>pl_name = None, pl_index = of_nat i, pl_inuse = inuse, pl_cbs = sample_cbs\<rparr>"

definition sample_plugs :: plug_state where
  "sample_plugs = \<lparr>plugins = [sample_plugin 0 1, sample_plugin 1 0, sample_plugin 2 1, sample_plugin 3 0],
     acl_pg = None, msg_cbs = True, pg_inited = True\<rparr>"

theorem plugin_enroll_publish_witness:
  "plugin_publish sample_plugs (PG_MAP_VAL_SETUP 0xFF 1 2) [0x61] [7] False 1 False [] =
     Some [EvPlugPublish 2 [0x61] [7] False 1 False]"
proof -
  have ok: "plug_ok sample_plugs"
    by (simp add: plug_ok_def sample_plugs_def sample_plugin_def sample_cbs_def MAX_PLUGINS_def PG_MAP_MAX_ELEMS_def)
  have m: "(0xFF :: u8) = mask 8" by (simp add: mask_eq_exp_minus_1)
  have pg_none: "\<not> PG_MAP_HAS_VALUE 0xFF j" if "j < 4" for j using that by (simp add: pg_has_bits m bit_simps)
  have e: "filter (\<lambda>j. (j = 2 \<or> PG_MAP_HAS_VALUE 0xFF j) \<and> is_inuse (plugins sample_plugs ! j)) [0..<MAX_PLUGINS] = [2]"
    by (simp add: MAX_PLUGINS_def PG_MAP_MAX_ELEMS_def upt_rec numeral_eq_Suc pg_none sample_plugs_def sample_plugin_def is_inuse_def)
  show ?thesis
    using plugin_enroll_publish[OF ok, where i = 2 and qid = 1 and m = "0xFF" and tp = "[0x61]" and payload = "[7]"
        and dup = False and qos = 1 and retain = False and tr = "[]"]
    by (simp add: e) (simp add: MAX_PLUGINS_def PG_MAP_MAX_ELEMS_def)
qed

text \<open>The slot an application gets: the first that is free.\<close>

lemma plugin_alloc_loop_eq:
  assumes "length (plugins ps) = MAX_PLUGINS" "i < MAX_PLUGINS" "\<not> is_inuse (plugins ps ! i)"
    "\<forall>j. idx \<le> j \<and> j < i \<longrightarrow> is_inuse (plugins ps ! j)" "idx \<le> i"
  shows "plugin_alloc_loop ps idx = Some (Some i, ps\<lparr>plugins := (plugins ps)[i := inuse_set True (plugins ps ! i)]\<rparr>)"
  using assms(4,5)
proof (induction "i - idx" arbitrary: idx)
  case 0
  then have "idx = i" by simp
  then show ?case using assms(1-3) by (subst plugin_alloc_loop.simps) (simp add: plugin_find_def mem_simps)
next
  case (Suc k)
  then have "idx < i" by simp
  moreover have "plugin_alloc_loop ps (Suc idx) = Some (Some i, ps\<lparr>plugins := (plugins ps)[i := inuse_set True (plugins ps ! i)]\<rparr>)"
    by (rule Suc(1)) (use Suc in auto)
  ultimately show ?case using assms(1,2) Suc(3) by (subst plugin_alloc_loop.simps) (simp add: plugin_find_def mem_simps)
qed

text \<open>
  The memory for the name of a plug-in is never provided: \<open>name\<close> is a pointer in a static
  structure that no code sets, and \<open>server_app_register\<close> copies 31 characters to where it
  points. Every registration that passes the checks of its arguments, with a free slot in the
  table, writes through \<open>NULL\<close>. With memory of at least 31 bytes in every slot the application
  gets the first free slot, its call-backs are stored, and it becomes the access control if it
  has a connect function.
\<close>

theorem app_register_name:
  assumes "length (plugins ps) = MAX_PLUGINS" "i < MAX_PLUGINS" "\<not> is_inuse (plugins ps ! i)"
    "\<forall>j < i. is_inuse (plugins ps ! j)" "cb_connect cbs = cb_disconn cbs" "acl_pg ps = None \<or> \<not> cb_connect cbs" "0 \<in> set name"
  shows "case pl_name (plugins ps ! i) of
      None \<Rightarrow> mqtt_server_app_register ps (Some cbs) name = None
    | Some mem \<Rightarrow> PG_NAME_LEN - 1 \<le> length mem \<longrightarrow>
        (\<exists>ps'. mqtt_server_app_register ps (Some cbs) name = Some (Some i, ps') \<and>
           is_inuse (plugins ps' ! i) \<and> pl_cbs (plugins ps' ! i) = cbs \<and>
           (\<forall>j < MAX_PLUGINS. j \<noteq> i \<longrightarrow> plugins ps' ! j = plugins ps ! j) \<and>
           acl_pg ps' = (if cb_connect cbs then Some i else acl_pg ps))"
proof -
  let ?p = "inuse_set True (plugins ps ! i)"
  let ?ps = "ps\<lparr>plugins := (plugins ps)[i := ?p]\<rparr>"
  have al: "plugin_alloc ps = Some (Some i, ?ps)"
    unfolding plugin_alloc_def by (rule plugin_alloc_loop_eq) (use assms(1-4) in auto)
  have fd: "plugin_find ?ps i = Some ?p" using assms(1,2) by (simp add: plugin_find_def mem_simps)
  have nm: "pl_name ?p = pl_name (plugins ps ! i)" by (simp add: inuse_set_def)
  have rg: "mqtt_server_app_register ps (Some cbs) name = server_app_register ps cbs name"
    using assms(5,6) by (auto simp: mqtt_server_app_register_def)
  show ?thesis
  proof (cases "pl_name (plugins ps ! i)")
    case None
    then show ?thesis unfolding rg by (simp add: server_app_register_def al fd nm)
  next
    case (Some mem)
    show ?thesis unfolding Some option.case
    proof (rule impI)
      assume "PG_NAME_LEN - 1 \<le> length mem"
      then obtain dst where dst: "strncpy mem 0 name (PG_NAME_LEN - 1) = Some dst"
        using assms(7) strncpy_Some[of "PG_NAME_LEN - 1" name 0 mem] by auto
      let ?ps2 = "?ps\<lparr>plugins := (plugins ?ps)[i := ?p\<lparr>pl_name := Some dst, pl_cbs := cbs\<rparr>]\<rparr>"
      have "server_app_register ps cbs name = Some (Some i, if acl_pg ps = None \<and> cb_connect cbs then ?ps2\<lparr>acl_pg := Some i\<rparr> else ?ps2)"
        by (simp only: server_app_register_def al fd nm Some dst Option.bind.bind_lunit prod.case option.case Let_def plug_state.simps) simp
      then show "\<exists>ps'. mqtt_server_app_register ps (Some cbs) name = Some (Some i, ps') \<and>
           is_inuse (plugins ps' ! i) \<and> pl_cbs (plugins ps' ! i) = cbs \<and>
           (\<forall>j < MAX_PLUGINS. j \<noteq> i \<longrightarrow> plugins ps' ! j = plugins ps ! j) \<and>
           acl_pg ps' = (if cb_connect cbs then Some i else acl_pg ps)"
        unfolding rg using assms(1,2,6) by (auto simp: is_inuse_def inuse_set_def)
    qed
  qed
qed

theorem app_register_name_witness:
  "mqtt_server_app_register sample_plugs (Some sample_cbs) [0x61, 0] = None"
proof -
  have "\<forall>j < 1. is_inuse (plugins sample_plugs ! j)" "\<not> is_inuse (plugins sample_plugs ! 1)"
    "length (plugins sample_plugs) = MAX_PLUGINS" "1 < MAX_PLUGINS" "acl_pg sample_plugs = None" "pl_name (plugins sample_plugs ! 1) = None"
    by (simp_all add: sample_plugs_def sample_plugin_def is_inuse_def MAX_PLUGINS_def PG_MAP_MAX_ELEMS_def)
  then show ?thesis using app_register_name[of sample_plugs 1 sample_cbs "[0x61, 0]"] by (simp add: sample_cbs_def)
qed

end
