(* ===== verification/Broker.thy ===== *)
theory Broker
  imports ServerPlug TopicSearch AckWlist Qos2Cq
begin

text \<open>
  The state of the broker and its packets: the static variables of the files under
  \<open>netapps/mqtt/server\<close> in one record, the allocation of packets (\<open>server_util.c\<close>) and the
  transmission half of \<open>server_pkts.c\<close>. A handle (\<open>void *\<close>) of a context, a user or a topic
  node is the index of the element in its static array.
\<close>

section \<open>State\<close>

text \<open>\<open>struct client_usr\<close> of \<open>client_mgmt.c\<close>. \<open>us_client_id\<close> is the text in the array
  \<open>client_id\<close>, at most \<open>MAX_CLIENT_ID_LEN\<close> characters.\<close>

record client_usr =
  us_ctx :: ptr
  us_app :: ptr
  us_will :: ptr
  us_index :: u32
  us_n_sub :: u32
  us_flags :: u32
  us_client_id :: "c8 list"
  us_qos2_rx_cq :: pub_qos2_cq
  us_qos2_tx_cq :: pub_qos2_cq

text \<open>\<open>b_fresh\<close> is the next address that \<open>malloc\<close> returns for a packet.\<close>

record broker =
  b_pool :: ctx_pool
  b_loopb_net :: i32
  b_loopback_port :: u16
  b_pending_trigs :: bool
  b_plug :: plug_state
  b_msg_id :: u16
  b_heap :: mqp_heap
  b_fresh :: nat
  b_users :: "client_usr list"
  b_ack1 :: mqtt_ack_wlist
  b_sess :: mqtt_ack_wlist
  b_tree :: topic_tree
  b_stack :: node_stack
  b_work_buf :: "c8 list"
  b_rx_mqp :: mqtt_packet
  b_net_ops :: bool          \<comment> \<open>the pointer \<open>net_ops\<close> is set\<close>
  b_listener_port :: u16
  b_listen_net :: i32
  b_trace :: trace

definition ctx_get :: "broker \<Rightarrow> nat \<Rightarrow> client_ctx option" where
  "ctx_get s c = contexts (b_pool s) c"

definition ctx_upd :: "(client_ctx \<Rightarrow> client_ctx) \<Rightarrow> nat \<Rightarrow> broker \<Rightarrow> broker option" where
  "ctx_upd f c s = do {
     cx \<leftarrow> ctx_get s c;
     Some (s\<lparr>b_pool := (b_pool s)\<lparr>contexts := (contexts (b_pool s))(c \<mapsto> f cx)\<rparr>\<rparr>) }"

definition log_ev :: "event \<Rightarrow> broker \<Rightarrow> broker" where
  "log_ev e s = s\<lparr>b_trace := e # b_trace s\<rparr>"

section \<open>Packets (server_util)\<close>

definition mqp_new_id_server :: "broker \<Rightarrow> u16 \<times> broker" where
  "mqp_new_id_server s = (b_msg_id s + 2, s\<lparr>b_msg_id := b_msg_id s + 2\<rparr>)"

definition MQP_SERVER_TX_LEN :: nat where [wire_consts]: "MQP_SERVER_TX_LEN = 1024"

text \<open>The size of \<open>struct mqtt_packet\<close> on the 32-bit target.\<close>

definition MQP_STRUCT_SZ :: nat where [wire_consts]: "MQP_STRUCT_SZ = 36"

text \<open>What \<open>malloc\<close> leaves in a packet before \<open>mqp_init\<close> is not used; here it is zero.\<close>

definition raw_packet :: mqtt_packet where
  "raw_packet = \<lparr>p_msg_type = 0, p_fh_byte1 = 0, p_msg_id = 0, p_n_refs = 0, p_offset = 0, p_fh_len = 0,
     p_vh_len = 0, p_pl_len = 0, p_private = 0, p_maxlen = 0,
     p_buffer = replicate (MQP_SERVER_TX_LEN - MQP_STRUCT_SZ) 0, p_free_hook = False, p_next = None\<rparr>"

definition server_mqp_alloc :: "broker_env \<Rightarrow> u8 \<Rightarrow> u32 \<Rightarrow> u8 \<Rightarrow> broker \<Rightarrow> ptr \<times> broker" where
  "server_mqp_alloc env msg_type buf_sz ofst s =
     (let buf_sz = buf_sz + ucast ofst in
      if of_nat MQP_SERVER_TX_LEN < of_nat MQP_STRUCT_SZ + buf_sz then (None, s)
      else let ok = e_malloc env (b_trace s) MQP_SERVER_TX_LEN;
               s = log_ev (EvMalloc MQP_SERVER_TX_LEN ok) s
           in if ok
              then (Some (b_fresh s),
                    s\<lparr>b_heap := (b_heap s)(b_fresh s \<mapsto>
                          (mqp_init raw_packet ofst)\<lparr>p_msg_type := msg_type, p_maxlen := buf_sz, p_free_hook := True\<rparr>),
                      b_fresh := Suc (b_fresh s)\<rparr>)
              else (None, s))"

definition mqp_server_alloc :: "broker_env \<Rightarrow> u8 \<Rightarrow> u32 \<Rightarrow> broker \<Rightarrow> ptr \<times> broker" where
  "mqp_server_alloc env msg_type buf_sz s = server_mqp_alloc env msg_type buf_sz (of_nat MAX_FH_LEN) s"

definition mqp_server_copy :: "broker_env \<Rightarrow> nat \<Rightarrow> broker \<Rightarrow> (ptr \<times> broker) option" where
  "mqp_server_copy env mqp s = do {
     m \<leftarrow> b_heap s mqp;
     let (cpy, s) = server_mqp_alloc env (p_msg_type m) (p_maxlen m) 0 s;
     case cpy of
       None \<Rightarrow> Some (None, s)
     | Some c \<Rightarrow> do {
         cm \<leftarrow> b_heap s c;
         b \<leftarrow> buf_wr_nbytes (p_buffer cm) 0 (p_buffer m) (unat (p_maxlen m));
         Some (Some c, s\<lparr>b_heap := (b_heap s)(c \<mapsto> m\<lparr>p_buffer := b\<rparr>)\<rparr>) } }"

text \<open>\<open>mqp_free\<close>: the packets of the broker come from \<open>malloc\<close>; their hook is \<open>my_pkt_free\<close>.\<close>

definition mqp_free :: "nat \<Rightarrow> broker \<Rightarrow> broker option" where
  "mqp_free mqp s = do {
     m \<leftarrow> b_heap s mqp;
     let (m, last) = free_mqp m;
     Some (s\<lparr>b_heap := (b_heap s)(mqp := (if last then None else Some m))\<rparr>) }"

section \<open>Transmission (server_pkts)\<close>

abbreviation NETWORK_CLOSE_FLAG :: u32 where "NETWORK_CLOSE_FLAG \<equiv> 0x00200000"
abbreviation NW_CONN_ERROR_FLAG :: u32 where "NW_CONN_ERROR_FLAG \<equiv> 0x00400000"
abbreviation RCVD_CONN_MSG_FLAG :: u32 where "RCVD_CONN_MSG_FLAG \<equiv> 0x00800000"

definition NEED_NET_CLOSE :: "client_ctx \<Rightarrow> bool" where
  "NEED_NET_CLOSE cx \<longleftrightarrow> cx_flags cx AND NETWORK_CLOSE_FLAG \<noteq> 0"

definition had_rcvd_conn_msg :: "client_ctx \<Rightarrow> bool" where
  "had_rcvd_conn_msg cx \<longleftrightarrow> cx_flags cx AND RCVD_CONN_MSG_FLAG \<noteq> 0"

definition set_rcvd_conn_msg :: "client_ctx \<Rightarrow> client_ctx" where
  "set_rcvd_conn_msg cx = cx\<lparr>cx_flags := cx_flags cx OR RCVD_CONN_MSG_FLAG\<rparr>"

definition loopb_trigger :: "broker_env \<Rightarrow> broker \<Rightarrow> i32 \<times> broker" where
  "loopb_trigger env s =
     (if b_loopb_net s \<noteq> - 1 \<and> \<not> b_pending_trigs s then
        (let rv = e_send_dest env (b_trace s) (b_loopb_net s); s = log_ev (EvTrigger rv) s
         in (rv, if rv = 0 then s\<lparr>b_pending_trigs := True\<rparr> else s))
      else (0, s))"

definition do_net_close_tx :: "broker_env \<Rightarrow> nat \<Rightarrow> bool \<Rightarrow> broker \<Rightarrow> broker option" where
  "do_net_close_tx env c due2err s = do {
     s \<leftarrow> (if due2err then ctx_upd (\<lambda>cx. cx\<lparr>cx_flags := cx_flags cx OR NW_CONN_ERROR_FLAG\<rparr>) c s else Some s);
     s \<leftarrow> ctx_upd (\<lambda>cx. cx\<lparr>cx_flags := cx_flags cx OR NETWORK_CLOSE_FLAG\<rparr>) c s;
     Some (snd (loopb_trigger env s)) }"

text \<open>\<open>cl_ctx_send(cl_ctx, buf, len)\<close>: \<open>len\<close> bytes of the region \<open>buf\<close> from position \<open>d\<close>.\<close>

definition cl_ctx_send :: "broker_env \<Rightarrow> nat \<Rightarrow> u8 list \<Rightarrow> nat \<Rightarrow> nat \<Rightarrow> broker \<Rightarrow> (i32 \<times> broker) option" where
  "cl_ctx_send env c buf d len s = do {
     cx \<leftarrow> ctx_get s c;
     bytes \<leftarrow> (if d + len \<le> length buf then Some (take len (drop d buf)) else None);
     let rv = e_send env (b_trace s) (cx_net cx) bytes;
     let s = log_ev (EvSend (cx_net cx) bytes rv) s;
     if rv \<le> 0 then do { s \<leftarrow> do_net_close_tx env c True s; Some (MQP_ERR_NETWORK, s) }
     else Some (rv, s) }"

definition vh_msg_send :: "broker_env \<Rightarrow> nat \<Rightarrow> u8 \<Rightarrow> mqtt_qos \<Rightarrow> bool \<Rightarrow> u16 \<Rightarrow> broker \<Rightarrow> (i32 \<times> broker) option" where
  "vh_msg_send env c msg_type qos has_vh vh_data s = do {
     cx \<leftarrow> ctx_get s c;
     if \<not> had_rcvd_conn_msg cx then Some (MQP_ERR_NOTCONN, s)
     else let buf = [MAKE_FH_BYTE1 msg_type (MAKE_FH_FLAGS False qos False), if has_vh then 2 else 0]
                    @ (if has_vh then [hi8 vh_data, lo8 vh_data] else [])
          in cl_ctx_send env c buf 0 (length buf) s }"

definition mqtt_vh_msg_send :: "broker_env \<Rightarrow> ptr \<Rightarrow> u8 \<Rightarrow> mqtt_qos \<Rightarrow> bool \<Rightarrow> u16 \<Rightarrow> broker \<Rightarrow> (i32 \<times> broker) option" where
  "mqtt_vh_msg_send env ctx_cl msg_type qos has_vh vh_data s =
     (case ctx_cl of None \<Rightarrow> Some (- 1, s) | Some c \<Rightarrow> vh_msg_send env c msg_type qos has_vh vh_data s)"

definition mqtt_connack_send :: "broker_env \<Rightarrow> nat \<Rightarrow> u8 \<Rightarrow> u8 \<Rightarrow> broker \<Rightarrow> (i32 \<times> broker) option" where
  "mqtt_connack_send env c vh0 vh1 s = do {
     (rv, s) \<leftarrow> vh_msg_send env c MQTT_CONNACK MQTT_QOS0 True (mk16 vh0 vh1) s;
     s \<leftarrow> (if 0 < rv \<and> vh1 \<noteq> 0 then do_net_close_tx env c True s else Some s);
     Some (rv, s) }"

text \<open>\<open>mqtt_server_pub_dispatch\<close>: the DUP bit is set in the packet for the transmission only.\<close>

definition mqtt_server_pub_dispatch :: "broker_env \<Rightarrow> ptr \<Rightarrow> nat \<Rightarrow> bool \<Rightarrow> broker \<Rightarrow> (i32 \<times> broker) option" where
  "mqtt_server_pub_dispatch env ctx_cl mqp dup s = do {
     m \<leftarrow> b_heap s mqp;
     let d = MQP_FHEADER_BUF m;
     b0 \<leftarrow> buf_get (p_buffer m) d;
     buf \<leftarrow> buf_put (p_buffer m) d (if dup then b0 OR DUP_FLAG_VAL True else b0);
     c \<leftarrow> ctx_cl;
     (rv, s) \<leftarrow> cl_ctx_send env c buf d (unat (MQP_CONTENT_LEN m)) s;
     b1 \<leftarrow> buf_get buf d;
     buf \<leftarrow> buf_put buf d (b1 AND NOT (DUP_FLAG_VAL True));
     Some (rv, s\<lparr>b_heap := (b_heap s)(mqp \<mapsto> m\<lparr>p_buffer := buf\<rparr>)\<rparr>) }"

text \<open>
  \<open>sub_ack_send\<close>: \<open>buf\<close> is the array \<open>ack\<close> of the caller, with the granted QoS values from
  position \<open>pay_ofs\<close> on; the header is written in front of them.
\<close>

definition MQP_MAX_TOPICS :: nat where [wire_consts]: "MQP_MAX_TOPICS = 16"
definition MQP_SUBACK_PAY_OFS :: nat where [wire_consts]: "MQP_SUBACK_PAY_OFS = MAX_FH_LEN + 2"

definition sub_ack_send :: "broker_env \<Rightarrow> nat \<Rightarrow> u8 list \<Rightarrow> nat \<Rightarrow> u32 \<Rightarrow> u16 \<Rightarrow> broker \<Rightarrow> (i32 \<times> broker) option" where
  "sub_ack_send env c buf pay_ofs pay_len msg_id s =
     (if MQP_SUBACK_PAY_OFS \<noteq> pay_ofs then Some (MQP_ERR_PKT_LEN, s)
      else do {
        buf \<leftarrow> buf_wr_nbo_2B buf MAX_FH_LEN msg_id;
        (n, buf) \<leftarrow> buf_tail_wr_remlen buf MAX_FH_LEN (pay_len + 2);
        let ref = MAX_FH_LEN - n - 1;
        buf \<leftarrow> buf_put buf ref (MAKE_FH_BYTE1 MQTT_SUBACK (MAKE_FH_FLAGS False MQTT_QOS0 False));
        cl_ctx_send env c buf ref (unat pay_len + (MAX_FH_LEN + 2 - ref)) s })"

definition unsub_ack_send :: "broker_env \<Rightarrow> nat \<Rightarrow> u16 \<Rightarrow> broker \<Rightarrow> (i32 \<times> broker) option" where
  "unsub_ack_send env c msg_id s = vh_msg_send env c MQTT_UNSUBACK MQTT_QOS0 True msg_id s"

end
