(* ===== verification/ClientMgmt.thy ===== *)
theory ClientMgmt
  imports Broker
begin

text \<open>
  The users of the broker (\<open>netapps/mqtt/server/client_mgmt.c\<close>): the table of clients with
  their sessions, the distribution of a PUBLISH to the clients of a bit map, the wait lists of
  packets that await an acknowledgement (\<open>b_ack1\<close>) and of packets stored for the sessions of
  clients that are away (\<open>b_sess\<close>), and the assignment of a table entry to a CONNECT.
\<close>

section \<open>The table\<close>

definition MAX_CLIENT_ID_LEN :: nat where "MAX_CLIENT_ID_LEN = 64"
definition MAX_CLIENTS :: nat where "MAX_CLIENTS = 16"

abbreviation MQ_CONNECT_FLAG :: u32 where "MQ_CONNECT_FLAG \<equiv> 0x1"
abbreviation CLEAN_SESS_FLAG :: u32 where "CLEAN_SESS_FLAG \<equiv> 0x2"
abbreviation ASSIGNMENT_FLAG :: u32 where "ASSIGNMENT_FLAG \<equiv> 0x4"

abbreviation CONNACK_RC_REQ_ACCEPT :: u8 where "CONNACK_RC_REQ_ACCEPT \<equiv> 0x00"
abbreviation CONNACK_RC_BAD_PROTOV :: u8 where "CONNACK_RC_BAD_PROTOV \<equiv> 0x01"
abbreviation CONNACK_RC_CLI_REJECT :: u8 where "CONNACK_RC_CLI_REJECT \<equiv> 0x02"
abbreviation CONNACK_RC_SVR_UNAVBL :: u8 where "CONNACK_RC_SVR_UNAVBL \<equiv> 0x03"

definition is_connected :: "client_usr \<Rightarrow> bool" where
  "is_connected u \<longleftrightarrow> us_flags u AND MQ_CONNECT_FLAG \<noteq> 0"

definition has_clean_session :: "client_usr \<Rightarrow> bool" where
  "has_clean_session u \<longleftrightarrow> us_flags u AND CLEAN_SESS_FLAG \<noteq> 0"

definition is_assigned :: "client_usr \<Rightarrow> bool" where
  "is_assigned u \<longleftrightarrow> us_flags u AND ASSIGNMENT_FLAG \<noteq> 0"

definition set_flag :: "u32 \<Rightarrow> bool \<Rightarrow> client_usr \<Rightarrow> client_usr" where
  "set_flag flag b u = u\<lparr>us_flags := (if b then us_flags u OR flag else us_flags u AND NOT flag)\<rparr>"

definition set_connect_state :: "bool \<Rightarrow> client_usr \<Rightarrow> client_usr" where
  "set_connect_state connected u = set_flag MQ_CONNECT_FLAG connected u"

definition set_clean_session :: "bool \<Rightarrow> client_usr \<Rightarrow> client_usr" where
  "set_clean_session clean_session u = set_flag CLEAN_SESS_FLAG clean_session u"

definition set_assigned :: "bool \<Rightarrow> client_usr \<Rightarrow> client_usr" where
  "set_assigned assignment u = set_flag ASSIGNMENT_FLAG assignment u"

definition cl_usr_reset :: "client_usr \<Rightarrow> client_usr" where
  "cl_usr_reset u = u\<lparr>us_ctx := None, us_app := None, us_will := None, us_n_sub := 0, us_flags := 0,
     us_client_id := [], us_qos2_rx_cq := qos2_pub_cq_reset (us_qos2_rx_cq u),
     us_qos2_tx_cq := qos2_pub_cq_reset (us_qos2_tx_cq u)\<rparr>"

definition usr_get :: "broker \<Rightarrow> nat \<Rightarrow> client_usr option" where
  "usr_get s u = buf_get (b_users s) u"

definition usr_put :: "nat \<Rightarrow> client_usr \<Rightarrow> broker \<Rightarrow> broker" where
  "usr_put u x s = s\<lparr>b_users := (b_users s)[u := x]\<rparr>"

text \<open>Apply a function to the entry a handle points to.\<close>

definition usr_upd :: "(client_usr \<Rightarrow> client_usr) \<Rightarrow> nat \<Rightarrow> broker \<Rightarrow> broker option" where
  "usr_upd f u s = do { x \<leftarrow> usr_get s u; Some (usr_put u (f x) s) }"

definition cl_usr_init :: "broker \<Rightarrow> broker" where
  "cl_usr_init s = s\<lparr>b_users := map (\<lambda>(i, u). cl_usr_reset (u\<lparr>us_index := of_nat i\<rparr>)) (enumerate 0 (b_users s))\<rparr>"

definition cl_mgmt_init :: "broker \<Rightarrow> i32 \<times> broker" where
  "cl_mgmt_init s = (0, cl_usr_init s)"

definition cl_usr_free :: "client_usr \<Rightarrow> client_usr" where
  "cl_usr_free u = (let u = cl_usr_reset u in
     u\<lparr>us_flags := us_flags u AND NOT (MQ_CONNECT_FLAG OR CLEAN_SESS_FLAG OR ASSIGNMENT_FLAG)\<rparr>)"

definition cl_sub_count_add :: "nat \<Rightarrow> broker \<Rightarrow> broker option" where
  "cl_sub_count_add u s = usr_upd (\<lambda>x. if is_connected x then x\<lparr>us_n_sub := us_n_sub x + 1\<rparr> else x) u s"

definition cl_sub_count_del :: "nat \<Rightarrow> broker \<Rightarrow> broker option" where
  "cl_sub_count_del u s = usr_upd (\<lambda>x. if is_connected x then x\<lparr>us_n_sub := us_n_sub x - 1\<rparr> else x) u s"

section \<open>QoS2 identifiers\<close>

definition qos2_pub_rx_logup :: "nat \<Rightarrow> u16 \<Rightarrow> broker \<Rightarrow> (bool \<times> broker) option" where
  "qos2_pub_rx_logup u msg_id s = do {
     x \<leftarrow> usr_get s u;
     (b, cq) \<leftarrow> qos2_pub_cq_logup (us_qos2_rx_cq x) msg_id;
     Some (b, usr_put u (x\<lparr>us_qos2_rx_cq := cq\<rparr>) s) }"

definition ack2_msg_id_logup :: "nat \<Rightarrow> u16 \<Rightarrow> broker \<Rightarrow> (bool \<times> broker) option" where
  "ack2_msg_id_logup u msg_id s = do {
     x \<leftarrow> usr_get s u;
     (b, cq) \<leftarrow> qos2_pub_cq_logup (us_qos2_tx_cq x) msg_id;
     Some (b, usr_put u (x\<lparr>us_qos2_tx_cq := cq\<rparr>) s) }"

definition qos2_pub_rx_unlog :: "nat \<Rightarrow> u16 \<Rightarrow> broker \<Rightarrow> (bool \<times> broker) option" where
  "qos2_pub_rx_unlog u msg_id s = do {
     x \<leftarrow> usr_get s u;
     (b, cq) \<leftarrow> qos2_pub_cq_unlog (us_qos2_rx_cq x) msg_id;
     Some (b, usr_put u (x\<lparr>us_qos2_rx_cq := cq\<rparr>) s) }"

definition ack2_msg_id_unlog :: "nat \<Rightarrow> u16 \<Rightarrow> broker \<Rightarrow> (bool \<times> broker) option" where
  "ack2_msg_id_unlog u msg_id s = do {
     x \<leftarrow> usr_get s u;
     (b, cq) \<leftarrow> qos2_pub_cq_unlog (us_qos2_tx_cq x) msg_id;
     Some (b, usr_put u (x\<lparr>us_qos2_tx_cq := cq\<rparr>) s) }"

definition qos2_pub_rx_is_done :: "nat \<Rightarrow> u16 \<Rightarrow> broker \<Rightarrow> bool option" where
  "qos2_pub_rx_is_done u msg_id s = do { x \<leftarrow> usr_get s u; qos2_pub_cq_check (us_qos2_rx_cq x) msg_id }"

definition cl_mgmt_qos2_pub_rx_update :: "ptr \<Rightarrow> u16 \<Rightarrow> broker \<Rightarrow> (bool \<times> broker) option" where
  "cl_mgmt_qos2_pub_rx_update usr_cl msg_id s =
     (case usr_cl of
        None \<Rightarrow> Some (False, s)
      | Some u \<Rightarrow> do {
          done \<leftarrow> qos2_pub_rx_is_done u msg_id s;
          if done then Some (True, s) else qos2_pub_rx_logup u msg_id s })"

text \<open>\<open>ack2_msg_id_dispatch\<close>: the loop from index \<open>i\<close> up to \<open>MAX_PUBREL_INFLT - n_free\<close>.\<close>

function ack2_dispatch_loop :: "broker_env \<Rightarrow> nat \<Rightarrow> nat \<Rightarrow> nat \<Rightarrow> broker \<Rightarrow> broker option" where
  "ack2_dispatch_loop env u i n s =
     (if i < n then do {
        x \<leftarrow> usr_get s u;
        mid \<leftarrow> buf_get (cq_id_vec (us_qos2_tx_cq x)) i;
        (rv, s) \<leftarrow> mqtt_vh_msg_send env (us_ctx x) MQTT_PUBREL MQTT_QOS1 True mid s;
        if rv \<le> 0 then Some s else ack2_dispatch_loop env u (Suc i) n s }
      else Some s)"
  by pat_completeness auto
termination by (relation "measure (\<lambda>(_, _, i, n, _). n - i)") auto

declare ack2_dispatch_loop.simps [simp del]

definition ack2_msg_id_dispatch :: "broker_env \<Rightarrow> nat \<Rightarrow> broker \<Rightarrow> broker option" where
  "ack2_msg_id_dispatch env u s = do {
     x \<leftarrow> usr_get s u;
     let cq = us_qos2_tx_cq x;
     ack2_dispatch_loop env u (unat (cq_rd_idx cq)) (MAX_PUBREL_INFLT - unat (cq_n_free cq)) s }"

definition ack2_msg_id_purge :: "nat \<Rightarrow> broker \<Rightarrow> broker option" where
  "ack2_msg_id_purge u s = usr_upd (\<lambda>x. x\<lparr>us_qos2_tx_cq := qos2_pub_cq_reset (us_qos2_tx_cq x),
     us_qos2_rx_cq := qos2_pub_cq_reset (us_qos2_rx_cq x)\<rparr>) u s"

section \<open>Client maps and wait lists\<close>

definition MQP_CL_MAP_GET :: "mqtt_packet \<Rightarrow> u32" where "MQP_CL_MAP_GET m = p_private m"
definition MQP_CL_MAP_SET :: "u32 \<Rightarrow> mqtt_packet \<Rightarrow> mqtt_packet" where
  "MQP_CL_MAP_SET cl_map m = m\<lparr>p_private := p_private m OR cl_map\<rparr>"
definition MQP_CL_MAP_CLR :: "u32 \<Rightarrow> mqtt_packet \<Rightarrow> mqtt_packet" where
  "MQP_CL_MAP_CLR cl_map m = m\<lparr>p_private := p_private m AND NOT cl_map\<rparr>"

definition CL_BMAP :: "client_usr \<Rightarrow> u32" where
  "CL_BMAP u = push_bit (unat (us_index u)) 1"

text \<open>The two wait lists, \<open>qos_ack1_wl\<close> and \<open>sess_mqp_wl\<close>.\<close>

datatype wl_id = QosAck1 | SessMqp

fun wl_get :: "wl_id \<Rightarrow> broker \<Rightarrow> mqtt_ack_wlist" where
  "wl_get QosAck1 s = b_ack1 s"
| "wl_get SessMqp s = b_sess s"

fun wl_put :: "wl_id \<Rightarrow> mqtt_ack_wlist \<Rightarrow> broker \<Rightarrow> broker" where
  "wl_put QosAck1 l s = s\<lparr>b_ack1 := l\<rparr>"
| "wl_put SessMqp l s = s\<lparr>b_sess := l\<rparr>"

definition pkt_upd :: "(mqtt_packet \<Rightarrow> mqtt_packet) \<Rightarrow> nat \<Rightarrow> broker \<Rightarrow> broker option" where
  "pkt_upd f mqp s = do { m \<leftarrow> b_heap s mqp; Some (s\<lparr>b_heap := (b_heap s)(mqp \<mapsto> f m)\<rparr>) }"

definition pub_dispatch_to :: "broker_env \<Rightarrow> nat \<Rightarrow> nat \<Rightarrow> bool \<Rightarrow> broker \<Rightarrow> (i32 \<times> broker) option" where
  "pub_dispatch_to env u mqp dup s = do { x \<leftarrow> usr_get s u; mqtt_server_pub_dispatch env (us_ctx x) mqp dup s }"

partial_function (option) ack1_dispatch_loop :: "broker_env \<Rightarrow> nat \<Rightarrow> ptr \<Rightarrow> broker \<Rightarrow> broker option" where
  "ack1_dispatch_loop env u mqp s =
     (case mqp of
        None \<Rightarrow> Some s
      | Some a \<Rightarrow> do {
          m \<leftarrow> b_heap s a;
          x \<leftarrow> usr_get s u;
          s \<leftarrow> (if MQP_CL_MAP_GET m AND CL_BMAP x \<noteq> 0 then map_option snd (pub_dispatch_to env u a True s) else Some s);
          m \<leftarrow> b_heap s a;
          ack1_dispatch_loop env u (p_next m) s })"

definition ack1_wl_mqp_dispatch :: "broker_env \<Rightarrow> nat \<Rightarrow> broker \<Rightarrow> broker option" where
  "ack1_wl_mqp_dispatch env u s = ack1_dispatch_loop env u (wl_head (b_ack1 s)) s"

definition IS_CL_USR_FREE :: "client_usr \<Rightarrow> bool" where
  "IS_CL_USR_FREE u \<longleftrightarrow> us_flags u = 0 \<and> us_client_id u = []"

definition IS_CL_INACTIVE :: "client_usr \<Rightarrow> bool" where
  "IS_CL_INACTIVE u \<longleftrightarrow> us_flags u = 0 \<and> us_client_id u \<noteq> []"

definition NEED_TO_WAIT_LIST_PUBLISH :: "mqtt_qos \<Rightarrow> client_usr \<Rightarrow> bool" where
  "NEED_TO_WAIT_LIST_PUBLISH qos u \<longleftrightarrow> \<not> (qos = MQTT_QOS1 \<and> has_clean_session u \<or> qos = MQTT_QOS0)"

definition cl_bmap_get :: "ptr \<Rightarrow> broker \<Rightarrow> u32 option" where
  "cl_bmap_get usr_cl s =
     (case usr_cl of None \<Rightarrow> Some 0
      | Some u \<Rightarrow> do { x \<leftarrow> usr_get s u; Some (if IS_CL_USR_FREE x then 0 else CL_BMAP x) })"

definition cl_app_hndl_get :: "ptr \<Rightarrow> broker \<Rightarrow> ptr option" where
  "cl_app_hndl_get usr_cl s =
     (case usr_cl of None \<Rightarrow> Some None
      | Some u \<Rightarrow> do { x \<leftarrow> usr_get s u; Some (if is_connected x then us_app x else None) })"

definition cl_will_hndl_get :: "ptr \<Rightarrow> broker \<Rightarrow> ptr option" where
  "cl_will_hndl_get usr_cl s =
     (case usr_cl of None \<Rightarrow> Some None
      | Some u \<Rightarrow> do { x \<leftarrow> usr_get s u; Some (if is_connected x then us_will x else None) })"

section \<open>Distribution of a PUBLISH\<close>

text \<open>The loop of \<open>pub_dispatch\<close> over the clients \<open>is\<close>; the result is \<open>cl_map\<close> and \<open>sp_map\<close>.\<close>

fun pub_dispatch_loop :: "broker_env \<Rightarrow> nat \<Rightarrow> mqtt_qos \<Rightarrow> nat list \<Rightarrow> u32 \<Rightarrow> u32 \<Rightarrow> broker \<Rightarrow> (u32 \<times> u32 \<times> broker) option" where
  "pub_dispatch_loop env mqp qos [] cl_map sp_map s = Some (cl_map, sp_map, s)"
| "pub_dispatch_loop env mqp qos (i # is) cl_map sp_map s =
     (if cl_map AND push_bit i 1 \<noteq> 0 then do {
        x \<leftarrow> usr_get s i;
        (go_on, s) \<leftarrow> (if is_connected x then do {
                         (rv, s) \<leftarrow> pub_dispatch_to env i mqp False s;
                         Some (0 < rv \<and> NEED_TO_WAIT_LIST_PUBLISH qos x, s) }
                       else Some (False, s));
        if go_on then pub_dispatch_loop env mqp qos is cl_map sp_map s
        else pub_dispatch_loop env mqp qos is (cl_map AND NOT (push_bit i 1))
               (if IS_CL_INACTIVE x then sp_map OR push_bit i 1 else sp_map) s }
      else pub_dispatch_loop env mqp qos is cl_map sp_map s)"

definition wl_append :: "wl_id \<Rightarrow> nat \<Rightarrow> broker \<Rightarrow> broker option" where
  "wl_append w mqp s = do {
     (h, l) \<leftarrow> mqp_ack_wlist_append (b_heap s) (wl_get w s) mqp; Some (wl_put w l (s\<lparr>b_heap := h\<rparr>)) }"

definition pub_dispatch :: "broker_env \<Rightarrow> u32 \<Rightarrow> nat \<Rightarrow> broker \<Rightarrow> broker option" where
  "pub_dispatch env cl_map mqp s = do {
     m \<leftarrow> b_heap s mqp;
     (cl_map, sp_map, s) \<leftarrow> pub_dispatch_loop env mqp (ENUM_QOS (p_fh_byte1 m)) [0..<MAX_CLIENTS] cl_map 0 s;
     s \<leftarrow> (if sp_map \<noteq> 0 then do {
             (cpy, s) \<leftarrow> mqp_server_copy env mqp s;
             case cpy of None \<Rightarrow> Some s
             | Some c \<Rightarrow> do { s \<leftarrow> pkt_upd (MQP_CL_MAP_SET sp_map) c s; wl_append SessMqp c s } }
           else Some s);
     if cl_map \<noteq> 0 then do { s \<leftarrow> pkt_upd (MQP_CL_MAP_SET cl_map) mqp s; wl_append QosAck1 mqp s }
     else mqp_free mqp s }"

definition cl_pub_dispatch :: "broker_env \<Rightarrow> u32 \<Rightarrow> nat \<Rightarrow> broker \<Rightarrow> broker option" where
  "cl_pub_dispatch env cl_map mqp s = pub_dispatch env cl_map mqp s"

definition len_err_free_mqp :: "nat \<Rightarrow> broker \<Rightarrow> (i32 \<times> broker) option" where
  "len_err_free_mqp mqp s = do { s \<leftarrow> mqp_free mqp s; Some (MQP_ERR_PKT_LEN, s) }"

definition pkt_run :: "(mqtt_packet \<Rightarrow> ('a \<times> mqtt_packet) option) \<Rightarrow> nat \<Rightarrow> broker \<Rightarrow> ('a \<times> broker) option" where
  "pkt_run f mqp s = do {
     m \<leftarrow> b_heap s mqp; (r, m) \<leftarrow> f m; Some (r, s\<lparr>b_heap := (b_heap s)(mqp \<mapsto> m)\<rparr>) }"

text \<open>
  The construction of a PUBLISH packet shared by \<open>cl_pub_msg_send\<close> and \<open>pub_msg_send\<close>: the
  topic with a fresh identifier for a QoS above 0, then the data.
\<close>

definition pub_append :: "nat \<Rightarrow> utf8_string \<Rightarrow> u8 list \<Rightarrow> u32 \<Rightarrow> mqtt_qos \<Rightarrow> broker \<Rightarrow> (bool \<times> broker) option" where
  "pub_append mqp tp data_buf data_len qos s = do {
     let (mid, s) = (if qos \<noteq> 0 then mqp_new_id_server s else (0, s));
     (rv, s) \<leftarrow> pkt_run (\<lambda>m. mqp_pub_append_topic m tp mid) mqp s;
     if rv < 0 then Some (False, s)
     else if data_len \<noteq> 0 then do {
       (rv, s) \<leftarrow> pkt_run (\<lambda>m. mqp_pub_append_data m data_buf data_len) mqp s;
       Some (\<not> rv < 0, s) }
     else Some (True, s) }"

text \<open>\<open>data_buf\<close>: \<open>None\<close> for \<open>NULL\<close>. The length that is returned is read from the packet after
  \<open>pub_dispatch\<close>, which may have freed it.\<close>

definition cl_pub_msg_send :: "broker_env \<Rightarrow> ptr \<Rightarrow> utf8_string \<Rightarrow> u8 list option \<Rightarrow> u32 \<Rightarrow> mqtt_qos \<Rightarrow> bool \<Rightarrow>
    broker \<Rightarrow> (i32 \<times> broker) option" where
  "cl_pub_msg_send env usr_cl tp data_buf data_len qos retain s =
     (if 0 < data_len \<and> data_buf = None \<or> usr_cl = None then Some (MQP_ERR_FNPARAM, s)
      else let (mqp, s) = mqp_server_alloc env MQTT_PUBLISH (2 + ucast (u_length tp) + 2 + data_len) s in
        case mqp of None \<Rightarrow> Some (MQP_ERR_PKT_AVL, s)
        | Some a \<Rightarrow> do {
            (ok, s) \<leftarrow> pub_append a tp (case data_buf of None \<Rightarrow> [] | Some d \<Rightarrow> d) data_len qos s;
            if \<not> ok then len_err_free_mqp a s
            else do {
              (_, s) \<leftarrow> pkt_run (\<lambda>m. mqp_prep_fh m (MAKE_FH_FLAGS False qos retain)) a s;
              cl_map \<leftarrow> cl_bmap_get usr_cl s;
              s \<leftarrow> pub_dispatch env cl_map a s;
              m \<leftarrow> b_heap s a;
              Some (sint (MQP_CONTENT_LEN m), s) } })"

section \<open>Sessions\<close>

definition wl_unlink :: "wl_id \<Rightarrow> ptr \<Rightarrow> nat \<Rightarrow> broker \<Rightarrow> broker option" where
  "wl_unlink w prev mqp s = do {
     (h, l) \<leftarrow> wl_remove (b_heap s) (wl_get w s) prev mqp; Some (wl_put w l (s\<lparr>b_heap := h\<rparr>)) }"

text \<open>
  The loop of \<open>sess_wl_mqp_dispatch\<close> with its variables \<open>mqp\<close>, \<open>prev\<close> and \<open>next\<close>; \<open>continue\<close>
  goes to the step \<open>prev = mqp, mqp = next\<close> with \<open>next\<close> as it is.
\<close>

partial_function (option) sess_dispatch_loop :: "broker_env \<Rightarrow> u32 \<Rightarrow> ptr \<Rightarrow> ptr \<Rightarrow> ptr \<Rightarrow> broker \<Rightarrow> broker option" where
  "sess_dispatch_loop env cl_map mqp prev nxt s =
     (case mqp of
        None \<Rightarrow> Some s
      | Some a \<Rightarrow> do {
          m \<leftarrow> b_heap s a;
          if MQP_CL_MAP_GET m AND cl_map = 0 then sess_dispatch_loop env cl_map nxt mqp nxt s
          else do {
            s \<leftarrow> pkt_upd (MQP_CL_MAP_CLR cl_map) a s;
            let nxt = p_next m;
            if MQP_CL_MAP_GET (MQP_CL_MAP_CLR cl_map m) = 0 then do {
              s \<leftarrow> wl_unlink SessMqp prev a s;
              s \<leftarrow> pub_dispatch env cl_map a s;
              sess_dispatch_loop env cl_map nxt prev nxt s }
            else do {
              (cpy, s) \<leftarrow> mqp_server_copy env a s;
              s \<leftarrow> (case cpy of None \<Rightarrow> Some s | Some c \<Rightarrow> pub_dispatch env cl_map c s);
              sess_dispatch_loop env cl_map nxt mqp nxt s } } })"

definition sess_wl_mqp_dispatch :: "broker_env \<Rightarrow> nat \<Rightarrow> broker \<Rightarrow> broker option" where
  "sess_wl_mqp_dispatch env u s = do {
     x \<leftarrow> usr_get s u;
     sess_dispatch_loop env (CL_BMAP x) (wl_head (b_sess s)) None None s }"

text \<open>\<open>wl_mqp_unmap_find\<close>: the packet and \<open>*prev\<close>.\<close>

partial_function (option) wl_find_loop :: "mqp_heap \<Rightarrow> u16 \<Rightarrow> ptr \<Rightarrow> ptr \<Rightarrow> (ptr \<times> ptr) option" where
  "wl_find_loop h msg_id prev mqp =
     (case mqp of
        None \<Rightarrow> Some (None, prev)
      | Some a \<Rightarrow> do {
          m \<leftarrow> h a;
          if msg_id = p_msg_id m then Some (Some a, prev) else wl_find_loop h msg_id mqp (p_next m) })"

definition wl_mqp_unmap_find :: "wl_id \<Rightarrow> nat \<Rightarrow> u16 \<Rightarrow> broker \<Rightarrow> (ptr \<times> ptr \<times> broker) option" where
  "wl_mqp_unmap_find w u msg_id s = do {
     (mqp, prev) \<leftarrow> wl_find_loop (b_heap s) msg_id None (wl_head (wl_get w s));
     case mqp of
       None \<Rightarrow> Some (None, prev, s)
     | Some a \<Rightarrow> do { x \<leftarrow> usr_get s u; s \<leftarrow> pkt_upd (MQP_CL_MAP_CLR (CL_BMAP x)) a s; Some (Some a, prev, s) } }"

definition wl_rmfree_try :: "wl_id \<Rightarrow> ptr \<Rightarrow> nat \<Rightarrow> broker \<Rightarrow> (bool \<times> broker) option" where
  "wl_rmfree_try w prev mqp s = do {
     m \<leftarrow> b_heap s mqp;
     if MQP_CL_MAP_GET m = 0 then do { s \<leftarrow> wl_unlink w prev mqp s; s \<leftarrow> mqp_free mqp s; Some (True, s) }
     else Some (False, s) }"

definition ack1_unmap_rmfree_try :: "nat \<Rightarrow> u16 \<Rightarrow> broker \<Rightarrow> (bool \<times> broker) option" where
  "ack1_unmap_rmfree_try u msg_id s = do {
     x \<leftarrow> usr_get s u;
     s \<leftarrow> (if \<not> has_clean_session x then do {
             (mqp, prev, s) \<leftarrow> wl_mqp_unmap_find QosAck1 u msg_id s;
             case mqp of None \<Rightarrow> Some s | Some a \<Rightarrow> map_option snd (wl_rmfree_try QosAck1 prev a s) }
           else Some s);
     Some (True, s) }"

partial_function (option) wl_purge_loop :: "wl_id \<Rightarrow> u32 \<Rightarrow> ptr \<Rightarrow> ptr \<Rightarrow> broker \<Rightarrow> broker option" where
  "wl_purge_loop w bmap mqp prev s =
     (case mqp of
        None \<Rightarrow> Some s
      | Some a \<Rightarrow> do {
          m \<leftarrow> b_heap s a;
          s \<leftarrow> pkt_upd (MQP_CL_MAP_CLR bmap) a s;
          (gone, s) \<leftarrow> wl_rmfree_try w prev a s;
          wl_purge_loop w bmap (p_next m) (if gone then prev else mqp) s })"

definition wl_purge :: "wl_id \<Rightarrow> nat \<Rightarrow> broker \<Rightarrow> broker option" where
  "wl_purge w u s = do { x \<leftarrow> usr_get s u; wl_purge_loop w (CL_BMAP x) (wl_head (wl_get w s)) None s }"

definition session_resume :: "broker_env \<Rightarrow> nat \<Rightarrow> broker \<Rightarrow> broker option" where
  "session_resume env u s = do {
     s \<leftarrow> ack1_wl_mqp_dispatch env u s;
     s \<leftarrow> ack2_msg_id_dispatch env u s;
     sess_wl_mqp_dispatch env u s }"

definition session_delete :: "nat \<Rightarrow> broker \<Rightarrow> broker option" where
  "session_delete u s = do {
     s \<leftarrow> wl_purge QosAck1 u s;
     s \<leftarrow> ack2_msg_id_purge u s;
     wl_purge SessMqp u s }"

partial_function (option) wl_has_map :: "mqp_heap \<Rightarrow> u32 \<Rightarrow> ptr \<Rightarrow> bool option" where
  "wl_has_map h cl_map elem =
     (case elem of
        None \<Rightarrow> Some False
      | Some a \<Rightarrow> do { m \<leftarrow> h a; if MQP_CL_MAP_GET m AND cl_map \<noteq> 0 then Some True else wl_has_map h cl_map (p_next m) })"

definition has_session_data :: "nat \<Rightarrow> broker \<Rightarrow> bool option" where
  "has_session_data u s = do {
     x \<leftarrow> usr_get s u;
     if us_n_sub x \<noteq> 0 then Some True
     else do {
       b \<leftarrow> wl_has_map (b_heap s) (CL_BMAP x) (wl_head (b_ack1 s));
       if b then Some True else wl_has_map (b_heap s) (CL_BMAP x) (wl_head (b_sess s)) } }"

definition cl_can_session_delete :: "ptr \<Rightarrow> broker \<Rightarrow> bool option" where
  "cl_can_session_delete usr_cl s =
     (case usr_cl of None \<Rightarrow> Some False
      | Some u \<Rightarrow> do {
          x \<leftarrow> usr_get s u;
          if has_clean_session x then Some True else map_option Not (has_session_data u s) })"

definition cl_on_net_close :: "nat \<Rightarrow> broker \<Rightarrow> broker option" where
  "cl_on_net_close u s = do {
     x \<leftarrow> usr_get s u;
     if is_assigned x then do {
       b \<leftarrow> has_session_data u s;
       if \<not> b then usr_upd cl_usr_free u s else Some s }
     else if has_clean_session x then do { s \<leftarrow> session_delete u s; usr_upd cl_usr_free u s }
     else usr_upd (\<lambda>x. (set_connect_state False x)\<lparr>us_ctx := None, us_app := None\<rparr>) u s }"

section \<open>Acknowledgements\<close>

definition proc_pub_rel_rx :: "broker_env \<Rightarrow> nat \<Rightarrow> u16 \<Rightarrow> broker \<Rightarrow> (bool \<times> broker) option" where
  "proc_pub_rel_rx env u msg_id s = do {
     x \<leftarrow> usr_get s u;
     (_, s) \<leftarrow> mqtt_vh_msg_send env (us_ctx x) MQTT_PUBCOMP MQTT_QOS0 True msg_id s;
     done \<leftarrow> qos2_pub_rx_is_done u msg_id s;
     s \<leftarrow> (if done then map_option snd (qos2_pub_rx_unlog u msg_id s) else Some s);
     Some (True, s) }"

definition proc_pub_rec_rx :: "broker_env \<Rightarrow> nat \<Rightarrow> u16 \<Rightarrow> broker \<Rightarrow> (bool \<times> broker) option" where
  "proc_pub_rec_rx env u msg_id s = do {
     (mqp, prev, s) \<leftarrow> wl_mqp_unmap_find QosAck1 u msg_id s;
     case mqp of
       None \<Rightarrow> Some (False, s)
     | Some a \<Rightarrow> do {
         (ok, s) \<leftarrow> ack2_msg_id_logup u msg_id s;
         if ok then do {
           (_, s) \<leftarrow> wl_rmfree_try QosAck1 prev a s;
           x \<leftarrow> usr_get s u;
           (_, s) \<leftarrow> mqtt_vh_msg_send env (us_ctx x) MQTT_PUBREL MQTT_QOS1 True msg_id s;
           Some (True, s) }
         else Some (False, s) } }"

definition cl_notify_ack :: "broker_env \<Rightarrow> ptr \<Rightarrow> u8 \<Rightarrow> u16 \<Rightarrow> broker \<Rightarrow> (bool \<times> broker) option" where
  "cl_notify_ack env usr_cl msg_type msg_id s =
     (case usr_cl of None \<Rightarrow> Some (False, s)
      | Some u \<Rightarrow>
          if msg_type = MQTT_PUBACK then ack1_unmap_rmfree_try u msg_id s
          else if msg_type = MQTT_PUBREC then proc_pub_rec_rx env u msg_id s
          else if msg_type = MQTT_PUBREL then proc_pub_rel_rx env u msg_id s
          else if msg_type = MQTT_PUBCOMP then ack2_msg_id_unlog u msg_id s
          else Some (False, s))"

section \<open>Connections\<close>

text \<open>\<open>Self-\<close> and the index of the entry in two characters.\<close>

definition assign_cl_index_as_id :: "client_usr \<Rightarrow> client_usr" where
  "assign_cl_index_as_id u = u\<lparr>us_client_id := [0x53, 0x65, 0x6C, 0x66, 0x2D,
     ucast (drop_bit 4 (us_index u AND 0xF0)) + 0x30, ucast (us_index u AND 0x0F) + 0x30]\<rparr>"

text \<open>
  The loop of \<open>assign_cl_usr\<close> and the check behind it: the entry, and the return code for the
  CONNACK if there is none. \<open>client_id\<close> is the text (\<open>None\<close> for \<open>NULL\<close>).
\<close>

function assign_loop :: "broker \<Rightarrow> c8 list option \<Rightarrow> nat \<Rightarrow> ptr \<Rightarrow> (ptr \<times> u8) option" where
  "assign_loop s client_id idx fr_usr =
     (if idx < MAX_CLIENTS then do {
        x \<leftarrow> usr_get s idx;
        let fr_usr = (if fr_usr = None \<and> IS_CL_USR_FREE x then Some idx else fr_usr);
        if client_id = None \<and> fr_usr \<noteq> None then Some (Some idx, CONNACK_RC_REQ_ACCEPT)
        else if client_id \<noteq> None \<and> us_client_id x = take MAX_CLIENT_ID_LEN (the client_id) then
          (if is_connected x then Some (None, CONNACK_RC_CLI_REJECT) else Some (Some idx, CONNACK_RC_REQ_ACCEPT))
        else assign_loop s client_id (Suc idx) fr_usr }
      else Some (fr_usr, if fr_usr = None then CONNACK_RC_SVR_UNAVBL else CONNACK_RC_REQ_ACCEPT))"
  by pat_completeness auto
termination by (relation "measure (\<lambda>(_, _, idx, _). MAX_CLIENTS - idx)") auto

declare assign_loop.simps [simp del]

definition assign_cl_usr :: "c8 list option \<Rightarrow> broker \<Rightarrow> (ptr \<times> u8 \<times> broker) option" where
  "assign_cl_usr client_id s = do {
     (u, rc) \<leftarrow> assign_loop s client_id 0 None;
     case u of
       None \<Rightarrow> Some (None, rc, s)
     | Some i \<Rightarrow> do {
         s \<leftarrow> usr_upd (\<lambda>x. set_assigned True
                (case client_id of None \<Rightarrow> assign_cl_index_as_id x
                 | Some cid \<Rightarrow> if IS_CL_USR_FREE x then x\<lparr>us_client_id := take MAX_CLIENT_ID_LEN cid\<rparr> else x)) i s;
         Some (Some i, rc, s) } }"

text \<open>\<open>cl_connect_rx\<close>: the CONNACK value and, if it was set, \<open>*usr_cl\<close>.\<close>

definition cl_connect_rx :: "ptr \<Rightarrow> bool \<Rightarrow> c8 list option \<Rightarrow> ptr \<Rightarrow> ptr \<Rightarrow> broker \<Rightarrow> (u16 \<times> ptr \<times> broker) option" where
  "cl_connect_rx ctx_cl clean_session client_id app_cl will s =
     (if client_id = Some [] then Some (ucast CONNACK_RC_CLI_REJECT, None, s)
      else do {
        (u, rc, s) \<leftarrow> assign_cl_usr client_id s;
        case u of
          None \<Rightarrow> Some (ucast rc, None, s)
        | Some i \<Rightarrow> do {
            b \<leftarrow> (if \<not> clean_session then has_session_data i s else Some False);
            s \<leftarrow> usr_upd (\<lambda>x. x\<lparr>us_ctx := ctx_cl, us_app := app_cl, us_will := will\<rparr>) i s;
            Some (mk16 (if b then 0x01 else 0x00) rc, Some i, s) } })"

definition cl_on_connack_send :: "broker_env \<Rightarrow> nat \<Rightarrow> bool \<Rightarrow> broker \<Rightarrow> broker option" where
  "cl_on_connack_send env u clean_session s = do {
     x \<leftarrow> usr_get s u;
     if \<not> is_assigned x then Some s
     else do {
       s \<leftarrow> usr_upd (\<lambda>x. set_connect_state True (set_clean_session clean_session (set_assigned False x))) u s;
       if clean_session then session_delete u s else session_resume env u s } }"

end
