(* ===== verification/ServerPub.thy ===== *)
theory ServerPub
  imports ClientMgmt
begin

text \<open>
  Publications in the broker (\<open>server_core.c\<close>): the check of a topic and its normal form, the
  packet sent to the clients of a node, the retained data of a node, and \<open>_proc_pub_msg_rx\<close>,
  which handles a PUBLISH of a client or of the application.
\<close>

section \<open>Packets for the clients of a node\<close>

definition tn_get :: "broker \<Rightarrow> nat \<Rightarrow> topic_node" where
  "tn_get s n = nodes (b_tree s) n"

definition tn_upd :: "(topic_node \<Rightarrow> topic_node) \<Rightarrow> nat \<Rightarrow> broker \<Rightarrow> broker" where
  "tn_upd f n s = s\<lparr>b_tree := upd_node n f (b_tree s)\<rparr>"

definition MIN_u8 :: "u8 \<Rightarrow> u8 \<Rightarrow> u8" where
  "MIN_u8 a b = (if b < a then b else a)"

text \<open>\<open>data_buf\<close>: \<open>None\<close> for \<open>NULL\<close>. Without clients the packet is neither sent nor freed.\<close>

definition pub_msg_send :: "broker_env \<Rightarrow> utf8_string \<Rightarrow> u8 list option \<Rightarrow> u32 \<Rightarrow> u8 \<Rightarrow> u32 \<Rightarrow> broker \<Rightarrow> broker option" where
  "pub_msg_send env tp data_buf data_len fh_flags cl_map s =
     (let qos = ENUM_QOS fh_flags;
          (mqp, s) = mqp_server_alloc env MQTT_PUBLISH (2 + ucast (u_length tp) + 2 + data_len) s in
      case mqp of None \<Rightarrow> Some s
      | Some a \<Rightarrow> do {
          (ok, s) \<leftarrow> pub_append a tp (case data_buf of None \<Rightarrow> [] | Some d \<Rightarrow> d) data_len qos s;
          if \<not> ok then mqp_free a s
          else do {
            (_, s) \<leftarrow> pkt_run (\<lambda>m. mqp_prep_fh m fh_flags) a s;
            if cl_map \<noteq> 0 then cl_pub_dispatch env cl_map a s else Some s } })"

text \<open>The loop of \<open>leaf_msg_send\<close>: the map of the clients is held in a \<open>u8\<close>.\<close>

fun leaf_send_loop :: "broker_env \<Rightarrow> u32 list \<Rightarrow> u8 \<Rightarrow> utf8_string \<Rightarrow> u8 list option \<Rightarrow> u32 \<Rightarrow> bool \<Rightarrow> mqtt_qos \<Rightarrow> bool \<Rightarrow>
    broker \<Rightarrow> broker option" where
  "leaf_send_loop env [] qid tp data_buf data_len dup qos retain s = Some s"
| "leaf_send_loop env (m # ms) qid tp data_buf data_len dup qos retain s = do {
     let cl_map = (ucast m :: u8);
     let fh_fgs = MAKE_FH_FLAGS dup (MIN_u8 qid (QOS_VALUE qos)) retain;
     s \<leftarrow> (if cl_map \<noteq> 0 then pub_msg_send env tp data_buf data_len fh_fgs (ucast cl_map) s else Some s);
     leaf_send_loop env ms (qid + 1) tp data_buf data_len dup qos retain s }"

definition leaf_msg_send :: "broker_env \<Rightarrow> nat \<Rightarrow> utf8_string \<Rightarrow> u8 list option \<Rightarrow> u32 \<Rightarrow> bool \<Rightarrow> mqtt_qos \<Rightarrow> bool \<Rightarrow>
    broker \<Rightarrow> broker option" where
  "leaf_msg_send env leaf tp data_buf data_len dup qos retain s = do {
     s \<leftarrow> leaf_send_loop env (tn_cl_map (tn_get s leaf)) 0 tp data_buf data_len dup qos retain s;
     if enrolls_plugin (tn_get s leaf) then do {
       tr \<leftarrow> plugin_publish (b_plug s) (tn_pg_map (tn_get s leaf)) (u_content tp)
               (case data_buf of None \<Rightarrow> [] | Some d \<Rightarrow> take (unat data_len) d) dup qos retain (b_trace s);
       Some (s\<lparr>b_trace := tr\<rparr>) }
     else Some s }"

section \<open>Data of a node\<close>

definition node_data_set :: "u8 list option \<Rightarrow> u32 \<Rightarrow> u8 \<Rightarrow> bool \<Rightarrow> topic_node \<Rightarrow> topic_node" where
  "node_data_set data dlen qid retain n =
     node_retain_set retain (node_qid_set qid (n\<lparr>tn_my_data := data, tn_my_dlen := dlen\<rparr>))"

text \<open>The old data is given back to \<open>malloc\<close>; the memory of the new is its list of bytes.\<close>

definition node_data_update :: "broker_env \<Rightarrow> nat \<Rightarrow> bool \<Rightarrow> u8 list option \<Rightarrow> u32 \<Rightarrow> u8 \<Rightarrow> bool \<Rightarrow>
    broker \<Rightarrow> (bool \<times> broker) option" where
  "node_data_update env n drop_qid0 data_buf data_len qid retain s =
     (if drop_qid0 \<and> qid = 0 then Some (data_len = 0, tn_upd (node_data_set None 0 0 False) n s)
      else case data_buf of
        None \<Rightarrow> Some (data_len = 0, tn_upd (node_data_set None data_len qid retain) n s)
      | Some src \<Rightarrow>
          let ok = e_malloc env (b_trace s) (unat data_len); s = log_ev (EvMalloc (unat data_len) ok) s in
          if \<not> ok then Some (data_len = 0, tn_upd (node_data_set None 0 0 False) n s)
          else if length src < unat data_len then None
          else Some (data_len \<noteq> 0, tn_upd (node_data_set (Some (take (unat data_len) src)) data_len qid retain) n s))"

section \<open>Topics of publications\<close>

definition WBUF_LEN :: nat where "WBUF_LEN = 1024"

text \<open>The copy loop of \<open>pub_topic_read\<close> over the characters from index \<open>i\<close> on.\<close>

fun topic_read_loop :: "c8 list \<Rightarrow> nat \<Rightarrow> c8 list \<Rightarrow> (bool \<times> c8 list) option" where
  "topic_read_loop [] i buf = Some (True, buf)"
| "topic_read_loop (c # cs) i buf =
     (if is_wildcard_char c \<or> c = 0 then Some (False, buf)
      else do { buf \<leftarrow> buf_put buf i c; topic_read_loop cs (Suc i) buf })"

definition pub_topic_read :: "utf8_string \<Rightarrow> c8 list \<Rightarrow> nat \<Rightarrow> (i32 \<times> c8 list) option" where
  "pub_topic_read tp buf len =
     (let toplen = unat (u_length tp) in
      if len < toplen + 1 then Some (- 1, buf)
      else if \<not> u_valid tp then None
      else do {
        (ok, buf) \<leftarrow> topic_read_loop (u_content tp) 0 buf;
        if \<not> ok then Some (- 1, buf)
        else do { buf \<leftarrow> buf_put buf toplen 0; Some (int toplen, buf) } })"

text \<open>The loop of \<open>proc_forward_slash\<close> and its tail: the new length and the buffer.\<close>

function fwd_slash_loop :: "c8 list \<Rightarrow> nat \<Rightarrow> nat \<Rightarrow> nat \<Rightarrow> (nat \<times> c8 list) option" where
  "fwd_slash_loop buf i j len =
     (if i < len then do {
        c \<leftarrow> buf_get buf i;
        b \<leftarrow> buf_get buf (i - 1);
        if c = SLASH \<and> b = c then fwd_slash_loop buf (Suc i) j len
        else do { buf \<leftarrow> buf_put buf j c; fwd_slash_loop buf (Suc i) (Suc j) len } }
      else Some (j, buf))"
  by pat_completeness auto
termination by (relation "measure (\<lambda>(_, i, _, len). len - i)") auto

declare fwd_slash_loop.simps [simp del]

definition proc_forward_slash :: "c8 list \<Rightarrow> u16 \<Rightarrow> (u16 \<times> c8 list) option" where
  "proc_forward_slash buf len = do {
     (j, buf) \<leftarrow> fwd_slash_loop buf 1 1 (unat len);
     c \<leftarrow> buf_get buf (j - 1);
     let j = (if j \<noteq> 1 \<and> c = SLASH then j - 1 else j);
     buf \<leftarrow> buf_put buf j 0;
     Some (of_nat j, buf) }"

section \<open>Processing of a PUBLISH\<close>

definition proc_sub_tree_topPUB :: "broker_env \<Rightarrow> c8 list \<Rightarrow> utf8_string \<Rightarrow> u8 list option \<Rightarrow> u32 \<Rightarrow> mqtt_qos \<Rightarrow> bool \<Rightarrow>
    broker \<Rightarrow> broker option" where
  "proc_sub_tree_topPUB env topPUB tp data_buf data_len qos retain s =
     sub_tree_topPUB (b_tree s) topPUB (\<lambda>leaf s. leaf_msg_send env leaf tp data_buf data_len False qos retain s) (b_stack s) s"

text \<open>The handlers with their parts: the release of a node, and the storing of retained data.\<close>

definition br_try_delete :: "ptr \<Rightarrow> broker \<Rightarrow> broker option" where
  "br_try_delete n s = do { t \<leftarrow> try_node_delete (b_tree s) n; Some (s\<lparr>b_tree := t\<rparr>) }"

definition br_node_create :: "c8 list \<Rightarrow> broker \<Rightarrow> (ptr \<times> broker) option" where
  "br_node_create tp s = do { (n, t) \<leftarrow> topic_node_create (b_tree s) tp; Some (n, s\<lparr>b_tree := t\<rparr>) }"

definition proc_pub_msg_rx :: "broker_env \<Rightarrow> ptr \<Rightarrow> utf8_string \<Rightarrow> u8 list option \<Rightarrow> u32 \<Rightarrow> u8 \<Rightarrow> mqtt_qos \<Rightarrow> bool \<Rightarrow>
    broker \<Rightarrow> (bool \<times> broker) option" where
  "proc_pub_msg_rx env usr_cl tp data_buf data_len msg_id qos retain s = do {
     (rv, buf) \<leftarrow> pub_topic_read tp (b_work_buf s) WBUF_LEN;
     let s = s\<lparr>b_work_buf := buf\<rparr>;
     if rv \<le> 0 then Some (False, s)
     else do {
       (len, buf) \<leftarrow> proc_forward_slash (b_work_buf s) (u_length tp);
       let s = s\<lparr>b_work_buf := buf\<rparr>;
       if len = 0 then Some (False, s)
       else do {
         (ok, s) \<leftarrow> (if msg_id \<noteq> 0 \<and> qos = MQTT_QOS2 then cl_mgmt_qos2_pub_rx_update usr_cl (ucast msg_id) s else Some (True, s));
         if \<not> ok then Some (False, s)
         else do {
           topPUB \<leftarrow> cstr_get (b_work_buf s);
           s \<leftarrow> proc_sub_tree_topPUB env topPUB tp data_buf data_len qos False s;
           if retain then do {
             (leaf, s) \<leftarrow> br_node_create topPUB s;
             case leaf of
               None \<Rightarrow> Some (False, s)
             | Some l \<Rightarrow> do {
                 (ok, s) \<leftarrow> node_data_update env l True data_buf data_len (QOS_VALUE qos) retain s;
                 s \<leftarrow> br_try_delete (Some l) s;
                 Some (ok, s) } }
           else Some (True, s) } } } }"

text \<open>The entry for a client's PUBLISH: the 16-bit identifier is passed on as a \<open>u8\<close>. The entry
  for the application.\<close>

definition proc_pub_msg_rx_locked :: "broker_env \<Rightarrow> ptr \<Rightarrow> utf8_string \<Rightarrow> u8 list option \<Rightarrow> u32 \<Rightarrow> u16 \<Rightarrow> bool \<Rightarrow> mqtt_qos \<Rightarrow> bool \<Rightarrow>
    broker \<Rightarrow> (bool \<times> broker) option" where
  "proc_pub_msg_rx_locked env usr_cl tp data_buf data_len msg_id dup qos retain s =
     proc_pub_msg_rx env usr_cl tp data_buf data_len (ucast msg_id) qos retain s"

definition proc_app_pub_send_locked :: "broker_env \<Rightarrow> utf8_string \<Rightarrow> u8 list option \<Rightarrow> u32 \<Rightarrow> mqtt_qos \<Rightarrow> bool \<Rightarrow>
    broker \<Rightarrow> (i32 \<times> broker) option" where
  "proc_app_pub_send_locked env tp data_buf data_len qos retain s = do {
     (rv, s) \<leftarrow> proc_pub_msg_rx env None tp data_buf data_len 0x00 qos retain s;
     Some (if rv then sint data_len else - 1, s) }"

end
