(* ===== verification/ServerSub.thy ===== *)
theory ServerSub
  imports ServerPub
begin

text \<open>
  SUBSCRIBE and UNSUBSCRIBE in the broker (\<open>server_core.c\<close>): the check of a topic filter, the
  search for the retained data that a new subscription must receive, for topics with and
  without a multi-level wildcard, and the recording of the subscription in the topic tree.

  The text of a topic filter lies in the buffer it was received in and is changed there; such a
  buffer is a memory region. \<open>mk_pubtop\<close> describes the static \<open>work_buf\<close>.
\<close>

section \<open>Recording a subscription\<close>

definition clear_client :: "u32 \<Rightarrow> topic_node \<Rightarrow> topic_node" where
  "clear_client cl_map n = n\<lparr>tn_cl_map := map (\<lambda>m. m AND NOT cl_map) (tn_cl_map n)\<rparr>"

definition SUB_node_create :: "c8 list \<Rightarrow> u8 \<Rightarrow> nat \<Rightarrow> broker \<Rightarrow> (ptr \<times> broker) option" where
  "SUB_node_create topSUB qid u s = do {
     (leaf, s) \<leftarrow> br_node_create topSUB s;
     case leaf of
       None \<Rightarrow> Some (None, s)
     | Some l \<Rightarrow> do {
         cl_map \<leftarrow> cl_bmap_get (Some u) s;
         let maps = tn_cl_map (clear_client cl_map (tn_get s l));
         m \<leftarrow> buf_get maps (unat qid);
         maps \<leftarrow> buf_put maps (unat qid) (m OR cl_map);
         s \<leftarrow> cl_sub_count_add u (tn_upd (\<lambda>n. n\<lparr>tn_cl_map := maps\<rparr>) l s);
         Some (Some l, s) } }"

section \<open>Retained data for a new subscription\<close>

definition topic_of :: "topbuf_desc \<Rightarrow> utf8_string" where
  "topic_of tb = \<lparr>u_buffer = tb_buffer tb, u_length = tb_offset tb\<rparr>"

definition proc_pub_leaf :: "broker_env \<Rightarrow> nat \<Rightarrow> utf8_string \<Rightarrow> mqtt_qos \<Rightarrow> nat \<Rightarrow> broker \<Rightarrow> (u8 \<times> broker) option" where
  "proc_pub_leaf env leaf tp qos u s =
     (let qid = QOS_VALUE qos; n = tn_get s leaf in
      if is_node_retain n then do {
        let qid = MIN_u8 (node_qid_get n) qid;
        cl_map \<leftarrow> cl_bmap_get (Some u) s;
        s \<leftarrow> pub_msg_send env tp (tn_my_data n) (tn_my_dlen n) (MAKE_FH_FLAGS False qid True) cl_map s;
        Some (qid, s) }
      else Some (qid, s))"

text \<open>The loop of \<open>proc_pub_hier_no_top\<close>; the result is the final \<open>node\<close> and \<open>leaf\<close>.\<close>

partial_function (option) no_top_loop ::
  "topic_tree \<Rightarrow> ptr \<Rightarrow> ptr \<Rightarrow> topbuf_desc \<Rightarrow> node_stack \<Rightarrow> (ptr \<times> ptr \<times> topbuf_desc \<times> node_stack) option" where
  "no_top_loop t node leaf tb st =
     (case node of
        None \<Rightarrow> Some (None, leaf, tb, st)
      | Some n \<Rightarrow> do {
          st \<leftarrow> push_nhbr t n [] (ucast (tb_offset tb)) st;
          if has_a_wildcard (nodes t n) then Some (node, leaf, tb, st)
          else do {
            (ok, tb) \<leftarrow> topbuf_add tb (nodes t n);
            if \<not> ok then Some (node, leaf, tb, st)
            else no_top_loop t (tn_dn_hier (nodes t n)) node tb st } })"

definition proc_pub_hier_no_top :: "broker_env \<Rightarrow> nat \<Rightarrow> topbuf_desc \<Rightarrow> mqtt_qos \<Rightarrow> nat \<Rightarrow> broker \<Rightarrow> (u8 \<times> topbuf_desc \<times> broker) option" where
  "proc_pub_hier_no_top env base tb qos u s = do {
     (node, leaf, tb, st) \<leftarrow> no_top_loop (b_tree s) (Some base) None tb (b_stack s);
     let s = s\<lparr>b_stack := st\<rparr>;
     (ack, s) \<leftarrow> (case (node, leaf) of
         (None, Some l) \<Rightarrow> proc_pub_leaf env l (topic_of tb) qos u s
       | _ \<Rightarrow> Some (QOS_VALUE qos, s));
     Some (ack, tb, s) }"

text \<open>The loop \<open>while(stack_ref < stack_idx)\<close> of the three tree walks with the handler \<open>hier\<close>
  for one entry of the stack; the smallest value acknowledged is collected.\<close>

partial_function (option) walk_loop ::
  "(nat \<Rightarrow> c8 list \<Rightarrow> topbuf_desc \<Rightarrow> broker \<Rightarrow> (u8 \<times> topbuf_desc \<times> broker) option) \<Rightarrow> nat \<Rightarrow> u8 \<Rightarrow> topbuf_desc \<Rightarrow>
   broker \<Rightarrow> (u8 \<times> topbuf_desc \<times> broker) option" where
  "walk_loop hier stack_ref mn tb s =
     (if stack_ref < length (b_stack s) then do {
        ((node, val1, val2), st) \<leftarrow> stack_pop (b_stack s);
        (ack, tb, s) \<leftarrow> hier node val1 (tb\<lparr>tb_offset := ucast val2\<rparr>) (s\<lparr>b_stack := st\<rparr>);
        walk_loop hier stack_ref (if ack < mn then ack else mn) tb s }
      else Some (mn, tb, s))"

definition walk_tree ::
  "(nat \<Rightarrow> c8 list \<Rightarrow> topbuf_desc \<Rightarrow> broker \<Rightarrow> (u8 \<times> topbuf_desc \<times> broker) option) \<Rightarrow> ptr \<Rightarrow> c8 list \<Rightarrow> u8 \<Rightarrow>
   topbuf_desc \<Rightarrow> broker \<Rightarrow> (u8 \<times> topbuf_desc \<times> broker) option" where
  "walk_tree hier base val1 mn tb s = do {
     st \<leftarrow> (case base of None \<Rightarrow> Some (b_stack s) | Some b \<Rightarrow> stack_add (b_stack s) b val1 (ucast (tb_offset tb)));
     walk_loop hier (length (b_stack s)) mn tb (s\<lparr>b_stack := st\<rparr>) }"

definition proc_pub_tree_no_top :: "broker_env \<Rightarrow> ptr \<Rightarrow> topbuf_desc \<Rightarrow> mqtt_qos \<Rightarrow> nat \<Rightarrow> broker \<Rightarrow> (u8 \<times> topbuf_desc \<times> broker) option" where
  "proc_pub_tree_no_top env base tb qos u s =
     walk_tree (\<lambda>node val1 tb s. proc_pub_hier_no_top env node tb qos u s) base [] (QOS_VALUE qos) tb s"

definition proc_pub_hier_SUBtop :: "broker_env \<Rightarrow> c8 list \<Rightarrow> nat \<Rightarrow> topbuf_desc \<Rightarrow> mqtt_qos \<Rightarrow> nat \<Rightarrow> broker \<Rightarrow> (u8 \<times> topbuf_desc \<times> broker) option" where
  "proc_pub_hier_SUBtop env topSUB base tb qos u s = do {
     (leaf, tb, st) \<leftarrow> pub_hier_search (b_tree s) topSUB (Some base) tb (b_stack s);
     let s = s\<lparr>b_stack := st\<rparr>;
     (min, s) \<leftarrow> (case leaf of None \<Rightarrow> Some (QOS_VALUE qos, s) | Some l \<Rightarrow> proc_pub_leaf env l (topic_of tb) qos u s);
     Some (min, tb, s) }"

definition proc_pub_tree_SUBtop :: "broker_env \<Rightarrow> c8 list \<Rightarrow> ptr \<Rightarrow> topbuf_desc \<Rightarrow> mqtt_qos \<Rightarrow> nat \<Rightarrow> broker \<Rightarrow> (u8 \<times> topbuf_desc \<times> broker) option" where
  "proc_pub_tree_SUBtop env topSUB base tb qos u s =
     walk_tree (\<lambda>node val1 tb s. proc_pub_hier_SUBtop env val1 node tb qos u s) base topSUB (QOS_VALUE qos) tb s"

text \<open>\<open>parent_subtop\<close> is the region from the pointer to the end of the array \<open>subtop\<close>.\<close>

definition proc_sub_ml_wc_hier :: "broker_env \<Rightarrow> c8 list \<Rightarrow> c8 list \<Rightarrow> nat \<Rightarrow> topbuf_desc \<Rightarrow> mqtt_qos \<Rightarrow> nat \<Rightarrow> broker \<Rightarrow>
    (u8 \<times> topbuf_desc \<times> broker) option" where
  "proc_sub_ml_wc_hier env grandpa_topSUB parent_subtop base tb qos u s = do {
     let min = QOS_VALUE qos;
     (found, base, tb, s) \<leftarrow> (if grandpa_topSUB \<noteq> [] then do {
          (leaf, tb, st) \<leftarrow> pub_hier_search (b_tree s) grandpa_topSUB (Some base) tb (b_stack s);
          let s = s\<lparr>b_stack := st\<rparr>;
          case leaf of None \<Rightarrow> Some (False, None, tb, s) | Some l \<Rightarrow> Some (True, tn_dn_hier (tn_get s l), tb, s) }
        else Some (True, Some base, tb, s));
     if \<not> found then Some (min, tb, s)
     else do {
       subtop \<leftarrow> cstr_get parent_subtop;
       (ack, base, tb, s) \<leftarrow> (if subtop \<noteq> [] \<and> hd subtop \<noteq> PLUS \<and> hd subtop \<noteq> SLASH then do {
            let ofst = tb_offset tb;
            (ack, tb, s) \<leftarrow> proc_pub_tree_SUBtop env subtop base tb qos u s;
            let tb = tb\<lparr>tb_offset := ofst\<rparr>;
            hier_subtop \<leftarrow> cstr_get (parent_subtop[length subtop := SLASH]);
            nh \<leftarrow> nhbr_node_find (b_tree s) base hier_subtop;
            case nh of
              None \<Rightarrow> Some (ack, None, tb, s)
            | Some b \<Rightarrow> do {
                (ok, tb) \<leftarrow> topbuf_cpy tb hier_subtop;
                Some (ack, if ok then tn_dn_hier (tn_get s b) else None, tb, s) } }
          else Some (QFL_VALUE, base, tb, s));
       let min = MIN_u8 min ack;
       (ack, tb, s) \<leftarrow> (if base \<noteq> None then proc_pub_tree_no_top env base tb qos u s else Some (ack, tb, s));
       Some (MIN_u8 min ack, tb, s) } }"

definition wbuf_desc :: "broker \<Rightarrow> topbuf_desc" where
  "wbuf_desc s = \<lparr>tb_buffer = b_work_buf s, tb_maxlen = of_nat WBUF_LEN, tb_offset = 0\<rparr>"

definition proc_sub_ml_wc_tree :: "broker_env \<Rightarrow> c8 list \<Rightarrow> c8 list \<Rightarrow> ptr \<Rightarrow> mqtt_qos \<Rightarrow> nat \<Rightarrow> broker \<Rightarrow> (u8 \<times> broker) option" where
  "proc_sub_ml_wc_tree env grandpa_topSUB parent_subtop base qos u s = do {
     (min, tb, s) \<leftarrow> walk_tree (\<lambda>node val1 tb s. proc_sub_ml_wc_hier env val1 parent_subtop node tb qos u s)
                      base grandpa_topSUB (QOS_VALUE qos) (wbuf_desc s) s;
     Some (min, s\<lparr>b_work_buf := tb_buffer tb\<rparr>) }"

section \<open>SUBSCRIBE\<close>

text \<open>\<open>ml_wc_nodes_create\<close>: the granted QoS and the buffer of the topic, restored.\<close>

definition ml_wc_nodes_create :: "c8 list \<Rightarrow> nat \<Rightarrow> u8 \<Rightarrow> nat \<Rightarrow> broker \<Rightarrow> (u8 \<times> c8 list \<times> broker) option" where
  "ml_wc_nodes_create parent_topSUB toplen qid u s = do {
     tp \<leftarrow> cstr_get parent_topSUB;
     (failed, parent_leaf, s) \<leftarrow> (if tp \<noteq> [] then do {
          (l, s) \<leftarrow> SUB_node_create tp qid u s; Some (l = None, l, s) }
        else Some (False, None, s));
     if failed then Some (QFL_VALUE, parent_topSUB, s)
     else do {
       buf \<leftarrow> (if 1 < toplen then buf_put parent_topSUB (toplen - 2) SLASH else Some parent_topSUB);
       buf \<leftarrow> (if 0 < toplen then buf_put buf (toplen - 1) HASH else None);
       tp \<leftarrow> cstr_get buf;
       (l, s) \<leftarrow> SUB_node_create tp qid u s;
       if l = None then
         Some (QFL_VALUE, buf, case parent_leaf of None \<Rightarrow> s | Some p \<Rightarrow> s\<lparr>b_tree := snd (node_delete (b_tree s) p)\<rparr>)
       else Some (qid, buf, s) } }"

text \<open>The copy loop of \<open>proc_sub_ml_wildcard\<close>: \<open>len\<close> and the region \<open>ptr\<close> points to.\<close>

function parent_loop :: "c8 list \<Rightarrow> nat \<Rightarrow> nat \<Rightarrow> nat \<Rightarrow> c8 list \<Rightarrow> (nat \<times> c8 list) option" where
  "parent_loop topSUB toplen limit len sub = do {
     c \<leftarrow> (if len < toplen then buf_get topSUB (toplen - len - 1) else None);
     if c = SLASH then Some (len, sub)
     else if Suc len < limit then parent_loop topSUB toplen limit (Suc len) (c # sub)
     else Some (Suc len, c # sub) }"
  by pat_completeness auto
termination by (relation "measure (\<lambda>(_, _, limit, len, _). limit - len)") auto

declare parent_loop.simps [simp del]

definition proc_sub_ml_wildcard :: "broker_env \<Rightarrow> c8 list \<Rightarrow> nat \<Rightarrow> mqtt_qos \<Rightarrow> nat \<Rightarrow> broker \<Rightarrow> (u8 \<times> broker) option" where
  "proc_sub_ml_wildcard env topSUB toplen qos u s = do {
     buf \<leftarrow> (if 0 < toplen then buf_put topSUB (toplen - 1) 0 else None);
     buf \<leftarrow> (if 1 < toplen then buf_put buf (toplen - 2) 0 else Some buf);
     (len, subtop) \<leftarrow> parent_loop buf toplen (min toplen MAX_SUBTOP_LEN) 0 [];
     c \<leftarrow> (if len < toplen then buf_get buf (toplen - len - 1) else Some SLASH);
     if c \<noteq> SLASH then Some (QFL_VALUE, s)
     else do {
       buf \<leftarrow> buf_put buf (toplen - len) 0;
       grandpa \<leftarrow> cstr_get buf;
       (m, s) \<leftarrow> proc_sub_ml_wc_tree env grandpa subtop (root_node (b_tree s)) qos u s;
       parent \<leftarrow> cstr_get subtop;
       buf \<leftarrow> buf_wr_nbytes buf (toplen - len) (parent @ [0]) (length parent + 1);
       (m, buf, s) \<leftarrow> ml_wc_nodes_create buf toplen m u s;
       Some (m, s) } }"

definition proc_sub_sl_or_no_wc :: "broker_env \<Rightarrow> c8 list \<Rightarrow> mqtt_qos \<Rightarrow> nat \<Rightarrow> broker \<Rightarrow> (u8 \<times> broker) option" where
  "proc_sub_sl_or_no_wc env topSUB qos u s = do {
     (min, tb, s) \<leftarrow> proc_pub_tree_SUBtop env topSUB (root_node (b_tree s)) (wbuf_desc s) qos u s;
     let s = s\<lparr>b_work_buf := tb_buffer tb\<rparr>;
     (l, s) \<leftarrow> SUB_node_create topSUB min u s;
     Some (if l = None then QFL_VALUE else min, s) }"

definition is_valid_char_order :: "c8 \<Rightarrow> c8 \<Rightarrow> bool" where
  "is_valid_char_order prev c \<longleftrightarrow>
     \<not> (prev \<noteq> SLASH \<and> c = PLUS \<or> prev = PLUS \<and> c \<noteq> SLASH \<or> prev \<noteq> SLASH \<and> c = HASH \<or> prev = HASH)"

text \<open>The loop of \<open>is_valid_SUB_top\<close> from index \<open>i\<close> with \<open>curr\<close>; the result is the final \<open>i\<close>.\<close>

function valid_loop :: "c8 list \<Rightarrow> nat \<Rightarrow> nat \<Rightarrow> c8 \<Rightarrow> nat option" where
  "valid_loop buf len i cur =
     (if i < len \<and> cur \<noteq> 0 then do {
        c \<leftarrow> buf_get buf i;
        if \<not> is_valid_char_order cur c then Some i else valid_loop buf len (Suc i) c }
      else Some i)"
  by pat_completeness auto
termination by (relation "measure (\<lambda>(_, len, i, _). len - i)") auto

declare valid_loop.simps [simp del]

definition is_valid_SUB_top :: "c8 list \<Rightarrow> u16 \<Rightarrow> bool option" where
  "is_valid_SUB_top buf len =
     (if len = 0 then Some False
      else do {
        c \<leftarrow> buf_get buf 0;
        if c = 0 then Some False
        else do { i \<leftarrow> valid_loop buf (unat len) 1 c; Some (i = unat len) } })"

text \<open>One round of the loop of \<open>proc_sub_msg_rx\<close>: the value for the SUBACK.\<close>

definition proc_sub_topic :: "broker_env \<Rightarrow> nat \<Rightarrow> utf8_strqos \<Rightarrow> broker \<Rightarrow> (u8 \<times> broker) option" where
  "proc_sub_topic env u qt s = do {
     (len, buf) \<leftarrow> proc_forward_slash (q_buffer qt) (q_length qt);
     ok \<leftarrow> is_valid_SUB_top buf len;
     if \<not> ok then Some (QFL_VALUE, s)
     else do {
       buf \<leftarrow> buf_put buf (unat len) 0;
       c \<leftarrow> buf_get buf (unat len - 1);
       if c = HASH then proc_sub_ml_wildcard env buf (unat len) (q_qosreq qt) u s
       else do { tp \<leftarrow> cstr_get buf; proc_sub_sl_or_no_wc env tp (q_qosreq qt) u s } } }"

fun proc_sub_msg_rx :: "broker_env \<Rightarrow> nat \<Rightarrow> utf8_strqos list \<Rightarrow> broker \<Rightarrow> (u8 list \<times> broker) option" where
  "proc_sub_msg_rx env u [] s = Some ([], s)"
| "proc_sub_msg_rx env u (qt # qts) s = do {
     (ack, s) \<leftarrow> proc_sub_topic env u qt s;
     (acks, s) \<leftarrow> proc_sub_msg_rx env u qts s;
     Some (ack # acks, s) }"

section \<open>UNSUBSCRIBE\<close>

fun un_sub_maps :: "u32 \<Rightarrow> u32 list \<Rightarrow> bool \<times> u32 list" where
  "un_sub_maps cl_map [] = (False, [])"
| "un_sub_maps cl_map (m # ms) =
     (if m AND cl_map = 0 then (let (b, ms) = un_sub_maps cl_map ms in (b, m # ms))
      else (True, (m AND NOT cl_map) # ms))"

definition leaf_un_sub :: "nat \<Rightarrow> nat \<Rightarrow> broker \<Rightarrow> broker option" where
  "leaf_un_sub leaf u s = do {
     cl_map \<leftarrow> cl_bmap_get (Some u) s;
     let (hit, maps) = un_sub_maps cl_map (tn_cl_map (tn_get s leaf));
     if hit then do {
       s \<leftarrow> cl_sub_count_del u (tn_upd (\<lambda>n. n\<lparr>tn_cl_map := maps\<rparr>) leaf s);
       br_try_delete (Some leaf) s }
     else Some s }"

definition un_sub_find :: "c8 list \<Rightarrow> nat \<Rightarrow> broker \<Rightarrow> broker option" where
  "un_sub_find buf u s = do {
     tp \<leftarrow> cstr_get buf;
     leaf \<leftarrow> leaf_node_find (b_tree s) tp;
     case leaf of None \<Rightarrow> Some s | Some l \<Rightarrow> leaf_un_sub l u s }"

definition proc_un_sub_topic :: "nat \<Rightarrow> utf8_string \<Rightarrow> broker \<Rightarrow> broker option" where
  "proc_un_sub_topic u tp s = do {
     let len = unat (u_length tp);
     buf \<leftarrow> strncpy (b_work_buf s) 0 (u_buffer tp) len;
     buf \<leftarrow> buf_put buf len 0;
     c \<leftarrow> (if 0 < len then buf_get buf (len - 1) else None);
     s \<leftarrow> (if c = HASH then do {
             b \<leftarrow> buf_put buf (len - 1) 0;
             b \<leftarrow> (if 1 < len then buf_put b (len - 2) 0 else Some b);
             un_sub_find b u s }
           else Some s);
     buf \<leftarrow> (if c = HASH \<and> 1 < len then buf_put buf (len - 2) SLASH else Some buf);
     un_sub_find buf u (s\<lparr>b_work_buf := buf\<rparr>) }"

fun proc_un_sub_msg :: "nat \<Rightarrow> utf8_string list \<Rightarrow> broker \<Rightarrow> (bool \<times> broker) option" where
  "proc_un_sub_msg u [] s = Some (True, s)"
| "proc_un_sub_msg u (tp # tps) s = do { s \<leftarrow> proc_un_sub_topic u tp s; proc_un_sub_msg u tps s }"

end
