(* ===== verification/TopicText.thy ===== *)
theory TopicText
  imports ServerSub
begin

text \<open>
  The text of topics in the broker: the normal form that \<open>proc_forward_slash\<close> writes into the
  buffer of a topic, and the check of a topic filter (\<open>is_valid_SUB_top\<close>) against the MQTT rules
  for wildcards, stated on the list of levels.
\<close>

section \<open>The normal form of a topic\<close>

text \<open>A slash behind a slash is dropped (\<open>p\<close> is the character in front), and a slash at the end.\<close>

fun squeeze :: "c8 \<Rightarrow> c8 list \<Rightarrow> c8 list" where
  "squeeze p [] = []"
| "squeeze p (c # cs) = (if c = SLASH \<and> p = c then squeeze c cs else c # squeeze c cs)"

fun norm_topic :: "c8 list \<Rightarrow> c8 list" where
  "norm_topic [] = []"
| "norm_topic (c # cs) = (let s = c # squeeze c cs in if length s \<noteq> 1 \<and> last s = SLASH then butlast s else s)"

lemma length_squeeze: "length (squeeze p cs) \<le> length cs"
  by (induction p cs rule: squeeze.induct) auto

lemma fwd_slash_loop_eq:
  assumes "1 \<le> j" "j \<le> i" "i \<le> len" "len \<le> length buf"
  shows "fwd_slash_loop buf i j len =
    (let q = squeeze (buf ! (i - 1)) (take (len - i) (drop i buf)) in Some (j + length q, overlay buf j q))"
  using assms
proof (induction "len - i" arbitrary: i j buf)
  case 0
  then show ?case by (subst fwd_slash_loop.simps) simp
next
  case (Suc k)
  then have i: "i < len" "i < length buf" "i - 1 < length buf" by auto
  have xs: "take (len - i) (drop i buf) = buf ! i # take (len - Suc i) (drop (Suc i) buf)"
    using i by (simp add: Cons_nth_drop_Suc[symmetric] take_Cons' Suc_diff_Suc)
  show ?case
  proof (cases "buf ! i = SLASH \<and> buf ! (i - 1) = buf ! i")
    case True
    then have "fwd_slash_loop buf i j len = fwd_slash_loop buf (Suc i) j len"
      using i by (subst fwd_slash_loop.simps) (simp add: mem_simps)
    also have "\<dots> = (let q = squeeze (buf ! i) (take (len - Suc i) (drop (Suc i) buf)) in Some (j + length q, overlay buf j q))"
      using Suc(1)[of "Suc i" j buf] Suc(2-) i by simp
    finally show ?thesis using True by (simp add: xs)
  next
    case False
    let ?b = "buf[j := buf ! i]"
    have "fwd_slash_loop buf i j len = fwd_slash_loop ?b (Suc i) (Suc j) len"
      using i Suc(4) False by (subst fwd_slash_loop.simps) (auto simp: mem_simps)
    also have "\<dots> = (let q = squeeze (?b ! i) (take (len - Suc i) (drop (Suc i) ?b)) in Some (Suc j + length q, overlay ?b (Suc j) q))"
      using Suc(1)[of "Suc i" "Suc j" ?b] Suc(2-) i by simp
    also have "?b ! i = buf ! i" using i by (cases "j = i") simp_all
    also have "drop (Suc i) ?b = drop (Suc i) buf" using Suc(4) by simp
    finally show ?thesis using False i Suc(4) by (auto simp: xs Let_def overlay_Cons)
  qed
qed

text \<open>What \<open>proc_forward_slash\<close> leaves in the buffer.\<close>

lemma norm_topic_nempty: "s \<noteq> [] \<Longrightarrow> norm_topic s \<noteq> []"
  by (cases s) (auto simp: Let_def)

lemma length_norm_topic: "length (norm_topic s) \<le> length s"
  using length_squeeze by (cases s) (auto simp: Let_def le_SucI)

lemma squeeze_set: "set (squeeze p cs) \<subseteq> set cs"
  by (induction p cs rule: squeeze.induct) auto

lemma norm_topic_set: "set (norm_topic s) \<subseteq> set s"
proof (cases s)
  case (Cons c cs)
  have "set (c # squeeze c cs) \<subseteq> set s" using squeeze_set[of c cs] Cons by auto
  moreover have "set (norm_topic s) \<subseteq> set (c # squeeze c cs)"
  proof -
    have "set (if b then butlast xs else xs) \<subseteq> set xs" for b and xs :: "c8 list" by (auto dest: in_set_butlastD)
    then show ?thesis unfolding Cons norm_topic.simps Let_def .
  qed
  ultimately show ?thesis by blast
qed simp

lemma proc_forward_slash_eq:
  assumes "s \<noteq> []" "unat len = length s" "length s < length buf" "take (length s) buf = s"
  shows "\<exists>buf'. proc_forward_slash buf len = Some (of_nat (length (norm_topic s)), buf') \<and> length buf' = length buf \<and>
     take (length (norm_topic s)) buf' = norm_topic s \<and> buf' ! length (norm_topic s) = 0 \<and>
     drop (Suc (length s)) buf' = drop (Suc (length s)) buf"
proof -
  obtain c cs where s: "s = c # cs" using assms(1) by (cases s) auto
  have b0: "buf ! 0 = c" and b1: "take (length s - 1) (drop 1 buf) = cs"
    using assms(3,4) s by (cases buf; simp)+
  define q where "q = squeeze c cs"
  have q: "length q \<le> length cs" unfolding q_def by (rule length_squeeze)
  let ?b = "overlay buf 1 q"
  have lb: "length ?b = length buf" using q assms(3) s by simp
  have tb: "take (1 + length q) ?b = c # q"
    using q assms(3) s b0 by (cases buf) (simp_all add: overlay_def)
  have loop: "fwd_slash_loop buf 1 1 (unat len) = Some (1 + length q, ?b)"
    using fwd_slash_loop_eq[of 1 1 "unat len" buf] assms(2,3) s b0 b1 by (simp add: q_def Let_def)
  define j where "j = 1 + length q"
  have bj: "?b ! (j - 1) = last (c # q)"
  proof -
    have "last (c # q) = (take (1 + length q) ?b) ! length q" unfolding tb by (simp add: last_conv_nth)
    then show ?thesis by (simp add: j_def)
  qed
  define n where "n = (if j \<noteq> 1 \<and> ?b ! (j - 1) = SLASH then j - 1 else j)"
  have nm: "norm_topic s = take n (c # q)" and n: "n = length (norm_topic s)" "n \<le> j"
    using bj by (auto simp: s n_def j_def q_def[symmetric] Let_def butlast_conv_take)
  have jl: "j \<le> length s" using q s by (simp add: j_def)
  have "proc_forward_slash buf len = Some (of_nat n, ?b[n := 0])"
  proof -
    have "fwd_slash_loop buf 1 1 (unat len) = Some (j, ?b)" using loop by (simp only: j_def)
    moreover have "buf_get ?b (j - 1) = Some (?b ! (j - 1))" "buf_put ?b n 0 = Some (?b[n := 0])"
      using lb jl assms(3) n(2) by (simp_all add: mem_simps)
    ultimately show ?thesis
      by (simp only: proc_forward_slash_def Option.bind.bind_lunit prod.case Let_def n_def[symmetric])
  qed
  moreover have "take n (?b[n := 0]) = norm_topic s"
  proof -
    have "take n ?b = take n (take j ?b)" using n(2) by simp
    also have "take j ?b = c # q" using tb by (simp only: j_def)
    finally show ?thesis by (simp only: nm take_update_cancel order_refl)
  qed
  moreover have "drop (Suc (length s)) (?b[n := 0]) = drop (Suc (length s)) buf"
    using n(2) jl q s assms(3) by (simp add: drop_overlay_past)
  moreover have "?b[n := 0] ! n = 0" using lb jl n(2) assms(3) by simp
  ultimately show ?thesis using lb n(1) by (intro exI[of _ "?b[n := 0]"]) simp
qed

text \<open>The normal form has no two slashes in a row, none at the end, and is a fixed point.\<close>

fun no_double :: "c8 list \<Rightarrow> bool" where
  "no_double (a # b # cs) = (\<not> (a = SLASH \<and> b = SLASH) \<and> no_double (b # cs))"
| "no_double _ = True"

lemma squeeze_no_double: "no_double (squeeze p cs) \<and> (p = SLASH \<longrightarrow> squeeze p cs = [] \<or> hd (squeeze p cs) \<noteq> SLASH)"
proof (induction p cs rule: squeeze.induct)
  case (2 p c cs)
  show ?case
  proof (cases "c = SLASH \<and> p = c")
    case True
    then show ?thesis using 2(1) by simp
  next
    case False
    then show ?thesis using 2(2) by (cases "squeeze c cs") auto
  qed
qed simp

lemma no_double_butlast: "no_double s \<Longrightarrow> no_double (butlast s)"
  by (induction s rule: no_double.induct) auto

lemma no_double_last: "no_double s \<Longrightarrow> s \<noteq> [] \<Longrightarrow> last s = SLASH \<Longrightarrow> butlast s \<noteq> [] \<Longrightarrow> last (butlast s) \<noteq> SLASH"
  by (induction s rule: no_double.induct) (auto split: if_splits)

lemma norm_topic_normal: "no_double (norm_topic s) \<and> (length (norm_topic s) \<noteq> 1 \<longrightarrow> norm_topic s = [] \<or> last (norm_topic s) \<noteq> SLASH)"
proof (cases s)
  case (Cons c cs)
  let ?s = "c # squeeze c cs"
  have n: "no_double ?s" using squeeze_no_double[of c cs] by (cases "squeeze c cs") auto
  show ?thesis
  proof (cases "length ?s \<noteq> 1 \<and> last ?s = SLASH")
    case True
    then have e: "norm_topic s = butlast ?s" unfolding Cons norm_topic.simps Let_def by (simp only: if_True simp_thms)
    have "last (butlast ?s) \<noteq> SLASH" by (rule no_double_last[OF n]) (use True in auto)
    then show ?thesis unfolding e using no_double_butlast[OF n] by blast
  next
    case False
    then have e: "norm_topic s = ?s" unfolding Cons norm_topic.simps Let_def by (simp only: if_False simp_thms)
    show ?thesis unfolding e using n False by auto
  qed
qed simp

lemma squeeze_id: "no_double (p # cs) \<Longrightarrow> squeeze p cs = cs"
  by (induction p cs rule: squeeze.induct) auto

lemma norm_topic_id: "no_double s \<Longrightarrow> length s = 1 \<or> s = [] \<or> last s \<noteq> SLASH \<Longrightarrow> norm_topic s = s"
  by (cases s) (auto simp: squeeze_id Let_def)
lemma cstr_get_at:
  assumes "n < length buf" "buf ! n = 0" "0 \<notin> set (take n buf)"
  shows "cstr_get buf = Some (take n buf)"
proof -
  have e: "buf = take n buf @ 0 # drop (Suc n) buf" using id_take_nth_drop[OF assms(1)] assms(2) by simp
  have "takeWhile (\<lambda>c. c \<noteq> 0) (take n buf @ 0 # drop (Suc n) buf) = take n buf"
    by (subst takeWhile_append2) (use assms(3) in auto)
  then have "cstr_of buf = take n buf" unfolding cstr_of_def e[symmetric] .
  moreover have "0 \<in> set buf" using nth_mem[OF assms(1)] assms(2) by simp
  ultimately show ?thesis by (simp add: cstr_get_def)
qed

text \<open>
  C34: \<open>proc_forward_slash\<close> rewrites the topic of \<open>len\<close> characters in the buffer to its normal
  form and returns the length of that. The NUL-terminated string it leaves is the normal form:
  not empty, without two slashes in a row, without a slash at the end unless it is a single
  slash; the normal form is a fixed point, a topic that is normal is unchanged, and nothing
  behind the topic and its terminator is written.
\<close>

theorem forward_slash_norm:
  assumes "s \<noteq> []" "unat len = length s" "length s < length buf" "take (length s) buf = s" "0 \<notin> set s"
  shows "\<exists>buf'. proc_forward_slash buf len = Some (of_nat (length (norm_topic s)), buf') \<and>
     cstr_get buf' = Some (norm_topic s) \<and> drop (Suc (length s)) buf' = drop (Suc (length s)) buf \<and>
     norm_topic s \<noteq> [] \<and> no_double (norm_topic s) \<and> (length (norm_topic s) \<noteq> 1 \<longrightarrow> last (norm_topic s) \<noteq> SLASH) \<and>
     norm_topic (norm_topic s) = norm_topic s \<and>
     (no_double s \<and> (length s = 1 \<or> last s \<noteq> SLASH) \<longrightarrow> norm_topic s = s)"
proof -
  obtain buf' where b: "proc_forward_slash buf len = Some (of_nat (length (norm_topic s)), buf')" "length buf' = length buf"
    "take (length (norm_topic s)) buf' = norm_topic s" "buf' ! length (norm_topic s) = 0" "drop (Suc (length s)) buf' = drop (Suc (length s)) buf"
    using proc_forward_slash_eq[OF assms(1-4)] by blast
  have "0 \<notin> set (norm_topic s)" using norm_topic_set assms(5) by blast
  then have "cstr_get buf' = Some (norm_topic s)"
    using cstr_get_at[of "length (norm_topic s)" buf'] b(2-4) length_norm_topic[of s] assms(3) by simp
  then show ?thesis
    using b(1,5) norm_topic_nempty[OF assms(1)] norm_topic_normal[of s] norm_topic_id[of s] norm_topic_id[of "norm_topic s"]
    by (intro exI[of _ buf']) argo
qed

theorem forward_slash_norm_witness:
  "\<exists>buf'. proc_forward_slash [0x61, SLASH, SLASH, 0x62, SLASH, 7, 8] 5 = Some (3, buf') \<and> cstr_get buf' = Some [0x61, SLASH, 0x62] \<and>
     drop 6 buf' = [8]"
proof -
  let ?s = "[0x61, SLASH, SLASH, 0x62, SLASH] :: c8 list"
  have n: "norm_topic ?s = [0x61, SLASH, 0x62]" by code_simp
  have "unat (5 :: u16) = length ?s" "0 \<notin> set ?s" by simp_all
  then show ?thesis
    using forward_slash_norm[of ?s 5 "[0x61, SLASH, SLASH, 0x62, SLASH, 7, 8]"] unfolding n by (auto simp: numeral_eq_Suc)
qed

section \<open>The check of a topic filter\<close>

text \<open>A topic filter by the MQTT rules: \<open>#\<close> only as the last level and \<open>+\<close> only as a whole level.\<close>

fun filter_ok :: "c8 list list \<Rightarrow> bool" where
  "filter_ok [] = True"
| "filter_ok (l # ls) = ((if HASH \<in> set l then l = [HASH] \<and> ls = []
     else if PLUS \<in> set l then l = [PLUS] \<or> l = [PLUS, SLASH] else True) \<and> filter_ok ls)"

lemma valid_loop_eq:
  assumes "length s \<le> length buf" "take (length s) buf = s" "0 \<notin> set s" "i < length s"
  shows "\<exists>k. valid_loop buf (length s) (Suc i) (s ! i) = Some k \<and> (k = length s \<longleftrightarrow> successively is_valid_char_order (drop i s))"
  using assms(4)
proof (induction "length s - i" arbitrary: i)
  case (Suc k)
  have d: "drop i s = s ! i # drop (Suc i) s" using Suc(3) by (simp add: Cons_nth_drop_Suc)
  show ?case
  proof (cases "Suc i < length s")
    case True
    have nz: "s ! i \<noteq> 0" using assms(3) Suc(3) nth_mem by fastforce
    have "buf ! Suc i = s ! Suc i" using nth_take[OF True, of buf] assms(2) by simp
    then have g: "buf_get buf (Suc i) = Some (s ! Suc i)" using True assms(1) by (simp add: mem_simps)
    have d2: "drop (Suc i) s = s ! Suc i # drop (Suc (Suc i)) s" using True by (simp add: Cons_nth_drop_Suc)
    have ih: "\<exists>k. valid_loop buf (length s) (Suc (Suc i)) (s ! Suc i) = Some k \<and>
       (k = length s \<longleftrightarrow> successively is_valid_char_order (drop (Suc i) s))"
      by (rule Suc(1)) (use Suc(2) True in auto)
    have sc: "successively is_valid_char_order (drop i s) \<longleftrightarrow>
        is_valid_char_order (s ! i) (s ! Suc i) \<and> successively is_valid_char_order (drop (Suc i) s)"
      unfolding d d2 by simp
    have st: "valid_loop buf (length s) (Suc i) (s ! i) =
        (if is_valid_char_order (s ! i) (s ! Suc i) then valid_loop buf (length s) (Suc (Suc i)) (s ! Suc i) else Some (Suc i))"
      using True nz g by (subst valid_loop.simps) simp
    show ?thesis using ih True unfolding sc st by auto
  next
    case False
    then show ?thesis using Suc(3) by (subst valid_loop.simps) (simp add: d)
  qed
qed simp

lemma is_valid_SUB_top_eq:
  assumes "unat len = length s" "s \<noteq> []" "length s \<le> length buf" "take (length s) buf = s" "0 \<notin> set s"
  shows "is_valid_SUB_top buf len = Some (successively is_valid_char_order s)"
proof -
  have l: "len \<noteq> 0" using assms(1,2) by auto
  have "s ! 0 \<noteq> 0" using assms(2,5) nth_mem by fastforce
  moreover have "buf ! 0 = s ! 0" using assms(2) nth_take[of 0 "length s" buf] unfolding assms(4) by simp
  moreover have "0 < length buf" using assms(2,3) by auto
  ultimately have g: "buf_get buf 0 = Some (s ! 0)" "s ! 0 \<noteq> 0" by (simp_all add: mem_simps)
  obtain k where "valid_loop buf (length s) 1 (s ! 0) = Some k" "k = length s \<longleftrightarrow> successively is_valid_char_order s"
    using valid_loop_eq[of s buf 0] assms(2-5) by auto
  then show ?thesis using g l assms(1) by (simp add: is_valid_SUB_top_def)
qed


text \<open>The scan of \<open>is_valid_SUB_top\<close>, from the character \<open>p\<close> in front, agrees with the rule on levels.\<close>

lemma cut_top_ne: "cs \<noteq> [] \<Longrightarrow> fst (cut_top cs) \<noteq> []"
  using wf_cut[of cs] by (simp add: wf_level_def)

lemma levels_SLASH: "levels (SLASH # cs) = [SLASH] # levels cs"
  by (simp add: levels_Cons[of "SLASH # cs"])

lemma levels_other:
  "c \<noteq> SLASH \<Longrightarrow> levels (c # cs) = (c # fst (cut_top cs)) # (case snd (cut_top cs) of None \<Rightarrow> [] | Some r \<Rightarrow> levels r)"
  by (simp add: levels_Cons[of "c # cs"] Let_def split_beta)

abbreviation tail_ok :: "c8 list option \<Rightarrow> bool" where
  "tail_ok r \<equiv> filter_ok (case r of None \<Rightarrow> [] | Some r \<Rightarrow> levels r)"

lemma filter_ok_plus: "filter_ok (levels (PLUS # d # ds)) \<longleftrightarrow> d = SLASH \<and> filter_ok (levels ds)"
proof (cases "d = SLASH")
  case True
  then show ?thesis by (cases "ds = []") (simp_all add: levels_other)
next
  case False
  then show ?thesis by (auto simp: levels_other Let_def split_beta)
qed

lemma filter_ok_hash: "filter_ok (levels (HASH # cs)) \<longleftrightarrow> cs = []"
  using cut_top_ne[of cs] by (cases "cs = []") (simp_all add: levels_other)

lemma filter_ok_plain:
  assumes "c \<notin> {SLASH, PLUS, HASH}"
  shows "filter_ok (levels (c # cs)) \<longleftrightarrow> set (fst (cut_top cs)) \<inter> {PLUS, HASH} = {} \<and> tail_ok (snd (cut_top cs))"
  using assms by (auto simp: levels_other)

lemma scan_levels:
  "(successively is_valid_char_order (SLASH # s) \<longleftrightarrow> filter_ok (levels s)) \<and>
   (\<forall>p. p \<notin> {SLASH, PLUS, HASH} \<longrightarrow> (successively is_valid_char_order (p # s) \<longleftrightarrow>
     set (fst (cut_top s)) \<inter> {PLUS, HASH} = {} \<and> tail_ok (snd (cut_top s))))"
proof (induction s)
  case (Cons c cs)
  have sl: "is_valid_char_order SLASH x" for x by (simp add: is_valid_char_order_def)
  have A: "successively is_valid_char_order (SLASH # c # cs) \<longleftrightarrow> filter_ok (levels (c # cs))"
  proof -
    consider "c = SLASH" | "c = PLUS" | "c = HASH" | "c \<notin> {SLASH, PLUS, HASH}" by auto
    then show ?thesis
    proof cases
      case 1
      then show ?thesis using Cons sl by (simp add: levels_SLASH)
    next
      case 2
      show ?thesis
      proof (cases cs)
        case Nil
        then show ?thesis using sl 2 by (simp add: levels_other)
      next
        case (Cons d ds)
        have "is_valid_char_order PLUS d \<longleftrightarrow> d = SLASH" by (auto simp: is_valid_char_order_def)
        moreover have "d = SLASH \<Longrightarrow> successively is_valid_char_order (d # ds) \<longleftrightarrow> filter_ok (levels ds)"
          using Cons.IH sl unfolding Cons by (cases ds) (simp_all add: levels_SLASH)
        ultimately show ?thesis using sl unfolding 2 Cons filter_ok_plus by auto
      qed
    next
      case 3
      have "\<not> is_valid_char_order HASH d" for d by (simp add: is_valid_char_order_def)
      then show ?thesis using sl unfolding 3 filter_ok_hash by (cases cs) auto
    next
      case 4
      then have "successively is_valid_char_order (c # cs) \<longleftrightarrow> filter_ok (levels (c # cs))"
        using Cons filter_ok_plain[OF 4] by blast
      then show ?thesis using sl by simp
    qed
  qed
  have B: "successively is_valid_char_order (p # c # cs) \<longleftrightarrow>
     set (fst (cut_top (c # cs))) \<inter> {PLUS, HASH} = {} \<and> tail_ok (snd (cut_top (c # cs)))" if p: "p \<notin> {SLASH, PLUS, HASH}" for p
  proof -
    have o: "is_valid_char_order p c \<longleftrightarrow> c \<noteq> PLUS \<and> c \<noteq> HASH" using p by (auto simp: is_valid_char_order_def)
    consider "c = SLASH" | "c = PLUS \<or> c = HASH" | "c \<notin> {SLASH, PLUS, HASH}" by auto
    then show ?thesis
    proof cases
      case 1
      then show ?thesis using Cons o by auto
    next
      case 2
      then show ?thesis using o by (auto simp: Let_def split_beta)
    next
      case 3
      then show ?thesis using Cons o by (auto simp: Let_def split_beta)
    qed
  qed
  show ?case using A B by blast
qed simp

text \<open>
  C18: \<open>is_valid_SUB_top\<close> accepts a topic filter exactly if it obeys the MQTT rules for
  wildcards: a \<open>#\<close> only as the whole last level, and a \<open>+\<close> only as a whole level.
\<close>

theorem filter_validity:
  assumes "unat len = length s" "s \<noteq> []" "length s \<le> length buf" "take (length s) buf = s" "0 \<notin> set s"
  shows "is_valid_SUB_top buf len = Some (filter_ok (levels s))"
proof -
  have "successively is_valid_char_order s \<longleftrightarrow> successively is_valid_char_order (SLASH # s)"
    using assms(2) by (cases s) (auto simp: is_valid_char_order_def)
  then show ?thesis using is_valid_SUB_top_eq[OF assms] scan_levels[of s] by simp
qed

theorem filter_validity_witness:
  "is_valid_SUB_top [0x61, SLASH, PLUS, SLASH, HASH, 0x62] 5 = Some True \<and> is_valid_SUB_top [0x61, HASH, SLASH, 0x62] 3 = Some False"
proof -
  have a: "filter_ok (levels [0x61, SLASH, PLUS, SLASH, HASH])" by code_simp
  have b: "\<not> filter_ok (levels [0x61, HASH, SLASH])" by code_simp
  show ?thesis
    using filter_validity[of 5 "[0x61, SLASH, PLUS, SLASH, HASH]" "[0x61, SLASH, PLUS, SLASH, HASH, 0x62]"]
      filter_validity[of 3 "[0x61, HASH, SLASH]" "[0x61, HASH, SLASH, 0x62]"] a b by simp
qed

end
