(* ===== verification/ServerCore.thy ===== *)
theory ServerCore
  imports ServerSub
begin

text \<open>
  Connections in the core of the broker (\<open>server_core.c\<close>): the handling of a CONNECT with its
  will, of the CONNACK, of a connection that was closed (with the publication of the will), the
  removal of a session from the topic tree, and the enrolment of plug-ins for topics.
\<close>

section \<open>CONNECT\<close>


text \<open>\<open>utf8_vec\<close> of a CONNECT; a missing string is \<open>None\<close>.\<close>

record conn_utf8s =
  MQC_UTF8_CLIENTID :: "utf8_string option"
  MQC_UTF8_WILL_TOP :: "utf8_string option"
  MQC_UTF8_WILL_MSG :: "utf8_string option"
  MQC_UTF8_USERNAME :: "utf8_string option"
  MQC_UTF8_PASSWORD :: "utf8_string option"

text \<open>The pointer in a string is \<open>NULL\<close> when its length is 0.\<close>

definition MQC_WILL_MSG_BUF :: "conn_utf8s \<Rightarrow> u8 list option" where
  "MQC_WILL_MSG_BUF v = (case MQC_UTF8_WILL_MSG v of None \<Rightarrow> None
     | Some m \<Rightarrow> if u_length m = 0 then None else Some (u_buffer m))"

definition MQC_WILL_MSG_LEN :: "conn_utf8s \<Rightarrow> u32" where
  "MQC_WILL_MSG_LEN v = (case MQC_UTF8_WILL_MSG v of None \<Rightarrow> 0 | Some m \<Rightarrow> ucast (u_length m))"

definition CONN_FLAGS_WQID_GET :: "u8 \<Rightarrow> u8" where
  "CONN_FLAGS_WQID_GET conn_flags = drop_bit 3 conn_flags AND QID_VMASK"

definition utf8_str_rd :: "utf8_string option \<Rightarrow> c8 list \<Rightarrow> nat \<Rightarrow> (i32 \<times> c8 list) option" where
  "utf8_str_rd utf8 buf len =
     (case utf8 of None \<Rightarrow> Some (- 1, buf)
      | Some u \<Rightarrow> let n = unat (u_length u) in
          if len - 1 < n then Some (- 1, buf)
          else do {
            buf \<leftarrow> buf_wr_nbytes buf 0 (u_buffer u) n;
            buf \<leftarrow> buf_put buf n 0;
            Some (int n, buf) })"

definition br_plugin_disconn :: "ptr \<Rightarrow> bool \<Rightarrow> broker \<Rightarrow> broker option" where
  "br_plugin_disconn app_cl due2err s = do {
     tr \<leftarrow> plugin_disconn (b_plug s) app_cl due2err (b_trace s); Some (s\<lparr>b_trace := tr\<rparr>) }"

text \<open>The three exits of \<open>proc_connect_rx\<close> for a refused connection.\<close>

definition connect_exit2 :: "u16 \<Rightarrow> ptr \<Rightarrow> broker \<Rightarrow> (u16 \<times> ptr \<times> broker) option" where
  "connect_exit2 rv app_cl s = do { s \<leftarrow> br_plugin_disconn app_cl True s; Some (rv, None, s) }"

definition connect_exit3 :: "u16 \<Rightarrow> ptr \<Rightarrow> ptr \<Rightarrow> broker \<Rightarrow> (u16 \<times> ptr \<times> broker) option" where
  "connect_exit3 rv leaf app_cl s = do { s \<leftarrow> br_try_delete leaf s; connect_exit2 rv app_cl s }"

text \<open>The will: the node that holds it (\<open>None\<close> without a will), or the exit that was taken.\<close>

definition connect_will :: "broker_env \<Rightarrow> u8 \<Rightarrow> conn_utf8s \<Rightarrow> ptr \<Rightarrow> broker \<Rightarrow> (ptr \<times> broker + u16 \<times> ptr \<times> broker) option" where
  "connect_will env conn_flags v app_cl s =
     (case MQC_UTF8_WILL_TOP v of
        None \<Rightarrow> Some (Inl (None, s))
      | Some w \<Rightarrow>
          if u_length w = 0 then Some (Inl (None, s))
          else do {
            (_, buf) \<leftarrow> utf8_str_rd (Some w) (b_work_buf s) WBUF_LEN;
            let s = s\<lparr>b_work_buf := buf\<rparr>;
            tp \<leftarrow> cstr_get buf;
            (leaf, s) \<leftarrow> br_node_create tp s;
            case leaf of
              None \<Rightarrow> map_option Inr (connect_exit2 (ucast CONNACK_RC_SVR_UNAVBL) app_cl s)
            | Some l \<Rightarrow> do {
                (ok, s) \<leftarrow> node_data_update env l False (MQC_WILL_MSG_BUF v) (MQC_WILL_MSG_LEN v)
                             (CONN_FLAGS_WQID_GET conn_flags) (conn_flags AND WILL_RETAIN_VAL \<noteq> 0) s;
                if ok then Some (Inl (Some l, s))
                else map_option Inr (connect_exit3 (ucast CONNACK_RC_SVR_UNAVBL) (Some l) app_cl s) } })"

text \<open>\<open>proc_connect_rx\<close>: the CONNACK value and \<open>*usr_cl\<close>, if it was set.\<close>

definition proc_connect_rx :: "broker_env \<Rightarrow> ptr \<Rightarrow> u8 \<Rightarrow> conn_utf8s \<Rightarrow> broker \<Rightarrow> (u16 \<times> ptr \<times> broker) option" where
  "proc_connect_rx env ctx_cl conn_flags v s = do {
     (rv, app_cl, tr) \<leftarrow> plugin_connect env (b_plug s) (map_option u_content (MQC_UTF8_CLIENTID v))
         (map_option u_content (MQC_UTF8_USERNAME v)) (map_option u_content (MQC_UTF8_PASSWORD v)) (b_trace s);
     let s = s\<lparr>b_trace := tr\<rparr>;
     if rv \<noteq> 0 then Some (rv, None, s)
     else do {
       w \<leftarrow> connect_will env conn_flags v app_cl s;
       case w of
         Inr r \<Rightarrow> Some r
       | Inl (leaf, s) \<Rightarrow> do {
           (n, buf) \<leftarrow> (case MQC_UTF8_CLIENTID v of None \<Rightarrow> Some (0, b_work_buf s)
                         | Some cid \<Rightarrow> utf8_str_rd (Some cid) (b_work_buf s) WBUF_LEN);
           let s = s\<lparr>b_work_buf := buf\<rparr>;
           let utf8_len = (of_int n :: u16);
           cid \<leftarrow> (if utf8_len \<noteq> 0 then map_option Some (cstr_get buf) else Some None);
           (rv, usr_cl, s) \<leftarrow> cl_connect_rx ctx_cl (conn_flags AND CLEAN_START_VAL \<noteq> 0) cid app_cl leaf s;
           if rv AND 0xFF = ucast CONNACK_RC_REQ_ACCEPT then
             Some (rv, usr_cl, case leaf of None \<Rightarrow> s | Some l \<Rightarrow> tn_upd (\<lambda>n. n\<lparr>tn_will_cl := usr_cl\<rparr>) l s)
           else do {
             s \<leftarrow> (case leaf of None \<Rightarrow> Some s | Some l \<Rightarrow> map_option snd (node_data_update env l True None 0 0 False s));
             connect_exit3 rv leaf app_cl s } } } }"

section \<open>Removal of a session\<close>

definition un_sub_node :: "nat \<Rightarrow> nat \<Rightarrow> broker \<Rightarrow> broker option" where
  "un_sub_node n u s = do {
     cl_map \<leftarrow> cl_bmap_get (Some u) s;
     let (hit, maps) = un_sub_maps cl_map (tn_cl_map (tn_get s n));
     if hit then cl_sub_count_del u (tn_upd (\<lambda>n. n\<lparr>tn_cl_map := maps\<rparr>) n s) else Some s }"

text \<open>The loop of \<open>session_hier_delete\<close>; \<open>cl_map\<close> of the code is that of the user's index and
  does not change. The result is \<open>prev\<close>.\<close>

partial_function (option) session_hier_loop :: "nat \<Rightarrow> ptr \<Rightarrow> ptr \<Rightarrow> broker \<Rightarrow> (ptr \<times> broker) option" where
  "session_hier_loop u node prev s =
     (case node of
        None \<Rightarrow> Some (prev, s)
      | Some n \<Rightarrow> do {
          s \<leftarrow> un_sub_node n u s;
          st \<leftarrow> push_nhbr (b_tree s) n [] 0 (b_stack s);
          session_hier_loop u (tn_dn_hier (tn_get s n)) node (s\<lparr>b_stack := st\<rparr>) })"

definition session_hier_delete :: "nat \<Rightarrow> nat \<Rightarrow> broker \<Rightarrow> broker option" where
  "session_hier_delete node u s = do {
     (prev, s) \<leftarrow> session_hier_loop u (Some node) None s;
     br_try_delete prev s }"

partial_function (option) session_tree_loop :: "nat \<Rightarrow> nat \<Rightarrow> broker \<Rightarrow> broker option" where
  "session_tree_loop stack_ref u s =
     (if stack_ref < length (b_stack s) then do {
        ((node, _, _), st) \<leftarrow> stack_pop (b_stack s);
        s \<leftarrow> session_hier_delete node u (s\<lparr>b_stack := st\<rparr>);
        session_tree_loop stack_ref u s }
      else Some s)"

definition session_tree_delete :: "nat \<Rightarrow> broker \<Rightarrow> broker option" where
  "session_tree_delete u s = do {
     st \<leftarrow> (case root_node (b_tree s) of None \<Rightarrow> Some (b_stack s) | Some r \<Rightarrow> stack_add (b_stack s) r [] 0);
     session_tree_loop (length (b_stack s)) u (s\<lparr>b_stack := st\<rparr>) }"

section \<open>The end of a connection\<close>

partial_function (option) up_first :: "topic_tree \<Rightarrow> nat \<Rightarrow> nat option" where
  "up_first t n = (case tn_up_nhbr (nodes t n) of None \<Rightarrow> Some n | Some u \<Rightarrow> up_first t u)"

text \<open>The do-loop of \<open>proc_client_will\<close>: \<open>None\<close> for the early return, otherwise \<open>offset\<close>, with
  the buffer.\<close>

partial_function (option) will_loop :: "topic_tree \<Rightarrow> nat \<Rightarrow> nat \<Rightarrow> c8 list \<Rightarrow> (nat option \<times> c8 list) option" where
  "will_loop t node ofst buf =
     (let n = nodes t node; toplen = unat (tn_toplen n) in
      if ofst < toplen then Some (None, buf)
      else do {
        buf \<leftarrow> strncpy buf (ofst - toplen) (tn_subtop n @ [0]) toplen;
        first \<leftarrow> up_first t node;
        case tn_up_hier (nodes t first) of
          None \<Rightarrow> Some (Some (ofst - toplen), buf)
        | Some p \<Rightarrow> will_loop t p (ofst - toplen) buf })"

definition proc_client_will :: "broker_env \<Rightarrow> nat \<Rightarrow> broker \<Rightarrow> broker option" where
  "proc_client_will env leaf s = do {
     let wbuf_len = WBUF_LEN - 1;
     buf \<leftarrow> buf_put (b_work_buf s) wbuf_len 0;
     (r, buf) \<leftarrow> will_loop (b_tree s) leaf wbuf_len buf;
     let s = s\<lparr>b_work_buf := buf\<rparr>;
     case r of
       None \<Rightarrow> Some s
     | Some ofst \<Rightarrow> do {
         let n = tn_get s leaf;
         let tp = \<lparr>u_buffer = drop ofst buf, u_length = of_nat (wbuf_len - ofst)\<rparr>;
         topPUB \<leftarrow> cstr_get (drop ofst buf);
         proc_sub_tree_topPUB env topPUB tp (tn_my_data n) (tn_my_dlen n) (node_qid_get n AND QID_VMASK) (is_node_retain n) s } }"

text \<open>The will of a client whose connection ends: \<open>None\<close> inside for the early return on a
  mismatch.\<close>

definition close_will :: "broker_env \<Rightarrow> nat \<Rightarrow> nat \<Rightarrow> bool \<Rightarrow> broker \<Rightarrow> (bool \<times> broker) option" where
  "close_will env u leaf due2err s =
     (if tn_will_cl (tn_get s leaf) \<noteq> Some u then Some (False, s)
      else do {
        s \<leftarrow> (if due2err then proc_client_will env leaf s else Some s);
        (_, s) \<leftarrow> node_data_update env leaf True None 0 0 False s;
        s \<leftarrow> br_try_delete (Some leaf) (tn_upd (\<lambda>n. n\<lparr>tn_will_cl := None\<rparr>) leaf s);
        Some (True, s) })"

definition on_cl_net_close :: "broker_env \<Rightarrow> nat \<Rightarrow> bool \<Rightarrow> broker \<Rightarrow> broker option" where
  "on_cl_net_close env u due2err s = do {
     leaf \<leftarrow> cl_will_hndl_get (Some u) s;
     (go_on, s) \<leftarrow> (case leaf of None \<Rightarrow> Some (True, s) | Some l \<Rightarrow> close_will env u l due2err s);
     if \<not> go_on then Some s
     else do {
       b \<leftarrow> cl_can_session_delete (Some u) s;
       s \<leftarrow> (if b then session_tree_delete u s else Some s);
       app_cl \<leftarrow> cl_app_hndl_get (Some u) s;
       s \<leftarrow> br_plugin_disconn app_cl due2err s;
       cl_on_net_close u s } }"

definition on_connack_send :: "broker_env \<Rightarrow> nat \<Rightarrow> bool \<Rightarrow> broker \<Rightarrow> broker option" where
  "on_connack_send env u clean_session s = do {
     s \<leftarrow> (if clean_session then session_tree_delete u s else Some s);
     cl_on_connack_send env u clean_session s }"

section \<open>Plug-ins\<close>

text \<open>\<open>topic\<close>: \<open>None\<close> for \<open>NULL\<close>; the pointer in it is \<open>NULL\<close> when the region is empty.\<close>

definition proc_topic_enroll :: "nat \<Rightarrow> utf8_string option \<Rightarrow> mqtt_qos \<Rightarrow> broker \<Rightarrow> (i32 \<times> broker) option" where
  "proc_topic_enroll pg_id tp qos s =
     (case tp of
        None \<Rightarrow> Some (- 1, s)
      | Some tp \<Rightarrow>
          if u_buffer tp = [] \<or> u_length tp = 0 then Some (- 1, s)
          else if WBUF_LEN < unat (u_length tp) + 1 then Some (- 2, s)
          else do {
            buf \<leftarrow> strncpy (b_work_buf s) 0 (u_buffer tp) (unat (u_length tp));
            buf \<leftarrow> buf_put buf (unat (u_length tp)) 0;
            text \<leftarrow> cstr_get buf;
            (leaf, s) \<leftarrow> br_node_create text (s\<lparr>b_work_buf := buf\<rparr>);
            case leaf of
              None \<Rightarrow> Some (- 3, s)
            | Some l \<Rightarrow> Some (0, tn_upd (\<lambda>n. n\<lparr>tn_pg_map := PG_MAP_VAL_SETUP (tn_pg_map n) (QOS_VALUE qos) pg_id\<rparr>) l s) })"

definition proc_topic_cancel :: "nat \<Rightarrow> utf8_string option \<Rightarrow> broker \<Rightarrow> (i32 \<times> broker) option" where
  "proc_topic_cancel pg_id tp s =
     (case tp of
        None \<Rightarrow> Some (- 1, s)
      | Some tp \<Rightarrow>
          if WBUF_LEN < unat (u_length tp) + 1 then Some (- 2, s)
          else do {
            buf \<leftarrow> strncpy (b_work_buf s) 0 (u_buffer tp) (unat (u_length tp));
            buf \<leftarrow> buf_put buf (unat (u_length tp)) 0;
            text \<leftarrow> cstr_get buf;
            let s = s\<lparr>b_work_buf := buf\<rparr>;
            leaf \<leftarrow> leaf_node_find (b_tree s) text;
            case leaf of
              None \<Rightarrow> Some (- 2, s)
            | Some l \<Rightarrow> do {
                s \<leftarrow> br_try_delete (Some l) (tn_upd (\<lambda>n. n\<lparr>tn_pg_map := PG_MAP_VAL_RESET (tn_pg_map n) pg_id\<rparr>) l s);
                Some (0, s) } })"

text \<open>The entries of the application; \<open>app_hnd\<close> is the handle of the plug-in.\<close>

definition mqtt_server_topic_enroll :: "ptr \<Rightarrow> utf8_string option \<Rightarrow> mqtt_qos \<Rightarrow> broker \<Rightarrow> (i32 \<times> broker) option" where
  "mqtt_server_topic_enroll app_hnd tp qos s =
     (case app_hnd of None \<Rightarrow> Some (- 1, s)
      | Some i \<Rightarrow> if \<not> msg_cbs (b_plug s) then None
          else do { p \<leftarrow> plugin_find (b_plug s) i; proc_topic_enroll (unat (pl_index p)) tp qos s })"

definition mqtt_server_topic_disenroll :: "ptr \<Rightarrow> utf8_string option \<Rightarrow> broker \<Rightarrow> (i32 \<times> broker) option" where
  "mqtt_server_topic_disenroll app_hnd tp s =
     (case app_hnd of None \<Rightarrow> Some (- 1, s)
      | Some i \<Rightarrow> if \<not> msg_cbs (b_plug s) then None
          else do { p \<leftarrow> plugin_find (b_plug s) i; proc_topic_cancel (unat (pl_index p)) tp s })"

definition mqtt_server_app_pub_send :: "broker_env \<Rightarrow> utf8_string \<Rightarrow> u8 list option \<Rightarrow> u32 \<Rightarrow> mqtt_qos \<Rightarrow> bool \<Rightarrow>
    broker \<Rightarrow> (i32 \<times> broker) option" where
  "mqtt_server_app_pub_send env tp data_buf data_len qos retain s =
     (if \<not> msg_cbs (b_plug s) then None else proc_app_pub_send_locked env tp data_buf data_len qos retain s)"

end
