(* ===== verification/PktsRx.thy ===== *)
theory PktsRx
  imports ServerCore MqttRecv
begin

text \<open>
  The reception half of \<open>server_pkts.c\<close>: the parsing of CONNECT, SUBSCRIBE and UNSUBSCRIBE, the
  handlers of all packets with the protocol guard, the keep-alive supervision, and the rounds of
  \<open>mqtt_server_run\<close>. The call-backs \<open>usr_cbs\<close> are the handlers of \<open>server_core.c\<close>, as
  \<open>mqtt_server_init\<close> installs them.
\<close>

section \<open>Strings in a packet\<close>

text \<open>\<open>mqp_buf_rd_utf8(buf, end)\<close> at positions of a region: inside, \<open>None\<close> is the value \<open>- 1\<close>.\<close>

definition mqp_buf_rd_utf8 :: "u8 list \<Rightarrow> nat \<Rightarrow> nat \<Rightarrow> (nat \<times> utf8_string) option option" where
  "mqp_buf_rd_utf8 buf d lim =
     (if lim - d < 2 then Some None
      else do {
        len \<leftarrow> buf_rd_nbo_2B buf d;
        if lim - (d + 2) < unat len then Some None
        else Some (Some (2 + unat len, \<lparr>u_buffer = (if len \<noteq> 0 then drop (d + 2) buf else []), u_length = len\<rparr>)) })"

definition buf_rd_utf8_qos :: "u8 list \<Rightarrow> nat \<Rightarrow> nat \<Rightarrow> (nat \<times> utf8_strqos) option option" where
  "buf_rd_utf8_qos buf d lim = do {
     r \<leftarrow> mqp_buf_rd_utf8 buf d lim;
     case r of
       None \<Rightarrow> Some None
     | Some (n, u) \<Rightarrow>
         if d + n < lim then do {
           q \<leftarrow> buf_get buf (d + n);
           Some (Some (n + 1, \<lparr>q_buffer = u_buffer u, q_length = u_length u, q_qosreq = q\<rparr>)) }
         else Some None }"

definition mqp_proc_vh_msg_id_rx :: "mqtt_packet \<Rightarrow> (bool \<times> mqtt_packet) option" where
  "mqp_proc_vh_msg_id_rx mqp =
     (if p_pl_len mqp < 2 then Some (False, mqp)
      else do {
        mid \<leftarrow> buf_rd_nbo_2B (p_buffer mqp) (MQP_VHEADER_BUF mqp);
        Some (True, mqp\<lparr>p_msg_id := mid, p_vh_len := p_vh_len mqp + 2, p_pl_len := p_pl_len mqp - 2\<rparr>) })"

text \<open>The loop shared by \<open>_proc_sub_msg_rx\<close> and \<open>_proc_unsub_msg_rx\<close> over at most \<open>n\<close> topics:
  the topics and the final position.\<close>

fun topics_loop :: "(u8 list \<Rightarrow> nat \<Rightarrow> nat \<Rightarrow> (nat \<times> 'a) option option) \<Rightarrow> u8 list \<Rightarrow> nat \<Rightarrow> nat \<Rightarrow> nat \<Rightarrow> ('a list \<times> nat) option" where
  "topics_loop rd buf d lim 0 = Some ([], d)"
| "topics_loop rd buf d lim (Suc n) =
     (if d < lim then do {
        r \<leftarrow> rd buf d lim;
        case r of
          None \<Rightarrow> Some ([], d)
        | Some (len, x) \<Rightarrow> do { (xs, d') \<leftarrow> topics_loop rd buf (d + len) lim n; Some (x # xs, d') } }
      else Some ([], d))"

definition topics_rx :: "(u8 list \<Rightarrow> nat \<Rightarrow> nat \<Rightarrow> (nat \<times> 'a) option option) \<Rightarrow> nat \<Rightarrow> mqtt_packet \<Rightarrow>
    (bool \<times> 'a list \<times> mqtt_packet) option" where
  "topics_rx rd n mqp = do {
     (ok, mqp) \<leftarrow> mqp_proc_vh_msg_id_rx mqp;
     if \<not> ok then Some (False, [], mqp)
     else do {
       let lim = MQP_PAYLOAD_BUF mqp + unat (p_pl_len mqp);
       (xs, d) \<leftarrow> topics_loop rd (p_buffer mqp) (MQP_PAYLOAD_BUF mqp) lim n;
       Some (xs \<noteq> [] \<and> d = lim, xs, mqp) } }"

definition parse_sub_msg :: "mqtt_packet \<Rightarrow> (bool \<times> utf8_strqos list \<times> mqtt_packet) option" where
  "parse_sub_msg mqp = topics_rx buf_rd_utf8_qos MQP_MAX_TOPICS mqp"

definition parse_unsub_msg :: "mqtt_packet \<Rightarrow> (bool \<times> utf8_string list \<times> mqtt_packet) option" where
  "parse_unsub_msg mqp = topics_rx mqp_buf_rd_utf8 MQP_MAX_TOPICS mqp"

section \<open>Handlers\<close>

definition pk_proc_sub_msg_rx :: "broker_env \<Rightarrow> nat \<Rightarrow> mqtt_packet \<Rightarrow> broker \<Rightarrow> (bool \<times> broker) option" where
  "pk_proc_sub_msg_rx env c mqp s = do {
     (ok, topics, mqp) \<leftarrow> parse_sub_msg mqp;
     if \<not> ok then Some (False, s)
     else do {
       cx \<leftarrow> ctx_get s c;
       u \<leftarrow> cx_usr cx;
       (acks, s) \<leftarrow> proc_sub_msg_rx env u topics s;
       buf \<leftarrow> buf_wr_nbytes (replicate (MQP_MAX_TOPICS + MQP_SUBACK_PAY_OFS) 0) MQP_SUBACK_PAY_OFS acks (length acks);
       (_, s) \<leftarrow> sub_ack_send env c buf MQP_SUBACK_PAY_OFS (of_nat (length topics)) (p_msg_id mqp) s;
       Some (True, s) } }"

definition pk_proc_unsub_msg_rx :: "broker_env \<Rightarrow> nat \<Rightarrow> mqtt_packet \<Rightarrow> broker \<Rightarrow> (bool \<times> broker) option" where
  "pk_proc_unsub_msg_rx env c mqp s = do {
     (ok, topics, mqp) \<leftarrow> parse_unsub_msg mqp;
     if \<not> ok then Some (False, s)
     else do {
       cx \<leftarrow> ctx_get s c;
       u \<leftarrow> cx_usr cx;
       (ok, s) \<leftarrow> proc_un_sub_msg u topics s;
       if ok then do { (_, s) \<leftarrow> unsub_ack_send env c (p_msg_id mqp) s; Some (True, s) }
       else Some (False, s) } }"

definition pk_proc_pingreq_rx :: "broker_env \<Rightarrow> nat \<Rightarrow> broker \<Rightarrow> (bool \<times> broker) option" where
  "pk_proc_pingreq_rx env c s = do { (_, s) \<leftarrow> vh_msg_send env c MQTT_PINGRSP MQTT_QOS0 False 0x00 s; Some (True, s) }"

definition do_net_close_rx :: "broker_env \<Rightarrow> nat \<Rightarrow> bool \<Rightarrow> broker \<Rightarrow> broker option" where
  "do_net_close_rx env c due2err s = do {
     cx \<leftarrow> ctx_get s c;
     s \<leftarrow> ctx_upd (\<lambda>cx. cx\<lparr>cx_net := - 1\<rparr>) c (log_ev (EvClose (cx_net cx)) s);
     s \<leftarrow> (case cx_usr cx of None \<Rightarrow> Some s | Some u \<Rightarrow> on_cl_net_close env u due2err s);
     p \<leftarrow> used_ctxs_remove (b_pool s) c;
     p \<leftarrow> cl_ctx_free p c;
     Some (s\<lparr>b_pool := p\<rparr>) }"

definition pk_proc_disconn_rx :: "broker_env \<Rightarrow> nat \<Rightarrow> broker \<Rightarrow> (bool \<times> broker) option" where
  "pk_proc_disconn_rx env c s = do { s \<leftarrow> do_net_close_rx env c False s; Some (True, s) }"

definition pk_proc_pub_msg_rx :: "broker_env \<Rightarrow> nat \<Rightarrow> mqtt_packet \<Rightarrow> broker \<Rightarrow> (bool \<times> broker) option" where
  "pk_proc_pub_msg_rx env c mqp s = do {
     (ok, mqp) \<leftarrow> mqp_proc_pub_rx mqp;
     let B = p_fh_byte1 mqp;
     let qos = ENUM_QOS B;
     if \<not> ok then Some (False, s)
     else do {
       let msg_id = p_msg_id mqp;
       let tp = \<lparr>u_buffer = drop (MQP_PUB_TOP_BUF mqp) (p_buffer mqp), u_length = MQP_PUB_TOP_LEN mqp\<rparr>;
       cx \<leftarrow> ctx_get s c;
       (ok, s) \<leftarrow> proc_pub_msg_rx_locked env (cx_usr cx) tp (map_option (\<lambda>d. drop d (p_buffer mqp)) (MQP_PUB_PAY_BUF mqp))
                    (MQP_PUB_PAY_LEN mqp) msg_id (BOOL_DUP B) qos (BOOL_RETAIN B) s;
       if \<not> ok then Some (False, s)
       else do {
         s \<leftarrow> (if qos = MQTT_QOS1 then map_option snd (vh_msg_send env c MQTT_PUBACK MQTT_QOS0 True msg_id s) else Some s);
         s \<leftarrow> (if qos = MQTT_QOS2 then map_option snd (vh_msg_send env c MQTT_PUBREC MQTT_QOS0 True msg_id s) else Some s);
         Some (True, s) } } }"

definition pk_proc_ack_msg_rx :: "broker_env \<Rightarrow> nat \<Rightarrow> mqtt_packet \<Rightarrow> broker \<Rightarrow> (bool \<times> broker) option" where
  "pk_proc_ack_msg_rx env c mqp s = do {
     (ok, mqp) \<leftarrow> mqp_proc_msg_id_ack_rx mqp False;
     if \<not> ok then Some (False, s)
     else do { cx \<leftarrow> ctx_get s c; cl_notify_ack env (cx_usr cx) (p_msg_type mqp) (p_msg_id mqp) s } }"

definition rx_timeout_update :: "broker_env \<Rightarrow> nat \<Rightarrow> broker \<Rightarrow> broker option" where
  "rx_timeout_update env c s = do {
     cx \<leftarrow> ctx_get s c;
     if \<not> had_rcvd_conn_msg cx then Some s
     else do {
       let now = e_time env (b_trace s);
       s \<leftarrow> ctx_upd (\<lambda>cx. cl_ctx_timeout_update cx now) c (log_ev (EvTime now) s);
       p \<leftarrow> used_ctxs_remove (b_pool s) c;
       p \<leftarrow> used_ctxs_insert p c;
       Some (s\<lparr>b_pool := p\<rparr>) } }"

section \<open>CONNECT\<close>

definition proc_protocol_info :: "utf8_string \<Rightarrow> u8 \<Rightarrow> bool" where
  "proc_protocol_info utf8 ver \<longleftrightarrow>
     u_content utf8 = [0x4D, 0x51, 0x54, 0x54] \<and> ver = 0x04 \<or>
     u_content utf8 = [0x4D, 0x51, 0x49, 0x73, 0x64, 0x70] \<and> ver = 0x03"

text \<open>
  \<open>proc_connect_vh_rx\<close>: the return value, \<open>*conn_flags\<close>, \<open>*ka_secs\<close> (\<open>None\<close>: not written) and
  the packet. If the name of the protocol cannot be read, the code goes on with a string that
  was not initialised.
\<close>

definition proc_connect_vh_rx :: "mqtt_packet \<Rightarrow> (u16 \<times> u8 \<times> u16 option \<times> mqtt_packet) option" where
  "proc_connect_vh_rx mqp = do {
     let ref = MQP_PAYLOAD_BUF mqp;
     let lim = ref + unat (p_pl_len mqp);
     let buf = p_buffer mqp;
     r \<leftarrow> mqp_buf_rd_utf8 buf ref lim;
     case r of
       None \<Rightarrow> None
     | Some (n, utf8) \<Rightarrow>
         (let d = ref + n in
          if lim - d < 1 then Some (ucast CONNACK_RC_BAD_PROTOV, 0, None, mqp)
          else do {
            ver \<leftarrow> buf_get buf d;
            if \<not> proc_protocol_info utf8 ver then Some (ucast CONNACK_RC_BAD_PROTOV, 0, None, mqp)
            else do {
              flags \<leftarrow> buf_get buf (d + 1);
              if lim < d + 4 then Some (0xFF, flags, None, mqp)
              else do {
                ka \<leftarrow> buf_rd_nbo_2B buf (d + 2);
                Some (0, flags, Some (ka + drop_bit 1 ka),
                      mqp\<lparr>p_vh_len := of_nat (n + 4), p_pl_len := p_pl_len mqp - of_nat (n + 4)\<rparr>) } } }) }"

text \<open>One use of \<open>RET_IF_RD_CONN_ERROR\<close>: inside, \<open>None\<close> is the return with \<open>0x00FF\<close>. The string is
  read only if \<open>present\<close>.\<close>

definition rd_conn_utf8 :: "bool \<Rightarrow> u8 list \<Rightarrow> nat \<Rightarrow> nat \<Rightarrow> (nat \<times> utf8_string option) option option" where
  "rd_conn_utf8 present buf d lim =
     (if present then map_option (map_option (\<lambda>(n, u). (d + n, Some u))) (mqp_buf_rd_utf8 buf d lim)
      else Some (Some (d, None)))"

definition proc_connect_pl_rx :: "u8 list \<Rightarrow> nat \<Rightarrow> nat \<Rightarrow> u8 \<Rightarrow> (u16 \<times> conn_utf8s) option" where
  "proc_connect_pl_rx buf d lim conn_flags =
     (let will = conn_flags AND WILL_CONFIG_VAL \<noteq> 0; user = conn_flags AND USER_NAME_OPVAL \<noteq> 0;
          pass = conn_flags AND PASS_WORD_OPVAL \<noteq> 0; v = \<lparr>MQC_UTF8_CLIENTID = None, MQC_UTF8_WILL_TOP = None,
            MQC_UTF8_WILL_MSG = None, MQC_UTF8_USERNAME = None, MQC_UTF8_PASSWORD = None\<rparr> in do {
      r \<leftarrow> rd_conn_utf8 True buf d lim;
      case r of None \<Rightarrow> Some (0x00FF, v) | Some (d, u0) \<Rightarrow> do {
      r \<leftarrow> rd_conn_utf8 will buf d lim;
      case r of None \<Rightarrow> Some (0x00FF, v) | Some (d, u1) \<Rightarrow> do {
      r \<leftarrow> rd_conn_utf8 will buf d lim;
      case r of None \<Rightarrow> Some (0x00FF, v) | Some (d, u2) \<Rightarrow>
      if \<not> user \<and> pass then Some (0x00FF, v)
      else do {
      r \<leftarrow> rd_conn_utf8 user buf d lim;
      case r of None \<Rightarrow> Some (0x00FF, v) | Some (d, u3) \<Rightarrow> do {
      r \<leftarrow> rd_conn_utf8 pass buf d lim;
      case r of None \<Rightarrow> Some (0x00FF, v) | Some (d, u4) \<Rightarrow>
        Some (0, \<lparr>MQC_UTF8_CLIENTID = u0, MQC_UTF8_WILL_TOP = u1, MQC_UTF8_WILL_MSG = u2,
                  MQC_UTF8_USERNAME = u3, MQC_UTF8_PASSWORD = u4\<rparr>) } } } } })"

text \<open>The checks of \<open>pk_proc_connect_rx\<close> up to the call of \<open>connect_rx\<close>: the CONNACK value, the
  connect flags and the strings, with the keep-alive period stored in the context.\<close>

definition connect_checks :: "nat \<Rightarrow> mqtt_packet \<Rightarrow> broker \<Rightarrow> (u16 \<times> u8 \<times> conn_utf8s \<times> broker) option" where
  "connect_checks c mqp s = do {
     (rv, flags, ka, mqp) \<leftarrow> proc_connect_vh_rx mqp;
     s \<leftarrow> (case ka of None \<Rightarrow> Some s | Some k \<Rightarrow> ctx_upd (\<lambda>cx. cx\<lparr>cx_ka_secs := k\<rparr>) c s);
     let v0 = \<lparr>MQC_UTF8_CLIENTID = None, MQC_UTF8_WILL_TOP = None, MQC_UTF8_WILL_MSG = None,
               MQC_UTF8_USERNAME = None, MQC_UTF8_PASSWORD = None\<rparr>;
     if rv \<noteq> 0 then Some (rv, flags, v0, s)
     else do {
       (rv, v) \<leftarrow> proc_connect_pl_rx (p_buffer mqp) (MQP_PAYLOAD_BUF mqp) (MQP_PAYLOAD_BUF mqp + unat (p_pl_len mqp)) flags;
       if rv \<noteq> 0 then Some (rv, flags, v, s)
       else do {
         cid \<leftarrow> MQC_UTF8_CLIENTID v;
         Some (if u_length cid = 0 \<and> flags AND CLEAN_START_VAL = 0 then ucast CONNACK_RC_CLI_REJECT else 0, flags, v, s) } } }"

definition pk_proc_connect_rx :: "broker_env \<Rightarrow> nat \<Rightarrow> mqtt_packet \<Rightarrow> broker \<Rightarrow> (bool \<times> broker) option" where
  "pk_proc_connect_rx env c mqp s = do {
     s \<leftarrow> ctx_upd set_rcvd_conn_msg c s;
     (ack, flags, v, s) \<leftarrow> connect_checks c mqp s;
     (ack, s) \<leftarrow> (if ack \<noteq> 0 then Some (ack, s)
        else do {
          (ack, usr, s) \<leftarrow> proc_connect_rx env (Some c) flags v s;
          s \<leftarrow> (case usr of None \<Rightarrow> Some s | Some u \<Rightarrow> ctx_upd (\<lambda>cx. cx\<lparr>cx_usr := Some u\<rparr>) c s);
          Some (ack, s) });
     s \<leftarrow> (if ack AND 0xFF \<noteq> 0xFF then map_option snd (vh_msg_send env c MQTT_CONNACK MQTT_QOS0 True ack s) else Some s);
     if ack AND 0xFF = ucast CONNACK_RC_REQ_ACCEPT then do {
       s \<leftarrow> rx_timeout_update env c s;
       cx \<leftarrow> ctx_get s c;
       u \<leftarrow> cx_usr cx;
       s \<leftarrow> on_connack_send env u (flags AND CLEAN_START_VAL \<noteq> 0) s;
       Some (True, s) }
     else Some (False, s) }"

section \<open>Dispatch of a packet\<close>

definition process_recv :: "broker_env \<Rightarrow> nat \<Rightarrow> mqtt_packet \<Rightarrow> broker \<Rightarrow> (bool \<times> broker) option" where
  "process_recv env c mqp s = do {
     let msg_type = p_msg_type mqp;
     cx \<leftarrow> ctx_get s c;
     if (MQTT_CONNECT \<noteq> msg_type) \<noteq> had_rcvd_conn_msg cx then Some (False, s)
     else do {
       s \<leftarrow> rx_timeout_update env c s;
       if msg_type = MQTT_CONNECT then pk_proc_connect_rx env c mqp s
       else if msg_type = MQTT_DISCONNECT then pk_proc_disconn_rx env c s
       else if msg_type = MQTT_SUBSCRIBE then pk_proc_sub_msg_rx env c mqp s
       else if msg_type = MQTT_UNSUBSCRIBE then pk_proc_unsub_msg_rx env c mqp s
       else if msg_type = MQTT_PINGREQ then pk_proc_pingreq_rx env c s
       else if msg_type = MQTT_PUBLISH then pk_proc_pub_msg_rx env c mqp s
       else if msg_type = MQTT_PUBACK \<or> msg_type = MQTT_PUBREC \<or> msg_type = MQTT_PUBREL \<or> msg_type = MQTT_PUBCOMP
         then pk_proc_ack_msg_rx env c mqp s
       else Some (False, s) } }"

section \<open>Keep-alive\<close>

abbreviation IO_MON_NO_TIMEOUT :: u32 where "IO_MON_NO_TIMEOUT \<equiv> 0xFFFFFFFF"

partial_function (option) ka_loop :: "broker_env \<Rightarrow> u32 \<Rightarrow> ptr \<Rightarrow> broker \<Rightarrow> broker option" where
  "ka_loop env now_secs cl_ctx s =
     (case cl_ctx of
        None \<Rightarrow> Some s
      | Some c \<Rightarrow> do {
          cx \<leftarrow> ctx_get s c;
          s \<leftarrow> (if NEED_NET_CLOSE cx \<or> \<not> now_secs < cx_timeout cx then do {
                  s \<leftarrow> ctx_upd (\<lambda>cx. cx\<lparr>cx_flags := cx_flags cx AND NOT (NW_CONN_ERROR_FLAG OR NETWORK_CLOSE_FLAG)\<rparr>) c s;
                  do_net_close_rx env c (cx_flags cx AND NW_CONN_ERROR_FLAG \<noteq> 0) s }
                else Some s);
          ka_loop env now_secs (cx_next cx) s })"

definition ka_sequence :: "broker_env \<Rightarrow> broker \<Rightarrow> (u32 \<times> broker) option" where
  "ka_sequence env s = do {
     let now_secs = e_time env (b_trace s);
     s \<leftarrow> ka_loop env now_secs (used_ctxs (b_pool s)) (log_ev (EvTime now_secs) s);
     case used_ctxs (b_pool s) of
       None \<Rightarrow> Some (IO_MON_NO_TIMEOUT, s)
     | Some c \<Rightarrow> do {
         cx \<leftarrow> ctx_get s c;
         Some (if cx_timeout cx = KA_TIMEOUT_NONE then IO_MON_NO_TIMEOUT else cx_timeout cx - now_secs, s) } }"

section \<open>The rounds of the server\<close>

definition accept_ctx :: "broker_env \<Rightarrow> i32 \<Rightarrow> u32 \<Rightarrow> broker \<Rightarrow> (bool \<times> broker) option" where
  "accept_ctx env net wait_secs s = do {
     (c, p) \<leftarrow> cl_ctx_alloc (b_pool s);
     let s = s\<lparr>b_pool := p\<rparr>;
     case c of
       None \<Rightarrow> Some (False, s)
     | Some c \<Rightarrow> do {
         let (fd, ip, n) = e_accept env (b_trace s) net;
         s \<leftarrow> ctx_upd (\<lambda>cx. cx\<lparr>cx_net := fd, cx_remote_ip := ip, cx_ip_length := n\<rparr>) c (log_ev (EvAccept fd) s);
         if fd = - 1 then do { p \<leftarrow> cl_ctx_free (b_pool s) c; Some (False, s\<lparr>b_pool := p\<rparr>) }
         else do {
           let now = e_time env (b_trace s);
           s \<leftarrow> ctx_upd (\<lambda>cx. cx\<lparr>cx_timeout := wait_secs + now\<rparr>) c (log_ev (EvTime now) s);
           p \<leftarrow> used_ctxs_insert (b_pool s) c;
           Some (True, s\<lparr>b_pool := p\<rparr>) } } }"

partial_function (option) net_find_loop :: "ctx_heap \<Rightarrow> i32 \<Rightarrow> ptr \<Rightarrow> ptr option" where
  "net_find_loop h net cl_ctx =
     (case cl_ctx of
        None \<Rightarrow> Some None
      | Some c \<Rightarrow> do { cx \<leftarrow> h c; if net = cx_net cx then Some cl_ctx else net_find_loop h net (cx_next cx) })"

definition net_cl_ctx_find :: "i32 \<Rightarrow> broker \<Rightarrow> ptr option" where
  "net_cl_ctx_find net s = net_find_loop (contexts (b_pool s)) net (used_ctxs (b_pool s))"

definition net_recv :: "broker_env \<Rightarrow> i32 \<Rightarrow> broker \<Rightarrow> (i32 \<times> broker) option" where
  "net_recv env net s = do {
     (rv, mqp, tr) \<leftarrow> mqp_recv (\<lambda>tr len. let (rv, bs) = e_recv env tr net len in (rv, bs, EvRecv rv # tr)) (b_rx_mqp s) (b_trace s);
     Some (if rv \<le> 0 then MQP_ERR_NETWORK else rv, s\<lparr>b_rx_mqp := mqp, b_trace := tr\<rparr>) }"

definition proc_loopback_recv :: "broker_env \<Rightarrow> i32 \<Rightarrow> broker \<Rightarrow> i32 \<times> broker" where
  "proc_loopback_recv env net s =
     (let rv = e_recv_from env (b_trace s) net; s = log_ev (EvRecv rv) s\<lparr>b_pending_trigs := False\<rparr> in
      if rv \<le> 0 then (MQP_ERR_LIBQUIT, log_ev (EvClose net) s) else (rv, s))"

definition proc_net_data_recv :: "broker_env \<Rightarrow> i32 \<Rightarrow> broker \<Rightarrow> broker option" where
  "proc_net_data_recv env net s = do {
     ctx \<leftarrow> net_cl_ctx_find net s;
     (rv, s) \<leftarrow> net_recv env net (s\<lparr>b_rx_mqp := mqp_reset (b_rx_mqp s)\<rparr>);
     (rv, s) \<leftarrow> (if 0 < rv then do {
                    c \<leftarrow> ctx;
                    (ok, s) \<leftarrow> process_recv env c (b_rx_mqp s) s;
                    Some (if ok then rv else MQP_ERR_CONTENT, s) }
                  else Some (rv, s));
     if rv < 0 then do { c \<leftarrow> ctx; do_net_close_rx env c (rv \<noteq> 0) s } else Some s }"

text \<open>The loop of \<open>accept_and_recv_locked\<close> over the handles with activity.\<close>

fun accept_and_recv_locked :: "broker_env \<Rightarrow> i32 list \<Rightarrow> u32 \<Rightarrow> broker \<Rightarrow> (bool \<times> broker) option" where
  "accept_and_recv_locked env [] wait_secs s = Some (True, s)"
| "accept_and_recv_locked env (net # nets) wait_secs s = do {
     (rv, s) \<leftarrow> (if net = b_listen_net s then accept_ctx env (b_listen_net s) wait_secs s
                 else if b_loopback_port s \<noteq> 0 \<and> net = b_loopb_net s then
                   (let (rv, s) = proc_loopback_recv env (b_loopb_net s) s in Some (\<not> rv < 0, s))
                 else do { s \<leftarrow> proc_net_data_recv env net s; Some (True, s) });
     if rv then accept_and_recv_locked env nets wait_secs s else Some (False, s) }"

text \<open>\<open>recv_hvec_load\<close>: the handles of the used contexts, at most \<open>size\<close>, and the end mark.\<close>

fun recv_hvec_load :: "ctx_heap \<Rightarrow> nat \<Rightarrow> ptr \<Rightarrow> i32 list option" where
  "recv_hvec_load h 0 lst = Some [- 1]"
| "recv_hvec_load h (Suc n) lst =
     (case lst of None \<Rightarrow> Some [- 1]
      | Some c \<Rightarrow> do { cx \<leftarrow> h c; hs \<leftarrow> recv_hvec_load h n (cx_next cx); Some (cx_net cx # hs) })"

text \<open>One round of the endless loop of \<open>mqtt_server_run\<close>: \<open>Some rv\<close> inside for a return.\<close>

definition server_round :: "broker_env \<Rightarrow> u32 \<Rightarrow> broker \<Rightarrow> (i32 option \<times> broker) option" where
  "server_round env wait_secs s = do {
     (secs2wait, s) \<leftarrow> ka_sequence env s;
     hs \<leftarrow> recv_hvec_load (contexts (b_pool s)) (MAX_NWCONN + 1) (used_ctxs (b_pool s));
     let hvec = b_listen_net s # (if b_loopback_port s \<noteq> 0 then [b_loopb_net s] else []) @ hs;
     let (n_hnds, active) = e_io_mon env (b_trace s) hvec secs2wait;
     let s = log_ev (EvIoMon n_hnds) s;
     if n_hnds < 0 then Some (Some MQP_ERR_LIBQUIT, s)
     else if length active < nat n_hnds then None
     else do {
       (ok, s) \<leftarrow> accept_and_recv_locked env (take (nat n_hnds) active) wait_secs s;
       Some (if ok then None else Some MQP_ERR_LIBQUIT, s) } }"

partial_function (option) server_loop :: "broker_env \<Rightarrow> u32 \<Rightarrow> broker \<Rightarrow> (i32 \<times> broker) option" where
  "server_loop env wait_secs s = do {
     (r, s) \<leftarrow> server_round env wait_secs s;
     case r of Some rv \<Rightarrow> Some (rv, s) | None \<Rightarrow> server_loop env wait_secs s }"

definition mqtt_server_run :: "broker_env \<Rightarrow> u32 \<Rightarrow> broker \<Rightarrow> (i32 \<times> broker) option" where
  "mqtt_server_run env wait_secs s =
     (if \<not> b_net_ops s then Some (MQP_ERR_NET_OPS, s)
      else let s = (if b_loopback_port s \<noteq> 0
                    then (let fd = e_open env (b_trace s) (b_loopback_port s) in log_ev (EvOpen fd) s\<lparr>b_loopb_net := fd\<rparr>) else s) in
        if b_loopback_port s \<noteq> 0 \<and> b_loopb_net s = - 1 then Some (MQP_ERR_LIBQUIT, s)
        else let fd = e_listen env (b_trace s) (b_listener_port s); s = log_ev (EvListen fd) s\<lparr>b_listen_net := fd\<rparr> in
          if fd = - 1 then Some (MQP_ERR_LIBQUIT, s) else server_loop env wait_secs s)"

section \<open>Initialisation\<close>

text \<open>\<open>struct mqtt_server_lib_cfg\<close>, without the mutex; \<open>lc_debug_printf\<close>: the function is given.\<close>

record lib_cfg =
  lc_listener_port :: u16
  lc_loopback_port :: u16
  lc_debug_printf :: bool

definition mqtt_server_register_net_svc :: "bool \<Rightarrow> broker \<Rightarrow> i32 \<times> broker" where
  "mqtt_server_register_net_svc all_set s = (if all_set then (0, s\<lparr>b_net_ops := True\<rparr>) else (- 1, s))"

definition MQP_SERVER_RX_LEN :: nat where [wire_consts]: "MQP_SERVER_RX_LEN = 1024"

definition mqtt_server_lib_init :: "lib_cfg option \<Rightarrow> broker \<Rightarrow> (i32 \<times> broker) option" where
  "mqtt_server_lib_init cfg s = do {
     p \<leftarrow> cl_ctx_init (b_pool s);
     let s = s\<lparr>b_pool := p\<rparr>;
     case cfg of
       None \<Rightarrow> Some (- 1, s)
     | Some cf \<Rightarrow>
         if lc_listener_port cf = 0 \<or> \<not> lc_debug_printf cf then Some (- 1, s)
         else Some (0, s\<lparr>b_loopback_port := lc_loopback_port cf, b_listener_port := lc_listener_port cf,
                b_rx_mqp := mqp_buffer_attach (b_rx_mqp s) (replicate MQP_SERVER_RX_LEN 0) (of_nat MQP_SERVER_RX_LEN) 0\<rparr>) }"

definition mqtt_server_init :: "lib_cfg \<Rightarrow> broker \<Rightarrow> (i32 \<times> broker) option" where
  "mqtt_server_init cfg s = do {
     let s = s\<lparr>b_tree := topic_node_init (b_tree s)\<rparr>;
     let (_, s) = cl_mgmt_init s;
     let s = s\<lparr>b_plug := snd (plugin_init (b_plug s) (Some (True, True, True)))\<rparr>;
     (_, s) \<leftarrow> mqtt_server_lib_init (Some cfg) s;
     Some (0, s) }"

end
