(* ===== verification/BrokerTx.thy ===== *)
theory BrokerTx
  imports Broker
begin

text \<open>
  Transmission in the broker, as lemmas: what is put on the network, and what else may change.
  A transmission that fails marks the connection for closing; it touches nothing but the flags
  of the contexts, the trigger and the trace (\<open>tx_only\<close>).
\<close>

section \<open>What a transmission may change\<close>

text \<open>Two pools of contexts that differ in the flags only.\<close>

definition pool_like :: "ctx_pool \<Rightarrow> ctx_pool \<Rightarrow> bool" where
  "pool_like p p' \<longleftrightarrow> used_ctxs p' = used_ctxs p \<and> free_ctxs p' = free_ctxs p \<and>
     (\<forall>c. map_option (cx_flags_update (\<lambda>_. 0)) (contexts p' c) = map_option (cx_flags_update (\<lambda>_. 0)) (contexts p c))"

lemma pool_like_refl [simp]: "pool_like p p" by (simp add: pool_like_def)

lemma pool_like_trans: "pool_like p q \<Longrightarrow> pool_like q r \<Longrightarrow> pool_like p r" by (simp add: pool_like_def)

definition tx_only :: "broker \<Rightarrow> broker \<Rightarrow> bool" where
  "tx_only s s' \<longleftrightarrow> (\<exists>p b t. pool_like (b_pool s) p \<and> s' = s\<lparr>b_pool := p, b_pending_trigs := b, b_trace := t\<rparr>)"

lemma tx_onlyI: "pool_like (b_pool s) p \<Longrightarrow> tx_only s (s\<lparr>b_pool := p, b_pending_trigs := b, b_trace := t\<rparr>)"
  unfolding tx_only_def by blast

lemma tx_only_refl [simp]: "tx_only s s" using tx_onlyI[where s = s and p = "b_pool s" and b = "b_pending_trigs s" and t = "b_trace s"] by simp

lemma tx_only_trans: "tx_only s t \<Longrightarrow> tx_only t u \<Longrightarrow> tx_only s u"
  by (auto simp: tx_only_def) (blast intro: pool_like_trans)

lemma tx_only_same:
  assumes "tx_only s s'"
  shows "b_users s' = b_users s" "b_heap s' = b_heap s" "b_ack1 s' = b_ack1 s" "b_sess s' = b_sess s" "b_tree s' = b_tree s"
    "b_fresh s' = b_fresh s" "b_msg_id s' = b_msg_id s" "b_plug s' = b_plug s" "b_stack s' = b_stack s" "b_work_buf s' = b_work_buf s"
    "b_loopb_net s' = b_loopb_net s"
  using assms by (auto simp: tx_only_def)

lemma pool_like_ctx:
  assumes "pool_like p p'" "contexts p c = Some cx"
  shows "\<exists>f. contexts p' c = Some (cx\<lparr>cx_flags := f\<rparr>)"
proof -
  have "map_option (cx_flags_update (\<lambda>_. 0)) (contexts p' c) = Some (cx\<lparr>cx_flags := 0\<rparr>)"
    using assms by (simp add: pool_like_def)
  then obtain cx' where "contexts p' c = Some cx'" "cx'\<lparr>cx_flags := 0\<rparr> = cx\<lparr>cx_flags := 0\<rparr>" by auto
  then show ?thesis by (intro exI[of _ "cx_flags cx'"]) (cases cx; cases cx'; simp)
qed

lemma tx_only_ctx: "tx_only s s' \<Longrightarrow> ctx_get s c = Some cx \<Longrightarrow> \<exists>f. ctx_get s' c = Some (cx\<lparr>cx_flags := f\<rparr>)"
  by (auto simp: ctx_get_def tx_only_def intro!: pool_like_ctx)

lemma tx_only_log: "tx_only s (log_ev e s)"
  using tx_onlyI[where s = s and p = "b_pool s" and b = "b_pending_trigs s" and t = "e # b_trace s"] by (simp add: log_ev_def)

lemma tx_only_flags: "ctx_get s c = Some cx \<Longrightarrow> \<exists>s'. ctx_upd (\<lambda>cx. cx\<lparr>cx_flags := g cx\<rparr>) c s = Some s' \<and> tx_only s s' \<and> b_trace s' = b_trace s"
proof -
  assume c: "ctx_get s c = Some cx"
  let ?p = "(b_pool s)\<lparr>contexts := (contexts (b_pool s))(c \<mapsto> cx\<lparr>cx_flags := g cx\<rparr>)\<rparr>"
  have "pool_like (b_pool s) ?p" using c by (simp add: pool_like_def ctx_get_def)
  then have "tx_only s (s\<lparr>b_pool := ?p\<rparr>)" using tx_onlyI[where s = s and p = ?p and b = "b_pending_trigs s" and t = "b_trace s"] by simp
  then show ?thesis using c by (simp add: ctx_upd_def)
qed

lemma loopb_trigger_tx: "tx_only s (snd (loopb_trigger env s)) \<and> sends (b_trace (snd (loopb_trigger env s))) = sends (b_trace s)"
proof -
  have "s\<lparr>b_trace := t, b_pending_trigs := b\<rparr> = s\<lparr>b_pool := b_pool s, b_pending_trigs := b, b_trace := t\<rparr>" for b t
    by (cases s) simp
  then have "tx_only s (s\<lparr>b_trace := t, b_pending_trigs := b\<rparr>)" for b t unfolding tx_only_def using pool_like_refl by blast
  from this[where b = True] tx_only_log[of s] show ?thesis by (auto simp: loopb_trigger_def Let_def log_ev_def)
qed

lemma do_net_close_tx:
  assumes "ctx_get s c = Some cx"
  shows "\<exists>s'. do_net_close_tx env c e s = Some s' \<and> tx_only s s' \<and> sends (b_trace s') = sends (b_trace s)"
proof -
  obtain s1 where 1: "(if e then ctx_upd (\<lambda>cx. cx\<lparr>cx_flags := cx_flags cx OR NW_CONN_ERROR_FLAG\<rparr>) c s else Some s) = Some s1"
    "tx_only s s1" "b_trace s1 = b_trace s"
    using tx_only_flags[OF assms, of "\<lambda>cx. cx_flags cx OR NW_CONN_ERROR_FLAG"] by (cases e) auto
  obtain cx1 where "ctx_get s1 c = Some cx1" using tx_only_ctx[OF 1(2) assms] by blast
  then obtain s2 where 2: "ctx_upd (\<lambda>cx. cx\<lparr>cx_flags := cx_flags cx OR NETWORK_CLOSE_FLAG\<rparr>) c s1 = Some s2" "tx_only s1 s2" "b_trace s2 = b_trace s1"
    using tx_only_flags[of s1 c cx1 "\<lambda>cx. cx_flags cx OR NETWORK_CLOSE_FLAG"] by blast
  show ?thesis using 1 2 loopb_trigger_tx[of s2 env]
    by (auto simp: do_net_close_tx_def intro: tx_only_trans)
qed

lemma cl_ctx_send:
  assumes "ctx_get s c = Some cx" "d + n \<le> length buf"
  shows "\<exists>r rv s'. cl_ctx_send env c buf d n s = Some (r, s') \<and> tx_only s s' \<and>
     sends (b_trace s') = sends (b_trace s) @ [(cx_net cx, take n (drop d buf), rv)] \<and> (0 < r \<longleftrightarrow> 0 < rv) \<and> (0 < rv \<longrightarrow> r = rv)"
proof -
  define bytes where "bytes = take n (drop d buf)"
  define rv where "rv = e_send env (b_trace s) (cx_net cx) bytes"
  let ?s = "log_ev (EvSend (cx_net cx) bytes rv) s"
  have g: "ctx_get ?s c = Some cx" using assms(1) by (simp add: ctx_get_def log_ev_def)
  have l: "tx_only s ?s" "sends (b_trace ?s) = sends (b_trace s) @ [(cx_net cx, bytes, rv)]" using tx_only_log by (simp_all add: log_ev_def)
  show ?thesis
  proof (cases "rv \<le> 0")
    case True
    obtain s' where s': "do_net_close_tx env c True ?s = Some s'" "tx_only ?s s'" "sends (b_trace s') = sends (b_trace ?s)"
      using do_net_close_tx[OF g] by blast
    have "cl_ctx_send env c buf d n s = Some (MQP_ERR_NETWORK, s')"
      using assms True s'(1) by (simp add: cl_ctx_send_def bytes_def[symmetric] rv_def[symmetric] Let_def)
    moreover have "\<not> 0 < MQP_ERR_NETWORK" by simp
    ultimately show ?thesis using l s' True unfolding bytes_def[symmetric]
      by (intro exI[of _ MQP_ERR_NETWORK] exI[of _ rv] exI[of _ s']) (auto intro: tx_only_trans)
  next
    case False
    then have "cl_ctx_send env c buf d n s = Some (rv, ?s)"
      using assms by (simp add: cl_ctx_send_def bytes_def[symmetric] rv_def[symmetric] Let_def)
    then show ?thesis using l unfolding bytes_def[symmetric] by blast
  qed
qed


section \<open>Transmission of a PUBLISH to one client\<close>

definition dup_wire :: "bool \<Rightarrow> u8 list \<Rightarrow> u8 list" where
  "dup_wire dup w = (if dup then (hd w OR 0x8) # tl w else w)"

text \<open>A packet that can be sent: the content lies in the buffer and the DUP bit is clear.\<close>

definition sendable :: "mqtt_packet \<Rightarrow> bool" where
  "sendable m \<longleftrightarrow> 0 < unat (MQP_CONTENT_LEN m) \<and> MQP_FHEADER_BUF m + unat (MQP_CONTENT_LEN m) \<le> length (p_buffer m) \<and>
     \<not> bit (p_buffer m ! MQP_FHEADER_BUF m) 3"

lemma dup_val: "DUP_FLAG_VAL True = 0x8" by (simp add: DUP_FLAG_VAL_def)

lemma bit_8: "bit (0x8 :: u8) n \<longleftrightarrow> n = 3"
proof -
  have "bit (2 ^ 3 :: u8) n \<longleftrightarrow> n = 3" unfolding bit_exp_iff by auto
  then show ?thesis by simp
qed

lemma clear_bit_3:
  fixes b e :: u8
  assumes "\<And>n. bit e n \<longleftrightarrow> n = 3" "\<not> bit b 3"
  shows "b AND NOT e = b \<and> (b OR e) AND NOT e = b"
  by (intro conjI bit_word_eqI) (use assms in \<open>auto simp: bit_and_iff bit_or_iff bit_not_iff\<close>)

lemmas dup_clear = clear_bit_3[OF bit_8]

lemma mqtt_server_pub_dispatch:
  assumes "b_heap s a = Some m" "sendable m" "ctx_get s c = Some cx"
  shows "\<exists>r rv s'. mqtt_server_pub_dispatch env (Some c) a dup s = Some (r, s') \<and> tx_only s s' \<and>
     sends (b_trace s') = sends (b_trace s) @ [(cx_net cx, dup_wire dup (mqp_content m), rv)] \<and> (0 < r \<longleftrightarrow> 0 < rv)"
proof -
  define d where "d = MQP_FHEADER_BUF m"
  define n where "n = unat (MQP_CONTENT_LEN m)"
  define b0 where "b0 = p_buffer m ! d"
  define buf where "buf = (p_buffer m)[d := (if dup then b0 OR 0x8 else b0)]"
  have dn: "0 < n" "d + n \<le> length (p_buffer m)" "\<not> bit b0 3" using assms(2) by (simp_all add: sendable_def d_def n_def b0_def)
  have bytes: "take n (drop d buf) = dup_wire dup (mqp_content m)"
  proof -
    obtain w where w: "mqp_content m = b0 # w"
      using dn by (simp add: mqp_content_def d_def[symmetric] n_def[symmetric] b0_def Cons_nth_drop_Suc[symmetric] take_Cons')
    have "take n (drop d buf) = (mqp_content m)[0 := (if dup then b0 OR 0x8 else b0)]"
      using dn by (simp add: mqp_content_def d_def[symmetric] n_def[symmetric] buf_def drop_update_swap take_update_swap)
    then show ?thesis by (simp add: w dup_wire_def)
  qed
  obtain r rv s' where s': "cl_ctx_send env c buf d n s = Some (r, s')" "tx_only s s'"
    "sends (b_trace s') = sends (b_trace s) @ [(cx_net cx, take n (drop d buf), rv)]" "0 < r \<longleftrightarrow> 0 < rv"
    using cl_ctx_send[OF assms(3), of d n buf env] dn by (auto simp: buf_def)
  have restored: "buf[d := (if dup then b0 OR 0x8 else b0) AND NOT 0x8] = p_buffer m"
    using dup_clear[OF dn(3)] dn by (auto simp: buf_def b0_def)
  have h: "(b_heap s')(a \<mapsto> m) = b_heap s'" using tx_only_same(2)[OF s'(2)] assms(1) by auto
  have g: "buf_get (p_buffer m) d = Some b0" "buf_put (p_buffer m) d (if dup then b0 OR DUP_FLAG_VAL True else b0) = Some buf"
    "buf_get buf d = Some (if dup then b0 OR 0x8 else b0)"
    "buf_put buf d ((if dup then b0 OR 0x8 else b0) AND NOT (DUP_FLAG_VAL True)) = Some (p_buffer m)"
    using dn restored by (simp_all add: mem_simps b0_def buf_def dup_val)
  have "mqtt_server_pub_dispatch env (Some c) a dup s = Some (r, s')"
    unfolding mqtt_server_pub_dispatch_def using assms(1) s'(1) g h
    by (simp add: Let_def d_def[symmetric] n_def[symmetric] del: fun_upd_apply)
  then show ?thesis using s'(2-4) unfolding bytes by blast
qed

end
