(* ===== verification/Dispatch.thy ===== *)
theory Dispatch
  imports ClientMgmt BrokerTx
begin

text \<open>
  The distribution of a PUBLISH packet to the clients of a bit map (\<open>pub_dispatch\<close> of
  \<open>client_mgmt.c\<close>), specified by the clients it reaches, the clients it waits for and the
  clients it is stored for.
\<close>

section \<open>Bit maps of clients\<close>

declare push_bit_of_1 [simp del]

lemma and_push_bit: "(w AND push_bit i 1 \<noteq> 0) \<longleftrightarrow> bit w i" for w :: u32
  using and_exp_eq_0_iff_not_bit[of w i] by (simp add: push_bit_of_1)

lemma bit_push_bit_1: "bit (push_bit i (1 :: u32)) n \<longleftrightarrow> n = i \<and> i < 32"
  by (auto simp: push_bit_of_1 bit_exp_iff)

lemma bit_clear_1: "i < 32 \<Longrightarrow> bit (w AND NOT (push_bit i 1)) n \<longleftrightarrow> bit w n \<and> n \<noteq> i" for w :: u32
  by (auto simp: bit_and_iff bit_not_iff bit_push_bit_1 dest: bit_imp_le_length)

lemma bit_set_1: "i < 32 \<Longrightarrow> bit (w OR push_bit i 1) n \<longleftrightarrow> bit w n \<or> n = i" for w :: u32
  by (auto simp: bit_or_iff bit_push_bit_1)

text \<open>The network handle of the connection of user \<open>i\<close>, and users whose connection is in order.\<close>

definition usr_net :: "broker \<Rightarrow> nat \<Rightarrow> i32" where
  "usr_net s i = cx_net (the (ctx_get s (the (us_ctx (b_users s ! i)))))"

definition conn_ok :: "broker \<Rightarrow> nat \<Rightarrow> bool" where
  "conn_ok s i \<longleftrightarrow> i < length (b_users s) \<and> (is_connected (b_users s ! i) \<longrightarrow> (\<exists>c cx. us_ctx (b_users s ! i) = Some c \<and> ctx_get s c = Some cx))"

lemma tx_only_conn:
  assumes "tx_only s s'"
  shows "conn_ok s i \<Longrightarrow> conn_ok s' i" "conn_ok s i \<Longrightarrow> is_connected (b_users s ! i) \<Longrightarrow> usr_net s' i = usr_net s i"
  using tx_only_ctx[OF assms] tx_only_same(1)[OF assms] by (fastforce simp: conn_ok_def usr_net_def)+

definition targets :: "broker \<Rightarrow> u32 \<Rightarrow> nat list \<Rightarrow> nat list" where
  "targets s cl_map is = filter (\<lambda>i. bit cl_map i \<and> is_connected (b_users s ! i)) is"

lemma targets_Cons: "targets s cl_map (i # is) = (if bit cl_map i \<and> is_connected (b_users s ! i) then i # targets s cl_map is else targets s cl_map is)"
  by (simp add: targets_def)

lemma targets_cong: "b_users s' = b_users s \<Longrightarrow> (\<And>j. j \<in> set is \<Longrightarrow> bit cl j \<longleftrightarrow> bit cl' j) \<Longrightarrow> targets s cl is = targets s' cl' is"
  by (auto simp: targets_def intro: filter_cong)

lemma inactive_not_connected: "IS_CL_INACTIVE x \<Longrightarrow> \<not> is_connected x"
  by (simp add: IS_CL_INACTIVE_def is_connected_def)

text \<open>What the loop over the positions \<open>is\<close> has done: \<open>rvs\<close> are the results of the transmissions.\<close>

definition loop_sent :: "mqtt_packet \<Rightarrow> mqtt_qos \<Rightarrow> nat list \<Rightarrow> u32 \<Rightarrow> u32 \<Rightarrow> broker \<Rightarrow> u32 \<Rightarrow> u32 \<Rightarrow> broker \<Rightarrow> i32 list \<Rightarrow> bool" where
  "loop_sent m qos is cl_map sp_map s cl sp s' rvs \<longleftrightarrow> tx_only s s' \<and>
     length rvs = length (targets s cl_map is) \<and>
     sends (b_trace s') = sends (b_trace s) @ map (\<lambda>(i, rv). (usr_net s i, mqp_content m, rv)) (zip (targets s cl_map is) rvs) \<and>
     (\<forall>n. bit cl n \<longleftrightarrow> bit cl_map n \<and> (n \<in> set is \<longrightarrow> (\<exists>rv. (n, rv) \<in> set (zip (targets s cl_map is) rvs) \<and> 0 < rv \<and>
          NEED_TO_WAIT_LIST_PUBLISH qos (b_users s ! n)))) \<and>
     (\<forall>n. bit sp n \<longleftrightarrow> bit sp_map n \<or> n \<in> set is \<and> bit cl_map n \<and> IS_CL_INACTIVE (b_users s ! n))"

lemma loop_sent_skip:
  assumes "loop_sent m qos js cl_map sp_map s cl sp s' rvs" "\<not> bit cl_map i"
  shows "loop_sent m qos (i # js) cl_map sp_map s cl sp s' rvs"
proof -
  have "targets s cl_map (i # js) = targets s cl_map js" using assms(2) by (simp add: targets_Cons)
  then show ?thesis using assms unfolding loop_sent_def by (auto 4 3)
qed

lemma zip_notin: "i \<notin> set xs \<Longrightarrow> (i, rv) \<notin> set (zip xs rvs)"
  by (auto dest: set_zip_leftD)

lemma loop_sent_away:
  assumes "loop_sent m qos js (cl_map AND NOT (push_bit i 1)) (if IS_CL_INACTIVE (b_users s ! i) then sp_map OR push_bit i 1 else sp_map) s cl sp s' rvs"
    "bit cl_map i" "\<not> is_connected (b_users s ! i)" "i < 32" "i \<notin> set js"
  shows "loop_sent m qos (i # js) cl_map sp_map s cl sp s' rvs"
proof -
  let ?cl = "cl_map AND NOT (push_bit i 1)" and ?sp = "if IS_CL_INACTIVE (b_users s ! i) then sp_map OR push_bit i 1 else sp_map"
  have tg: "targets s cl_map (i # js) = targets s ?cl js"
    using assms(3-5) by (auto simp: targets_Cons bit_clear_1 intro!: targets_cong)
  have b: "bit ?cl n \<longleftrightarrow> bit cl_map n \<and> n \<noteq> i" "bit ?sp n \<longleftrightarrow> bit sp_map n \<or> n = i \<and> IS_CL_INACTIVE (b_users s ! i)" for n
    using assms(4) by (auto simp: bit_clear_1 bit_set_1)
  have "i \<notin> set (targets s ?cl js)" using assms(5) by (simp add: targets_def)
  then have "(i, rv) \<notin> set (zip (targets s ?cl js) rvs)" for rv by (rule zip_notin)
  then show ?thesis using assms(1,2,5) unfolding loop_sent_def tg by (auto simp: b)
qed

lemma loop_sent_conn:
  assumes "loop_sent m qos js cl1 sp_map s1 cl sp s' rvs" "tx_only s s1"
    "sends (b_trace s1) = sends (b_trace s) @ [(usr_net s i, mqp_content m, rv)]"
    "\<And>n. bit cl1 n \<longleftrightarrow> bit cl_map n \<and> (n = i \<longrightarrow> 0 < rv \<and> NEED_TO_WAIT_LIST_PUBLISH qos (b_users s ! i))"
    "bit cl_map i" "is_connected (b_users s ! i)" "i \<notin> set js" "\<forall>j \<in> set js. conn_ok s j"
  shows "loop_sent m qos (i # js) cl_map sp_map s cl sp s' (rv # rvs)"
proof -
  note ih = assms(1)[unfolded loop_sent_def]
  have us: "b_users s1 = b_users s" using tx_only_same(1)[OF assms(2)] .
  have tg: "targets s cl_map (i # js) = i # targets s1 cl1 js"
    using assms(5-7) us assms(4) by (auto simp: targets_Cons intro!: targets_cong)
  have "i \<notin> set (targets s1 cl1 js)" using assms(7) by (simp add: targets_def)
  then have nz: "(i, rv) \<notin> set (zip (targets s1 cl1 js) rvs)" for rv by (rule zip_notin)
  have "usr_net s1 j = usr_net s j" if "j \<in> set (targets s1 cl1 js)" for j
    using that assms(8) tx_only_conn(2)[OF assms(2), of j] us by (auto simp: targets_def)
  then have nets: "map (\<lambda>(i, rv). (usr_net s1 i, mqp_content m, rv)) (zip (targets s1 cl1 js) rvs) =
      map (\<lambda>(i, rv). (usr_net s i, mqp_content m, rv)) (zip (targets s1 cl1 js) rvs)"
    by (auto dest: set_zip_leftD)
  have "tx_only s s'" using assms(2) ih by (blast intro: tx_only_trans)
  moreover have "sends (b_trace s') = sends (b_trace s) @
      map (\<lambda>(i, rv). (usr_net s i, mqp_content m, rv)) (zip (i # targets s1 cl1 js) (rv # rvs))"
    using ih assms(3) nets by simp
  moreover have "\<forall>n. bit cl n \<longleftrightarrow> bit cl_map n \<and> (n \<in> set (i # js) \<longrightarrow> (\<exists>rv'. (n, rv') \<in> set (zip (i # targets s1 cl1 js) (rv # rvs)) \<and> 0 < rv' \<and>
      NEED_TO_WAIT_LIST_PUBLISH qos (b_users s ! n)))"
    using ih nz assms(7) by (auto simp: assms(4) us)
  moreover have "\<forall>n. bit sp n \<longleftrightarrow> bit sp_map n \<or> n \<in> set (i # js) \<and> bit cl_map n \<and> IS_CL_INACTIVE (b_users s ! n)"
    using ih assms(6,7) inactive_not_connected[of "b_users s ! i"] by (auto simp: assms(4) us)
  moreover have "length (rv # rvs) = length (i # targets s1 cl1 js)" using ih by simp
  ultimately show ?thesis unfolding loop_sent_def tg by (intro conjI)
qed

lemma pub_dispatch_loop_sent:
  assumes "b_heap s a = Some m" "sendable m" "distinct is" "\<forall>i \<in> set is. conn_ok s i \<and> i < 32"
  shows "\<exists>cl sp s' rvs. pub_dispatch_loop env a qos is cl_map sp_map s = Some (cl, sp, s') \<and> loop_sent m qos is cl_map sp_map s cl sp s' rvs"
  using assms
proof (induction "is" arbitrary: s cl_map sp_map)
  case Nil
  then show ?case by (simp add: targets_def loop_sent_def)
next
  case (Cons i js)
  have i: "conn_ok s i" "i < 32" "i < length (b_users s)" "i \<notin> set js" and js: "distinct js" "\<forall>j \<in> set js. conn_ok s j \<and> j < 32"
    using Cons.prems(3,4) by (auto simp: conn_ok_def)
  let ?x = "b_users s ! i"
  have u: "usr_get s i = Some ?x" using i(3) by (simp add: usr_get_def mem_simps)
  consider (skip) "\<not> bit cl_map i" | (away) "bit cl_map i" "\<not> is_connected ?x" | (conn) "bit cl_map i" "is_connected ?x" by blast
  then show ?case
  proof cases
    case skip
    have "pub_dispatch_loop env a qos (i # js) cl_map sp_map s = pub_dispatch_loop env a qos js cl_map sp_map s"
      using skip by (simp add: and_push_bit)
    then show ?thesis using Cons.IH[OF Cons.prems(1,2) js, of cl_map sp_map] loop_sent_skip[OF _ skip] by metis
  next
    case away
    let ?cl = "cl_map AND NOT (push_bit i 1)" and ?sp = "if IS_CL_INACTIVE ?x then sp_map OR push_bit i 1 else sp_map"
    have "pub_dispatch_loop env a qos (i # js) cl_map sp_map s = pub_dispatch_loop env a qos js ?cl ?sp s"
      using away u by (simp add: and_push_bit)
    then show ?thesis using Cons.IH[OF Cons.prems(1,2) js, of ?cl ?sp] loop_sent_away[OF _ away i(2,4)] by metis
  next
    case conn
    obtain c cx where c: "us_ctx ?x = Some c" "ctx_get s c = Some cx" using i(1) conn by (auto simp: conn_ok_def)
    obtain r rv s1 where 1: "mqtt_server_pub_dispatch env (Some c) a False s = Some (r, s1)" "tx_only s s1"
      "sends (b_trace s1) = sends (b_trace s) @ [(cx_net cx, mqp_content m, rv)]" "0 < r \<longleftrightarrow> 0 < rv"
      using mqtt_server_pub_dispatch[OF Cons.prems(1,2) c(2), of env False] by (auto simp: dup_wire_def)
    have sd: "sends (b_trace s1) = sends (b_trace s) @ [(usr_net s i, mqp_content m, rv)]" using 1(3) c by (simp add: usr_net_def)
    define cl1 where "cl1 = (if 0 < r \<and> NEED_TO_WAIT_LIST_PUBLISH qos ?x then cl_map else cl_map AND NOT (push_bit i 1))"
    have st: "pub_dispatch_loop env a qos (i # js) cl_map sp_map s = pub_dispatch_loop env a qos js cl1 sp_map s1"
      using conn u c 1(1) inactive_not_connected[of ?x]
      by (auto simp: and_push_bit pub_dispatch_to_def cl1_def)
    have b: "bit cl1 n \<longleftrightarrow> bit cl_map n \<and> (n = i \<longrightarrow> 0 < rv \<and> NEED_TO_WAIT_LIST_PUBLISH qos ?x)" for n
      using i(2) conn(1) 1(4) by (auto simp: cl1_def bit_clear_1)
    have h1: "b_heap s1 a = Some m" using tx_only_same(2)[OF 1(2)] Cons.prems(1) by simp
    have "\<forall>j \<in> set js. conn_ok s1 j \<and> j < 32" using tx_only_conn(1)[OF 1(2)] js(2) by simp
    from Cons.IH[OF h1 Cons.prems(2) js(1) this, of cl1 sp_map] obtain cl sp s' rvs where
      "pub_dispatch_loop env a qos js cl1 sp_map s1 = Some (cl, sp, s')" "loop_sent m qos js cl1 sp_map s1 cl sp s' rvs" by blast
    then show ?thesis unfolding st using loop_sent_conn[OF _ 1(2) sd b conn i(4)] js(2) by blast
  qed
qed

lemmas pub_dispatch_loop_spec = pub_dispatch_loop_sent[unfolded loop_sent_def]

section \<open>Packets in lists\<close>

lemma wlist_rep_cong: "wlist_rep h l ps \<Longrightarrow> (\<And>p. p \<in> set ps \<Longrightarrow> wnext h' p = wnext h p) \<Longrightarrow> wlist_rep h' l ps"
  unfolding wlist_rep_def by (blast intro: seg_cong)

lemma append_frame:
  assumes "mqp_ack_wlist_append h l a = Some (h', l')" "wlist_rep h l ps" "p \<noteq> a" "p \<notin> set ps"
  shows "h' p = h p"
proof -
  have "wl_tail l \<noteq> Some p" using assms(2,4) by (auto simp: wlist_rep_def split: if_splits)
  then show ?thesis using assms(1,3) by (auto simp: mqp_ack_wlist_append_def bind_eq_Some_conv Let_def split: option.splits)
qed

text \<open>A packet of the broker: its buffer is what \<open>server_mqp_alloc\<close> provides, with one reference.\<close>

definition server_pkt :: "mqtt_packet \<Rightarrow> bool" where
  "server_pkt m \<longleftrightarrow> sendable m \<and> MQP_FHEADER_BUF m + unat (MQP_CONTENT_LEN m) \<le> unat (p_maxlen m) \<and>
     unat (p_maxlen m) \<le> MQP_SERVER_TX_LEN - MQP_STRUCT_SZ \<and> length (p_buffer m) = MQP_SERVER_TX_LEN - MQP_STRUCT_SZ \<and>
     p_free_hook m \<and> p_n_refs m = 1"

text \<open>What the distribution of a PUBLISH leaves alone.\<close>

definition pub_frame :: "broker \<Rightarrow> broker \<Rightarrow> bool" where
  "pub_frame s s' \<longleftrightarrow> b_users s' = b_users s \<and> b_tree s' = b_tree s \<and> b_plug s' = b_plug s \<and> b_stack s' = b_stack s \<and>
     b_work_buf s' = b_work_buf s \<and> pool_like (b_pool s) (b_pool s')"

lemma pub_frame_refl [simp]: "pub_frame s s" by (simp add: pub_frame_def)

lemma pub_frame_trans: "pub_frame s t \<Longrightarrow> pub_frame t u \<Longrightarrow> pub_frame s u"
  unfolding pub_frame_def using pool_like_trans by auto

lemma tx_only_frame: "tx_only s s' \<Longrightarrow> pub_frame s s'"
  using tx_only_same[of s s'] by (auto simp: pub_frame_def tx_only_def)

text \<open>The state in which packets can be distributed: the users' connections are in order, the
  two wait lists hold the packets \<open>qs\<close> and \<open>ss\<close>, and the addresses from \<open>b_fresh\<close> on are free.\<close>

definition dispatch_ok :: "broker \<Rightarrow> nat list \<Rightarrow> nat list \<Rightarrow> bool" where
  "dispatch_ok s qs ss \<longleftrightarrow> (\<forall>i < MAX_CLIENTS. conn_ok s i) \<and> wlist_rep (b_heap s) (b_ack1 s) qs \<and> wlist_rep (b_heap s) (b_sess s) ss \<and>
     set qs \<inter> set ss = {} \<and> (\<forall>p \<ge> b_fresh s. b_heap s p = None)"

lemma pub_frame_conn:
  assumes "pub_frame s s'" "conn_ok s i"
  shows "conn_ok s' i" "is_connected (b_users s ! i) \<Longrightarrow> usr_net s' i = usr_net s i"
  using assms pool_like_ctx[of "b_pool s" "b_pool s'"] by (fastforce simp: pub_frame_def conn_ok_def usr_net_def ctx_get_def)+

lemma dispatch_fresh:
  assumes "dispatch_ok s qs ss" "b_heap s a = Some m"
  shows "a < b_fresh s" "set qs \<union> set ss \<subseteq> {..<b_fresh s}"
proof -
  show "a < b_fresh s" using assms by (metis dispatch_ok_def linorder_not_less option.distinct(1))
  have "p < b_fresh s" if "p \<in> set qs \<union> set ss" for p
    using that assms(1) rep_alloc[of "b_heap s" "b_ack1 s" qs p] rep_alloc[of "b_heap s" "b_sess s" ss p]
    unfolding dispatch_ok_def by (metis Un_iff linorder_not_less option.distinct(1))
  then show "set qs \<union> set ss \<subseteq> {..<b_fresh s}" by auto
qed

lemma mqp_content_take:
  assumes "MQP_FHEADER_BUF m + unat (MQP_CONTENT_LEN m) \<le> n" "n \<le> length (p_buffer m)" "n \<le> length b"
  shows "mqp_content (m\<lparr>p_buffer := overlay b 0 (take n (p_buffer m))\<rparr>) = mqp_content m"
proof -
  have e: "take k (drop d (take n xs @ ys)) = take k (drop d xs)" if "d + k \<le> n" "n \<le> length xs" for k d xs and ys :: "u8 list"
  proof -
    have "take k (drop d (take n xs @ ys)) = take k (drop d (take n xs))" using that by simp
    also have "\<dots> = take k (drop d xs)" using that by (simp add: drop_take min_def)
    finally show ?thesis .
  qed
  show ?thesis using assms(1,2) unfolding mqp_content_def MQP_CONTENT_LEN_def MQP_FHEADER_BUF_def by (simp add: overlay_def e del: take_append drop_append)
qed

lemma server_copy:
  assumes "b_heap s a = Some m" "server_pkt m"
  shows "if e_malloc env (b_trace s) MQP_SERVER_TX_LEN then
     (\<exists>m'. mqp_server_copy env a s = Some (Some (b_fresh s),
         (log_ev (EvMalloc MQP_SERVER_TX_LEN True) s)\<lparr>b_fresh := Suc (b_fresh s), b_heap := (b_heap s)(b_fresh s \<mapsto> m')\<rparr>) \<and>
        mqp_content m' = mqp_content m \<and> p_private m' = p_private m \<and> p_fh_byte1 m' = p_fh_byte1 m \<and> p_msg_id m' = p_msg_id m)
     else mqp_server_copy env a s = Some (None, log_ev (EvMalloc MQP_SERVER_TX_LEN False) s)"
proof -
  let ?ok = "e_malloc env (b_trace s) MQP_SERVER_TX_LEN"
  let ?n = "unat (p_maxlen m)" and ?h = "b_heap s" and ?f = "b_fresh s"
  let ?raw = "(mqp_init raw_packet 0)\<lparr>p_msg_type := p_msg_type m, p_maxlen := p_maxlen m, p_free_hook := True\<rparr>"
  let ?m' = "m\<lparr>p_buffer := overlay (replicate 988 0) 0 (take ?n (p_buffer m))\<rparr>"
  have n: "?n \<le> 988" "length (p_buffer m) = 988" "MQP_FHEADER_BUF m + unat (MQP_CONTENT_LEN m) \<le> ?n"
    using assms(2) by (simp_all add: server_pkt_def wire_consts)
  have sz: "\<not> of_nat MQP_SERVER_TX_LEN < of_nat MQP_STRUCT_SZ + (p_maxlen m + ucast (0 :: u8))"
  proof -
    have "unat (36 + p_maxlen m) = 36 + ?n" using n(1) by (simp add: unat_word_ariths)
    then show ?thesis using n(1) by (simp add: wire_consts word_less_nat_alt)
  qed
  show ?thesis
  proof (cases ?ok)
    case False
    then have "server_mqp_alloc env (p_msg_type m) (p_maxlen m) 0 s = (None, log_ev (EvMalloc MQP_SERVER_TX_LEN False) s)"
      using sz by (simp add: server_mqp_alloc_def Let_def)
    then show ?thesis using assms(1) False by (simp add: mqp_server_copy_def)
  next
    case True
    let ?s = "(log_ev (EvMalloc MQP_SERVER_TX_LEN True) s)\<lparr>b_heap := ?h(?f \<mapsto> ?raw), b_fresh := Suc ?f\<rparr>"
    have "server_mqp_alloc env (p_msg_type m) (p_maxlen m) 0 s = (Some ?f, ?s)"
      using sz True by (simp add: server_mqp_alloc_def Let_def log_ev_def)
    moreover have "buf_wr_nbytes (p_buffer ?raw) 0 (p_buffer m) ?n = Some (overlay (replicate 988 0) 0 (take ?n (p_buffer m)))"
      using n by (simp add: mem_simps mqp_init_def mqp_reset_def raw_packet_def wire_consts)
    moreover have "mqp_content ?m' = mqp_content m" by (rule mqp_content_take) (use n in simp_all)
    ultimately show ?thesis unfolding if_P[OF True] using assms(1)
      by (intro exI[of _ ?m']) (simp add: mqp_server_copy_def)
  qed
qed


text \<open>Appending to one of the two lists.\<close>

lemma wl_append_spec:
  assumes "wlist_rep (b_heap s) (wl_get w s) ps" "b_heap s a = Some m" "a \<notin> set ps"
  shows "\<exists>h l. wl_append w a s = Some (wl_put w l (s\<lparr>b_heap := h\<rparr>)) \<and> wlist_rep h l (ps @ [a]) \<and> same_pkts (b_heap s) h \<and>
     (\<forall>p. p \<noteq> a \<and> p \<notin> set ps \<longrightarrow> h p = b_heap s p)"
proof -
  obtain h l where hl: "mqp_ack_wlist_append (b_heap s) (wl_get w s) a = Some (h, l)" "wlist_rep h l (ps @ [a])" "same_pkts (b_heap s) h"
    using append_wlist[OF assms] by blast
  then show ?thesis using append_frame[OF hl(1) assms(1)] by (auto simp: wl_append_def)
qed

lemma same_pkts_at:
  assumes "same_pkts h h'" "h p = Some m"
  shows "\<exists>nx. h' p = Some (m\<lparr>p_next := nx\<rparr>)"
proof -
  have "map_option (p_next_update (\<lambda>_. None)) (h' p) = Some (m\<lparr>p_next := None\<rparr>)"
    using assms unfolding same_pkts_def by (metis option.map(2))
  then obtain m' where "h' p = Some m'" "m'\<lparr>p_next := None\<rparr> = m\<lparr>p_next := None\<rparr>" by auto
  then show ?thesis by (intro exI[of _ "p_next m'"]) (cases m; cases m'; simp)
qed

lemma mqp_content_next [simp]: "mqp_content (m\<lparr>p_next := nx\<rparr>) = mqp_content m" "mqp_content (m\<lparr>p_private := x\<rparr>) = mqp_content m"
  by (simp_all add: mqp_content_def MQP_CONTENT_LEN_def MQP_FHEADER_BUF_def)

text \<open>The copy that is parked for the clients \<open>sp\<close> with a stored session.\<close>

definition park :: "broker_env \<Rightarrow> u32 \<Rightarrow> nat \<Rightarrow> broker \<Rightarrow> broker option" where
  "park env sp a s = (if sp \<noteq> 0 then do {
             (cpy, s) \<leftarrow> mqp_server_copy env a s;
             case cpy of None \<Rightarrow> Some s
             | Some c \<Rightarrow> do { s \<leftarrow> pkt_upd (MQP_CL_MAP_SET sp) c s; wl_append SessMqp c s } }
           else Some s)"

lemma park_spec:
  assumes "b_heap s a = Some m" "server_pkt m" "p_private m = 0" "wlist_rep (b_heap s) (b_sess s) ss" "wlist_rep (b_heap s) (b_ack1 s) qs"
    "a \<notin> set ss" "set qs \<inter> set ss = {}" "\<forall>p \<ge> b_fresh s. b_heap s p = None"
  shows "\<exists>s'. park env sp a s = Some s' \<and> pub_frame s s' \<and> b_msg_id s' = b_msg_id s \<and> (\<forall>p \<ge> b_fresh s'. b_heap s' p = None) \<and> b_fresh s \<le> b_fresh s' \<and> b_heap s' a = Some m \<and> b_ack1 s' = b_ack1 s \<and> wlist_rep (b_heap s') (b_ack1 s') qs \<and>
     b_trace s' = (if sp = 0 then b_trace s else EvMalloc MQP_SERVER_TX_LEN (e_malloc env (b_trace s) MQP_SERVER_TX_LEN) # b_trace s) \<and>
     (if sp = 0 then s' = s
      else if e_malloc env (b_trace s) MQP_SERVER_TX_LEN then
        wlist_rep (b_heap s') (b_sess s') (ss @ [b_fresh s]) \<and>
        (\<exists>m'. b_heap s' (b_fresh s) = Some m' \<and> mqp_content m' = mqp_content m \<and> p_private m' = sp)
      else wlist_rep (b_heap s') (b_sess s') ss)"
proof (cases "sp = 0")
  case True
  then show ?thesis using assms by (simp add: park_def)
next
  case False
  let ?f = "b_fresh s"
  let ?ok = "e_malloc env (b_trace s) MQP_SERVER_TX_LEN"
  consider "mqp_server_copy env a s = Some (None, log_ev (EvMalloc MQP_SERVER_TX_LEN False) s)" "\<not> ?ok"
    | m' where "mqp_server_copy env a s = Some (Some ?f,
         (log_ev (EvMalloc MQP_SERVER_TX_LEN True) s)\<lparr>b_fresh := Suc ?f, b_heap := (b_heap s)(?f \<mapsto> m')\<rparr>)"
        "mqp_content m' = mqp_content m" "p_private m' = p_private m" "?ok"
    using server_copy[OF assms(1,2), of env] by (cases ?ok) auto
  then show ?thesis
  proof cases
    case 1
    then show ?thesis using False assms by (simp add: park_def log_ev_def pub_frame_def)
  next
    case 2
    let ?m = "MQP_CL_MAP_SET sp m'"
    let ?s = "(log_ev (EvMalloc MQP_SERVER_TX_LEN True) s)\<lparr>b_fresh := Suc ?f, b_heap := (b_heap s)(?f \<mapsto> ?m)\<rparr>"
    have nf: "?f \<notin> set ss" "?f \<notin> set qs" "a \<noteq> ?f"
      using rep_alloc[OF assms(4), of ?f] rep_alloc[OF assms(5), of ?f] assms(1,8) by auto
    have r: "wlist_rep (b_heap ?s) (wl_get SessMqp ?s) ss"
      using assms(4) nf by (auto simp: log_ev_def wnext_def intro: wlist_rep_cong)
    have f: "b_heap ?s ?f = Some ?m" by simp
    obtain h l where hl: "wl_append SessMqp ?f ?s = Some (wl_put SessMqp l (?s\<lparr>b_heap := h\<rparr>))" "wlist_rep h l (ss @ [?f])"
      "same_pkts (b_heap ?s) h" "\<And>p. p \<noteq> ?f \<Longrightarrow> p \<notin> set ss \<Longrightarrow> h p = b_heap ?s p"
      using wl_append_spec[OF r f nf(1)] by blast
    have run: "park env sp a s = Some (wl_put SessMqp l (?s\<lparr>b_heap := h\<rparr>))"
      using 2(1) hl(1) False by (simp add: park_def pkt_upd_def)
    have ha: "h a = Some m" using hl(4)[of a] nf assms(1,6) by simp
    have "h p = b_heap s p" if "p \<in> set qs" for p
      using hl(4)[of p] that nf(2) assms(7) by (cases "p = ?f") auto
    then have "wlist_rep h (b_ack1 s) qs" by (intro wlist_rep_cong[OF assms(5)]) (simp add: wnext_def)
    moreover obtain nx where "h ?f = Some (?m\<lparr>p_next := nx\<rparr>)" using same_pkts_at[OF hl(3) f] by blast
    moreover have "h p = None" if "Suc ?f \<le> p" for p
    proof -
      have "p \<notin> set ss" using that rep_alloc[OF assms(4), of p] assms(8) by auto
      then show ?thesis using hl(4)[of p] that assms(8) by simp
    qed
    ultimately show ?thesis unfolding run using ha hl(2) False 2(2-4) assms(3)
      by (simp add: log_ev_def MQP_CL_MAP_SET_def pub_frame_def)
  qed
qed


text \<open>The clients to whom the packet went and whose acknowledgement is awaited, and those for
  whose session it is kept.\<close>

definition await :: "broker \<Rightarrow> mqtt_qos \<Rightarrow> (nat \<times> i32) list \<Rightarrow> nat set" where
  "await s qos sent = {i. \<exists>rv. (i, rv) \<in> set sent \<and> 0 < rv \<and> NEED_TO_WAIT_LIST_PUBLISH qos (b_users s ! i)}"

definition away :: "broker \<Rightarrow> u32 \<Rightarrow> nat set" where
  "away s cl_map = {i. i < MAX_CLIENTS \<and> bit cl_map i \<and> IS_CL_INACTIVE (b_users s ! i)}"

definition bmap :: "nat set \<Rightarrow> u32 \<Rightarrow> bool" where
  "bmap A w \<longleftrightarrow> (\<forall>i. bit w i \<longleftrightarrow> i \<in> A)"

lemma bmap_0: "bmap A w \<Longrightarrow> w = 0 \<longleftrightarrow> A = {}"
  by (auto simp: bmap_def intro: bit_word_eqI)

lemma await_bmap:
  assumes "\<forall>n. bit cl n \<longleftrightarrow> bit cl_map n \<and> (n \<in> set is \<longrightarrow> (\<exists>rv. (n, rv) \<in> set (zip (targets s cl_map is) rvs) \<and> 0 < rv \<and>
          NEED_TO_WAIT_LIST_PUBLISH qos (b_users s ! n)))" "\<And>i. bit cl_map i \<Longrightarrow> i \<in> set is"
  shows "bmap (await s qos (zip (targets s cl_map is) rvs)) cl"
proof -
  have t: "n \<in> set is \<and> bit cl_map n" if "(n, rv) \<in> set (zip (targets s cl_map is) rvs)" for n rv
    using set_zip_leftD[OF that] by (simp add: targets_def)
  have "bit cl n \<longleftrightarrow> n \<in> await s qos (zip (targets s cl_map is) rvs)" for n
    unfolding await_def mem_Collect_eq using assms(1)[rule_format, of n] assms(2)[of n] t[of n] by blast
  then show ?thesis unfolding bmap_def by blast
qed

text \<open>The last step: the packet waits for the acknowledgements of \<open>cl\<close>, or is given back.\<close>

definition settle :: "u32 \<Rightarrow> nat \<Rightarrow> broker \<Rightarrow> broker option" where
  "settle cl a s = (if cl \<noteq> 0 then do { s \<leftarrow> pkt_upd (MQP_CL_MAP_SET cl) a s; wl_append QosAck1 a s } else mqp_free a s)"

lemma settle_spec:
  assumes "b_heap s a = Some m" "server_pkt m" "p_private m = 0" "wlist_rep (b_heap s) (b_ack1 s) qs" "a \<notin> set qs"
  shows "\<exists>s'. settle cl a s = Some s' \<and> b_trace s' = b_trace s \<and> pub_frame s s' \<and> b_msg_id s' = b_msg_id s \<and> b_sess s' = b_sess s \<and> b_fresh s' = b_fresh s \<and>
     (\<forall>p. p \<noteq> a \<and> p \<notin> set qs \<longrightarrow> b_heap s' p = b_heap s p) \<and>
     (if cl = 0 then wlist_rep (b_heap s') (b_ack1 s') qs \<and> b_heap s' a = None
      else wlist_rep (b_heap s') (b_ack1 s') (qs @ [a]) \<and>
        (\<exists>m'. b_heap s' a = Some m' \<and> mqp_content m' = mqp_content m \<and> p_msg_id m' = p_msg_id m \<and> p_private m' = cl))"
proof (cases "cl = 0")
  case True
  have "mqp_free a s = Some (s\<lparr>b_heap := (b_heap s)(a := None)\<rparr>)"
    using assms(1,2) by (simp add: mqp_free_def free_mqp_def server_pkt_def)
  moreover have "wlist_rep ((b_heap s)(a := None)) (b_ack1 s) qs"
    by (rule wlist_rep_cong[OF assms(4)]) (use assms(5) in \<open>auto simp: wnext_def\<close>)
  ultimately show ?thesis using True by (simp add: settle_def pub_frame_def)
next
  case False
  let ?m = "MQP_CL_MAP_SET cl m"
  let ?s = "s\<lparr>b_heap := (b_heap s)(a \<mapsto> ?m)\<rparr>"
  have r: "wlist_rep (b_heap ?s) (wl_get QosAck1 ?s) qs"
    using wlist_rep_cong[OF assms(4), of "(b_heap s)(a \<mapsto> ?m)"] assms(5) by fastforce
  have f: "b_heap ?s a = Some ?m" by simp
  obtain h l where hl: "wl_append QosAck1 a ?s = Some (wl_put QosAck1 l (?s\<lparr>b_heap := h\<rparr>))" "wlist_rep h l (qs @ [a])"
    "same_pkts (b_heap ?s) h" "\<And>p. p \<noteq> a \<Longrightarrow> p \<notin> set qs \<Longrightarrow> h p = b_heap ?s p"
    using wl_append_spec[OF r f assms(5)] by blast
  obtain nx where nx: "h a = Some (?m\<lparr>p_next := nx\<rparr>)" using same_pkts_at[OF hl(3) f] by blast
  have m: "?m = m\<lparr>p_private := cl\<rparr>" using assms(3) by (simp add: MQP_CL_MAP_SET_def)
  show ?thesis using False hl nx assms(1) unfolding m by (simp add: settle_def pkt_upd_def m pub_frame_def)
qed

lemma pub_dispatch_steps:
  assumes "b_heap s a = Some m" "pub_dispatch_loop env a (ENUM_QOS (p_fh_byte1 m)) [0..<MAX_CLIENTS] cl_map 0 s = Some (cl, sp, s1)"
    "park env sp a s1 = Some s2"
  shows "pub_dispatch env cl_map a s = settle cl a s2"
  using assms by (simp add: pub_dispatch_def park_def settle_def)

lemma parked_frame:
  assumes "wlist_rep h l (if b then ss @ [f] else ss)" "a \<notin> set ss" "a \<noteq> f" "f \<notin> set qs" "set qs \<inter> set ss = {}"
    "\<forall>p. p \<noteq> a \<and> p \<notin> set qs \<longrightarrow> h' p = h p"
  shows "wlist_rep h' l (if b then ss @ [f] else ss) \<and> h' f = h f"
proof -
  have "h' p = h p" if "p \<in> set (if b then ss @ [f] else ss)" for p
    using that assms(2-6) by (cases b) (auto split: if_splits)
  then have "wlist_rep h' l (if b then ss @ [f] else ss)"
    by (intro wlist_rep_cong[OF assms(1)]) (simp add: wnext_def)
  then show ?thesis using assms(3,4,6) by auto
qed

lemma pub_dispatch_full:
  assumes "dispatch_ok s qs ss" "b_heap s a = Some m" "server_pkt m" "p_private m = 0" "\<forall>i. bit cl_map i \<longrightarrow> i < MAX_CLIENTS"
    "a \<notin> set qs" "a \<notin> set ss"
  shows "\<exists>s' rvs ts W S qs' ss' tr. pub_dispatch env cl_map a s = Some s' \<and> pub_frame s s' \<and> b_msg_id s' = b_msg_id s \<and> dispatch_ok s' qs' ss' \<and>
     ts = targets s cl_map [0..<MAX_CLIENTS] \<and> length rvs = length ts \<and>
     W = await s (ENUM_QOS (p_fh_byte1 m)) (zip ts rvs) \<and> S = away s cl_map \<and>
     sends (b_trace s') = sends (b_trace s) @ map (\<lambda>(i, rv). (usr_net s i, mqp_content m, rv)) (zip ts rvs) \<and>
     qs' = (if W = {} then qs else qs @ [a]) \<and>
     (if W = {} then b_heap s' a = None
      else \<exists>m'. b_heap s' a = Some m' \<and> mqp_content m' = mqp_content m \<and> p_msg_id m' = p_msg_id m \<and> bmap W (p_private m')) \<and>
     b_trace s' = (if S = {} then tr else EvMalloc MQP_SERVER_TX_LEN (e_malloc env tr MQP_SERVER_TX_LEN) # tr) \<and>
     ss' = (if S \<noteq> {} \<and> e_malloc env tr MQP_SERVER_TX_LEN then ss @ [b_fresh s] else ss) \<and>
     (ss' \<noteq> ss \<longrightarrow> (\<exists>c. b_heap s' (b_fresh s) = Some c \<and> mqp_content c = mqp_content m \<and> bmap S (p_private c)))"
proof -
  let ?qos = "ENUM_QOS (p_fh_byte1 m)" and ?is = "[0..<MAX_CLIENTS]"
  let ?ts = "targets s cl_map ?is"
  have ok: "\<forall>i < MAX_CLIENTS. conn_ok s i" "wlist_rep (b_heap s) (b_ack1 s) qs" "wlist_rep (b_heap s) (b_sess s) ss"
    "set qs \<inter> set ss = {}" "\<forall>p \<ge> b_fresh s. b_heap s p = None" using assms(1) unfolding dispatch_ok_def by auto
  have sm: "sendable m" using assms(3) by (simp add: server_pkt_def)
  have pre: "\<forall>i \<in> set ?is. conn_ok s i \<and> i < 32" using ok(1) by (simp add: MAX_CLIENTS_def)
  have di: "distinct ?is" by simp
  obtain cl sp s1 rvs where 1: "pub_dispatch_loop env a ?qos ?is cl_map 0 s = Some (cl, sp, s1)" "tx_only s s1" "length rvs = length ?ts"
    "sends (b_trace s1) = sends (b_trace s) @ map (\<lambda>(i, rv). (usr_net s i, mqp_content m, rv)) (zip ?ts rvs)"
    and cl: "\<forall>n. bit cl n \<longleftrightarrow> bit cl_map n \<and> (n \<in> set ?is \<longrightarrow> (\<exists>rv. (n, rv) \<in> set (zip ?ts rvs) \<and> 0 < rv \<and>
          NEED_TO_WAIT_LIST_PUBLISH ?qos (b_users s ! n)))"
    and sp: "\<forall>n. bit sp n \<longleftrightarrow> bit (0 :: u32) n \<or> n \<in> set ?is \<and> bit cl_map n \<and> IS_CL_INACTIVE (b_users s ! n)"
    using pub_dispatch_loop_spec[OF assms(2) sm di pre, where env = env and qos = ?qos and cl_map = cl_map and sp_map = 0]
    by (elim exE conjE) (rule that)
  define W where "W = await s ?qos (zip ?ts rvs)"
  define S where "S = away s cl_map"
  have bd: "i \<in> set ?is" if "bit cl_map i" for i using assms(5) that by simp
  have W: "bmap W cl" unfolding W_def by (rule await_bmap[OF cl bd])
  have "bit sp n \<longleftrightarrow> n \<in> S" for n using sp[rule_format, of n] unfolding S_def away_def by simp
  then have S: "bmap S sp" unfolding bmap_def by blast
  note same = tx_only_same[OF 1(2)]
  have p: "b_heap s1 a = Some m" "wlist_rep (b_heap s1) (b_sess s1) ss" "wlist_rep (b_heap s1) (b_ack1 s1) qs"
    "\<forall>p \<ge> b_fresh s1. b_heap s1 p = None"
    using assms(2) ok same by simp_all
  obtain s2 where 2: "park env sp a s1 = Some s2" "pub_frame s1 s2" "b_msg_id s2 = b_msg_id s1" "\<forall>p \<ge> b_fresh s2. b_heap s2 p = None"
     "b_fresh s1 \<le> b_fresh s2" "b_heap s2 a = Some m" "b_ack1 s2 = b_ack1 s1" "wlist_rep (b_heap s2) (b_ack1 s2) qs"
     "b_trace s2 = (if sp = 0 then b_trace s1 else EvMalloc MQP_SERVER_TX_LEN (e_malloc env (b_trace s1) MQP_SERVER_TX_LEN) # b_trace s1)"
     and sess: "if sp = 0 then s2 = s1
      else if e_malloc env (b_trace s1) MQP_SERVER_TX_LEN then
        wlist_rep (b_heap s2) (b_sess s2) (ss @ [b_fresh s1]) \<and>
        (\<exists>m'. b_heap s2 (b_fresh s1) = Some m' \<and> mqp_content m' = mqp_content m \<and> p_private m' = sp)
      else wlist_rep (b_heap s2) (b_sess s2) ss"
    using park_spec[OF p(1) assms(3,4) p(2,3) assms(7) ok(4) p(4), where env = env and sp = sp] by blast
  obtain s' where 3: "settle cl a s2 = Some s'" "b_trace s' = b_trace s2" "pub_frame s2 s'" "b_msg_id s' = b_msg_id s2" "b_sess s' = b_sess s2"
     "b_fresh s' = b_fresh s2" "\<forall>p. p \<noteq> a \<and> p \<notin> set qs \<longrightarrow> b_heap s' p = b_heap s2 p"
     "if cl = 0 then wlist_rep (b_heap s') (b_ack1 s') qs \<and> b_heap s' a = None
      else wlist_rep (b_heap s') (b_ack1 s') (qs @ [a]) \<and>
        (\<exists>m'. b_heap s' a = Some m' \<and> mqp_content m' = mqp_content m \<and> p_msg_id m' = p_msg_id m \<and> p_private m' = cl)"
    using settle_spec[OF 2(6) assms(3,4) 2(8) assms(6), of cl] by blast
  let ?b = "S \<noteq> {} \<and> e_malloc env (b_trace s1) MQP_SERVER_TX_LEN"
  let ?ss = "if ?b then ss @ [b_fresh s] else ss" and ?qs = "if W = {} then qs else qs @ [a]"
  have sl: "wlist_rep (b_heap s2) (b_sess s2) ?ss \<and> (?b \<longrightarrow> (\<exists>c. b_heap s2 (b_fresh s) = Some c \<and> mqp_content c = mqp_content m \<and> p_private c = sp))"
    using sess bmap_0[OF S] p(2) same(6) by (cases "sp = 0") (auto split: if_splits)
  have lt: "a < b_fresh s" "set qs \<union> set ss \<subseteq> {..<b_fresh s}" using dispatch_fresh[OF assms(1,2)] by auto
  have nf: "a \<noteq> b_fresh s" "b_fresh s \<notin> set qs" using lt by auto
  have q: "wlist_rep (b_heap s') (b_sess s') ?ss \<and> b_heap s' (b_fresh s) = b_heap s2 (b_fresh s)"
    unfolding 3(5) by (rule parked_frame) (use sl assms(7) ok(4) nf 3(7) in blast)+
  have fr: "pub_frame s s'" using pub_frame_trans tx_only_frame[OF 1(2)] 2(2) 3(3) by blast
  have "b_heap s' p = None" if "b_fresh s' \<le> p" for p
  proof -
    have "b_fresh s \<le> p" using that 2(5) 3(6) same(6) by simp
    then have "p \<noteq> a" "p \<notin> set qs" using lt by auto
    then show ?thesis using 3(7) 2(4) that 3(6) by simp
  qed
  moreover have "wlist_rep (b_heap s') (b_ack1 s') ?qs" using 3(8) bmap_0[OF W] by (auto split: if_splits)
  moreover have "set ?qs \<inter> set ?ss = {}" using assms(6,7) ok(4) nf by auto
  moreover have "\<forall>i < MAX_CLIENTS. conn_ok s' i" using ok(1) pub_frame_conn(1)[OF fr] by blast
  ultimately have d: "dispatch_ok s' ?qs ?ss" using q unfolding dispatch_ok_def by blast
  have run: "pub_dispatch env cl_map a s = Some s'" using pub_dispatch_steps[OF assms(2) 1(1) 2(1)] 3(1) by simp
  have sd: "sends (b_trace s') = sends (b_trace s) @ map (\<lambda>(i, rv). (usr_net s i, mqp_content m, rv)) (zip ?ts rvs)" using 2(9) 1(4) 3(2) by (simp split: if_splits)
  have tr: "b_trace s' = (if S = {} then b_trace s1 else EvMalloc MQP_SERVER_TX_LEN (e_malloc env (b_trace s1) MQP_SERVER_TX_LEN) # b_trace s1)"
    using 2(9) 3(2) bmap_0[OF S] by simp
  have w: "if W = {} then b_heap s' a = None
      else \<exists>m'. b_heap s' a = Some m' \<and> mqp_content m' = mqp_content m \<and> p_msg_id m' = p_msg_id m \<and> bmap W (p_private m')"
    using 3(8) bmap_0[OF W] W by (cases "W = {}") (simp_all, blast)
  have v: "?ss \<noteq> ss \<longrightarrow> (\<exists>c. b_heap s' (b_fresh s) = Some c \<and> mqp_content c = mqp_content m \<and> bmap S (p_private c))"
    using q sl S by (cases ?b) (simp_all, blast+)
  have mi: "b_msg_id s' = b_msg_id s" using 3(4) 2(3) same(7) by simp
  show ?thesis
    by (intro exI[of _ s'] exI[of _ rvs] exI[of _ ?ts] exI[of _ W] exI[of _ S] exI[of _ ?qs] exI[of _ ?ss] exI[of _ "b_trace s1"])
       (use run fr mi d 1(3) sd w v tr in \<open>simp add: W_def S_def\<close>)
qed

text \<open>
  C13: the distribution of a PUBLISH. The packet goes on the network once for every connected
  client of the map, in the order of the table, unchanged; to nobody else. It is then kept in
  the list of packets that await an acknowledgement, marked with exactly the clients it reached
  and whose acknowledgement matters (QoS 2, or QoS 1 with a stored session), or is given back if
  there are none. If clients of the map are away with a stored session, memory for a copy is asked for
  once, after the transmissions (\<open>tr\<close> is the trace at that point), whether or not an acknowledgement is awaited; if it is
  granted, a copy is appended to the session list, marked with exactly these clients. Both lists keep
  what they held.
\<close>

theorem pub_dispatch_spec:
  assumes "dispatch_ok s qs ss" "b_heap s a = Some m" "server_pkt m" "p_private m = 0" "\<forall>i. bit cl_map i \<longrightarrow> i < MAX_CLIENTS"
    "a \<notin> set qs" "a \<notin> set ss"
  shows "\<exists>s' rvs tr. pub_dispatch env cl_map a s = Some s' \<and>
    (let qos = ENUM_QOS (p_fh_byte1 m);
         ts = filter (\<lambda>i. bit cl_map i \<and> is_connected (b_users s ! i)) [0..<MAX_CLIENTS];
         W = await s qos (zip ts rvs); S = away s cl_map;
         room = e_malloc env tr MQP_SERVER_TX_LEN in
     length rvs = length ts \<and>
     b_trace s' = (if S = {} then tr else EvMalloc MQP_SERVER_TX_LEN room # tr) \<and>
     sends (b_trace s') = sends (b_trace s) @ map (\<lambda>(i, rv). (usr_net s i, mqp_content m, rv)) (zip ts rvs) \<and>
     dispatch_ok s' (if W = {} then qs else qs @ [a]) (if S \<noteq> {} \<and> room then ss @ [b_fresh s] else ss) \<and>
     (W = {} \<longrightarrow> b_heap s' a = None) \<and>
     (W \<noteq> {} \<longrightarrow> (\<exists>m'. b_heap s' a = Some m' \<and> mqp_content m' = mqp_content m \<and> p_msg_id m' = p_msg_id m \<and> bmap W (p_private m'))) \<and>
     (S \<noteq> {} \<and> room \<longrightarrow> (\<exists>c. b_heap s' (b_fresh s) = Some c \<and> mqp_content c = mqp_content m \<and> bmap S (p_private c))))"
proof -
  obtain s' rvs ts W S qs' ss' tr where r: "pub_dispatch env cl_map a s = Some s'" "dispatch_ok s' qs' ss'"
    "ts = targets s cl_map [0..<MAX_CLIENTS]" "length rvs = length ts"
    "W = await s (ENUM_QOS (p_fh_byte1 m)) (zip ts rvs)" "S = away s cl_map"
    "sends (b_trace s') = sends (b_trace s) @ map (\<lambda>(i, rv). (usr_net s i, mqp_content m, rv)) (zip ts rvs)"
    "qs' = (if W = {} then qs else qs @ [a])"
    "if W = {} then b_heap s' a = None
     else \<exists>m'. b_heap s' a = Some m' \<and> mqp_content m' = mqp_content m \<and> p_msg_id m' = p_msg_id m \<and> bmap W (p_private m')"
    "ss' = (if S \<noteq> {} \<and> e_malloc env tr MQP_SERVER_TX_LEN then ss @ [b_fresh s] else ss)"
    "ss' \<noteq> ss \<longrightarrow> (\<exists>c. b_heap s' (b_fresh s) = Some c \<and> mqp_content c = mqp_content m \<and> bmap S (p_private c))"
    "b_trace s' = (if S = {} then tr else EvMalloc MQP_SERVER_TX_LEN (e_malloc env tr MQP_SERVER_TX_LEN) # tr)"
    using pub_dispatch_full[OF assms, of env] by (elim exE conjE) (rule that)
  have ts: "ts = filter (\<lambda>i. bit cl_map i \<and> is_connected (b_users s ! i)) [0..<MAX_CLIENTS]" using r(3) by (simp add: targets_def)
  have v: "S \<noteq> {} \<and> e_malloc env tr MQP_SERVER_TX_LEN \<longrightarrow>
      (\<exists>c. b_heap s' (b_fresh s) = Some c \<and> mqp_content c = mqp_content m \<and> bmap S (p_private c))"
    using r(11) unfolding r(10) by auto
  show ?thesis
    by (rule exI[of _ s'], rule exI[of _ rvs], rule exI[of _ tr])
       (unfold Let_def ts[symmetric] r(5,6)[symmetric], use r(1,4,7,12) r(2)[unfolded r(8,10)] r(9) v in simp)
qed

text \<open>A broker with three users: one connected on handle 4 with a stored session, one that is
  away, and one connected on handle 5, where transmissions fail.\<close>

definition sample_env :: broker_env where
  "sample_env = \<lparr>e_send = (\<lambda>_ net buf. if net = 5 then - 1 else int (length buf)), e_send_dest = (\<lambda>_ _. 1),
     e_open = (\<lambda>_ _. 10), e_listen = (\<lambda>_ _. 11), e_io_mon = (\<lambda>_ _ _. (- 1, [])), e_accept = (\<lambda>_ _. (- 1, [], 0)),
     e_recv_from = (\<lambda>_ _. 1), e_recv = (\<lambda>_ _ _. (- 1, [])), e_time = (\<lambda>_. 100), e_malloc = (\<lambda>_ _. True),
     e_connect = (\<lambda>_ _ _ _ _. (0, None))\<rparr>"

definition sample_usr :: "nat \<Rightarrow> ptr \<Rightarrow> u32 \<Rightarrow> c8 list \<Rightarrow> client_usr" where
  "sample_usr i c fl cid = \<lparr>us_ctx = c, us_app = None, us_will = None, us_index = of_nat i, us_n_sub = 0, us_flags = fl,
     us_client_id = cid, us_qos2_rx_cq = sample_cq, us_qos2_tx_cq = sample_cq\<rparr>"

definition sample_pub :: mqtt_packet where
  "sample_pub = \<lparr>p_msg_type = MQTT_PUBLISH, p_fh_byte1 = 0x32, p_msg_id = 7, p_n_refs = 1, p_offset = 0, p_fh_len = 2,
     p_vh_len = 5, p_pl_len = 1, p_private = 0, p_maxlen = 16,
     p_buffer = [0x32, 6, 0, 1, 0x61, 0, 7, 0x78] @ replicate 980 0, p_free_hook = True, p_next = None\<rparr>"

definition sample_broker :: broker where
  "sample_broker = \<lparr>b_pool = \<lparr>contexts = [0 \<mapsto> sample_ctx 200 (Some 1), 1 \<mapsto> (sample_ctx 300 None)\<lparr>cx_net := 5\<rparr>],
       used_ctxs = Some 0, free_ctxs = None\<rparr>,
     b_loopb_net = - 1, b_loopback_port = 0, b_pending_trigs = False, b_plug = sample_plugs, b_msg_id = 0xFFFF,
     b_heap = [0 \<mapsto> sample_pub], b_fresh = 1,
     b_users = map (\<lambda>i. if i = 0 then sample_usr 0 (Some 0) MQ_CONNECT_FLAG [0x41] else if i = 1 then sample_usr 1 None 0 [0x42]
       else if i = 2 then sample_usr 2 (Some 1) MQ_CONNECT_FLAG [0x43] else sample_usr i None 0 []) [0..<MAX_CLIENTS],
     b_ack1 = \<lparr>wl_head = None, wl_tail = None\<rparr>, b_sess = \<lparr>wl_head = None, wl_tail = None\<rparr>, b_tree = sample_tree,
     b_stack = [], b_work_buf = replicate 1024 0, b_rx_mqp = sample_rx, b_net_ops = True, b_listener_port = 1883,
     b_listen_net = 11, b_trace = []\<rparr>"

lemma sample_upt: "[0..<MAX_CLIENTS] = [0, 1, 2, 3, 4, 5, 6, 7, 8, 9, 10, 11, 12, 13, 14, 15]"
  by (simp add: MAX_CLIENTS_def upt_rec)

lemma sample_users: "i < MAX_CLIENTS \<Longrightarrow> b_users sample_broker ! i =
   (if i = 0 then sample_usr 0 (Some 0) MQ_CONNECT_FLAG [0x41] else if i = 1 then sample_usr 1 None 0 [0x42]
    else if i = 2 then sample_usr 2 (Some 1) MQ_CONNECT_FLAG [0x43] else sample_usr i None 0 [])"
  by (simp add: sample_broker_def)

lemma sample_connected: "i < MAX_CLIENTS \<Longrightarrow> is_connected (b_users sample_broker ! i) \<longleftrightarrow> i = 0 \<or> i = 2"
  by (auto simp: sample_users is_connected_def sample_usr_def)

lemma length_sample_users: "length (b_users sample_broker) = MAX_CLIENTS"
  by (simp add: sample_broker_def)

lemma sample_conn: "i < MAX_CLIENTS \<Longrightarrow> conn_ok sample_broker i"
  unfolding conn_ok_def length_sample_users
  by (auto simp: sample_connected) (simp_all add: sample_users sample_usr_def MAX_CLIENTS_def ctx_get_def sample_broker_def)

lemma sample_server_pkt: "server_pkt sample_pub"
  by (simp add: server_pkt_def sendable_def MQP_CONTENT_LEN_def MQP_FHEADER_BUF_def sample_pub_def wire_consts bit_numeral_word_iff)

theorem pub_dispatch_spec_witness:
  "\<exists>s' x y c. pub_dispatch sample_env 7 0 sample_broker = Some s' \<and>
     b_heap s' 1 = Some c \<and> mqp_content c = [0x32, 6, 0, 1, 0x61, 0, 7, 0x78] \<and> bmap {1} (p_private c) \<and>
     sends (b_trace s') = [(4, [0x32, 6, 0, 1, 0x61, 0, 7, 0x78], x), (5, [0x32, 6, 0, 1, 0x61, 0, 7, 0x78], y)]"
proof -
  have b7: "bit (7 :: u32) i \<longleftrightarrow> i < 3" for i
  proof -
    have "(7 :: u32) = mask 3" by (simp add: mask_eq_exp_minus_1)
    moreover have "bit (mask 3 :: u32) i \<longleftrightarrow> i < 3" unfolding bit_mask_iff by auto
    ultimately show ?thesis by simp
  qed
  have "filter (\<lambda>i. bit (7 :: u32) i \<and> is_connected (b_users sample_broker ! i)) [0..<MAX_CLIENTS] =
      filter (\<lambda>i. i = 0 \<or> i = 2) [0..<MAX_CLIENTS]"
    by (rule filter_cong) (auto simp: b7 sample_connected)
  then have ts: "filter (\<lambda>i. bit (7 :: u32) i \<and> is_connected (b_users sample_broker ! i)) [0..<MAX_CLIENTS] = [0, 2]"
    unfolding sample_upt by simp
  have w: "mqp_content sample_pub = [0x32, 6, 0, 1, 0x61, 0, 7, 0x78]"
    by (simp add: mqp_content_def MQP_CONTENT_LEN_def MQP_FHEADER_BUF_def sample_pub_def)
  have n: "usr_net sample_broker 0 = 4" "usr_net sample_broker 2 = 5"
    by (simp_all add: usr_net_def sample_users MAX_CLIENTS_def sample_usr_def ctx_get_def) (simp_all add: sample_broker_def sample_ctx_def)
  have b: "\<forall>i. bit (7 :: u32) i \<longrightarrow> i < MAX_CLIENTS" unfolding b7 by (simp add: MAX_CLIENTS_def)
  have "dispatch_ok sample_broker [] []" using sample_conn by (simp add: dispatch_ok_def wlist_rep_def sample_broker_def)
  moreover have "b_heap sample_broker 0 = Some sample_pub" "p_private sample_pub = 0" "b_trace sample_broker = []"
    by (simp_all add: sample_broker_def sample_pub_def)
  ultimately have l: "dispatch_ok sample_broker [] []" "b_heap sample_broker 0 = Some sample_pub" "p_private sample_pub = 0" "b_trace sample_broker = []"
    by blast+
  have aw: "away sample_broker 7 = {1}"
    unfolding away_def b7 by (auto simp: IS_CL_INACTIVE_def sample_users sample_usr_def MAX_CLIENTS_def split: if_splits)
  have e: "b_fresh sample_broker = 1" "e_malloc sample_env tr k" for tr k by (simp_all add: sample_broker_def sample_env_def)
  from pub_dispatch_spec[OF l(1,2) sample_server_pkt l(3) b, where env = sample_env]
  obtain s' rvs c where "pub_dispatch sample_env 7 0 sample_broker = Some s'" "length rvs = length [0 :: nat, 2]"
    "sends (b_trace s') = sends (b_trace sample_broker) @ map (\<lambda>(i, rv). (usr_net sample_broker i, mqp_content sample_pub, rv)) (zip [0, 2] rvs)"
    "b_heap s' 1 = Some c" "mqp_content c = mqp_content sample_pub" "bmap {1} (p_private c)"
    unfolding Let_def ts aw by (auto simp: e)
  then show ?thesis using n w l(4) by (cases rvs; cases "tl rvs") auto
qed

end
