(* ===== verification/Deliver.thy ===== *)
theory Deliver
  imports ServerPub Dispatch
begin

text \<open>
  What a publication sends. The packet that \<open>mqp_server_alloc\<close> and the PUBLISH construction
  routines make (\<open>pub_packet\<close>), \<open>pub_msg_send\<close> (\<open>server_core.c\<close>), which transmits it to the clients
  of one map, \<open>leaf_msg_send\<close>, which goes through the maps of a node, and
  \<open>proc_sub_tree_topPUB\<close>, which does so for every matching node: each is shown to append a
  list of transmissions, computed from the state before, to what was sent.
\<close>

section \<open>A packet built by the broker\<close>

lemma server_alloc_pub:
  assumes "e_malloc env (b_trace s) MQP_SERVER_TX_LEN" "unat buf_sz \<le> 983"
  shows "\<exists>m. mqp_server_alloc env MQTT_PUBLISH buf_sz s = (Some (b_fresh s),
      (log_ev (EvMalloc MQP_SERVER_TX_LEN True) s)\<lparr>b_heap := (b_heap s)(b_fresh s \<mapsto> m), b_fresh := Suc (b_fresh s)\<rparr>) \<and>
    mqp_fresh m \<and> unat (p_maxlen m) = unat buf_sz + 5 \<and> length (p_buffer m) = 988 \<and> p_free_hook m \<and> p_n_refs m = 1 \<and> p_private m = 0"
proof -
  let ?m = "(mqp_init raw_packet 5)\<lparr>p_msg_type := MQTT_PUBLISH, p_maxlen := buf_sz + 5, p_free_hook := True\<rparr>"
  have n: "unat (buf_sz + 5) = unat buf_sz + 5" using assms(2) by (simp add: unat_word_ariths)
  have "unat (36 + (buf_sz + 5)) = 36 + unat (buf_sz + 5)" using assms(2) n by (simp add: unat_word_ariths)
  then have sz: "\<not> of_nat MQP_SERVER_TX_LEN < of_nat MQP_STRUCT_SZ + (buf_sz + 5)"
    using assms(2) n by (simp add: wire_consts word_less_nat_alt)
  have o: "ucast (of_nat MAX_FH_LEN :: u8) = (5 :: u32)" "of_nat MAX_FH_LEN = (5 :: u8)" by (simp_all add: wire_consts)
  have r: "mqp_server_alloc env MQTT_PUBLISH buf_sz s = (Some (b_fresh s),
      (log_ev (EvMalloc MQP_SERVER_TX_LEN True) s)\<lparr>b_heap := (b_heap s)(b_fresh s \<mapsto> ?m), b_fresh := Suc (b_fresh s)\<rparr>)"
    using assms(1) sz by (simp add: mqp_server_alloc_def server_mqp_alloc_def Let_def o log_ev_def)
  have "mqp_fresh ?m" using n assms(2)
    by (simp add: mqp_fresh_def mqp_init_def mqp_reset_def raw_packet_def wire_consts)
  then show ?thesis unfolding r
    by (intro exI[of _ ?m]) (simp add: n mqp_init_def mqp_reset_def raw_packet_def wire_consts)
qed

lemma append_data_0: "mqp_pub_append_data m d 0 = Some (r, m') \<Longrightarrow> m' = m"
  by (auto simp: mqp_pub_append_data_def Let_def split: if_splits)

lemma no_dup_flag: "\<not> bit flags 3 \<Longrightarrow> \<not> bit (MAKE_FH_BYTE1 t flags) 3" for flags :: u8
  by (simp add: MAKE_FH_BYTE1_def bit_or_iff bit_push_bit_iff)

lemma and_low:
  fixes e f t :: u8
  assumes "\<And>n. bit e n \<Longrightarrow> n < 4"
  shows "(push_bit 4 t OR f) AND e = f AND e"
  by (rule bit_word_eqI) (use assms in \<open>fastforce simp: bit_and_iff bit_or_iff bit_push_bit_iff\<close>)

lemma ENUM_QOS_byte1: "ENUM_QOS (MAKE_FH_BYTE1 t flags) = ENUM_QOS flags"
proof -
  have "n < 4" if "bit (0x6 :: u8) n" for n
    using that unfolding masks bit_push_bit_iff bit_mask_iff by auto
  then have "(push_bit 4 t OR flags) AND 0x6 = flags AND 0x6" by (rule and_low)
  then show ?thesis by (simp add: ENUM_QOS_def MAKE_FH_BYTE1_def)
qed

text \<open>The identifier a PUBLISH gets.\<close>

definition pub_mid :: "broker \<Rightarrow> u8 \<Rightarrow> u16" where
  "pub_mid s flags = (if ENUM_QOS flags \<noteq> 0 then b_msg_id s + 2 else 0)"

lemma pub_packet:
  assumes "b_heap s a = Some m" "mqp_fresh m" "u_valid tp" "unat (p_maxlen m) \<le> 988" "length (p_buffer m) = 988" "p_free_hook m" "p_n_refs m = 1"
    "p_private m = 0" "5 + length (pub_vheader (u_content tp) (pub_mid s flags)) + length data \<le> unat (p_maxlen m)" "\<not> bit flags 3"
  shows "\<exists>s1 s2 r m'. pub_append a tp data (of_nat (length data)) (ENUM_QOS flags) s = Some (True, s1) \<and>
    pkt_run (\<lambda>m. mqp_prep_fh m flags) a s1 = Some (r, s2) \<and>
    s2 = s\<lparr>b_msg_id := (if ENUM_QOS flags \<noteq> 0 then b_msg_id s + 2 else b_msg_id s), b_heap := (b_heap s)(a \<mapsto> m')\<rparr> \<and>
    server_pkt m' \<and> p_private m' = 0 \<and> mqp_content m' = pub_wire flags (u_content tp) (pub_mid s flags) data \<and>
    p_msg_id m' = pub_mid s flags \<and> ENUM_QOS (p_fh_byte1 m') = ENUM_QOS flags"
proof -
  let ?mid = "pub_mid s flags" and ?qos = "ENUM_QOS flags"
  have mx: "unat (p_maxlen m) \<le> 0xFFFF" using assms(4) by simp
  obtain r1 m1 r2 m2 r3 m' where b: "mqp_pub_append_topic m tp ?mid = Some (r1, m1)" "0 \<le> r1"
     "mqp_pub_append_data m1 data (of_nat (length data)) = Some (r2, m2)" "0 \<le> r2" "mqp_prep_fh m2 flags = Some (r3, m')"
     "mqp_content m' = pub_wire flags (u_content tp) ?mid data" "p_msg_id m' = ?mid"
     "unat (MQP_CONTENT_LEN m') = length (pub_wire flags (u_content tp) ?mid data)"
     "MQP_FHEADER_BUF m' + unat (MQP_CONTENT_LEN m') \<le> unat (p_maxlen m)"
     "p_fh_byte1 m' = MAKE_FH_BYTE1 MQTT_PUBLISH flags" "length (p_buffer m') = length (p_buffer m)" "p_maxlen m' = p_maxlen m"
     "p_free_hook m' = p_free_hook m" "p_n_refs m' = p_n_refs m" "p_private m' = p_private m"
    using pub_build_steps[OF assms(2,3) mx assms(9), of flags] by blast
  have ln: "length data < 2 ^ 32" using assms(4,9) by simp
  have l0: "of_nat (length data) = (0 :: u32) \<longleftrightarrow> data = []" 
  proof -
    have "unat (of_nat (length data) :: u32) = length data" using ln by (simp add: unat_of_nat_eq)
    then show ?thesis by (metis length_0_conv unat_eq_zero)
  qed
  let ?s = "s\<lparr>b_msg_id := (if ?qos \<noteq> 0 then b_msg_id s + 2 else b_msg_id s)\<rparr>"
  have ids: "(if ?qos \<noteq> 0 then mqp_new_id_server s else (0, s)) = (?mid, ?s)" by (simp add: mqp_new_id_server_def pub_mid_def)
  let ?s1 = "?s\<lparr>b_heap := (b_heap s)(a \<mapsto> m2)\<rparr>" and ?s2 = "?s\<lparr>b_heap := (b_heap s)(a \<mapsto> m')\<rparr>"
  have app: "pub_append a tp data (of_nat (length data)) ?qos s = Some (True, ?s1)"
  proof (cases "data = []")
    case True
    then have "m2 = m1" using append_data_0[of m1 data r2 m2] b(3) by simp
    then show ?thesis using b(1,2) True assms(1) by (simp add: pub_append_def ids pkt_run_def del: if_split_asm split del: if_split)
  next
    case False
    then show ?thesis using b(1-4) l0 assms(1) by (simp add: pub_append_def ids pkt_run_def split del: if_split)
  qed
  have prep: "pkt_run (\<lambda>m. mqp_prep_fh m flags) a ?s1 = Some (r3, ?s2)" using b(5) by (simp add: pkt_run_def)
  have c0: "0 < unat (MQP_CONTENT_LEN m')" unfolding b(8) by (simp add: pub_wire_def Let_def)
  have "mqp_content m' ! 0 = p_buffer m' ! MQP_FHEADER_BUF m'"
    using c0 b(9,11) assms(4,5) by (simp add: mqp_content_def)
  moreover have "mqp_content m' ! 0 = MAKE_FH_BYTE1 MQTT_PUBLISH flags" unfolding b(6) by (simp add: pub_wire_def Let_def)
  ultimately have sp: "server_pkt m'"
    using c0 b(9,11-14) assms(4-7) no_dup_flag[OF assms(10), of MQTT_PUBLISH] by (simp add: server_pkt_def sendable_def wire_consts)
  show ?thesis
    by (intro exI[of _ ?s1] exI[of _ ?s2] exI[of _ r3] exI[of _ m'])
       (use app prep sp b(6,7,10,15) assms(8) in \<open>simp add: ENUM_QOS_byte1\<close>)
qed


section \<open>Sending a PUBLISH to the clients of a map\<close>

text \<open>The payload behind the pointer \<open>data_buf\<close> with its length.\<close>

fun payload :: "u8 list option \<Rightarrow> u32 \<Rightarrow> u8 list" where
  "payload None dlen = []"
| "payload (Some d) dlen = take (unat dlen) d"

definition payload_ok :: "u8 list option \<Rightarrow> u32 \<Rightarrow> bool" where
  "payload_ok buf dlen \<longleftrightarrow> length (payload buf dlen) = unat dlen"

lemma append_data_take: "unat len \<le> length d \<Longrightarrow> mqp_pub_append_data m d len = mqp_pub_append_data m (take (unat len) d) len"
  by (simp add: mqp_pub_append_data_def mem_simps)

lemma pub_append_payload:
  assumes "payload_ok buf dlen"
  shows "pub_append a tp (case buf of None \<Rightarrow> [] | Some d \<Rightarrow> d) dlen qos s =
         pub_append a tp (payload buf dlen) (of_nat (length (payload buf dlen))) qos s"
proof -
  have l: "of_nat (length (payload buf dlen)) = dlen" using assms by (simp add: payload_ok_def)
  show ?thesis
  proof (cases buf)
    case None
    then show ?thesis using l by simp
  next
    case (Some d)
    then have "unat dlen \<le> length d" using assms by (simp add: payload_ok_def min_def split: if_splits)
    then have "(\<lambda>m. mqp_pub_append_data m d dlen) = (\<lambda>m. mqp_pub_append_data m (take (unat dlen) d) dlen)"
      by (intro ext append_data_take)
    moreover have "of_nat (length (take (unat dlen) d)) = dlen" using l Some by simp
    ultimately show ?thesis using Some by (simp only: pub_append_def payload.simps option.case)
  qed
qed

lemma pub_msg_send_full:
  assumes "dispatch_ok s qs ss" "e_malloc env (b_trace s) MQP_SERVER_TX_LEN" "u_valid tp" "payload_ok buf dlen"
    "4 + unat (u_length tp) + unat dlen \<le> 983" "cl_map \<noteq> 0" "\<forall>i. bit cl_map i \<longrightarrow> i < MAX_CLIENTS" "\<not> bit flags 3"
  shows "\<exists>s' rvs qs' ss'. pub_msg_send env tp buf dlen flags cl_map s = Some s' \<and> pub_frame s s' \<and>
     b_msg_id s' = (if ENUM_QOS flags \<noteq> 0 then b_msg_id s + 2 else b_msg_id s) \<and> dispatch_ok s' qs' ss' \<and>
     length rvs = length (targets s cl_map [0..<MAX_CLIENTS]) \<and>
     sends (b_trace s') = sends (b_trace s) @ map (\<lambda>(i, rv). (usr_net s i,
        pub_wire flags (u_content tp) (pub_mid s flags) (payload buf dlen), rv)) (zip (targets s cl_map [0..<MAX_CLIENTS]) rvs)"
proof -
  let ?sz = "2 + ucast (u_length tp) + 2 + dlen" and ?d = "payload buf dlen" and ?a = "b_fresh s"
  have pd: "length ?d = unat dlen" using assms(4) by (simp add: payload_ok_def)
  have sz: "unat ?sz = 4 + unat (u_length tp) + unat dlen" using assms(5) by (simp add: unat_word_ariths unat_ucast_up_simp)
  then have sz983: "unat ?sz \<le> 983" using assms(5) by simp
  let ?s1 = "(log_ev (EvMalloc MQP_SERVER_TX_LEN True) s)"
  obtain m where al: "mqp_server_alloc env MQTT_PUBLISH ?sz s = (Some ?a, ?s1\<lparr>b_heap := (b_heap s)(?a \<mapsto> m), b_fresh := Suc ?a\<rparr>)"
    and m: "mqp_fresh m" "unat (p_maxlen m) = unat ?sz + 5" "length (p_buffer m) = 988" "p_free_hook m" "p_n_refs m = 1" "p_private m = 0"
    using server_alloc_pub[OF assms(2) sz983] by blast
  let ?t = "?s1\<lparr>b_heap := (b_heap s)(?a \<mapsto> m), b_fresh := Suc ?a\<rparr>"
  have mid: "pub_mid ?t flags = pub_mid s flags" by (simp add: pub_mid_def log_ev_def)
  have len: "5 + length (pub_vheader (u_content tp) (pub_mid ?t flags)) + length ?d \<le> unat (p_maxlen m)"
    using m(2) sz pd u_content_valid[OF assms(3)] by (simp add: length_pub_vheader)
  have mx: "unat (p_maxlen m) \<le> 988" using m(2) sz983 by simp
  have ha: "b_heap ?t ?a = Some m" by simp
  obtain s1 s2 r m' where p: "pub_append ?a tp ?d (of_nat (length ?d)) (ENUM_QOS flags) ?t = Some (True, s1)"
    "pkt_run (\<lambda>m. mqp_prep_fh m flags) ?a s1 = Some (r, s2)"
    and s2: "s2 = ?t\<lparr>b_msg_id := (if ENUM_QOS flags \<noteq> 0 then b_msg_id ?t + 2 else b_msg_id ?t), b_heap := (b_heap ?t)(?a \<mapsto> m')\<rparr>"
    and m': "server_pkt m'" "p_private m' = 0" "mqp_content m' = pub_wire flags (u_content tp) (pub_mid s flags) ?d"
      "ENUM_QOS (p_fh_byte1 m') = ENUM_QOS flags"
    using pub_packet[OF ha m(1) assms(3) mx m(3-6) len assms(8)] unfolding mid by blast
  have run: "pub_msg_send env tp buf dlen flags cl_map s = pub_dispatch env cl_map ?a s2"
    using al p pub_append_payload[OF assms(4)] assms(6) by (simp add: pub_msg_send_def Let_def cl_pub_dispatch_def)
  have hs2: "b_heap s2 = (b_heap s)(?a \<mapsto> m')" and same: "b_users s2 = b_users s" "b_pool s2 = b_pool s" "b_ack1 s2 = b_ack1 s"
    "b_sess s2 = b_sess s" "b_fresh s2 = Suc ?a" "pub_frame s s2" "sends (b_trace s2) = sends (b_trace s)"
    "b_msg_id s2 = (if ENUM_QOS flags \<noteq> 0 then b_msg_id s + 2 else b_msg_id s)"
    unfolding s2 by (simp_all add: log_ev_def pub_frame_def)
  have nf: "?a \<notin> set qs" "?a \<notin> set ss"
    using rep_alloc[of "b_heap s" "b_ack1 s" qs ?a] rep_alloc[of "b_heap s" "b_sess s" ss ?a] assms(1) by (auto simp: dispatch_ok_def)
  have "dispatch_ok s2 qs ss"
  proof -
    have "wlist_rep (b_heap s2) l xs" if "wlist_rep (b_heap s) l xs" "?a \<notin> set xs" for l xs
      unfolding hs2 by (rule wlist_rep_cong[OF that(1)]) (use that(2) in \<open>auto simp: wnext_def\<close>)
    then show ?thesis using assms(1) nf pub_frame_conn(1)[OF same(6)] unfolding dispatch_ok_def same hs2 by auto
  qed
  moreover have "b_heap s2 ?a = Some m'" unfolding hs2 by simp
  ultimately obtain s' rvs qs' ss' where f: "pub_dispatch env cl_map ?a s2 = Some s'" "pub_frame s2 s'" "b_msg_id s' = b_msg_id s2" "dispatch_ok s' qs' ss'"
    "length rvs = length (targets s2 cl_map [0..<MAX_CLIENTS])"
    "sends (b_trace s') = sends (b_trace s2) @ map (\<lambda>(i, rv). (usr_net s2 i, mqp_content m', rv)) (zip (targets s2 cl_map [0..<MAX_CLIENTS]) rvs)"
    using pub_dispatch_full[of s2 qs ss ?a m' cl_map env] m'(1,2) assms(7) nf by blast
  have tg: "targets s2 cl_map [0..<MAX_CLIENTS] = targets s cl_map [0..<MAX_CLIENTS]" by (rule targets_cong) (simp_all add: same(1))
  have un: "usr_net s2 = usr_net s" by (rule ext) (simp add: usr_net_def ctx_get_def same(1,2))
  show ?thesis
    using run f same(6-8) m'(3) unfolding tg un
    by (intro exI[of _ s'] exI[of _ rvs] exI[of _ qs'] exI[of _ ss']) (auto intro: pub_frame_trans)
qed


section \<open>The clients of a node\<close>

text \<open>The flags of the packet for a subscriber with QoS \<open>qid\<close>: the smaller QoS and the retain flag.\<close>

definition leaf_flags :: "u8 \<Rightarrow> mqtt_qos \<Rightarrow> bool \<Rightarrow> u8" where
  "leaf_flags qid qos retain = push_bit 1 (min qid (take_bit 2 qos)) OR of_bool retain"

lemma leaf_flags_code: "MAKE_FH_FLAGS False (MIN_u8 qid (QOS_VALUE qos)) retain = leaf_flags qid qos retain"
proof -
  have q: "QOS_VALUE qos = take_bit 2 qos" unfolding QOS_VALUE_def masks(7) by (simp add: take_bit_eq_mask)
  have m: "MIN_u8 a b = min a b" for a b by (auto simp: MIN_u8_def min_def)
  have "unat (min qid (take_bit 2 qos)) < 4"
    using take_bit_nat_less_exp[of 2 "unat qos"] by (simp add: min_def word_le_nat_alt unsigned_take_bit_eq)
  then have "min qid (take_bit 2 qos) = 0 \<or> min qid (take_bit 2 qos) = 1 \<or> min qid (take_bit 2 qos) = 2 \<or> min qid (take_bit 2 qos) = 3"
    by (rule u8_less_4)
  then show ?thesis unfolding MAKE_FH_FLAGS_def leaf_flags_def q m by (elim disjE; cases retain; simp)
qed

lemma leaf_flags_no_dup: "\<not> bit (leaf_flags qid qos retain) 3"
proof -
  have "unat (min qid (take_bit 2 qos)) < 2 ^ 2"
    using take_bit_nat_less_exp[of 2 "unat qos"] by (simp add: min_def word_le_nat_alt unsigned_take_bit_eq)
  then have "\<not> bit (min qid (take_bit 2 qos)) 2" using bit_less_exp by blast
  then have "\<not> bit (push_bit 1 (min qid (take_bit 2 qos))) 3" unfolding bit_push_bit_iff by simp
  then show ?thesis by (simp add: leaf_flags_def bit_or_iff bit_of_bool_iff)
qed

text \<open>The transmissions for the maps \<open>ms\<close> of a node, from the QoS \<open>qid\<close> and with \<open>mid\<close> the
  identifier used last. Of each map only the lower eight bits count.\<close>

fun leaf_deliveries :: "broker \<Rightarrow> utf8_string \<Rightarrow> u8 list \<Rightarrow> mqtt_qos \<Rightarrow> bool \<Rightarrow> u32 list \<Rightarrow> u8 \<Rightarrow> u16 \<Rightarrow> (i32 \<times> u8 list) list" where
  "leaf_deliveries s tp data qos retain [] qid mid = []"
| "leaf_deliveries s tp data qos retain (m # ms) qid mid =
     (let fl = leaf_flags qid qos retain;
          ts = filter (\<lambda>i. bit m i \<and> is_connected (b_users s ! i)) [0..<8];
          sent = (\<exists>i < 8. bit m i);
          mid' = (if sent \<and> ENUM_QOS fl \<noteq> 0 then mid + 2 else mid)
      in map (\<lambda>i. (usr_net s i, pub_wire fl (u_content tp) (if ENUM_QOS fl \<noteq> 0 then mid + 2 else 0) data)) ts @
         leaf_deliveries s tp data qos retain ms (qid + 1) mid')"

text \<open>The identifier used last after these transmissions.\<close>

fun leaf_mid :: "mqtt_qos \<Rightarrow> bool \<Rightarrow> u32 list \<Rightarrow> u8 \<Rightarrow> u16 \<Rightarrow> u16" where
  "leaf_mid qos retain [] qid mid = mid"
| "leaf_mid qos retain (m # ms) qid mid =
     leaf_mid qos retain ms (qid + 1) (if (\<exists>i < 8. bit m i) \<and> ENUM_QOS (leaf_flags qid qos retain) \<noteq> 0 then mid + 2 else mid)"

lemma bit_u8_map: "bit (ucast (ucast m :: u8) :: u32) i \<longleftrightarrow> i < 8 \<and> bit m i" for m :: u32
  by (auto simp: bit_ucast_iff dest: bit_imp_le_length)

lemma u8_map_0: "(ucast m :: u8) = 0 \<longleftrightarrow> (\<forall>i < 8. \<not> bit m i)" for m :: u32
proof -
  have "(ucast m :: u8) = 0 \<longleftrightarrow> (\<forall>i. \<not> bit (ucast m :: u8) i)" by (metis bit_0_eq bot_apply bot_bool_def bit_eqI)
  then show ?thesis by (auto simp: bit_ucast_iff)
qed

lemma u8_map_targets:
  "targets s (ucast (ucast m :: u8)) [0..<MAX_CLIENTS] = filter (\<lambda>i. bit m i \<and> is_connected (b_users s ! i)) [0..<8]" for m :: u32
proof -
  have u: "[0..<MAX_CLIENTS] = [0..<8] @ [8..<MAX_CLIENTS]" using upt_add_eq_append[of 0 8 8] by (simp add: MAX_CLIENTS_def)
  have "targets s (ucast (ucast m :: u8)) [8..<MAX_CLIENTS] = []"
    unfolding targets_def filter_empty_conv bit_u8_map by simp
  moreover have "targets s (ucast (ucast m :: u8)) [0..<8] = filter (\<lambda>i. bit m i \<and> is_connected (b_users s ! i)) [0..<8]"
    unfolding targets_def bit_u8_map by (rule filter_cong) simp_all
  ultimately show ?thesis unfolding u by (simp add: targets_def)
qed

abbreviation wires :: "broker \<Rightarrow> (i32 \<times> u8 list) list" where
  "wires s \<equiv> map (\<lambda>(net, w, rv). (net, w)) (sends (b_trace s))"

lemma leaf_deliveries_cong:
  assumes "b_users s' = b_users s" "\<And>i. i < MAX_CLIENTS \<Longrightarrow> is_connected (b_users s ! i) \<Longrightarrow> usr_net s' i = usr_net s i"
  shows "leaf_deliveries s' tp data qos retain ms qid mid = leaf_deliveries s tp data qos retain ms qid mid"
proof (induction ms arbitrary: qid mid)
  case (Cons m ms)
  then show ?case using assms by (auto simp: Let_def MAX_CLIENTS_def)
qed simp

lemma leaf_send_loop_spec:
  assumes "dispatch_ok s qs ss" "\<forall>tr. e_malloc env tr MQP_SERVER_TX_LEN" "u_valid tp" "payload_ok buf dlen"
    "4 + unat (u_length tp) + unat dlen \<le> 983"
  shows "\<exists>s' qs' ss'. leaf_send_loop env ms qid tp buf dlen False qos retain s = Some s' \<and> pub_frame s s' \<and> dispatch_ok s' qs' ss' \<and>
     wires s' = wires s @ leaf_deliveries s tp (payload buf dlen) qos retain ms qid (b_msg_id s) \<and>
     b_msg_id s' = leaf_mid qos retain ms qid (b_msg_id s)"
  using assms(1)
proof (induction ms arbitrary: s qs ss qid)
  case Nil
  then show ?case by auto
next
  case (Cons m ms)
  let ?cl = "ucast (ucast m :: u8) :: u32" and ?fl = "leaf_flags qid qos retain"
  let ?ts = "filter (\<lambda>i. bit m i \<and> is_connected (b_users s ! i)) [0..<8]"
  have fl: "MAKE_FH_FLAGS False (MIN_u8 qid (QOS_VALUE qos)) retain = ?fl" by (rule leaf_flags_code)
  show ?case
  proof (cases "(ucast m :: u8) = 0")
    case True
    then have "?ts = []" "\<not> (\<exists>i < 8. bit m i)" by (auto simp: u8_map_0)
    then show ?thesis using Cons.IH[OF Cons.prems, of "qid + 1"] True by (auto simp: Let_def)
  next
    case False
    have "?cl \<noteq> 0" using False by (metis bit_u8_map bit_0_eq bot_apply bot_bool_def u8_map_0)
    moreover have "\<forall>i. bit ?cl i \<longrightarrow> i < MAX_CLIENTS" unfolding bit_u8_map by (simp add: MAX_CLIENTS_def)
    ultimately obtain s1 rvs qs1 ss1 where 1: "pub_msg_send env tp buf dlen ?fl ?cl s = Some s1" "pub_frame s s1"
      "b_msg_id s1 = (if ENUM_QOS ?fl \<noteq> 0 then b_msg_id s + 2 else b_msg_id s)" "dispatch_ok s1 qs1 ss1" "length rvs = length ?ts"
      "sends (b_trace s1) = sends (b_trace s) @ map (\<lambda>(i, rv). (usr_net s i,
        pub_wire ?fl (u_content tp) (pub_mid s ?fl) (payload buf dlen), rv)) (zip ?ts rvs)"
      using pub_msg_send_full[OF Cons.prems assms(2)[rule_format] assms(3-5) _ _ leaf_flags_no_dup, where cl_map = ?cl and qid1 = qid and qos1 = qos and retain1 = retain]
      unfolding u8_map_targets by blast
    obtain s' qs' ss' where 2: "leaf_send_loop env ms (qid + 1) tp buf dlen False qos retain s1 = Some s'" "pub_frame s1 s'" "dispatch_ok s' qs' ss'"
      "wires s' = wires s1 @ leaf_deliveries s1 tp (payload buf dlen) qos retain ms (qid + 1) (b_msg_id s1)"
      "b_msg_id s' = leaf_mid qos retain ms (qid + 1) (b_msg_id s1)"
      using Cons.IH[OF 1(4), of "qid + 1"] by blast
    have run: "leaf_send_loop env (m # ms) qid tp buf dlen False qos retain s = Some s'"
      using 1(1) 2(1) False by (simp add: Let_def fl)
    have dc: "leaf_deliveries s1 tp d qos retain ms q k = leaf_deliveries s tp d qos retain ms q k" for d q k
      by (rule leaf_deliveries_cong) (use 1(2) Cons.prems pub_frame_conn(2)[OF 1(2)] in \<open>auto simp: pub_frame_def dispatch_ok_def\<close>)
    have mp: "map (\<lambda>(net, w, rv). (net, w)) (map (\<lambda>(i, rv). (usr_net s i, w, rv)) (zip ?ts rvs)) = map (\<lambda>i. (usr_net s i, w)) ?ts" for w
      using 1(5) by (intro nth_equalityI) (simp_all add: split_beta)
    have w1: "wires s1 = wires s @ map (\<lambda>i. (usr_net s i, pub_wire ?fl (u_content tp) (pub_mid s ?fl) (payload buf dlen))) ?ts"
      unfolding 1(6) map_append mp ..
    have ex: "\<exists>i < 8. bit m i" using False by (simp add: u8_map_0)
    then have "wires s' = wires s @ leaf_deliveries s tp (payload buf dlen) qos retain (m # ms) qid (b_msg_id s)"
      using 2(4) 1(3) unfolding w1 dc by (simp add: Let_def pub_mid_def)
    moreover have "b_msg_id s' = leaf_mid qos retain (m # ms) qid (b_msg_id s)" using ex 2(5) 1(3) by simp
    ultimately show ?thesis using run 1(2) 2(2,3) by (blast intro: pub_frame_trans)
  qed
qed


lemma pub_frame_nodes: "pub_frame s s' \<Longrightarrow> tn_get s' = tn_get s"
  by (rule ext) (simp add: pub_frame_def tn_get_def)

lemma sends_plug: "sends (rev (map (\<lambda>i. EvPlugPublish i tp d dup qos r) xs) @ tr) = sends tr"
proof -
  have "sends (es @ tr) = sends tr" if "\<forall>e \<in> set es. \<exists>i. e = EvPlugPublish i tp d dup qos r" for es
    using that by (induction es) auto
  then show ?thesis by auto
qed

lemma plugin_publish_sends:
  assumes "plug_ok ps"
  shows "\<exists>tr'. plugin_publish ps m tp d dup qos retain tr = Some tr' \<and> sends tr' = sends tr"
  unfolding plugin_publish_def by (subst plugin_publish_loop_eq[OF assms]) (simp_all add: sends_plug)

lemma dispatch_ok_trace: "dispatch_ok (s\<lparr>b_trace := tr\<rparr>) qs ss = dispatch_ok s qs ss" "pub_frame t (s\<lparr>b_trace := tr\<rparr>) = pub_frame t s"
  by (simp_all add: dispatch_ok_def conn_ok_def ctx_get_def pub_frame_def)

lemma leaf_msg_send_spec:
  assumes "dispatch_ok s qs ss" "\<forall>tr. e_malloc env tr MQP_SERVER_TX_LEN" "u_valid tp" "payload_ok buf dlen"
    "4 + unat (u_length tp) + unat dlen \<le> 983" "plug_ok (b_plug s)"
  shows "\<exists>s' qs' ss'. leaf_msg_send env n tp buf dlen False qos retain s = Some s' \<and> pub_frame s s' \<and> dispatch_ok s' qs' ss' \<and>
     wires s' = wires s @ leaf_deliveries s tp (payload buf dlen) qos retain (tn_cl_map (tn_get s n)) 0 (b_msg_id s) \<and>
     b_msg_id s' = leaf_mid qos retain (tn_cl_map (tn_get s n)) 0 (b_msg_id s)"
proof -
  obtain s1 qs' ss' where 1: "leaf_send_loop env (tn_cl_map (tn_get s n)) 0 tp buf dlen False qos retain s = Some s1" "pub_frame s s1" "dispatch_ok s1 qs' ss'"
     "wires s1 = wires s @ leaf_deliveries s tp (payload buf dlen) qos retain (tn_cl_map (tn_get s n)) 0 (b_msg_id s)"
     "b_msg_id s1 = leaf_mid qos retain (tn_cl_map (tn_get s n)) 0 (b_msg_id s)"
    using leaf_send_loop_spec[OF assms(1-5), of "tn_cl_map (tn_get s n)" 0 qos retain] by blast
  have "plug_ok (b_plug s1)" using assms(6) 1(2) by (simp add: pub_frame_def)
  then obtain tr where tr: "plugin_publish (b_plug s1) (tn_pg_map (tn_get s1 n)) (u_content tp)
      (case buf of None \<Rightarrow> [] | Some d \<Rightarrow> take (unat dlen) d) False qos retain (b_trace s1) = Some tr" "sends tr = sends (b_trace s1)"
    using plugin_publish_sends by blast
  show ?thesis
  proof (cases "enrolls_plugin (tn_get s1 n)")
    case True
    then have "leaf_msg_send env n tp buf dlen False qos retain s = Some (s1\<lparr>b_trace := tr\<rparr>)"
      using 1(1) tr(1) by (simp add: leaf_msg_send_def)
    then show ?thesis using 1(2-5) tr(2) by (intro exI[of _ "s1\<lparr>b_trace := tr\<rparr>"] exI[of _ qs'] exI[of _ ss']) (simp add: dispatch_ok_trace)
  next
    case False
    then have "leaf_msg_send env n tp buf dlen False qos retain s = Some s1" using 1(1) by (simp add: leaf_msg_send_def)
    then show ?thesis using 1(2-5) by blast
  qed
qed

section \<open>A publication\<close>

text \<open>The transmissions for the nodes \<open>ns\<close>, one after the other.\<close>

fun pub_deliveries :: "broker \<Rightarrow> utf8_string \<Rightarrow> u8 list \<Rightarrow> mqtt_qos \<Rightarrow> bool \<Rightarrow> nat list \<Rightarrow> u16 \<Rightarrow> (i32 \<times> u8 list) list" where
  "pub_deliveries s tp data qos retain [] mid = []"
| "pub_deliveries s tp data qos retain (n # ns) mid =
     leaf_deliveries s tp data qos retain (tn_cl_map (tn_get s n)) 0 mid @
     pub_deliveries s tp data qos retain ns (leaf_mid qos retain (tn_cl_map (tn_get s n)) 0 mid)"

lemma pub_deliveries_cong:
  assumes "pub_frame s s'" "dispatch_ok s qs ss"
  shows "pub_deliveries s' tp data qos retain ns mid = pub_deliveries s tp data qos retain ns mid"
proof (induction ns arbitrary: mid)
  case (Cons n ns)
  have "leaf_deliveries s' tp data qos retain ms q k = leaf_deliveries s tp data qos retain ms q k" for ms q k
    by (rule leaf_deliveries_cong) (use assms pub_frame_conn(2)[OF assms(1)] in \<open>auto simp: pub_frame_def dispatch_ok_def\<close>)
  then show ?case using Cons pub_frame_nodes[OF assms(1)] by simp
qed simp

lemma send_all_leaves:
  assumes "dispatch_ok s qs ss" "\<forall>tr. e_malloc env tr MQP_SERVER_TX_LEN" "u_valid tp" "payload_ok buf dlen"
    "4 + unat (u_length tp) + unat dlen \<le> 983" "plug_ok (b_plug s)"
  shows "\<exists>s' qs' ss'. send_all (\<lambda>leaf s. leaf_msg_send env leaf tp buf dlen False qos retain s) ns s = Some s' \<and> pub_frame s s' \<and>
     dispatch_ok s' qs' ss' \<and> wires s' = wires s @ pub_deliveries s tp (payload buf dlen) qos retain ns (b_msg_id s)"
  using assms(1,6)
proof (induction ns arbitrary: s qs ss)
  case Nil
  then show ?case by auto
next
  case (Cons n ns)
  obtain s1 qs1 ss1 where 1: "leaf_msg_send env n tp buf dlen False qos retain s = Some s1" "pub_frame s s1" "dispatch_ok s1 qs1 ss1"
     "wires s1 = wires s @ leaf_deliveries s tp (payload buf dlen) qos retain (tn_cl_map (tn_get s n)) 0 (b_msg_id s)"
     "b_msg_id s1 = leaf_mid qos retain (tn_cl_map (tn_get s n)) 0 (b_msg_id s)"
    using leaf_msg_send_spec[OF Cons.prems(1) assms(2-5) Cons.prems(2), of n qos retain] by blast
  have "plug_ok (b_plug s1)" using Cons.prems(2) 1(2) by (simp add: pub_frame_def)
  then obtain s' qs' ss' where 2: "send_all (\<lambda>leaf s. leaf_msg_send env leaf tp buf dlen False qos retain s) ns s1 = Some s'"
     "pub_frame s1 s'" "dispatch_ok s' qs' ss'" "wires s' = wires s1 @ pub_deliveries s1 tp (payload buf dlen) qos retain ns (b_msg_id s1)"
    using Cons.IH[OF 1(3)] by blast
  have "wires s' = wires s @ pub_deliveries s tp (payload buf dlen) qos retain (n # ns) (b_msg_id s)"
    using 2(4) unfolding 1(4,5) pub_deliveries_cong[OF 1(2) Cons.prems(1)] by simp
  then show ?case using 1(1,2) 2(1-3) by (auto intro: pub_frame_trans)
qed

lemma delivers:
  assumes "tree_inv (b_tree s) T fs" "fits topPUB" "b_stack s = []" "dispatch_ok s qs ss" "\<forall>tr. e_malloc env tr MQP_SERVER_TX_LEN"
    "u_valid tp" "payload_ok buf dlen" "4 + unat (u_length tp) + unat dlen \<le> 983" "plug_ok (b_plug s)"
  shows "\<exists>ns s' qs' ss'. proc_sub_tree_topPUB env topPUB tp buf dlen qos retain s = Some s' \<and>
     distinct ns \<and> set ns \<subseteq> set_tree T \<and>
     (\<forall>f n. (f, n) \<in> set (tpaths (tsub (b_tree s)) T) \<longrightarrow>
        (topic_match f (levels topPUB) \<longrightarrow> n \<in> set ns) \<and>
        (n \<in> set ns \<and> last (tsub (b_tree s) n) \<noteq> SLASH \<longrightarrow> topic_match f (levels topPUB))) \<and>
     wires s' = wires s @ pub_deliveries s tp (payload buf dlen) qos retain ns (b_msg_id s) \<and>
     dispatch_ok s' qs' ss' \<and> b_tree s' = b_tree s \<and> b_users s' = b_users s"
proof -
  let ?send = "\<lambda>leaf s. leaf_msg_send env leaf tp buf dlen False qos retain s"
  obtain ns where ns: "sub_tree_topPUB (b_tree s) topPUB ?send [] s = send_all ?send ns s" "distinct ns" "set ns \<subseteq> set_tree T"
    "\<forall>f n. (f, n) \<in> set (tpaths (tsub (b_tree s)) T) \<longrightarrow>
        (topic_match f (levels topPUB) \<longrightarrow> n \<in> set ns) \<and>
        (n \<in> set ns \<and> last (tsub (b_tree s) n) \<noteq> SLASH \<longrightarrow> topic_match f (levels topPUB))"
    using sub_tree_nodes[OF assms(1,2), of ?send s] by blast
  from send_all_leaves[OF assms(4-9)] obtain s' qs' ss' where s': "send_all ?send ns s = Some s'" "pub_frame s s'" "dispatch_ok s' qs' ss'"
    "wires s' = wires s @ pub_deliveries s tp (payload buf dlen) qos retain ns (b_msg_id s)" by blast
  then show ?thesis using ns assms(3) by (auto simp: proc_sub_tree_topPUB_def pub_frame_def)
qed

text \<open>
  C2: A publication, with room for its packet, transmits exactly the packets that the
  maps of the matching nodes ask for, to the clients \<open>0\<close> to \<open>7\<close>: the nodes are visited once each, every
  node whose filter matches level by level is among them, and what is sent is \<open>pub_deliveries\<close>: for every
  node, every QoS map and every connected client of the map with an index below eight one PUBLISH with the published payload,
  the QoS the smaller one of subscription and publication, the identifiers going up by two. To the
  clients \<open>8\<close> to \<open>15\<close> of a map nothing is sent, since the code keeps the map in eight bits. The tree and the
  users are as before, and the broker can go on dispatching.
\<close>

theorem publish_delivers:
  assumes "tree_inv (b_tree s) T fs" "fits topPUB" "b_stack s = []" "dispatch_ok s qs ss" "\<forall>tr. e_malloc env tr MQP_SERVER_TX_LEN"
    "u_valid tp" "payload_ok buf dlen" "4 + unat (u_length tp) + unat dlen \<le> 983" "plug_ok (b_plug s)"
  shows "\<exists>ns s' qs' ss'. proc_sub_tree_topPUB env topPUB tp buf dlen qos retain s = Some s' \<and>
     distinct ns \<and> set ns \<subseteq> set_tree T \<and>
     (\<forall>f n. (f, n) \<in> set (tpaths (tsub (b_tree s)) T) \<longrightarrow>
        (topic_match f (levels topPUB) \<longrightarrow> n \<in> set ns) \<and>
        (n \<in> set ns \<and> last (tsub (b_tree s) n) \<noteq> SLASH \<longrightarrow> topic_match f (levels topPUB))) \<and>
     wires s' = wires s @ pub_deliveries s tp (payload buf dlen) qos retain ns (b_msg_id s) \<and>
     dispatch_ok s' qs' ss' \<and> b_tree s' = b_tree s \<and> b_users s' = b_users s"
  by (rule delivers[OF assms])

end
