(* ===== verification/Subscribe.thy ===== *)
theory Subscribe
  imports ServerSub Deliver
begin

text \<open>
  Subscriptions. \<open>SUB_node_create\<close> (\<open>server_core.c\<close>) records a client at the node of a filter,
  in the map of one QoS only; composed with a publication, the client receives what is
  published to a matching topic afterwards. The maps are cut to eight bits on the way, so the
  clients from the ninth on receive nothing. The last section is a broker on which the
  properties of this theory and of Deliver are applied.
\<close>

section \<open>Recording a subscription\<close>

declare push_bit_of_1 [simp del]

definition same_links :: "(nat \<Rightarrow> topic_node) \<Rightarrow> (nat \<Rightarrow> topic_node) \<Rightarrow> bool" where
  "same_links f f' \<longleftrightarrow> (\<forall>i. tn_dn_nhbr (f' i) = tn_dn_nhbr (f i) \<and> tn_up_nhbr (f' i) = tn_up_nhbr (f i) \<and>
     tn_dn_hier (f' i) = tn_dn_hier (f i) \<and> tn_up_hier (f' i) = tn_up_hier (f i) \<and> tn_subtop (f' i) = tn_subtop (f i))"

lemma tree_rep_links: "tree_rep f T p un uh \<Longrightarrow> same_links f f' \<Longrightarrow> tree_rep f' T p un uh"
  by (induction T arbitrary: p un uh) (auto simp: same_links_def)

lemma tree_inv_links:
  assumes "tree_inv t T fs" "same_links (nodes t) (nodes t')" "root_node t' = root_node t" "free_nodes t' = free_nodes t"
  shows "tree_inv t' T fs"
proof -
  have "tlinks (nodes t') = tlinks (nodes t)" by (rule ext) (use assms(2) in \<open>simp add: tlinks_def same_links_def\<close>)
  moreover have "tsub t' = tsub t" by (rule ext) (use assms(2) in \<open>simp add: tsub_def same_links_def\<close>)
  moreover have "tree_rep (nodes t') T (root_node t) None None" using assms(1,2) tree_rep_links by (auto simp: tree_inv_def)
  ultimately show ?thesis using assms unfolding tree_inv_def by simp
qed

lemma tree_inv_upd:
  assumes "tree_inv t T fs" "same_links (\<lambda>_. nodes t i) (\<lambda>_. f (nodes t i))"
  shows "tree_inv (upd_node i f t) T fs"
  by (rule tree_inv_links[OF assms(1)]) (use assms(2) in \<open>auto simp: same_links_def\<close>)

lemma lfind_tpaths: "lfind sub T ps = Some m \<Longrightarrow> (ps, m) \<in> set (tpaths sub T)"
proof (induction T arbitrary: ps)
  case (Node h i r)
  then show ?case by (cases ps) (auto split: if_splits)
qed simp

lemma find_tpaths: "tree_inv t T fs \<Longrightarrow> leaf_node_find t q = Some (Some m) \<Longrightarrow> (levels q, m) \<in> set (tpaths (tsub t) T)"
  using find_levels lfind_tpaths by fastforce

text \<open>The maps of a node with the bits of one client set in the map \<open>q\<close> only.\<close>

definition grant :: "u32 \<Rightarrow> nat \<Rightarrow> topic_node \<Rightarrow> topic_node" where
  "grant cl q n = n\<lparr>tn_cl_map := (map (\<lambda>m. m AND NOT cl) (tn_cl_map n))[q := ((tn_cl_map n ! q) AND NOT cl) OR cl]\<rparr>"

lemma grant_bits:
  assumes "length (tn_cl_map n) = 3" "q < 3" "i < 3" "u < 32"
  shows "bit (tn_cl_map (grant (push_bit u 1) q n) ! i) v \<longleftrightarrow> (if v = u then i = q else bit (tn_cl_map n ! i) v)"
  using assms by (auto simp: grant_def nth_list_update bit_clear_1 bit_or_iff bit_push_bit_1)

lemma sub_count:
  assumes "usr_get s u = Some x"
  shows "cl_sub_count_add u s = Some (s\<lparr>b_users := (b_users s)[u := (if is_connected x then x\<lparr>us_n_sub := us_n_sub x + 1\<rparr> else x)]\<rparr>)"
  using assms by (simp add: cl_sub_count_add_def usr_upd_def usr_put_def)

lemma subscribes:
  assumes "tree_inv (b_tree s) T fs" "fits flt" "length (levels flt) \<le> length fs" "\<forall>j \<in> set_tree T. length (tn_cl_map (tn_get s j)) = 3"
    "usr_get s u = Some x" "us_index x = of_nat u" "u < 32" "\<not> IS_CL_USR_FREE x" "unat qid < 3"
  shows "\<exists>n s' T' fs'. SUB_node_create flt qid u s = Some (Some n, s') \<and> tree_inv (b_tree s') T' fs' \<and>
     leaf_node_find (b_tree s') flt = Some (Some n) \<and> length (tn_cl_map (tn_get s' n)) = 3 \<and>
     (\<forall>q < 3. bit (tn_cl_map (tn_get s' n) ! q) u \<longleftrightarrow> q = unat qid) \<and>
     (\<forall>tp m. leaf_node_find (b_tree s) tp = Some (Some m) \<longrightarrow> leaf_node_find (b_tree s') tp = Some (Some m) \<and>
        (\<forall>q < 3. \<forall>v. m \<noteq> n \<or> v \<noteq> u \<longrightarrow> (bit (tn_cl_map (tn_get s' m) ! q) v \<longleftrightarrow> bit (tn_cl_map (tn_get s m) ! q) v))) \<and>
     s' = s\<lparr>b_tree := b_tree s', b_users := (b_users s)[u := (if is_connected x then x\<lparr>us_n_sub := us_n_sub x + 1\<rparr> else x)]\<rparr>"
proof -
  obtain pre where "levels flt = pre @ trest (tsub (b_tree s)) T (levels flt)" using trest_suffix by blast
  then have "length (trest (tsub (b_tree s)) T (levels flt)) \<le> length (levels flt)" by (metis length_append le_add2)
  then have "lfind (tsub (b_tree s)) T (levels flt) = None \<longrightarrow> length (trest (tsub (b_tree s)) T (levels flt)) \<le> length fs" using assms(3) by simp
  from create_full[OF assms(1,2) this] obtain n t' T' fs' where c: "topic_node_create (b_tree s) flt = Some (Some n, t')" "tree_inv t' T' fs'"
    "lfind (tsub t') T' (levels flt) = Some n" "\<And>qs m. lfind (tsub (b_tree s)) T qs = Some m \<Longrightarrow> lfind (tsub t') T' qs = Some m"
    "\<And>j. j \<in> set_tree T \<Longrightarrow> node_data (nodes t' j) = node_data (tn_get s j)"
    "\<And>qs m. lfind (tsub t') T' qs = Some m \<Longrightarrow> lfind (tsub (b_tree s)) T qs = Some m \<or> node_fresh (nodes t' m)"
    unfolding tn_get_def by blast
  have maps: "tn_cl_map (nodes t' j) = tn_cl_map (tn_get s j)" if "j \<in> set_tree T" for j
    using arg_cong[OF c(5)[OF that], of tn_cl_map] by (simp add: node_data_def)
  have l3: "length (tn_cl_map (nodes t' n)) = 3"
    using c(6)[OF c(3)] maps assms(4) lfind_mem by (fastforce simp: node_fresh_def)
  let ?s1 = "s\<lparr>b_tree := t'\<rparr>" and ?cl = "push_bit u 1 :: u32" and ?q = "unat qid"
  have cl: "cl_bmap_get (Some u) ?s1 = Some ?cl" using assms(5-8) by (simp add: cl_bmap_get_def usr_get_def CL_BMAP_def unat_of_nat_eq)
  let ?s2 = "tn_upd (grant ?cl ?q) n ?s1"
  have eq: "tn_upd (\<lambda>m. m\<lparr>tn_cl_map := (map (\<lambda>m. m AND NOT ?cl) (tn_cl_map (nodes t' n)))[?q := ((tn_cl_map (nodes t' n) ! ?q) AND NOT ?cl) OR ?cl]\<rparr>) n ?s1 = ?s2"
    by (simp add: tn_upd_def upd_node_def grant_def)
  have u2: "usr_get ?s2 u = Some x" using assms(5) by (simp add: usr_get_def tn_upd_def)
  let ?us = "(b_users s)[u := (if is_connected x then x\<lparr>us_n_sub := us_n_sub x + 1\<rparr> else x)]"
  define s' where "s' = ?s2\<lparr>b_users := ?us\<rparr>"
  have s': "cl_sub_count_add u ?s2 = Some s'" "b_tree s' = b_tree ?s2" "s' = s\<lparr>b_tree := b_tree s', b_users := ?us\<rparr>"
    using sub_count[OF u2] by (simp_all add: s'_def tn_upd_def)
  have run: "SUB_node_create flt qid u s = Some (Some n, s')"
    using c(1) cl l3 assms(9) s'(1) eq by (simp add: SUB_node_create_def br_node_create_def clear_client_def tn_get_def Let_def mem_simps)
  have i2: "tree_inv (b_tree s') T' fs'"
    unfolding s'(2) tn_upd_def using tree_inv_upd[OF c(2), of n "grant ?cl ?q"] by (simp add: same_links_def grant_def)
  have sub: "tsub (b_tree s') = tsub t'" by (rule ext) (simp add: s'(2) tsub_def tn_upd_def grant_def)
  have nd: "tn_get s' m = (if m = n then grant ?cl ?q (nodes t' n) else nodes t' m)" for m
    by (simp add: tn_get_def s'(2) tn_upd_def)
  have bits: "bit (tn_cl_map (tn_get s' m) ! q) v \<longleftrightarrow> bit (tn_cl_map (tn_get s m) ! q) v"
    if "lfind (tsub (b_tree s)) T qs = Some m" "q < 3" "m \<noteq> n \<or> v \<noteq> u" for qs m q v
  proof (cases "m = n")
    case True
    then show ?thesis using grant_bits[OF l3 assms(9) that(2) assms(7), of v] that(3) maps[OF lfind_mem[OF that(1)]] by (simp add: nd)
  next
    case False
    then show ?thesis using maps[OF lfind_mem[OF that(1)]] by (simp add: nd)
  qed
  have old: "\<forall>tp m. lfind (tsub (b_tree s)) T (levels tp) = Some m \<longrightarrow> lfind (tsub t') T' (levels tp) = Some m \<and>
        (\<forall>q < 3. \<forall>v. m \<noteq> n \<or> v \<noteq> u \<longrightarrow> (bit (tn_cl_map (tn_get s' m) ! q) v \<longleftrightarrow> bit (tn_cl_map (tn_get s m) ! q) v))"
    using c(4) bits by blast
  have new: "\<forall>q < 3. bit (tn_cl_map (tn_get s' n) ! q) u \<longleftrightarrow> q = ?q" using grant_bits[OF l3 assms(9) _ assms(7)] unfolding nd by simp
  have len: "length (tn_cl_map (tn_get s' n)) = 3" using l3 by (simp add: nd grant_def)
  show ?thesis unfolding find_levels[OF assms(1)]
    by (intro exI[of _ n] exI[of _ s'] exI[of _ T'] exI[of _ fs'])
       (simp only: find_levels[OF i2] sub option.inject run i2 c(3) len simp_thms, intro conjI old new s'(3))
qed

text \<open>
  C3: A subscription creates or finds the node of its filter, puts the client into
  the map of the granted QoS and takes it out of the maps of the other two, so that a client
  has one QoS for a filter. No other filter loses its node and no other client or node changes
  its maps; the count of subscriptions of the client is increased, also when it was subscribed
  already.
\<close>

theorem subscribe_node:
  assumes "tree_inv (b_tree s) T fs" "fits flt" "length (levels flt) \<le> length fs" "\<forall>j \<in> set_tree T. length (tn_cl_map (tn_get s j)) = 3"
    "usr_get s u = Some x" "us_index x = of_nat u" "u < 32" "\<not> IS_CL_USR_FREE x" "unat qid < 3"
  shows "\<exists>n s' T' fs'. SUB_node_create flt qid u s = Some (Some n, s') \<and> tree_inv (b_tree s') T' fs' \<and>
     leaf_node_find (b_tree s') flt = Some (Some n) \<and> length (tn_cl_map (tn_get s' n)) = 3 \<and>
     (\<forall>q < 3. bit (tn_cl_map (tn_get s' n) ! q) u \<longleftrightarrow> q = unat qid) \<and>
     (\<forall>tp m. leaf_node_find (b_tree s) tp = Some (Some m) \<longrightarrow> leaf_node_find (b_tree s') tp = Some (Some m) \<and>
        (\<forall>q < 3. \<forall>v. m \<noteq> n \<or> v \<noteq> u \<longrightarrow> (bit (tn_cl_map (tn_get s' m) ! q) v \<longleftrightarrow> bit (tn_cl_map (tn_get s m) ! q) v))) \<and>
     s' = s\<lparr>b_tree := b_tree s', b_users := (b_users s)[u := (if is_connected x then x\<lparr>us_n_sub := us_n_sub x + 1\<rparr> else x)]\<rparr>"
  by (rule subscribes[OF assms])


section \<open>Subscribe, then publish\<close>

lemma in_leaf_deliveries:
  assumes "q < length ms" "bit (ms ! q) u" "u < 8" "is_connected (b_users s ! u)"
  shows "\<exists>k. (usr_net s u, pub_wire (leaf_flags (qid + of_nat q) qos retain) (u_content tp) k data) \<in>
     set (leaf_deliveries s tp data qos retain ms qid mid)"
  using assms(1,2)
proof (induction ms arbitrary: q qid mid)
  case (Cons m ms)
  show ?case
  proof (cases q)
    case 0
    then have "u \<in> set (filter (\<lambda>i. bit m i \<and> is_connected (b_users s ! i)) [0..<8])" using Cons.prems assms(3,4) by simp
    then show ?thesis using 0 by (auto simp: Let_def)
  next
    case (Suc p)
    then have e: "qid + of_nat q = qid + 1 + of_nat p" by simp
    define mid' where "mid' = (if (\<exists>i < 8. bit m i) \<and> ENUM_QOS (leaf_flags qid qos retain) \<noteq> 0 then mid + 2 else mid)"
    obtain k where "(usr_net s u, pub_wire (leaf_flags (qid + 1 + of_nat p) qos retain) (u_content tp) k data) \<in>
        set (leaf_deliveries s tp data qos retain ms (qid + 1) mid')"
      using Cons.IH[of p "qid + 1" mid'] Cons.prems Suc by auto
    moreover have "set (leaf_deliveries s tp data qos retain ms (qid + 1) mid') \<subseteq> set (leaf_deliveries s tp data qos retain (m # ms) qid mid)"
      unfolding leaf_deliveries.simps Let_def mid'_def by (simp only: set_append Un_upper2)
    ultimately show ?thesis unfolding e by blast
  qed
qed simp

lemma in_pub_deliveries:
  assumes "n \<in> set ns" "q < length (tn_cl_map (tn_get s n))" "bit (tn_cl_map (tn_get s n) ! q) u" "u < 8" "is_connected (b_users s ! u)"
  shows "\<exists>k. (usr_net s u, pub_wire (leaf_flags (of_nat q) qos retain) (u_content tp) k data) \<in>
     set (pub_deliveries s tp data qos retain ns mid)"
  using assms(1)
proof (induction ns arbitrary: mid)
  case (Cons n' ns)
  show ?case
  proof (cases "n' = n")
    case True
    then show ?thesis using in_leaf_deliveries[OF assms(2-5), of 0] by fastforce
  next
    case False
    then show ?thesis using Cons by fastforce
  qed
qed simp

lemma usr_upd_conn:
  assumes "s' = s\<lparr>b_tree := t, b_users := (b_users s)[u := x']\<rparr>" "usr_get s u = Some x" "us_ctx x' = us_ctx x" "us_flags x' = us_flags x"
  shows "conn_ok s i \<Longrightarrow> conn_ok s' i" "dispatch_ok s qs ss \<Longrightarrow> dispatch_ok s' qs ss" "usr_net s' u = usr_net s u"
    "is_connected (b_users s' ! u) = is_connected x"
proof -
  have u: "u < length (b_users s)" "b_users s ! u = x" using assms(2) by (auto simp: usr_get_def buf_get_def split: if_splits)
  have c: "conn_ok s i \<Longrightarrow> conn_ok s' i" for i
    using assms(1,3,4) u by (cases "i = u") (auto simp: conn_ok_def is_connected_def ctx_get_def)
  then show "conn_ok s i \<Longrightarrow> conn_ok s' i" .
  show "dispatch_ok s qs ss \<Longrightarrow> dispatch_ok s' qs ss" using c assms(1) by (simp add: dispatch_ok_def)
  show "usr_net s' u = usr_net s u" using assms(1,3) u by (simp add: usr_net_def ctx_get_def)
  show "is_connected (b_users s' ! u) = is_connected x" using assms(1,4) u by (simp add: is_connected_def)
qed

text \<open>
  C1: A connected client among the first eight that subscribes to a filter is served:
  a publication to a topic that matches the filter level by level (\<open>topic_match\<close>) puts on the
  client's connection a PUBLISH with that topic and payload.
\<close>

theorem subscriber_served:
  assumes "tree_inv (b_tree s) T fs" "fits flt" "length (levels flt) \<le> length fs" "\<forall>j \<in> set_tree T. length (tn_cl_map (tn_get s j)) = 3"
    "usr_get s u = Some x" "us_index x = of_nat u" "u < 8" "is_connected x" "unat qid < 3"
    "b_stack s = []" "dispatch_ok s qs ss" "\<forall>tr. e_malloc env tr MQP_SERVER_TX_LEN" "plug_ok (b_plug s)"
    "fits topPUB" "topic_match (levels flt) (levels topPUB)" "u_valid tp" "payload_ok buf dlen" "4 + unat (u_length tp) + unat dlen \<le> 983"
  shows "\<exists>n s1 s2 mid sent. SUB_node_create flt qid u s = Some (Some n, s1) \<and>
     proc_sub_tree_topPUB env topPUB tp buf dlen qos retain s1 = Some s2 \<and> wires s2 = wires s1 @ sent \<and>
     (usr_net s u, pub_wire (leaf_flags qid qos retain) (u_content tp) mid (payload buf dlen)) \<in> set sent"
proof -
  have u32: "u < 32" and nf: "\<not> IS_CL_USR_FREE x" using assms(7,8) by (auto simp: IS_CL_USR_FREE_def is_connected_def)
  let ?x = "if is_connected x then x\<lparr>us_n_sub := us_n_sub x + 1\<rparr> else x"
  obtain n s1 T' fs' where 1: "SUB_node_create flt qid u s = Some (Some n, s1)" "tree_inv (b_tree s1) T' fs'"
     "leaf_node_find (b_tree s1) flt = Some (Some n)" "length (tn_cl_map (tn_get s1 n)) = 3"
     "\<forall>q < 3. bit (tn_cl_map (tn_get s1 n) ! q) u \<longleftrightarrow> q = unat qid"
     "s1 = s\<lparr>b_tree := b_tree s1, b_users := (b_users s)[u := ?x]\<rparr>"
    using subscribes[OF assms(1-6) u32 nf assms(9)] by blast
  have x: "us_ctx ?x = us_ctx x" "us_flags ?x = us_flags x" by auto
  note c = usr_upd_conn[OF 1(6) assms(5) x]
  have st: "b_stack s1 = []" "plug_ok (b_plug s1)" using assms(10,13) arg_cong[OF 1(6), of b_stack] arg_cong[OF 1(6), of b_plug] by simp_all
  obtain ns s2 where 2: "proc_sub_tree_topPUB env topPUB tp buf dlen qos retain s1 = Some s2"
     "\<forall>f n. (f, n) \<in> set (tpaths (tsub (b_tree s1)) T') \<longrightarrow> (topic_match f (levels topPUB) \<longrightarrow> n \<in> set ns)"
     "wires s2 = wires s1 @ pub_deliveries s1 tp (payload buf dlen) qos retain ns (b_msg_id s1)"
    using delivers[OF 1(2) assms(14) st(1) c(2)[OF assms(11)] assms(12,16-18) st(2), of qos retain] by blast
  have "n \<in> set ns" using 2(2) find_tpaths[OF 1(2,3)] assms(15) by blast
  moreover have "bit (tn_cl_map (tn_get s1 n) ! unat qid) u" "unat qid < length (tn_cl_map (tn_get s1 n))" using 1(4,5) assms(9) by auto
  ultimately obtain k where "(usr_net s1 u, pub_wire (leaf_flags (of_nat (unat qid)) qos retain) (u_content tp) k (payload buf dlen)) \<in>
     set (pub_deliveries s1 tp (payload buf dlen) qos retain ns (b_msg_id s1))"
    using in_pub_deliveries[of n ns "unat qid" s1 u qos retain tp] assms(7,8) c(4) by blast
  then show ?thesis using 1(1) 2(1,3) c(3) by auto
qed


lemma unserved_loop: "\<forall>m \<in> set ms. \<forall>i < 8. \<not> bit m i \<Longrightarrow> leaf_send_loop env ms qid tp buf dlen dup qos retain s = Some s"
proof (induction ms arbitrary: qid)
  case (Cons m ms)
  then have "(ucast m :: u8) = 0" by (simp add: u8_map_0)
  then show ?case using Cons by simp
qed simp

text \<open>
  C35: The maps have 32 bits and there are sixteen clients, yet \<open>leaf_msg_send\<close> keeps
  a map in eight bits: for a node whose subscribers all have an index of eight or more nothing
  is sent at all.
\<close>

theorem clients_from_eight_unserved:
  assumes "\<forall>m \<in> set (tn_cl_map (tn_get s n)). \<forall>i < 8. \<not> bit m i" "\<not> enrolls_plugin (tn_get s n)"
  shows "leaf_msg_send env n tp buf dlen dup qos retain s = Some s"
  using unserved_loop[OF assms(1)] assms(2) by (simp add: leaf_msg_send_def)

theorem clients_from_eight_unserved_witness:
  "leaf_msg_send sample_env 0 sample_topic (Some [7]) 1 False 1 False
     (tn_upd (\<lambda>n. n\<lparr>tn_cl_map := [0x100, 0x8200, 0], tn_pg_map := 0xFF\<rparr>) 0 sample_broker) =
   Some (tn_upd (\<lambda>n. n\<lparr>tn_cl_map := [0x100, 0x8200, 0], tn_pg_map := 0xFF\<rparr>) 0 sample_broker)"
proof (rule clients_from_eight_unserved)
  let ?s = "tn_upd (\<lambda>n. n\<lparr>tn_cl_map := [0x100, 0x8200, 0], tn_pg_map := 0xFF\<rparr>) 0 sample_broker"
  have n: "tn_cl_map (tn_get ?s 0) = [0x100, 0x8200, 0]" "tn_pg_map (tn_get ?s 0) = 0xFF" by (simp_all add: tn_get_def tn_upd_def)
  have u: "(ucast (0x100 :: u32) :: u8) = 0" "(ucast (0x8200 :: u32) :: u8) = 0" "(ucast (0 :: u32) :: u8) = 0" by simp_all
  show "\<forall>m \<in> set (tn_cl_map (tn_get ?s 0)). \<forall>i < 8. \<not> bit m i"
    unfolding n(1) u8_map_0[symmetric] by (simp only: list.set insert_iff empty_iff ball_simps u simp_thms)
  show "\<not> enrolls_plugin (tn_get ?s 0)" using n(2) by (simp add: enrolls_plugin_def)
qed

section \<open>The sample broker\<close>

definition sample_top :: utf8_string where
  "sample_top = \<lparr>u_buffer = [0x61], u_length = 1\<rparr>"

lemma sample_dispatch: "dispatch_ok sample_broker [] []"
  using sample_conn by (simp add: dispatch_ok_def wlist_rep_def sample_broker_def)

lemma sample_parts: "b_tree sample_broker = sample_tree" "b_stack sample_broker = []" "plug_ok (b_plug sample_broker)"
  "usr_get sample_broker 0 = Some (sample_usr 0 (Some 0) MQ_CONNECT_FLAG [0x41])" "usr_net sample_broker 0 = 4"
  using sample_users[of 0] length_sample_users
  by (simp_all add: usr_get_def mem_simps MAX_CLIENTS_def usr_net_def sample_usr_def)
     (simp_all add: sample_broker_def plug_ok_def sample_plugs_def sample_plugin_def sample_cbs_def MAX_PLUGINS_def
        PG_MAP_MAX_ELEMS_def ctx_get_def sample_ctx_def)

lemma sample_sub_pre: "tree_inv (b_tree sample_broker) Leaf (rev [0..<MAX_TOP_NODES])" "fits topic_a"
  "length (levels topic_a) \<le> length (rev [0..<MAX_TOP_NODES])" "\<forall>j \<in> set_tree (Leaf :: nat tree). length (tn_cl_map (tn_get sample_broker j)) = 3"
  "us_index (sample_usr 0 (Some 0) MQ_CONNECT_FLAG [0x41]) = of_nat 0" "is_connected (sample_usr 0 (Some 0) MQ_CONNECT_FLAG [0x41])"
  "\<not> IS_CL_USR_FREE (sample_usr 0 (Some 0) MQ_CONNECT_FLAG [0x41])"
  using sample_tree_inv sample_levels(4) sample_room(2) sample_parts(1)
  by (simp_all add: sample_usr_def is_connected_def IS_CL_USR_FREE_def)

lemma sample_pub_pre: "\<forall>tr. e_malloc sample_env tr MQP_SERVER_TX_LEN" "u_valid sample_top" "payload_ok (Some [0x78]) 1"
  "4 + unat (u_length sample_top) + unat (1 :: u32) \<le> 983" "u_content sample_top = [0x61]"
  by (simp_all add: sample_env_def u_valid_def sample_top_def payload_ok_def u_content_def)

theorem subscribe_node_witness:
  "\<exists>n s'. SUB_node_create topic_a 1 0 sample_broker = Some (Some n, s') \<and> bit (tn_cl_map (tn_get s' n) ! 1) 0 \<and>
     \<not> bit (tn_cl_map (tn_get s' n) ! 2) 0"
proof -
  have "unat (1 :: u8) < 3" "(0 :: nat) < 32" by simp_all
  from subscribe_node[OF sample_sub_pre(1-4) sample_parts(4) sample_sub_pre(5) this(2) sample_sub_pre(7) this(1)]
  obtain n s' where "SUB_node_create topic_a 1 0 sample_broker = Some (Some n, s')"
    "\<forall>q < 3. bit (tn_cl_map (tn_get s' n) ! q) 0 \<longleftrightarrow> q = unat (1 :: u8)" by blast
  then show ?thesis by (intro exI[of _ n] exI[of _ s']) simp
qed

theorem subscriber_served_witness:
  "\<exists>n s1 s2 mid sent. SUB_node_create topic_a 1 0 sample_broker = Some (Some n, s1) \<and>
     proc_sub_tree_topPUB sample_env topic_a sample_top (Some [0x78]) 1 2 False s1 = Some s2 \<and> wires s2 = wires s1 @ sent \<and>
     (4, pub_wire 0x2 [0x61] mid [0x78]) \<in> set sent"
proof -
  have n: "unat (1 :: u8) < 3" "(0 :: nat) < 8" by simp_all
  have m: "topic_match (levels topic_a) (levels topic_a)" by (simp add: sample_levels level_match_def)
  have f: "leaf_flags 1 2 False = 0x2" by code_simp
  have p: "payload (Some [0x78]) 1 = [0x78]" by simp
  show ?thesis
    using subscriber_served[OF sample_sub_pre(1-4) sample_parts(4) sample_sub_pre(5) n(2) sample_sub_pre(6) n(1) sample_parts(2) sample_dispatch
        sample_pub_pre(1) sample_parts(3) sample_sub_pre(2) m sample_pub_pre(2-4), of 2 False]
    unfolding f p sample_pub_pre(5) sample_parts(5) .
qed

theorem publish_delivers_witness:
  "\<exists>n s1 s2 mid. SUB_node_create topic_a 1 0 sample_broker = Some (Some n, s1) \<and>
     proc_sub_tree_topPUB sample_env topic_a sample_top (Some [0x78]) 1 2 False s1 = Some s2 \<and>
     (4, pub_wire 0x2 [0x61] mid [0x78]) \<in> set (wires s2)"
proof -
  let ?u = "sample_usr 0 (Some 0) MQ_CONNECT_FLAG [0x41]"
  let ?x = "if is_connected ?u then ?u\<lparr>us_n_sub := us_n_sub ?u + 1\<rparr> else ?u"
  have q: "unat (1 :: u8) < 3" "(0 :: nat) < 32" by simp_all
  obtain n s1 T' fs' where 1: "SUB_node_create topic_a 1 0 sample_broker = Some (Some n, s1)" "tree_inv (b_tree s1) T' fs'"
     "leaf_node_find (b_tree s1) topic_a = Some (Some n)" "length (tn_cl_map (tn_get s1 n)) = 3"
     "\<forall>q < 3. bit (tn_cl_map (tn_get s1 n) ! q) 0 \<longleftrightarrow> q = unat (1 :: u8)"
     "s1 = sample_broker\<lparr>b_tree := b_tree s1, b_users := (b_users sample_broker)[0 := ?x]\<rparr>"
    using subscribes[OF sample_sub_pre(1-4) sample_parts(4) sample_sub_pre(5) q(2) sample_sub_pre(7) q(1)] by blast
  have x: "us_ctx ?x = us_ctx ?u" "us_flags ?x = us_flags ?u" by auto
  note c = usr_upd_conn[OF 1(6) sample_parts(4) x]
  have st: "b_stack s1 = []" "plug_ok (b_plug s1)"
    using sample_parts(2,3) arg_cong[OF 1(6), of b_stack] arg_cong[OF 1(6), of b_plug] by simp_all
  obtain ns s2 where 2: "proc_sub_tree_topPUB sample_env topic_a sample_top (Some [0x78]) 1 2 False s1 = Some s2"
     "\<forall>f n. (f, n) \<in> set (tpaths (tsub (b_tree s1)) T') \<longrightarrow> (topic_match f (levels topic_a) \<longrightarrow> n \<in> set ns)"
     "wires s2 = wires s1 @ pub_deliveries s1 sample_top (payload (Some [0x78]) 1) 2 False ns (b_msg_id s1)"
    using publish_delivers[OF 1(2) sample_sub_pre(2) st(1) c(2)[OF sample_dispatch] sample_pub_pre(1-4) st(2), of 2 False] by blast
  have "topic_match (levels topic_a) (levels topic_a)" by (simp add: sample_levels level_match_def)
  then have n: "n \<in> set ns" using 2(2) find_tpaths[OF 1(2,3)] by blast
  have m: "1 < length (tn_cl_map (tn_get s1 n))" "bit (tn_cl_map (tn_get s1 n) ! 1) 0" "(0 :: nat) < 8" "is_connected (b_users s1 ! 0)"
    using 1(4,5) c(4) sample_sub_pre(6) by simp_all
  obtain k where k: "(usr_net s1 0, pub_wire (leaf_flags (of_nat 1) 2 False) (u_content sample_top) k (payload (Some [0x78]) 1)) \<in> set (wires s2)"
    using in_pub_deliveries[OF n m, of 2 False sample_top "payload (Some [0x78]) 1"] unfolding 2(3) set_append by blast
  have f: "usr_net s1 0 = 4" "payload (Some [0x78]) 1 = [0x78]" using c(3) sample_parts(5) by simp_all
  have l: "leaf_flags (of_nat 1) 2 False = 0x2" by code_simp
  show ?thesis using 1(1) 2(1) k[unfolded f l sample_pub_pre(5)] by blast
qed

end
