(* ===== verification/ClientLib.thy ===== *)
theory ClientLib
  imports MqttRecv AckWlist Qos2Cq ClientCtx
begin

text \<open>
  The MQTT client library, \<open>netapps/mqtt/client/mqtt_client.c\<close>: its state, its pool of packets,
  the transmission of a packet in parts, and the end of a session and of a connection.
  The network services and the application's call-backs are the fields of \<open>client_env\<close>;
  an answer may depend on the history of the calls, latest first. The call-backs do not call
  the library.
\<close>

section \<open>Environment\<close>

record secure_conn =
  sc_method :: ptr
  sc_cipher :: ptr
  sc_n_file :: u32
  sc_files :: ptr

datatype cl_event =
    ClSend i32 "u8 list" i32
  | ClSendDest i32 u16 i32
  | ClClose i32
  | ClOpen u32 ptr u16 i32
  | ClRecv i32 nat i32
  | ClRecvFrom i32 i32
  | ClIoMon "i32 list" u32 i32
  | ClTime u32
  | ClAckNotify nat ptr u8 u16 "u8 list"        \<comment> \<open>call-back, app, type, identifier, data\<close>
  | ClPublishRx nat ptr bool mqtt_qos bool nat  \<comment> \<open>call-back, app, dup, QoS, retain, packet\<close>
  | ClDisconn nat ptr i32                       \<comment> \<open>call-back, app, cause\<close>

type_synonym cl_trace = "cl_event list"

record client_env =
  ce_open :: "cl_trace \<Rightarrow> u32 \<Rightarrow> ptr \<Rightarrow> u16 \<Rightarrow> secure_conn option \<Rightarrow> i32"
  ce_send :: "cl_trace \<Rightarrow> i32 \<Rightarrow> u8 list \<Rightarrow> i32"
  ce_recv :: "cl_trace \<Rightarrow> i32 \<Rightarrow> nat \<Rightarrow> u32 \<Rightarrow> i32 \<times> u8 list \<times> bool"
  ce_send_dest :: "cl_trace \<Rightarrow> i32 \<Rightarrow> u16 \<Rightarrow> i32"
  ce_recv_from :: "cl_trace \<Rightarrow> i32 \<Rightarrow> i32"
  ce_io_mon :: "cl_trace \<Rightarrow> i32 list \<Rightarrow> u32 \<Rightarrow> i32 \<times> i32 list"
  ce_time :: "cl_trace \<Rightarrow> u32"
  ce_publish_rx :: "cl_trace \<Rightarrow> nat \<Rightarrow> bool"

section \<open>State\<close>

abbreviation VH_MSG_LEN :: nat where "VH_MSG_LEN \<equiv> 4"

text \<open>
  The union of \<open>vh_msg\<close> and \<open>buffer\<close> is two fields; which of them holds the data is
  decided by \<open>tx_mqp\<close>, as in the code. \<open>tx_buffer\<close> is a position in the packet's buffer.
\<close>

record tx_part_pkt =
  tx_mqp :: ptr
  tx_vh_msg :: "u8 list"
  tx_buffer :: nat
  tx_length :: u32
  tx_offset :: u32

text \<open>
  \<open>struct client_desc\<close> without its first member, the context. The call-backs are numbered, a
  missing one is \<open>None\<close>. The strings of the CONNECT payload are kept by value.
\<close>

record client_desc =
  cd_conn_pl_utf8s :: "utf8_string option list"
  cd_will_opts :: u8
  cd_qos_ack1_wl :: mqtt_ack_wlist
  cd_qos2_rx_cq :: pub_qos2_cq
  cd_qos2_tx_cq :: pub_qos2_cq
  cd_publish_rx :: ptr
  cd_ack_notify :: ptr
  cd_disconn_cb :: ptr
  cd_tx_part :: tx_part_pkt
  cd_rx_mqp :: ptr
  cd_app :: ptr
  cd_nwconn_opts :: u32
  cd_server_addr :: ptr
  cd_port_number :: u16
  cd_nw_security :: secure_conn

text \<open>
  The static data of the library. A descriptor and its context have the same index in
  \<open>ml_clients\<close> and \<open>ml_ctxs\<close> (\<open>CLIENT\<close> and \<open>CL_CTX\<close> are casts of the same pointer).
\<close>

record mqtt_lib =
  ml_msg_id :: u16
  ml_init_done :: bool
  ml_loopb_portid :: u16
  ml_grp_has_cbfn :: bool
  ml_free_ctxs :: ptr
  ml_used_ctxs :: ptr
  ml_conn_ctxs :: ptr
  ml_ctxs :: ctx_heap
  ml_clients :: "nat \<Rightarrow> client_desc option"
  ml_loopb_net :: i32
  ml_recv_hvec :: "i32 list"
  ml_net_ops :: bool
  ml_heap :: mqp_heap
  ml_free_list :: ptr
  ml_trace :: cl_trace

definition ml_log :: "cl_event \<Rightarrow> mqtt_lib \<Rightarrow> mqtt_lib" where
  "ml_log e s = s\<lparr>ml_trace := e # ml_trace s\<rparr>"

definition mx_upd :: "(client_ctx \<Rightarrow> client_ctx) \<Rightarrow> nat \<Rightarrow> mqtt_lib \<Rightarrow> mqtt_lib option" where
  "mx_upd f c s = do { x \<leftarrow> ml_ctxs s c; Some (s\<lparr>ml_ctxs := (ml_ctxs s)(c \<mapsto> f x)\<rparr>) }"

definition cd_upd :: "(client_desc \<Rightarrow> client_desc) \<Rightarrow> nat \<Rightarrow> mqtt_lib \<Rightarrow> mqtt_lib option" where
  "cd_upd f c s = do { x \<leftarrow> ml_clients s c; Some (s\<lparr>ml_clients := (ml_clients s)(c \<mapsto> f x)\<rparr>) }"

definition pk_put :: "nat \<Rightarrow> mqtt_packet \<Rightarrow> mqtt_lib \<Rightarrow> mqtt_lib" where
  "pk_put a m s = s\<lparr>ml_heap := (ml_heap s)(a \<mapsto> m)\<rparr>"

definition ml_time :: "client_env \<Rightarrow> mqtt_lib \<Rightarrow> u32 \<times> mqtt_lib" where
  "ml_time env s = (let t = ce_time env (ml_trace s) in (t, ml_log (ClTime t) s))"

definition assign_new_msg_id :: "mqtt_lib \<Rightarrow> u16 \<times> mqtt_lib" where
  "assign_new_msg_id s = (ml_msg_id s + 2, s\<lparr>ml_msg_id := ml_msg_id s + 2\<rparr>)"

abbreviation APP_RECV_TASK_FLAG :: u32 where "APP_RECV_TASK_FLAG \<equiv> 0x0002"
abbreviation USE_PROTO_V31_FLAG :: u32 where "USE_PROTO_V31_FLAG \<equiv> 0x0001"
abbreviation GROUP_CONTEXT_FLAG :: u32 where "GROUP_CONTEXT_FLAG \<equiv> 0x0004"
abbreviation CLEAN_SESSION_FLAG :: u32 where "CLEAN_SESSION_FLAG \<equiv> 0x00010000"
abbreviation CONNACK_AWAIT_FLAG :: u32 where "CONNACK_AWAIT_FLAG \<equiv> 0x00020000"
abbreviation NOW_CONNECTED_FLAG :: u32 where "NOW_CONNECTED_FLAG \<equiv> 0x00040000"
abbreviation KA_PINGER_RSP_FLAG :: u32 where "KA_PINGER_RSP_FLAG \<equiv> 0x00080000"
abbreviation USER_PING_RSP_FLAG :: u32 where "USER_PING_RSP_FLAG \<equiv> 0x00100000"
abbreviation CL_NETWORK_CLOSE_FLAG :: u32 where "CL_NETWORK_CLOSE_FLAG \<equiv> 0x00200000"
abbreviation DO_CONNACK_TO_FLAG :: u32 where "DO_CONNACK_TO_FLAG \<equiv> 0x00400000"

definition cx_has :: "u32 \<Rightarrow> client_ctx \<Rightarrow> bool" where "cx_has f x \<longleftrightarrow> cx_flags x AND f \<noteq> 0"

abbreviation IS_PROTO_VER31 :: "client_ctx \<Rightarrow> bool" where "IS_PROTO_VER31 \<equiv> cx_has USE_PROTO_V31_FLAG"
abbreviation AWAITS_CONNACK :: "client_ctx \<Rightarrow> bool" where "AWAITS_CONNACK \<equiv> cx_has CONNACK_AWAIT_FLAG"
abbreviation HAS_CONNECTION :: "client_ctx \<Rightarrow> bool" where "HAS_CONNECTION \<equiv> cx_has NOW_CONNECTED_FLAG"
abbreviation AWAITS_KA_PING :: "client_ctx \<Rightarrow> bool" where "AWAITS_KA_PING \<equiv> cx_has KA_PINGER_RSP_FLAG"
abbreviation AWAITS_PINGRSP :: "client_ctx \<Rightarrow> bool" where "AWAITS_PINGRSP \<equiv> cx_has USER_PING_RSP_FLAG"
abbreviation IS_CLN_SESSION :: "client_ctx \<Rightarrow> bool" where "IS_CLN_SESSION \<equiv> cx_has CLEAN_SESSION_FLAG"
abbreviation RECV_TASK_AVBL :: "client_ctx \<Rightarrow> bool" where "RECV_TASK_AVBL \<equiv> cx_has APP_RECV_TASK_FLAG"
abbreviation A_GROUP_MEMBER :: "client_ctx \<Rightarrow> bool" where "A_GROUP_MEMBER \<equiv> cx_has GROUP_CONTEXT_FLAG"
abbreviation CL_NEED_NET_CLOSE :: "client_ctx \<Rightarrow> bool" where "CL_NEED_NET_CLOSE \<equiv> cx_has CL_NETWORK_CLOSE_FLAG"
abbreviation CFG_CONNACK_TO :: "client_ctx \<Rightarrow> bool" where "CFG_CONNACK_TO \<equiv> cx_has DO_CONNACK_TO_FLAG"

definition cx_set :: "u32 \<Rightarrow> client_ctx \<Rightarrow> client_ctx" where "cx_set f x = x\<lparr>cx_flags := cx_flags x OR f\<rparr>"
definition cx_clr :: "u32 \<Rightarrow> client_ctx \<Rightarrow> client_ctx" where "cx_clr f x = x\<lparr>cx_flags := cx_flags x AND NOT f\<rparr>"

definition cl_is_connected :: "client_ctx \<Rightarrow> bool" where
  "cl_is_connected x \<longleftrightarrow> HAS_CONNECTION x \<and> \<not> CL_NEED_NET_CLOSE x"

section \<open>The pool of packets\<close>

text \<open>The hook \<open>free_mqp\<close> of the packets of the library, and \<open>mqp_free\<close> on them.\<close>

definition cl_free_mqp :: "nat \<Rightarrow> mqtt_lib \<Rightarrow> mqtt_lib option" where
  "cl_free_mqp a s = do {
     m \<leftarrow> ml_heap s a;
     Some ((pk_put a (m\<lparr>p_next := ml_free_list s\<rparr>) s)\<lparr>ml_free_list := Some a\<rparr>) }"

definition cl_mqp_free :: "nat \<Rightarrow> mqtt_lib \<Rightarrow> mqtt_lib option" where
  "cl_mqp_free a s = do {
     m \<leftarrow> ml_heap s a;
     let (m, last) = free_mqp m;
     let s = pk_put a m s;
     if last then cl_free_mqp a s else Some s }"

definition mqp_alloc_atomic :: "mqtt_lib \<Rightarrow> (ptr \<times> mqtt_lib) option" where
  "mqp_alloc_atomic s =
     (case ml_free_list s of
        None \<Rightarrow> Some (None, s)
      | Some a \<Rightarrow> do { m \<leftarrow> ml_heap s a; Some (Some a, s\<lparr>ml_free_list := p_next m\<rparr>) })"

definition mqp_client_alloc :: "u8 \<Rightarrow> u8 \<Rightarrow> mqtt_lib \<Rightarrow> (ptr \<times> mqtt_lib) option" where
  "mqp_client_alloc msg_type offset s = do {
     (r, s) \<leftarrow> mqp_alloc_atomic s;
     case r of
       None \<Rightarrow> Some (None, s)
     | Some a \<Rightarrow> do {
         m \<leftarrow> ml_heap s a;
         Some (Some a, pk_put a ((mqp_init m offset)\<lparr>p_msg_type := msg_type\<rparr>) s) } }"

definition mqp_client_send_alloc :: "u8 \<Rightarrow> mqtt_lib \<Rightarrow> (ptr \<times> mqtt_lib) option" where
  "mqp_client_send_alloc msg_type s = mqp_client_alloc msg_type (of_nat MAX_FH_LEN) s"

definition mqp_client_recv_alloc :: "u8 \<Rightarrow> mqtt_lib \<Rightarrow> (ptr \<times> mqtt_lib) option" where
  "mqp_client_recv_alloc msg_type s = mqp_client_alloc msg_type 0 s"

text \<open>
  \<open>mqtt_client_buffers_register\<close>: the packets of \<open>mqp_vec\<close> are at the addresses from \<open>mqp_vec\<close> on;
  each gets its piece of the bytes at \<open>buf_vec\<close>.
\<close>

fun register_loop :: "nat list \<Rightarrow> u32 \<Rightarrow> u8 list \<Rightarrow> mqtt_lib \<Rightarrow> mqtt_lib option" where
  "register_loop [] buf_len buf s = Some s"
| "register_loop (a # as) buf_len buf s = do {
     m \<leftarrow> ml_heap s a;
     register_loop as buf_len (drop (unat buf_len) buf)
       ((pk_put a (m\<lparr>p_buffer := take (unat buf_len) buf, p_maxlen := buf_len, p_free_hook := True, p_next := ml_free_list s\<rparr>) s)
          \<lparr>ml_free_list := Some a\<rparr>) }"

definition mqtt_client_buffers_register :: "u32 \<Rightarrow> nat \<Rightarrow> u32 \<Rightarrow> u8 list \<Rightarrow> mqtt_lib \<Rightarrow> (i32 \<times> mqtt_lib) option" where
  "mqtt_client_buffers_register num_mqp mqp_vec buf_len buf_vec s =
     (if num_mqp = 0 \<or> buf_len = 0 \<or> ml_free_list s \<noteq> None then Some (- 1, s)
      else do {
        s \<leftarrow> register_loop [mqp_vec..<mqp_vec + unat num_mqp] buf_len buf_vec s;
        Some (0, s) })"

section \<open>Transmission in parts\<close>

text \<open>The data to send: local bytes, or a packet and a position in its buffer.\<close>

datatype tx_src = TxLocal "u8 list" | TxMqp nat nat

definition tx_part_setup :: "tx_src \<Rightarrow> u32 \<Rightarrow> tx_part_pkt \<Rightarrow> (bool \<times> tx_part_pkt) option" where
  "tx_part_setup src len tx =
     (case src of
        TxMqp a d \<Rightarrow> Some (True, tx\<lparr>tx_buffer := d, tx_length := len, tx_mqp := Some a\<rparr>)
      | TxLocal buf \<Rightarrow>
          if of_nat VH_MSG_LEN < len then Some (False, tx)
          else do {
            v \<leftarrow> buf_wr_nbytes (tx_vh_msg tx) 0 buf (unat len);
            Some (True, tx\<lparr>tx_vh_msg := v, tx_length := len, tx_mqp := None\<rparr>) })"

definition tx_part_zero :: "tx_part_pkt \<Rightarrow> tx_part_pkt option" where
  "tx_part_zero tx = do {
     v \<leftarrow> buf_put (tx_vh_msg tx) 0 0x00;
     Some (tx\<lparr>tx_vh_msg := v, tx_mqp := None, tx_length := 0, tx_offset := 0\<rparr>) }"

definition tx_part_reset :: "nat \<Rightarrow> mqtt_lib \<Rightarrow> mqtt_lib option" where
  "tx_part_reset c s = do {
     d \<leftarrow> ml_clients s c;
     s \<leftarrow> (case tx_mqp (cd_tx_part d) of None \<Rightarrow> Some s | Some a \<Rightarrow> cl_mqp_free a s);
     tx \<leftarrow> tx_part_zero (cd_tx_part d);
     cd_upd (\<lambda>d. d\<lparr>cd_tx_part := tx\<rparr>) c s }"

definition tx_part_addup :: "u32 \<Rightarrow> tx_part_pkt \<Rightarrow> tx_part_pkt" where
  "tx_part_addup offset tx = tx\<lparr>tx_offset := tx_offset tx + offset\<rparr>"

definition TX_PART_BUF_SZ :: "tx_part_pkt \<Rightarrow> u32" where
  "TX_PART_BUF_SZ tx = tx_length tx - tx_offset tx"

text \<open>The \<open>TX_PART_BUF_SZ\<close> bytes from \<open>tx_part_buf_p\<close> on.\<close>

definition tx_part_bytes :: "tx_part_pkt \<Rightarrow> mqtt_lib \<Rightarrow> u8 list option" where
  "tx_part_bytes tx s = do {
     (buf, d) \<leftarrow> (case tx_mqp tx of
        None \<Rightarrow> Some (tx_vh_msg tx, 0)
      | Some a \<Rightarrow> do { m \<leftarrow> ml_heap s a; Some (p_buffer m, tx_buffer tx) });
     let d = d + unat (tx_offset tx);
     let n = unat (TX_PART_BUF_SZ tx);
     if d + n \<le> length buf then Some (take n (drop d buf)) else None }"

section \<open>The end of a session and of a connection\<close>

definition loopb_port_trigger :: "client_env \<Rightarrow> mqtt_lib \<Rightarrow> i32 \<times> mqtt_lib" where
  "loopb_port_trigger env s =
     (if ml_loopb_net s \<noteq> - 1
      then (let rv = ce_send_dest env (ml_trace s) (ml_loopb_net s) (ml_loopb_portid s)
            in (rv, ml_log (ClSendDest (ml_loopb_net s) (ml_loopb_portid s) rv) s))
      else (MQP_ERR_LIBQUIT, s))"

definition cl_wlist_remove :: "nat \<Rightarrow> u16 \<Rightarrow> mqtt_lib \<Rightarrow> (ptr \<times> mqtt_lib) option" where
  "cl_wlist_remove c msg_id s = do {
     d \<leftarrow> ml_clients s c;
     (r, h, wl) \<leftarrow> mqp_ack_wlist_remove (ml_heap s) (cd_qos_ack1_wl d) msg_id;
     s \<leftarrow> cd_upd (\<lambda>d. d\<lparr>cd_qos_ack1_wl := wl\<rparr>) c (s\<lparr>ml_heap := h\<rparr>);
     Some (r, s) }"

partial_function (option) session_311_loop :: "nat \<Rightarrow> ptr \<Rightarrow> mqtt_lib \<Rightarrow> mqtt_lib option" where
  "session_311_loop c elem s =
     (case elem of
        None \<Rightarrow> Some s
      | Some a \<Rightarrow> do {
          e \<leftarrow> ml_heap s a;
          s \<leftarrow> (if MQTT_PUBLISH \<noteq> p_msg_type e then map_option snd (cl_wlist_remove c (p_msg_id e) s) else Some s);
          session_311_loop c (p_next e) s })"

definition session_311fix :: "nat \<Rightarrow> mqtt_lib \<Rightarrow> mqtt_lib option" where
  "session_311fix c s = do { d \<leftarrow> ml_clients s c; session_311_loop c (wl_head (cd_qos_ack1_wl d)) s }"

definition cl_wlist_purge :: "nat \<Rightarrow> mqtt_lib \<Rightarrow> mqtt_lib option" where
  "cl_wlist_purge c s = do {
     d \<leftarrow> ml_clients s c;
     (s, wl) \<leftarrow> mqp_ack_wlist_purge ml_heap cl_mqp_free s (cd_qos_ack1_wl d);
     cd_upd (\<lambda>d. d\<lparr>cd_qos_ack1_wl := wl\<rparr>) c s }"

definition reset_cqs :: "client_desc \<Rightarrow> client_desc" where
  "reset_cqs d = d\<lparr>cd_qos2_rx_cq := qos2_pub_cq_reset (cd_qos2_rx_cq d), cd_qos2_tx_cq := qos2_pub_cq_reset (cd_qos2_tx_cq d)\<rparr>"

definition cl_session_delete :: "nat \<Rightarrow> mqtt_lib \<Rightarrow> mqtt_lib option" where
  "cl_session_delete c s = do { s \<leftarrow> cd_upd reset_cqs c s; cl_wlist_purge c s }"

definition do_net_close :: "client_env \<Rightarrow> nat \<Rightarrow> mqtt_lib \<Rightarrow> mqtt_lib option" where
  "do_net_close env c s = do {
     x \<leftarrow> ml_ctxs s c;
     let net = cx_net x;
     if net = - 1 then Some s
     else do {
       s \<leftarrow> (if IS_CLN_SESSION x then cl_session_delete c s
            else if \<not> IS_PROTO_VER31 x then session_311fix c s
            else Some s);
       s \<leftarrow> tx_part_reset c s;
       s \<leftarrow> mx_upd (cx_clr (CONNACK_AWAIT_FLAG OR NOW_CONNECTED_FLAG OR KA_PINGER_RSP_FLAG OR USER_PING_RSP_FLAG OR
                          CL_NETWORK_CLOSE_FLAG OR DO_CONNACK_TO_FLAG)) c s;
       s \<leftarrow> mx_upd (cx_net_update (\<lambda>_. - 1)) c s;
       Some (ml_log (ClClose net) s) } }"

definition used_remove :: "nat \<Rightarrow> mqtt_lib \<Rightarrow> mqtt_lib option" where
  "used_remove c s = do {
     (h, head) \<leftarrow> cl_ctx_remove (ml_ctxs s) (ml_used_ctxs s) c;
     Some (s\<lparr>ml_ctxs := h, ml_used_ctxs := head\<rparr>) }"

definition used_insert :: "nat \<Rightarrow> mqtt_lib \<Rightarrow> mqtt_lib option" where
  "used_insert c s = do {
     (h, head) \<leftarrow> cl_ctx_timeout_insert (ml_ctxs s) (ml_used_ctxs s) c;
     Some (s\<lparr>ml_ctxs := h, ml_used_ctxs := head\<rparr>) }"

definition cl_net_close_rx :: "client_env \<Rightarrow> nat \<Rightarrow> i32 \<Rightarrow> mqtt_lib \<Rightarrow> mqtt_lib option" where
  "cl_net_close_rx env c cause s = do {
     s \<leftarrow> do_net_close env c s;
     d \<leftarrow> ml_clients s c;
     let s = (case cd_disconn_cb d of None \<Rightarrow> s | Some f \<Rightarrow> ml_log (ClDisconn f (cd_app d) cause) s);
     x \<leftarrow> ml_ctxs s c;
     if A_GROUP_MEMBER x then used_remove c s else Some s }"

definition cl_net_close_tx :: "client_env \<Rightarrow> nat \<Rightarrow> mqtt_lib \<Rightarrow> mqtt_lib option" where
  "cl_net_close_tx env c s = do {
     x \<leftarrow> ml_ctxs s c;
     if RECV_TASK_AVBL x then do {
       s \<leftarrow> mx_upd (cx_set CL_NETWORK_CLOSE_FLAG) c s;
       Some (if A_GROUP_MEMBER x then snd (loopb_port_trigger env s) else s) }
     else do {
       d \<leftarrow> ml_clients s c;
       s \<leftarrow> do_net_close env c s;
       s \<leftarrow> (case cd_rx_mqp d of
              None \<Rightarrow> Some s
            | Some a \<Rightarrow> do { m \<leftarrow> ml_heap s a; if p_free_hook m then cl_mqp_free a s else Some s });
       cd_upd (\<lambda>d. d\<lparr>cd_rx_mqp := None\<rparr>) c s } }"

section \<open>Sending\<close>

definition used_ctxs_TO_sort :: "nat \<Rightarrow> mqtt_lib \<Rightarrow> mqtt_lib option" where
  "used_ctxs_TO_sort c s = do { s \<leftarrow> used_remove c s; used_insert c s }"

definition net_send :: "client_env \<Rightarrow> i32 \<Rightarrow> u8 list \<Rightarrow> mqtt_lib \<Rightarrow> i32 \<times> mqtt_lib" where
  "net_send env net bytes s =
     (let rv = ce_send env (ml_trace s) net bytes; s = ml_log (ClSend net bytes rv) s
      in (if rv \<le> 0 then MQP_ERR_NETWORK else rv, s))"

definition cl_ctx_part_send :: "client_env \<Rightarrow> nat \<Rightarrow> mqtt_lib \<Rightarrow> (i32 \<times> mqtt_lib) option" where
  "cl_ctx_part_send env c s = do {
     x \<leftarrow> ml_ctxs s c;
     d \<leftarrow> ml_clients s c;
     bytes \<leftarrow> tx_part_bytes (cd_tx_part d) s;
     let (rv, s) = net_send env (cx_net x) bytes s;
     if 0 < rv then do {
       s \<leftarrow> (if HAS_CONNECTION x then do {
               let (now, s) = ml_time env s;
               s \<leftarrow> mx_upd (\<lambda>x. cl_ctx_timeout_update x now) c s;
               if A_GROUP_MEMBER x then used_ctxs_TO_sort c s else Some s }
             else Some s);
       s \<leftarrow> (if word_of_int rv \<noteq> TX_PART_BUF_SZ (cd_tx_part d)
            then cd_upd (\<lambda>d. d\<lparr>cd_tx_part := tx_part_addup (word_of_int rv) (cd_tx_part d)\<rparr>) c s
            else tx_part_reset c s);
       Some (rv, s) }
     else do {
       s \<leftarrow> cl_net_close_tx env c s;
       Some (rv, s) } }"

definition cl_ctx_seg1_send :: "client_env \<Rightarrow> nat \<Rightarrow> tx_src \<Rightarrow> u32 \<Rightarrow> bool \<Rightarrow> mqtt_lib \<Rightarrow> (i32 \<times> mqtt_lib) option" where
  "cl_ctx_seg1_send env c src len is_conn_msg s = do {
     x \<leftarrow> ml_ctxs s c;
     if is_conn_msg = cl_is_connected x then Some (MQP_ERR_NOTCONN, s)
     else do {
       d \<leftarrow> ml_clients s c;
       if TX_PART_BUF_SZ (cd_tx_part d) \<noteq> 0 then Some (MQP_ERR_BADCALL, s)
       else do {
         (_, tx) \<leftarrow> tx_part_setup src len (cd_tx_part d);
         s \<leftarrow> cd_upd (\<lambda>d. d\<lparr>cd_tx_part := tx\<rparr>) c s;
         cl_ctx_part_send env c s } } }"

definition mqtt_client_send_progress :: "client_env \<Rightarrow> ptr \<Rightarrow> mqtt_lib \<Rightarrow> (i32 \<times> mqtt_lib) option" where
  "mqtt_client_send_progress env ctx s =
     (case ctx of
        None \<Rightarrow> Some (MQP_ERR_FNPARAM, s)
      | Some c \<Rightarrow> do {
          d \<leftarrow> ml_clients s c;
          if TX_PART_BUF_SZ (cd_tx_part d) = 0 then Some (MQP_ERR_BADCALL, s)
          else do {
            (rv, s) \<leftarrow> cl_ctx_part_send env c s;
            d \<leftarrow> ml_clients s c;
            Some (if 0 < rv then uint (TX_PART_BUF_SZ (cd_tx_part d)) else rv, s) } })"

end
