(* ===== verification/ClientMsg.thy ===== *)
theory ClientMsg
  imports ClientLib
begin

text \<open>
  The messages that a client sends (\<open>netapps/mqtt/client/mqtt_client.c\<close>): CONNECT, PUBLISH,
  SUBSCRIBE, UNSUBSCRIBE, PINGREQ, DISCONNECT, and the short acknowledgments.
\<close>

section \<open>CONNECT\<close>

text \<open>
  The loop of \<open>wr_connect_pl\<close> over the remaining elements of \<open>conn_pl_utf8s\<close>, each with its index
  and its flag: the region, the position and \<open>*conn_opts\<close>. \<open>len\<close> is an \<open>u16\<close>.
\<close>

fun wr_connect_pl_loop :: "(nat \<times> u8 \<times> utf8_string option) list \<Rightarrow> nat \<Rightarrow> u32 \<Rightarrow> u8 list \<Rightarrow> nat \<Rightarrow> u8 \<Rightarrow>
    (i32 \<times> u8 list \<times> u8) option" where
  "wr_connect_pl_loop [] ref fsz buf d conn_opts = Some (int d - int ref, buf, conn_opts)"
| "wr_connect_pl_loop ((i, sel, utf8) # us) ref fsz buf d conn_opts =
     (if utf8 = None \<and> i \<noteq> 0 \<and> \<not> (i = 2 \<and> conn_opts AND WILL_CONFIG_VAL \<noteq> 0)
      then wr_connect_pl_loop us ref fsz buf d conn_opts
      else
        let len = (2 :: u16) + (case utf8 of None \<Rightarrow> 0 | Some u \<Rightarrow> u_length u) in
        if fsz < of_nat (d - ref) + ucast len then Some (MQP_ERR_PKT_LEN, buf, conn_opts)
        else do {
          (n, buf) \<leftarrow> (if len = 2 then do { b \<leftarrow> buf_wr_nbo_2B buf d 0; Some (2, b) }
                     else do { u \<leftarrow> utf8; buf_wr_utf8 buf d u });
          wr_connect_pl_loop us ref fsz buf (d + n) (conn_opts OR sel) })"

definition utf8_sel :: "u8 list" where
  "utf8_sel = [0x00, WILL_CONFIG_VAL, 0x00, USER_NAME_OPVAL, PASS_WORD_OPVAL]"

definition wr_connect_pl :: "client_desc \<Rightarrow> u8 list \<Rightarrow> nat \<Rightarrow> u32 \<Rightarrow> u8 \<Rightarrow> (i32 \<times> u8 list \<times> u8) option" where
  "wr_connect_pl client buf d fsz conn_opts =
     wr_connect_pl_loop (zip [0..<5] (zip utf8_sel (cd_conn_pl_utf8s client))) d fsz buf d conn_opts"

definition mqtt310 :: "u8 list" where "mqtt310 = [0x00, 0x06, 0x4D, 0x51, 0x49, 0x73, 0x64, 0x70, 0x03]"
definition mqtt311 :: "u8 list" where "mqtt311 = [0x00, 0x04, 0x4D, 0x51, 0x54, 0x54, 0x04]"

definition get_connect_vh_len :: "client_ctx \<Rightarrow> u16" where
  "get_connect_vh_len x = of_nat (length (if IS_PROTO_VER31 x then mqtt310 else mqtt311)) + 3"

definition wr_connect_vh :: "client_ctx \<Rightarrow> u8 list \<Rightarrow> nat \<Rightarrow> u16 \<Rightarrow> u8 \<Rightarrow> (i32 \<times> u8 list) option" where
  "wr_connect_vh x buf d ka_secs conn_opts = do {
     let info = (if IS_PROTO_VER31 x then mqtt310 else mqtt311);
     let n = length info;
     buf \<leftarrow> buf_wr_nbytes buf d info n;
     buf \<leftarrow> buf_put buf (d + n) conn_opts;
     buf \<leftarrow> buf_wr_nbo_2B buf (d + n + 1) ka_secs;
     Some (int (n + 3), buf) }"

abbreviation DEV_NETCONN_OPT_TCP :: u32 where "DEV_NETCONN_OPT_TCP \<equiv> 0x01"
abbreviation DEV_NETCONN_OPT_UDP :: u32 where "DEV_NETCONN_OPT_UDP \<equiv> 0x02"

definition net_connect :: "client_env \<Rightarrow> nat \<Rightarrow> mqtt_lib \<Rightarrow> (i32 \<times> mqtt_lib) option" where
  "net_connect env c s = do {
     x \<leftarrow> ml_ctxs s c;
     d \<leftarrow> ml_clients s c;
     if CL_NEED_NET_CLOSE x then Some (MQP_ERR_NOT_DEF, s)
     else if \<not> ml_net_ops s then Some (MQP_ERR_NET_OPS, s)
     else do {
       let opts = cd_nwconn_opts d OR DEV_NETCONN_OPT_TCP;
       let net = ce_open env (ml_trace s) opts (cd_server_addr d) (cd_port_number d) (Some (cd_nw_security d));
       s \<leftarrow> mx_upd (cx_net_update (\<lambda>_. net)) c (ml_log (ClOpen opts (cd_server_addr d) (cd_port_number d) net) s);
       Some (if net = - 1 then MQP_ERR_NETWORK else 0, s) } }"

definition cl_ctx_conn_state_try :: "client_env \<Rightarrow> nat \<Rightarrow> tx_src \<Rightarrow> u32 \<Rightarrow> u16 \<Rightarrow> bool \<Rightarrow> mqtt_lib \<Rightarrow> (i32 \<times> mqtt_lib) option" where
  "cl_ctx_conn_state_try env c src len ka_secs clean_session s = do {
     (rv, s) \<leftarrow> net_connect env c s;
     if rv < 0 then Some (rv, s)
     else do {
       x \<leftarrow> ml_ctxs s c;
       (rv, s) \<leftarrow> (if \<not> ml_init_done s \<or> AWAITS_CONNACK x then Some (MQP_ERR_BADCALL, s)
                  else cl_ctx_seg1_send env c src len True s);
       if rv < 0 then Some (rv, s)
       else do {
         let (now, s) = ml_time env s;
         s \<leftarrow> mx_upd (cx_timeout_update (\<lambda>_. now)) c s;
         s \<leftarrow> mx_upd (cx_set (DO_CONNACK_TO_FLAG OR CONNACK_AWAIT_FLAG)) c s;
         s \<leftarrow> mx_upd (cx_set (if clean_session then CLEAN_SESSION_FLAG else 0)) c s;
         s \<leftarrow> mx_upd (cx_ka_secs_update (\<lambda>_. ka_secs)) c s;
         x \<leftarrow> ml_ctxs s c;
         if A_GROUP_MEMBER x then do {
           let old = ml_conn_ctxs s;
           s \<leftarrow> mx_upd (cx_next_update (\<lambda>_. old)) c s;
           let s = s\<lparr>ml_conn_ctxs := Some c\<rparr>;
           Some (if old = None then loopb_port_trigger env s else (rv, s)) }
         else Some (rv, s) } } }"

definition connect_msg_send :: "client_env \<Rightarrow> nat \<Rightarrow> bool \<Rightarrow> u16 \<Rightarrow> mqtt_lib \<Rightarrow> (i32 \<times> mqtt_lib) option" where
  "connect_msg_send env c clean_session ka_secs s = do {
     (r, s) \<leftarrow> mqp_client_send_alloc MQTT_CONNECT s;
     x \<leftarrow> ml_ctxs s c;
     d \<leftarrow> ml_clients s c;
     let vhl = get_connect_vh_len x;
     case r of
       None \<Rightarrow> Some (MQP_ERR_PKT_AVL, s)
     | Some a \<Rightarrow> do {
         m \<leftarrow> ml_heap s a;
         let fsz = MQP_FREEBUF_LEN m;
         if fsz < ucast vhl then do { s \<leftarrow> cl_mqp_free a s; Some (MQP_ERR_PKT_LEN, s) }
         else do {
           let m = m\<lparr>p_vh_len := vhl\<rparr>;
           let ref = MQP_PAYLOAD_BUF m;
           (rv, b, opts) \<leftarrow> wr_connect_pl d (p_buffer m) ref (fsz - ucast vhl) (if clean_session then CLEAN_START_VAL else 0);
           if rv < 0 then do { s \<leftarrow> cl_mqp_free a (pk_put a (m\<lparr>p_buffer := b\<rparr>) s); Some (rv, s) }
           else do {
             let m = m\<lparr>p_pl_len := word_of_int rv\<rparr>;
             (_, b) \<leftarrow> wr_connect_vh x b (ref - unat vhl) ka_secs (cd_will_opts d OR opts);
             (_, m) \<leftarrow> mqp_prep_fh (m\<lparr>p_buffer := b\<rparr>) (MAKE_FH_FLAGS False MQTT_QOS0 False);
             let d0 = MQP_FHEADER_BUF m;
             cl_ctx_conn_state_try env c (TxMqp a d0) (of_nat (ref + nat rv - d0)) ka_secs clean_session (pk_put a m s) } } } }"

definition mqtt_connect_msg_send :: "client_env \<Rightarrow> ptr \<Rightarrow> bool \<Rightarrow> u16 \<Rightarrow> mqtt_lib \<Rightarrow> (i32 \<times> mqtt_lib) option" where
  "mqtt_connect_msg_send env ctx clean_session ka_secs s =
     (case ctx of None \<Rightarrow> Some (- 1, s) | Some c \<Rightarrow> connect_msg_send env c clean_session ka_secs s)"

section \<open>PUBLISH, SUBSCRIBE, UNSUBSCRIBE\<close>

definition cl_wlist_append :: "nat \<Rightarrow> nat \<Rightarrow> mqtt_lib \<Rightarrow> mqtt_lib option" where
  "cl_wlist_append c a s = do {
     d \<leftarrow> ml_clients s c;
     (h, wl) \<leftarrow> mqp_ack_wlist_append (ml_heap s) (cd_qos_ack1_wl d) a;
     cd_upd (\<lambda>d. d\<lparr>cd_qos_ack1_wl := wl\<rparr>) c (s\<lparr>ml_heap := h\<rparr>) }"

definition msg_dispatch :: "client_env \<Rightarrow> nat \<Rightarrow> nat \<Rightarrow> mqtt_qos \<Rightarrow> bool \<Rightarrow> mqtt_lib \<Rightarrow> (i32 \<times> mqtt_lib) option" where
  "msg_dispatch env c a qos retain s = do {
     let not_qos0 = (MQTT_QOS0 \<noteq> qos);
     m \<leftarrow> ml_heap s a;
     let msg_id = p_msg_id m;
     (_, m) \<leftarrow> mqp_prep_fh m (MAKE_FH_FLAGS False qos retain);
     let m = (if not_qos0 then m\<lparr>p_n_refs := p_n_refs m + 1\<rparr> else m);
     (rv, s) \<leftarrow> cl_ctx_seg1_send env c (TxMqp a (MQP_FHEADER_BUF m)) (MQP_CONTENT_LEN m) False (pk_put a m s);
     if rv \<le> 0 \<and> not_qos0 then do { s \<leftarrow> cl_mqp_free a s; Some (rv, s) }
     else do {
       s \<leftarrow> (if not_qos0 then cl_wlist_append c a s else Some s);
       Some (uint msg_id, s) } }"

definition msg_dispatch_no_free :: "client_env \<Rightarrow> ptr \<Rightarrow> ptr \<Rightarrow> mqtt_qos \<Rightarrow> bool \<Rightarrow> mqtt_lib \<Rightarrow> (i32 \<times> mqtt_lib) option" where
  "msg_dispatch_no_free env ctx mqp qos retain s =
     (case (ctx, mqp) of
        (Some c, Some a) \<Rightarrow> do {
          m \<leftarrow> ml_heap s a;
          msg_dispatch env c a qos retain (pk_put a (m\<lparr>p_n_refs := p_n_refs m + 1\<rparr>) s) }
      | _ \<Rightarrow> Some (MQP_ERR_FNPARAM, s))"

text \<open>A missing buffer is the empty list.\<close>

definition is_valid_utf8_string :: "utf8_string \<Rightarrow> bool" where
  "is_valid_utf8_string u \<longleftrightarrow> 0 < u_length u \<and> u_buffer u \<noteq> []"

text \<open>\<open>len_err_free_mqp\<close> of the client.\<close>

definition cl_len_err_free :: "nat \<Rightarrow> mqtt_lib \<Rightarrow> (i32 \<times> mqtt_lib) option" where
  "cl_len_err_free a s = do { s \<leftarrow> cl_mqp_free a s; Some (MQP_ERR_PKT_LEN, s) }"

definition mqtt_client_pub_msg_send ::
  "client_env \<Rightarrow> ptr \<Rightarrow> utf8_string option \<Rightarrow> u8 list option \<Rightarrow> u32 \<Rightarrow> mqtt_qos \<Rightarrow> bool \<Rightarrow> mqtt_lib \<Rightarrow> (i32 \<times> mqtt_lib) option" where
  "mqtt_client_pub_msg_send env ctx topic data_buf data_len qos retain s =
     (case (ctx, topic) of
        (Some c, Some topic) \<Rightarrow>
          if 0 < data_len \<and> data_buf = None then Some (MQP_ERR_FNPARAM, s)
          else if \<not> is_valid_utf8_string topic then Some (MQP_ERR_CONTENT, s)
          else do {
            (r, s) \<leftarrow> mqp_client_send_alloc MQTT_PUBLISH s;
            case r of
              None \<Rightarrow> Some (MQP_ERR_PKT_AVL, s)
            | Some a \<Rightarrow> do {
                m \<leftarrow> ml_heap s a;
                let (mid, s) = (if qos \<noteq> 0 then assign_new_msg_id s else (0, s));
                (rv, m) \<leftarrow> mqp_pub_append_topic m topic mid;
                if rv < 0 then cl_len_err_free a (pk_put a m s)
                else do {
                  (rv, m) \<leftarrow> (if data_len \<noteq> 0 then do { b \<leftarrow> data_buf; mqp_pub_append_data m b data_len } else Some (0, m));
                  if rv < 0 then cl_len_err_free a (pk_put a m s)
                  else msg_dispatch env c a qos retain (pk_put a m s) } } }
      | _ \<Rightarrow> Some (MQP_ERR_FNPARAM, s))"

definition mqtt_client_pub_dispatch :: "client_env \<Rightarrow> ptr \<Rightarrow> ptr \<Rightarrow> mqtt_qos \<Rightarrow> bool \<Rightarrow> mqtt_lib \<Rightarrow> (i32 \<times> mqtt_lib) option" where
  "mqtt_client_pub_dispatch env ctx mqp qos retain s = msg_dispatch_no_free env ctx mqp qos retain s"

definition tail_incorp_msg_id :: "mqtt_packet \<Rightarrow> mqtt_lib \<Rightarrow> (nat \<times> mqtt_packet \<times> mqtt_lib) option" where
  "tail_incorp_msg_id m s =
     (if p_msg_id m = 0 then do {
        let (mid, s) = assign_new_msg_id s;
        b \<leftarrow> buf_wr_nbo_2B (p_buffer m) (MQP_FHEADER_BUF m + unat (p_vh_len m)) mid;
        Some (2, m\<lparr>p_msg_id := mid, p_buffer := b, p_vh_len := p_vh_len m + 2\<rparr>, s) }
      else Some (0, m, s))"

text \<open>
  The guard of the space, \<open>fsz < (topic->length + 2 + (QFL_VALUE == qid)? 0 : 1)\<close>, is
  \<open>fsz < ((topic->length + 2 + (QFL_VALUE == qid))? 0 : 1)\<close> in C.
\<close>

definition buf_utf8_wr_try :: "u8 list \<Rightarrow> nat \<Rightarrow> u32 \<Rightarrow> utf8_string \<Rightarrow> u8 \<Rightarrow> (i32 \<times> u8 list) option" where
  "buf_utf8_wr_try buf d fsz topic qid =
     (if fsz < (if (ucast (u_length topic) + 2 + of_bool (QFL_VALUE = qid) :: u32) \<noteq> 0 then 0 else 1)
      then Some (MQP_ERR_PKT_LEN, buf)
      else if \<not> is_valid_utf8_string topic then Some (MQP_ERR_CONTENT, buf)
      else do {
        (n, buf) \<leftarrow> buf_wr_utf8 buf d topic;
        if QFL_VALUE \<noteq> qid then do { buf \<leftarrow> buf_put buf (d + n) qid; Some (int (n + 1), buf) }
        else Some (int n, buf) })"

fun utf8_array_loop :: "(utf8_string \<times> u8) list \<Rightarrow> nat \<Rightarrow> u8 list \<Rightarrow> nat \<Rightarrow> (i32 \<times> u8 list \<times> nat) option" where
  "utf8_array_loop [] lim buf d = Some (0, buf, d)"
| "utf8_array_loop ((topic, qid) # ts) lim buf d = do {
     (rv, buf) \<leftarrow> buf_utf8_wr_try buf d (of_int (int lim - int d)) topic qid;
     if rv < 0 then Some (rv, buf, d) else utf8_array_loop ts lim buf (d + nat rv) }"

text \<open>The message of the given type for topics with their QoS (\<open>QFL_VALUE\<close> for UNSUBSCRIBE).\<close>

definition utf8_array_send :: "client_env \<Rightarrow> ptr \<Rightarrow> utf8_strqos list option \<Rightarrow> utf8_string list option \<Rightarrow> mqtt_lib \<Rightarrow> (i32 \<times> mqtt_lib) option" where
  "utf8_array_send env ctx subsc_vec unsub_vec s =
     (let topics = (case (subsc_vec, unsub_vec) of
           (Some v, None) \<Rightarrow> map (\<lambda>q. (\<lparr>u_buffer = q_buffer q, u_length = q_length q\<rparr>, q_qosreq q)) v
         | (None, Some v) \<Rightarrow> map (\<lambda>t. (t, QFL_VALUE)) v
         | _ \<Rightarrow> []) in
      case ctx of
        None \<Rightarrow> Some (MQP_ERR_FNPARAM, s)
      | Some c \<Rightarrow>
          if topics = [] then Some (MQP_ERR_FNPARAM, s)
          else do {
            (r, s) \<leftarrow> mqp_client_send_alloc (if subsc_vec \<noteq> None then MQTT_SUBSCRIBE else MQTT_UNSUBSCRIBE) s;
            case r of
              None \<Rightarrow> Some (MQP_ERR_PKT_AVL, s)
            | Some a \<Rightarrow> do {
                m \<leftarrow> ml_heap s a;
                let buf = MQP_VHEADER_BUF m;
                let lim = buf + unat (MQP_FREEBUF_LEN m);
                if lim - buf < 2 then cl_len_err_free a s
                else do {
                  (n, m, s) \<leftarrow> tail_incorp_msg_id m s;
                  let ref = buf + n;
                  (rv, b, d) \<leftarrow> utf8_array_loop topics lim (p_buffer m) ref;
                  if rv < 0 then do { s \<leftarrow> cl_mqp_free a (pk_put a (m\<lparr>p_buffer := b\<rparr>) s); Some (rv, s) }
                  else msg_dispatch env c a MQTT_QOS1 False (pk_put a (m\<lparr>p_buffer := b, p_pl_len := of_nat (d - ref)\<rparr>) s) } } })"

definition mqtt_sub_msg_send :: "client_env \<Rightarrow> ptr \<Rightarrow> utf8_strqos list option \<Rightarrow> mqtt_lib \<Rightarrow> (i32 \<times> mqtt_lib) option" where
  "mqtt_sub_msg_send env ctx qos_topics s = utf8_array_send env ctx qos_topics None s"

definition mqtt_sub_dispatch :: "client_env \<Rightarrow> ptr \<Rightarrow> ptr \<Rightarrow> mqtt_lib \<Rightarrow> (i32 \<times> mqtt_lib) option" where
  "mqtt_sub_dispatch env ctx mqp s = msg_dispatch_no_free env ctx mqp MQTT_QOS1 False s"

definition mqtt_unsub_msg_send :: "client_env \<Rightarrow> ptr \<Rightarrow> utf8_string list option \<Rightarrow> mqtt_lib \<Rightarrow> (i32 \<times> mqtt_lib) option" where
  "mqtt_unsub_msg_send env ctx topics s = utf8_array_send env ctx None topics s"

definition mqtt_unsub_dispatch :: "client_env \<Rightarrow> ptr \<Rightarrow> ptr \<Rightarrow> mqtt_lib \<Rightarrow> (i32 \<times> mqtt_lib) option" where
  "mqtt_unsub_dispatch env ctx mqp s = msg_dispatch_no_free env ctx mqp MQTT_QOS1 False s"

section \<open>Short messages\<close>

text \<open>\<open>vh_msg_send\<close> of the client.\<close>

definition cl_vh_msg_send :: "client_env \<Rightarrow> nat \<Rightarrow> u8 \<Rightarrow> mqtt_qos \<Rightarrow> bool \<Rightarrow> u16 \<Rightarrow> mqtt_lib \<Rightarrow> (i32 \<times> mqtt_lib) option" where
  "cl_vh_msg_send env c msg_type qos has_vh vh_data s =
     (let buf = [MAKE_FH_BYTE1 msg_type (MAKE_FH_FLAGS False qos False), if has_vh then 2 else 0]
                @ (if has_vh then [hi8 vh_data, lo8 vh_data] else [])
      in cl_ctx_seg1_send env c (TxLocal buf) (of_nat (length buf)) False s)"

definition pingreq_send :: "client_env \<Rightarrow> nat \<Rightarrow> u32 \<Rightarrow> mqtt_lib \<Rightarrow> (i32 \<times> mqtt_lib) option" where
  "pingreq_send env c rsp_flag s = do {
     let buf = [MAKE_FH_BYTE1 MQTT_PINGREQ (MAKE_FH_FLAGS False MQTT_QOS0 False), 0];
     (rv, s) \<leftarrow> cl_ctx_seg1_send env c (TxLocal buf) 2 False s;
     s \<leftarrow> (if 0 < rv then mx_upd (cx_set rsp_flag) c s else Some s);
     Some (rv, s) }"

definition mqtt_pingreq_send :: "client_env \<Rightarrow> nat \<Rightarrow> mqtt_lib \<Rightarrow> (i32 \<times> mqtt_lib) option" where
  "mqtt_pingreq_send env c s = pingreq_send env c USER_PING_RSP_FLAG s"

definition mqtt_disconn_send :: "client_env \<Rightarrow> nat \<Rightarrow> mqtt_lib \<Rightarrow> (i32 \<times> mqtt_lib) option" where
  "mqtt_disconn_send env c s = do {
     let buf = [MAKE_FH_BYTE1 MQTT_DISCONNECT (MAKE_FH_FLAGS False MQTT_QOS0 False), 0];
     (rv, s) \<leftarrow> cl_ctx_seg1_send env c (TxLocal buf) 2 False s;
     s \<leftarrow> (if 0 < rv then cl_net_close_tx env c s else Some s);
     Some (0, s) }"

end
