(* ===== verification/ClientRx.thy ===== *)
theory ClientRx
  imports ClientMsg
begin

text \<open>
  The reception half of \<open>netapps/mqtt/client/mqtt_client.c\<close>: the handlers of the packets from the
  server, the keep-alive sequence, and the receive loops for a single context and for the group.
\<close>

section \<open>Resumption of a session\<close>

partial_function (option) cl_ack1_loop :: "client_env \<Rightarrow> nat \<Rightarrow> ptr \<Rightarrow> mqtt_lib \<Rightarrow> (bool \<times> mqtt_lib) option" where
  "cl_ack1_loop env c mqp s =
     (case mqp of
        None \<Rightarrow> Some (True, s)
      | Some a \<Rightarrow> do {
          m \<leftarrow> ml_heap s a;
          let d = MQP_FHEADER_BUF m;
          b0 \<leftarrow> buf_get (p_buffer m) d;
          let b0 = b0 OR DUP_FLAG_VAL True;
          b \<leftarrow> buf_put (p_buffer m) d b0;
          let m = m\<lparr>p_buffer := b, p_fh_byte1 := b0, p_n_refs := p_n_refs m + 1\<rparr>;
          (rv, s) \<leftarrow> cl_ctx_seg1_send env c (TxMqp a d) (MQP_CONTENT_LEN m) False (pk_put a m s);
          if rv \<le> 0 then Some (False, s)
          else do { m \<leftarrow> ml_heap s a; cl_ack1_loop env c (p_next m) s } })"

definition cl_ack1_dispatch :: "client_env \<Rightarrow> nat \<Rightarrow> mqtt_lib \<Rightarrow> (bool \<times> mqtt_lib) option" where
  "cl_ack1_dispatch env c s = do { d \<leftarrow> ml_clients s c; cl_ack1_loop env c (wl_head (cd_qos_ack1_wl d)) s }"

text \<open>The rounds of \<open>ack2_msg_id_dispatch\<close> for the remaining indices.\<close>

fun cl_ack2_loop :: "client_env \<Rightarrow> nat \<Rightarrow> nat list \<Rightarrow> mqtt_lib \<Rightarrow> (bool \<times> mqtt_lib) option" where
  "cl_ack2_loop env c [] s = Some (True, s)"
| "cl_ack2_loop env c (i # is) s = do {
     d \<leftarrow> ml_clients s c;
     mid \<leftarrow> buf_get (cq_id_vec (cd_qos2_tx_cq d)) i;
     (rv, s) \<leftarrow> cl_vh_msg_send env c MQTT_PUBREL MQTT_QOS1 True mid s;
     if rv \<le> 0 then Some (False, s) else cl_ack2_loop env c is s }"

definition cl_ack2_dispatch :: "client_env \<Rightarrow> nat \<Rightarrow> mqtt_lib \<Rightarrow> (bool \<times> mqtt_lib) option" where
  "cl_ack2_dispatch env c s = do {
     d \<leftarrow> ml_clients s c;
     let cq = cd_qos2_tx_cq d;
     cl_ack2_loop env c [unat (cq_rd_idx cq)..<MAX_PUBREL_INFLT - unat (cq_n_free cq)] s }"

definition cl_session_resume :: "client_env \<Rightarrow> nat \<Rightarrow> mqtt_lib \<Rightarrow> mqtt_lib option" where
  "cl_session_resume env c s = do {
     (ok, s) \<leftarrow> cl_ack1_dispatch env c s;
     if ok then map_option snd (cl_ack2_dispatch env c s) else Some s }"

section \<open>Acknowledgments\<close>

definition cl_notify :: "nat \<Rightarrow> u8 \<Rightarrow> u16 \<Rightarrow> u8 list \<Rightarrow> mqtt_lib \<Rightarrow> mqtt_lib option" where
  "cl_notify c msg_type msg_id data s = do {
     d \<leftarrow> ml_clients s c;
     Some (case cd_ack_notify d of None \<Rightarrow> s | Some f \<Rightarrow> ml_log (ClAckNotify f (cd_app d) msg_type msg_id data) s) }"

definition cl_ack2_unlog :: "nat \<Rightarrow> u16 \<Rightarrow> mqtt_lib \<Rightarrow> (bool \<times> mqtt_lib) option" where
  "cl_ack2_unlog c msg_id s = do {
     d \<leftarrow> ml_clients s c;
     (ok, cq) \<leftarrow> qos2_pub_cq_unlog (cd_qos2_tx_cq d) msg_id;
     s \<leftarrow> cd_upd (\<lambda>d. d\<lparr>cd_qos2_tx_cq := cq\<rparr>) c s;
     if ok then do { s \<leftarrow> cl_notify c MQTT_PUBCOMP msg_id [] s; Some (True, s) } else Some (False, s) }"

definition ack1_wl_rmfree :: "nat \<Rightarrow> u16 \<Rightarrow> mqtt_lib \<Rightarrow> (bool \<times> mqtt_lib) option" where
  "ack1_wl_rmfree c msg_id s = do {
     (r, s) \<leftarrow> cl_wlist_remove c msg_id s;
     case r of None \<Rightarrow> Some (False, s) | Some a \<Rightarrow> do { s \<leftarrow> cl_mqp_free a s; Some (True, s) } }"

definition cl_pub_rec_rx :: "client_env \<Rightarrow> nat \<Rightarrow> u16 \<Rightarrow> mqtt_lib \<Rightarrow> (bool \<times> mqtt_lib) option" where
  "cl_pub_rec_rx env c msg_id s = do {
     d \<leftarrow> ml_clients s c;
     a \<leftarrow> wl_head (cd_qos_ack1_wl d);
     m \<leftarrow> ml_heap s a;
     if msg_id = p_msg_id m then do {
       (ok, cq) \<leftarrow> qos2_pub_cq_logup (cd_qos2_tx_cq d) msg_id;
       s \<leftarrow> cd_upd (\<lambda>d. d\<lparr>cd_qos2_tx_cq := cq\<rparr>) c s;
       if ok then do {
         (_, s) \<leftarrow> ack1_wl_rmfree c msg_id s;
         (_, s) \<leftarrow> cl_vh_msg_send env c MQTT_PUBREL MQTT_QOS1 True msg_id s;
         Some (True, s) }
       else Some (False, s) }
     else Some (False, s) }"

definition cl_pub_rel_rx :: "client_env \<Rightarrow> nat \<Rightarrow> u16 \<Rightarrow> mqtt_lib \<Rightarrow> (bool \<times> mqtt_lib) option" where
  "cl_pub_rel_rx env c msg_id s = do {
     (_, s) \<leftarrow> cl_vh_msg_send env c MQTT_PUBCOMP MQTT_QOS0 True msg_id s;
     d \<leftarrow> ml_clients s c;
     done \<leftarrow> qos2_pub_cq_check (cd_qos2_rx_cq d) msg_id;
     s \<leftarrow> (if done then do {
             (_, cq) \<leftarrow> qos2_pub_cq_unlog (cd_qos2_rx_cq d) msg_id;
             cd_upd (\<lambda>d. d\<lparr>cd_qos2_rx_cq := cq\<rparr>) c s }
           else Some s);
     Some (True, s) }"

text \<open>The bytes of a packet from position \<open>d\<close> on that a call-back is given.\<close>

definition pk_bytes :: "mqtt_packet \<Rightarrow> nat \<Rightarrow> nat \<Rightarrow> u8 list option" where
  "pk_bytes m d n = (if d + n \<le> length (p_buffer m) then Some (take n (drop d (p_buffer m))) else None)"

definition cl_ack_msg_rx :: "nat \<Rightarrow> mqtt_packet \<Rightarrow> mqtt_lib \<Rightarrow> (bool \<times> mqtt_lib) option" where
  "cl_ack_msg_rx c mqp s = do {
     (ok, s) \<leftarrow> ack1_wl_rmfree c (p_msg_id mqp) s;
     if \<not> ok then Some (False, s)
     else do {
       data \<leftarrow> pk_bytes mqp (MQP_PAYLOAD_BUF mqp) (unat (p_pl_len mqp));
       s \<leftarrow> cl_notify c (p_msg_type mqp) (p_msg_id mqp) data s;
       Some (True, s) } }"

text \<open>\<open>MQP_RX_DO_NOT_RPT_SET\<close> and \<open>MQP_RX_DO_NOT_RPT_COR\<close> on the packet at \<open>a\<close>.\<close>

definition mqp_do_not_rpt_set :: "nat \<Rightarrow> mqtt_lib \<Rightarrow> mqtt_lib option" where
  "mqp_do_not_rpt_set a s = do { m \<leftarrow> ml_heap s a; Some (pk_put a (m\<lparr>p_private := 1\<rparr>) s) }"

definition mqp_do_not_report_cor :: "nat \<Rightarrow> mqtt_lib \<Rightarrow> (bool \<times> mqtt_lib) option" where
  "mqp_do_not_report_cor a s = do { m \<leftarrow> ml_heap s a; Some (p_private m = 1, pk_put a (m\<lparr>p_private := 0\<rparr>) s) }"

definition cl_proc_ack_rx :: "client_env \<Rightarrow> nat \<Rightarrow> nat \<Rightarrow> mqtt_lib \<Rightarrow> (bool \<times> mqtt_lib) option" where
  "cl_proc_ack_rx env c a s = do {
     m \<leftarrow> ml_heap s a;
     let msg_type = p_msg_type m;
     (ok, m) \<leftarrow> mqp_proc_msg_id_ack_rx m (MQTT_SUBACK = msg_type);
     let s = pk_put a m s;
     let msg_id = p_msg_id m;
     if \<not> ok then Some (False, s)
     else if MQTT_PUBREC = msg_type then do {
       (rv, s) \<leftarrow> cl_pub_rec_rx env c msg_id s;
       s \<leftarrow> (if rv then mqp_do_not_rpt_set a s else Some s);
       Some (rv, s) }
     else if MQTT_PUBREL = msg_type then do {
       (rv, s) \<leftarrow> cl_pub_rel_rx env c msg_id s;
       s \<leftarrow> (if rv then mqp_do_not_rpt_set a s else Some s);
       Some (rv, s) }
     else if MQTT_PUBCOMP = msg_type then cl_ack2_unlog c msg_id s
     else cl_ack_msg_rx c m s }"

section \<open>PUBLISH, CONNACK, PINGRSP\<close>

definition cl_proc_pub_rx :: "client_env \<Rightarrow> nat \<Rightarrow> nat \<Rightarrow> mqtt_lib \<Rightarrow> (bool \<times> mqtt_lib) option" where
  "cl_proc_pub_rx env c a s = do {
     m \<leftarrow> ml_heap s a;
     (good_pub, m) \<leftarrow> mqp_proc_pub_rx m;
     let s = pk_put a m s;
     let B = p_fh_byte1 m;
     let qos = ENUM_QOS B;
     let msg_id = p_msg_id m;
     if \<not> good_pub then Some (False, s)
     else do {
       s \<leftarrow> (if MQTT_QOS1 = qos then map_option snd (cl_vh_msg_send env c MQTT_PUBACK MQTT_QOS0 True msg_id s) else Some s);
       (stop, rv, s) \<leftarrow>
         (if MQTT_QOS2 = qos then do {
            d \<leftarrow> ml_clients s c;
            done \<leftarrow> qos2_pub_cq_check (cd_qos2_rx_cq d) msg_id;
            if done then do { s \<leftarrow> mqp_do_not_rpt_set a s; Some (True, True, s) }
            else do {
              (ok, cq) \<leftarrow> qos2_pub_cq_logup (cd_qos2_rx_cq d) msg_id;
              s \<leftarrow> cd_upd (\<lambda>d. d\<lparr>cd_qos2_rx_cq := cq\<rparr>) c s;
              if \<not> ok then Some (True, False, s)
              else do {
                (_, s) \<leftarrow> cl_vh_msg_send env c MQTT_PUBREC MQTT_QOS0 True msg_id s;
                Some (False, True, s) } } }
          else Some (False, True, s));
       if stop then Some (rv, s)
       else do {
         d \<leftarrow> ml_clients s c;
         case cd_publish_rx d of
           None \<Rightarrow> Some (True, s)
         | Some f \<Rightarrow> do {
             m \<leftarrow> ml_heap s a;
             let s = pk_put a (m\<lparr>p_n_refs := p_n_refs m + 1\<rparr>) s;
             let take_back = ce_publish_rx env (ml_trace s) a;
             let s = ml_log (ClPublishRx f (cd_app d) (BOOL_DUP B) qos (BOOL_RETAIN B) a) s;
             m \<leftarrow> ml_heap s a;
             Some (True, if take_back then pk_put a (m\<lparr>p_n_refs := p_n_refs m - 1\<rparr>) s else s) } } } }"

definition proc_connack_rx :: "client_env \<Rightarrow> nat \<Rightarrow> nat \<Rightarrow> mqtt_lib \<Rightarrow> (bool \<times> mqtt_lib) option" where
  "proc_connack_rx env c a s = do {
     m \<leftarrow> ml_heap s a;
     let d = MQP_VHEADER_BUF m;
     let m = m\<lparr>p_vh_len := p_vh_len m + 2, p_pl_len := p_pl_len m - 2\<rparr>;
     let s = pk_put a m s;
     if p_pl_len m \<noteq> 0 then Some (False, s)
     else do {
       s \<leftarrow> mx_upd (cx_clr (DO_CONNACK_TO_FLAG OR CONNACK_AWAIT_FLAG)) c s;
       rc \<leftarrow> buf_get (p_buffer m) (d + 1);
       s \<leftarrow> (if rc \<noteq> 0 then Some s
            else do {
              s \<leftarrow> mx_upd (cx_set NOW_CONNECTED_FLAG) c s;
              let (now, s) = ml_time env s;
              s \<leftarrow> mx_upd (\<lambda>x. cl_ctx_timeout_update x now) c s;
              x \<leftarrow> ml_ctxs s c;
              if IS_CLN_SESSION x then cl_session_delete c s else cl_session_resume env c s });
       data \<leftarrow> pk_bytes m d 2;
       s \<leftarrow> cl_notify c (p_msg_type m) 0 data s;
       Some (True, s) } }"

definition proc_pingrsp_rx :: "nat \<Rightarrow> nat \<Rightarrow> mqtt_lib \<Rightarrow> (bool \<times> mqtt_lib) option" where
  "proc_pingrsp_rx c a s = do {
     m \<leftarrow> ml_heap s a;
     x \<leftarrow> ml_ctxs s c;
     if p_pl_len m \<noteq> 0 then Some (False, s)
     else if AWAITS_KA_PING x then do { s \<leftarrow> mx_upd (cx_clr KA_PINGER_RSP_FLAG) c s; Some (True, s) }
     else if AWAITS_PINGRSP x then do {
       s \<leftarrow> mx_upd (cx_clr USER_PING_RSP_FLAG) c s;
       s \<leftarrow> cl_notify c (p_msg_type m) 0 [] s;
       Some (True, s) }
     else Some (False, s) }"

definition conn_sent_state_rx :: "client_env \<Rightarrow> nat \<Rightarrow> nat \<Rightarrow> mqtt_lib \<Rightarrow> (bool \<times> mqtt_lib) option" where
  "conn_sent_state_rx env c a s = do {
     m \<leftarrow> ml_heap s a;
     if p_msg_type m = MQTT_CONNACK then proc_connack_rx env c a s else Some (False, s) }"

definition connected_state_rx :: "client_env \<Rightarrow> nat \<Rightarrow> nat \<Rightarrow> mqtt_lib \<Rightarrow> (bool \<times> mqtt_lib) option" where
  "connected_state_rx env c a s = do {
     m \<leftarrow> ml_heap s a;
     if p_msg_type m \<in> {MQTT_SUBACK, MQTT_PUBACK, MQTT_PUBREC, MQTT_PUBREL, MQTT_PUBCOMP, MQTT_UNSUBACK}
     then cl_proc_ack_rx env c a s
     else if p_msg_type m = MQTT_PINGRSP then proc_pingrsp_rx c a s
     else if p_msg_type m = MQTT_PUBLISH then cl_proc_pub_rx env c a s
     else Some (False, s) }"

definition cl_process_recv :: "client_env \<Rightarrow> nat \<Rightarrow> nat \<Rightarrow> mqtt_lib \<Rightarrow> (bool \<times> mqtt_lib) option" where
  "cl_process_recv env c a s = do {
     x \<leftarrow> ml_ctxs s c;
     if AWAITS_CONNACK x then conn_sent_state_rx env c a s else connected_state_rx env c a s }"

section \<open>Reception\<close>

text \<open>\<open>net_ops->recv\<close> on one connection, as \<open>mqp_recv\<close> uses it; the state is the history and \<open>*err_timeo\<close>.\<close>

definition cl_recv_fn :: "client_env \<Rightarrow> i32 \<Rightarrow> u32 \<Rightarrow> (cl_trace \<times> bool) recv_fn" where
  "cl_recv_fn env net wait_secs = (\<lambda>(tr, to) len.
     case ce_recv env tr net len wait_secs of (rv, bs, to') \<Rightarrow> (rv, bs, (ClRecv net len rv # tr, to')))"

definition cl_net_recv :: "client_env \<Rightarrow> i32 \<Rightarrow> nat \<Rightarrow> u32 \<Rightarrow> mqtt_lib \<Rightarrow> (i32 \<times> mqtt_lib) option" where
  "cl_net_recv env net a wait_secs s = do {
     m \<leftarrow> ml_heap s a;
     (rv, m, tr, timed_out) \<leftarrow> mqp_recv (cl_recv_fn env net wait_secs) m (ml_trace s, False);
     let s = (pk_put a m s)\<lparr>ml_trace := tr\<rparr>;
     Some (if rv \<le> 0 \<and> timed_out then MQP_ERR_TIMEOUT else rv, s) }"

definition proc_ctx_data_recv :: "client_env \<Rightarrow> nat \<Rightarrow> nat \<Rightarrow> u32 \<Rightarrow> mqtt_lib \<Rightarrow> (i32 \<times> ptr \<times> mqtt_lib) option" where
  "proc_ctx_data_recv env c a wait_secs s = do {
     x \<leftarrow> ml_ctxs s c;
     let app = cx_usr x;
     (rv, s) \<leftarrow> cl_net_recv env (cx_net x) a wait_secs s;
     (rv, s) \<leftarrow> (if 0 < rv then do {
           (ok, s) \<leftarrow> cl_process_recv env c a s;
           Some (if ok then rv else MQP_ERR_CONTENT, s) }
         else Some (rv, s));
     m \<leftarrow> ml_heap s a;
     refused \<leftarrow> (if MQTT_CONNACK = p_msg_type m then map_option (\<lambda>b. b \<noteq> 0) (buf_get (p_buffer m) 3) else Some False);
     s \<leftarrow> (if rv < 0 \<and> rv \<noteq> MQP_ERR_TIMEOUT \<or> refused then cl_net_close_rx env c rv s else Some s);
     Some (rv, app, s) }"

definition cl_mqp_reset :: "nat \<Rightarrow> mqtt_lib \<Rightarrow> mqtt_lib option" where
  "cl_mqp_reset a s = do { m \<leftarrow> ml_heap s a; Some (pk_put a (mqp_reset m) s) }"

text \<open>The result has the new value of \<open>*app\<close>, \<open>None\<close> if it is not written.\<close>

definition mqp_setup_proc_ctx_data_recv ::
  "client_env \<Rightarrow> nat \<Rightarrow> ptr \<Rightarrow> u32 \<Rightarrow> mqtt_lib \<Rightarrow> (i32 \<times> ptr option \<times> mqtt_lib) option" where
  "mqp_setup_proc_ctx_data_recv env c mqp wait_secs s = do {
     d \<leftarrow> ml_clients s c;
     let rx_mqp = cd_rx_mqp d;
     if mqp \<noteq> None \<and> rx_mqp \<noteq> None \<and> mqp \<noteq> rx_mqp then Some (MQP_ERR_FNPARAM, None, s)
     else do {
       s \<leftarrow> (case mqp of Some a \<Rightarrow> if rx_mqp = None then cl_mqp_reset a s else Some s | None \<Rightarrow> Some s);
       (mqp, s) \<leftarrow> (if mqp \<noteq> None then Some (mqp, s)
                   else if rx_mqp \<noteq> None then Some (rx_mqp, s)
                   else mqp_client_recv_alloc 0 s);
       case mqp of
         None \<Rightarrow> Some (MQP_ERR_PKT_AVL, None, s)
       | Some a \<Rightarrow> do {
           (rv, app, s) \<leftarrow> proc_ctx_data_recv env c a wait_secs s;
           s \<leftarrow> (if rv = MQP_ERR_TIMEOUT then cd_upd (\<lambda>d. d\<lparr>cd_rx_mqp := Some a\<rparr>) c s
                else do {
                  s \<leftarrow> cd_upd (\<lambda>d. d\<lparr>cd_rx_mqp := None\<rparr>) c s;
                  m \<leftarrow> ml_heap s a;
                  if p_free_hook m then cl_mqp_free a s else Some s });
           Some (rv, Some app, s) } } }"

section \<open>Keep-alive\<close>

definition single_ctx_ka_sequence :: "client_env \<Rightarrow> nat \<Rightarrow> u32 \<Rightarrow> mqtt_lib \<Rightarrow> (i32 \<times> mqtt_lib) option" where
  "single_ctx_ka_sequence env c wait_secs s = do {
     let (now_secs, s) = ml_time env s;
     x \<leftarrow> ml_ctxs s c;
     s \<leftarrow> (if AWAITS_CONNACK x \<and> CFG_CONNACK_TO x
          then mx_upd (\<lambda>x. cx_clr DO_CONNACK_TO_FLAG (x\<lparr>cx_timeout := cx_timeout x + wait_secs\<rparr>)) c s
          else Some s);
     x \<leftarrow> ml_ctxs s c;
     if now_secs < cx_timeout x then Some (1, s)
     else if cl_is_connected x \<and> \<not> AWAITS_KA_PING x then pingreq_send env c KA_PINGER_RSP_FLAG s
     else Some (- 1, s) }"

definition single_ctx_adj_wait_secs_get :: "client_env \<Rightarrow> nat \<Rightarrow> u32 \<Rightarrow> mqtt_lib \<Rightarrow> (u32 \<times> mqtt_lib) option" where
  "single_ctx_adj_wait_secs_get env c wait_secs s = do {
     x \<leftarrow> ml_ctxs s c;
     if KA_TIMEOUT_NONE \<noteq> cx_timeout x then do {
       let (now, s) = ml_time env s;
       Some (min (cx_timeout x - now) wait_secs, s) }
     else Some (wait_secs, s) }"

text \<open>The result has the new value of \<open>*secs2wait\<close>.\<close>

definition single_ctx_rx_prep :: "client_env \<Rightarrow> nat \<Rightarrow> u32 \<Rightarrow> mqtt_lib \<Rightarrow> (i32 \<times> u32 \<times> mqtt_lib) option" where
  "single_ctx_rx_prep env c secs2wait s = do {
     x \<leftarrow> ml_ctxs s c;
     if cx_net x = - 1 then Some (MQP_ERR_NOTCONN, secs2wait, s)
     else do {
       (rv, s) \<leftarrow> (if CL_NEED_NET_CLOSE x then Some (MQP_ERR_NOTCONN, s)
                  else do {
                    (k, s) \<leftarrow> single_ctx_ka_sequence env c secs2wait s;
                    Some (if k < 0 then MQP_ERR_NETWORK else 1, s) });
       if rv = 1 then do { (w, s) \<leftarrow> single_ctx_adj_wait_secs_get env c secs2wait s; Some (1, w, s) }
       else do { s \<leftarrow> cl_net_close_rx env c rv s; Some (rv, secs2wait, s) } } }"

section \<open>The loops of a single context\<close>

partial_function (option) cl_ctx_recv :: "client_env \<Rightarrow> nat \<Rightarrow> ptr \<Rightarrow> u32 \<Rightarrow> mqtt_lib \<Rightarrow> (i32 \<times> mqtt_lib) option" where
  "cl_ctx_recv env c mqp wait_secs s = do {
     d \<leftarrow> ml_clients s c;
     s \<leftarrow> (case mqp of Some a \<Rightarrow> if cd_rx_mqp d = None then cl_mqp_reset a s else Some s | None \<Rightarrow> Some s);
     (rv, wait_secs, s) \<leftarrow> single_ctx_rx_prep env c wait_secs s;
     (rv, s) \<leftarrow> (if 0 < rv then do { (rv, _, s) \<leftarrow> mqp_setup_proc_ctx_data_recv env c mqp wait_secs s; Some (rv, s) }
                else Some (rv, s));
     case mqp of
       None \<Rightarrow> Some (rv, s)
     | Some a \<Rightarrow>
         if 0 < rv then do {
           (again, s) \<leftarrow> mqp_do_not_report_cor a s;
           if again then cl_ctx_recv env c mqp wait_secs s else Some (rv, s) }
         else Some (rv, s) }"

partial_function (option) await_loop :: "client_env \<Rightarrow> nat \<Rightarrow> u8 \<Rightarrow> nat \<Rightarrow> u32 \<Rightarrow> mqtt_lib \<Rightarrow> (i32 \<times> mqtt_lib) option" where
  "await_loop env c msg_type a wait_secs s = do {
     (rv, s) \<leftarrow> cl_ctx_recv env c (Some a) wait_secs s;
     m \<leftarrow> ml_heap s a;
     if 0 < rv \<and> msg_type \<noteq> 0 \<and> msg_type \<noteq> p_msg_type m then await_loop env c msg_type a wait_secs s
     else Some (rv, s) }"

definition mqtt_client_ctx_await_msg :: "client_env \<Rightarrow> ptr \<Rightarrow> u8 \<Rightarrow> ptr \<Rightarrow> u32 \<Rightarrow> mqtt_lib \<Rightarrow> (i32 \<times> mqtt_lib) option" where
  "mqtt_client_ctx_await_msg env ctx msg_type mqp wait_secs s =
     (case (ctx, mqp) of
        (Some c, Some a) \<Rightarrow> await_loop env c msg_type a wait_secs s
      | _ \<Rightarrow> Some (MQP_ERR_FNPARAM, s))"

partial_function (option) ctx_run_loop :: "client_env \<Rightarrow> nat \<Rightarrow> u32 \<Rightarrow> mqtt_lib \<Rightarrow> (i32 \<times> mqtt_lib) option" where
  "ctx_run_loop env c wait_secs s = do {
     (rv, s) \<leftarrow> cl_ctx_recv env c None wait_secs s;
     if 0 < rv then ctx_run_loop env c wait_secs s else Some (rv, s) }"

definition mqtt_client_ctx_run :: "client_env \<Rightarrow> ptr \<Rightarrow> u32 \<Rightarrow> mqtt_lib \<Rightarrow> (i32 \<times> mqtt_lib) option" where
  "mqtt_client_ctx_run env ctx wait_secs s =
     (case ctx of None \<Rightarrow> Some (MQP_ERR_FNPARAM, s) | Some c \<Rightarrow> ctx_run_loop env c wait_secs s)"

end
