(* ===== verification/ClientRun.thy ===== *)
theory ClientRun
  imports ClientRx
begin

text \<open>
  The group of contexts, the registration of strings and services, and the creation and
  deletion of contexts and of the library (\<open>netapps/mqtt/client/mqtt_client.c\<close>).
\<close>

section \<open>The group\<close>

partial_function (option) conn2used_ctxs :: "mqtt_lib \<Rightarrow> mqtt_lib option" where
  "conn2used_ctxs s =
     (case ml_conn_ctxs s of
        None \<Rightarrow> Some s
      | Some c \<Rightarrow> do {
          x \<leftarrow> ml_ctxs s c;
          s \<leftarrow> used_insert c (s\<lparr>ml_conn_ctxs := cx_next x\<rparr>);
          conn2used_ctxs s })"

text \<open>\<open>group_ctxs_ka_sequence\<close>: the context that is reported, and \<open>wait_secs\<close> is local.\<close>

partial_function (option) group_ka_loop :: "client_env \<Rightarrow> ptr \<Rightarrow> u32 \<Rightarrow> mqtt_lib \<Rightarrow> (ptr \<times> mqtt_lib) option" where
  "group_ka_loop env cl_ctx wait_secs s =
     (case cl_ctx of
        None \<Rightarrow> Some (None, s)
      | Some c \<Rightarrow> do {
          x \<leftarrow> ml_ctxs s c;
          let next = cx_next x;
          (rv, wait_secs, s) \<leftarrow> single_ctx_rx_prep env c wait_secs s;
          if rv < 0 \<and> \<not> ml_grp_has_cbfn s then Some (Some c, s)
          else group_ka_loop env next wait_secs s })"

definition group_ctxs_ka_sequence :: "client_env \<Rightarrow> u32 \<Rightarrow> mqtt_lib \<Rightarrow> (ptr \<times> mqtt_lib) option" where
  "group_ctxs_ka_sequence env wait_secs s = group_ka_loop env (ml_used_ctxs s) wait_secs s"

definition group_ctxs_adj_wait_secs_get :: "client_env \<Rightarrow> u32 \<Rightarrow> mqtt_lib \<Rightarrow> (u32 \<times> mqtt_lib) option" where
  "group_ctxs_adj_wait_secs_get env wait_secs s =
     (case ml_used_ctxs s of None \<Rightarrow> Some (wait_secs, s) | Some c \<Rightarrow> single_ctx_adj_wait_secs_get env c wait_secs s)"

definition CL_MAX_NWCONN :: nat where "CL_MAX_NWCONN = 4"

fun cl_hvec_load :: "ctx_heap \<Rightarrow> i32 list \<Rightarrow> nat \<Rightarrow> nat \<Rightarrow> ptr \<Rightarrow> i32 list option" where
  "cl_hvec_load h hvec i 0 list = buf_put hvec i (- 1)"
| "cl_hvec_load h hvec i (Suc n) list =
     (case list of
        None \<Rightarrow> buf_put hvec i (- 1)
      | Some c \<Rightarrow> do {
          x \<leftarrow> h c;
          hvec \<leftarrow> buf_put hvec i (cx_net x);
          cl_hvec_load h hvec (Suc i) n (cx_next x) })"

definition group_ctxs_rx_prep :: "client_env \<Rightarrow> u32 \<Rightarrow> mqtt_lib \<Rightarrow> (i32 \<times> ptr option \<times> mqtt_lib) option" where
  "group_ctxs_rx_prep env wait_secs s = do {
     (ka, s) \<leftarrow> group_ctxs_ka_sequence env wait_secs s;
     case ka of
       Some c \<Rightarrow> do { d \<leftarrow> ml_clients s c; Some (MQP_ERR_NETWORK, Some (cd_app d), s) }
     | None \<Rightarrow> do {
         s \<leftarrow> conn2used_ctxs s;
         hvec \<leftarrow> buf_put (ml_recv_hvec s) 0 (ml_loopb_net s);
         hvec \<leftarrow> cl_hvec_load (ml_ctxs s) hvec 1 (CL_MAX_NWCONN + 1) (ml_used_ctxs s);
         (wait_secs, s) \<leftarrow> group_ctxs_adj_wait_secs_get env wait_secs s;
         let (n, hvec') = ce_io_mon env (ml_trace s) hvec wait_secs;
         let s = ml_log (ClIoMon hvec wait_secs n) (s\<lparr>ml_recv_hvec := hvec'\<rparr>);
         Some (if n = 0 then MQP_ERR_TIMEOUT else if n < 0 then MQP_ERR_LIBQUIT else n, None, s) } }"

definition cl_loopback_recv :: "client_env \<Rightarrow> i32 \<Rightarrow> mqtt_lib \<Rightarrow> i32 \<times> mqtt_lib" where
  "cl_loopback_recv env net s =
     (let rv = ce_recv_from env (ml_trace s) net; s = ml_log (ClRecvFrom net rv) s
      in if rv \<le> 0 then (MQP_ERR_LIBQUIT, ml_log (ClClose net) s) else (rv, s))"

partial_function (option) cl_find_loop :: "ctx_heap \<Rightarrow> i32 \<Rightarrow> ptr \<Rightarrow> ptr option" where
  "cl_find_loop h net cl_ctx =
     (case cl_ctx of
        None \<Rightarrow> Some None
      | Some c \<Rightarrow> do { x \<leftarrow> h c; if net = cx_net x then Some (Some c) else cl_find_loop h net (cx_next x) })"

definition cl_net_ctx_find :: "i32 \<Rightarrow> mqtt_lib \<Rightarrow> ptr option" where
  "cl_net_ctx_find net s = cl_find_loop (ml_ctxs s) net (ml_used_ctxs s)"

definition cl_net_data_recv :: "client_env \<Rightarrow> i32 \<Rightarrow> ptr \<Rightarrow> mqtt_lib \<Rightarrow> (i32 \<times> ptr option \<times> mqtt_lib) option" where
  "cl_net_data_recv env net mqp s = do {
     r \<leftarrow> cl_net_ctx_find net s;
     case r of
       None \<Rightarrow> Some (MQP_ERR_NOTCONN, None, s)
     | Some c \<Rightarrow> mqp_setup_proc_ctx_data_recv env c mqp 1 s }"

text \<open>The rounds of \<open>cl_recv\<close> for the remaining indices of the active handles; \<open>app\<close> is \<open>*app\<close>.\<close>

fun cl_recv_loop :: "client_env \<Rightarrow> ptr \<Rightarrow> nat list \<Rightarrow> i32 \<Rightarrow> ptr \<Rightarrow> mqtt_lib \<Rightarrow> (i32 \<times> ptr \<times> mqtt_lib) option" where
  "cl_recv_loop env mqp [] rv app s = Some (rv, app, s)"
| "cl_recv_loop env mqp (i # is) rv app s =
     (if rv \<le> 0 then Some (rv, app, s)
      else do {
        net \<leftarrow> buf_get (ml_recv_hvec s) i;
        if ml_loopb_net s = net then (let (rv, s) = cl_loopback_recv env net s in cl_recv_loop env mqp is rv app s)
        else do {
          (rv, app', s) \<leftarrow> cl_net_data_recv env net mqp s;
          let app = (case app' of None \<Rightarrow> app | Some p \<Rightarrow> p);
          if \<not> ml_grp_has_cbfn s then Some (rv, app, s) else cl_recv_loop env mqp is rv app s } })"

definition cl_recv :: "client_env \<Rightarrow> ptr \<Rightarrow> u32 \<Rightarrow> ptr \<Rightarrow> mqtt_lib \<Rightarrow> (i32 \<times> ptr \<times> mqtt_lib) option" where
  "cl_recv env mqp wait_secs app s = do {
     (rv, app', s) \<leftarrow> group_ctxs_rx_prep env wait_secs s;
     cl_recv_loop env mqp [0..<nat rv] rv (case app' of None \<Rightarrow> app | Some p \<Rightarrow> p) s }"

definition grp_net_setup_create :: "client_env \<Rightarrow> mqtt_lib \<Rightarrow> i32 \<times> mqtt_lib" where
  "grp_net_setup_create env s =
     (if ml_loopb_portid s = 0 then (MQP_ERR_NOT_DEF, s)
      else if \<not> ml_net_ops s then (MQP_ERR_NET_OPS, s)
      else if ml_loopb_net s = - 1 then
        (let net = ce_open env (ml_trace s) DEV_NETCONN_OPT_UDP None (ml_loopb_portid s) None;
             s = (ml_log (ClOpen DEV_NETCONN_OPT_UDP None (ml_loopb_portid s) net) s)\<lparr>ml_loopb_net := net\<rparr>
         in (if net = - 1 then MQP_ERR_LIBQUIT else 1, s))
      else (1, s))"

partial_function (option) cl_await_loop :: "client_env \<Rightarrow> nat \<Rightarrow> u32 \<Rightarrow> ptr \<Rightarrow> mqtt_lib \<Rightarrow> (i32 \<times> ptr \<times> mqtt_lib) option" where
  "cl_await_loop env a wait_secs app s = do {
     (rv, app, s) \<leftarrow> cl_recv env (Some a) wait_secs app s;
     if 0 < rv then do {
       (again, s) \<leftarrow> mqp_do_not_report_cor a s;
       if again then cl_await_loop env a wait_secs app s else Some (rv, app, s) }
     else Some (rv, app, s) }"

text \<open>The result has \<open>*app\<close>.\<close>

definition mqtt_client_await_msg :: "client_env \<Rightarrow> ptr \<Rightarrow> u32 \<Rightarrow> mqtt_lib \<Rightarrow> (i32 \<times> ptr \<times> mqtt_lib) option" where
  "mqtt_client_await_msg env mqp wait_secs s =
     (case mqp of
        None \<Rightarrow> Some (MQP_ERR_FNPARAM, None, s)
      | Some a \<Rightarrow>
          if ml_grp_has_cbfn s then Some (MQP_ERR_BADCALL, None, s)
          else let (rv, s) = grp_net_setup_create env s in
            if rv \<le> 0 then Some (rv, None, s) else cl_await_loop env a wait_secs None s)"

partial_function (option) cl_run_loop :: "client_env \<Rightarrow> u32 \<Rightarrow> ptr \<Rightarrow> mqtt_lib \<Rightarrow> (i32 \<times> mqtt_lib) option" where
  "cl_run_loop env wait_secs app s = do {
     (rv, app, s) \<leftarrow> cl_recv env None wait_secs app s;
     if 0 < rv \<or> rv \<noteq> MQP_ERR_LIBQUIT \<and> rv \<noteq> MQP_ERR_TIMEOUT then cl_run_loop env wait_secs app s
     else Some (rv, s) }"

definition mqtt_client_run :: "client_env \<Rightarrow> u32 \<Rightarrow> mqtt_lib \<Rightarrow> (i32 \<times> mqtt_lib) option" where
  "mqtt_client_run env wait_secs s =
     (if \<not> ml_grp_has_cbfn s then Some (MQP_ERR_BADCALL, s)
      else let (rv, s) = grp_net_setup_create env s in
        if rv \<le> 0 then Some (rv, s) else cl_run_loop env wait_secs None s)"

section \<open>Registration\<close>

text \<open>\<open>RET_IF_INVALID_UTF8\<close> on a string that may be missing.\<close>

definition bad_utf8 :: "utf8_string option \<Rightarrow> bool" where
  "bad_utf8 p \<longleftrightarrow> (case p of None \<Rightarrow> False | Some u \<Rightarrow> \<not> is_valid_utf8_string u)"

definition mqtt_client_ctx_will_register ::
  "ptr \<Rightarrow> utf8_string option \<Rightarrow> utf8_string option \<Rightarrow> mqtt_qos \<Rightarrow> bool \<Rightarrow> mqtt_lib \<Rightarrow> (i32 \<times> mqtt_lib) option" where
  "mqtt_client_ctx_will_register ctx will_top will_msg will_qos retain s =
     (case ctx of
        None \<Rightarrow> Some (- 1, s)
      | Some c \<Rightarrow>
          if will_top = None \<and> will_msg \<noteq> None then Some (- 1, s)
          else if will_top \<noteq> None \<and> (bad_utf8 will_top \<or> bad_utf8 will_msg) then Some (- 1, s)
          else do {
            let B = (if will_top = None then 0
                     else push_bit 3 (QOS_VALUE will_qos) OR (if retain then WILL_RETAIN_VAL else 0));
            s \<leftarrow> cd_upd (\<lambda>d. d\<lparr>cd_conn_pl_utf8s := (cd_conn_pl_utf8s d)[1 := will_top, 2 := will_msg], cd_will_opts := B\<rparr>) c s;
            Some (0, s) })"

definition mqtt_client_ctx_info_register ::
  "ptr \<Rightarrow> utf8_string option \<Rightarrow> utf8_string option \<Rightarrow> utf8_string option \<Rightarrow> mqtt_lib \<Rightarrow> (i32 \<times> mqtt_lib) option" where
  "mqtt_client_ctx_info_register ctx client_id user_name pass_word s =
     (case ctx of
        None \<Rightarrow> Some (- 1, s)
      | Some c \<Rightarrow>
          if bad_utf8 client_id \<or> user_name \<noteq> None \<and> (bad_utf8 user_name \<or> bad_utf8 pass_word) then Some (- 1, s)
          else do {
            let users_pwd = (if user_name \<noteq> None then pass_word else None);
            s \<leftarrow> cd_upd (\<lambda>d. d\<lparr>cd_conn_pl_utf8s := (cd_conn_pl_utf8s d)[0 := client_id, 3 := user_name, 4 := users_pwd]\<rparr>) c s;
            Some (0, s) })"

text \<open>\<open>complete\<close>: the table has all eight services.\<close>

definition mqtt_client_net_svc_register :: "bool \<Rightarrow> mqtt_lib \<Rightarrow> i32 \<times> mqtt_lib" where
  "mqtt_client_net_svc_register complete s = (if complete then (0, s\<lparr>ml_net_ops := True\<rparr>) else (- 1, s))"

section \<open>Contexts\<close>

record mqtt_client_ctx_cfg =
  cf_config_opts :: u16
  cf_nwconn_opts :: u32
  cf_server_addr :: ptr
  cf_port_number :: u16
  cf_nw_security :: "secure_conn option"

record mqtt_client_ctx_cbs =
  cb_publish_rx :: ptr
  cb_ack_notify :: ptr
  cb_disconn_cb :: ptr

definition secure_conn_struct_init :: "secure_conn \<Rightarrow> secure_conn" where
  "secure_conn_struct_init sc = sc\<lparr>sc_method := None, sc_cipher := None, sc_n_file := 0, sc_files := None\<rparr>"

definition client_reset :: "nat \<Rightarrow> mqtt_lib \<Rightarrow> mqtt_lib option" where
  "client_reset c s = do {
     s \<leftarrow> mx_upd cl_ctx_reset c s;
     s \<leftarrow> cd_upd (\<lambda>d. d\<lparr>cd_conn_pl_utf8s := replicate 5 None, cd_will_opts := 0\<rparr>) c s;
     s \<leftarrow> cl_wlist_purge c s;
     s \<leftarrow> cd_upd (\<lambda>d. (reset_cqs d)\<lparr>cd_publish_rx := None, cd_ack_notify := None, cd_disconn_cb := None\<rparr>) c s;
     s \<leftarrow> tx_part_reset c s;
     cd_upd (\<lambda>d. d\<lparr>cd_rx_mqp := None, cd_app := None, cd_nwconn_opts := 0, cd_server_addr := None, cd_port_number := 0,
                   cd_nw_security := secure_conn_struct_init (cd_nw_security d)\<rparr>) c s }"

definition cl_ctx_freeup :: "nat \<Rightarrow> mqtt_lib \<Rightarrow> mqtt_lib option" where
  "cl_ctx_freeup c s = do {
     let f = ml_free_ctxs s;
     s \<leftarrow> mx_upd (cx_next_update (\<lambda>_. f)) c s;
     Some (s\<lparr>ml_free_ctxs := Some c\<rparr>) }"

fun client_desc_init_loop :: "nat list \<Rightarrow> mqtt_lib \<Rightarrow> mqtt_lib option" where
  "client_desc_init_loop [] s = Some s"
| "client_desc_init_loop (c # cs) s = do {
     s \<leftarrow> cd_upd (\<lambda>d. d\<lparr>cd_qos_ack1_wl := \<lparr>wl_head = None, wl_tail = None\<rparr>,
                       cd_tx_part := (cd_tx_part d)\<lparr>tx_mqp := None\<rparr>\<rparr>) c s;
     s \<leftarrow> client_reset c s;
     s \<leftarrow> cl_ctx_freeup c s;
     client_desc_init_loop cs s }"

definition client_desc_init :: "mqtt_lib \<Rightarrow> mqtt_lib option" where
  "client_desc_init s = client_desc_init_loop [0..<CL_MAX_NWCONN] s"

definition cl_ctx_setup :: "nat \<Rightarrow> mqtt_client_ctx_cfg \<Rightarrow> mqtt_client_ctx_cbs option \<Rightarrow> ptr \<Rightarrow> mqtt_lib \<Rightarrow> mqtt_lib option" where
  "cl_ctx_setup c ctx_cfg ctx_cbs app s = do {
     s \<leftarrow> mx_upd (cx_flags_update (\<lambda>_. ucast (cf_config_opts ctx_cfg))) c s;
     cd_upd (\<lambda>d.
       let d = d\<lparr>cd_nwconn_opts := cf_nwconn_opts ctx_cfg, cd_server_addr := cf_server_addr ctx_cfg,
                 cd_port_number := cf_port_number ctx_cfg, cd_app := app\<rparr>;
           d = (case cf_nw_security ctx_cfg of None \<Rightarrow> d | Some sc \<Rightarrow> d\<lparr>cd_nw_security := sc\<rparr>)
       in case ctx_cbs of
            None \<Rightarrow> d
          | Some cbs \<Rightarrow> d\<lparr>cd_publish_rx := cb_publish_rx cbs, cd_ack_notify := cb_ack_notify cbs, cd_disconn_cb := cb_disconn_cb cbs\<rparr>) c s }"

text \<open>The result has the value stored in \<open>*ctx\<close> on success.\<close>

definition mqtt_client_ctx_create ::
  "mqtt_client_ctx_cfg option \<Rightarrow> mqtt_client_ctx_cbs option \<Rightarrow> ptr \<Rightarrow> mqtt_lib \<Rightarrow> (i32 \<times> ptr \<times> mqtt_lib) option" where
  "mqtt_client_ctx_create ctx_cfg ctx_cbs app s =
     (case ctx_cfg of
        None \<Rightarrow> Some (- 1, None, s)
      | Some cfg \<Rightarrow>
          if cf_server_addr cfg = None \<or> cf_port_number cfg = 0 then Some (- 1, None, s)
          else if cf_config_opts cfg AND 0x0004 \<noteq> 0 \<and> ml_grp_has_cbfn s \<noteq> (ctx_cbs \<noteq> None) then Some (- 1, None, s)
          else (case ml_free_ctxs s of
             None \<Rightarrow> Some (- 1, None, s)
           | Some c \<Rightarrow> do {
               x \<leftarrow> ml_ctxs s c;
               s \<leftarrow> mx_upd (cx_next_update (\<lambda>_. None)) c (s\<lparr>ml_free_ctxs := cx_next x\<rparr>);
               s \<leftarrow> cl_ctx_setup c cfg ctx_cbs app s;
               Some (0, Some c, s) }))"

definition awaits_pkts :: "client_desc \<Rightarrow> bool" where
  "awaits_pkts d \<longleftrightarrow> wl_head (cd_qos_ack1_wl d) \<noteq> None \<or> qos2_pub_cq_count (cd_qos2_rx_cq d) \<noteq> 0 \<or> qos2_pub_cq_count (cd_qos2_tx_cq d) \<noteq> 0"

definition mqtt_client_ctx_delete :: "ptr \<Rightarrow> mqtt_lib \<Rightarrow> (i32 \<times> mqtt_lib) option" where
  "mqtt_client_ctx_delete ctx s =
     (case ctx of
        None \<Rightarrow> Some (- 1, s)
      | Some c \<Rightarrow> do {
          x \<leftarrow> ml_ctxs s c;
          d \<leftarrow> ml_clients s c;
          if cx_net x \<noteq> - 1 \<or> awaits_pkts d then Some (- 1, s)
          else do { s \<leftarrow> client_reset c s; s \<leftarrow> cl_ctx_freeup c s; Some (0, s) } })"

section \<open>The library\<close>

record mqtt_client_lib_cfg =
  lc_loopback_port :: u16
  lc_grp_uses_cbfn :: bool
  lc_debug_printf :: bool     \<comment> \<open>the pointer is set\<close>

definition mqtt_client_lib_init :: "mqtt_client_lib_cfg option \<Rightarrow> mqtt_lib \<Rightarrow> (i32 \<times> mqtt_lib) option" where
  "mqtt_client_lib_init lib_cfg s =
     (case lib_cfg of
        None \<Rightarrow> Some (- 1, s)
      | Some cfg \<Rightarrow>
          if \<not> lc_debug_printf cfg \<or> ml_init_done s then Some (- 1, s)
          else do {
            s \<leftarrow> client_desc_init s;
            Some (0, s\<lparr>ml_init_done := True, ml_loopb_portid := lc_loopback_port cfg, ml_grp_has_cbfn := lc_grp_uses_cbfn cfg\<rparr>) })"

partial_function (option) count_ctxs :: "ctx_heap \<Rightarrow> ptr \<Rightarrow> nat \<Rightarrow> nat option" where
  "count_ctxs h cl_ctx n = (case cl_ctx of None \<Rightarrow> Some n | Some c \<Rightarrow> do { x \<leftarrow> h c; count_ctxs h (cx_next x) (Suc n) })"

definition mqtt_client_lib_exit :: "mqtt_lib \<Rightarrow> (i32 \<times> mqtt_lib) option" where
  "mqtt_client_lib_exit s = do {
     n \<leftarrow> count_ctxs (ml_ctxs s) (ml_free_ctxs s) 0;
     Some (if n = CL_MAX_NWCONN then (0, s\<lparr>ml_init_done := False, ml_free_ctxs := None\<rparr>) else (- 1, s)) }"

end
