(* ===== verification/ClientTx.thy ===== *)
theory ClientTx
  imports ClientRun
begin

text \<open>
  Transmission by the client library: whatever pieces the network accepts, the bytes of a
  message reach it in order and completely, or the connection is given up.
\<close>

section \<open>What the network has accepted\<close>

fun accepted :: "i32 \<Rightarrow> cl_trace \<Rightarrow> u8 list" where
  "accepted net [] = []"
| "accepted net (e # tr) = accepted net tr @
     (case e of ClSend n bs rv \<Rightarrow> if n = net \<and> 0 < rv then take (nat rv) bs else [] | _ \<Rightarrow> [])"

text \<open>The contract of \<open>send\<close>: not more bytes than were handed over.\<close>

definition send_ok :: "client_env \<Rightarrow> bool" where
  "send_ok env \<longleftrightarrow> (\<forall>tr net bs. ce_send env tr net bs \<le> int (length bs))"

section \<open>Well-formed clients\<close>

definition grp_ok :: "ctx_heap \<Rightarrow> ptr \<Rightarrow> nat \<Rightarrow> bool" where
  "grp_ok h u c \<longleftrightarrow> (\<forall>x. h c = Some x \<and> A_GROUP_MEMBER x \<longrightarrow> (\<exists>us. chain (cnext h) u us \<and> c \<in> set us))"

definition desc_ok :: "mqp_heap \<Rightarrow> client_desc \<Rightarrow> bool" where
  "desc_ok h d \<longleftrightarrow> (\<exists>ps. wlist_rep h (cd_qos_ack1_wl d) ps) \<and> length (tx_vh_msg (cd_tx_part d)) = VH_MSG_LEN \<and>
     (\<forall>a. tx_mqp (cd_tx_part d) = Some a \<longrightarrow> h a \<noteq> None) \<and> (\<forall>a. cd_rx_mqp d = Some a \<longrightarrow> h a \<noteq> None)"

lemma cnext_same: "h c = Some x \<Longrightarrow> cx_next y = cx_next x \<Longrightarrow> cnext (h(c \<mapsto> y)) = cnext h"
  by (auto simp: cnext_def)

lemma grp_ok_same: "grp_ok h u c \<Longrightarrow> h c = Some x \<Longrightarrow> cx_flags y = cx_flags x \<Longrightarrow> cx_next y = cx_next x \<Longrightarrow> grp_ok (h(c \<mapsto> y)) u c"
  using cnext_same[of h c x y] by (simp add: grp_ok_def cx_has_def)

lemma same_ctxs_get:
  assumes "same_ctxs h h'" "h c = Some x"
  shows "\<exists>x'. h' c = Some x' \<and> cx_flags x' = cx_flags x \<and> cx_net x' = cx_net x"
proof -
  have e: "map_option (cx_next_update (\<lambda>_. None)) (h c) = map_option (cx_next_update (\<lambda>_. None)) (h' c)" using assms(1) by (simp add: same_ctxs_def)
  then obtain x' where x': "h' c = Some x'" "cx_next_update (\<lambda>_. None) x' = cx_next_update (\<lambda>_. None) x" using assms(2) by (cases "h' c") auto
  from arg_cong[OF x'(2), of cx_flags] arg_cong[OF x'(2), of cx_net] x'(1) show ?thesis by simp
qed

lemma to_sort:
  assumes "chain (cnext (ml_ctxs s)) (ml_used_ctxs s) us" "c \<in> set us" "ml_ctxs s c = Some x"
  shows "\<exists>h u x'. used_ctxs_TO_sort c s = Some (s\<lparr>ml_ctxs := h, ml_used_ctxs := u\<rparr>) \<and> h c = Some x' \<and> cx_flags x' = cx_flags x \<and>
     cx_net x' = cx_net x \<and> (\<exists>us. chain (cnext h) u us \<and> c \<in> set us)"
proof -
  obtain h1 u1 where 1: "cl_ctx_remove (ml_ctxs s) (ml_used_ctxs s) c = Some (h1, u1)" "chain (cnext h1) u1 (remove1 c us)"
    "same_ctxs (ml_ctxs s) h1" "cnext h1 c = Some None" using ctx_remove_chain[OF assms(1), of c] assms(2) by blast
  obtain x1 where x1: "h1 c = Some x1" "cx_flags x1 = cx_flags x" "cx_net x1 = cx_net x" using same_ctxs_get[OF 1(3) assms(3)] by blast
  have n: "cx_next x1 = None" "c \<notin> set (remove1 c us)" using 1(4) x1(1) chain_distinct[OF assms(1)] by (auto simp: cnext_def)
  obtain h2 u2 where 2: "cl_ctx_timeout_insert h1 u1 c = Some (h2, u2)" "chain (cnext h2) u2 (tmo_ins (ctx_tmo h1) c (remove1 c us))" "same_ctxs h1 h2"
    using timeout_insert_chain[OF 1(2) x1(1) n] by blast
  obtain x2 where x2: "h2 c = Some x2" "cx_flags x2 = cx_flags x1" "cx_net x2 = cx_net x1" using same_ctxs_get[OF 2(3) x1(1)] by blast
  have "used_ctxs_TO_sort c s = Some (s\<lparr>ml_ctxs := h2, ml_used_ctxs := u2\<rparr>)"
    using 1(1) 2(1) by (simp add: used_ctxs_TO_sort_def used_remove_def used_insert_def)
  moreover have "c \<in> set (tmo_ins (ctx_tmo h1) c (remove1 c us))" by simp
  ultimately show ?thesis using x1 x2 2(2) by (intro exI[of _ h2] exI[of _ u2] exI[of _ x2]) auto
qed

lemma cl_ctx_timeout_update_views [simp]:
  "cx_flags (cl_ctx_timeout_update x now) = cx_flags x" "cx_net (cl_ctx_timeout_update x now) = cx_net x"
  "cx_next (cl_ctx_timeout_update x now) = cx_next x"
  by (simp_all add: cl_ctx_timeout_update_def)

text \<open>The update of the timeout after a successful transmission.\<close>

lemma touch:
  assumes "ml_ctxs s c = Some x" "grp_ok (ml_ctxs s) (ml_used_ctxs s) c"
  shows "\<exists>h u tr x'. (if HAS_CONNECTION x then do {
               let (now, s) = ml_time env s;
               s \<leftarrow> mx_upd (\<lambda>x. cl_ctx_timeout_update x now) c s;
               if A_GROUP_MEMBER x then used_ctxs_TO_sort c s else Some s }
             else Some s) = Some (s\<lparr>ml_ctxs := h, ml_used_ctxs := u, ml_trace := tr\<rparr>) \<and>
     (\<forall>net. accepted net tr = accepted net (ml_trace s)) \<and> h c = Some x' \<and> cx_flags x' = cx_flags x \<and> cx_net x' = cx_net x \<and> grp_ok h u c"
proof (cases "HAS_CONNECTION x")
  case False
  then have "(if HAS_CONNECTION x then do {
               let (now, s) = ml_time env s;
               s \<leftarrow> mx_upd (\<lambda>x. cl_ctx_timeout_update x now) c s;
               if A_GROUP_MEMBER x then used_ctxs_TO_sort c s else Some s }
             else Some s) = Some (s\<lparr>ml_ctxs := ml_ctxs s, ml_used_ctxs := ml_used_ctxs s, ml_trace := ml_trace s\<rparr>)" by simp
  then show ?thesis using assms by (intro exI conjI) auto
next
  case True
  define now where "now = ce_time env (ml_trace s)"
  let ?x = "cl_ctx_timeout_update x now" and ?tr = "ClTime now # ml_trace s"
  let ?s = "s\<lparr>ml_trace := ?tr, ml_ctxs := (ml_ctxs s)(c \<mapsto> ?x)\<rparr>"
  have t: "ml_time env s = (now, s\<lparr>ml_trace := ?tr\<rparr>)" by (simp add: ml_time_def ml_log_def now_def Let_def)
  have u: "mx_upd (\<lambda>x. cl_ctx_timeout_update x now) c (s\<lparr>ml_trace := ?tr\<rparr>) = Some ?s" using assms(1) by (simp add: mx_upd_def)
  have g: "grp_ok (ml_ctxs ?s) (ml_used_ctxs ?s) c" using grp_ok_same[OF assms(2,1), of ?x] by simp
  show ?thesis
  proof (cases "A_GROUP_MEMBER x")
    case False
    have e: "(if HAS_CONNECTION x then do {
               let (now, s) = ml_time env s;
               s \<leftarrow> mx_upd (\<lambda>x. cl_ctx_timeout_update x now) c s;
               if A_GROUP_MEMBER x then used_ctxs_TO_sort c s else Some s }
             else Some s) = Some (s\<lparr>ml_ctxs := ml_ctxs ?s, ml_used_ctxs := ml_used_ctxs s, ml_trace := ?tr\<rparr>)"
      using True False t u by simp
    show ?thesis by (rule exI[of _ "ml_ctxs ?s"], rule exI[of _ "ml_used_ctxs s"], rule exI[of _ ?tr], rule exI[of _ ?x]) (use e g in simp)
  next
    case grp: True
    have "A_GROUP_MEMBER ?x" using grp by (simp add: cx_has_def)
    then obtain us where us: "chain (cnext (ml_ctxs ?s)) (ml_used_ctxs ?s) us" "c \<in> set us" using g by (auto simp: grp_ok_def)
    from to_sort[OF us] obtain h u' x' where r: "used_ctxs_TO_sort c ?s = Some (?s\<lparr>ml_ctxs := h, ml_used_ctxs := u'\<rparr>)" "h c = Some x'"
      "cx_flags x' = cx_flags x" "cx_net x' = cx_net x" "\<exists>us. chain (cnext h) u' us \<and> c \<in> set us" by auto
    have e: "(if HAS_CONNECTION x then do {
               let (now, s) = ml_time env s;
               s \<leftarrow> mx_upd (\<lambda>x. cl_ctx_timeout_update x now) c s;
               if A_GROUP_MEMBER x then used_ctxs_TO_sort c s else Some s }
             else Some s) = Some (s\<lparr>ml_ctxs := h, ml_used_ctxs := u', ml_trace := ?tr\<rparr>)"
      using True grp t u r(1) by simp
    have "grp_ok h u' c" using r(5) by (simp add: grp_ok_def)
    then show ?thesis using e r by (intro exI[of _ h] exI[of _ u'] exI[of _ ?tr] exI[of _ x']) simp
  qed
qed

section \<open>Closing a connection\<close>

lemma pk_put_views [simp]: "ml_heap (pk_put a m s) = (ml_heap s)(a \<mapsto> m)"
  by (simp add: pk_put_def)

lemma mqp_free_total:
  assumes "ml_heap s a = Some m"
  shows "\<exists>h f. cl_mqp_free a s = Some (s\<lparr>ml_heap := h, ml_free_list := f\<rparr>) \<and> dom h = dom (ml_heap s) \<and> (\<forall>b. b \<noteq> a \<longrightarrow> h b = ml_heap s b)"
proof -
  obtain m' last where f: "free_mqp m = (m', last)" by fastforce
  show ?thesis
  proof (cases last)
    case True
    have "cl_mqp_free a s = Some (s\<lparr>ml_heap := (ml_heap s)(a \<mapsto> m'\<lparr>p_next := ml_free_list s\<rparr>), ml_free_list := Some a\<rparr>)"
      using assms f True by (simp add: cl_mqp_free_def cl_free_mqp_def pk_put_def)
    moreover have "dom ((ml_heap s)(a \<mapsto> m'\<lparr>p_next := ml_free_list s\<rparr>)) = dom (ml_heap s)" using assms by auto
    ultimately show ?thesis by (metis fun_upd_apply)
  next
    case False
    have "cl_mqp_free a s = Some (s\<lparr>ml_heap := (ml_heap s)(a \<mapsto> m'), ml_free_list := ml_free_list s\<rparr>)"
      using assms f False by (simp add: cl_mqp_free_def pk_put_def)
    moreover have "dom ((ml_heap s)(a \<mapsto> m')) = dom (ml_heap s)" using assms by auto
    ultimately show ?thesis by (metis fun_upd_apply)
  qed
qed

lemma purge_loop_total:
  "chain (wnext (ml_heap s)) p ps \<Longrightarrow> \<exists>h f. wlist_purge_loop ml_heap cl_mqp_free s p = Some (s\<lparr>ml_heap := h, ml_free_list := f\<rparr>) \<and> dom h = dom (ml_heap s)"
proof (induction ps arbitrary: s p)
  case Nil
  have "wlist_purge_loop ml_heap cl_mqp_free s p = Some (s\<lparr>ml_heap := ml_heap s, ml_free_list := ml_free_list s\<rparr>)"
    using Nil by (subst wlist_purge_loop.simps) simp
  then show ?case by blast
next
  case (Cons a ps)
  have d: "a \<notin> set ps" using chain_distinct[OF Cons.prems] by simp
  obtain e where e: "p = Some a" "ml_heap s a = Some e" "chain (wnext (ml_heap s)) (p_next e) ps"
    using Cons.prems by (auto simp: wnext_Some)
  obtain h f where h: "cl_mqp_free a s = Some (s\<lparr>ml_heap := h, ml_free_list := f\<rparr>)" "dom h = dom (ml_heap s)" "\<And>b. b \<noteq> a \<Longrightarrow> h b = ml_heap s b"
    using mqp_free_total[OF e(2)] by blast
  let ?s = "s\<lparr>ml_heap := h, ml_free_list := f\<rparr>"
  have hb: "h b = ml_heap s b" if "b \<in> set ps" for b
  proof -
    have "b \<noteq> a" using that d by auto
    then show ?thesis by (rule h(3))
  qed
  have "\<And>b. b \<in> set ps \<Longrightarrow> wnext (ml_heap ?s) b = wnext (ml_heap s) b" using hb by (simp add: wnext_def)
  then have "chain (wnext (ml_heap ?s)) (p_next e) ps" by (rule seg_cong[OF e(3)])
  from Cons.IH[OF this] obtain h' f' where r: "wlist_purge_loop ml_heap cl_mqp_free ?s (p_next e) = Some (?s\<lparr>ml_heap := h', ml_free_list := f'\<rparr>)" "dom h' = dom h"
    by auto
  have "wlist_purge_loop ml_heap cl_mqp_free s p = Some (s\<lparr>ml_heap := h', ml_free_list := f'\<rparr>)"
    using e(1,2) h(1) r(1) by (subst wlist_purge_loop.simps) simp
  then show ?case using r(2) h(2) by blast
qed

lemma purge_total:
  assumes "ml_clients s c = Some d" "wlist_rep (ml_heap s) (cd_qos_ack1_wl d) ps"
  shows "\<exists>h f wl. cl_wlist_purge c s = Some (s\<lparr>ml_heap := h, ml_free_list := f, ml_clients := (ml_clients s)(c \<mapsto> d\<lparr>cd_qos_ack1_wl := wl\<rparr>)\<rparr>) \<and>
     dom h = dom (ml_heap s) \<and> wlist_rep h wl []"
proof -
  have "chain (wnext (ml_heap s)) (wl_head (cd_qos_ack1_wl d)) ps" using assms(2) by (simp add: wlist_rep_def)
  from purge_loop_total[OF this] obtain h f where h: "wlist_purge_loop ml_heap cl_mqp_free s (wl_head (cd_qos_ack1_wl d)) = Some (s\<lparr>ml_heap := h, ml_free_list := f\<rparr>)"
    "dom h = dom (ml_heap s)" by blast
  let ?wl = "(cd_qos_ack1_wl d)\<lparr>wl_head := None, wl_tail := None\<rparr>"
  have "cl_wlist_purge c s = Some (s\<lparr>ml_heap := h, ml_free_list := f, ml_clients := (ml_clients s)(c \<mapsto> d\<lparr>cd_qos_ack1_wl := ?wl\<rparr>)\<rparr>)"
    using assms(1) h(1) by (simp add: cl_wlist_purge_def mqp_ack_wlist_purge_def cd_upd_def)
  moreover have "wlist_rep h ?wl []" by (simp add: wlist_rep_def)
  ultimately show ?thesis using h(2) by blast
qed

lemma same_pkts_dom: "same_pkts h h' \<Longrightarrow> dom h' = dom h"
proof -
  assume s: "same_pkts h h'"
  have "h' p = None \<longleftrightarrow> h p = None" for p
  proof -
    have "map_option (p_next_update (\<lambda>_. None)) (h p) = map_option (p_next_update (\<lambda>_. None)) (h' p)" using s by (simp add: same_pkts_def)
    then show ?thesis by (cases "h p"; cases "h' p") auto
  qed
  then show ?thesis by (auto simp: dom_def)
qed

lemma wlist_remove_total:
  assumes "ml_clients s c = Some d" "wlist_rep (ml_heap s) (cd_qos_ack1_wl d) ps"
  shows "\<exists>h wl. cl_wlist_remove c m s = Some (find (\<lambda>p. heap_mid (ml_heap s) p = Some m) ps,
       s\<lparr>ml_heap := h, ml_clients := (ml_clients s)(c \<mapsto> d\<lparr>cd_qos_ack1_wl := wl\<rparr>)\<rparr>) \<and>
     wlist_rep h wl (case find (\<lambda>p. heap_mid (ml_heap s) p = Some m) ps of None \<Rightarrow> ps | Some p \<Rightarrow> remove1 p ps) \<and> same_pkts (ml_heap s) h"
proof -
  obtain h wl where r: "mqp_ack_wlist_remove (ml_heap s) (cd_qos_ack1_wl d) m = Some (find (\<lambda>p. heap_mid (ml_heap s) p = Some m) ps, h, wl)"
     "wlist_rep h wl (case find (\<lambda>p. heap_mid (ml_heap s) p = Some m) ps of None \<Rightarrow> ps | Some p \<Rightarrow> remove1 p ps)" "same_pkts (ml_heap s) h"
    using remove_wlist[OF assms(2)] by blast
  have "cl_wlist_remove c m s = Some (find (\<lambda>p. heap_mid (ml_heap s) p = Some m) ps, s\<lparr>ml_heap := h, ml_clients := (ml_clients s)(c \<mapsto> d\<lparr>cd_qos_ack1_wl := wl\<rparr>)\<rparr>)"
    using assms(1) r(1) by (simp add: cl_wlist_remove_def cd_upd_def)
  then show ?thesis using r(2,3) by blast
qed

abbreviation next_of :: "nat list \<Rightarrow> ptr" where "next_of post \<equiv> (case post of [] \<Rightarrow> None | b # _ \<Rightarrow> Some b)"

lemma chain_tail_ptr: "chain n p (a # post) \<Longrightarrow> n a = Some (next_of post)"
  by (cases post) auto

lemma chain_at: "chain n p (pre @ post) \<Longrightarrow> chain n (next_of post) post"
  by (cases post) auto

lemma find_suffix:
  assumes "distinct (pre @ a # post)" "P a"
  shows "\<exists>q pre'. find P (pre @ a # post) = Some q \<and> remove1 q (pre @ a # post) = pre' @ post"
proof (cases "find P pre")
  case None
  then have "find P (pre @ a # post) = Some a" using assms(2) by (induction pre) (auto split: if_splits)
  moreover have "remove1 a (pre @ a # post) = pre @ post" using assms(1) by (simp add: remove1_append)
  ultimately show ?thesis by blast
next
  case (Some q)
  then have "find P (pre @ a # post) = Some q" "q \<in> set pre" by (induction pre) (auto split: if_splits)
  moreover have "remove1 q (pre @ a # post) = (remove1 q pre @ [a]) @ post" using calculation(2) by (simp add: remove1_append)
  ultimately show ?thesis by blast
qed

lemma session_311_loop_total:
  "ml_clients s c = Some d \<Longrightarrow> wlist_rep (ml_heap s) (cd_qos_ack1_wl d) (pre @ post) \<Longrightarrow>
     \<exists>h wl ps. session_311_loop c (next_of post) s = Some (s\<lparr>ml_heap := h, ml_clients := (ml_clients s)(c \<mapsto> d\<lparr>cd_qos_ack1_wl := wl\<rparr>)\<rparr>) \<and>
       wlist_rep h wl ps \<and> same_pkts (ml_heap s) h"
proof (induction post arbitrary: s d pre)
  case Nil
  have "session_311_loop c (next_of []) s = Some (s\<lparr>ml_heap := ml_heap s, ml_clients := (ml_clients s)(c \<mapsto> d\<lparr>cd_qos_ack1_wl := cd_qos_ack1_wl d\<rparr>)\<rparr>)"
    using Nil.prems(1) by (subst session_311_loop.simps) (simp add: fun_upd_idem)
  then show ?case using Nil.prems(2) same_pkts_refl by blast
next
  case (Cons a post)
  have ch: "chain (wnext (ml_heap s)) (wl_head (cd_qos_ack1_wl d)) (pre @ a # post)" using Cons.prems(2) by (simp add: wlist_rep_def)
  have "chain (wnext (ml_heap s)) (Some a) (a # post)" using chain_at[OF ch] by simp
  then have "wnext (ml_heap s) a = Some (next_of post)" by (rule chain_tail_ptr)
  then obtain e where e: "ml_heap s a = Some e" "p_next e = next_of post" by (auto simp: wnext_Some)
  show ?case
  proof (cases "MQTT_PUBLISH = p_msg_type e")
    case True
    then have "session_311_loop c (next_of (a # post)) s = session_311_loop c (next_of post) s"
      using e by (subst session_311_loop.simps) simp
    moreover have "wlist_rep (ml_heap s) (cd_qos_ack1_wl d) ((pre @ [a]) @ post)" using Cons.prems(2) by simp
    ultimately show ?thesis using Cons.IH[OF Cons.prems(1)] by metis
  next
    case False
    let ?m = "p_msg_id e"
    have "heap_mid (ml_heap s) a = Some ?m" using e(1) by (simp add: heap_mid_def)
    then obtain q pre' where f: "find (\<lambda>p. heap_mid (ml_heap s) p = Some ?m) (pre @ a # post) = Some q" "remove1 q (pre @ a # post) = pre' @ post"
      using find_suffix[OF chain_distinct[OF ch], of "\<lambda>p. heap_mid (ml_heap s) p = Some ?m"] by (elim meta_impE exE conjE) (assumption, erule (1) that)
    obtain h wl where r: "cl_wlist_remove c ?m s = Some (Some q, s\<lparr>ml_heap := h, ml_clients := (ml_clients s)(c \<mapsto> d\<lparr>cd_qos_ack1_wl := wl\<rparr>)\<rparr>)"
        "wlist_rep h wl (pre' @ post)" "same_pkts (ml_heap s) h"
      using wlist_remove_total[OF Cons.prems, of ?m] unfolding f(1) option.case f(2) by (elim exE conjE) (erule (2) that)
    define s1 where "s1 = s\<lparr>ml_heap := h, ml_clients := (ml_clients s)(c \<mapsto> d\<lparr>cd_qos_ack1_wl := wl\<rparr>)\<rparr>"
    define d1 where "d1 = d\<lparr>cd_qos_ack1_wl := wl\<rparr>"
    have 1: "ml_clients s1 c = Some d1" "wlist_rep (ml_heap s1) (cd_qos_ack1_wl d1) (pre' @ post)" "ml_heap s1 = h"
      using r(2) by (simp_all add: s1_def d1_def)
    obtain h' wl' ps where j: "session_311_loop c (next_of post) s1 =
        Some (s1\<lparr>ml_heap := h', ml_clients := (ml_clients s1)(c \<mapsto> d1\<lparr>cd_qos_ack1_wl := wl'\<rparr>)\<rparr>)" "wlist_rep h' wl' ps" "same_pkts h h'"
      using Cons.IH[OF 1(1,2)] unfolding 1(3) by blast
    have u: "s1\<lparr>ml_heap := h', ml_clients := (ml_clients s1)(c \<mapsto> d1\<lparr>cd_qos_ack1_wl := wl'\<rparr>)\<rparr> =
        s\<lparr>ml_heap := h', ml_clients := (ml_clients s)(c \<mapsto> d\<lparr>cd_qos_ack1_wl := wl'\<rparr>)\<rparr>" by (simp add: s1_def d1_def)
    have "session_311_loop c (next_of (a # post)) s = session_311_loop c (next_of post) s1"
      using e r(1) False by (subst session_311_loop.simps) (simp add: s1_def)
    then have "session_311_loop c (next_of (a # post)) s = Some (s\<lparr>ml_heap := h', ml_clients := (ml_clients s)(c \<mapsto> d\<lparr>cd_qos_ack1_wl := wl'\<rparr>)\<rparr>)"
      using j(1) u by simp
    then show ?thesis using j(2) same_pkts_trans[OF r(3) j(3)] by blast
  qed
qed

text \<open>What the application has registered.\<close>

definition same_app :: "client_desc \<Rightarrow> client_desc \<Rightarrow> bool" where
  "same_app d d' \<longleftrightarrow> cd_app d' = cd_app d \<and> cd_publish_rx d' = cd_publish_rx d \<and> cd_ack_notify d' = cd_ack_notify d \<and> cd_disconn_cb d' = cd_disconn_cb d"

text \<open>The session part of \<open>do_net_close\<close>, whichever it is.\<close>

lemma session_part:
  assumes "ml_clients s c = Some d" "desc_ok (ml_heap s) d"
  shows "\<exists>h f d'. (if b1 then cl_session_delete c s else if b2 then session_311fix c s else Some s) =
       Some (s\<lparr>ml_heap := h, ml_free_list := f, ml_clients := (ml_clients s)(c \<mapsto> d')\<rparr>) \<and> dom h = dom (ml_heap s) \<and>
     cd_tx_part d' = cd_tx_part d \<and> cd_rx_mqp d' = cd_rx_mqp d \<and> same_app d d'"
proof -
  obtain ps where ps: "wlist_rep (ml_heap s) (cd_qos_ack1_wl d) ps" using assms(2) by (auto simp: desc_ok_def)
  consider "b1" | "\<not> b1" "b2" | "\<not> b1" "\<not> b2" by blast
  then show ?thesis
  proof cases
    case 1
    define s1 where "s1 = s\<lparr>ml_clients := (ml_clients s)(c \<mapsto> reset_cqs d)\<rparr>"
    have v: "ml_clients s1 c = Some (reset_cqs d)" "wlist_rep (ml_heap s1) (cd_qos_ack1_wl (reset_cqs d)) ps"
      using ps by (simp_all add: s1_def reset_cqs_def)
    obtain h f wl where p: "cl_wlist_purge c s1 = Some (s1\<lparr>ml_heap := h, ml_free_list := f, ml_clients := (ml_clients s1)(c \<mapsto> (reset_cqs d)\<lparr>cd_qos_ack1_wl := wl\<rparr>)\<rparr>)"
      "dom h = dom (ml_heap s1)" using purge_total[OF v] by blast
    have "cl_session_delete c s = cl_wlist_purge c s1" using assms(1) by (simp add: cl_session_delete_def cd_upd_def s1_def)
    then have "cl_session_delete c s = Some (s\<lparr>ml_heap := h, ml_free_list := f, ml_clients := (ml_clients s)(c \<mapsto> (reset_cqs d)\<lparr>cd_qos_ack1_wl := wl\<rparr>)\<rparr>)"
      using p(1) by (simp add: s1_def)
    moreover have "cd_tx_part ((reset_cqs d)\<lparr>cd_qos_ack1_wl := wl\<rparr>) = cd_tx_part d" "cd_rx_mqp ((reset_cqs d)\<lparr>cd_qos_ack1_wl := wl\<rparr>) = cd_rx_mqp d"
      "same_app d ((reset_cqs d)\<lparr>cd_qos_ack1_wl := wl\<rparr>)"
      by (simp_all add: reset_cqs_def same_app_def)
    moreover have "dom h = dom (ml_heap s)" using p(2) by (simp add: s1_def)
    ultimately show ?thesis using 1 by metis
  next
    case 2
    have ch: "chain (wnext (ml_heap s)) (wl_head (cd_qos_ack1_wl d)) ps" using ps by (simp add: wlist_rep_def)
    then have p: "wl_head (cd_qos_ack1_wl d) = next_of ps" by (cases ps) auto
    have "wlist_rep (ml_heap s) (cd_qos_ack1_wl d) ([] @ ps)" using ps by simp
    from session_311_loop_total[OF assms(1) this] obtain h wl where r: "session_311_loop c (next_of ps) s =
        Some (s\<lparr>ml_heap := h, ml_clients := (ml_clients s)(c \<mapsto> d\<lparr>cd_qos_ack1_wl := wl\<rparr>)\<rparr>)" "same_pkts (ml_heap s) h" by blast
    have "session_311fix c s = Some (s\<lparr>ml_heap := h, ml_free_list := ml_free_list s, ml_clients := (ml_clients s)(c \<mapsto> d\<lparr>cd_qos_ack1_wl := wl\<rparr>)\<rparr>)"
      using assms(1) r(1) p by (simp add: session_311fix_def)
    moreover have "cd_tx_part (d\<lparr>cd_qos_ack1_wl := wl\<rparr>) = cd_tx_part d" "cd_rx_mqp (d\<lparr>cd_qos_ack1_wl := wl\<rparr>) = cd_rx_mqp d"
      "same_app d (d\<lparr>cd_qos_ack1_wl := wl\<rparr>)" by (simp_all add: same_app_def)
    ultimately show ?thesis using 2 same_pkts_dom[OF r(2)] by metis
  next
    case 3
    then have "(if b1 then cl_session_delete c s else if b2 then session_311fix c s else Some s) =
       Some (s\<lparr>ml_heap := ml_heap s, ml_free_list := ml_free_list s, ml_clients := (ml_clients s)(c \<mapsto> d)\<rparr>)"
      using assms(1) by (simp add: fun_upd_idem)
    moreover have "same_app d d" by (simp add: same_app_def)
    ultimately show ?thesis by blast
  qed
qed

definition tx_done :: "tx_part_pkt \<Rightarrow> tx_part_pkt" where
  "tx_done tx = tx\<lparr>tx_vh_msg := (tx_vh_msg tx)[0 := 0], tx_mqp := None, tx_length := 0, tx_offset := 0\<rparr>"

lemma tx_reset_total:
  assumes "ml_clients s c = Some d" "length (tx_vh_msg (cd_tx_part d)) = VH_MSG_LEN" "\<forall>a. tx_mqp (cd_tx_part d) = Some a \<longrightarrow> ml_heap s a \<noteq> None"
  shows "\<exists>h f. tx_part_reset c s = Some (s\<lparr>ml_heap := h, ml_free_list := f, ml_clients := (ml_clients s)(c \<mapsto> d\<lparr>cd_tx_part := tx_done (cd_tx_part d)\<rparr>)\<rparr>) \<and>
     dom h = dom (ml_heap s) \<and>
     (case tx_mqp (cd_tx_part d) of None \<Rightarrow> h = ml_heap s \<and> f = ml_free_list s | Some a \<Rightarrow> cl_mqp_free a s = Some (s\<lparr>ml_heap := h, ml_free_list := f\<rparr>))"
proof -
  have z: "tx_part_zero (cd_tx_part d) = Some (tx_done (cd_tx_part d))" using assms(2) by (simp add: tx_part_zero_def tx_done_def mem_simps)
  show ?thesis
  proof (cases "tx_mqp (cd_tx_part d)")
    case None
    then have "tx_part_reset c s = Some (s\<lparr>ml_heap := ml_heap s, ml_free_list := ml_free_list s, ml_clients := (ml_clients s)(c \<mapsto> d\<lparr>cd_tx_part := tx_done (cd_tx_part d)\<rparr>)\<rparr>)"
      using assms(1) z by (simp add: tx_part_reset_def cd_upd_def)
    then show ?thesis using None by (intro exI[of _ "ml_heap s"] exI[of _ "ml_free_list s"]) simp
  next
    case (Some a)
    then obtain m where "ml_heap s a = Some m" using assms(3) by auto
    from mqp_free_total[OF this] obtain h f where h: "cl_mqp_free a s = Some (s\<lparr>ml_heap := h, ml_free_list := f\<rparr>)" "dom h = dom (ml_heap s)" by blast
    have "tx_part_reset c s = Some (s\<lparr>ml_heap := h, ml_free_list := f, ml_clients := (ml_clients s)(c \<mapsto> d\<lparr>cd_tx_part := tx_done (cd_tx_part d)\<rparr>)\<rparr>)"
      using assms(1) z h(1) Some by (simp add: tx_part_reset_def cd_upd_def)
    then show ?thesis using h Some by (intro exI[of _ h] exI[of _ f]) simp
  qed
qed

lemma bit_flag: "(w AND 2 ^ k \<noteq> 0) \<longleftrightarrow> bit w k" for w :: u32
  using and_exp_eq_0_iff_not_bit[of w k] by simp

lemma HAS_CONNECTION_bit: "HAS_CONNECTION x \<longleftrightarrow> bit (cx_flags x) 18" "CL_NEED_NET_CLOSE x \<longleftrightarrow> bit (cx_flags x) 21"
  using bit_flag[of "cx_flags x" 18] bit_flag[of "cx_flags x" 21] by (simp_all add: cx_has_def)

lemma net_close_total:
  assumes "ml_ctxs s c = Some x" "ml_clients s c = Some d" "desc_ok (ml_heap s) d" "cx_net x \<noteq> - 1"
  shows "\<exists>s' x' d'. do_net_close env c s = Some s' \<and> ml_trace s' = ClClose (cx_net x) # ml_trace s \<and> ml_ctxs s' = (ml_ctxs s)(c \<mapsto> x') \<and>
     cx_net x' = - 1 \<and> \<not> HAS_CONNECTION x' \<and> ml_clients s' = (ml_clients s)(c \<mapsto> d') \<and> cd_tx_part d' = tx_done (cd_tx_part d) \<and>
     dom (ml_heap s') = dom (ml_heap s) \<and> same_app d d'"
proof -
  let ?mask = "CONNACK_AWAIT_FLAG OR NOW_CONNECTED_FLAG OR KA_PINGER_RSP_FLAG OR USER_PING_RSP_FLAG OR CL_NETWORK_CLOSE_FLAG OR DO_CONNACK_TO_FLAG"
  obtain h f d1 where 1: "(if IS_CLN_SESSION x then cl_session_delete c s else if \<not> IS_PROTO_VER31 x then session_311fix c s else Some s) =
       Some (s\<lparr>ml_heap := h, ml_free_list := f, ml_clients := (ml_clients s)(c \<mapsto> d1)\<rparr>)" "dom h = dom (ml_heap s)" "cd_tx_part d1 = cd_tx_part d" "same_app d d1"
    using session_part[OF assms(2,3), of "IS_CLN_SESSION x" "\<not> IS_PROTO_VER31 x"] by blast
  define s1 where "s1 = s\<lparr>ml_heap := h, ml_free_list := f, ml_clients := (ml_clients s)(c \<mapsto> d1)\<rparr>"
  have t: "length (tx_vh_msg (cd_tx_part d)) = VH_MSG_LEN" "\<forall>a. tx_mqp (cd_tx_part d) = Some a \<longrightarrow> ml_heap s a \<noteq> None"
    using assms(3) by (simp_all add: desc_ok_def)
  have hd: "h a \<noteq> None \<longleftrightarrow> ml_heap s a \<noteq> None" for a using 1(2) by (metis domIff)
  have "\<forall>a. tx_mqp (cd_tx_part d1) = Some a \<longrightarrow> ml_heap s1 a \<noteq> None" using t(2) 1(3) hd by (simp add: s1_def del: not_None_eq)
  then obtain h' f' where 2: "tx_part_reset c s1 = Some (s1\<lparr>ml_heap := h', ml_free_list := f', ml_clients := (ml_clients s1)(c \<mapsto> d1\<lparr>cd_tx_part := tx_done (cd_tx_part d1)\<rparr>)\<rparr>)"
     "dom h' = dom (ml_heap s1)" using tx_reset_total[of s1 c d1] t(1) 1(3) by (force simp: s1_def)
  let ?x = "(cx_clr ?mask x)\<lparr>cx_net := - 1\<rparr>"
  define s2 where "s2 = s1\<lparr>ml_heap := h', ml_free_list := f', ml_clients := (ml_clients s1)(c \<mapsto> d1\<lparr>cd_tx_part := tx_done (cd_tx_part d1)\<rparr>)\<rparr>"
  have x2: "ml_ctxs s2 = ml_ctxs s" by (simp add: s2_def s1_def)
  have u: "mx_upd (cx_clr ?mask) c s2 = Some (s2\<lparr>ml_ctxs := (ml_ctxs s)(c \<mapsto> cx_clr ?mask x)\<rparr>)"
    "mx_upd (cx_net_update (\<lambda>_. - 1)) c (s2\<lparr>ml_ctxs := (ml_ctxs s)(c \<mapsto> cx_clr ?mask x)\<rparr>) = Some (s2\<lparr>ml_ctxs := (ml_ctxs s)(c \<mapsto> ?x)\<rparr>)"
    using assms(1) by (simp_all add: mx_upd_def x2)
  have "do_net_close env c s = Some (ml_log (ClClose (cx_net x)) (s2\<lparr>ml_ctxs := (ml_ctxs s)(c \<mapsto> ?x)\<rparr>))"
    using assms(1,4) 1(1) 2(1) u by (simp add: do_net_close_def Let_def s1_def[symmetric] s2_def[symmetric])
  moreover have "\<not> HAS_CONNECTION ?x" unfolding HAS_CONNECTION_bit cx_clr_def
    using bit_flag[of "?mask" 18] by (simp add: bit_and_iff bit_not_iff)
  moreover have "dom (ml_heap s2) = dom (ml_heap s)" using 1(2) 2(2) by (simp add: s2_def s1_def)
  moreover have "ml_clients s2 = (ml_clients s)(c \<mapsto> d1\<lparr>cd_tx_part := tx_done (cd_tx_part d)\<rparr>)" "ml_trace s2 = ml_trace s"
    using 1(3) by (simp_all add: s2_def s1_def)
  moreover have "same_app d (d1\<lparr>cd_tx_part := tx_done (cd_tx_part d)\<rparr>)" using 1(4) by (simp add: same_app_def)
  ultimately show ?thesis
    by (intro exI[of _ "ml_log (ClClose (cx_net x)) (s2\<lparr>ml_ctxs := (ml_ctxs s)(c \<mapsto> ?x)\<rparr>)"] exI[of _ ?x] exI[of _ "d1\<lparr>cd_tx_part := tx_done (cd_tx_part d)\<rparr>"])
      (simp add: ml_log_def)
qed

lemma net_close_tx_total:
  assumes "ml_ctxs s c = Some x" "ml_clients s c = Some d" "desc_ok (ml_heap s) d" "cx_net x \<noteq> - 1"
  shows "\<exists>s' x'. cl_net_close_tx env c s = Some s' \<and> (\<forall>net. accepted net (ml_trace s') = accepted net (ml_trace s)) \<and>
     ml_ctxs s' c = Some x' \<and> \<not> cl_is_connected x' \<and> (\<exists>d'. ml_clients s' c = Some d' \<and> same_app d d') \<and> dom (ml_heap s') = dom (ml_heap s)"
proof (cases "RECV_TASK_AVBL x")
  case True
  let ?x = "cx_set CL_NETWORK_CLOSE_FLAG x"
  define s1 where "s1 = s\<lparr>ml_ctxs := (ml_ctxs s)(c \<mapsto> ?x)\<rparr>"
  have u: "mx_upd (cx_set CL_NETWORK_CLOSE_FLAG) c s = Some s1" using assms(1) by (simp add: mx_upd_def s1_def)
  have n: "CL_NEED_NET_CLOSE ?x" unfolding HAS_CONNECTION_bit cx_set_def using bit_flag[of CL_NETWORK_CLOSE_FLAG 21] by (simp add: bit_or_iff)
  let ?s = "if A_GROUP_MEMBER x then snd (loopb_port_trigger env s1) else s1"
  have "cl_net_close_tx env c s = Some ?s" using assms(1) True u by (simp add: cl_net_close_tx_def)
  moreover have "(\<forall>net. accepted net (ml_trace ?s) = accepted net (ml_trace s)) \<and> ml_ctxs ?s c = Some ?x \<and> ml_clients ?s c = Some d \<and> ml_heap ?s = ml_heap s"
    using assms(2) by (simp add: loopb_port_trigger_def ml_log_def s1_def Let_def)
  ultimately show ?thesis using n by (intro exI[of _ ?s] exI[of _ ?x]) (simp add: cl_is_connected_def same_app_def)
next
  case False
  obtain s1 x1 d1 where 1: "do_net_close env c s = Some s1" "ml_trace s1 = ClClose (cx_net x) # ml_trace s" "ml_ctxs s1 = (ml_ctxs s)(c \<mapsto> x1)"
     "\<not> HAS_CONNECTION x1" "ml_clients s1 = (ml_clients s)(c \<mapsto> d1)" "dom (ml_heap s1) = dom (ml_heap s)" "same_app d d1"
    using net_close_total[OF assms] by blast
  have "\<exists>h f. (case cd_rx_mqp d of None \<Rightarrow> Some s1
            | Some a \<Rightarrow> do { m \<leftarrow> ml_heap s1 a; if p_free_hook m then cl_mqp_free a s1 else Some s1 }) = Some (s1\<lparr>ml_heap := h, ml_free_list := f\<rparr>) \<and> dom h = dom (ml_heap s1)"
  proof (cases "cd_rx_mqp d")
    case None
    then have "(case cd_rx_mqp d of None \<Rightarrow> Some s1
            | Some a \<Rightarrow> do { m \<leftarrow> ml_heap s1 a; if p_free_hook m then cl_mqp_free a s1 else Some s1 }) = Some (s1\<lparr>ml_heap := ml_heap s1, ml_free_list := ml_free_list s1\<rparr>)" by simp
    then show ?thesis by blast
  next
    case (Some a)
    then have "a \<in> dom (ml_heap s)" using assms(3) by (auto simp: desc_ok_def)
    then obtain m where m: "ml_heap s1 a = Some m" using 1(6) by blast
    then obtain h f where h: "cl_mqp_free a s1 = Some (s1\<lparr>ml_heap := h, ml_free_list := f\<rparr>)" "dom h = dom (ml_heap s1)" using mqp_free_total by blast
    show ?thesis
    proof (cases "p_free_hook m")
      case True
      then show ?thesis using Some m h by (intro exI[of _ h] exI[of _ f]) simp
    next
      case False
      then show ?thesis using Some m by (intro exI[of _ "ml_heap s1"] exI[of _ "ml_free_list s1"]) simp
    qed
  qed
  then obtain h f where 2: "(case cd_rx_mqp d of None \<Rightarrow> Some s1
            | Some a \<Rightarrow> do { m \<leftarrow> ml_heap s1 a; if p_free_hook m then cl_mqp_free a s1 else Some s1 }) = Some (s1\<lparr>ml_heap := h, ml_free_list := f\<rparr>)" "dom h = dom (ml_heap s1)" by blast
  let ?s = "s1\<lparr>ml_heap := h, ml_free_list := f, ml_clients := (ml_clients s1)(c \<mapsto> d1\<lparr>cd_rx_mqp := None\<rparr>)\<rparr>"
  have "cd_upd (\<lambda>d. d\<lparr>cd_rx_mqp := None\<rparr>) c (s1\<lparr>ml_heap := h, ml_free_list := f\<rparr>) = Some ?s" using 1(5) by (simp add: cd_upd_def)
  then have "cl_net_close_tx env c s = Some ?s" using assms(1,2) False 1(1) 2(1) by (simp add: cl_net_close_tx_def)
  moreover have "same_app d (d1\<lparr>cd_rx_mqp := None\<rparr>)" using 1(7) by (simp add: same_app_def)
  ultimately show ?thesis using 1(2-4,6) 2(2) by (intro exI[of _ ?s] exI[of _ x1]) (simp add: cl_is_connected_def)
qed

section \<open>One part\<close>

definition tx_run :: "mqtt_lib \<Rightarrow> nat \<Rightarrow> i32 \<Rightarrow> u8 list \<Rightarrow> bool" where
  "tx_run s c net rest \<longleftrightarrow> (\<exists>x d. ml_ctxs s c = Some x \<and> ml_clients s c = Some d \<and> desc_ok (ml_heap s) d \<and>
     grp_ok (ml_ctxs s) (ml_used_ctxs s) c \<and> cx_net x = net \<and> net \<noteq> - 1 \<and> cl_is_connected x \<and>
     tx_offset (cd_tx_part d) \<le> tx_length (cd_tx_part d) \<and> tx_part_bytes (cd_tx_part d) s = Some rest)"

text \<open>The message is gone: connected, nothing pending, the packet released.\<close>

definition tx_idle :: "mqtt_lib \<Rightarrow> nat \<Rightarrow> i32 \<Rightarrow> bool" where
  "tx_idle s c net \<longleftrightarrow> (\<exists>x d. ml_ctxs s c = Some x \<and> ml_clients s c = Some d \<and> cx_net x = net \<and> cl_is_connected x \<and>
     tx_mqp (cd_tx_part d) = None \<and> tx_length (cd_tx_part d) = 0 \<and> tx_offset (cd_tx_part d) = 0)"

definition tx_lost :: "mqtt_lib \<Rightarrow> nat \<Rightarrow> bool" where
  "tx_lost s c \<longleftrightarrow> (\<exists>x. ml_ctxs s c = Some x \<and> \<not> cl_is_connected x) \<and> ml_clients s c \<noteq> None"

text \<open>What the release of the packet after its last byte leaves behind.\<close>

definition tx_left :: "mqtt_lib \<Rightarrow> mqtt_lib \<Rightarrow> nat \<Rightarrow> bool" where
  "tx_left s s' c \<longleftrightarrow> (\<exists>d. ml_clients s c = Some d \<and> ml_clients s' c = Some (d\<lparr>cd_tx_part := tx_done (cd_tx_part d)\<rparr>) \<and>
     grp_ok (ml_ctxs s') (ml_used_ctxs s') c \<and>
     (case tx_mqp (cd_tx_part d) of
        None \<Rightarrow> ml_heap s' = ml_heap s \<and> ml_free_list s' = ml_free_list s
      | Some a \<Rightarrow> \<exists>t t'. ml_heap t = ml_heap s \<and> ml_free_list t = ml_free_list s \<and> cl_mqp_free a t = Some t' \<and>
          ml_heap s' = ml_heap t' \<and> ml_free_list s' = ml_free_list t'))"

lemma tx_bytes_drop:
  assumes "tx_part_bytes tx s = Some rest" "tx_offset tx \<le> tx_length tx" "k \<le> length rest" "ml_heap s' = ml_heap s"
  shows "tx_part_bytes (tx_part_addup (of_nat k) tx) s' = Some (drop k rest)"
    "tx_offset (tx_part_addup (of_nat k) tx) \<le> tx_length (tx_part_addup (of_nat k) tx)" "unat (TX_PART_BUF_SZ tx) = length rest"
proof -
  have le: "unat (tx_offset tx) \<le> unat (tx_length tx)" using assms(2) by (simp add: word_le_nat_alt)
  have sz: "unat (TX_PART_BUF_SZ tx) = unat (tx_length tx) - unat (tx_offset tx)" unfolding TX_PART_BUF_SZ_def by (rule unat_sub[OF assms(2)])
  obtain buf d where b: "(case tx_mqp tx of None \<Rightarrow> Some (tx_vh_msg tx, 0) | Some a \<Rightarrow> do { m \<leftarrow> ml_heap s a; Some (p_buffer m, tx_buffer tx) }) = Some (buf, d)"
    "d + unat (tx_offset tx) + unat (TX_PART_BUF_SZ tx) \<le> length buf" "rest = take (unat (TX_PART_BUF_SZ tx)) (drop (d + unat (tx_offset tx)) buf)"
    using assms(1) by (auto simp: tx_part_bytes_def Let_def split: if_splits Option.bind_splits)
  show len: "unat (TX_PART_BUF_SZ tx) = length rest" using b(2,3) by simp
  have lt: "unat (tx_length tx) < 2 ^ 32" using unsigned_less[of "tx_length tx", where 'a = nat] by simp
  have kl: "k + unat (tx_offset tx) < 2 ^ 32" using assms(3) len sz le lt by linarith
  have o: "unat (tx_offset tx + of_nat k) = unat (tx_offset tx) + k"
    using kl by (simp add: unat_word_ariths unat_of_nat_eq)
  show l2: "tx_offset (tx_part_addup (of_nat k) tx) \<le> tx_length (tx_part_addup (of_nat k) tx)"
    using o assms(3) len sz le by (simp add: tx_part_addup_def word_le_nat_alt)
  have sz2: "unat (TX_PART_BUF_SZ (tx_part_addup (of_nat k) tx)) = length rest - k"
    using unat_sub[OF l2] o len sz le assms(3) by (simp add: TX_PART_BUF_SZ_def tx_part_addup_def)
  have tv: "tx_mqp (tx_part_addup (of_nat k) tx) = tx_mqp tx" "tx_vh_msg (tx_part_addup (of_nat k) tx) = tx_vh_msg tx"
    "tx_buffer (tx_part_addup (of_nat k) tx) = tx_buffer tx" by (simp_all add: tx_part_addup_def)
  have src: "(case tx_mqp (tx_part_addup (of_nat k) tx) of None \<Rightarrow> Some (tx_vh_msg (tx_part_addup (of_nat k) tx), 0)
        | Some a \<Rightarrow> do { m \<leftarrow> ml_heap s' a; Some (p_buffer m, tx_buffer (tx_part_addup (of_nat k) tx)) }) = Some (buf, d)"
    unfolding tv assms(4) by (rule b(1))
  have of': "tx_offset (tx_part_addup (of_nat k) tx) = tx_offset tx + of_nat k" by (simp add: tx_part_addup_def)
  have "take (length rest - k) (drop (d + (unat (tx_offset tx) + k)) buf) = drop k rest"
  proof -
    have "drop k rest = drop k (take (length rest) (drop (d + unat (tx_offset tx)) buf))" using b(3) len by simp
    also have "\<dots> = take (length rest - k) (drop (k + (d + unat (tx_offset tx))) buf)" by (simp only: drop_take drop_drop)
    finally show ?thesis by (simp only: ac_simps)
  qed
  then show "tx_part_bytes (tx_part_addup (of_nat k) tx) s' = Some (drop k rest)"
    unfolding tx_part_bytes_def src of' sz2 using b(2) len assms(3) o by (simp add: Let_def)
qed

text \<open>The outcomes of one attempt to send what is left: the connection is lost, some of it is accepted, or all of it.\<close>

definition part_lost :: "mqtt_lib \<Rightarrow> mqtt_lib \<Rightarrow> nat \<Rightarrow> i32 \<Rightarrow> bool" where
  "part_lost s s' c net \<longleftrightarrow> tx_lost s' c \<and> accepted net (ml_trace s') = accepted net (ml_trace s) \<and> dom (ml_heap s') = dom (ml_heap s) \<and>
     (\<exists>d d'. ml_clients s c = Some d \<and> ml_clients s' c = Some d' \<and> same_app d d')"

definition part_more :: "mqtt_lib \<Rightarrow> mqtt_lib \<Rightarrow> nat \<Rightarrow> i32 \<Rightarrow> u8 list \<Rightarrow> nat \<Rightarrow> bool" where
  "part_more s s' c net rest k \<longleftrightarrow> tx_run s' c net (drop k rest) \<and> accepted net (ml_trace s') = accepted net (ml_trace s) @ take k rest \<and>
     ml_heap s' = ml_heap s \<and> (\<exists>d tx. ml_clients s c = Some d \<and> ml_clients s' c = Some (d\<lparr>cd_tx_part := tx\<rparr>))"

definition part_all :: "mqtt_lib \<Rightarrow> mqtt_lib \<Rightarrow> nat \<Rightarrow> i32 \<Rightarrow> u8 list \<Rightarrow> bool" where
  "part_all s s' c net rest \<longleftrightarrow> tx_idle s' c net \<and> accepted net (ml_trace s') = accepted net (ml_trace s) @ rest \<and> tx_left s s' c"

lemma part_send_lost:
  assumes "tx_run s c net rest" "ce_send env (ml_trace s) net rest \<le> 0"
  shows "\<exists>s'. cl_ctx_part_send env c s = Some (- 1, s') \<and> part_lost s s' c net"
proof -
  obtain x d where xd: "ml_ctxs s c = Some x" "ml_clients s c = Some d" "desc_ok (ml_heap s) d" "grp_ok (ml_ctxs s) (ml_used_ctxs s) c"
    "cx_net x = net" "net \<noteq> - 1" "cl_is_connected x" "tx_part_bytes (cd_tx_part d) s = Some rest"
    using assms(1) unfolding tx_run_def by blast
  define s1 where "s1 = ml_log (ClSend net rest (ce_send env (ml_trace s) net rest)) s"
  have v1: "ml_ctxs s1 = ml_ctxs s" "ml_clients s1 = ml_clients s" "ml_heap s1 = ml_heap s" "ml_used_ctxs s1 = ml_used_ctxs s"
    "accepted net (ml_trace s1) = accepted net (ml_trace s)" using assms(2) by (simp_all add: s1_def ml_log_def)
  obtain s2 x2 where 2: "cl_net_close_tx env c s1 = Some s2" "\<forall>net. accepted net (ml_trace s2) = accepted net (ml_trace s1)"
    "ml_ctxs s2 c = Some x2" "\<not> cl_is_connected x2" "\<exists>d'. ml_clients s2 c = Some d' \<and> same_app d d'" "dom (ml_heap s2) = dom (ml_heap s1)"
    using net_close_tx_total[of s1 c x d env] xd v1 by auto
  have "net_send env (cx_net x) rest s = (- 1, s1)" using assms(2) by (simp add: net_send_def xd(5) s1_def Let_def)
  then have "cl_ctx_part_send env c s = Some (- 1, s2)" using xd(1,2,8) 2(1) by (simp add: cl_ctx_part_send_def)
  then show ?thesis using 2 v1(3,5) xd(2) by (intro exI[of _ s2]) (auto simp: part_lost_def tx_lost_def)
qed

text \<open>When bytes are accepted, the time of the context is updated and what remains is a matter of the position.\<close>

lemma part_send_step:
  assumes "ml_ctxs s c = Some x" "ml_clients s c = Some d" "grp_ok (ml_ctxs s) (ml_used_ctxs s) c" "cx_net x = net" "cl_is_connected x"
    "tx_part_bytes (cd_tx_part d) s = Some rest" "ce_send env (ml_trace s) net rest = int k" "0 < k"
  shows "\<exists>s2 x'. cl_ctx_part_send env c s = do {
        s \<leftarrow> (if of_nat k \<noteq> TX_PART_BUF_SZ (cd_tx_part d)
             then cd_upd (\<lambda>d. d\<lparr>cd_tx_part := tx_part_addup (of_nat k) (cd_tx_part d)\<rparr>) c s2 else tx_part_reset c s2);
        Some (int k, s) } \<and>
     ml_clients s2 = ml_clients s \<and> ml_heap s2 = ml_heap s \<and> ml_free_list s2 = ml_free_list s \<and>
     accepted net (ml_trace s2) = accepted net (ml_trace s) @ take k rest \<and>
     ml_ctxs s2 c = Some x' \<and> cl_is_connected x' \<and> cx_net x' = net \<and> grp_ok (ml_ctxs s2) (ml_used_ctxs s2) c"
proof -
  define s1 where "s1 = ml_log (ClSend net rest (int k)) s"
  have v1: "ml_ctxs s1 c = Some x" "ml_clients s1 = ml_clients s" "ml_heap s1 = ml_heap s" "grp_ok (ml_ctxs s1) (ml_used_ctxs s1) c"
    "ml_free_list s1 = ml_free_list s" "accepted net (ml_trace s1) = accepted net (ml_trace s) @ take k rest"
    using assms(1,3,8) by (simp_all add: s1_def ml_log_def)
  have ns: "net_send env (cx_net x) rest s = (int k, s1)" using assms(7,8) by (simp add: net_send_def assms(4) s1_def Let_def)
  from touch[OF v1(1,4), of env] obtain h u tr x' where t: "(if HAS_CONNECTION x then do {
             let (now, s) = ml_time env s1;
             s \<leftarrow> mx_upd (\<lambda>x. cl_ctx_timeout_update x now) c s;
             if A_GROUP_MEMBER x then used_ctxs_TO_sort c s else Some s }
           else Some s1) = Some (s1\<lparr>ml_ctxs := h, ml_used_ctxs := u, ml_trace := tr\<rparr>)"
     "\<forall>net. accepted net tr = accepted net (ml_trace s1)" "h c = Some x'" "cx_flags x' = cx_flags x" "cx_net x' = cx_net x" "grp_ok h u c" by blast
  define s2 where "s2 = s1\<lparr>ml_ctxs := h, ml_used_ctxs := u, ml_trace := tr\<rparr>"
  have cn: "cl_is_connected x'" using assms(5) t(4) by (simp add: cl_is_connected_def cx_has_def)
  have "cl_ctx_part_send env c s = do {
        s \<leftarrow> (if of_nat k \<noteq> TX_PART_BUF_SZ (cd_tx_part d)
             then cd_upd (\<lambda>d. d\<lparr>cd_tx_part := tx_part_addup (of_nat k) (cd_tx_part d)\<rparr>) c s2 else tx_part_reset c s2);
        Some (int k, s) }"
    using assms(1,2,6,8) ns t(1) by (simp add: cl_ctx_part_send_def s2_def[symmetric])
  then show ?thesis using t v1 cn assms(4) by (intro exI[of _ s2] exI[of _ x']) (simp add: s2_def)
qed

lemma part_send_more:
  assumes "tx_run s c net rest" "ce_send env (ml_trace s) net rest = int k" "0 < k" "k < length rest"
  shows "\<exists>s'. cl_ctx_part_send env c s = Some (int k, s') \<and> part_more s s' c net rest k"
proof -
  obtain x d where xd: "ml_ctxs s c = Some x" "ml_clients s c = Some d" "desc_ok (ml_heap s) d" "grp_ok (ml_ctxs s) (ml_used_ctxs s) c"
    "cx_net x = net" "net \<noteq> - 1" "cl_is_connected x" "tx_offset (cd_tx_part d) \<le> tx_length (cd_tx_part d)" "tx_part_bytes (cd_tx_part d) s = Some rest"
    using assms(1) unfolding tx_run_def by blast
  let ?tx = "tx_part_addup (of_nat k) (cd_tx_part d)"
  note dr = tx_bytes_drop[OF xd(9,8) less_imp_le[OF assms(4)]]
  have len: "unat (TX_PART_BUF_SZ (cd_tx_part d)) = length rest" by (rule dr(3)) simp
  have "unat (of_nat k :: u32) = k"
    using assms(4) len unsigned_less[of "TX_PART_BUF_SZ (cd_tx_part d)", where 'a = nat] by (simp add: unat_of_nat_eq)
  then have ne: "(of_nat k :: u32) \<noteq> TX_PART_BUF_SZ (cd_tx_part d)" using len assms(4) by auto
  obtain s2 x' where 2: "cl_ctx_part_send env c s = do {
        s \<leftarrow> (if of_nat k \<noteq> TX_PART_BUF_SZ (cd_tx_part d)
             then cd_upd (\<lambda>d. d\<lparr>cd_tx_part := tx_part_addup (of_nat k) (cd_tx_part d)\<rparr>) c s2 else tx_part_reset c s2);
        Some (int k, s) }" "ml_clients s2 = ml_clients s" "ml_heap s2 = ml_heap s"
     "accepted net (ml_trace s2) = accepted net (ml_trace s) @ take k rest"
     "ml_ctxs s2 c = Some x'" "cl_is_connected x'" "cx_net x' = net" "grp_ok (ml_ctxs s2) (ml_used_ctxs s2) c"
    using part_send_step[OF xd(1,2,4,5,7,9) assms(2,3)] by blast
  define s3 where "s3 = s2\<lparr>ml_clients := (ml_clients s)(c \<mapsto> d\<lparr>cd_tx_part := ?tx\<rparr>)\<rparr>"
  have "cl_ctx_part_send env c s = Some (int k, s3)"
    using 2(1,2) xd(2) ne by (simp add: cd_upd_def s3_def)
  moreover have "tx_run s3 c net (drop k rest)"
    unfolding tx_run_def using dr(1,2)[of s3] 2 xd(3,6)
    by (intro exI[of _ x'] exI[of _ "d\<lparr>cd_tx_part := ?tx\<rparr>"]) (simp add: s3_def desc_ok_def tx_part_addup_def)
  moreover have "\<exists>d tx. ml_clients s c = Some d \<and> ml_clients s3 c = Some (d\<lparr>cd_tx_part := tx\<rparr>)"
    using xd(2) by (intro exI[of _ d] exI[of _ ?tx]) (simp add: s3_def)
  ultimately show ?thesis using 2(3,4) by (intro exI[of _ s3]) (simp add: part_more_def s3_def)
qed

lemma part_send_all:
  assumes "tx_run s c net rest" "ce_send env (ml_trace s) net rest = int (length rest)" "rest \<noteq> []"
  shows "\<exists>s'. cl_ctx_part_send env c s = Some (int (length rest), s') \<and> part_all s s' c net rest"
proof -
  obtain x d where xd: "ml_ctxs s c = Some x" "ml_clients s c = Some d" "desc_ok (ml_heap s) d" "grp_ok (ml_ctxs s) (ml_used_ctxs s) c"
    "cx_net x = net" "net \<noteq> - 1" "cl_is_connected x" "tx_offset (cd_tx_part d) \<le> tx_length (cd_tx_part d)" "tx_part_bytes (cd_tx_part d) s = Some rest"
    using assms(1) unfolding tx_run_def by blast
  have "unat (TX_PART_BUF_SZ (cd_tx_part d)) = length rest" using tx_bytes_drop(3)[OF xd(9,8)] by blast
  then have eq: "of_nat (length rest) = TX_PART_BUF_SZ (cd_tx_part d)" by (metis of_nat_unat ucast_id)
  obtain s2 x' where 2: "cl_ctx_part_send env c s = do {
        s \<leftarrow> (if of_nat (length rest) \<noteq> TX_PART_BUF_SZ (cd_tx_part d)
             then cd_upd (\<lambda>d. d\<lparr>cd_tx_part := tx_part_addup (of_nat (length rest)) (cd_tx_part d)\<rparr>) c s2 else tx_part_reset c s2);
        Some (int (length rest), s) }" and v2: "ml_clients s2 = ml_clients s" "ml_heap s2 = ml_heap s" "ml_free_list s2 = ml_free_list s"
     "accepted net (ml_trace s2) = accepted net (ml_trace s) @ rest"
     "ml_ctxs s2 c = Some x'" "cl_is_connected x'" "cx_net x' = net" "grp_ok (ml_ctxs s2) (ml_used_ctxs s2) c"
    using part_send_step[OF xd(1,2,4,5,7,9) assms(2)] assms(3) by auto
  have ps: "ml_clients s2 c = Some d" "length (tx_vh_msg (cd_tx_part d)) = VH_MSG_LEN" "\<forall>a. tx_mqp (cd_tx_part d) = Some a \<longrightarrow> ml_heap s2 a \<noteq> None"
    using xd(2,3) v2(1,2) by (simp_all add: desc_ok_def)
  define d3 where "d3 = d\<lparr>cd_tx_part := tx_done (cd_tx_part d)\<rparr>"
  obtain h' f' where r: "tx_part_reset c s2 = Some (s2\<lparr>ml_heap := h', ml_free_list := f', ml_clients := (ml_clients s2)(c \<mapsto> d3)\<rparr>)"
      "case tx_mqp (cd_tx_part d) of None \<Rightarrow> h' = ml_heap s2 \<and> f' = ml_free_list s2 | Some a \<Rightarrow> cl_mqp_free a s2 = Some (s2\<lparr>ml_heap := h', ml_free_list := f'\<rparr>)"
    using tx_reset_total[OF ps] unfolding d3_def by blast
  define s3 where "s3 = s2\<lparr>ml_heap := h', ml_free_list := f', ml_clients := (ml_clients s2)(c \<mapsto> d3)\<rparr>"
  have v3: "ml_heap s3 = h'" "ml_free_list s3 = f'" "ml_clients s3 c = Some d3" "grp_ok (ml_ctxs s3) (ml_used_ctxs s3) c" "ml_ctxs s3 c = Some x'"
    "ml_trace s3 = ml_trace s2" using v2(5,8) by (simp_all add: s3_def)
  have "cl_ctx_part_send env c s = Some (int (length rest), s3)" using 2 eq r(1) by (simp add: s3_def)
  moreover have "tx_idle s3 c net" unfolding tx_idle_def using v2(6,7) v3
    by (intro exI[of _ x'] exI[of _ d3]) (simp add: d3_def tx_done_def)
  moreover have "case tx_mqp (cd_tx_part d) of
        None \<Rightarrow> ml_heap s3 = ml_heap s \<and> ml_free_list s3 = ml_free_list s
      | Some a \<Rightarrow> \<exists>t t'. ml_heap t = ml_heap s \<and> ml_free_list t = ml_free_list s \<and> cl_mqp_free a t = Some t' \<and>
          ml_heap s3 = ml_heap t' \<and> ml_free_list s3 = ml_free_list t'"
  proof (cases "tx_mqp (cd_tx_part d)")
    case (Some a)
    then have "cl_mqp_free a s2 = Some (s2\<lparr>ml_heap := h', ml_free_list := f'\<rparr>)" using r(2) by simp
    then show ?thesis unfolding Some option.case v3 using v2(2,3)
      by (intro exI[of _ s2] exI[of _ "s2\<lparr>ml_heap := h', ml_free_list := f'\<rparr>"] conjI) simp_all
  qed (use r(2) v2(2,3) v3 in simp)
  then have "tx_left s s3 c" unfolding tx_left_def using xd(2) v3(3,4) unfolding d3_def by (intro exI[of _ d] conjI)
  ultimately show ?thesis using v2(4) v3(6) by (intro exI[of _ s3]) (simp add: part_all_def)
qed

definition part_outcome :: "mqtt_lib \<Rightarrow> mqtt_lib \<Rightarrow> nat \<Rightarrow> i32 \<Rightarrow> u8 list \<Rightarrow> i32 \<Rightarrow> bool" where
  "part_outcome s s' c net rest rv \<longleftrightarrow> rv = - 1 \<and> part_lost s s' c net \<or>
     (\<exists>k. rv = int k \<and> 0 < k \<and> k < length rest \<and> part_more s s' c net rest k) \<or>
     rv = int (length rest) \<and> part_all s s' c net rest"

lemma part_send:
  assumes "tx_run s c net rest" "rest \<noteq> []" "send_ok env"
  shows "\<exists>rv s'. cl_ctx_part_send env c s = Some (rv, s') \<and> part_outcome s s' c net rest rv"
proof (cases "ce_send env (ml_trace s) net rest \<le> 0")
  case True
  then show ?thesis using part_send_lost[OF assms(1) True] unfolding part_outcome_def by blast
next
  case False
  then obtain k where k: "ce_send env (ml_trace s) net rest = int k" "0 < k" by (metis linorder_not_le zero_less_imp_eq_int)
  have "k \<le> length rest" using assms(3) k(1) by (metis send_ok_def of_nat_le_iff)
  then show ?thesis
    using part_send_more[OF assms(1) k] part_send_all[OF assms(1) _ assms(2), of env] k unfolding part_outcome_def
    by (cases "k = length rest") auto
qed

section \<open>A whole message\<close>

text \<open>An application that calls \<open>mqtt_client_send_progress\<close> as long as data is left, at most \<open>k\<close> times.\<close>

fun send_rest :: "client_env \<Rightarrow> nat \<Rightarrow> nat \<Rightarrow> i32 \<Rightarrow> mqtt_lib \<Rightarrow> (i32 \<times> mqtt_lib) option" where
  "send_rest env c 0 rv s = Some (rv, s)"
| "send_rest env c (Suc k) rv s =
     (if rv \<le> 0 then Some (rv, s)
      else do {
        d \<leftarrow> ml_clients s c;
        if TX_PART_BUF_SZ (cd_tx_part d) = 0 then Some (rv, s)
        else do { (rv, s) \<leftarrow> mqtt_client_send_progress env (Some c) s; send_rest env c k rv s } })"

lemma tx_run_size: "tx_run s c net rest \<Longrightarrow> \<exists>d. ml_clients s c = Some d \<and> unat (TX_PART_BUF_SZ (cd_tx_part d)) = length rest"
  unfolding tx_run_def using tx_bytes_drop(3) by blast

lemma tx_run_pending: "tx_run s c net rest \<Longrightarrow> rest \<noteq> [] \<Longrightarrow> \<exists>d. ml_clients s c = Some d \<and> TX_PART_BUF_SZ (cd_tx_part d) \<noteq> 0"
  using tx_run_size by (metis length_0_conv unsigned_0)

lemma tx_idle_size: "tx_idle s c net \<Longrightarrow> \<exists>d. ml_clients s c = Some d \<and> TX_PART_BUF_SZ (cd_tx_part d) = 0"
  unfolding tx_idle_def TX_PART_BUF_SZ_def by auto

lemma progress:
  assumes "tx_run s c net rest" "rest \<noteq> []" "send_ok env"
  shows "\<exists>rv s'. mqtt_client_send_progress env (Some c) s = Some (rv, s') \<and>
     (rv = - 1 \<and> tx_lost s' c \<and> accepted net (ml_trace s') = accepted net (ml_trace s) \<or>
      rv = 0 \<and> tx_idle s' c net \<and> accepted net (ml_trace s') = accepted net (ml_trace s) @ rest \<or>
      (\<exists>k. 0 < k \<and> k < length rest \<and> 0 < rv \<and> tx_run s' c net (drop k rest) \<and> accepted net (ml_trace s') = accepted net (ml_trace s) @ take k rest))"
proof -
  obtain d where d: "ml_clients s c = Some d" "TX_PART_BUF_SZ (cd_tx_part d) \<noteq> 0" using tx_run_pending[OF assms(1,2)] by blast
  obtain rv s' where r: "cl_ctx_part_send env c s = Some (rv, s')" "part_outcome s s' c net rest rv"
    using part_send[OF assms] by blast
  from r(2) consider (lost) "rv = - 1" "part_lost s s' c net" | (more) k where "rv = int k" "0 < k" "k < length rest" "part_more s s' c net rest k"
    | (all) "rv = int (length rest)" "part_all s s' c net rest" unfolding part_outcome_def by blast
  then show ?thesis
  proof cases
    case lost
    then obtain d' where "ml_clients s' c = Some d'" by (auto simp: part_lost_def)
    then show ?thesis using d r(1) lost by (simp add: mqtt_client_send_progress_def part_lost_def)
  next
    case more
    obtain d' where d': "ml_clients s' c = Some d'" "unat (TX_PART_BUF_SZ (cd_tx_part d')) = length rest - k"
      using more(4) tx_run_size by (fastforce simp: part_more_def)
    have "mqtt_client_send_progress env (Some c) s = Some (uint (TX_PART_BUF_SZ (cd_tx_part d')), s')"
      using d r(1) more(1,2) d'(1) by (simp add: mqtt_client_send_progress_def)
    moreover have "0 < uint (TX_PART_BUF_SZ (cd_tx_part d'))" using d'(2) more(3) by (simp add: uint_int_unat del: of_nat_unat)
    ultimately show ?thesis using more by (auto simp: part_more_def)
  next
    case all
    then obtain d' where d': "ml_clients s' c = Some d'" "TX_PART_BUF_SZ (cd_tx_part d') = 0"
      using tx_idle_size[of s' c net] by (auto simp: part_all_def)
    have "mqtt_client_send_progress env (Some c) s = Some (0, s')" using d r(1) all(1) d' assms(2) by (simp add: mqtt_client_send_progress_def)
    then show ?thesis using all by (simp add: part_all_def)
  qed
qed

lemma send_rest_run:
  "tx_run s c net rest \<Longrightarrow> rest \<noteq> [] \<Longrightarrow> send_ok env \<Longrightarrow> length rest \<le> k \<Longrightarrow> 0 < r \<Longrightarrow>
   \<exists>rv s'. send_rest env c k r s = Some (rv, s') \<and>
     (0 \<le> rv \<and> tx_idle s' c net \<and> accepted net (ml_trace s') = accepted net (ml_trace s) @ rest \<or>
      rv < 0 \<and> tx_lost s' c \<and> (\<exists>j < length rest. accepted net (ml_trace s') = accepted net (ml_trace s) @ take j rest))"
proof (induction k arbitrary: s rest r)
  case (Suc k)
  obtain d where d: "ml_clients s c = Some d" "TX_PART_BUF_SZ (cd_tx_part d) \<noteq> 0" using tx_run_pending[OF Suc.prems(1,2)] by blast
  obtain rv s' where r: "mqtt_client_send_progress env (Some c) s = Some (rv, s')"
     "rv = - 1 \<and> tx_lost s' c \<and> accepted net (ml_trace s') = accepted net (ml_trace s) \<or>
      rv = 0 \<and> tx_idle s' c net \<and> accepted net (ml_trace s') = accepted net (ml_trace s) @ rest \<or>
      (\<exists>k. 0 < k \<and> k < length rest \<and> 0 < rv \<and> tx_run s' c net (drop k rest) \<and> accepted net (ml_trace s') = accepted net (ml_trace s) @ take k rest)"
    using progress[OF Suc.prems(1-3)] by blast
  have u: "send_rest env c (Suc k) r s = send_rest env c k rv s'" using d r(1) Suc.prems(5) by simp
  have z: "send_rest env c k rv s' = Some (rv, s')" if "rv \<le> 0" using that by (cases k) simp_all
  from r(2) show ?case
  proof (elim disjE exE conjE)
    assume "rv = - 1" "tx_lost s' c" "accepted net (ml_trace s') = accepted net (ml_trace s)"
    then show ?thesis using u z Suc.prems(2) by (intro exI[of _ "- 1"] exI[of _ s']) auto
  next
    assume "rv = 0" "tx_idle s' c net" "accepted net (ml_trace s') = accepted net (ml_trace s) @ rest"
    then show ?thesis using u z by (intro exI[of _ 0] exI[of _ s']) auto
  next
    fix i assume i: "0 < i" "i < length rest" "0 < rv" "tx_run s' c net (drop i rest)" "accepted net (ml_trace s') = accepted net (ml_trace s) @ take i rest"
    have "drop i rest \<noteq> []" "length (drop i rest) \<le> k" using i(1,2) Suc.prems(4) by auto
    from Suc.IH[OF i(4) this(1) Suc.prems(3) this(2) i(3)] obtain rv' t where t: "send_rest env c k rv s' = Some (rv', t)"
      "0 \<le> rv' \<and> tx_idle t c net \<and> accepted net (ml_trace t) = accepted net (ml_trace s') @ drop i rest \<or>
       rv' < 0 \<and> tx_lost t c \<and> (\<exists>j < length (drop i rest). accepted net (ml_trace t) = accepted net (ml_trace s') @ take j (drop i rest))" by blast
    have tk: "take i rest @ take j (drop i rest) = take (i + j) rest" for j by (simp add: take_add)
    have "\<exists>j < length rest. accepted net (ml_trace t) = accepted net (ml_trace s) @ take j rest"
      if ex: "\<exists>j < length (drop i rest). accepted net (ml_trace t) = accepted net (ml_trace s') @ take j (drop i rest)"
    proof -
      obtain j where j: "j < length (drop i rest)" "accepted net (ml_trace t) = accepted net (ml_trace s') @ take j (drop i rest)" using ex by blast
      then have "i + j < length rest" "accepted net (ml_trace t) = accepted net (ml_trace s) @ take (i + j) rest" using i(2,5) tk by simp_all
      then show ?thesis by blast
    qed
    then show ?thesis using u t i(5) by (intro exI[of _ rv'] exI[of _ t]) auto
  qed
qed simp

text \<open>A client that is connected and has nothing to send.\<close>

definition tx_ready :: "mqtt_lib \<Rightarrow> nat \<Rightarrow> i32 \<Rightarrow> bool" where
  "tx_ready s c net \<longleftrightarrow> tx_idle s c net \<and> net \<noteq> - 1 \<and> (\<exists>d. ml_clients s c = Some d \<and> desc_ok (ml_heap s) d) \<and>
     grp_ok (ml_ctxs s) (ml_used_ctxs s) c"

lemma setup_packet:
  assumes "tx_ready s c net" "ml_heap s a = Some m" "MQP_FHEADER_BUF m + unat (MQP_CONTENT_LEN m) \<le> length (p_buffer m)"
  shows "\<exists>s1. cl_ctx_seg1_send env c (TxMqp a (MQP_FHEADER_BUF m)) (MQP_CONTENT_LEN m) False s = cl_ctx_part_send env c s1 \<and>
     tx_run s1 c net (mqp_content m) \<and> ml_trace s1 = ml_trace s \<and> ml_heap s1 = ml_heap s \<and>
     (\<exists>d tx. ml_clients s c = Some d \<and> ml_clients s1 c = Some (d\<lparr>cd_tx_part := tx\<rparr>) \<and> tx_mqp tx = Some a)"
proof -
  obtain x d where xd: "ml_ctxs s c = Some x" "ml_clients s c = Some d" "cx_net x = net" "cl_is_connected x"
    "tx_length (cd_tx_part d) = 0" "tx_offset (cd_tx_part d) = 0" "desc_ok (ml_heap s) d" "net \<noteq> - 1" "grp_ok (ml_ctxs s) (ml_used_ctxs s) c"
    using assms(1) by (auto simp: tx_ready_def tx_idle_def)
  let ?tx = "(cd_tx_part d)\<lparr>tx_buffer := MQP_FHEADER_BUF m, tx_length := MQP_CONTENT_LEN m, tx_mqp := Some a\<rparr>"
  define s1 where "s1 = s\<lparr>ml_clients := (ml_clients s)(c \<mapsto> d\<lparr>cd_tx_part := ?tx\<rparr>)\<rparr>"
  have "cl_ctx_seg1_send env c (TxMqp a (MQP_FHEADER_BUF m)) (MQP_CONTENT_LEN m) False s = cl_ctx_part_send env c s1"
    using xd(1,2,4-6) by (simp add: cl_ctx_seg1_send_def TX_PART_BUF_SZ_def tx_part_setup_def cd_upd_def s1_def)
  moreover have "tx_part_bytes ?tx s1 = Some (mqp_content m)"
    using assms(2,3) xd(6) by (simp add: tx_part_bytes_def TX_PART_BUF_SZ_def s1_def mqp_content_def Let_def)
  then have "tx_run s1 c net (mqp_content m)" unfolding tx_run_def
    using xd assms(2) by (intro exI[of _ x] exI[of _ "d\<lparr>cd_tx_part := ?tx\<rparr>"]) (simp add: s1_def desc_ok_def)
  moreover have "\<exists>d tx. ml_clients s c = Some d \<and> ml_clients s1 c = Some (d\<lparr>cd_tx_part := tx\<rparr>) \<and> tx_mqp tx = Some a"
    using xd(2) by (intro exI[of _ d] exI[of _ ?tx]) (simp add: s1_def)
  ultimately show ?thesis by (intro exI[of _ s1]) (simp add: s1_def)
qed

definition sends_all :: "mqtt_lib \<Rightarrow> mqtt_lib \<Rightarrow> nat \<Rightarrow> i32 \<Rightarrow> i32 \<Rightarrow> u8 list \<Rightarrow> bool" where
  "sends_all s s' c net rv w \<longleftrightarrow>
     0 \<le> rv \<and> tx_idle s' c net \<and> accepted net (ml_trace s') = accepted net (ml_trace s) @ w \<or>
     rv < 0 \<and> tx_lost s' c \<and> (\<exists>j < length w. accepted net (ml_trace s') = accepted net (ml_trace s) @ take j w)"

lemma send_rest_idle: "tx_idle t c net \<Longrightarrow> send_rest env c k rv t = Some (rv, t)"
  using tx_idle_size[of t c net] by (cases k) auto

lemma send_rest_rest:
  assumes "tx_run t c net (drop k w)" "0 < k" "k < length w" "accepted net (ml_trace t) = accepted net (ml_trace s) @ take k w" "send_ok env" "0 < r"
  shows "\<exists>rv s2. send_rest env c (length w) r t = Some (rv, s2) \<and> sends_all s s2 c net rv w"
proof -
  have n: "drop k w \<noteq> []" "length (drop k w) \<le> length w" using assms(2,3) by auto
  obtain rv s2 where r: "send_rest env c (length w) r t = Some (rv, s2)"
    "0 \<le> rv \<and> tx_idle s2 c net \<and> accepted net (ml_trace s2) = accepted net (ml_trace t) @ drop k w \<or>
     rv < 0 \<and> tx_lost s2 c \<and> (\<exists>j < length (drop k w). accepted net (ml_trace s2) = accepted net (ml_trace t) @ take j (drop k w))"
    using send_rest_run[OF assms(1) n(1) assms(5) n(2) assms(6)] by blast
  have "\<exists>j < length w. accepted net (ml_trace s2) = accepted net (ml_trace s) @ take j w"
    if ex: "\<exists>j < length (drop k w). accepted net (ml_trace s2) = accepted net (ml_trace t) @ take j (drop k w)"
  proof -
    obtain j where j: "j < length (drop k w)" "accepted net (ml_trace s2) = accepted net (ml_trace t) @ take j (drop k w)" using ex by blast
    then have "k + j < length w" "accepted net (ml_trace s2) = accepted net (ml_trace s) @ take (k + j) w" using assms(3,4) by (simp_all add: take_add)
    then show ?thesis by blast
  qed
  then show ?thesis using r assms(4) by (intro exI[of _ rv] exI[of _ s2]) (auto simp: sends_all_def)
qed

lemma send_rest_more:
  assumes "tx_run s c net w" "w \<noteq> []" "send_ok env" "cl_ctx_part_send env c s = Some (r, s1)"
  shows "\<exists>rv s2. send_rest env c (length w) r s1 = Some (rv, s2) \<and> sends_all s s2 c net rv w"
proof -
  have z: "send_rest env c k rv t = Some (rv, t)" if "rv \<le> 0" for k rv t using that by (cases k) simp_all
  have "part_outcome s s1 c net w r" using part_send[OF assms(1-3)] assms(4) by auto
  then consider (lost) "r = - 1" "part_lost s s1 c net" | (more) k where "r = int k" "0 < k" "k < length w" "part_more s s1 c net w k"
    | (all) "r = int (length w)" "part_all s s1 c net w" unfolding part_outcome_def by blast
  then show ?thesis
  proof cases
    case lost
    then show ?thesis using z[of "- 1"] assms(2) by (intro exI[of _ "- 1"] exI[of _ s1]) (auto simp: sends_all_def part_lost_def)
  next
    case more
    then show ?thesis using send_rest_rest[OF _ more(2,3) _ assms(3)] by (simp add: part_more_def)
  next
    case all
    then show ?thesis using send_rest_idle[of s1 c net env "length w" r]
      by (intro exI[of _ r] exI[of _ s1]) (simp add: sends_all_def part_all_def)
  qed
qed

text \<open>
  C9: a message that is handed to the transmission in parts reaches the network
  exactly and in order, however the network cuts it: after \<open>cl_ctx_seg1_send\<close> and calls of
  \<open>mqtt_client_send_progress\<close> while data is left, at most one per byte, either all bytes have been
  accepted and the client is ready for the next message, or a proper prefix has been
  accepted and the connection is given up.
\<close>

theorem message_in_order:
  assumes "tx_ready s c net" "send_ok env" "ml_heap s a = Some m" "0 < unat (MQP_CONTENT_LEN m)"
    "MQP_FHEADER_BUF m + unat (MQP_CONTENT_LEN m) \<le> length (p_buffer m)"
  shows "\<exists>r s1 rv s2. cl_ctx_seg1_send env c (TxMqp a (MQP_FHEADER_BUF m)) (MQP_CONTENT_LEN m) False s = Some (r, s1) \<and>
     send_rest env c (unat (MQP_CONTENT_LEN m)) r s1 = Some (rv, s2) \<and>
     (0 \<le> rv \<and> tx_idle s2 c net \<and> accepted net (ml_trace s2) = accepted net (ml_trace s) @ mqp_content m \<or>
      rv < 0 \<and> tx_lost s2 c \<and> (\<exists>j < unat (MQP_CONTENT_LEN m). accepted net (ml_trace s2) = accepted net (ml_trace s) @ take j (mqp_content m)))"
proof -
  obtain s0 where s0: "cl_ctx_seg1_send env c (TxMqp a (MQP_FHEADER_BUF m)) (MQP_CONTENT_LEN m) False s = cl_ctx_part_send env c s0"
    "tx_run s0 c net (mqp_content m)" "ml_trace s0 = ml_trace s" using setup_packet[OF assms(1,3,5)] by blast
  have w: "length (mqp_content m) = unat (MQP_CONTENT_LEN m)" "mqp_content m \<noteq> []" using assms(4,5) by (auto simp: mqp_content_def)
  obtain r s1 where 1: "cl_ctx_part_send env c s0 = Some (r, s1)" using part_send[OF s0(2) w(2) assms(2)] by blast
  from send_rest_more[OF s0(2) w(2) assms(2) 1] show ?thesis using s0(1,3) 1 w(1) by (auto simp: sends_all_def)
qed

section \<open>A sample client\<close>

text \<open>Context 0 is connected on handle 5 with an empty pool but for packet 1; the network accepts one byte at a time.\<close>

definition sample_cx :: client_ctx where
  "sample_cx = \<lparr>cx_usr = None, cx_net = 5, cx_remote_ip = [], cx_ip_length = 0, cx_timeout = 100, cx_ka_secs = 0,
     cx_flags = NOW_CONNECTED_FLAG, cx_next = None\<rparr>"

definition sample_desc :: client_desc where
  "sample_desc = \<lparr>cd_conn_pl_utf8s = replicate 5 None, cd_will_opts = 0, cd_qos_ack1_wl = \<lparr>wl_head = None, wl_tail = None\<rparr>,
     cd_qos2_rx_cq = qos2_pub_cq_reset \<lparr>cq_id_vec = [], cq_n_free = 0, cq_rd_idx = 0, cq_wr_idx = 0\<rparr>,
     cd_qos2_tx_cq = qos2_pub_cq_reset \<lparr>cq_id_vec = [], cq_n_free = 0, cq_rd_idx = 0, cq_wr_idx = 0\<rparr>,
     cd_publish_rx = None, cd_ack_notify = None, cd_disconn_cb = None,
     cd_tx_part = \<lparr>tx_mqp = None, tx_vh_msg = [0, 0, 0, 0], tx_buffer = 0, tx_length = 0, tx_offset = 0\<rparr>,
     cd_rx_mqp = None, cd_app = None, cd_nwconn_opts = 0, cd_server_addr = Some 0, cd_port_number = 1883,
     cd_nw_security = \<lparr>sc_method = None, sc_cipher = None, sc_n_file = 0, sc_files = None\<rparr>\<rparr>"

definition sample_lib :: mqtt_lib where
  "sample_lib = \<lparr>ml_msg_id = 0xFFFF, ml_init_done = True, ml_loopb_portid = 0, ml_grp_has_cbfn = False, ml_free_ctxs = None,
     ml_used_ctxs = None, ml_conn_ctxs = None, ml_ctxs = [0 \<mapsto> sample_cx], ml_clients = [0 \<mapsto> sample_desc], ml_loopb_net = - 1,
     ml_recv_hvec = [], ml_net_ops = True,
     ml_heap = [1 \<mapsto> sample_tx\<lparr>p_maxlen := 32, p_buffer := replicate 32 0, p_free_hook := True\<rparr>], ml_free_list = Some 1, ml_trace = []\<rparr>"

definition sample_env :: client_env where
  "sample_env = \<lparr>ce_open = (\<lambda>_ _ _ _ _. - 1), ce_send = (\<lambda>_ _ bs. min 1 (int (length bs))), ce_recv = (\<lambda>_ _ _ _. (0, [], False)),
     ce_send_dest = (\<lambda>_ _ _. 0), ce_recv_from = (\<lambda>_ _. 0), ce_io_mon = (\<lambda>_ _ _. (0, [])), ce_time = (\<lambda>_. 7), ce_publish_rx = (\<lambda>_ _. True)\<rparr>"

lemma sample_facts_client:
  "tx_ready sample_lib 0 5" "send_ok sample_env" "wlist_rep (ml_heap sample_lib) (cd_qos_ack1_wl sample_desc) []" "ml_clients sample_lib 0 = Some sample_desc"
  by (simp_all add: tx_ready_def tx_idle_def sample_lib_def sample_cx_def sample_desc_def cl_is_connected_def cx_has_def desc_ok_def grp_ok_def
    send_ok_def sample_env_def wlist_rep_def)

definition sample_out :: mqtt_packet where
  "sample_out = sample_tx\<lparr>p_fh_len := 2, p_pl_len := 3\<rparr>"

definition sample_busy :: mqtt_lib where
  "sample_busy = sample_lib\<lparr>ml_heap := [1 \<mapsto> sample_out], ml_free_list := None\<rparr>"

lemma sample_busy_facts:
  "tx_ready sample_busy 0 5" "ml_heap sample_busy 1 = Some sample_out" "MQP_FHEADER_BUF sample_out = 5" "MQP_CONTENT_LEN sample_out = 5"
  "length (p_buffer sample_out) = 16"
  by (simp_all add: sample_busy_def sample_out_def sample_tx_def tx_ready_def tx_idle_def sample_lib_def sample_cx_def sample_desc_def cl_is_connected_def
    cx_has_def desc_ok_def grp_ok_def wlist_rep_def MQP_FHEADER_BUF_def MQP_CONTENT_LEN_def)

lemma sample_out_content: "mqp_content sample_out = [0, 0, 0, 0, 0]"
  by code_simp

theorem message_in_order_witness:
  "\<exists>r s1 rv s2. cl_ctx_seg1_send sample_env 0 (TxMqp 1 5) 5 False sample_busy = Some (r, s1) \<and>
     send_rest sample_env 0 5 r s1 = Some (rv, s2) \<and>
     (0 \<le> rv \<and> tx_idle s2 0 5 \<and> accepted 5 (ml_trace s2) = [0, 0, 0, 0, 0] \<or>
      rv < 0 \<and> tx_lost s2 0 \<and> (\<exists>j < 5. accepted 5 (ml_trace s2) = take j [0, 0, 0, 0, 0]))"
proof -
  have "accepted 5 (ml_trace sample_busy) = []" by (simp add: sample_busy_def sample_lib_def)
  then show ?thesis
    using message_in_order[OF sample_busy_facts(1) sample_facts_client(2) sample_busy_facts(2), unfolded sample_busy_facts(3-5) sample_out_content] by simp
qed

end
