(* ===== verification/ClientPub.thy ===== *)
theory ClientPub
  imports ClientTx
begin

text \<open>
  A message from the application of a client to the network: the packet that is built is
  transmitted, and a packet that has to be acknowledged is put into the wait list, whether its
  transmission is complete or not.
\<close>

section \<open>The wait list beside a transmission\<close>

lemma wlist_rep_other: "wlist_rep h wl ps \<Longrightarrow> (\<And>b. b \<in> set ps \<Longrightarrow> wnext h' b = wnext h b) \<Longrightarrow> wlist_rep h' wl ps"
  using seg_cong unfolding wlist_rep_def by metis

text \<open>Writing to a packet that does not wait leaves the client ready.\<close>

lemma ready_other:
  assumes "tx_ready s c net" "ml_clients s c = Some d" "wlist_rep (ml_heap s) (cd_qos_ack1_wl d) ps" "a \<notin> set ps"
    "ml_ctxs s' = ml_ctxs s" "ml_clients s' = ml_clients s" "ml_used_ctxs s' = ml_used_ctxs s" "ml_heap s' = (ml_heap s)(a \<mapsto> m)"
  shows "tx_ready s' c net \<and> wlist_rep (ml_heap s') (cd_qos_ack1_wl d) ps"
proof -
  have wl: "wlist_rep (ml_heap s') (cd_qos_ack1_wl d) ps"
    by (rule wlist_rep_other[OF assms(3)]) (use assms(4,8) in \<open>auto simp: wnext_def\<close>)
  have "desc_ok (ml_heap s) d" using assms(1,2) by (auto simp: tx_ready_def)
  then have "desc_ok (ml_heap s') d" using wl by (auto simp: desc_ok_def assms(8))
  then show ?thesis using assms(1,2,5,6,7) wl by (auto simp: tx_ready_def tx_idle_def)
qed

lemma append_total:
  assumes "ml_clients s c = Some d" "wlist_rep (ml_heap s) (cd_qos_ack1_wl d) ps" "ml_heap s a = Some e" "a \<notin> set ps"
  shows "\<exists>h wl. cl_wlist_append c a s = Some (s\<lparr>ml_heap := h, ml_clients := (ml_clients s)(c \<mapsto> d\<lparr>cd_qos_ack1_wl := wl\<rparr>)\<rparr>) \<and>
     wlist_rep h wl (ps @ [a]) \<and> same_pkts (ml_heap s) h"
proof -
  obtain h wl where r: "mqp_ack_wlist_append (ml_heap s) (cd_qos_ack1_wl d) a = Some (h, wl)" "wlist_rep h wl (ps @ [a])" "same_pkts (ml_heap s) h"
    using append_wlist[OF assms(2-4)] by blast
  have "cl_wlist_append c a s = Some (s\<lparr>ml_heap := h, ml_clients := (ml_clients s)(c \<mapsto> d\<lparr>cd_qos_ack1_wl := wl\<rparr>)\<rparr>)"
    using assms(1) r(1) by (simp add: cl_wlist_append_def cd_upd_def)
  then show ?thesis using r(2,3) by blast
qed

lemma same_pkts_get:
  assumes "same_pkts h h'" "h a = Some m"
  shows "\<exists>m'. h' a = Some m' \<and> p_buffer m' = p_buffer m"
proof -
  have e: "map_option (p_next_update (\<lambda>_. None)) (h a) = map_option (p_next_update (\<lambda>_. None)) (h' a)" using assms(1) by (simp add: same_pkts_def)
  then obtain m' where m': "h' a = Some m'" "p_next_update (\<lambda>_. None) m' = p_next_update (\<lambda>_. None) m" using assms(2) by (cases "h' a") auto
  from arg_cong[OF m'(2), of p_buffer] m'(1) show ?thesis by simp
qed

lemma tx_bytes_same:
  assumes "tx_part_bytes tx s = Some w" "same_pkts (ml_heap s) (ml_heap s')"
  shows "tx_part_bytes tx s' = Some w"
proof (cases "tx_mqp tx")
  case None
  then show ?thesis using assms(1) by (simp add: tx_part_bytes_def)
next
  case (Some a)
  then obtain m where m: "ml_heap s a = Some m" using assms(1) by (auto simp: tx_part_bytes_def split: Option.bind_splits)
  obtain m' where "ml_heap s' a = Some m'" "p_buffer m' = p_buffer m" using same_pkts_get[OF assms(2) m] by blast
  then show ?thesis using assms(1) Some m by (simp add: tx_part_bytes_def)
qed

lemma tx_run_append:
  assumes "tx_run s c net rest" "ml_clients s c = Some d" "same_pkts (ml_heap s) h" "wlist_rep h wl qs"
  shows "tx_run (s\<lparr>ml_heap := h, ml_clients := (ml_clients s)(c \<mapsto> d\<lparr>cd_qos_ack1_wl := wl\<rparr>)\<rparr>) c net rest"
proof -
  let ?s = "s\<lparr>ml_heap := h, ml_clients := (ml_clients s)(c \<mapsto> d\<lparr>cd_qos_ack1_wl := wl\<rparr>)\<rparr>"
  obtain x where x: "ml_ctxs s c = Some x" "desc_ok (ml_heap s) d" "grp_ok (ml_ctxs s) (ml_used_ctxs s) c" "cx_net x = net" "net \<noteq> - 1"
    "cl_is_connected x" "tx_offset (cd_tx_part d) \<le> tx_length (cd_tx_part d)" "tx_part_bytes (cd_tx_part d) s = Some rest"
    using assms(1,2) by (auto simp: tx_run_def)
  have "tx_part_bytes (cd_tx_part d) ?s = Some rest" using tx_bytes_same[OF x(8), of ?s] assms(3) by simp
  moreover have hd: "h a \<noteq> None \<longleftrightarrow> ml_heap s a \<noteq> None" for a using same_pkts_dom[OF assms(3)] by (metis domIff)
  moreover have "desc_ok h (d\<lparr>cd_qos_ack1_wl := wl\<rparr>)" using x(2) assms(4) hd unfolding desc_ok_def by (auto simp del: not_None_eq)
  ultimately show ?thesis unfolding tx_run_def using x by (intro exI[of _ x] exI[of _ "d\<lparr>cd_qos_ack1_wl := wl\<rparr>"]) simp
qed

lemma tx_idle_append:
  assumes "tx_idle s c net" "ml_clients s c = Some d"
  shows "tx_idle (s\<lparr>ml_heap := h, ml_clients := (ml_clients s)(c \<mapsto> d\<lparr>cd_qos_ack1_wl := wl\<rparr>)\<rparr>) c net"
  using assms by (auto simp: tx_idle_def)

section \<open>\<open>_msg_dispatch\<close>\<close>

text \<open>The end of \<open>msg_dispatch\<close>, by the result of the first transmission.\<close>

definition dispatch_end :: "nat \<Rightarrow> nat \<Rightarrow> mqtt_qos \<Rightarrow> u16 \<Rightarrow> i32 \<Rightarrow> mqtt_lib \<Rightarrow> (i32 \<times> mqtt_lib) option" where
  "dispatch_end c a qos mid rv s =
     (if rv \<le> 0 \<and> qos \<noteq> 0 then do { s \<leftarrow> cl_mqp_free a s; Some (rv, s) }
      else do { s \<leftarrow> (if qos \<noteq> 0 then cl_wlist_append c a s else Some s); Some (uint mid, s) })"

lemma dispatch_lost:
  assumes "part_lost s1 s2 c net" "a \<in> dom (ml_heap s1)"
  shows "\<exists>s3. dispatch_end c a qos mid (- 1) s2 = Some (if qos = 0 then uint mid else - 1, s3) \<and>
     tx_lost s3 c \<and> accepted net (ml_trace s3) = accepted net (ml_trace s1)"
proof (cases "qos = 0")
  case True
  then show ?thesis using assms by (simp add: dispatch_end_def part_lost_def)
next
  case False
  obtain e where "ml_heap s2 a = Some e" using assms by (auto simp: part_lost_def)
  then obtain h f where f: "cl_mqp_free a s2 = Some (s2\<lparr>ml_heap := h, ml_free_list := f\<rparr>)" using mqp_free_total by blast
  have "tx_lost (s2\<lparr>ml_heap := h, ml_free_list := f\<rparr>) c" using assms(1) by (simp add: part_lost_def tx_lost_def)
  then show ?thesis using f False assms(1) by (simp add: dispatch_end_def part_lost_def)
qed

lemma dispatch_more:
  assumes "part_more s1 s2 c net w k" "0 < k" "k < length w" "ml_clients s1 c = Some d" "wlist_rep (ml_heap s1) (cd_qos_ack1_wl d) ps"
    "ml_heap s1 a = Some m" "a \<notin> set ps" "send_ok env" "ml_trace s1 = ml_trace s"
  shows "\<exists>s3 rv s4. dispatch_end c a qos mid (int k) s2 = Some (uint mid, s3) \<and>
     send_rest env c (length w) 1 s3 = Some (rv, s4) \<and> sends_all s s4 c net rv w"
proof -
  obtain tx where d2: "ml_clients s2 c = Some (d\<lparr>cd_tx_part := tx\<rparr>)" using assms(1,4) by (auto simp: part_more_def)
  have v2: "tx_run s2 c net (drop k w)" "accepted net (ml_trace s2) = accepted net (ml_trace s) @ take k w" "ml_heap s2 = ml_heap s1"
    using assms(1,9) by (simp_all add: part_more_def)
  show ?thesis
  proof (cases "qos = 0")
    case True
    then show ?thesis using send_rest_rest[OF v2(1) assms(2,3) v2(2) assms(8), of 1] assms(2) by (auto simp: dispatch_end_def)
  next
    case False
    have wl2: "wlist_rep (ml_heap s2) (cd_qos_ack1_wl (d\<lparr>cd_tx_part := tx\<rparr>)) ps" and a2: "ml_heap s2 a = Some m"
      using assms(5,6) v2(3) by simp_all
    obtain h wl where h: "cl_wlist_append c a s2 = Some (s2\<lparr>ml_heap := h, ml_clients := (ml_clients s2)(c \<mapsto> (d\<lparr>cd_tx_part := tx\<rparr>)\<lparr>cd_qos_ack1_wl := wl\<rparr>)\<rparr>)"
      "wlist_rep h wl (ps @ [a])" "same_pkts (ml_heap s2) h" using append_total[OF d2 wl2 a2 assms(7)] by blast
    let ?s = "s2\<lparr>ml_heap := h, ml_clients := (ml_clients s2)(c \<mapsto> (d\<lparr>cd_tx_part := tx\<rparr>)\<lparr>cd_qos_ack1_wl := wl\<rparr>)\<rparr>"
    have "tx_run ?s c net (drop k w)" by (rule tx_run_append[OF v2(1) d2 h(3,2)])
    moreover have "accepted net (ml_trace ?s) = accepted net (ml_trace s) @ take k w" using v2(2) by simp
    moreover have "dispatch_end c a qos mid (int k) s2 = Some (uint mid, ?s)" using h(1) False assms(2) by (simp add: dispatch_end_def)
    ultimately show ?thesis using send_rest_rest[OF _ assms(2,3) _ assms(8), of ?s c net s 1] by auto
  qed
qed

lemma dispatch_all:
  assumes "part_all s1 s2 c net w" "w \<noteq> []" "ml_clients s1 c = Some d" "wlist_rep (ml_heap s1) (cd_qos_ack1_wl d) ps"
    "ml_heap s1 a = Some m" "a \<notin> set ps" "tx_mqp (cd_tx_part d) = Some a" "ml_trace s1 = ml_trace s"
  shows "\<exists>s3 rv s4. dispatch_end c a qos mid (int (length w)) s2 = Some (uint mid, s3) \<and>
     send_rest env c (length w) 1 s3 = Some (rv, s4) \<and> sends_all s s4 c net rv w"
proof -
  let ?d = "d\<lparr>cd_tx_part := tx_done (cd_tx_part d)\<rparr>"
  have v2: "tx_idle s2 c net" "accepted net (ml_trace s2) = accepted net (ml_trace s) @ w" "tx_left s1 s2 c"
    using assms(1,8) by (simp_all add: part_all_def)
  obtain t t' where t: "ml_heap t = ml_heap s1" "cl_mqp_free a t = Some t'" "ml_heap s2 = ml_heap t'" and d2: "ml_clients s2 c = Some ?d"
    using v2(3) assms(3,7) unfolding tx_left_def by auto
  have at: "ml_heap t a = Some m" using t(1) assms(5) by simp
  obtain hh ff where hf: "cl_mqp_free a t = Some (t\<lparr>ml_heap := hh, ml_free_list := ff\<rparr>)" "dom hh = dom (ml_heap t)" "\<And>b. b \<noteq> a \<Longrightarrow> hh b = ml_heap t b"
    using mqp_free_total[OF at] by blast
  have h2: "ml_heap s2 = hh" using t(2,3) hf(1) by auto
  obtain e where e: "ml_heap s2 a = Some e" using hf(2) at h2 by (metis domD domI)
  show ?thesis
  proof (cases "qos = 0")
    case True
    then show ?thesis using v2 send_rest_idle[OF v2(1), of env "length w" 1] assms(2) by (simp add: sends_all_def dispatch_end_def)
  next
    case False
    have "wnext (ml_heap s2) b = wnext (ml_heap s1) b" if "b \<in> set ps" for b
      using that assms(6) hf(3) t(1) h2 by (metis wnext_def)
    then have wl2: "wlist_rep (ml_heap s2) (cd_qos_ack1_wl ?d) ps" using wlist_rep_other[OF assms(4)] by simp
    obtain h wl where h: "cl_wlist_append c a s2 = Some (s2\<lparr>ml_heap := h, ml_clients := (ml_clients s2)(c \<mapsto> ?d\<lparr>cd_qos_ack1_wl := wl\<rparr>)\<rparr>)"
      using append_total[OF d2 wl2 e assms(6)] by blast
    let ?s = "s2\<lparr>ml_heap := h, ml_clients := (ml_clients s2)(c \<mapsto> ?d\<lparr>cd_qos_ack1_wl := wl\<rparr>)\<rparr>"
    have id: "tx_idle ?s c net" by (rule tx_idle_append[OF v2(1) d2])
    have "sends_all s ?s c net 1 w" using id v2(2) by (simp add: sends_all_def)
    moreover have "dispatch_end c a qos mid (int (length w)) s2 = Some (uint mid, ?s)" using h False assms(2) by (simp add: dispatch_end_def)
    ultimately show ?thesis using send_rest_idle[OF id, of env "length w" 1] by blast
  qed
qed

lemma dispatch_tx:
  assumes "tx_ready s c net" "send_ok env" "ml_clients s c = Some d" "wlist_rep (ml_heap s) (cd_qos_ack1_wl d) ps"
    "ml_heap s a = Some m" "a \<notin> set ps" "mqp_prep_fh m (MAKE_FH_FLAGS False qos retain) = Some (r3, m')"
    "MQP_FHEADER_BUF m' + unat (MQP_CONTENT_LEN m') \<le> length (p_buffer m')" "mqp_content m' \<noteq> []"
  shows "\<exists>r s1. msg_dispatch env c a qos retain s = Some (r, s1) \<and>
     (tx_lost s1 c \<and> accepted net (ml_trace s1) = accepted net (ml_trace s) \<and> r = (if qos = 0 then uint (p_msg_id m) else - 1) \<or>
      r = uint (p_msg_id m) \<and>
      (\<exists>rv s2. send_rest env c (length (mqp_content m')) 1 s1 = Some (rv, s2) \<and> sends_all s s2 c net rv (mqp_content m')))"
proof -
  let ?w = "mqp_content m'" and ?mid = "p_msg_id m"
  define m2 where "m2 = (if qos \<noteq> 0 then m'\<lparr>p_n_refs := p_n_refs m' + 1\<rparr> else m')"
  have v: "MQP_FHEADER_BUF m2 = MQP_FHEADER_BUF m'" "MQP_CONTENT_LEN m2 = MQP_CONTENT_LEN m'" "p_buffer m2 = p_buffer m'" "mqp_content m2 = ?w"
    by (simp_all add: m2_def MQP_FHEADER_BUF_def MQP_CONTENT_LEN_def mqp_content_def)
  define s0 where "s0 = pk_put a m2 s"
  have v0: "ml_ctxs s0 = ml_ctxs s" "ml_clients s0 = ml_clients s" "ml_trace s0 = ml_trace s" "ml_used_ctxs s0 = ml_used_ctxs s" "ml_heap s0 = (ml_heap s)(a \<mapsto> m2)"
    by (simp_all add: s0_def pk_put_def)
  have rd: "tx_ready s0 c net" and wl0: "wlist_rep (ml_heap s0) (cd_qos_ack1_wl d) ps"
    using ready_other[OF assms(1,3,4,6) v0(1,2,4,5)] by blast+
  have a0: "ml_heap s0 a = Some m2" by (simp add: v0)
  have fit: "MQP_FHEADER_BUF m2 + unat (MQP_CONTENT_LEN m2) \<le> length (p_buffer m2)" using assms(8) v by simp
  obtain s1 tx where 1: "cl_ctx_seg1_send env c (TxMqp a (MQP_FHEADER_BUF m2)) (MQP_CONTENT_LEN m2) False s0 = cl_ctx_part_send env c s1"
    "tx_run s1 c net ?w" "ml_trace s1 = ml_trace s" "ml_heap s1 = ml_heap s0" "ml_clients s1 c = Some (d\<lparr>cd_tx_part := tx\<rparr>)" "tx_mqp tx = Some a"
    using setup_packet[OF rd a0 fit, of env] assms(3) v(4) v0(2,3) by auto
  have wl1: "wlist_rep (ml_heap s1) (cd_qos_ack1_wl (d\<lparr>cd_tx_part := tx\<rparr>)) ps" and a1: "ml_heap s1 a = Some m2"
    using wl0 a0 1(4) by simp_all
  obtain rv s2 where 2: "cl_ctx_part_send env c s1 = Some (rv, s2)" "part_outcome s1 s2 c net ?w rv"
    using part_send[OF 1(2) assms(9,2)] by blast
  have run: "msg_dispatch env c a qos retain s = dispatch_end c a qos ?mid rv s2"
    using assms(5,7) 1(1) 2(1) by (simp add: msg_dispatch_def dispatch_end_def Let_def m2_def s0_def split del: if_split)
  from 2(2) consider (lost) "rv = - 1" "part_lost s1 s2 c net" | (more) k where "rv = int k" "0 < k" "k < length ?w" "part_more s1 s2 c net ?w k"
    | (all) "rv = int (length ?w)" "part_all s1 s2 c net ?w" unfolding part_outcome_def by blast
  then show ?thesis
  proof cases
    case lost
    have "a \<in> dom (ml_heap s1)" using a1 by blast
    from dispatch_lost[OF lost(2) this, of qos ?mid] show ?thesis unfolding run lost(1) using 1(3) by auto
  next
    case more
    then show ?thesis unfolding run using dispatch_more[OF more(4,2,3) 1(5) wl1 a1 assms(6,2) 1(3), of qos ?mid] by auto
  next
    case all
    have tm: "tx_mqp (cd_tx_part (d\<lparr>cd_tx_part := tx\<rparr>)) = Some a" using 1(6) by simp
    show ?thesis unfolding run using dispatch_all[OF all(2) assms(9) 1(5) wl1 a1 assms(6) tm 1(3), of qos ?mid env] all(1) by auto
  qed
qed

section \<open>Publishing\<close>

text \<open>What a receiver finds in a PUBLISH.\<close>

definition reads_publish :: "mqtt_packet \<Rightarrow> u8 list \<Rightarrow> c8 list \<Rightarrow> u8 list \<Rightarrow> u16 \<Rightarrow> mqtt_qos \<Rightarrow> bool \<Rightarrow> bool" where
  "reads_publish rx w topic data mid qos retain \<longleftrightarrow>
     (\<forall>tail ks. \<exists>rx' ks' m. mqp_recv stream_recv rx (w @ tail, ks) = Some (int (length w), rx', (tail, ks')) \<and>
        mqp_proc_pub_rx rx' = Some (True, m) \<and> pub_topic_of m = topic \<and> pub_payload_of m = data \<and> p_msg_id m = mid \<and>
        ENUM_QOS (p_fh_byte1 m) = qos \<and> BOOL_RETAIN (p_fh_byte1 m) = retain)"

text \<open>The packet that \<open>mqtt_client_pub_msg_send\<close> hands to \<open>_msg_dispatch\<close>.\<close>

lemma pub_send_build:
  assumes "ml_free_list s = Some a" "ml_heap s a = Some m" "unat (p_maxlen m) \<le> length (p_buffer m)" "unat (p_maxlen m) \<le> 0xFFFF"
    "mid = (if qos = 0 then 0 else ml_msg_id s + 2)" "u_valid topic" "0 < u_length topic" "data \<noteq> []"
    "5 + length (pub_vheader (u_content topic) mid) + length data \<le> unat (p_maxlen m)"
  shows "\<exists>m2 r3 m'. mqtt_client_pub_msg_send env (Some c) (Some topic) (Some data) (of_nat (length data)) qos retain s =
       msg_dispatch env c a qos retain
         (s\<lparr>ml_free_list := p_next m, ml_msg_id := (if qos = 0 then ml_msg_id s else mid), ml_heap := (ml_heap s)(a \<mapsto> m2)\<rparr>) \<and>
     mqp_prep_fh m2 (MAKE_FH_FLAGS False qos retain) = Some (r3, m') \<and> p_msg_id m2 = mid \<and>
     mqp_content m' = pub_wire (MAKE_FH_FLAGS False qos retain) (u_content topic) mid data \<and>
     MQP_FHEADER_BUF m' + unat (MQP_CONTENT_LEN m') \<le> length (p_buffer m')"
proof -
  let ?fl = "MAKE_FH_FLAGS False qos retain"
  define m0 where "m0 = (mqp_init m (of_nat MAX_FH_LEN))\<lparr>p_msg_type := MQTT_PUBLISH\<rparr>"
  have m0: "mqp_fresh m0" "p_maxlen m0 = p_maxlen m" "length (p_buffer m0) = length (p_buffer m)"
    using assms(3) by (simp_all add: m0_def mqp_fresh_def mqp_init_def mqp_reset_def MAX_FH_LEN_def)
  have mx: "unat (p_maxlen m0) \<le> 0xFFFF" "5 + length (pub_vheader (u_content topic) mid) + length data \<le> unat (p_maxlen m0)"
    using assms(4,9) m0(2) by simp_all
  obtain r1 m1 r2 m2 r3 m' where b: "mqp_pub_append_topic m0 topic mid = Some (r1, m1)" "0 \<le> r1"
     "mqp_pub_append_data m1 data (of_nat (length data)) = Some (r2, m2)" "0 \<le> r2" "mqp_prep_fh m2 ?fl = Some (r3, m')"
     "mqp_content m' = pub_wire ?fl (u_content topic) mid data" "p_msg_id m' = mid" "MQP_FHEADER_BUF m' + unat (MQP_CONTENT_LEN m') \<le> unat (p_maxlen m0)"
     "length (p_buffer m') = length (p_buffer m0)"
    using pub_build_steps[OF m0(1) assms(6) mx, of ?fl] by blast
  have mid2: "p_msg_id m2 = mid" using b(5,7) by (auto simp: mqp_prep_fh_def Let_def split: Option.bind_splits if_splits)
  have dl: "(of_nat (length data) :: u32) \<noteq> 0"
  proof -
    have "unat (of_nat (length data) :: u32) = length data" using assms(4,9) by (intro unat_of_nat_eq) simp
    then show ?thesis using assms(8) by auto
  qed
  have uv: "is_valid_utf8_string topic"
    using assms(6,7) by (auto simp: is_valid_utf8_string_def u_valid_def word_less_nat_alt)
  have "mqtt_client_pub_msg_send env (Some c) (Some topic) (Some data) (of_nat (length data)) qos retain s = msg_dispatch env c a qos retain
      (s\<lparr>ml_free_list := p_next m, ml_msg_id := (if qos = 0 then ml_msg_id s else mid), ml_heap := (ml_heap s)(a \<mapsto> m2)\<rparr>)"
    using assms(1,2,5) b(1-4) dl uv
    by (cases "qos = 0"; simp add: mqtt_client_pub_msg_send_def mqp_client_send_alloc_def mqp_client_alloc_def mqp_alloc_atomic_def assign_new_msg_id_def
      m0_def[symmetric] pk_put_def)
  moreover have "MQP_FHEADER_BUF m' + unat (MQP_CONTENT_LEN m') \<le> length (p_buffer m')" using b(8,9) m0(2,3) assms(3) by simp
  ultimately show ?thesis using b(5,6) mid2 by blast
qed

text \<open>
  C10: publishing from the application of a client to the broker's parser. The packet is taken
  from the pool, and the bytes that the network accepts during the call and the
  following calls of \<open>mqtt_client_send_progress\<close> are the PUBLISH of the topic, the data and
  the next message identifier, in order, or a proper prefix of it when the connection is given up;
  \<open>mqp_recv\<close> and \<open>mqp_proc_pub_rx\<close>, which the broker runs, read the same message from them.
\<close>

theorem client_publish:
  assumes "tx_ready s c net" "send_ok env" "ml_clients s c = Some d" "wlist_rep (ml_heap s) (cd_qos_ack1_wl d) ps"
    and "ml_free_list s = Some a" "a \<notin> set ps" "ml_heap s a = Some m" "unat (p_maxlen m) \<le> length (p_buffer m)" "unat (p_maxlen m) \<le> 0xFFFF"
    and "mid = (if qos = 0 then 0 else ml_msg_id s + 2)" "qos \<noteq> 0 \<longrightarrow> mid \<noteq> 0" "unat qos < 4"
    and "u_valid topic" "0 < u_length topic" "data \<noteq> []" "5 + length (pub_vheader (u_content topic) mid) + length data \<le> unat (p_maxlen m)"
    and "mqp_clean rx" "unat (p_offset rx) + unat (p_maxlen m) \<le> length (p_buffer rx)" "unat (p_maxlen m) \<le> unat (p_maxlen rx)"
    and "w = pub_wire (MAKE_FH_FLAGS False qos retain) (u_content topic) mid data"
  shows "reads_publish rx w (u_content topic) data mid qos retain \<and>
     (\<exists>r s1. mqtt_client_pub_msg_send env (Some c) (Some topic) (Some data) (of_nat (length data)) qos retain s = Some (r, s1) \<and>
       (tx_lost s1 c \<and> accepted net (ml_trace s1) = accepted net (ml_trace s) \<and> r = (if qos = 0 then 0 else - 1) \<or>
        r = uint mid \<and> (\<exists>rv s2. send_rest env c (length w) 1 s1 = Some (rv, s2) \<and> sends_all s s2 c net rv w)))"
proof
  have q: "(mid = 0) = (qos = 0)" using assms(10,11) by auto
  show "reads_publish rx w (u_content topic) data mid qos retain"
    unfolding reads_publish_def assms(20) using pub_wire_received[OF assms(12) q assms(16,9,17-19), of False retain] by blast
next
  obtain m2 r3 m' where b: "mqtt_client_pub_msg_send env (Some c) (Some topic) (Some data) (of_nat (length data)) qos retain s = msg_dispatch env c a qos retain
         (s\<lparr>ml_free_list := p_next m, ml_msg_id := (if qos = 0 then ml_msg_id s else mid), ml_heap := (ml_heap s)(a \<mapsto> m2)\<rparr>)"
     "mqp_prep_fh m2 (MAKE_FH_FLAGS False qos retain) = Some (r3, m')" "p_msg_id m2 = mid" "mqp_content m' = w"
     "MQP_FHEADER_BUF m' + unat (MQP_CONTENT_LEN m') \<le> length (p_buffer m')"
    using pub_send_build[OF assms(5,7-10,13-16), of env c retain] unfolding assms(20) by blast
  define s2 where "s2 = s\<lparr>ml_free_list := p_next m, ml_msg_id := (if qos = 0 then ml_msg_id s else mid), ml_heap := (ml_heap s)(a \<mapsto> m2)\<rparr>"
  have v: "ml_ctxs s2 = ml_ctxs s" "ml_clients s2 = ml_clients s" "ml_used_ctxs s2 = ml_used_ctxs s" "ml_heap s2 = (ml_heap s)(a \<mapsto> m2)" "ml_trace s2 = ml_trace s"
    by (simp_all add: s2_def)
  have rd: "tx_ready s2 c net" "wlist_rep (ml_heap s2) (cd_qos_ack1_wl d) ps" using ready_other[OF assms(1,3,4,6) v(1-4)] by blast+
  have ne: "mqp_content m' \<noteq> []" unfolding b(4) assms(20) pub_wire_def Let_def by simp
  have c2: "ml_clients s2 c = Some d" "ml_heap s2 a = Some m2" using assms(3) v by simp_all
  have se: "sends_all s2 = sends_all s" by (intro ext) (simp only: sends_all_def v(5))
  obtain r s1 where "msg_dispatch env c a qos retain s2 = Some (r, s1)"
     "tx_lost s1 c \<and> accepted net (ml_trace s1) = accepted net (ml_trace s) \<and> r = (if qos = 0 then uint mid else - 1) \<or>
      r = uint mid \<and> (\<exists>rv s3. send_rest env c (length w) 1 s1 = Some (rv, s3) \<and> sends_all s s3 c net rv w)"
    using dispatch_tx[OF rd(1) assms(2) c2(1) rd(2) c2(2) assms(6) b(2,5) ne] unfolding b(3,4) v(5) se by auto
  moreover have "(if qos = 0 then uint mid else - 1) = (if qos = 0 then 0 else - 1 :: int)" using assms(10) by simp
  ultimately show "\<exists>r s1. mqtt_client_pub_msg_send env (Some c) (Some topic) (Some data) (of_nat (length data)) qos retain s = Some (r, s1) \<and>
       (tx_lost s1 c \<and> accepted net (ml_trace s1) = accepted net (ml_trace s) \<and> r = (if qos = 0 then 0 else - 1) \<or>
        r = uint mid \<and> (\<exists>rv s2. send_rest env c (length w) 1 s1 = Some (rv, s2) \<and> sends_all s s2 c net rv w))"
    unfolding b(1) s2_def[symmetric] by metis
qed

lemma sample_publish:
  "unat (p_maxlen (sample_tx\<lparr>p_maxlen := 32, p_buffer := replicate 32 0, p_free_hook := True\<rparr>)) = 32"
  "ml_heap sample_lib 1 = Some (sample_tx\<lparr>p_maxlen := 32, p_buffer := replicate 32 0, p_free_hook := True\<rparr>)" "ml_free_list sample_lib = Some 1"
  "accepted 5 (ml_trace sample_lib) = []" "ml_msg_id sample_lib + 2 = 1"
  by (simp_all add: sample_lib_def)

theorem client_publish_witness:
  "reads_publish sample_in (pub_wire (MAKE_FH_FLAGS False 1 True) (u_content sample_topic) 1 [1, 2]) (u_content sample_topic) [1, 2] 1 1 True \<and>
   (\<exists>r s1. mqtt_client_pub_msg_send sample_env (Some 0) (Some sample_topic) (Some [1, 2]) (of_nat (length [1::u8, 2])) 1 True sample_lib = Some (r, s1) \<and>
     (tx_lost s1 0 \<and> accepted 5 (ml_trace s1) = [] \<and> r = - 1 \<or>
      r = 1 \<and> (\<exists>rv s2. send_rest sample_env 0 (length (pub_wire (MAKE_FH_FLAGS False 1 True) (u_content sample_topic) 1 [1, 2])) 1 s1 = Some (rv, s2) \<and>
        sends_all sample_lib s2 0 5 rv (pub_wire (MAKE_FH_FLAGS False 1 True) (u_content sample_topic) 1 [1, 2]))))"
  using client_publish[OF sample_facts_client(1,2,4,3) sample_publish(3) _ sample_publish(2), of 1 1 sample_topic "[1, 2]" sample_in _ True]
  by (simp add: sample_publish sample_facts length_pub_vheader sample_in_def mqp_clean_def sample_topic_def u_valid_def
    sample_facts(3)[unfolded sample_topic_def])

end
