(* ===== verification/ClientSub.thy ===== *)
theory ClientSub
  imports ClientPub PktsRx
begin

text \<open>
  SUBSCRIBE from the application of a client to the broker's parser, and how the
  library behaves when the topics do not fit.
\<close>

section \<open>Frames\<close>

text \<open>\<open>mqp_prep_fh\<close> on a packet whose body starts right after the space of the fixed header.\<close>

lemma prep_frame:
  assumes "p_offset m = of_nat MAX_FH_LEN" "ucast (p_vh_len m) + p_pl_len m = of_nat (length body)" "length body < 2 ^ 16"
    "5 + length body \<le> length (p_buffer m)" "take (length body) (drop 5 (p_buffer m)) = body"
    "p_fh_len m = 0"
  shows "\<exists>r m'. mqp_prep_fh m flags = Some (r, m') \<and> mqp_content m' = mqp_frame (MAKE_FH_BYTE1 (p_msg_type m) flags) body \<and>
     unat (MQP_CONTENT_LEN m') = length (mqp_frame (MAKE_FH_BYTE1 (p_msg_type m) flags) body) \<and>
     MQP_FHEADER_BUF m' + unat (MQP_CONTENT_LEN m') = 5 + length body \<and> length (p_buffer m') = length (p_buffer m) \<and> p_msg_id m' = p_msg_id m"
proof -
  let ?B = "MAKE_FH_BYTE1 (p_msg_type m) flags" and ?r = "of_nat (length body) :: u32" and ?b = "p_buffer m"
  have l28: "length body < 2 ^ 28" using assms(3) by simp
  have r: "unat ?r = length body" using assms(3) by (simp add: unat_of_nat_eq)
  then obtain vs where vs: "remlen_vals 0 ?r = Some vs" using remlen_vals_None_iff[of ?r] l28 by fastforce
  have n: "1 \<le> length vs" "length vs \<le> 4" using remlen_vals_length[OF vs] remlen_size_bounds[of ?r] by auto
  have o5: "p_offset m = 5" using assms(1) by (simp add: MAX_FH_LEN_def)
  define m' where "m' = m\<lparr>p_buffer := overlay ?b (5 - Suc (length vs)) (?B # vs), p_fh_byte1 := ?B, p_fh_len := of_nat (Suc (length vs)),
     p_offset := 5 - of_nat (Suc (length vs))\<rparr>"
  have 1: "mqp_prep_fh m flags = Some (int (Suc (length vs)), m')"
    using prep_fh_fits[of m vs flags] assms(2,4) vs n o5 by (simp add: m'_def)
  have o: "unat (p_offset m') = 5 - Suc (length vs)"
    using n by (simp add: m'_def unat_sub word_le_nat_alt unat_1_of_nat unat_of_nat_eq)
  have f: "unat (ucast (p_fh_len m') :: u32) = Suc (length vs)"
    using n by (simp add: m'_def unat_ucast_up_simp unat_word_ariths unat_of_nat_eq unat_1_of_nat)
  have "MQP_CONTENT_LEN m' = ucast (p_fh_len m') + ?r" using assms(2) by (simp add: MQP_CONTENT_LEN_def m'_def add.assoc)
  then have c: "unat (MQP_CONTENT_LEN m') = Suc (length vs) + length body"
    using f r n assms(3) by (simp add: unat_word_ariths)
  have "drop (5 - Suc (length vs)) (p_buffer m') = (?B # vs) @ drop 5 ?b"
    using n assms(4) by (simp add: m'_def)
  moreover have "drop 5 ?b = body @ drop (length body) (drop 5 ?b)" using assms(5) append_take_drop_id[of "length body" "drop 5 ?b"] by simp
  ultimately have "take (Suc (length vs) + length body) (drop (5 - Suc (length vs)) (p_buffer m')) = (?B # vs) @ body" by simp
  then have "mqp_content m' = (?B # vs) @ body" unfolding mqp_content_def c MQP_FHEADER_BUF_def o .
  then have w: "mqp_content m' = mqp_frame ?B body" using vs by (simp add: mqp_frame_def)
  have fl: "length (mqp_frame ?B body) = Suc (length vs) + length body" using vs by (simp add: mqp_frame_def)
  have "MQP_FHEADER_BUF m' + unat (MQP_CONTENT_LEN m') = 5 + length body" unfolding c MQP_FHEADER_BUF_def o using n by simp
  moreover have "length (p_buffer m') = length ?b" using n assms(4) by (simp add: m'_def)
  moreover have "p_msg_id m' = p_msg_id m" by (simp add: m'_def)
  ultimately show ?thesis using 1 w c fl by (intro exI[of _ "int (Suc (length vs))"] exI[of _ m']) (simp only:)
qed

text \<open>A received frame: where its body is.\<close>

lemma rx_frame_body:
  assumes "mqp_clean rx" "length body < 2 ^ 16" "unat (p_offset rx) + length (mqp_frame B body) \<le> length (p_buffer rx)"
  shows "\<exists>rest. drop (MQP_VHEADER_BUF (rx_of_frame rx B body)) (p_buffer (rx_of_frame rx B body)) = body @ rest"
    "MQP_VHEADER_BUF (rx_of_frame rx B body) + length body \<le> length (p_buffer (rx_of_frame rx B body))"
    "unat (p_pl_len (rx_of_frame rx B body)) = length body" "p_vh_len (rx_of_frame rx B body) = 0"
proof -
  have l28: "length body < 2 ^ 28" using assms(2) by simp
  have r: "unat (of_nat (length body) :: u32) = length body" using assms(2) by (simp add: unat_of_nat_eq)
  then obtain vs where vs: "remlen_vals 0 (of_nat (length body)) = Some vs" using remlen_vals_None_iff[of "of_nat (length body)"] l28 by fastforce
  have n: "length vs \<le> 4" using remlen_vals_length[OF vs] remlen_size_bounds by auto
  have fr: "mqp_frame B body = (B # vs) @ body" using vs by (simp add: mqp_frame_def)
  have v: "MQP_VHEADER_BUF (rx_of_frame rx B body) = unat (p_offset rx) + Suc (length vs)"
    using n by (simp add: MQP_VHEADER_BUF_def MQP_FHEADER_BUF_def rx_of_frame_def fr unat_of_nat_eq unat_word_ariths)
  have b: "p_buffer (rx_of_frame rx B body) = overlay (p_buffer rx) (unat (p_offset rx)) ((B # vs) @ body)" by (simp add: rx_of_frame_def fr)
  have "drop (unat (p_offset rx)) (p_buffer (rx_of_frame rx B body)) = ((B # vs) @ body) @ drop (unat (p_offset rx) + length ((B # vs) @ body)) (p_buffer rx)"
    unfolding b using assms(3) by (intro drop_overlay_at) simp
  then have "drop (Suc (length vs)) (drop (unat (p_offset rx)) (p_buffer (rx_of_frame rx B body))) = body @ drop (unat (p_offset rx) + length ((B # vs) @ body)) (p_buffer rx)"
    by simp
  then show "\<exists>rest. drop (MQP_VHEADER_BUF (rx_of_frame rx B body)) (p_buffer (rx_of_frame rx B body)) = body @ rest"
    unfolding v by (metis add.commute drop_drop)
  have "length (p_buffer (rx_of_frame rx B body)) = length (p_buffer rx)" unfolding b using assms(3) fr by (intro length_overlay) simp
  then show "MQP_VHEADER_BUF (rx_of_frame rx B body) + length body \<le> length (p_buffer (rx_of_frame rx B body))"
    unfolding v using assms(3) fr by simp
  show "unat (p_pl_len (rx_of_frame rx B body)) = length body" using r by (simp add: rx_of_frame_def)
  show "p_vh_len (rx_of_frame rx B body) = 0" using assms(1) by (simp add: rx_of_frame_def mqp_clean_def)
qed

section \<open>Strings on the wire\<close>

definition utf8_wire :: "utf8_string \<Rightarrow> u8 list" where
  "utf8_wire t = [hi8 (u_length t), lo8 (u_length t)] @ u_content t"

lemma length_utf8_wire: "u_valid t \<Longrightarrow> length (utf8_wire t) = 2 + unat (u_length t)"
  by (simp add: utf8_wire_def u_content_valid)

lemma wr_utf8_wire:
  assumes "u_valid t" "d + length (utf8_wire t) \<le> length buf"
  shows "buf_wr_utf8 buf d t = Some (length (utf8_wire t), overlay buf d (utf8_wire t))"
proof -
  let ?h = "[hi8 (u_length t), lo8 (u_length t)]"
  have l: "length (utf8_wire t) = 2 + unat (u_length t)" by (rule length_utf8_wire[OF assms(1)])
  have c: "take (unat (u_length t)) (u_buffer t) = u_content t" by (simp add: u_content_def)
  have "overlay (overlay buf d ?h) (d + 2) (u_content t) = overlay buf d (utf8_wire t)"
    using overlay_overlay[of d ?h buf "u_content t"] assms(2) l by (simp add: utf8_wire_def)
  then show ?thesis using assms l c by (simp add: buf_wr_utf8_def mem_simps u_valid_def)
qed

lemma rd_nbo_drop: "drop d buf = hi8 v # lo8 v # rest \<Longrightarrow> buf_rd_nbo_2B buf d = Some v"
proof -
  assume a: "drop d buf = hi8 v # lo8 v # rest"
  have "length buf - d = Suc (Suc (length rest))" using arg_cong[OF a, of length] by simp
  then have l: "Suc d < length buf" by linarith
  have "buf ! d = hi8 v" "buf ! Suc d = lo8 v"
    using a l nth_drop[of d buf 0] nth_drop[of d buf 1] by simp_all
  then show ?thesis using l by (simp add: buf_rd_nbo_2B_eq)
qed

lemma rd_utf8_wire:
  assumes "drop d buf = utf8_wire t @ rest" "u_valid t" "d + length (utf8_wire t) \<le> lim"
  shows "\<exists>u. mqp_buf_rd_utf8 buf d lim = Some (Some (length (utf8_wire t), u)) \<and> u_length u = u_length t \<and> u_content u = u_content t"
proof -
  let ?u = "\<lparr>u_buffer = (if u_length t \<noteq> 0 then drop (d + 2) buf else []), u_length = u_length t\<rparr>"
  have l: "length (utf8_wire t) = 2 + unat (u_length t)" by (rule length_utf8_wire[OF assms(2)])
  have 1: "drop d buf = hi8 (u_length t) # lo8 (u_length t) # u_content t @ rest" using assms(1) by (simp add: utf8_wire_def)
  have "drop 2 (drop d buf) = u_content t @ rest" unfolding 1 by (simp add: numeral_2_eq_2)
  then have 2: "drop (d + 2) buf = u_content t @ rest" by (simp add: add.commute)
  have g: "\<not> lim - d < 2" "\<not> lim - (d + 2) < unat (u_length t)" using assms(3) l by linarith+
  have "mqp_buf_rd_utf8 buf d lim = Some (Some (length (utf8_wire t), ?u))"
    using rd_nbo_drop[OF 1] g l by (simp add: mqp_buf_rd_utf8_def)
  moreover have "u_content ?u = u_content t"
  proof (cases "u_length t = 0")
    case False
    then show ?thesis unfolding u_content_def[of ?u] using 2 u_content_valid[OF assms(2)] by simp
  qed (simp add: u_content_def)
  ultimately show ?thesis by (intro exI[of _ ?u]) simp
qed

section \<open>The topics of a SUBSCRIBE\<close>

definition topic_wire :: "utf8_string \<times> u8 \<Rightarrow> u8 list" where
  "topic_wire = (\<lambda>(t, q). utf8_wire t @ [q])"

abbreviation topics_wire :: "(utf8_string \<times> u8) list \<Rightarrow> u8 list" where
  "topics_wire ts \<equiv> concat (map topic_wire ts)"

definition topic_ok :: "utf8_string \<times> u8 \<Rightarrow> bool" where
  "topic_ok = (\<lambda>(t, q). u_valid t \<and> 0 < u_length t \<and> q \<noteq> QFL_VALUE)"

text \<open>The guard of the space in \<open>buf_utf8_wr_try\<close> never holds.\<close>

lemma utf8_guard: "\<not> fsz < (if (ucast (l :: u16) + 2 + of_bool b :: u32) \<noteq> 0 then 0 else 1 :: u32)"
proof -
  have "unat l < 2 ^ 16" using unsigned_less[of l, where 'a = nat] by simp
  then have "unat (ucast l + 2 + of_bool b :: u32) = unat l + 2 + of_bool b"
    by (simp add: unat_word_ariths unat_ucast_up_simp)
  then have "(ucast l + 2 + of_bool b :: u32) \<noteq> 0" by (metis add_is_0 numeral_eq_iff unsigned_0 zero_neq_numeral)
  then show ?thesis by simp
qed

lemma utf8_wr_try:
  assumes "topic_ok (t, q)"
  shows "buf_utf8_wr_try buf d fsz t q =
     (if d + length (topic_wire (t, q)) \<le> length buf then Some (int (length (topic_wire (t, q))), overlay buf d (topic_wire (t, q))) else None)"
proof -
  have t: "u_valid t" "0 < u_length t" "q \<noteq> QFL_VALUE" using assms by (simp_all add: topic_ok_def)
  have v: "is_valid_utf8_string t" using t by (auto simp: is_valid_utf8_string_def u_valid_def word_less_nat_alt)
  let ?l = "length (utf8_wire t)"
  have l: "?l = 2 + unat (u_length t)" by (rule length_utf8_wire[OF t(1)])
  have un: "buf_utf8_wr_try buf d fsz t q = do { (n, buf) \<leftarrow> buf_wr_utf8 buf d t; buf \<leftarrow> buf_put buf (d + n) q; Some (int (n + 1), buf) }"
    unfolding buf_utf8_wr_try_def using utf8_guard[of fsz "u_length t" "QFL_VALUE = q"] v t(3) by auto
  show ?thesis
  proof (cases "d + ?l \<le> length buf")
    case True
    have w: "buf_wr_utf8 buf d t = Some (?l, overlay buf d (utf8_wire t))" by (rule wr_utf8_wire[OF t(1) True])
    have "(overlay buf d (utf8_wire t))[d + ?l := q] = overlay buf d (utf8_wire t @ [q])" if "d + ?l < length buf"
    proof -
      have "overlay (overlay buf d (utf8_wire t)) (d + ?l) [q] = overlay buf d (utf8_wire t @ [q])" using that by (intro overlay_overlay) simp
      moreover have "overlay (overlay buf d (utf8_wire t)) (d + ?l) [q] = (overlay buf d (utf8_wire t))[d + ?l := q]"
        using overlay_Cons[of "d + ?l" "overlay buf d (utf8_wire t)" q "[]"] that by simp
      ultimately show ?thesis by simp
    qed
    then show ?thesis unfolding un using w True by (auto simp: buf_put_def topic_wire_def)
  next
    case False
    have "buf_wr_utf8 buf d t = None" using False l t(2)
      by (auto simp: buf_wr_utf8_def mem_simps word_less_nat_alt)
    then show ?thesis unfolding un using False by (simp add: topic_wire_def)
  qed
qed

text \<open>The loop: either everything is written, or memory behind the buffer is.\<close>

lemma utf8_array_loop_spec:
  assumes "\<forall>p \<in> set ts. topic_ok p" "d \<le> length buf"
  shows "utf8_array_loop ts lim buf d =
     (if d + length (topics_wire ts) \<le> length buf then Some (0, overlay buf d (topics_wire ts), d + length (topics_wire ts)) else None)"
  using assms
proof (induction ts arbitrary: buf d)
  case (Cons p ts)
  obtain t q where p: "p = (t, q)" by fastforce
  have ok: "topic_ok (t, q)" using Cons.prems(1) p by simp
  let ?w = "topic_wire (t, q)"
  show ?case
  proof (cases "d + length ?w \<le> length buf")
    case True
    have lo: "length (overlay buf d ?w) = length buf" using True by simp
    have s: "utf8_array_loop (p # ts) lim buf d = utf8_array_loop ts lim (overlay buf d ?w) (d + length ?w)"
      using p True utf8_wr_try[OF ok] by simp
    have "overlay (overlay buf d ?w) (d + length ?w) (topics_wire ts) = overlay buf d (?w @ topics_wire ts)"
      if "d + length ?w + length (topics_wire ts) \<le> length buf" using that by (intro overlay_overlay) simp
    then show ?thesis unfolding s using Cons.IH[of "d + length ?w" "overlay buf d ?w"] Cons.prems(1) True lo p by (simp add: add.assoc)
  next
    case False
    then show ?thesis using p utf8_wr_try[OF ok] by simp
  qed
qed simp

text \<open>The broker's loop reads the same topics.\<close>

lemma rd_utf8_qos_wire:
  assumes "topic_ok (t, q)" "drop d buf = topic_wire (t, q) @ rest" "d + length (topic_wire (t, q)) \<le> lim"
  shows "\<exists>x. buf_rd_utf8_qos buf d lim = Some (Some (length (topic_wire (t, q)), x)) \<and> take (unat (q_length x)) (q_buffer x) = u_content t \<and> q_qosreq x = q"
proof -
  have t: "u_valid t" using assms(1) by (simp add: topic_ok_def)
  have 1: "drop d buf = utf8_wire t @ q # rest" using assms(2) by (simp add: topic_wire_def)
  have le: "d + length (utf8_wire t) < lim" using assms(3) by (simp add: topic_wire_def)
  obtain u where u: "mqp_buf_rd_utf8 buf d lim = Some (Some (length (utf8_wire t), u))" "u_length u = u_length t" "u_content u = u_content t"
    using rd_utf8_wire[OF 1 t less_imp_le[OF le]] by blast
  have d: "drop (d + length (utf8_wire t)) buf = q # rest"
  proof -
    have "drop (length (utf8_wire t)) (drop d buf) = q # rest" unfolding 1 by simp
    then show ?thesis by (simp add: add.commute)
  qed
  have lt: "d + length (utf8_wire t) < length buf"
  proof (rule ccontr)
    assume "\<not> d + length (utf8_wire t) < length buf"
    then show False using d by simp
  qed
  then have "buf ! (d + length (utf8_wire t)) = q" using d nth_drop[of "d + length (utf8_wire t)" buf 0] by simp
  then have "buf_rd_utf8_qos buf d lim = Some (Some (length (utf8_wire t) + 1, \<lparr>q_buffer = u_buffer u, q_length = u_length u, q_qosreq = q\<rparr>))"
    using u(1) le lt by (simp add: buf_rd_utf8_qos_def buf_get_def)
  then show ?thesis using u(3) by (simp add: topic_wire_def u_content_def)
qed

lemma topics_read:
  "\<forall>p \<in> set ts. topic_ok p \<Longrightarrow> drop d buf = topics_wire ts @ rest \<Longrightarrow> length ts \<le> n \<Longrightarrow> d + length (topics_wire ts) = lim \<Longrightarrow>
   \<exists>xs. topics_loop buf_rd_utf8_qos buf d lim n = Some (xs, lim) \<and>
     map (\<lambda>x. (take (unat (q_length x)) (q_buffer x), q_qosreq x)) xs = map (\<lambda>(t, q). (u_content t, q)) ts"
proof (induction ts arbitrary: d n)
  case Nil
  then show ?case by (cases n) simp_all
next
  case (Cons p ts)
  obtain t q where p: "p = (t, q)" by fastforce
  obtain n' where n: "n = Suc n'" using Cons.prems(3) by (cases n) simp_all
  let ?w = "topic_wire (t, q)"
  have ok: "topic_ok (t, q)" using Cons.prems(1) p by simp
  have 1: "drop d buf = ?w @ topics_wire ts @ rest" using Cons.prems(2) p by simp
  have 2: "drop (d + length ?w) buf = topics_wire ts @ rest"
  proof -
    have "drop (length ?w) (drop d buf) = topics_wire ts @ rest" unfolding 1 by simp
    then show ?thesis by (simp add: add.commute)
  qed
  have le: "d + length ?w \<le> lim" "d < lim" using Cons.prems(4) p by (auto simp: topic_wire_def)
  obtain x where x: "buf_rd_utf8_qos buf d lim = Some (Some (length ?w, x))" "take (unat (q_length x)) (q_buffer x) = u_content t" "q_qosreq x = q"
    using rd_utf8_qos_wire[OF ok 1 le(1)] by blast
  obtain xs where "topics_loop buf_rd_utf8_qos buf (d + length ?w) lim n' = Some (xs, lim)"
     "map (\<lambda>x. (take (unat (q_length x)) (q_buffer x), q_qosreq x)) xs = map (\<lambda>(t, q). (u_content t, q)) ts"
    using Cons.IH[OF _ 2, of n'] Cons.prems(1,3,4) n p by (auto simp: add.assoc)
  then show ?case using x n le(2) p by simp
qed

section \<open>Subscribing\<close>

abbreviation sub_topics :: "utf8_strqos list \<Rightarrow> (utf8_string \<times> u8) list" where
  "sub_topics \<equiv> map (\<lambda>q. (\<lparr>u_buffer = q_buffer q, u_length = q_length q\<rparr>, q_qosreq q))"

definition sub_wire :: "u16 \<Rightarrow> (utf8_string \<times> u8) list \<Rightarrow> u8 list" where
  "sub_wire mid ts = mqp_frame (MAKE_FH_BYTE1 MQTT_SUBSCRIBE (MAKE_FH_FLAGS False MQTT_QOS1 False)) ([hi8 mid, lo8 mid] @ topics_wire ts)"

definition reads_subscribe :: "mqtt_packet \<Rightarrow> u8 list \<Rightarrow> (utf8_string \<times> u8) list \<Rightarrow> u16 \<Rightarrow> bool" where
  "reads_subscribe rx w ts mid \<longleftrightarrow>
     (\<forall>tail ks. \<exists>rx' ks' xs m. mqp_recv stream_recv rx (w @ tail, ks) = Some (int (length w), rx', (tail, ks')) \<and>
        parse_sub_msg rx' = Some (True, xs, m) \<and> p_msg_id m = mid \<and>
        map (\<lambda>x. (take (unat (q_length x)) (q_buffer x), q_qosreq x)) xs = map (\<lambda>(t, q). (u_content t, q)) ts)"

lemma sub_received:
  assumes "\<forall>p \<in> set ts. topic_ok p" "ts \<noteq> []" "length ts \<le> MQP_MAX_TOPICS" "7 + length (topics_wire ts) \<le> M" "M \<le> 0xFFFF"
    "mqp_clean rx" "unat (p_offset rx) + M \<le> length (p_buffer rx)" "M \<le> unat (p_maxlen rx)"
  shows "reads_subscribe rx (sub_wire mid ts) ts mid"
  unfolding reads_subscribe_def
proof (intro allI)
  fix tail ks
  let ?B = "MAKE_FH_BYTE1 MQTT_SUBSCRIBE (MAKE_FH_FLAGS False MQTT_QOS1 False)" and ?tw = "topics_wire ts"
  let ?body = "[hi8 mid, lo8 mid] @ ?tw" and ?w = "sub_wire mid ts"
  have len: "length ?body < 2 ^ 16" using assms(4,5) by simp
  then have l28: "length ?body < 2 ^ 28" by simp
  have fl: "length (mqp_frame ?B ?body) \<le> M"
    using assms(4) remlen_size_bounds[of "of_nat (length ?body)"] unfolding mqp_frame_length[OF l28] by simp
  note clean = assms(6)[unfolded mqp_clean_def]
  obtain ks' where rx: "mqp_recv stream_recv rx (mqp_frame ?B ?body @ tail, ks) =
      Some (int (length (mqp_frame ?B ?body)), rx_of_frame rx ?B ?body, (tail, ks'))"
    using mqp_recv_frame[OF _ _ l28, of rx ?B tail ks] clean fl assms(7,8) by auto
  define rx' where "rx' = rx_of_frame rx ?B ?body"
  have fit: "unat (p_offset rx) + length (mqp_frame ?B ?body) \<le> length (p_buffer rx)" using fl assms(7) by linarith
  obtain rest where r: "drop (MQP_VHEADER_BUF rx') (p_buffer rx') = ?body @ rest" "MQP_VHEADER_BUF rx' + length ?body \<le> length (p_buffer rx')"
    "unat (p_pl_len rx') = length ?body" "p_vh_len rx' = 0" using rx_frame_body[OF assms(6) len fit] unfolding rx'_def by blast
  define m where "m = rx'\<lparr>p_msg_id := mid, p_vh_len := p_vh_len rx' + 2, p_pl_len := p_pl_len rx' - 2\<rparr>"
  have hd: "buf_rd_nbo_2B (p_buffer rx') (MQP_VHEADER_BUF rx') = Some mid" using rd_nbo_drop[of "MQP_VHEADER_BUF rx'" "p_buffer rx'" mid "?tw @ rest"] r(1) by simp
  have nl: "\<not> p_pl_len rx' < 2" using r(3) by (simp add: word_less_nat_alt)
  have vh: "mqp_proc_vh_msg_id_rx rx' = Some (True, m)" using hd nl by (simp add: mqp_proc_vh_msg_id_rx_def m_def)
  have pl: "unat (p_pl_len m) = length ?tw"
    using r(3) unat_sub[of 2 "p_pl_len rx'"] by (simp add: m_def word_le_nat_alt)
  have pb: "MQP_PAYLOAD_BUF m = MQP_VHEADER_BUF rx' + 2" "p_buffer m = p_buffer rx'" using r(4)
    by (simp_all add: MQP_PAYLOAD_BUF_def MQP_VHEADER_BUF_def MQP_FHEADER_BUF_def m_def)
  have "drop 2 (drop (MQP_VHEADER_BUF rx') (p_buffer rx')) = ?tw @ rest" unfolding r(1) by (simp add: numeral_2_eq_2)
  then have dr: "drop (MQP_PAYLOAD_BUF m) (p_buffer m) = ?tw @ rest" unfolding pb by (simp add: add.commute)
  have lim: "MQP_PAYLOAD_BUF m + length ?tw = MQP_PAYLOAD_BUF m + unat (p_pl_len m)" using pl by simp
  obtain xs where xs: "topics_loop buf_rd_utf8_qos (p_buffer m) (MQP_PAYLOAD_BUF m) (MQP_PAYLOAD_BUF m + unat (p_pl_len m)) MQP_MAX_TOPICS =
        Some (xs, MQP_PAYLOAD_BUF m + unat (p_pl_len m))"
     "map (\<lambda>x. (take (unat (q_length x)) (q_buffer x), q_qosreq x)) xs = map (\<lambda>(t, q). (u_content t, q)) ts"
    using topics_read[OF assms(1) dr assms(3) lim] by blast
  have "xs \<noteq> []" using xs(2) assms(2) by auto
  then have "parse_sub_msg rx' = Some (True, xs, m)" using vh xs(1) by (simp add: parse_sub_msg_def topics_rx_def)
  moreover have "p_msg_id m = mid" by (simp add: m_def)
  ultimately show "\<exists>rx' ks' xs m. mqp_recv stream_recv rx (?w @ tail, ks) = Some (int (length ?w), rx', (tail, ks')) \<and>
        parse_sub_msg rx' = Some (True, xs, m) \<and> p_msg_id m = mid \<and>
        map (\<lambda>x. (take (unat (q_length x)) (q_buffer x), q_qosreq x)) xs = map (\<lambda>(t, q). (u_content t, q)) ts"
    using rx xs(2) unfolding sub_wire_def rx'_def[symmetric] by (intro exI[of _ rx'] exI[of _ ks'] exI[of _ xs] exI[of _ m] conjI)
qed

text \<open>
  The packet that \<open>utf8_array_send\<close> hands to \<open>_msg_dispatch\<close>, or the end in memory behind its
  buffer.
\<close>

definition sub_packet :: "mqtt_packet \<Rightarrow> u16 \<Rightarrow> u8 list \<Rightarrow> mqtt_packet" where
  "sub_packet m mid tw = (mqp_init m (of_nat MAX_FH_LEN))\<lparr>p_msg_type := MQTT_SUBSCRIBE, p_msg_id := mid, p_vh_len := 2,
     p_buffer := overlay (p_buffer m) 5 ([hi8 mid, lo8 mid] @ tw), p_pl_len := of_nat (length tw)\<rparr>"

definition sub_state :: "mqtt_lib \<Rightarrow> nat \<Rightarrow> mqtt_packet \<Rightarrow> u16 \<Rightarrow> u8 list \<Rightarrow> mqtt_lib" where
  "sub_state s a m mid tw = s\<lparr>ml_free_list := p_next m, ml_msg_id := mid, ml_heap := (ml_heap s)(a \<mapsto> sub_packet m mid tw)\<rparr>"

lemma sub_build:
  assumes "ml_free_list s = Some a" "ml_heap s a = Some m" "7 \<le> unat (p_maxlen m)" "unat (p_maxlen m) \<le> length (p_buffer m)"
    "\<forall>p \<in> set (sub_topics qs). topic_ok p" "qs \<noteq> []" "mid = ml_msg_id s + 2" "tw = topics_wire (sub_topics qs)"
  shows "mqtt_sub_msg_send env (Some c) (Some qs) s =
       (if 7 + length tw \<le> length (p_buffer m) then msg_dispatch env c a MQTT_QOS1 False (sub_state s a m mid tw) else None)"
proof -
  let ?h = "[hi8 mid, lo8 mid]" and ?b = "p_buffer m"
  define ts where "ts = sub_topics qs"
  have ts: "ts \<noteq> []" "\<forall>p \<in> set ts. topic_ok p" "tw = topics_wire ts" using assms(5,6,8) by (simp_all only: ts_def map_is_Nil_conv) simp_all
  define m0 where "m0 = (mqp_init m (of_nat MAX_FH_LEN))\<lparr>p_msg_type := MQTT_SUBSCRIBE\<rparr>"
  have v0: "MQP_VHEADER_BUF m0 = 5" "p_buffer m0 = ?b" "p_msg_id m0 = 0" "p_vh_len m0 = 0" "MQP_FHEADER_BUF m0 = 5" "MQP_FREEBUF_LEN m0 = p_maxlen m - 5"
    by (simp_all add: m0_def mqp_init_def mqp_reset_def MQP_VHEADER_BUF_def MQP_FHEADER_BUF_def MQP_FREEBUF_LEN_def MQP_CONTENT_LEN_def MAX_FH_LEN_def)
  have "(5 :: u32) \<le> p_maxlen m" using assms(3) by (simp add: word_le_nat_alt)
  then have fr: "unat (MQP_FREEBUF_LEN m0) = unat (p_maxlen m) - 5" unfolding v0 by (simp add: unat_sub)
  define sa where "sa = s\<lparr>ml_free_list := p_next m, ml_heap := (ml_heap s)(a \<mapsto> m0)\<rparr>"
  define sb where "sb = sa\<lparr>ml_msg_id := mid\<rparr>"
  define mb where "mb = m0\<lparr>p_msg_id := mid, p_buffer := overlay ?b 5 ?h, p_vh_len := 2\<rparr>"
  have b2: "Suc 5 < length ?b" using assms(3,4) by simp
  have ti: "tail_incorp_msg_id m0 sa = Some (2, mb, sb)"
    using b2 assms(7) v0 by (simp add: tail_incorp_msg_id_def assign_new_msg_id_def buf_wr_nbo_2B_eq sa_def sb_def mb_def)
  have lo: "length (overlay ?b 5 ?h) = length ?b" using b2 by (intro length_overlay) simp
  have oo: "overlay (overlay ?b 5 ?h) 7 tw = overlay ?b 5 (?h @ tw)" using overlay_overlay[of 5 ?h ?b tw] b2 by simp
  have lp: "utf8_array_loop ts lim (p_buffer mb) 7 = (if 7 + length tw \<le> length ?b then Some (0, overlay ?b 5 (?h @ tw), 7 + length tw) else None)" for lim
    using utf8_array_loop_spec[OF ts(2), of 7 "overlay ?b 5 ?h" lim] b2 unfolding lo oo ts(3)[symmetric] by (simp add: mb_def)
  have al: "mqp_client_send_alloc MQTT_SUBSCRIBE s = Some (Some a, sa)" "ml_heap sa a = Some m0"
    using assms(1,2) by (simp_all add: mqp_client_send_alloc_def mqp_client_alloc_def mqp_alloc_atomic_def m0_def pk_put_def sa_def)
  have nb: "\<not> 5 + (unat (p_maxlen m) - 5) - 5 < 2" using assms(3) by simp
  have st: "pk_put a (mb\<lparr>p_buffer := overlay ?b 5 (?h @ tw), p_pl_len := of_nat (7 + length tw - 7)\<rparr>) sb = sub_state s a m mid tw"
    by (simp add: sub_state_def sub_packet_def pk_put_def sb_def sa_def mb_def m0_def)
  have e: "utf8_array_send env (Some c) (Some qs) None s = do {
       (r, s) \<leftarrow> mqp_client_send_alloc MQTT_SUBSCRIBE s;
       case r of None \<Rightarrow> Some (MQP_ERR_PKT_AVL, s)
       | Some a \<Rightarrow> do {
           m \<leftarrow> ml_heap s a;
           let buf = MQP_VHEADER_BUF m;
           let lim = buf + unat (MQP_FREEBUF_LEN m);
           if lim - buf < 2 then cl_len_err_free a s
           else do {
             (n, m, s) \<leftarrow> tail_incorp_msg_id m s;
             let ref = buf + n;
             (rv, b, d) \<leftarrow> utf8_array_loop ts lim (p_buffer m) ref;
             if rv < 0 then do { s \<leftarrow> cl_mqp_free a (pk_put a (m\<lparr>p_buffer := b\<rparr>) s); Some (rv, s) }
             else msg_dispatch env c a MQTT_QOS1 False (pk_put a (m\<lparr>p_buffer := b, p_pl_len := of_nat (d - ref)\<rparr>) s) } } }"
    using assms(6) unfolding utf8_array_send_def ts_def by (simp only: option.case prod.case Let_def option.distinct map_is_Nil_conv if_False if_True not_False_eq_True)
  have ref: "5 + (2 :: nat) = 7" by simp
  have "utf8_array_send env (Some c) (Some qs) None s =
       (if 7 + length tw \<le> length ?b then msg_dispatch env c a MQTT_QOS1 False (sub_state s a m mid tw) else None)"
    unfolding e al bind.bind_lunit prod.case option.case Let_def v0(1) fr if_not_P[OF nb] ti ref lp
    by (simp add: st[simplified])
  then show ?thesis by (simp only: mqtt_sub_msg_send_def)
qed

text \<open>
  C11: subscribing from the application of a client to the broker's parser. If the topics fit
  into the packet, the bytes that the network accepts during the call and the following
  calls of \<open>mqtt_client_send_progress\<close> are a SUBSCRIBE with the next message identifier, from
  which \<open>mqp_recv\<close> and the parser of the broker read the same topics with the same QoS in the
  same order; or a proper prefix of it when the connection is given up.
\<close>

theorem client_subscribe:
  assumes "tx_ready s c net" "send_ok env" "ml_clients s c = Some d" "wlist_rep (ml_heap s) (cd_qos_ack1_wl d) ps"
    and "ml_free_list s = Some a" "a \<notin> set ps" "ml_heap s a = Some m" "unat (p_maxlen m) \<le> length (p_buffer m)" "unat (p_maxlen m) \<le> 0xFFFF"
    and "\<forall>p \<in> set (sub_topics qs). topic_ok p" "qs \<noteq> []" "length qs \<le> MQP_MAX_TOPICS" "mid = ml_msg_id s + 2"
    and "tw = topics_wire (sub_topics qs)" "7 + length tw \<le> unat (p_maxlen m)"
    and "mqp_clean rx" "unat (p_offset rx) + unat (p_maxlen m) \<le> length (p_buffer rx)" "unat (p_maxlen m) \<le> unat (p_maxlen rx)"
    and "w = sub_wire mid (sub_topics qs)"
  shows "reads_subscribe rx w (sub_topics qs) mid \<and>
     (\<exists>r s1. mqtt_sub_msg_send env (Some c) (Some qs) s = Some (r, s1) \<and>
       (tx_lost s1 c \<and> accepted net (ml_trace s1) = accepted net (ml_trace s) \<and> r = - 1 \<or>
        r = uint mid \<and> (\<exists>rv s2. send_rest env c (length w) 1 s1 = Some (rv, s2) \<and> sends_all s s2 c net rv w)))"
proof
  have "sub_topics qs \<noteq> []" "length (sub_topics qs) \<le> MQP_MAX_TOPICS" using assms(11,12) by simp_all
  then show "reads_subscribe rx w (sub_topics qs) mid"
    unfolding assms(19) using sub_received[OF assms(10) _ _ _ assms(9,16-18)] assms(14,15) by blast
next
  let ?m = "sub_packet m mid tw" and ?s = "sub_state s a m mid tw" and ?body = "[hi8 mid, lo8 mid] @ tw"
  have v: "ml_ctxs ?s = ml_ctxs s" "ml_clients ?s = ml_clients s" "ml_used_ctxs ?s = ml_used_ctxs s" "ml_heap ?s = (ml_heap s)(a \<mapsto> ?m)" "ml_trace ?s = ml_trace s"
    by (simp_all add: sub_state_def)
  have rd: "tx_ready ?s c net" "wlist_rep (ml_heap ?s) (cd_qos_ack1_wl d) ps" using ready_other[OF assms(1,3,4,6) v(1-4)] by blast+
  have m: "p_offset ?m = of_nat MAX_FH_LEN" "p_vh_len ?m = 2" "p_pl_len ?m = of_nat (length tw)" "p_fh_len ?m = 0" "p_msg_id ?m = mid" "p_msg_type ?m = MQTT_SUBSCRIBE"
    "p_buffer ?m = overlay (p_buffer m) 5 ?body"
    by (simp_all add: sub_packet_def mqp_init_def mqp_reset_def)
  have bl: "5 + length ?body \<le> length (p_buffer m)" using assms(8,15) by simp
  then have ln: "length (p_buffer ?m) = length (p_buffer m)" unfolding m(7) by (rule length_overlay)
  have tk: "take (length ?body) (drop 5 (p_buffer ?m)) = ?body" unfolding m(7) using bl by simp
  have sum: "ucast (p_vh_len ?m) + p_pl_len ?m = of_nat (length ?body)" unfolding m by simp
  have l16: "length ?body < 2 ^ 16" using assms(9,15) by simp
  obtain r3 m' where p: "mqp_prep_fh ?m (MAKE_FH_FLAGS False MQTT_QOS1 False) = Some (r3, m')" "mqp_content m' = w"
     "MQP_FHEADER_BUF m' + unat (MQP_CONTENT_LEN m') = 5 + length ?body" "length (p_buffer m') = length (p_buffer ?m)"
    using prep_frame[OF m(1) sum l16 _ tk m(4), of "MAKE_FH_FLAGS False MQTT_QOS1 False"] bl ln
    unfolding m(6) assms(19) sub_wire_def assms(14)[symmetric] by auto
  have fit: "MQP_FHEADER_BUF m' + unat (MQP_CONTENT_LEN m') \<le> length (p_buffer m')" using p(3,4) ln bl by simp
  have ne: "mqp_content m' \<noteq> []" unfolding p(2) assms(19) sub_wire_def mqp_frame_def by simp
  have c2: "ml_clients ?s c = Some d" "ml_heap ?s a = Some ?m" using assms(3) v by simp_all
  have e: "mqtt_sub_msg_send env (Some c) (Some qs) s = msg_dispatch env c a MQTT_QOS1 False ?s"
    using sub_build[OF assms(5,7) _ assms(8,10,11,13,14), of env c] assms(8,15) by simp
  have se: "sends_all ?s = sends_all s" by (intro ext) (simp only: sends_all_def v(5))
  obtain r s1 where "msg_dispatch env c a MQTT_QOS1 False ?s = Some (r, s1)"
     "tx_lost s1 c \<and> accepted net (ml_trace s1) = accepted net (ml_trace s) \<and> r = - 1 \<or>
      r = uint mid \<and> (\<exists>rv s3. send_rest env c (length w) 1 s1 = Some (rv, s3) \<and> sends_all s s3 c net rv w)"
    using dispatch_tx[OF rd(1) assms(2) c2(1) rd(2) c2(2) assms(6) p(1) fit ne] unfolding p(2) m(5) v(5) se by auto
  then show "\<exists>r s1. mqtt_sub_msg_send env (Some c) (Some qs) s = Some (r, s1) \<and>
       (tx_lost s1 c \<and> accepted net (ml_trace s1) = accepted net (ml_trace s) \<and> r = - 1 \<or>
        r = uint mid \<and> (\<exists>rv s2. send_rest env c (length w) 1 s1 = Some (rv, s2) \<and> sends_all s s2 c net rv w))"
    unfolding e by blast
qed

text \<open>
  C39: the check of the space in \<open>buf_utf8_wr_try\<close> never fails (\<open>?:\<close> binds last), so topics that
  do not fit into the packet are not refused with \<open>MQP_ERR_PKT_LEN\<close>: \<open>mqtt_sub_msg_send\<close> writes
  behind the packet's buffer.
\<close>

theorem subscribe_overflow:
  assumes "ml_free_list s = Some a" "ml_heap s a = Some m" "7 \<le> unat (p_maxlen m)" "unat (p_maxlen m) = length (p_buffer m)"
    "\<forall>p \<in> set (sub_topics qs). topic_ok p" "qs \<noteq> []" "length (p_buffer m) < 7 + length (topics_wire (sub_topics qs))"
  shows "mqtt_sub_msg_send env (Some c) (Some qs) s = None"
  using sub_build[OF assms(1-3) _ assms(5,6) refl refl, of env c] assms(4,7) by simp

definition sample_qs :: "utf8_strqos list" where
  "sample_qs = [\<lparr>q_buffer = [0x61, SLASH, 0x62], q_length = 3, q_qosreq = 1\<rparr>, \<lparr>q_buffer = [HASH], q_length = 1, q_qosreq = 0\<rparr>]"

lemma sample_qs_facts: "\<forall>p \<in> set (sub_topics sample_qs). topic_ok p" "sample_qs \<noteq> []" "length sample_qs \<le> MQP_MAX_TOPICS"
  "length (topics_wire (sub_topics sample_qs)) = 10"
  by (simp_all add: sample_qs_def topic_ok_def u_valid_def MQP_MAX_TOPICS_def topic_wire_def utf8_wire_def u_content_def)

theorem client_subscribe_witness:
  "reads_subscribe sample_in (sub_wire 1 (sub_topics sample_qs)) (sub_topics sample_qs) 1 \<and>
   (\<exists>r s1. mqtt_sub_msg_send sample_env (Some 0) (Some sample_qs) sample_lib = Some (r, s1) \<and>
     (tx_lost s1 0 \<and> accepted 5 (ml_trace s1) = [] \<and> r = - 1 \<or>
      r = uint (1 :: u16) \<and> (\<exists>rv s2. send_rest sample_env 0 (length (sub_wire 1 (sub_topics sample_qs))) 1 s1 = Some (rv, s2) \<and>
        sends_all sample_lib s2 0 5 rv (sub_wire 1 (sub_topics sample_qs)))))"
proof -
  have m: "unat (p_maxlen (sample_tx\<lparr>p_maxlen := 32, p_buffer := replicate 32 0, p_free_hook := True\<rparr>)) = 32"
    "length (p_buffer (sample_tx\<lparr>p_maxlen := 32, p_buffer := replicate 32 0, p_free_hook := True\<rparr>)) = 32" by simp_all
  have rx: "mqp_clean sample_in" "unat (p_offset sample_in) = 0" "length (p_buffer sample_in) = 32" "unat (p_maxlen sample_in) = 32"
    by (simp_all add: mqp_clean_def sample_in_def)
  show ?thesis
    using client_subscribe[OF sample_facts_client(1,2,4,3) sample_publish(3) _ sample_publish(2) _ _ sample_qs_facts(1-3) _ refl _ rx(1) _ _ refl, of 1]
    unfolding m rx(2-4) sample_qs_facts(4) sample_publish(4,5) by simp
qed

theorem subscribe_overflow_witness:
  "mqtt_sub_msg_send sample_env (Some 0) (Some sample_qs) (sample_lib\<lparr>ml_heap := [1 \<mapsto> sample_tx]\<rparr>) = None"
  by (rule subscribe_overflow[of _ 1 sample_tx]) (use sample_qs_facts in \<open>simp_all add: sample_lib_def sample_tx_def\<close>)

end
