(* ===== verification/ClientConn.thy ===== *)
theory ClientConn
  imports ClientSub
begin

text \<open>
  CONNECT from the client library to the broker's parser.
\<close>

section \<open>The strings of the payload\<close>

text \<open>What the loop of \<open>wr_connect_pl\<close> writes, and the flags it returns.\<close>

fun conn_pl :: "(nat \<times> u8 \<times> utf8_string option) list \<Rightarrow> u8 \<Rightarrow> u8 list \<times> u8" where
  "conn_pl [] opts = ([], opts)"
| "conn_pl ((i, sel, utf8) # us) opts =
     (if utf8 = None \<and> i \<noteq> 0 \<and> \<not> (i = 2 \<and> opts AND WILL_CONFIG_VAL \<noteq> 0) then conn_pl us opts
      else ((case utf8 of None \<Rightarrow> [0, 0] | Some u \<Rightarrow> utf8_wire u) @ fst (conn_pl us (opts OR sel)), snd (conn_pl us (opts OR sel))))"

definition str_ok :: "utf8_string option \<Rightarrow> bool" where
  "str_ok p \<longleftrightarrow> (\<forall>u. p = Some u \<longrightarrow> u_valid u \<and> unat (u_length u) + 2 < 2 ^ 16)"

lemma conn_room:
  fixes fsz :: u32
  assumes "unat l + 2 < 2 ^ 16" "ref \<le> d" "d - ref + (2 + unat l) \<le> unat fsz"
  shows "\<not> fsz < of_nat (d - ref) + ucast ((2 :: u16) + l)"
proof -
  have f: "unat fsz < 2 ^ 32" using unsigned_less[of fsz, where 'a = nat] by simp
  have "unat ((2 :: u16) + l) = 2 + unat l" using assms(1) by (simp add: unat_word_ariths)
  then have "unat (ucast ((2 :: u16) + l) :: u32) = 2 + unat l" by (simp add: unat_ucast_up_simp)
  moreover have "unat (of_nat (d - ref) :: u32) = d - ref" using assms(3) f by (intro unat_of_nat_eq) simp
  ultimately have "unat (of_nat (d - ref) + ucast ((2 :: u16) + l) :: u32) = (d - ref) + (2 + unat l)"
    using assms(3) f by (simp add: unat_word_ariths)
  then show ?thesis using assms(3) by (simp add: word_less_nat_alt)
qed

lemma hi_lo_zero [simp]: "hi8 0 = 0" "lo8 0 = 0"
  by (simp_all add: hi8_def lo8_def)

lemma wr_connect_pl_spec:
  assumes "\<forall>(i, sel, p) \<in> set us. str_ok p" "ref \<le> d" "d - ref + length (fst (conn_pl us opts)) \<le> unat fsz" "ref + unat fsz \<le> length buf"
  shows "wr_connect_pl_loop us ref fsz buf d opts =
     Some (int (d + length (fst (conn_pl us opts))) - int ref, overlay buf d (fst (conn_pl us opts)), snd (conn_pl us opts))"
  using assms
proof (induction us arbitrary: buf d opts)
  case (Cons e us)
  obtain i sel p where e: "e = (i, sel, p)" by (cases e) auto
  have ok: "str_ok p" "\<forall>(i, sel, p) \<in> set us. str_ok p" using Cons.prems(1) e by auto
  show ?case
  proof (cases "p = None \<and> i \<noteq> 0 \<and> \<not> (i = 2 \<and> opts AND WILL_CONFIG_VAL \<noteq> 0)")
    case True
    then show ?thesis using Cons.IH[OF ok(2) Cons.prems(2) _ Cons.prems(4), of opts] Cons.prems(3) e by simp
  next
    case False
    define w where "w = (case p of None \<Rightarrow> [0, 0] | Some u \<Rightarrow> utf8_wire u)"
    define l where "l = (case p of None \<Rightarrow> 0 | Some u \<Rightarrow> u_length u)"
    define rest where "rest = fst (conn_pl us (opts OR sel))"
    have pl: "conn_pl (e # us) opts = (w @ rest, snd (conn_pl us (opts OR sel)))" unfolding e conn_pl.simps if_not_P[OF False] w_def rest_def ..
    have wl: "length w = 2 + unat l" "unat l + 2 < 2 ^ 16" using ok(1) length_utf8_wire by (auto simp: w_def l_def str_ok_def split: option.splits)
    have fit: "d - ref + (2 + unat l) + length rest \<le> unat fsz" using Cons.prems(3) unfolding pl wl(1)[symmetric] by simp
    then have db: "d + length w \<le> length buf" using Cons.prems(2,4) wl(1) by linarith
    have wr: "(if 2 + l = 2 then do { b \<leftarrow> buf_wr_nbo_2B buf d 0; Some (2, b) } else do { u \<leftarrow> p; buf_wr_utf8 buf d u }) = Some (length w, overlay buf d w)"
    proof (cases "l = 0")
      case True
      have "w = [0, 0]" using True by (auto simp: w_def l_def utf8_wire_def u_content_def split: option.splits)
      then show ?thesis using True db by (simp add: buf_wr_nbo_2B_eq)
    next
      case False
      then obtain u where u: "p = Some u" "u_valid u" using ok(1) by (auto simp: l_def str_ok_def split: option.splits)
      then have "w = utf8_wire u" by (simp add: w_def)
      then show ?thesis using False u wr_utf8_wire[OF u(2)] db by simp
    qed
    have s: "wr_connect_pl_loop (e # us) ref fsz buf d opts = wr_connect_pl_loop us ref fsz (overlay buf d w) (d + length w) (opts OR sel)"
      using False e wr conn_room[OF wl(2) Cons.prems(2), of fsz] fit unfolding l_def by (auto simp: Let_def)
    have lb: "length (overlay buf d w) = length buf" using db by simp
    have "wr_connect_pl_loop us ref fsz (overlay buf d w) (d + length w) (opts OR sel) =
        Some (int (d + length w + length rest) - int ref, overlay (overlay buf d w) (d + length w) rest, snd (conn_pl us (opts OR sel)))"
      unfolding rest_def using Cons.IH[OF ok(2), of "d + length w" "opts OR sel" "overlay buf d w"] Cons.prems(2,4) fit wl(1) lb rest_def by simp
    moreover have "overlay (overlay buf d w) (d + length w) rest = overlay buf d (w @ rest)"
      using fit wl(1) Cons.prems(2,4) by (intro overlay_overlay) linarith
    ultimately show ?thesis unfolding s pl by (simp add: add.assoc)
  qed
qed simp

text \<open>The five strings of a client.\<close>

definition or_empty :: "utf8_string option \<Rightarrow> utf8_string" where
  "or_empty p = (case p of None \<Rightarrow> \<lparr>u_buffer = [], u_length = 0\<rparr> | Some u \<Rightarrow> u)"

definition wire_if :: "bool \<Rightarrow> utf8_string option \<Rightarrow> u8 list" where
  "wire_if b p = (if b then utf8_wire (or_empty p) else [])"

lemma utf8_wire_or_empty: "(case p of None \<Rightarrow> [0, 0] | Some u \<Rightarrow> utf8_wire u) = utf8_wire (or_empty p)"
  by (simp add: or_empty_def utf8_wire_def u_content_def split: option.split)

lemma or_empty_valid: "str_ok p \<Longrightarrow> u_valid (or_empty p)"
  by (auto simp: str_ok_def or_empty_def u_valid_def split: option.splits)

definition conn_flags :: "bool \<Rightarrow> utf8_string option \<Rightarrow> utf8_string option \<Rightarrow> utf8_string option \<Rightarrow> u8" where
  "conn_flags clean wtop user pass = (if clean then CLEAN_START_VAL else 0) OR (if wtop \<noteq> None then WILL_CONFIG_VAL else 0) OR
     (if user \<noteq> None then USER_NAME_OPVAL else 0) OR (if pass \<noteq> None then PASS_WORD_OPVAL else 0)"

lemma conn_pl_five:
  assumes "wtop = None \<longrightarrow> wmsg = None"
  shows "conn_pl (zip [0..<5] (zip utf8_sel [cid, wtop, wmsg, user, pass])) (if clean then CLEAN_START_VAL else 0) =
     (wire_if True cid @ wire_if (wtop \<noteq> None) wtop @ wire_if (wtop \<noteq> None) wmsg @ wire_if (user \<noteq> None) user @ wire_if (pass \<noteq> None) pass,
      conn_flags clean wtop user pass)"
proof -
  have u: "[0..<5] = [0, 1, 2, 3, 4::nat]" by (simp add: upt_rec)
  show ?thesis using assms unfolding u utf8_sel_def
    by (cases wtop; cases user; cases pass; cases wmsg; cases clean) (simp_all add: utf8_wire_or_empty[symmetric] wire_if_def conn_flags_def)
qed

section \<open>The packet\<close>

abbreviation proto_info :: "client_ctx \<Rightarrow> u8 list" where
  "proto_info x \<equiv> if IS_PROTO_VER31 x then mqtt310 else mqtt311"

definition conn_body :: "u8 list \<Rightarrow> u8 \<Rightarrow> u16 \<Rightarrow> u8 list \<Rightarrow> u8 list" where
  "conn_body info flags ka pl = info @ [flags, hi8 ka, lo8 ka] @ pl"

definition conn_wire :: "u8 list \<Rightarrow> u8 \<Rightarrow> u16 \<Rightarrow> u8 list \<Rightarrow> u8 list" where
  "conn_wire info flags ka pl = mqp_frame (MAKE_FH_BYTE1 MQTT_CONNECT (MAKE_FH_FLAGS False MQTT_QOS0 False)) (conn_body info flags ka pl)"

lemma take_len: "take (length xs) (xs @ ys) = xs" by simp

lemma overlay_before:
  "d + length xs \<le> length buf \<Longrightarrow> overlay (overlay buf (d + length xs) ys) d xs = overlay buf d (xs @ ys)"
  by (simp add: overlay_def ac_simps)

lemma wr_connect_vh_spec:
  assumes "d + length (proto_info x) + 3 \<le> length buf"
  shows "wr_connect_vh x buf d ka flags = Some (int (length (proto_info x) + 3), overlay buf d (proto_info x @ [flags, hi8 ka, lo8 ka]))"
proof -
  let ?i = "proto_info x" and ?n = "length (proto_info x)"
  have n: "?n \<noteq> 0" by (simp add: mqtt310_def mqtt311_def)
  have w1: "buf_wr_nbytes buf d ?i ?n = Some (overlay buf d ?i)" using assms by (simp add: mem_simps)
  have l1: "length (overlay buf d ?i) = length buf" using assms by (intro length_overlay) simp
  have "(overlay buf d ?i)[d + ?n := flags] = overlay (overlay buf d ?i) (d + ?n) [flags]"
    using overlay_Cons[of "d + ?n" "overlay buf d ?i" flags "[]"] assms l1 by simp
  also have "\<dots> = overlay buf d (?i @ [flags])" using assms by (intro overlay_overlay) simp
  finally have w2: "buf_put (overlay buf d ?i) (d + ?n) flags = Some (overlay buf d (?i @ [flags]))" using assms l1 by (simp add: buf_put_def)
  have l2: "length (overlay buf d (?i @ [flags])) = length buf" using assms by (intro length_overlay) simp
  have "overlay (overlay buf d (?i @ [flags])) (d + length (?i @ [flags])) [hi8 ka, lo8 ka] = overlay buf d ((?i @ [flags]) @ [hi8 ka, lo8 ka])"
    using assms by (intro overlay_overlay) simp
  then have "buf_wr_nbo_2B (overlay buf d (?i @ [flags])) (d + ?n + 1) ka = Some (overlay buf d (?i @ [flags, hi8 ka, lo8 ka]))"
    using assms l2 by (simp add: buf_wr_nbo_2B_eq)
  then show ?thesis using w1 w2 unfolding wr_connect_vh_def Let_def by simp
qed

lemma vh_len_nat: "unat (get_connect_vh_len x) = length (proto_info x) + 3" "7 \<le> length (proto_info x)" "length (proto_info x) \<le> 9"
  by (simp_all add: get_connect_vh_len_def mqtt310_def mqtt311_def)

text \<open>\<open>connect_msg_send\<close> up to the attempt to connect.\<close>

lemma connect_build:
  assumes "ml_free_list s = Some a" "ml_heap s a = Some m" "unat (p_maxlen m) \<le> length (p_buffer m)" "unat (p_maxlen m) \<le> 0xFFFF"
    "ml_ctxs s c = Some x" "ml_clients s c = Some d" "cd_conn_pl_utf8s d = strs" "\<forall>p \<in> set strs. str_ok p" "length strs = 5"
    "conn_pl (zip [0..<5] (zip utf8_sel strs)) (if clean then CLEAN_START_VAL else 0) = (pl, opts)"
    "5 + length (proto_info x) + 3 + length pl \<le> unat (p_maxlen m)"
  shows "\<exists>m'. connect_msg_send env c clean ka s =
      cl_ctx_conn_state_try env c (TxMqp a (MQP_FHEADER_BUF m')) (MQP_CONTENT_LEN m') ka clean (s\<lparr>ml_free_list := p_next m, ml_heap := (ml_heap s)(a \<mapsto> m')\<rparr>) \<and>
    mqp_content m' = conn_wire (proto_info x) (cd_will_opts d OR opts) ka pl \<and>
    MQP_FHEADER_BUF m' + unat (MQP_CONTENT_LEN m') \<le> length (p_buffer m')"
proof -
  let ?b = "p_buffer m" and ?n = "length (proto_info x)" and ?fl = "cd_will_opts d OR opts" and ?vhl = "get_connect_vh_len x"
  let ?vh = "proto_info x @ [?fl, hi8 ka, lo8 ka]"
  define m0 where "m0 = (mqp_init m (of_nat MAX_FH_LEN))\<lparr>p_msg_type := MQTT_CONNECT\<rparr>"
  have v0: "p_buffer m0 = ?b" "MQP_FREEBUF_LEN m0 = p_maxlen m - 5"
    by (simp_all add: m0_def mqp_init_def mqp_reset_def MQP_FREEBUF_LEN_def MQP_CONTENT_LEN_def MAX_FH_LEN_def)
  have "(5 :: u32) \<le> p_maxlen m" using assms(11) by (simp add: word_le_nat_alt)
  then have fr: "unat (MQP_FREEBUF_LEN m0) = unat (p_maxlen m) - 5" unfolding v0 by (simp add: unat_sub)
  have uv: "unat (ucast ?vhl :: u32) = ?n + 3" using vh_len_nat(1)[of x] by (simp add: unat_ucast_up_simp)
  have nf: "\<not> MQP_FREEBUF_LEN m0 < ucast ?vhl" using fr uv assms(11) by (simp add: word_less_nat_alt)
  have fsz: "unat (MQP_FREEBUF_LEN m0 - ucast ?vhl) = unat (p_maxlen m) - 5 - (?n + 3)"
    using nf fr uv unat_sub[of "ucast ?vhl" "MQP_FREEBUF_LEN m0"] by simp
  define m1 where "m1 = m0\<lparr>p_vh_len := ?vhl\<rparr>"
  have ref: "MQP_PAYLOAD_BUF m1 = 5 + (?n + 3)" using vh_len_nat(1)[of x]
    by (simp add: m1_def m0_def mqp_init_def mqp_reset_def MQP_PAYLOAD_BUF_def MQP_VHEADER_BUF_def MQP_FHEADER_BUF_def MAX_FH_LEN_def)
  have us: "\<forall>(i, sel, p) \<in> set (zip [0..<5] (zip utf8_sel strs)). str_ok p"
    using assms(8) by (auto dest!: set_zip_rightD)
  have wr: "wr_connect_pl d ?b (5 + (?n + 3)) (MQP_FREEBUF_LEN m0 - ucast ?vhl) (if clean then CLEAN_START_VAL else 0) =
      Some (int (length pl), overlay ?b (5 + (?n + 3)) pl, opts)"
    using wr_connect_pl_spec[OF us order.refl, of "5 + (?n + 3)" "if clean then CLEAN_START_VAL else 0" "MQP_FREEBUF_LEN m0 - ucast ?vhl" ?b]
      assms(3,7,10,11) fsz by (simp add: wr_connect_pl_def)
  have lb: "length (overlay ?b (5 + (?n + 3)) pl) = length ?b" using assms(3,11) by (intro length_overlay) simp
  have "overlay (overlay ?b (5 + length ?vh) pl) 5 ?vh = overlay ?b 5 (?vh @ pl)" using assms(3,11) by (intro overlay_before) simp
  then have vh: "wr_connect_vh x (overlay ?b (5 + (?n + 3)) pl) 5 ka ?fl = Some (int (?n + 3), overlay ?b 5 (?vh @ pl))"
    using wr_connect_vh_spec[of 5 x "overlay ?b (5 + (?n + 3)) pl" ka ?fl] assms(3,11) lb by (simp add: add.assoc)
  define m2 where "m2 = m1\<lparr>p_pl_len := of_nat (length pl), p_buffer := overlay ?b 5 (?vh @ pl)\<rparr>"
  have b2: "p_offset m2 = of_nat MAX_FH_LEN" "p_vh_len m2 = ?vhl" "p_pl_len m2 = of_nat (length pl)" "p_fh_len m2 = 0" "p_msg_type m2 = MQTT_CONNECT"
    "p_buffer m2 = overlay ?b 5 (?vh @ pl)"
    by (simp_all add: m2_def m1_def m0_def mqp_init_def mqp_reset_def)
  have fit: "5 + length (?vh @ pl) \<le> length ?b" using assms(3,11) by simp
  have l2: "length (p_buffer m2) = length ?b" unfolding b2(6) by (rule length_overlay[OF fit])
  have sum: "ucast (p_vh_len m2) + p_pl_len m2 = of_nat (length (?vh @ pl))"
  proof -
    have "(ucast ?vhl :: u32) = of_nat (?n + 3)" using uv by (metis of_nat_unat ucast_id)
    then show ?thesis unfolding b2 by simp
  qed
  have "drop 5 (overlay ?b 5 (?vh @ pl)) = (?vh @ pl) @ drop (5 + length (?vh @ pl)) ?b" using fit by (intro drop_overlay_at) simp
  then have tk: "take (length (?vh @ pl)) (drop 5 (p_buffer m2)) = ?vh @ pl" unfolding b2(6) by (simp only: take_len)
  have l16: "length (?vh @ pl) < 2 ^ 16" using assms(4,11) by simp
  obtain r m' where p: "mqp_prep_fh m2 (MAKE_FH_FLAGS False MQTT_QOS0 False) = Some (r, m')"
     "mqp_content m' = mqp_frame (MAKE_FH_BYTE1 MQTT_CONNECT (MAKE_FH_FLAGS False MQTT_QOS0 False)) (?vh @ pl)"
     "MQP_FHEADER_BUF m' + unat (MQP_CONTENT_LEN m') = 5 + length (?vh @ pl)" "length (p_buffer m') = length (p_buffer m2)"
    using prep_frame[OF b2(1) sum l16 _ tk b2(4), of "MAKE_FH_FLAGS False MQTT_QOS0 False"] fit l2 unfolding b2(5) by auto
  have len: "of_nat (5 + (?n + 3) + length pl - MQP_FHEADER_BUF m') = MQP_CONTENT_LEN m'"
  proof -
    have "5 + (?n + 3) + length pl - MQP_FHEADER_BUF m' = unat (MQP_CONTENT_LEN m')" using p(3) by simp
    then show ?thesis by simp
  qed
  define sa where "sa = s\<lparr>ml_free_list := p_next m, ml_heap := (ml_heap s)(a \<mapsto> m0)\<rparr>"
  have al: "mqp_client_send_alloc MQTT_CONNECT s = Some (Some a, sa)" "ml_heap sa a = Some m0" "ml_ctxs sa c = Some x" "ml_clients sa c = Some d"
    using assms(1,2,5,6) by (simp_all add: mqp_client_send_alloc_def mqp_client_alloc_def mqp_alloc_atomic_def m0_def pk_put_def sa_def)
  have st: "pk_put a m' sa = s\<lparr>ml_free_list := p_next m, ml_heap := (ml_heap s)(a \<mapsto> m')\<rparr>" by (simp add: pk_put_def sa_def)
  have m2e: "(m1\<lparr>p_pl_len := word_of_int (int (length pl))\<rparr>)\<lparr>p_buffer := overlay ?b 5 (?vh @ pl)\<rparr> = m2" by (simp add: m2_def)
  have sub: "5 + (?n + 3) - unat ?vhl = 5" unfolding vh_len_nat(1) by simp
  have nneg: "\<not> int (length pl) < 0" by simp
  have mb: "p_buffer m1 = ?b" unfolding m1_def using v0(1) by simp
  have "connect_msg_send env c clean ka s = cl_ctx_conn_state_try env c (TxMqp a (MQP_FHEADER_BUF m')) (MQP_CONTENT_LEN m') ka clean (pk_put a m' sa)"
    unfolding connect_msg_send_def al bind.bind_lunit prod.case option.case Let_def if_not_P[OF nf] m1_def[symmetric] ref mb wr if_not_P[OF nneg] sub vh m2e p(1) nat_int len ..
  moreover have "mqp_content m' = conn_wire (proto_info x) ?fl ka pl" unfolding p(2) conn_wire_def conn_body_def by simp
  moreover have "MQP_FHEADER_BUF m' + unat (MQP_CONTENT_LEN m') \<le> length (p_buffer m')" using p(3,4) l2 fit by simp
  ultimately show ?thesis unfolding st by blast
qed

section \<open>The broker's parser\<close>

lemma drop_step: "drop d buf = xs @ r \<Longrightarrow> drop (d + length xs) buf = r"
proof -
  assume "drop d buf = xs @ r"
  then have "drop (length xs) (drop d buf) = r" by simp
  then show ?thesis by (simp add: add.commute)
qed

lemma get_drop:
  assumes "drop d buf = x # r"
  shows "buf_get buf d = Some x"
proof -
  have lt: "d < length buf"
  proof (rule ccontr)
    assume "\<not> d < length buf"
    then show False using assms by simp
  qed
  then show ?thesis using assms nth_drop[of d buf 0] by (simp add: buf_get_def)
qed

lemma flag_bits:
  fixes w :: u8
  assumes "w AND 0xC6 = 0"
  shows "(w OR conn_flags clean t u p) AND WILL_CONFIG_VAL \<noteq> 0 \<longleftrightarrow> t \<noteq> None"
    "(w OR conn_flags clean t u p) AND USER_NAME_OPVAL \<noteq> 0 \<longleftrightarrow> u \<noteq> None"
    "(w OR conn_flags clean t u p) AND PASS_WORD_OPVAL \<noteq> 0 \<longleftrightarrow> p \<noteq> None"
proof -
  have z: "w AND k = 0" if "0xC6 AND k = k" for k :: u8
  proof -
    have "w AND k = (w AND 0xC6) AND k" using that by (simp only: and.assoc)
    then show ?thesis using assms by simp
  qed
  have b: "w AND WILL_CONFIG_VAL = 0" "w AND USER_NAME_OPVAL = 0" "w AND PASS_WORD_OPVAL = 0" by (rule z; simp)+
  show "(w OR conn_flags clean t u p) AND WILL_CONFIG_VAL \<noteq> 0 \<longleftrightarrow> t \<noteq> None"
    unfolding word_ao_dist b conn_flags_def by (cases t; cases u; cases p; cases clean) simp_all
  show "(w OR conn_flags clean t u p) AND USER_NAME_OPVAL \<noteq> 0 \<longleftrightarrow> u \<noteq> None"
    unfolding word_ao_dist b conn_flags_def by (cases t; cases u; cases p; cases clean) simp_all
  show "(w OR conn_flags clean t u p) AND PASS_WORD_OPVAL \<noteq> 0 \<longleftrightarrow> p \<noteq> None"
    unfolding word_ao_dist b conn_flags_def by (cases t; cases u; cases p; cases clean) simp_all
qed

lemma rd_conn_step:
  assumes "drop d buf = wire_if b q @ rest" "str_ok q" "d + length (wire_if b q) \<le> lim"
  shows "\<exists>v. rd_conn_utf8 b buf d lim = Some (Some (d + length (wire_if b q), v)) \<and>
     map_option u_content v = (if b then Some (u_content (or_empty q)) else None) \<and> drop (d + length (wire_if b q)) buf = rest"
proof (cases b)
  case True
  have 1: "drop d buf = utf8_wire (or_empty q) @ rest" "d + length (utf8_wire (or_empty q)) \<le> lim" using assms(1,3) True by (simp_all add: wire_if_def)
  obtain u where "mqp_buf_rd_utf8 buf d lim = Some (Some (length (utf8_wire (or_empty q)), u))" "u_content u = u_content (or_empty q)"
    using rd_utf8_wire[OF 1(1) or_empty_valid[OF assms(2)] 1(2)] by blast
  then show ?thesis using True drop_step[OF assms(1)] by (simp add: rd_conn_utf8_def wire_if_def)
next
  case False
  then show ?thesis using drop_step[OF assms(1)] by (simp add: rd_conn_utf8_def wire_if_def)
qed

abbreviation conn_payload :: "utf8_string option \<Rightarrow> utf8_string option \<Rightarrow> utf8_string option \<Rightarrow> utf8_string option \<Rightarrow> utf8_string option \<Rightarrow> u8 list" where
  "conn_payload cid wtop wmsg user pass \<equiv>
     wire_if True cid @ wire_if (wtop \<noteq> None) wtop @ wire_if (wtop \<noteq> None) wmsg @ wire_if (user \<noteq> None) user @ wire_if (pass \<noteq> None) pass"

text \<open>The strings that the broker gets.\<close>

definition conn_strings :: "conn_utf8s \<Rightarrow> c8 list option list" where
  "conn_strings v = map (map_option u_content) [MQC_UTF8_CLIENTID v, MQC_UTF8_WILL_TOP v, MQC_UTF8_WILL_MSG v, MQC_UTF8_USERNAME v, MQC_UTF8_PASSWORD v]"

definition sent_strings :: "utf8_string option list \<Rightarrow> c8 list option list" where
  "sent_strings = (\<lambda>strs. case strs of [cid, wtop, wmsg, user, pass] \<Rightarrow>
     [Some (u_content (or_empty cid)), map_option u_content wtop, (if wtop = None then None else Some (u_content (or_empty wmsg))),
      map_option u_content user, map_option u_content pass] | _ \<Rightarrow> [])"

lemma map_content_if: "(if q \<noteq> None then Some (u_content (or_empty q)) else None) = map_option u_content q"
  by (cases q) (simp_all add: or_empty_def)

lemma pl_read:
  assumes "drop d buf = conn_payload cid wtop wmsg user pass @ rest" "d + length (conn_payload cid wtop wmsg user pass) = lim"
    "\<forall>p \<in> {cid, wtop, wmsg, user, pass}. str_ok p" "user = None \<longrightarrow> pass = None" "w AND 0xC6 = 0"
  shows "\<exists>v. proc_connect_pl_rx buf d lim (w OR conn_flags clean wtop user pass) = Some (0, v) \<and> conn_strings v = sent_strings [cid, wtop, wmsg, user, pass]"
proof -
  note fl = flag_bits[OF assms(5), of clean wtop user pass]
  let ?w0 = "wire_if True cid" and ?w1 = "wire_if (wtop \<noteq> None) wtop" and ?w2 = "wire_if (wtop \<noteq> None) wmsg" and ?w3 = "wire_if (user \<noteq> None) user" and ?w4 = "wire_if (pass \<noteq> None) pass"
  have ok: "str_ok cid" "str_ok wtop" "str_ok wmsg" "str_ok user" "str_ok pass" using assms(3) by simp_all
  have d0: "drop d buf = ?w0 @ (?w1 @ ?w2 @ ?w3 @ ?w4 @ rest)" using assms(1) by simp
  have lim: "d + length ?w0 + length ?w1 + length ?w2 + length ?w3 + length ?w4 = lim" using assms(2) by simp
  obtain v0 where 0: "rd_conn_utf8 True buf d lim = Some (Some (d + length ?w0, v0))" "map_option u_content v0 = Some (u_content (or_empty cid))"
     "drop (d + length ?w0) buf = ?w1 @ (?w2 @ ?w3 @ ?w4 @ rest)" using rd_conn_step[OF d0 ok(1), of lim] lim by auto
  obtain v1 where 1: "rd_conn_utf8 (wtop \<noteq> None) buf (d + length ?w0) lim = Some (Some (d + length ?w0 + length ?w1, v1))"
     "map_option u_content v1 = (if wtop \<noteq> None then Some (u_content (or_empty wtop)) else None)"
     "drop (d + length ?w0 + length ?w1) buf = ?w2 @ (?w3 @ ?w4 @ rest)" using rd_conn_step[OF 0(3) ok(2), of lim] lim by (elim meta_impE exE conjE) (linarith, erule (2) that)
  obtain v2 where 2: "rd_conn_utf8 (wtop \<noteq> None) buf (d + length ?w0 + length ?w1) lim = Some (Some (d + length ?w0 + length ?w1 + length ?w2, v2))"
     "map_option u_content v2 = (if wtop \<noteq> None then Some (u_content (or_empty wmsg)) else None)"
     "drop (d + length ?w0 + length ?w1 + length ?w2) buf = ?w3 @ (?w4 @ rest)" using rd_conn_step[OF 1(3) ok(3), of lim] lim by (elim meta_impE exE conjE) (linarith, erule (2) that)
  obtain v3 where 3: "rd_conn_utf8 (user \<noteq> None) buf (d + length ?w0 + length ?w1 + length ?w2) lim = Some (Some (d + length ?w0 + length ?w1 + length ?w2 + length ?w3, v3))"
     "map_option u_content v3 = (if user \<noteq> None then Some (u_content (or_empty user)) else None)"
     "drop (d + length ?w0 + length ?w1 + length ?w2 + length ?w3) buf = ?w4 @ rest" using rd_conn_step[OF 2(3) ok(4), of lim] lim by (elim meta_impE exE conjE) (linarith, erule (2) that)
  obtain v4 where 4: "rd_conn_utf8 (pass \<noteq> None) buf (d + length ?w0 + length ?w1 + length ?w2 + length ?w3) lim = Some (Some (d + length ?w0 + length ?w1 + length ?w2 + length ?w3 + length ?w4, v4))"
     "map_option u_content v4 = (if pass \<noteq> None then Some (u_content (or_empty pass)) else None)" using rd_conn_step[OF 3(3) ok(5), of lim] lim by (elim meta_impE exE conjE) (linarith, erule (1) that)
  have np: "\<not> (\<not> user \<noteq> None \<and> pass \<noteq> None)" using assms(4) by auto
  let ?v = "\<lparr>MQC_UTF8_CLIENTID = v0, MQC_UTF8_WILL_TOP = v1, MQC_UTF8_WILL_MSG = v2, MQC_UTF8_USERNAME = v3, MQC_UTF8_PASSWORD = v4\<rparr>"
  have "proc_connect_pl_rx buf d lim (w OR conn_flags clean wtop user pass) = Some (0, ?v)"
    unfolding proc_connect_pl_rx_def Let_def fl 0(1) bind.bind_lunit option.case prod.case 1(1) 2(1) if_not_P[OF np] 3(1) 4(1) ..
  moreover have "conn_strings ?v = sent_strings [cid, wtop, wmsg, user, pass]"
    using 0(2) 1(2) 2(2) 3(2) 4(2) unfolding conn_strings_def sent_strings_def by (simp add: map_content_if[symmetric])
  ultimately show ?thesis by blast
qed

definition proto_name :: "client_ctx \<Rightarrow> utf8_string" where
  "proto_name x = (if IS_PROTO_VER31 x then \<lparr>u_buffer = [0x4D, 0x51, 0x49, 0x73, 0x64, 0x70], u_length = 6\<rparr>
     else \<lparr>u_buffer = [0x4D, 0x51, 0x54, 0x54], u_length = 4\<rparr>)"

definition proto_ver :: "client_ctx \<Rightarrow> u8" where
  "proto_ver x = (if IS_PROTO_VER31 x then 3 else 4)"

lemma hi_lo_small [simp]: "hi8 4 = 0" "lo8 4 = 4" "hi8 6 = 0" "lo8 6 = 6"
  by (simp_all add: hi8_def lo8_def)

lemma proto_info_wire: "proto_info x = utf8_wire (proto_name x) @ [proto_ver x]" "u_valid (proto_name x)"
  "proc_protocol_info u (proto_ver x) \<longleftrightarrow> u_content u = u_content (proto_name x)" 
  by (auto simp: proto_name_def proto_ver_def utf8_wire_def u_content_def u_valid_def mqtt310_def mqtt311_def proc_protocol_info_def)

text \<open>What the broker's parser makes of a CONNECT. The keep-alive time \<open>k\<close> that it hands out is the
  time in the packet and a half of it, in sixteen bits.\<close>

definition reads_connect :: "mqtt_packet \<Rightarrow> u8 list \<Rightarrow> u16 \<Rightarrow> u8 \<Rightarrow> utf8_string option list \<Rightarrow> bool" where
  "reads_connect rx w ka flags strs \<longleftrightarrow>
     (\<forall>tail ks. \<exists>rx' ks' m v k. mqp_recv stream_recv rx (w @ tail, ks) = Some (int (length w), rx', (tail, ks')) \<and>
        proc_connect_vh_rx rx' = Some (0, flags, Some k, m) \<and> unat k = (unat ka + unat ka div 2) mod 2 ^ 16 \<and>
        proc_connect_pl_rx (p_buffer m) (MQP_PAYLOAD_BUF m) (MQP_PAYLOAD_BUF m + unat (p_pl_len m)) flags = Some (0, v) \<and>
        conn_strings v = sent_strings strs)"

lemma vh_read:
  assumes "drop (MQP_VHEADER_BUF rx) (p_buffer rx) = conn_body (proto_info x) flags ka pl @ rest" "p_vh_len rx = 0"
    "unat (p_pl_len rx) = length (conn_body (proto_info x) flags ka pl)" "length pl < 2 ^ 16"
  shows "\<exists>m. proc_connect_vh_rx rx = Some (0, flags, Some (ka + drop_bit 1 ka), m) \<and>
     drop (MQP_PAYLOAD_BUF m) (p_buffer m) = pl @ rest \<and> unat (p_pl_len m) = length pl"
proof -
  let ?nm = "utf8_wire (proto_name x)" and ?d = "MQP_VHEADER_BUF rx"
  let ?n = "length ?nm"
  let ?lim = "?d + unat (p_pl_len rx)"
  have ref: "MQP_PAYLOAD_BUF rx = ?d" using assms(2) by (simp add: MQP_PAYLOAD_BUF_def)
  have n: "?n + 1 = length (proto_info x)" unfolding proto_info_wire(1) by simp
  have n9: "?n \<le> 8" using n vh_len_nat(3)[of x] by simp
  have pln: "unat (p_pl_len rx) = ?n + 4 + length pl" using assms(3) n by (simp add: conn_body_def)
  have 0: "drop ?d (p_buffer rx) = ?nm @ (proto_ver x # flags # hi8 ka # lo8 ka # pl @ rest)"
    using assms(1) unfolding conn_body_def proto_info_wire(1) by simp
  have 1: "drop (?d + ?n) (p_buffer rx) = proto_ver x # flags # hi8 ka # lo8 ka # pl @ rest" by (rule drop_step[OF 0])
  have 2: "drop (?d + ?n + 1) (p_buffer rx) = flags # hi8 ka # lo8 ka # pl @ rest" using drop_step[of "?d + ?n" "p_buffer rx" "[proto_ver x]"] 1 by simp
  have 3: "drop (?d + ?n + 2) (p_buffer rx) = hi8 ka # lo8 ka # pl @ rest" using drop_step[of "?d + ?n" "p_buffer rx" "[proto_ver x, flags]"] 1 by simp
  have 4: "drop (?d + ?n + 4) (p_buffer rx) = pl @ rest" using drop_step[of "?d + ?n" "p_buffer rx" "[proto_ver x, flags, hi8 ka, lo8 ka]"] 1 by (simp add: numeral_eq_Suc)
  obtain u where u: "mqp_buf_rd_utf8 (p_buffer rx) ?d ?lim = Some (Some (?n, u))" "u_content u = u_content (proto_name x)"
    using rd_utf8_wire[OF 0 proto_info_wire(2), of ?lim] pln by auto
  define m where "m = rx\<lparr>p_vh_len := of_nat (?n + 4), p_pl_len := p_pl_len rx - of_nat (?n + 4)\<rparr>"
  have pv: "proc_protocol_info u (proto_ver x)" using u(2) proto_info_wire(3) by simp
  have g: "\<not> ?lim - (?d + ?n) < 1" "\<not> ?lim < ?d + ?n + 4" using pln by simp_all
  have r: "proc_connect_vh_rx rx = Some (0, flags, Some (ka + drop_bit 1 ka), m)"
    unfolding proc_connect_vh_rx_def Let_def ref u(1) bind.bind_lunit option.case prod.case if_not_P[OF g(1)] get_drop[OF 1]
    using pv get_drop[OF 2] rd_nbo_drop[OF 3] g(2) by (simp add: m_def)
  have pb: "MQP_PAYLOAD_BUF m = ?d + ?n + 4" "p_buffer m = p_buffer rx"
    using n9 by (simp_all add: m_def MQP_PAYLOAD_BUF_def MQP_VHEADER_BUF_def MQP_FHEADER_BUF_def unat_of_nat_eq unat_word_ariths)
  have "(of_nat (?n + 4) :: u32) \<le> p_pl_len rx" using n9 pln by (simp add: word_le_nat_alt unat_of_nat_eq unat_word_ariths)
  then have "unat (p_pl_len m) = length pl" using n9 pln by (simp add: m_def unat_sub unat_of_nat_eq unat_word_ariths)
  then show ?thesis using r 4 pb by simp
qed

lemma keep_alive_half: "unat (ka + drop_bit 1 ka) = (unat ka + unat ka div 2) mod 2 ^ 16" for ka :: u16
  by (simp add: unat_word_ariths unat_drop_bit)

lemma connect_received:
  assumes "\<forall>p \<in> {cid, wtop, wmsg, user, pass}. str_ok p" "user = None \<longrightarrow> pass = None" "w AND 0xC6 = 0"
    "8 + length (proto_info x) + length (conn_payload cid wtop wmsg user pass) \<le> M" "M \<le> 0xFFFF"
    "mqp_clean rx" "unat (p_offset rx) + M \<le> length (p_buffer rx)" "M \<le> unat (p_maxlen rx)"
  shows "reads_connect rx (conn_wire (proto_info x) (w OR conn_flags clean wtop user pass) ka (conn_payload cid wtop wmsg user pass)) ka
     (w OR conn_flags clean wtop user pass) [cid, wtop, wmsg, user, pass]"
  unfolding reads_connect_def
proof (intro allI)
  fix tail ks
  let ?fl = "w OR conn_flags clean wtop user pass"
  define pl where "pl = conn_payload cid wtop wmsg user pass"
  let ?B = "MAKE_FH_BYTE1 MQTT_CONNECT (MAKE_FH_FLAGS False MQTT_QOS0 False)" and ?body = "conn_body (proto_info x) ?fl ka pl"
  have bl: "length ?body = length (proto_info x) + 3 + length pl" by (simp add: conn_body_def)
  have M: "8 + length (proto_info x) + length pl \<le> M" using assms(4) unfolding pl_def .
  have len: "length ?body < 2 ^ 16" using M assms(5) bl by simp
  then have l28: "length ?body < 2 ^ 28" by simp
  have fl: "length (mqp_frame ?B ?body) \<le> M"
    using M bl remlen_size_bounds[of "of_nat (length ?body)"] unfolding mqp_frame_length[OF l28] by simp
  note clean = assms(6)[unfolded mqp_clean_def]
  obtain ks' where rx: "mqp_recv stream_recv rx (mqp_frame ?B ?body @ tail, ks) =
      Some (int (length (mqp_frame ?B ?body)), rx_of_frame rx ?B ?body, (tail, ks'))"
    using mqp_recv_frame[OF _ _ l28, of rx ?B tail ks] clean fl assms(7,8) by auto
  define rx' where "rx' = rx_of_frame rx ?B ?body"
  have fit: "unat (p_offset rx) + length (mqp_frame ?B ?body) \<le> length (p_buffer rx)" using fl assms(7) by linarith
  obtain rest where r: "drop (MQP_VHEADER_BUF rx') (p_buffer rx') = ?body @ rest" "unat (p_pl_len rx') = length ?body" "p_vh_len rx' = 0"
    using rx_frame_body[OF assms(6) len fit] unfolding rx'_def by blast
  have pl16: "length pl < 2 ^ 16" using len bl by simp
  obtain m where m: "proc_connect_vh_rx rx' = Some (0, ?fl, Some (ka + drop_bit 1 ka), m)" "drop (MQP_PAYLOAD_BUF m) (p_buffer m) = pl @ rest"
    "unat (p_pl_len m) = length pl" using vh_read[OF r(1,3,2) pl16] by blast
  have lim: "MQP_PAYLOAD_BUF m + length pl = MQP_PAYLOAD_BUF m + unat (p_pl_len m)" using m(3) by simp
  obtain v where v: "proc_connect_pl_rx (p_buffer m) (MQP_PAYLOAD_BUF m) (MQP_PAYLOAD_BUF m + unat (p_pl_len m)) ?fl = Some (0, v)"
    "conn_strings v = sent_strings [cid, wtop, wmsg, user, pass]"
    using pl_read[OF m(2)[unfolded pl_def] lim[unfolded pl_def] assms(1-3)] by blast
  have rx2: "mqp_recv stream_recv rx (conn_wire (proto_info x) ?fl ka pl @ tail, ks) = Some (int (length (conn_wire (proto_info x) ?fl ka pl)), rx', (tail, ks'))"
    unfolding conn_wire_def rx'_def by (rule rx)
  show "\<exists>rx' ks' m v k. mqp_recv stream_recv rx (conn_wire (proto_info x) ?fl ka (conn_payload cid wtop wmsg user pass) @ tail, ks) =
        Some (int (length (conn_wire (proto_info x) ?fl ka (conn_payload cid wtop wmsg user pass))), rx', (tail, ks')) \<and>
        proc_connect_vh_rx rx' = Some (0, ?fl, Some k, m) \<and> unat k = (unat ka + unat ka div 2) mod 2 ^ 16 \<and>
        proc_connect_pl_rx (p_buffer m) (MQP_PAYLOAD_BUF m) (MQP_PAYLOAD_BUF m + unat (p_pl_len m)) ?fl = Some (0, v) \<and>
        conn_strings v = sent_strings [cid, wtop, wmsg, user, pass]"
    unfolding pl_def[symmetric] using rx2 m(1) keep_alive_half v
    by (intro exI[of _ rx'] exI[of _ ks'] exI[of _ m] exI[of _ v] exI[of _ "ka + drop_bit 1 ka"] conjI)
qed

text \<open>
  C12: CONNECT from the client library to the broker. With the strings of the application
  that fit into the packet, \<open>connect_msg_send\<close> hands to the network a CONNECT from which
  \<open>mqp_recv\<close> and the parser of the broker read back the flags (will, user name, password, clean
  session), the client identifier, the will and the credentials. The keep-alive period it reads is the one
  sent and a half of it modulo \<open>2 ^ 16\<close>: one and a half times the period for periods of up to 43690
  seconds; from 43691 seconds on the sum wraps around and the broker works with a period that is too short.
\<close>

theorem connect_roundtrip:
  assumes "ml_free_list s = Some a" "ml_heap s a = Some m" "unat (p_maxlen m) \<le> length (p_buffer m)" "unat (p_maxlen m) \<le> 0xFFFF"
    and "ml_ctxs s c = Some x" "ml_clients s c = Some d" "cd_conn_pl_utf8s d = [cid, wtop, wmsg, user, pass]" "\<forall>p \<in> {cid, wtop, wmsg, user, pass}. str_ok p"
    and "wtop = None \<longrightarrow> wmsg = None" "user = None \<longrightarrow> pass = None" "cd_will_opts d AND 0xC6 = 0"
    and "8 + length (proto_info x) + length (conn_payload cid wtop wmsg user pass) \<le> unat (p_maxlen m)"
    and "mqp_clean rx" "unat (p_offset rx) + unat (p_maxlen m) \<le> length (p_buffer rx)" "unat (p_maxlen m) \<le> unat (p_maxlen rx)"
    and "flags = cd_will_opts d OR conn_flags clean wtop user pass"
  shows "\<exists>m'. connect_msg_send env c clean ka s =
      cl_ctx_conn_state_try env c (TxMqp a (MQP_FHEADER_BUF m')) (MQP_CONTENT_LEN m') ka clean (s\<lparr>ml_free_list := p_next m, ml_heap := (ml_heap s)(a \<mapsto> m')\<rparr>) \<and>
    reads_connect rx (mqp_content m') ka flags [cid, wtop, wmsg, user, pass]"
proof -
  have us: "\<forall>p \<in> set [cid, wtop, wmsg, user, pass]. str_ok p" "length [cid, wtop, wmsg, user, pass] = 5" using assms(8) by auto
  have fit: "5 + length (proto_info x) + 3 + length (conn_payload cid wtop wmsg user pass) \<le> unat (p_maxlen m)" using assms(12) by linarith
  from connect_build[OF assms(1-7) us conn_pl_five[OF assms(9)] fit, where env = env and ka = ka and clean = clean] show ?thesis
    using connect_received[OF assms(8,10,11,12,4,13-15), where clean = clean and ka = ka] assms(16) by auto
qed

definition sample_conn :: mqtt_lib where
  "sample_conn = sample_lib\<lparr>ml_clients := [0 \<mapsto> sample_desc\<lparr>cd_conn_pl_utf8s := [Some sample_topic, None, None, Some sample_topic, None]\<rparr>]\<rparr>"

theorem connect_roundtrip_witness:
  "\<exists>m'. connect_msg_send sample_env 0 True 60 sample_conn =
      cl_ctx_conn_state_try sample_env 0 (TxMqp 1 (MQP_FHEADER_BUF m')) (MQP_CONTENT_LEN m') 60 True
        (sample_conn\<lparr>ml_free_list := None, ml_heap := (ml_heap sample_conn)(1 \<mapsto> m')\<rparr>) \<and>
    reads_connect sample_in (mqp_content m') 60 (USER_NAME_OPVAL OR CLEAN_START_VAL) [Some sample_topic, None, None, Some sample_topic, None]"
proof -
  let ?d = "sample_desc\<lparr>cd_conn_pl_utf8s := [Some sample_topic, None, None, Some sample_topic, None]\<rparr>"
  let ?m = "sample_tx\<lparr>p_maxlen := 32, p_buffer := replicate 32 0, p_free_hook := True\<rparr>"
  have 1: "ml_free_list sample_conn = Some 1" "ml_heap sample_conn 1 = Some ?m" "ml_ctxs sample_conn 0 = Some sample_cx" "ml_clients sample_conn 0 = Some ?d"
    by (simp_all add: sample_conn_def sample_lib_def)
  have 2: "str_ok (Some sample_topic)" "str_ok None" by (simp_all add: str_ok_def sample_topic_def u_valid_def)
  have 3: "unat (p_maxlen ?m) = 32" "length (p_buffer ?m) = 32" "p_next ?m = None" by (simp_all add: sample_tx_def)
  have 4: "8 + length (proto_info sample_cx) + length (conn_payload (Some sample_topic) None None (Some sample_topic) None) = 25"
    by (simp add: sample_cx_def cx_has_def mqtt311_def wire_if_def or_empty_def utf8_wire_def u_content_def sample_topic_def)
  have 5: "cd_will_opts ?d OR conn_flags True None (Some sample_topic) None = USER_NAME_OPVAL OR CLEAN_START_VAL" "cd_will_opts ?d AND 0xC6 = 0"
    by (simp_all add: sample_desc_def conn_flags_def)
  have rx: "mqp_clean sample_in" "unat (p_offset sample_in) = 0" "length (p_buffer sample_in) = 32" "unat (p_maxlen sample_in) = 32"
    by (simp_all add: mqp_clean_def sample_in_def)
  show ?thesis
    using connect_roundtrip[OF 1(1,2) _ _ 1(3,4), of "Some sample_topic" None None "Some sample_topic" None sample_in _ True sample_env 60]
    unfolding 3 4 5 rx(2-4) using 2 rx(1) by simp
qed

end
