(* ===== verification/ClientProps.thy ===== *)
theory ClientProps
  imports ClientPub
begin

text \<open>
  Short messages of the client (acknowledgments), delivery of QoS2 messages to the
  application, and the packets of the pool while a client is not connected.
\<close>

section \<open>Short messages\<close>

lemma setup_local:
  assumes "tx_ready s c net" "buf \<noteq> []" "length buf \<le> VH_MSG_LEN" "ml_clients s c = Some d"
  shows "\<exists>s1 tx. cl_ctx_seg1_send env c (TxLocal buf) (of_nat (length buf)) False s = cl_ctx_part_send env c s1 \<and>
     tx_run s1 c net buf \<and> ml_trace s1 = ml_trace s \<and> ml_heap s1 = ml_heap s \<and> ml_clients s1 c = Some (d\<lparr>cd_tx_part := tx\<rparr>) \<and> tx_mqp tx = None"
proof -
  obtain x where xd: "ml_ctxs s c = Some x" "cx_net x = net" "cl_is_connected x"
    "tx_length (cd_tx_part d) = 0" "tx_offset (cd_tx_part d) = 0" "desc_ok (ml_heap s) d" "net \<noteq> - 1" "grp_ok (ml_ctxs s) (ml_used_ctxs s) c"
    using assms(1,4) by (auto simp: tx_ready_def tx_idle_def)
  let ?v = "overlay (tx_vh_msg (cd_tx_part d)) 0 buf"
  have vl: "length (tx_vh_msg (cd_tx_part d)) = VH_MSG_LEN" using xd(6) by (simp add: desc_ok_def)
  have lv: "length ?v = VH_MSG_LEN" using vl assms(3) by simp
  let ?tx = "(cd_tx_part d)\<lparr>tx_vh_msg := ?v, tx_length := of_nat (length buf), tx_mqp := None\<rparr>"
  define s1 where "s1 = s\<lparr>ml_clients := (ml_clients s)(c \<mapsto> d\<lparr>cd_tx_part := ?tx\<rparr>)\<rparr>"
  have u: "unat (of_nat (length buf) :: u32) = length buf" using assms(3) by (simp add: unat_of_nat_eq)
  have le: "\<not> (of_nat VH_MSG_LEN :: u32) < of_nat (length buf)" using u assms(3) by (simp add: word_less_nat_alt)
  have "tx_part_setup (TxLocal buf) (of_nat (length buf)) (cd_tx_part d) = Some (True, ?tx)"
    using le u vl assms(3) by (simp add: tx_part_setup_def mem_simps)
  then have "cl_ctx_seg1_send env c (TxLocal buf) (of_nat (length buf)) False s = cl_ctx_part_send env c s1"
    using xd(1,3-5) assms(4) by (simp add: cl_ctx_seg1_send_def TX_PART_BUF_SZ_def cd_upd_def s1_def)
  moreover have "take (length buf) ?v = buf" by (simp add: overlay_def)
  then have "tx_part_bytes ?tx s1 = Some buf" using u lv assms(3) xd(5) by (simp add: tx_part_bytes_def TX_PART_BUF_SZ_def)
  then have "tx_run s1 c net buf" unfolding tx_run_def
    using xd lv by (intro exI[of _ x] exI[of _ "d\<lparr>cd_tx_part := ?tx\<rparr>"]) (simp add: s1_def desc_ok_def)
  ultimately show ?thesis by (intro exI[of _ s1] exI[of _ ?tx]) (simp add: s1_def)
qed

text \<open>A short message leaves the client as it is, or the connection is given up.\<close>

lemma short_send:
  assumes "tx_ready s c net" "send_ok env" "buf \<noteq> []" "length buf \<le> VH_MSG_LEN" "ml_clients s c = Some d"
  shows "\<exists>rv s'. cl_ctx_seg1_send env c (TxLocal buf) (of_nat (length buf)) False s = Some (rv, s') \<and> dom (ml_heap s') = dom (ml_heap s) \<and>
     nat rv \<le> length buf \<and> accepted net (ml_trace s') = accepted net (ml_trace s) @ take (nat rv) buf \<and>
     (\<exists>d'. ml_clients s' c = Some d' \<and> same_app d d') \<and>
     (rv = - 1 \<and> tx_lost s' c \<or> 0 < rv \<and> (\<exists>tx. ml_clients s' c = Some (d\<lparr>cd_tx_part := tx\<rparr>)))"
proof -
  obtain s1 tx where 1: "cl_ctx_seg1_send env c (TxLocal buf) (of_nat (length buf)) False s = cl_ctx_part_send env c s1"
    "tx_run s1 c net buf" "ml_heap s1 = ml_heap s" "ml_clients s1 c = Some (d\<lparr>cd_tx_part := tx\<rparr>)" "tx_mqp tx = None"
    "ml_trace s1 = ml_trace s"
    using setup_local[OF assms(1,3,4,5)] by blast
  obtain rv s2 where 2: "cl_ctx_part_send env c s1 = Some (rv, s2)" "part_outcome s1 s2 c net buf rv"
    using part_send[OF 1(2) assms(3,2)] by blast
  from 2(2) consider (lost) "rv = - 1" "part_lost s1 s2 c net" | (more) k where "rv = int k" "0 < k" "k < length buf" "part_more s1 s2 c net buf k"
    | (all) "rv = int (length buf)" "part_all s1 s2 c net buf" unfolding part_outcome_def by blast
  then show ?thesis
  proof cases
    case lost
    then show ?thesis using 1(1,3,4,6) 2(1) by (intro exI[of _ rv] exI[of _ s2]) (auto simp: part_lost_def same_app_def)
  next
    case more
    then show ?thesis using 1(1,3,4,6) 2(1) by (intro exI[of _ rv] exI[of _ s2]) (auto simp: part_more_def same_app_def)
  next
    case all
    then have "ml_heap s2 = ml_heap s1" "\<exists>tx. ml_clients s2 c = Some (d\<lparr>cd_tx_part := tx\<rparr>)"
      using 1(4,5) by (auto simp: part_all_def tx_left_def)
    then show ?thesis using 1(1,3,6) 2(1) all assms(3) by (intro exI[of _ rv] exI[of _ s2]) (auto simp: part_all_def same_app_def)
  qed
qed

section \<open>QoS2 from the broker\<close>

text \<open>A client with its queue, and a PUBLISH of QoS2 in the buffer \<open>a\<close> that \<open>mqp_proc_pub_rx\<close> parses to \<open>m'\<close>.\<close>

definition qos2_rx :: "mqtt_lib \<Rightarrow> nat \<Rightarrow> client_desc \<Rightarrow> nat \<Rightarrow> mqtt_packet \<Rightarrow> mqtt_packet \<Rightarrow> bool" where
  "qos2_rx s c d a m m' \<longleftrightarrow> ml_clients s c = Some d \<and> cq_inv (cd_qos2_rx_cq d) \<and> ml_heap s a = Some m \<and>
     mqp_proc_pub_rx m = Some (True, m') \<and> ENUM_QOS (p_fh_byte1 m') = MQTT_QOS2"

definition pubrec :: "u16 \<Rightarrow> u8 list" where
  "pubrec msg_id = [MAKE_FH_BYTE1 MQTT_PUBREC (MAKE_FH_FLAGS False MQTT_QOS0 False), 2, hi8 msg_id, lo8 msg_id]"

lemma pk_put_fields:
  "ml_ctxs (pk_put a m s) = ml_ctxs s" "ml_clients (pk_put a m s) = ml_clients s" "ml_used_ctxs (pk_put a m s) = ml_used_ctxs s"
  "ml_heap (pk_put a m s) = (ml_heap s)(a \<mapsto> m)" "ml_trace (pk_put a m s) = ml_trace s"
  by (simp_all add: pk_put_def)

lemma qos2_known:
  assumes "qos2_rx s c d a m m'" "p_msg_id m' \<in> set (cq_ids (cd_qos2_rx_cq d))"
  shows "cl_proc_pub_rx env c a s = Some (True, pk_put a (m'\<lparr>p_private := 1\<rparr>) s)"
proof -
  have "qos2_pub_cq_check (cd_qos2_rx_cq d) (p_msg_id m') = Some True"
    using check_cq[of "cd_qos2_rx_cq d" "p_msg_id m'"] assms by (simp add: qos2_rx_def)
  moreover have "mqp_do_not_rpt_set a (pk_put a m' s) = Some (pk_put a (m'\<lparr>p_private := 1\<rparr>) s)"
    by (simp add: mqp_do_not_rpt_set_def pk_put_def)
  ultimately show ?thesis using assms(1) by (simp add: cl_proc_pub_rx_def qos2_rx_def pk_put_fields)
qed

lemma qos2_full:
  assumes "qos2_rx s c d a m m'" "p_msg_id m' \<notin> set (cq_ids (cd_qos2_rx_cq d))" "length (cq_ids (cd_qos2_rx_cq d)) = 8"
  shows "\<exists>s'. cl_proc_pub_rx env c a s = Some (False, s') \<and> ml_trace s' = ml_trace s"
proof -
  have "qos2_pub_cq_check (cd_qos2_rx_cq d) (p_msg_id m') = Some False"
    using check_cq[of "cd_qos2_rx_cq d" "p_msg_id m'"] assms(1,2) by (simp add: qos2_rx_def)
  moreover have "qos2_pub_cq_logup (cd_qos2_rx_cq d) (p_msg_id m') = Some (False, cd_qos2_rx_cq d)"
    using logup_full_cq[of "cd_qos2_rx_cq d"] assms(1,3) by (simp add: qos2_rx_def)
  ultimately show ?thesis
    using assms(1) by (simp add: cl_proc_pub_rx_def qos2_rx_def pk_put_fields cd_upd_def)
qed

lemma qos2_new:
  assumes "qos2_rx s c d a m m'" "p_msg_id m' \<notin> set (cq_ids (cd_qos2_rx_cq d))" "length (cq_ids (cd_qos2_rx_cq d)) \<noteq> 8"
    "tx_ready s c net" "send_ok env" "cd_publish_rx d = Some f" "wlist_rep (ml_heap s) (cd_qos_ack1_wl d) ps" "a \<notin> set ps"
  shows "\<exists>s' tr k. cl_proc_pub_rx env c a s = Some (True, s') \<and>
     ml_trace s' = ClPublishRx f (cd_app d) (BOOL_DUP (p_fh_byte1 m')) MQTT_QOS2 (BOOL_RETAIN (p_fh_byte1 m')) a # tr \<and>
     k \<le> 4 \<and> accepted net tr = accepted net (ml_trace s) @ take k (pubrec (p_msg_id m')) \<and>
     (tx_lost s' c \<or> 0 < k \<and> (\<exists>d'. ml_clients s' c = Some d' \<and> cq_inv (cd_qos2_rx_cq d') \<and>
        cq_ids (cd_qos2_rx_cq d') = cq_ids (cd_qos2_rx_cq d) @ [p_msg_id m']))"
proof -
  let ?q = "cd_qos2_rx_cq d" and ?mid = "p_msg_id m'" and ?B = "p_fh_byte1 m'" and ?buf = "pubrec (p_msg_id m')"
  note pre = assms(1)[unfolded qos2_rx_def]
  define s0 where "s0 = pk_put a m' s"
  note v0 = pk_put_fields[of a m' s, folded s0_def]
  have c0: "ml_clients s0 c = Some d" using pre v0(2) by simp
  have chk: "qos2_pub_cq_check ?q ?mid = Some False" using check_cq[of ?q ?mid] pre assms(2) by simp
  obtain q' where q': "qos2_pub_cq_logup ?q ?mid = Some (True, q')" "cq_inv q'" "cq_ids q' = cq_ids ?q @ [?mid]"
  proof -
    have "length (cq_ids ?q) \<le> 8" by (simp add: cq_ids_length)
    moreover have "cq_inv ?q" using pre by simp
    ultimately show ?thesis using that logup_cq[of ?q ?mid] assms(3) by auto
  qed
  let ?d = "d\<lparr>cd_qos2_rx_cq := q'\<rparr>"
  define s1 where "s1 = s0\<lparr>ml_clients := (ml_clients s0)(c \<mapsto> ?d)\<rparr>"
  have cu: "cd_upd (\<lambda>d. d\<lparr>cd_qos2_rx_cq := q'\<rparr>) c s0 = Some s1" using c0 by (simp add: cd_upd_def s1_def)
  have rd0: "tx_ready s0 c net" using ready_other[OF assms(4) _ assms(7,8) v0(1-4)] pre by blast
  have rd1: "tx_ready s1 c net" using rd0 c0 by (auto simp: tx_ready_def tx_idle_def desc_ok_def s1_def)
  have d1: "ml_clients s1 c = Some ?d" by (simp add: s1_def)
  obtain rv s2 where 2: "cl_ctx_seg1_send env c (TxLocal ?buf) (of_nat (length ?buf)) False s1 = Some (rv, s2)" "dom (ml_heap s2) = dom (ml_heap s1)"
     "nat rv \<le> length ?buf" "accepted net (ml_trace s2) = accepted net (ml_trace s1) @ take (nat rv) ?buf"
     "\<exists>d'. ml_clients s2 c = Some d' \<and> same_app ?d d'" "rv = - 1 \<and> tx_lost s2 c \<or> 0 < rv \<and> (\<exists>tx. ml_clients s2 c = Some (?d\<lparr>cd_tx_part := tx\<rparr>))"
    using short_send[OF rd1 assms(5) _ _ d1, of ?buf] by (auto simp: pubrec_def)
  have vs: "cl_vh_msg_send env c MQTT_PUBREC MQTT_QOS0 True ?mid s1 = Some (rv, s2)" using 2(1) by (simp add: cl_vh_msg_send_def pubrec_def)
  obtain d2 where d2: "ml_clients s2 c = Some d2" "cd_publish_rx d2 = Some f" "cd_app d2 = cd_app d" using 2(5) assms(6) by (auto simp: same_app_def)
  have "a \<in> dom (ml_heap s2)" unfolding 2(2) by (simp add: s1_def v0)
  then obtain m2 where m2: "ml_heap s2 a = Some m2" by blast
  let ?m3 = "m2\<lparr>p_n_refs := p_n_refs m2 + 1\<rparr>"
  define s3 where "s3 = ml_log (ClPublishRx f (cd_app d) (BOOL_DUP ?B) MQTT_QOS2 (BOOL_RETAIN ?B) a) (pk_put a ?m3 s2)"
  define s4 where "s4 = (if ce_publish_rx env (ml_trace (pk_put a ?m3 s2)) a then pk_put a (?m3\<lparr>p_n_refs := p_n_refs ?m3 - 1\<rparr>) s3 else s3)"
  have h3: "ml_heap s3 a = Some ?m3" by (simp add: s3_def ml_log_def pk_put_def)
  have ne: "MQTT_QOS1 \<noteq> MQTT_QOS2" by simp
  have "cl_proc_pub_rx env c a s = Some (True, s4)"
    unfolding cl_proc_pub_rx_def conjunct1[OF conjunct2[OF conjunct2[OF pre]]] conjunct1[OF conjunct2[OF conjunct2[OF conjunct2[OF pre]]]]
      conjunct2[OF conjunct2[OF conjunct2[OF conjunct2[OF pre]]]] bind.bind_lunit prod.case Let_def if_not_P[OF ne] not_True_eq_False if_False simp_thms if_True
      s0_def[symmetric] c0 chk
    using q'(1) cu vs d2 m2 by (simp add: s3_def[symmetric] h3 s4_def)
  moreover have v4: "ml_ctxs s4 = ml_ctxs s2" "ml_clients s4 = ml_clients s2"
    "ml_trace s4 = ClPublishRx f (cd_app d) (BOOL_DUP ?B) MQTT_QOS2 (BOOL_RETAIN ?B) a # ml_trace s2"
    by (simp_all add: s4_def s3_def ml_log_def pk_put_def)
  moreover have "tx_lost s4 c \<or> 0 < nat rv \<and> (\<exists>d'. ml_clients s4 c = Some d' \<and> cq_inv (cd_qos2_rx_cq d') \<and> cq_ids (cd_qos2_rx_cq d') = cq_ids ?q @ [?mid])"
    using 2(6) q'(2,3) v4(1,2) by (auto simp: tx_lost_def)
  moreover have "accepted net (ml_trace s2) = accepted net (ml_trace s) @ take (nat rv) ?buf" "nat rv \<le> 4"
    using 2(3,4) v0(5) by (simp_all add: s1_def pubrec_def)
  ultimately show ?thesis by (intro exI[of _ s4] exI[of _ "ml_trace s2"] exI[of _ "nat rv"]) simp
qed

text \<open>
  C21: delivery of QoS2 messages. The application is called for a PUBLISH with an identifier that is
  not on record, after the identifier is recorded and PUBREC is sent (all of it or a first part of it, unless the
  connection is lost); while the identifier is on record (until PUBREL) a
  PUBLISH with it is accepted and dropped: nothing is delivered, and nothing is sent, so
  that a broker whose PUBREC was lost never gets another one. With eight
  identifiers on record a new one is an error and is not delivered.
\<close>

theorem qos2_once:
  assumes "tx_ready s c net" "send_ok env" "ml_clients s c = Some d" "cq_inv (cd_qos2_rx_cq d)" "cd_publish_rx d = Some f"
    and "wlist_rep (ml_heap s) (cd_qos_ack1_wl d) ps" "a \<notin> set ps"
    and "ml_heap s a = Some m" "mqp_proc_pub_rx m = Some (True, m')" "ENUM_QOS (p_fh_byte1 m') = MQTT_QOS2"
  shows "if p_msg_id m' \<in> set (cq_ids (cd_qos2_rx_cq d))
     then cl_proc_pub_rx env c a s = Some (True, pk_put a (m'\<lparr>p_private := 1\<rparr>) s)
     else if length (cq_ids (cd_qos2_rx_cq d)) = 8
     then \<exists>s'. cl_proc_pub_rx env c a s = Some (False, s') \<and> ml_trace s' = ml_trace s
     else \<exists>s' tr k. cl_proc_pub_rx env c a s = Some (True, s') \<and>
        ml_trace s' = ClPublishRx f (cd_app d) (BOOL_DUP (p_fh_byte1 m')) MQTT_QOS2 (BOOL_RETAIN (p_fh_byte1 m')) a # tr \<and>
        k \<le> 4 \<and> accepted net tr = accepted net (ml_trace s) @ take k (pubrec (p_msg_id m')) \<and>
        (tx_lost s' c \<or> 0 < k \<and> (\<exists>d'. ml_clients s' c = Some d' \<and> cq_inv (cd_qos2_rx_cq d') \<and>
           cq_ids (cd_qos2_rx_cq d') = cq_ids (cd_qos2_rx_cq d) @ [p_msg_id m']))"
proof -
  have rx: "qos2_rx s c d a m m'" using assms(3,4,8-10) by (simp add: qos2_rx_def)
  show ?thesis using qos2_known[OF rx] qos2_full[OF rx] qos2_new[OF rx _ _ assms(1,2,5-7)] by presburger
qed

section \<open>Publishing while not connected\<close>

lemma publish_offline_step:
  assumes "ml_ctxs s c = Some x" "\<not> cl_is_connected x" "ml_free_list s = Some a" "ml_heap s a = Some m"
    "unat (p_maxlen m) \<le> length (p_buffer m)" "unat (p_maxlen m) \<le> 0xFFFF" "u_valid topic" "0 < u_length topic" "data \<noteq> []"
    "5 + length (pub_vheader (u_content topic) 0) + length data \<le> unat (p_maxlen m)"
  shows "\<exists>m'. mqtt_client_pub_msg_send env (Some c) (Some topic) (Some data) (of_nat (length data)) MQTT_QOS0 retain s =
     Some (0, s\<lparr>ml_free_list := p_next m, ml_heap := (ml_heap s)(a \<mapsto> m')\<rparr>)"
proof -
  let ?fl = "MAKE_FH_FLAGS False MQTT_QOS0 retain"
  obtain m2 r3 m' where b: "mqtt_client_pub_msg_send env (Some c) (Some topic) (Some data) (of_nat (length data)) MQTT_QOS0 retain s =
       msg_dispatch env c a MQTT_QOS0 retain (s\<lparr>ml_free_list := p_next m, ml_msg_id := ml_msg_id s, ml_heap := (ml_heap s)(a \<mapsto> m2)\<rparr>)"
     "mqp_prep_fh m2 ?fl = Some (r3, m')" "p_msg_id m2 = 0"
    using pub_send_build[OF assms(3-6) _ assms(7-10), of MQTT_QOS0 env c retain] by auto
  have "msg_dispatch env c a MQTT_QOS0 retain (s\<lparr>ml_free_list := p_next m, ml_msg_id := ml_msg_id s, ml_heap := (ml_heap s)(a \<mapsto> m2)\<rparr>) =
     Some (0, s\<lparr>ml_free_list := p_next m, ml_heap := (ml_heap s)(a \<mapsto> m')\<rparr>)"
    using assms(1,2) b(2,3) by (simp add: msg_dispatch_def pk_put_def cl_ctx_seg1_send_def)
  then show ?thesis using b(1) by auto
qed

text \<open>An application that publishes \<open>n\<close> times: the results.\<close>

fun publish_n :: "client_env \<Rightarrow> nat \<Rightarrow> utf8_string \<Rightarrow> u8 list \<Rightarrow> bool \<Rightarrow> nat \<Rightarrow> mqtt_lib \<Rightarrow> (i32 list \<times> mqtt_lib) option" where
  "publish_n env c topic data retain 0 s = Some ([], s)"
| "publish_n env c topic data retain (Suc n) s = do {
     (r, s) \<leftarrow> mqtt_client_pub_msg_send env (Some c) (Some topic) (Some data) (of_nat (length data)) MQTT_QOS0 retain s;
     (rs, s) \<leftarrow> publish_n env c topic data retain n s;
     Some (r # rs, s) }"

definition pub_room :: "utf8_string \<Rightarrow> u8 list \<Rightarrow> mqtt_packet \<Rightarrow> bool" where
  "pub_room topic data m \<longleftrightarrow> unat (p_maxlen m) \<le> length (p_buffer m) \<and> unat (p_maxlen m) \<le> 0xFFFF \<and>
     5 + length (pub_vheader (u_content topic) 0) + length data \<le> unat (p_maxlen m)"

text \<open>
  C40: publishing on a client that is not connected. Every QoS0 publication reports success
  although nothing is sent, and takes a packet out of the pool that no later operation
  gives back, since it is neither pending nor waiting; when the pool is used up
  every publication, on any client of the library, fails.
\<close>

theorem publish_offline_leak:
  assumes "ml_ctxs s c = Some x" "\<not> cl_is_connected x" "chain (wnext (ml_heap s)) (ml_free_list s) ps"
    and "\<forall>a \<in> set ps. \<exists>m. ml_heap s a = Some m \<and> pub_room topic data m" "u_valid topic" "0 < u_length topic" "data \<noteq> []"
  shows "\<exists>s'. publish_n env c topic data retain (Suc (length ps)) s = Some (replicate (length ps) 0 @ [MQP_ERR_PKT_AVL], s') \<and>
     ml_free_list s' = None \<and> ml_trace s' = ml_trace s \<and> ml_clients s' = ml_clients s"
  using assms(1-4)
proof (induction ps arbitrary: s)
  case Nil
  have "is_valid_utf8_string topic" using assms(5,6) by (auto simp: is_valid_utf8_string_def u_valid_def word_less_nat_alt)
  moreover have "ml_free_list s = None" using Nil.prems(3) by simp
  ultimately show ?case
    by (simp add: mqtt_client_pub_msg_send_def mqp_client_send_alloc_def mqp_client_alloc_def mqp_alloc_atomic_def)
next
  case (Cons a ps)
  obtain m where m: "ml_heap s a = Some m" "pub_room topic data m" using Cons.prems(4) by auto
  have fl: "ml_free_list s = Some a" "chain (wnext (ml_heap s)) (p_next m) ps" using Cons.prems(3) m(1) by (auto simp: wnext_Some)
  have nin: "a \<notin> set ps" using chain_distinct[OF Cons.prems(3)] by simp
  obtain m' where p: "mqtt_client_pub_msg_send env (Some c) (Some topic) (Some data) (of_nat (length data)) MQTT_QOS0 retain s =
     Some (0, s\<lparr>ml_free_list := p_next m, ml_heap := (ml_heap s)(a \<mapsto> m')\<rparr>)"
    using publish_offline_step[OF Cons.prems(1,2) fl(1) m(1) _ _ assms(5-7)] m(2) by (auto simp: pub_room_def)
  let ?s = "s\<lparr>ml_free_list := p_next m, ml_heap := (ml_heap s)(a \<mapsto> m')\<rparr>"
  have "\<And>b. b \<in> set ps \<Longrightarrow> wnext (ml_heap ?s) b = wnext (ml_heap s) b" using nin by (auto simp: wnext_def)
  then have ch: "chain (wnext (ml_heap ?s)) (ml_free_list ?s) ps" using seg_cong[OF fl(2)] by simp
  have rm: "\<forall>b \<in> set ps. \<exists>m. ml_heap ?s b = Some m \<and> pub_room topic data m" using Cons.prems(4) nin by auto
  have cx: "ml_ctxs ?s c = Some x" using Cons.prems(1) by simp
  from Cons.IH[OF cx Cons.prems(2) ch rm] obtain s' where
    "publish_n env c topic data retain (Suc (length ps)) ?s = Some (replicate (length ps) 0 @ [MQP_ERR_PKT_AVL], s')"
    "ml_free_list s' = None" "ml_trace s' = ml_trace s" "ml_clients s' = ml_clients s" by auto
  then show ?case using p by (auto simp del: publish_n.simps(2) simp add: publish_n.simps(2)[of _ _ _ _ _ "Suc (length ps)"])
qed

definition sample_qos2 :: mqtt_packet where
  "sample_qos2 = \<lparr>p_msg_type = MQTT_PUBLISH, p_fh_byte1 = 0x34, p_msg_id = 0, p_n_refs = 1, p_offset = 0,
     p_fh_len = 2, p_vh_len = 0, p_pl_len = 6, p_private = 0, p_maxlen = 8, p_buffer = [0x34, 6, 0, 1, 0x61, 0, 9, 7],
     p_free_hook = True, p_next = None\<rparr>"

definition sample_sub :: mqtt_lib where
  "sample_sub = sample_lib\<lparr>ml_clients := [0 \<mapsto> sample_desc\<lparr>cd_publish_rx := Some 3\<rparr>], ml_heap := [1 \<mapsto> sample_qos2], ml_free_list := None\<rparr>"

definition sample_pub2 :: mqtt_packet where
  "sample_pub2 = (case mqp_proc_pub_rx sample_qos2 of Some (_, m) \<Rightarrow> m | None \<Rightarrow> sample_qos2)"

lemma sample_qos2_rx: "mqp_proc_pub_rx sample_qos2 = Some (True, sample_pub2)" "p_msg_id sample_pub2 = 9" "p_fh_byte1 sample_pub2 = 0x34"
  by code_simp+

lemma sample_sub_facts: "tx_ready sample_sub 0 5" "ml_clients sample_sub 0 = Some (sample_desc\<lparr>cd_publish_rx := Some 3\<rparr>)" "ml_heap sample_sub 1 = Some sample_qos2"
  "wlist_rep (ml_heap sample_sub) (cd_qos_ack1_wl (sample_desc\<lparr>cd_publish_rx := Some 3\<rparr>)) []" "ml_trace sample_sub = []"
  by (simp_all add: tx_ready_def tx_idle_def sample_sub_def sample_lib_def sample_cx_def sample_desc_def cl_is_connected_def cx_has_def desc_ok_def grp_ok_def wlist_rep_def)

theorem qos2_once_witness:
  "\<exists>s' tr. cl_proc_pub_rx sample_env 0 1 sample_sub = Some (True, s') \<and>
     ml_trace s' = ClPublishRx 3 None False MQTT_QOS2 False 1 # tr \<and>
     (tx_lost s' 0 \<or> (\<exists>d'. ml_clients s' 0 = Some d' \<and> cq_ids (cd_qos2_rx_cq d') = [9]))"
proof -
  let ?d = "sample_desc\<lparr>cd_publish_rx := Some 3\<rparr>"
  have q: "cq_inv (cd_qos2_rx_cq ?d)" "cq_ids (cd_qos2_rx_cq ?d) = []" by (simp_all add: sample_desc_def reset_cq)
  have f: "cd_publish_rx ?d = Some 3" "cd_app ?d = None" by (simp_all add: sample_desc_def)
  have e: "ENUM_QOS (p_fh_byte1 sample_pub2) = MQTT_QOS2" "\<not> BOOL_DUP (p_fh_byte1 sample_pub2)" "\<not> BOOL_RETAIN (p_fh_byte1 sample_pub2)"
    unfolding sample_qos2_rx(3) by code_simp+
  show ?thesis
    using qos2_once[OF sample_sub_facts(1) sample_facts_client(2) sample_sub_facts(2) q(1) f(1) sample_sub_facts(4) _ sample_sub_facts(3) sample_qos2_rx(1) e(1)] q(2) f(2) e(2,3) sample_qos2_rx(2)
    by auto
qed

theorem publish_offline_leak_witness:
  "\<exists>s'. publish_n sample_env 0 sample_topic [1, 2] False 2 (sample_lib\<lparr>ml_ctxs := [0 \<mapsto> sample_cx\<lparr>cx_flags := 0\<rparr>]\<rparr>) = Some ([0, MQP_ERR_PKT_AVL], s') \<and> ml_free_list s' = None"
proof -
  let ?s = "sample_lib\<lparr>ml_ctxs := [0 \<mapsto> sample_cx\<lparr>cx_flags := 0\<rparr>]\<rparr>"
  have 1: "ml_ctxs ?s 0 = Some (sample_cx\<lparr>cx_flags := 0\<rparr>)" "\<not> cl_is_connected (sample_cx\<lparr>cx_flags := 0\<rparr>)"
    "chain (wnext (ml_heap ?s)) (ml_free_list ?s) [1]"
    by (simp_all add: cl_is_connected_def cx_has_def sample_lib_def wnext_def sample_tx_def)
  have 2: "\<forall>a \<in> set [1]. \<exists>m. ml_heap ?s a = Some m \<and> pub_room sample_topic [1, 2] m"
    by (simp add: sample_lib_def pub_room_def length_pub_vheader sample_facts)
  have 3: "0 < u_length sample_topic" by (simp add: sample_topic_def)
  show ?thesis using publish_offline_leak[OF 1 2 sample_facts(2) 3, of sample_env False] by (auto simp: numeral_2_eq_2)
qed

end
