(* ===== verification/Util64.thy ===== *)
theory Util64
  imports MqttPrelude
begin

text \<open>
  The 64-bit arithmetic of \<open>middleware/driver/hal/util64.c\<close>: counts of ticks as two 32-bit
  words (\<open>struct u64_val\<close>) and times as seconds and nanoseconds (\<open>struct u64_time\<close>). A
  result that the code writes through a pointer is returned. The lemmas relate the
  operations to the arithmetic of 64-bit words and of numbers of nanoseconds.
\<close>

section \<open>The code\<close>

record u64_val =
  hi_32 :: u32
  lo_32 :: u32

record u64_time =
  secs :: u32
  nsec :: u32

abbreviation NSEC_VAL_FOR_1SEC :: u32 where "NSEC_VAL_FOR_1SEC \<equiv> 1000000000"

definition util_u32_nsec_add :: "u32 \<Rightarrow> u32 \<Rightarrow> u64_time" where
  "util_u32_nsec_add nsec_1 nsec_2 =
     (if NSEC_VAL_FOR_1SEC \<le> nsec_1 + nsec_2
      then \<lparr>secs = 1, nsec = nsec_1 + nsec_2 - NSEC_VAL_FOR_1SEC\<rparr>
      else \<lparr>secs = 0, nsec = nsec_1 + nsec_2\<rparr>)"

definition util_u64_time_add :: "u64_time \<Rightarrow> u64_time \<Rightarrow> u64_time" where
  "util_u64_time_add time_1 time_2 =
     (let result = util_u32_nsec_add (nsec time_1) (nsec time_2) in
      result\<lparr>secs := secs result + (secs time_1 + secs time_2)\<rparr>)"

definition util_u32_data_add :: "u32 \<Rightarrow> u32 \<Rightarrow> u64_val" where
  "util_u32_data_add data_1 data_2 =
     (if NOT data_2 < data_1
      then \<lparr>hi_32 = 1, lo_32 = data_1 - NOT data_2 - 1\<rparr>
      else \<lparr>hi_32 = 0, lo_32 = data_1 + data_2\<rparr>)"

definition util_u64_data_add :: "u64_val \<Rightarrow> u64_val \<Rightarrow> u64_val" where
  "util_u64_data_add value1 value2 =
     (let result = util_u32_data_add (lo_32 value1) (lo_32 value2) in
      result\<lparr>hi_32 := hi_32 result + (hi_32 value1 + hi_32 value2)\<rparr>)"

definition util_u32_nsec_sub :: "u32 \<Rightarrow> u32 \<Rightarrow> u64_time" where
  "util_u32_nsec_sub from_nsec this_nsec =
     (if from_nsec < this_nsec
      then \<lparr>secs = 0xFFFFFFFF, nsec = NSEC_VAL_FOR_1SEC + from_nsec - this_nsec\<rparr>
      else \<lparr>secs = 0, nsec = from_nsec - this_nsec\<rparr>)"

definition util_u64_time_sub :: "u64_time \<Rightarrow> u64_time \<Rightarrow> u64_time" where
  "util_u64_time_sub from this =
     (let outp = util_u32_nsec_sub (nsec from) (nsec this) in
      if secs from < secs this + (if secs outp = 0xFFFFFFFF then 1 else 0)
      then outp\<lparr>secs := 0xFFFFFFFF\<rparr>
      else outp\<lparr>secs := secs outp + (secs from - secs this)\<rparr>)"

definition util_u32_data_cmp :: "u32 \<Rightarrow> u32 \<Rightarrow> int" where
  "util_u32_data_cmp val1 val2 = (if val1 = val2 then 0 else if val2 < val1 then 1 else - 1)"

definition util_u64_data_cmp :: "u64_val \<Rightarrow> u64_val \<Rightarrow> int" where
  "util_u64_data_cmp u64_val1 u64_val2 =
     (if hi_32 u64_val1 = hi_32 u64_val2 then util_u32_data_cmp (lo_32 u64_val1) (lo_32 u64_val2)
      else if hi_32 u64_val2 < hi_32 u64_val1 then 1 else - 1)"

section \<open>As 64-bit numbers\<close>

lemma u32_lt: "unat (x :: u32) < 2 ^ 32"
  using unsigned_less[of x, where 'a = nat] by simp

definition u64_nat :: "u64_val \<Rightarrow> nat" where
  "u64_nat v = unat (hi_32 v) * 2 ^ 32 + unat (lo_32 v)"

lemma unat_NOT: "unat (NOT x :: u32) = 2 ^ 32 - 1 - unat x"
proof -
  have "NOT x = - 1 - x" by (simp add: not_eq_complement)
  moreover have "(- 1 :: u32) = 0xFFFFFFFF" by simp
  then have "unat (- 1 :: u32) = 2 ^ 32 - 1" by (simp only:) simp
  ultimately show ?thesis using unat_sub[of x "- 1"] by simp
qed

lemma u64_nat_less: "u64_nat v < 2 ^ 64"
proof -
  have "unat (hi_32 v) < 2 ^ 32" "unat (lo_32 v) < 2 ^ 32" by (rule u32_lt)+
  then show ?thesis by (simp add: u64_nat_def)
qed

lemma u64_nat_eq: "u64_nat v = u64_nat w \<longleftrightarrow> v = w"
proof
  assume e: "u64_nat v = u64_nat w"
  have l: "unat (lo_32 v) < 2 ^ 32" "unat (lo_32 w) < 2 ^ 32" by (rule u32_lt)+
  have "unat (hi_32 v) = u64_nat v div 2 ^ 32" "unat (hi_32 w) = u64_nat w div 2 ^ 32" "unat (lo_32 v) = u64_nat v mod 2 ^ 32" "unat (lo_32 w) = u64_nat w mod 2 ^ 32"
    using l by (simp_all add: u64_nat_def)
  then have "hi_32 v = hi_32 w" "lo_32 v = lo_32 w" using e by (simp_all add: word_unat_eq_iff)
  then show "v = w" by simp
qed simp

lemma u64_add_nat: "u64_nat (util_u64_data_add a b) = (u64_nat a + u64_nat b) mod 2 ^ 64"
proof -
  let ?la = "unat (lo_32 a)" and ?lb = "unat (lo_32 b)" and ?ha = "unat (hi_32 a)" and ?hb = "unat (hi_32 b)"
  have b: "?la < 2 ^ 32" "?lb < 2 ^ 32" by (rule u32_lt)+
  have n: "unat (NOT (lo_32 b)) = 2 ^ 32 - 1 - ?lb" by (rule unat_NOT)
  have c: "NOT (lo_32 b) < lo_32 a \<longleftrightarrow> 2 ^ 32 \<le> ?la + ?lb" using n b by (simp add: word_less_nat_alt; linarith)
  have s: "lo_32 a - NOT (lo_32 b) - 1 = lo_32 a + lo_32 b" by (simp add: not_eq_complement)
  have l: "unat (lo_32 a + lo_32 b) = (?la + ?lb) mod 2 ^ 32" by (simp add: unat_word_ariths)
  define k where "k = (if 2 ^ 32 \<le> ?la + ?lb then 1 else 0 :: nat)"
  have lk: "(?la + ?lb) mod 2 ^ 32 + k * 2 ^ 32 = ?la + ?lb"
    using b by (auto simp: k_def mod_if)
  have r: "util_u64_data_add a b = \<lparr>hi_32 = of_nat k + (hi_32 a + hi_32 b), lo_32 = lo_32 a + lo_32 b\<rparr>"
    by (simp add: util_u64_data_add_def util_u32_data_add_def Let_def c s k_def)
  have h: "unat (of_nat k + (hi_32 a + hi_32 b)) = (k + ?ha + ?hb) mod 2 ^ 32"
    by (simp add: unat_word_ariths unat_of_nat mod_simps add.assoc)
  have "u64_nat (util_u64_data_add a b) = (k + ?ha + ?hb) mod 2 ^ 32 * 2 ^ 32 + (?la + ?lb) mod 2 ^ 32"
    by (simp add: u64_nat_def r h l)
  also have "\<dots> = ((k + ?ha + ?hb) * 2 ^ 32 + (?la + ?lb) mod 2 ^ 32) mod 2 ^ 64"
  proof -
    have "x mod 2 ^ 32 * 2 ^ 32 + y = (x * 2 ^ 32 + y) mod 2 ^ 64" if "y < 2 ^ 32" for x y :: nat
      using mod_mult2_eq[of "x * 2 ^ 32 + y" "2 ^ 32" "2 ^ 32"] that by (simp add: algebra_simps)
    then show ?thesis by (metis mod_less_divisor zero_less_numeral zero_less_power)
  qed
  also have "(k + ?ha + ?hb) * 2 ^ 32 + (?la + ?lb) mod 2 ^ 32 = u64_nat a + u64_nat b"
    using lk by (simp add: u64_nat_def algebra_simps)
  finally show ?thesis .
qed

lemma u64_cmp_nat:
  "util_u64_data_cmp a b = (if u64_nat a = u64_nat b then 0 else if u64_nat b < u64_nat a then 1 else - 1)"
proof -
  have l: "unat (lo_32 a) < 2 ^ 32" "unat (lo_32 b) < 2 ^ 32" by (rule u32_lt)+
  consider "hi_32 a = hi_32 b" | "hi_32 b < hi_32 a" | "hi_32 a < hi_32 b" using linorder_less_linear[of "hi_32 a" "hi_32 b"] by blast
  then show ?thesis
  proof cases
    case 1
    then show ?thesis by (auto simp: util_u64_data_cmp_def util_u32_data_cmp_def u64_nat_def word_less_nat_alt word_unat_eq_iff)
  next
    case 2
    then have "unat (hi_32 b) < unat (hi_32 a)" by (simp add: word_less_nat_alt)
    then have "u64_nat b < u64_nat a" using l by (simp add: u64_nat_def)
    then show ?thesis using 2 by (auto simp: util_u64_data_cmp_def)
  next
    case 3
    then have "unat (hi_32 a) < unat (hi_32 b)" by (simp add: word_less_nat_alt)
    then have "u64_nat a < u64_nat b" using l by (simp add: u64_nat_def)
    then show ?thesis using 3 by (auto simp: util_u64_data_cmp_def)
  qed
qed

lemma u64_cmp_less: "util_u64_data_cmp a b < 0 \<longleftrightarrow> u64_nat a < u64_nat b"
  by (auto simp: u64_cmp_nat)

section \<open>As numbers of nanoseconds\<close>

abbreviation GIGA :: nat where "GIGA \<equiv> 1000000000"

definition time_nat :: "u64_time \<Rightarrow> nat" where
  "time_nat t = unat (secs t) * GIGA + unat (nsec t)"

definition time_ok :: "u64_time \<Rightarrow> bool" where
  "time_ok t \<longleftrightarrow> nsec t < NSEC_VAL_FOR_1SEC"

lemma time_ok_nat: "time_ok t \<longleftrightarrow> unat (nsec t) < GIGA"
  by (simp add: time_ok_def word_less_nat_alt)

lemma nsec_add_nat:
  assumes "unat m < GIGA" "unat n < GIGA"
  shows "unat (nsec (util_u32_nsec_add m n)) < GIGA"
    "unat (secs (util_u32_nsec_add m n)) * GIGA + unat (nsec (util_u32_nsec_add m n)) = unat m + unat n"
    "unat (secs (util_u32_nsec_add m n)) \<le> 1"
proof -
  have s: "unat (m + n) = unat m + unat n" using assms by (simp add: unat_word_ariths)
  have d: "unat (m + n - NSEC_VAL_FOR_1SEC) = unat m + unat n - GIGA" if "NSEC_VAL_FOR_1SEC \<le> m + n"
    using unat_sub[OF that] s by simp
  have c: "NSEC_VAL_FOR_1SEC \<le> m + n \<longleftrightarrow> GIGA \<le> unat m + unat n" using s by (simp add: word_le_nat_alt)
  show "unat (nsec (util_u32_nsec_add m n)) < GIGA"
    "unat (secs (util_u32_nsec_add m n)) * GIGA + unat (nsec (util_u32_nsec_add m n)) = unat m + unat n"
    "unat (secs (util_u32_nsec_add m n)) \<le> 1"
    using assms s d c by (auto simp: util_u32_nsec_add_def)
qed

lemma time_add_nat:
  assumes "time_ok a" "time_ok b"
  shows "time_ok (util_u64_time_add a b) \<and> time_nat (util_u64_time_add a b) = (time_nat a + time_nat b) mod (2 ^ 32 * GIGA)"
proof -
  let ?r = "util_u32_nsec_add (nsec a) (nsec b)"
  note n = nsec_add_nat[OF assms[unfolded time_ok_nat]]
  have e: "util_u64_time_add a b = ?r\<lparr>secs := secs ?r + (secs a + secs b)\<rparr>" by (simp add: util_u64_time_add_def Let_def)
  have s: "unat (secs ?r + (secs a + secs b)) = (unat (secs ?r) + unat (secs a) + unat (secs b)) mod 2 ^ 32"
    by (simp add: unat_word_ariths mod_simps add.assoc)
  have m: "x mod 2 ^ 32 * GIGA + y = (x * GIGA + y) mod (2 ^ 32 * GIGA)" if "y < GIGA" for x y
    using mod_mult2_eq[of "x * GIGA + y" GIGA "2 ^ 32"] that by (simp add: algebra_simps)
  have "time_nat (util_u64_time_add a b) = ((unat (secs ?r) + unat (secs a) + unat (secs b)) * GIGA + unat (nsec ?r)) mod (2 ^ 32 * GIGA)"
    using m[OF n(1)] by (simp add: e time_nat_def s)
  also have "(unat (secs ?r) + unat (secs a) + unat (secs b)) * GIGA + unat (nsec ?r) = time_nat a + time_nat b"
    using n(2) by (simp add: time_nat_def algebra_simps)
  finally show ?thesis using n(1) by (simp add: e time_ok_nat)
qed

lemma time_sub_nat:
  assumes "time_ok a" "time_ok b" "time_nat b \<le> time_nat a"
  shows "time_ok (util_u64_time_sub a b) \<and> time_nat (util_u64_time_sub a b) = time_nat a - time_nat b"
proof -
  have n: "unat (nsec a) < GIGA" "unat (nsec b) < GIGA" using assms(1,2) by (simp_all add: time_ok_nat)
  have sb: "unat (secs a) < 2 ^ 32" by (rule u32_lt)
  show ?thesis
  proof (cases "nsec a < nsec b")
    case True
    then have l: "unat (nsec a) < unat (nsec b)" by (simp add: word_less_nat_alt)
    have s: "unat (secs b) < unat (secs a)" using assms(3) l n unfolding time_nat_def by simp
    then have b1: "unat (secs b + 1) = unat (secs b) + 1" using sb by (simp add: unat_word_ariths)
    then have g: "\<not> secs a < secs b + 1" using s by (simp add: word_less_nat_alt)
    have le: "secs b + 1 \<le> secs a" using g by simp
    have "(0xFFFFFFFF :: u32) = - 1" by simp
    then have "0xFFFFFFFF + (secs a - secs b) = secs a - (secs b + 1)" by (simp only:) (simp add: algebra_simps)
    then have us: "unat (0xFFFFFFFF + (secs a - secs b)) = unat (secs a) - unat (secs b) - 1"
      using unat_sub[OF le] b1 by (simp only:)
    have "unat (NSEC_VAL_FOR_1SEC + nsec a) = GIGA + unat (nsec a)" using n by (simp add: unat_word_ariths)
    then have un: "unat (NSEC_VAL_FOR_1SEC + nsec a - nsec b) = GIGA + unat (nsec a) - unat (nsec b)"
      using unat_sub[of "nsec b" "NSEC_VAL_FOR_1SEC + nsec a"] n by (simp add: word_le_nat_alt)
    have e: "util_u64_time_sub a b = \<lparr>secs = 0xFFFFFFFF + (secs a - secs b), nsec = NSEC_VAL_FOR_1SEC + nsec a - nsec b\<rparr>"
      using True g by (simp add: util_u64_time_sub_def util_u32_nsec_sub_def)
    have "(unat (secs a) - unat (secs b) - 1) * GIGA + (GIGA + unat (nsec a) - unat (nsec b)) = time_nat a - time_nat b"
      using s l n unfolding time_nat_def by (simp add: algebra_simps diff_mult_distrib)
    then show ?thesis unfolding e time_ok_nat time_nat_def[of "\<lparr>secs = _, nsec = _\<rparr>"] using us un l n by simp
  next
    case False
    then have l: "unat (nsec b) \<le> unat (nsec a)" "nsec b \<le> nsec a" by (simp_all add: word_less_nat_alt word_le_nat_alt)
    have s: "unat (secs b) \<le> unat (secs a)" using assms(3) n unfolding time_nat_def by linarith
    then have le: "secs b \<le> secs a" by (simp add: word_le_nat_alt)
    have e: "util_u64_time_sub a b = \<lparr>secs = secs a - secs b, nsec = nsec a - nsec b\<rparr>"
      using False leD[OF le] by (simp add: util_u64_time_sub_def util_u32_nsec_sub_def Let_def)
    have "(unat (secs a) - unat (secs b)) * GIGA + (unat (nsec a) - unat (nsec b)) = time_nat a - time_nat b"
      using s l unfolding time_nat_def by (simp add: diff_mult_distrib) 
    then show ?thesis unfolding e time_ok_nat time_nat_def[of "\<lparr>secs = _, nsec = _\<rparr>"]
      using unat_sub[OF le] unat_sub[OF l(2)] n by simp
  qed
qed

end
