(* ===== verification/CcTimer.thy ===== *)
theory CcTimer
  imports Chain Util64
begin

text \<open>
  The software timers of \<open>middleware/framework/timer/cc_timer.c\<close>: a pool of \<open>MAX_SW_TIMER\<close>
  timers, a free list, and for each of the two hardware timers a list of the active
  software timers in the order of their expiry, multiplexed on the hardware timer.
  The hardware timer drivers, the interrupt mask and the user's call-backs are parameters:
  a table of operations on a world \<open>'w\<close>, and a function on the state of the module.
\<close>

section \<open>Hardware timers\<close>

datatype cc_hw_timer_mode = HW_TIMER_NOT_USED | HW_TIMER_ONE_SHOT | HW_TIMER_PERIODIC | HW_TIMER_MONOTONE

record 'w hw_timer_ops =
  op_start32 :: "(ptr \<Rightarrow> u32 \<Rightarrow> cc_hw_timer_mode \<Rightarrow> 'w \<Rightarrow> i32 \<times> 'w) option"
  op_start64 :: "(ptr \<Rightarrow> u64_val \<Rightarrow> cc_hw_timer_mode \<Rightarrow> 'w \<Rightarrow> i32 \<times> 'w) option"
  op_update_exp32 :: "(ptr \<Rightarrow> u32 \<Rightarrow> 'w \<Rightarrow> i32 \<times> 'w) option"
  op_update_exp64 :: "(ptr \<Rightarrow> u64_val \<Rightarrow> 'w \<Rightarrow> i32 \<times> 'w) option"
  op_stop :: "(ptr \<Rightarrow> 'w \<Rightarrow> i32 \<times> 'w) option"
  op_is_running :: "(ptr \<Rightarrow> 'w \<Rightarrow> bool \<times> 'w) option"
  op_get_remaining32 :: "(ptr \<Rightarrow> 'w \<Rightarrow> i32 \<times> u32 \<times> 'w) option"
  op_get_remaining64 :: "(ptr \<Rightarrow> 'w \<Rightarrow> i32 \<times> u64_val \<times> 'w) option"
  op_get_current32 :: "(ptr \<Rightarrow> 'w \<Rightarrow> i32 \<times> u32 \<times> 'w) option"
  op_get_current64 :: "(ptr \<Rightarrow> 'w \<Rightarrow> i32 \<times> u64_val \<times> 'w) option"
  op_get_rollovers :: "(ptr \<Rightarrow> 'w \<Rightarrow> u32 \<times> 'w) option"
  op_get_frequency :: "(ptr \<Rightarrow> 'w \<Rightarrow> u32 \<times> 'w) option"
  op_register_cb :: "(ptr \<Rightarrow> nat \<Rightarrow> 'w \<Rightarrow> i32 \<times> 'w) option"

record 'w hwt_info =
  hi_ops :: "'w hw_timer_ops option"
  hi_hndl :: ptr
  hi_used_list :: ptr
  hi_64bits :: bool
  hi_source :: u32

record sw_timer =
  st_flags :: u32
  st_hwt_expires :: u64_val
  st_sw_interval :: u64_val
  st_timeout_cb :: ptr
  st_cb_param :: nat
  st_hwt_obj :: ptr
  st_next :: ptr

text \<open>
  The static data of the module; \<open>tm_swt\<close> and \<open>tm_hwt\<close> are the arrays \<open>sw_timers\<close> and
  \<open>hwt_objs\<close>, partial because an index may be outside.
\<close>

record 'w timers =
  tm_swt :: "nat \<Rightarrow> sw_timer option"
  tm_free :: ptr
  tm_hwt :: "nat \<Rightarrow> 'w hwt_info option"
  tm_enbl_irqc :: "(u32 \<Rightarrow> 'w \<Rightarrow> 'w) option"
  tm_dsbl_irqc :: "('w \<Rightarrow> u32 \<times> 'w) option"
  tm_world :: 'w

definition MAX_HWT_PLUG :: nat where "MAX_HWT_PLUG = 2"
definition MAX_SW_TIMER :: nat where "MAX_SW_TIMER = 6"

abbreviation HW_REALTIME_CLK :: u32 where "HW_REALTIME_CLK \<equiv> 1"
abbreviation HW_MONOTONE_CTR :: u32 where "HW_MONOTONE_CTR \<equiv> 0"

definition swt_put :: "nat \<Rightarrow> sw_timer \<Rightarrow> 'w timers \<Rightarrow> 'w timers" where
  "swt_put i x s = s\<lparr>tm_swt := (tm_swt s)(i \<mapsto> x)\<rparr>"

definition used_put :: "nat \<Rightarrow> ptr \<Rightarrow> 'w timers \<Rightarrow> 'w timers option" where
  "used_put h p s = do {
     hw \<leftarrow> tm_hwt s h;
     Some (s\<lparr>tm_hwt := (tm_hwt s)(h \<mapsto> hw\<lparr>hi_used_list := p\<rparr>)\<rparr>) }"

definition get_hwt :: "u32 \<Rightarrow> ptr" where
  "get_hwt source = (if source = HW_REALTIME_CLK \<or> source = HW_MONOTONE_CTR then Some (unat source) else None)"

text \<open>A call through the table of operations: the operation, the handle and the world.\<close>

definition hwt_call :: "nat \<Rightarrow> ('w hw_timer_ops \<Rightarrow> (ptr \<Rightarrow> 'b) option) \<Rightarrow> 'w timers \<Rightarrow> 'b option" where
  "hwt_call h sel s = do {
     hw \<leftarrow> tm_hwt s h;
     ops \<leftarrow> hi_ops hw;
     f \<leftarrow> sel ops;
     Some (f (hi_hndl hw)) }"

definition hwt_is_64bits :: "nat \<Rightarrow> 'w timers \<Rightarrow> bool option" where
  "hwt_is_64bits h s = map_option hi_64bits (tm_hwt s h)"

definition hwt_has_abs_time :: "nat \<Rightarrow> 'w timers \<Rightarrow> bool option" where
  "hwt_has_abs_time h s = map_option (\<lambda>hw. hi_source hw = HW_REALTIME_CLK) (tm_hwt s h)"

definition hwt_start :: "nat \<Rightarrow> u64_val \<Rightarrow> 'w timers \<Rightarrow> (i32 \<times> 'w timers) option" where
  "hwt_start h expires s = do {
     is64 \<leftarrow> hwt_is_64bits h s;
     (rv, w) \<leftarrow> (if is64 then do { f \<leftarrow> hwt_call h op_start64 s; Some (f expires HW_TIMER_MONOTONE (tm_world s)) }
                else do { f \<leftarrow> hwt_call h op_start32 s; Some (f (lo_32 expires) HW_TIMER_MONOTONE (tm_world s)) });
     Some (rv, s\<lparr>tm_world := w\<rparr>) }"

definition hwt_update :: "nat \<Rightarrow> u64_val \<Rightarrow> 'w timers \<Rightarrow> (i32 \<times> 'w timers) option" where
  "hwt_update h expires s = do {
     is64 \<leftarrow> hwt_is_64bits h s;
     (rv, w) \<leftarrow> (if is64 then do { f \<leftarrow> hwt_call h op_update_exp64 s; Some (f expires (tm_world s)) }
                else do { f \<leftarrow> hwt_call h op_update_exp32 s; Some (f (lo_32 expires) (tm_world s)) });
     Some (rv, s\<lparr>tm_world := w\<rparr>) }"

definition hwt_stop :: "nat \<Rightarrow> 'w timers \<Rightarrow> (i32 \<times> 'w timers) option" where
  "hwt_stop h s = do {
     f \<leftarrow> hwt_call h op_stop s;
     let (rv, w) = f (tm_world s);
     Some (rv, s\<lparr>tm_world := w\<rparr>) }"

definition hwt_is_running :: "nat \<Rightarrow> 'w timers \<Rightarrow> (bool \<times> 'w timers) option" where
  "hwt_is_running h s = do {
     f \<leftarrow> hwt_call h op_is_running s;
     let (b, w) = f (tm_world s);
     Some (b, s\<lparr>tm_world := w\<rparr>) }"

definition hwt_get_current :: "nat \<Rightarrow> 'w timers \<Rightarrow> (i32 \<times> u64_val \<times> 'w timers) option" where
  "hwt_get_current h s = do {
     is64 \<leftarrow> hwt_is_64bits h s;
     if is64 then do {
       f \<leftarrow> hwt_call h op_get_current64 s;
       let (rv, v, w) = f (tm_world s);
       Some (rv, v, s\<lparr>tm_world := w\<rparr>) }
     else do {
       f \<leftarrow> hwt_call h op_get_current32 s;
       let (rv, lo, w) = f (tm_world s);
       g \<leftarrow> hwt_call h op_get_rollovers s;
       let (hi, w) = g w;
       Some (rv, \<lparr>hi_32 = hi, lo_32 = lo\<rparr>, s\<lparr>tm_world := w\<rparr>) } }"

definition hwt_get_frequency :: "nat \<Rightarrow> 'w timers \<Rightarrow> (u32 \<times> 'w timers) option" where
  "hwt_get_frequency h s = do {
     f \<leftarrow> hwt_call h op_get_frequency s;
     let (v, w) = f (tm_world s);
     Some (v, s\<lparr>tm_world := w\<rparr>) }"

section \<open>Flags\<close>

abbreviation SW_TIMER_PERIODIC :: u32 where "SW_TIMER_PERIODIC \<equiv> 0x1"
abbreviation SW_TIMER_HW_SCHED :: u32 where "SW_TIMER_HW_SCHED \<equiv> 0x2"
abbreviation SW_TIMER_ALLOCATE :: u32 where "SW_TIMER_ALLOCATE \<equiv> 0x4"
abbreviation SW_TIMER_ACTIVATE :: u32 where "SW_TIMER_ACTIVATE \<equiv> 0x8"

definition set_tflag :: "u32 \<Rightarrow> bool \<Rightarrow> sw_timer \<Rightarrow> sw_timer" where
  "set_tflag f b x = x\<lparr>st_flags := (if b then st_flags x OR f else st_flags x AND NOT f)\<rparr>"

definition is_periodic :: "sw_timer \<Rightarrow> bool" where "is_periodic x \<longleftrightarrow> st_flags x AND SW_TIMER_PERIODIC \<noteq> 0"
definition is_scheduled :: "sw_timer \<Rightarrow> bool" where "is_scheduled x \<longleftrightarrow> st_flags x AND SW_TIMER_HW_SCHED \<noteq> 0"
definition set_periodic :: "bool \<Rightarrow> sw_timer \<Rightarrow> sw_timer" where "set_periodic = set_tflag SW_TIMER_PERIODIC"
definition set_activate :: "bool \<Rightarrow> sw_timer \<Rightarrow> sw_timer" where "set_activate = set_tflag SW_TIMER_ACTIVATE"
definition set_scheduled :: "bool \<Rightarrow> sw_timer \<Rightarrow> sw_timer" where "set_scheduled = set_tflag SW_TIMER_HW_SCHED"
definition set_alloc_status :: "bool \<Rightarrow> sw_timer \<Rightarrow> sw_timer" where
  "set_alloc_status alloc x = x\<lparr>st_flags := (if alloc then SW_TIMER_ALLOCATE else 0)\<rparr>"
definition is_alloc_only :: "sw_timer \<Rightarrow> bool" where "is_alloc_only x \<longleftrightarrow> st_flags x = SW_TIMER_ALLOCATE"
definition has_started :: "sw_timer \<Rightarrow> bool" where "has_started x \<longleftrightarrow> \<not> is_alloc_only x"

definition swt_upd :: "(sw_timer \<Rightarrow> sw_timer) \<Rightarrow> nat \<Rightarrow> 'w timers \<Rightarrow> 'w timers option" where
  "swt_upd f i s = do { x \<leftarrow> tm_swt s i; Some (swt_put i (f x) s) }"

section \<open>Intervals and expiry values\<close>

definition cmp_u64 :: "u64_val \<Rightarrow> u64_val \<Rightarrow> i32" where "cmp_u64 = util_u64_data_cmp"

definition calc_ticks_interval_u32 :: "64 word \<Rightarrow> u64_val \<Rightarrow> i32 \<times> u64_val" where
  "calc_ticks_interval_u32 addendum sw_interval =
     (let tmp64 = addendum + ucast (lo_32 sw_interval) in
      if 0xFFFFFFFF < tmp64 then (- 1, sw_interval)
      else (0, \<lparr>hi_32 = 0, lo_32 = ucast (tmp64 AND 0xFFFFFFFF)\<rparr>))"

definition calc_ticks_interval_u64 :: "64 word \<Rightarrow> u64_val \<Rightarrow> i32 \<times> u64_val" where
  "calc_ticks_interval_u64 addendum sw_interval =
     (let tmp64 = addendum + ucast (lo_32 sw_interval) in
      (0, \<lparr>hi_32 = ucast (drop_bit 32 tmp64 AND 0xFFFFFFFF), lo_32 = ucast (tmp64 AND 0xFFFFFFFF)\<rparr>))"

definition calc_ticks_interval :: "nat \<Rightarrow> u64_time \<Rightarrow> u64_val \<Rightarrow> 'w timers \<Rightarrow> (i32 \<times> u64_val \<times> 'w timers) option" where
  "calc_ticks_interval h time_u64 sw_interval s = do {
     (hwt_freq, s) \<leftarrow> hwt_get_frequency h s;
     if NSEC_VAL_FOR_1SEC - 1 < nsec time_u64 then Some (- 1, sw_interval, s)
     else do {
       let tmp64 = (ucast (nsec time_u64) * ucast hwt_freq :: 64 word);
       let iv = sw_interval\<lparr>lo_32 := ucast (tmp64 div ucast NSEC_VAL_FOR_1SEC)\<rparr>;
       let addendum = (ucast (secs time_u64) * ucast hwt_freq :: 64 word);
       is64 \<leftarrow> hwt_is_64bits h s;
       let (rv, iv) = (if is64 then calc_ticks_interval_u64 addendum iv else calc_ticks_interval_u32 addendum iv);
       Some (rv, iv, s) } }"

definition calc_hwt_expiry_secs :: "u64_val \<Rightarrow> u64_val \<Rightarrow> u64_val" where
  "calc_hwt_expiry_secs hwt_current sw_interval =
     (let t = util_u32_nsec_add (lo_32 hwt_current) (lo_32 sw_interval) in
      \<lparr>hi_32 = secs t + (hi_32 hwt_current + hi_32 sw_interval), lo_32 = nsec t\<rparr>)"

definition calc_hwt_expiry_tick :: "u64_val \<Rightarrow> u64_val \<Rightarrow> u64_val" where
  "calc_hwt_expiry_tick hwt_current sw_interval = util_u64_data_add hwt_current sw_interval"

definition calc_hwt_expiry :: "bool \<Rightarrow> u64_val \<Rightarrow> u64_val \<Rightarrow> u64_val" where
  "calc_hwt_expiry abs_time hwt_current sw_interval =
     (if abs_time then calc_hwt_expiry_secs hwt_current sw_interval
      else calc_hwt_expiry_tick hwt_current sw_interval)"

section \<open>The lists of active timers\<close>

partial_function (option) insert_loop :: "nat \<Rightarrow> nat \<Rightarrow> ptr \<Rightarrow> ptr \<Rightarrow> 'w timers \<Rightarrow> 'w timers option" where
  "insert_loop elem h node prev s =
     (case node of
        None \<Rightarrow> do { p \<leftarrow> prev; swt_upd (st_next_update (\<lambda>_. Some elem)) p s }
      | Some n \<Rightarrow> do {
          ee \<leftarrow> tm_swt s elem;
          ne \<leftarrow> tm_swt s n;
          if cmp_u64 (st_hwt_expires ee) (st_hwt_expires ne) < 0 then do {
            s \<leftarrow> swt_upd (st_next_update (\<lambda>_. Some n)) elem s;
            (case prev of
               None \<Rightarrow> do { s \<leftarrow> used_put h (Some elem) s; swt_upd (set_scheduled False) n s }
             | Some p \<Rightarrow> swt_upd (st_next_update (\<lambda>_. Some elem)) p s) }
          else insert_loop elem h (st_next ne) (Some n) s })"

definition insert_ordered_expiry :: "nat \<Rightarrow> nat \<Rightarrow> 'w timers \<Rightarrow> 'w timers option" where
  "insert_ordered_expiry elem h s = do {
     hw \<leftarrow> tm_hwt s h;
     s \<leftarrow> swt_upd (st_next_update (\<lambda>_. None)) elem s;
     if hi_used_list hw = None then used_put h (Some elem) s
     else insert_loop elem h (hi_used_list hw) None s }"

definition sched_timer_if_new :: "nat \<Rightarrow> 'w timers \<Rightarrow> (i32 \<times> 'w timers) option" where
  "sched_timer_if_new head s = do {
     x \<leftarrow> tm_swt s head;
     h \<leftarrow> st_hwt_obj x;
     if is_scheduled x then Some (0, s)
     else do {
       (run, s) \<leftarrow> hwt_is_running h s;
       (rv, s) \<leftarrow> (if run then hwt_update h (st_hwt_expires x) s else hwt_start h (st_hwt_expires x) s);
       s \<leftarrow> (if rv = 0 then swt_upd (set_scheduled True) head s else Some s);
       Some (rv, s) } }"

definition read_current :: "nat \<Rightarrow> 'w timers \<Rightarrow> (i32 \<times> u64_val \<times> 'w timers) option" where
  "read_current h s = do {
     (run, s) \<leftarrow> hwt_is_running h s;
     has_abs \<leftarrow> hwt_has_abs_time h s;
     if run \<or> has_abs then hwt_get_current h s else Some (0, \<lparr>hi_32 = 0, lo_32 = 0\<rparr>, s) }"

definition setup_timer_exec :: "nat \<Rightarrow> u64_val option \<Rightarrow> bool \<Rightarrow> 'w timers \<Rightarrow> (i32 \<times> 'w timers) option" where
  "setup_timer_exec swt hwt_current has_expval s = do {
     x \<leftarrow> tm_swt s swt;
     h \<leftarrow> st_hwt_obj x;
     (rv, cur, s) \<leftarrow> (case hwt_current of Some c \<Rightarrow> Some (0, c, s) | None \<Rightarrow> read_current h s);
     if rv = - 1 then Some (- 1, s)
     else do {
       has_abs \<leftarrow> hwt_has_abs_time h s;
       s \<leftarrow> (if \<not> has_expval then swt_upd (\<lambda>x. x\<lparr>st_hwt_expires := calc_hwt_expiry has_abs cur (st_sw_interval x)\<rparr>) swt s
            else Some s);
       s \<leftarrow> insert_ordered_expiry swt h s;
       hw \<leftarrow> tm_hwt s h;
       head \<leftarrow> hi_used_list hw;
       (_, s) \<leftarrow> sched_timer_if_new head s;
       s \<leftarrow> swt_upd (set_activate True) swt s;
       Some (0, s) } }"

section \<open>Starting\<close>

abbreviation OPT_TIMER_PERIODIC :: u32 where "OPT_TIMER_PERIODIC \<equiv> 0x01"
abbreviation OPT_TIME_ABS_VALUE :: u32 where "OPT_TIME_ABS_VALUE \<equiv> 0x02"

definition estbl_timer_interval :: "nat \<Rightarrow> u64_time \<Rightarrow> 'w timers \<Rightarrow> (i32 \<times> 'w timers) option" where
  "estbl_timer_interval swt time_u64 s = do {
     x \<leftarrow> tm_swt s swt;
     h \<leftarrow> st_hwt_obj x;
     has_abs \<leftarrow> hwt_has_abs_time h s;
     if has_abs
     then Some (0, swt_put swt (x\<lparr>st_sw_interval := \<lparr>hi_32 = secs time_u64, lo_32 = nsec time_u64\<rparr>\<rparr>) s)
     else do {
       (rv, iv, s) \<leftarrow> calc_ticks_interval h time_u64 (st_sw_interval x) s;
       Some (rv, swt_put swt (x\<lparr>st_sw_interval := iv\<rparr>) s) } }"

definition timer_start :: "nat \<Rightarrow> u64_time \<Rightarrow> u32 \<Rightarrow> 'w timers \<Rightarrow> (i32 \<times> 'w timers) option" where
  "timer_start swt time_u64 options s = do {
     x \<leftarrow> tm_swt s swt;
     if \<not> is_alloc_only x then Some (- 1, s)
     else do {
       let has_expval = (options AND OPT_TIME_ABS_VALUE \<noteq> 0);
       (rv, s) \<leftarrow> (if has_expval
                  then Some (0, swt_put swt (x\<lparr>st_hwt_expires := \<lparr>hi_32 = secs time_u64, lo_32 = nsec time_u64\<rparr>\<rparr>) s)
                  else estbl_timer_interval swt time_u64 s);
       if rv = - 1 then Some (- 1, s)
       else do {
         s \<leftarrow> swt_upd (set_periodic (options AND OPT_TIMER_PERIODIC \<noteq> 0)) swt s;
         setup_timer_exec swt None has_expval s } } }"

definition has_valid_opts :: "ptr \<Rightarrow> u32 \<Rightarrow> 'w timers \<Rightarrow> bool option" where
  "has_valid_opts hwt options s =
     (if OPT_TIMER_PERIODIC AND options \<noteq> 0 \<and> OPT_TIME_ABS_VALUE AND options \<noteq> 0 then Some False
      else if options AND OPT_TIME_ABS_VALUE \<noteq> 0 then do { h \<leftarrow> hwt; hwt_has_abs_time h s }
      else Some True)"

definition dsbl_irqc :: "'w timers \<Rightarrow> (u32 \<times> 'w timers) option" where
  "dsbl_irqc s = do { f \<leftarrow> tm_dsbl_irqc s; let (m, w) = f (tm_world s); Some (m, s\<lparr>tm_world := w\<rparr>) }"

definition enbl_irqc :: "u32 \<Rightarrow> 'w timers \<Rightarrow> 'w timers option" where
  "enbl_irqc m s = do { f \<leftarrow> tm_enbl_irqc s; Some (s\<lparr>tm_world := f m (tm_world s)\<rparr>) }"

definition cc_timer_start :: "ptr \<Rightarrow> u64_time \<Rightarrow> u32 \<Rightarrow> 'w timers \<Rightarrow> (i32 \<times> 'w timers) option" where
  "cc_timer_start hndl time_u64 options s =
     (case hndl of
        None \<Rightarrow> Some (- 1, s)
      | Some swt \<Rightarrow> do {
          x \<leftarrow> tm_swt s swt;
          ok \<leftarrow> has_valid_opts (st_hwt_obj x) options s;
          if \<not> ok then Some (- 1, s)
          else do {
            h \<leftarrow> st_hwt_obj x;
            lrt \<leftarrow> hwt_has_abs_time h s;
            let time64_ref = (if lrt then time_u64\<lparr>nsec := nsec time_u64 div 1000000 * 1000000\<rparr> else time_u64);
            (intr_mask, s) \<leftarrow> dsbl_irqc s;
            (rv, s) \<leftarrow> timer_start swt time64_ref options s;
            s \<leftarrow> enbl_irqc intr_mask s;
            Some (rv, s) } })"

section \<open>Stopping\<close>

partial_function (option) remove_loop :: "nat \<Rightarrow> nat \<Rightarrow> ptr \<Rightarrow> ptr \<Rightarrow> 'w timers \<Rightarrow> (i32 \<times> 'w timers) option" where
  "remove_loop elem h node prev s =
     (case node of
        None \<Rightarrow> Some (- 1, s)
      | Some n \<Rightarrow> do {
          ne \<leftarrow> tm_swt s n;
          if elem = n then do {
            s \<leftarrow> (case prev of None \<Rightarrow> used_put h (st_next ne) s
                  | Some p \<Rightarrow> swt_upd (st_next_update (\<lambda>_. st_next ne)) p s);
            s \<leftarrow> swt_upd (st_next_update (\<lambda>_. None)) elem s;
            Some (0, s) }
          else remove_loop elem h (st_next ne) (Some n) s })"

definition remove_elem :: "nat \<Rightarrow> nat \<Rightarrow> 'w timers \<Rightarrow> (i32 \<times> 'w timers) option" where
  "remove_elem elem h s = do { hw \<leftarrow> tm_hwt s h; remove_loop elem h (hi_used_list hw) None s }"

definition timer_stop :: "nat \<Rightarrow> 'w timers \<Rightarrow> (i32 \<times> 'w timers) option" where
  "timer_stop swt s = do {
     x \<leftarrow> tm_swt s swt;
     h \<leftarrow> st_hwt_obj x;
     (rv, s) \<leftarrow> remove_elem swt h s;
     if rv \<noteq> 0 then Some (- 1, s)
     else do {
       s \<leftarrow> swt_upd (\<lambda>x. set_activate False (set_periodic False (set_scheduled False x))) swt s;
       hw \<leftarrow> tm_hwt s h;
       (_, s) \<leftarrow> (case hi_used_list hw of Some head \<Rightarrow> sched_timer_if_new head s | None \<Rightarrow> hwt_stop h s);
       Some (0, s) } }"

definition cc_timer_stop :: "ptr \<Rightarrow> 'w timers \<Rightarrow> (i32 \<times> 'w timers) option" where
  "cc_timer_stop hndl s = do {
     (intr_mask, s) \<leftarrow> dsbl_irqc s;
     (rv, s) \<leftarrow> (case hndl of
                  None \<Rightarrow> Some (- 1, s)
                | Some swt \<Rightarrow> do { x \<leftarrow> tm_swt s swt; if has_started x then timer_stop swt s else Some (- 1, s) });
     s \<leftarrow> enbl_irqc intr_mask s;
     Some (rv, s) }"

section \<open>The interrupt service routine\<close>

type_synonym 'w callback = "nat \<Rightarrow> nat \<Rightarrow> 'w timers \<Rightarrow> 'w timers option"

text \<open>The second half of \<open>handle_expired_swt\<close>, after the call-back.\<close>

definition rearm_swt :: "nat \<Rightarrow> 'w timers \<Rightarrow> 'w timers option" where
  "rearm_swt swt s = do {
     x \<leftarrow> tm_swt s swt;
     if is_periodic x then do {
       (intr_mask, s) \<leftarrow> dsbl_irqc s;
       (_, s) \<leftarrow> setup_timer_exec swt (Some (st_hwt_expires x)) False s;
       enbl_irqc intr_mask s }
     else swt_upd (set_activate False) swt s }"

definition handle_expired_swt :: "'w callback \<Rightarrow> nat \<Rightarrow> 'w timers \<Rightarrow> 'w timers option" where
  "handle_expired_swt cb swt s = do {
     s \<leftarrow> swt_upd (set_scheduled False) swt s;
     x \<leftarrow> tm_swt s swt;
     s \<leftarrow> (case st_timeout_cb x of None \<Rightarrow> Some s | Some f \<Rightarrow> cb f (st_cb_param x) s);
     rearm_swt swt s }"

partial_function (option) isolate_loop :: "nat \<Rightarrow> u64_val \<Rightarrow> ptr \<Rightarrow> ptr \<Rightarrow> 'w timers \<Rightarrow> (ptr \<times> 'w timers) option" where
  "isolate_loop h hwt_current head tail s = do {
     hw \<leftarrow> tm_hwt s h;
     case hi_used_list hw of
       None \<Rightarrow> Some (head, s)
     | Some elem \<Rightarrow> do {
         x \<leftarrow> tm_swt s elem;
         if cmp_u64 hwt_current (st_hwt_expires x) < 0 then do {
           (_, s) \<leftarrow> sched_timer_if_new elem s;
           Some (head, s) }
         else do {
           (_, s) \<leftarrow> remove_elem elem h s;
           s \<leftarrow> (case tail of None \<Rightarrow> Some s | Some t \<Rightarrow> swt_upd (st_next_update (\<lambda>_. Some elem)) t s);
           isolate_loop h hwt_current (if head = None then Some elem else head) (Some elem) s } } }"

definition isolate_expired_swt_list :: "nat \<Rightarrow> 'w timers \<Rightarrow> (ptr \<times> 'w timers) option" where
  "isolate_expired_swt_list h s = do {
     (rv, cur, s) \<leftarrow> hwt_get_current h s;
     if rv \<noteq> 0 then Some (None, s) else isolate_loop h cur None None s }"

partial_function (option) expired_loop :: "'w callback \<Rightarrow> ptr \<Rightarrow> 'w timers \<Rightarrow> 'w timers option" where
  "expired_loop cb swt_list s =
     (case swt_list of
        None \<Rightarrow> Some s
      | Some swt \<Rightarrow> do {
          x \<leftarrow> tm_swt s swt;
          s \<leftarrow> handle_expired_swt cb swt s;
          expired_loop cb (st_next x) s })"

definition timer_isr :: "'w callback \<Rightarrow> ptr \<Rightarrow> 'w timers \<Rightarrow> 'w timers option" where
  "timer_isr cb cb_param s =
     (case cb_param of
        None \<Rightarrow> Some s
      | Some h \<Rightarrow> do {
          (intr_mask, s) \<leftarrow> dsbl_irqc s;
          (swt_list, s) \<leftarrow> isolate_expired_swt_list h s;
          s \<leftarrow> enbl_irqc intr_mask s;
          s \<leftarrow> expired_loop cb swt_list s;
          (intr_mask, s) \<leftarrow> dsbl_irqc s;
          hw \<leftarrow> tm_hwt s h;
          s \<leftarrow> (if hi_used_list hw = None then do { (_, s) \<leftarrow> hwt_stop h s; Some s } else Some s);
          enbl_irqc intr_mask s })"

section \<open>Creation, deletion, initialisation\<close>

record cc_timer_cfg =
  cfg_source :: u32
  cfg_timeout_cb :: ptr
  cfg_cb_param :: nat

definition cc_timer_create :: "cc_timer_cfg \<Rightarrow> 'w timers \<Rightarrow> (ptr \<times> 'w timers) option" where
  "cc_timer_create cfg s =
     (case get_hwt (cfg_source cfg) of
        None \<Rightarrow> Some (None, s)
      | Some h \<Rightarrow> do {
          hw \<leftarrow> tm_hwt s h;
          if hi_ops hw = None then Some (None, s)
          else do {
            (intr_mask, s) \<leftarrow> dsbl_irqc s;
            let swt = tm_free s;
            s \<leftarrow> (case swt of
                   None \<Rightarrow> Some s
                 | Some i \<Rightarrow> do {
                     x \<leftarrow> tm_swt s i;
                     Some (swt_put i ((set_alloc_status True (x\<lparr>st_next := None\<rparr>))
                       \<lparr>st_hwt_obj := Some h, st_timeout_cb := cfg_timeout_cb cfg, st_cb_param := cfg_cb_param cfg\<rparr>)
                       (s\<lparr>tm_free := st_next x\<rparr>)) });
            s \<leftarrow> enbl_irqc intr_mask s;
            Some (swt, s) } })"

definition cc_timer_delete :: "ptr \<Rightarrow> 'w timers \<Rightarrow> (i32 \<times> 'w timers) option" where
  "cc_timer_delete hndl s = do {
     (intr_mask, s) \<leftarrow> dsbl_irqc s;
     (rv, s) \<leftarrow> (case hndl of
                  None \<Rightarrow> Some (- 1, s)
                | Some i \<Rightarrow> do {
                    x \<leftarrow> tm_swt s i;
                    if \<not> is_alloc_only x then Some (- 1, s)
                    else Some (0, (swt_put i ((set_alloc_status False x)\<lparr>st_hwt_obj := None, st_next := tm_free s\<rparr>) s)\<lparr>tm_free := Some i\<rparr>) });
     s \<leftarrow> enbl_irqc intr_mask s;
     Some (rv, s) }"

definition zero_timer :: sw_timer where
  "zero_timer = \<lparr>st_flags = 0, st_hwt_expires = \<lparr>hi_32 = 0, lo_32 = 0\<rparr>, st_sw_interval = \<lparr>hi_32 = 0, lo_32 = 0\<rparr>,
     st_timeout_cb = None, st_cb_param = 0, st_hwt_obj = None, st_next = None\<rparr>"

fun push_timers :: "nat list \<Rightarrow> 'w timers \<Rightarrow> 'w timers option" where
  "push_timers [] s = Some s"
| "push_timers (i # is) s = do {
     s \<leftarrow> swt_upd (st_next_update (\<lambda>_. tm_free s)) i s;
     push_timers is (s\<lparr>tm_free := Some i\<rparr>) }"

definition sw_timers_init :: "'w timers \<Rightarrow> (i32 \<times> 'w timers) option" where
  "sw_timers_init s = do {
     s \<leftarrow> push_timers [0..<MAX_SW_TIMER] (s\<lparr>tm_swt := (\<lambda>i. if i < MAX_SW_TIMER then Some zero_timer else None)\<rparr>);
     Some (0, s) }"

definition hw_timers_init :: "'w timers \<Rightarrow> i32 \<times> 'w timers" where
  "hw_timers_init s =
     (let max_val = of_nat MAX_HWT_PLUG - 1 in
      if max_val < HW_REALTIME_CLK \<or> max_val < HW_MONOTONE_CTR then (- 1, s)
      else (0, s\<lparr>tm_hwt := (\<lambda>i. if i < MAX_HWT_PLUG
                 then Some \<lparr>hi_ops = None, hi_hndl = None, hi_used_list = None, hi_64bits = False, hi_source = of_nat i\<rparr>
                 else None)\<rparr>))"

record 'w cc_timer_setup =
  su_enbl_irqc :: "(u32 \<Rightarrow> 'w \<Rightarrow> 'w) option"
  su_dsbl_irqc :: "('w \<Rightarrow> u32 \<times> 'w) option"

definition cc_timer_module_init :: "'w cc_timer_setup \<Rightarrow> 'w timers \<Rightarrow> (i32 \<times> 'w timers) option" where
  "cc_timer_module_init timer_setup s =
     (if su_enbl_irqc timer_setup = None \<or> su_dsbl_irqc timer_setup = None then Some (- 1, s)
      else do {
        (a, s) \<leftarrow> sw_timers_init (s\<lparr>tm_enbl_irqc := su_enbl_irqc timer_setup, tm_dsbl_irqc := su_dsbl_irqc timer_setup\<rparr>);
        if a \<noteq> 0 then Some (1, s)
        else (let (b, s) = hw_timers_init s in Some (if b \<noteq> 0 then 1 else 0, s)) })"

text \<open>
  The macro \<open>HAS_HWT_OPS\<close> expands to a conditional expression without parentheses; the
  operators around its uses bind more tightly than its \<open>?:\<close>, so that the first check
  reads \<open>!(all32 ? true : false ^ op64)\<close>.
\<close>

definition has_ops32 :: "'w hw_timer_ops \<Rightarrow> bool" where
  "has_ops32 f \<longleftrightarrow> op_start32 f \<noteq> None \<and> op_update_exp32 f \<noteq> None \<and> op_get_remaining32 f \<noteq> None \<and> op_get_current32 f \<noteq> None"

definition has_ops64 :: "'w hw_timer_ops \<Rightarrow> bool" where
  "has_ops64 f \<longleftrightarrow> op_start64 f \<noteq> None \<and> op_update_exp64 f \<noteq> None \<and> op_get_remaining64 f \<noteq> None \<and> op_get_current64 f \<noteq> None"

definition has_ops_common :: "'w hw_timer_ops \<Rightarrow> bool" where
  "has_ops_common f \<longleftrightarrow> op_stop f \<noteq> None \<and> op_is_running f \<noteq> None \<and> op_get_rollovers f \<noteq> None \<and> op_get_frequency f \<noteq> None"

definition cc_timer_register_hwt_ops :: "u32 \<Rightarrow> ptr \<Rightarrow> 'w hw_timer_ops \<Rightarrow> 'w timers \<Rightarrow> (i32 \<times> 'w timers) option" where
  "cc_timer_register_hwt_ops source hwt_hndl hwt_ops s =
     (case get_hwt source of
        None \<Rightarrow> Some (- 1, s)
      | Some h \<Rightarrow> do {
          hw \<leftarrow> tm_hwt s h;
          case hwt_hndl of
            None \<Rightarrow> Some (- 1, s)
          | Some _ \<Rightarrow>
              if hi_ops hw \<noteq> None then Some (- 1, s)
              else (let op64 = has_ops64 hwt_ops in
                if \<not> (if has_ops32 hwt_ops then True else False \<noteq> op64) then Some (- 1, s)
                else if (if \<not> has_ops_common hwt_ops then True else False \<or> op_register_cb hwt_ops = None) then Some (- 1, s)
                else do {
                  f \<leftarrow> op_register_cb hwt_ops;
                  let (rv, w) = f hwt_hndl h (tm_world s);
                  let s = s\<lparr>tm_world := w\<rparr>;
                  if rv = - 1 then Some (- 1, s)
                  else Some (0, s\<lparr>tm_hwt := (tm_hwt s)(h \<mapsto> hw\<lparr>hi_ops := Some hwt_ops, hi_hndl := hwt_hndl, hi_64bits := op64\<rparr>)\<rparr>) }) })"

end
