(* ===== verification/TimerList.thy ===== *)
theory TimerList
  imports CcTimer
begin

text \<open>
  The list operations of \<open>cc_timer.c\<close>: insertion in the order of expiry, removal, and the
  scheduling of the first timer, as operations on lists of timers. A state is looked at
  through its links, flags, expiry values and list heads; \<open>same_data\<close> says that nothing else
  has changed.
\<close>

section \<open>Views of the state\<close>

definition tnext :: "'w timers \<Rightarrow> links" where
  "tnext s i = map_option st_next (tm_swt s i)"

definition fl :: "'w timers \<Rightarrow> nat \<Rightarrow> u32" where
  "fl s i = (case tm_swt s i of None \<Rightarrow> 0 | Some x \<Rightarrow> st_flags x)"

definition tm_exp :: "'w timers \<Rightarrow> nat \<Rightarrow> nat" where
  "tm_exp s i = (case tm_swt s i of None \<Rightarrow> 0 | Some x \<Rightarrow> u64_nat (st_hwt_expires x))"

definition tm_obj :: "'w timers \<Rightarrow> nat \<Rightarrow> ptr" where
  "tm_obj s i = (case tm_swt s i of None \<Rightarrow> None | Some x \<Rightarrow> st_hwt_obj x)"

definition used_ptr :: "'w timers \<Rightarrow> nat \<Rightarrow> ptr" where
  "used_ptr s h = (case tm_hwt s h of None \<Rightarrow> None | Some hw \<Rightarrow> hi_used_list hw)"

abbreviation swt_data :: "sw_timer \<Rightarrow> sw_timer" where
  "swt_data x \<equiv> x\<lparr>st_flags := 0, st_next := None\<rparr>"

abbreviation hwt_data :: "'w hwt_info \<Rightarrow> 'w hwt_info" where
  "hwt_data hw \<equiv> hw\<lparr>hi_used_list := None\<rparr>"

definition same_data :: "'w timers \<Rightarrow> 'w timers \<Rightarrow> bool" where
  "same_data s s' \<longleftrightarrow> (\<forall>i. map_option swt_data (tm_swt s' i) = map_option swt_data (tm_swt s i)) \<and>
     (\<forall>h. map_option hwt_data (tm_hwt s' h) = map_option hwt_data (tm_hwt s h)) \<and>
     tm_enbl_irqc s' = tm_enbl_irqc s \<and> tm_dsbl_irqc s' = tm_dsbl_irqc s"

lemma same_data_refl [simp]: "same_data s s" by (simp add: same_data_def)

lemma same_data_trans: "same_data s t \<Longrightarrow> same_data t u \<Longrightarrow> same_data s u" by (simp add: same_data_def)

lemma same_data_swt: "same_data s s' \<Longrightarrow> tm_swt s i = Some x \<Longrightarrow> \<exists>y. tm_swt s' i = Some y \<and> swt_data y = swt_data x"
  unfolding same_data_def by (metis (no_types, lifting) map_option_eq_Some)

lemma same_data_hwt: "same_data s s' \<Longrightarrow> tm_hwt s h = Some x \<Longrightarrow> \<exists>y. tm_hwt s' h = Some y \<and> hwt_data y = hwt_data x"
  unfolding same_data_def by (metis (no_types, lifting) map_option_eq_Some)

lemma same_data_views:
  assumes "same_data s s'"
  shows "tm_exp s' = tm_exp s" "tm_obj s' = tm_obj s" "tm_swt s' i = None \<longleftrightarrow> tm_swt s i = None" "tm_hwt s' h = None \<longleftrightarrow> tm_hwt s h = None"
proof -
  have d: "map_option swt_data (tm_swt s' i) = map_option swt_data (tm_swt s i)" for i using assms by (simp add: same_data_def)
  have e: "tm_swt s' i = None \<longleftrightarrow> tm_swt s i = None" for i using arg_cong[OF d[of i], of "\<lambda>p. p = None"] by simp
  then show "tm_swt s' i = None \<longleftrightarrow> tm_swt s i = None" .
  have x: "tm_exp s' i = tm_exp s i \<and> tm_obj s' i = tm_obj s i" for i
  proof (cases "tm_swt s i")
    case None
    then show "tm_exp s' i = tm_exp s i \<and> tm_obj s' i = tm_obj s i" using e[of i] by (simp_all add: tm_exp_def tm_obj_def)
  next
    case (Some a)
    then obtain b where b: "tm_swt s' i = Some b" "swt_data b = swt_data a" using same_data_swt[OF assms] by blast
    show "tm_exp s' i = tm_exp s i \<and> tm_obj s' i = tm_obj s i"
      using b(1) Some arg_cong[OF b(2), of st_hwt_expires] arg_cong[OF b(2), of st_hwt_obj] by (simp_all add: tm_exp_def tm_obj_def)
  qed
  then show "tm_exp s' = tm_exp s" "tm_obj s' = tm_obj s" by auto
  show "tm_hwt s' h = None \<longleftrightarrow> tm_hwt s h = None"
    using assms unfolding same_data_def by (metis (no_types, lifting) option.map_disc_iff)
qed

lemma put_views [simp]:
  "tnext (swt_put i x s) = (tnext s)(i \<mapsto> st_next x)" "fl (swt_put i x s) = (fl s)(i := st_flags x)"
  "used_ptr (swt_put i x s) = used_ptr s" "tm_free (swt_put i x s) = tm_free s" "tm_hwt (swt_put i x s) = tm_hwt s"
  "tm_swt (swt_put i x s) = (tm_swt s)(i \<mapsto> x)" "tm_world (swt_put i x s) = tm_world s"
  "tm_obj (swt_put i x s) = (tm_obj s)(i := st_hwt_obj x)" "tm_exp (swt_put i x s) = (tm_exp s)(i := u64_nat (st_hwt_expires x))"
  by (auto simp: tnext_def fl_def swt_put_def used_ptr_def fun_eq_iff tm_obj_def tm_exp_def)

lemma put_same:
  "tm_swt s i = Some y \<Longrightarrow> st_next x = st_next y \<Longrightarrow> tnext (swt_put i x s) = tnext s"
  "tm_swt s i = Some y \<Longrightarrow> st_flags x = st_flags y \<Longrightarrow> fl (swt_put i x s) = fl s"
  "tm_swt s i = Some y \<Longrightarrow> st_hwt_obj x = st_hwt_obj y \<Longrightarrow> tm_obj (swt_put i x s) = tm_obj s"
  "tm_swt s i = Some y \<Longrightarrow> st_hwt_expires x = st_hwt_expires y \<Longrightarrow> tm_exp (swt_put i x s) = tm_exp s"
  by (auto simp: tnext_def fl_def tm_obj_def tm_exp_def fun_eq_iff)

lemma put_data: "tm_swt s i = Some y \<Longrightarrow> swt_data x = swt_data y \<Longrightarrow> same_data s (swt_put i x s)"
  by (simp add: same_data_def swt_put_def)

lemma world_views [simp]:
  "tnext (s\<lparr>tm_world := w\<rparr>) = tnext s" "fl (s\<lparr>tm_world := w\<rparr>) = fl s" "used_ptr (s\<lparr>tm_world := w\<rparr>) = used_ptr s"
  "tm_obj (s\<lparr>tm_world := w\<rparr>) = tm_obj s" "tm_exp (s\<lparr>tm_world := w\<rparr>) = tm_exp s" "same_data s (s\<lparr>tm_world := w\<rparr>)"
  "same_data t (s\<lparr>tm_world := w\<rparr>) = same_data t s"
  by (auto simp: tnext_def fl_def used_ptr_def fun_eq_iff same_data_def tm_obj_def tm_exp_def)

lemma free_views [simp]:
  "tnext (s\<lparr>tm_free := p\<rparr>) = tnext s" "fl (s\<lparr>tm_free := p\<rparr>) = fl s" "used_ptr (s\<lparr>tm_free := p\<rparr>) = used_ptr s"
  "tm_obj (s\<lparr>tm_free := p\<rparr>) = tm_obj s" "tm_exp (s\<lparr>tm_free := p\<rparr>) = tm_exp s"
  by (auto simp: tnext_def fl_def used_ptr_def fun_eq_iff tm_obj_def tm_exp_def)

lemma upd_Some: "tm_swt s i = Some x \<Longrightarrow> swt_upd f i s = Some (swt_put i (f x) s)"
  by (simp add: swt_upd_def)

lemma used_put_views:
  assumes "tm_hwt s h \<noteq> None"
  shows "\<exists>s'. used_put h p s = Some s' \<and> same_data s s' \<and> tnext s' = tnext s \<and> fl s' = fl s \<and> tm_free s' = tm_free s \<and>
     used_ptr s' = (used_ptr s)(h := p) \<and> tm_world s' = tm_world s \<and> tm_swt s' = tm_swt s"
  using assms by (auto simp: used_put_def same_data_def tnext_def fl_def used_ptr_def fun_eq_iff)

lemma tchain_alloc: "seg (tnext s) p xs q \<Longrightarrow> i \<in> set xs \<Longrightarrow> \<exists>x. tm_swt s i = Some x"
  using seg_alloc[of "tnext s" p xs q i] by (auto simp: tnext_def)

lemma tnext_Some: "tnext s i = Some r \<longleftrightarrow> (\<exists>x. tm_swt s i = Some x \<and> st_next x = r)" by (auto simp: tnext_def)

lemma cmp_exp:
  assumes "tm_swt s i = Some x" "tm_swt s j = Some y"
  shows "cmp_u64 (st_hwt_expires x) (st_hwt_expires y) < 0 \<longleftrightarrow> tm_exp s i < tm_exp s j"
  using assms by (simp add: cmp_u64_def u64_cmp_less tm_exp_def)

section \<open>Flags\<close>

lemma bit_set_flag: "k < 32 \<Longrightarrow> bit (st_flags (set_tflag (2 ^ k) b x)) n \<longleftrightarrow> (if n = k then b else bit (st_flags x) n)"
  by (auto simp: set_tflag_def bit_or_iff bit_and_iff bit_not_iff bit_exp_iff possible_bit_def dest: bit_imp_le_length)

lemma flag_set [simp]:
  "bit (st_flags (set_periodic b x)) n \<longleftrightarrow> (if n = 0 then b else bit (st_flags x) n)"
  "bit (st_flags (set_scheduled b x)) n \<longleftrightarrow> (if n = 1 then b else bit (st_flags x) n)"
  "bit (st_flags (set_activate b x)) n \<longleftrightarrow> (if n = 3 then b else bit (st_flags x) n)"
  using bit_set_flag[of 0 b x n] bit_set_flag[of 1 b x n] bit_set_flag[of 3 b x n]
  by (simp_all add: set_periodic_def set_scheduled_def set_activate_def)

lemma flag_get:
  "is_periodic x \<longleftrightarrow> bit (st_flags x) 0" "is_scheduled x \<longleftrightarrow> bit (st_flags x) 1"
  "is_alloc_only x \<longleftrightarrow> (\<forall>n. bit (st_flags x) n \<longleftrightarrow> n = 2)"
proof -
  show "is_periodic x \<longleftrightarrow> bit (st_flags x) 0" "is_scheduled x \<longleftrightarrow> bit (st_flags x) 1"
    using and_exp_eq_0_iff_not_bit[of "st_flags x" 0] and_exp_eq_0_iff_not_bit[of "st_flags x" 1]
    by (simp_all add: is_periodic_def is_scheduled_def)
  have "(4 :: u32) = 2 ^ 2" by simp
  then have "bit (4 :: u32) n \<longleftrightarrow> n = 2" for n by (simp only: bit_exp_iff) (auto simp: possible_bit_def)
  then have "st_flags x = 4 \<longleftrightarrow> (\<forall>n. bit (st_flags x) n \<longleftrightarrow> n = 2)" using bit_word_eqI[of "st_flags x" 4] by metis
  then show "is_alloc_only x \<longleftrightarrow> (\<forall>n. bit (st_flags x) n \<longleftrightarrow> n = 2)" unfolding is_alloc_only_def .
qed

lemma flag_data [simp]:
  "swt_data (set_periodic b x) = swt_data x" "swt_data (set_scheduled b x) = swt_data x" "swt_data (set_activate b x) = swt_data x"
  "st_next (set_periodic b x) = st_next x" "st_next (set_scheduled b x) = st_next x" "st_next (set_activate b x) = st_next x"
  "st_hwt_expires (set_scheduled b x) = st_hwt_expires x" "st_hwt_obj (set_scheduled b x) = st_hwt_obj x"
  by (simp_all add: set_periodic_def set_scheduled_def set_activate_def set_tflag_def)

section \<open>Insertion\<close>

text \<open>Only the list of the hardware timer \<open>h\<close> and links of the timers \<open>A\<close> have changed.\<close>

definition list_frame :: "nat \<Rightarrow> nat set \<Rightarrow> 'w timers \<Rightarrow> 'w timers \<Rightarrow> bool" where
  "list_frame h A s s' \<longleftrightarrow> same_data s s' \<and> (\<forall>y. y \<notin> A \<longrightarrow> tnext s' y = tnext s y) \<and>
     (\<forall>k. k \<noteq> h \<longrightarrow> used_ptr s' k = used_ptr s k) \<and> tm_free s' = tm_free s \<and> tm_world s' = tm_world s"

definition list_insert where
  "list_insert s s' h x pre post \<longleftrightarrow> list_frame h (insert x (set (pre @ post))) s s' \<and>
     chain (tnext s') (used_ptr s' h) (pre @ tmo_ins (tm_exp s) x post) \<and>
     (\<forall>i n. bit (fl s' i) n \<longleftrightarrow> bit (fl s i) n \<and> \<not> (n = 1 \<and> pre = [] \<and> post \<noteq> [] \<and> i = hd post \<and> tm_exp s x < tm_exp s i))"

text \<open>The three places where the loop stops: at the end of the list, at its head, between two entries.\<close>

lemma insert_at_end:
  assumes "chain (tnext s) (used_ptr s h) (xs @ [t])" "x \<notin> set (xs @ [t])" "tm_swt s x = Some ee" "st_next ee = None"
  shows "\<exists>s'. insert_loop x h None (Some t) s = Some s' \<and> list_insert s s' h x (xs @ [t]) []"
proof -
  obtain te where te: "tm_swt s t = Some te" using tchain_alloc[OF assms(1), of t] by auto
  let ?s = "swt_put t (te\<lparr>st_next := Some x\<rparr>) s"
  have run: "insert_loop x h None (Some t) s = Some ?s" using upd_Some[OF te] by (simp add: insert_loop.simps)
  have "chain ((tnext s)(x \<mapsto> None, t \<mapsto> Some x)) (used_ptr s h) (xs @ [t, x])"
    by (rule chain_snoc) (use assms(1,2) in auto)
  moreover have "(tnext s)(x \<mapsto> None) = tnext s" using assms(3,4) by (auto simp: tnext_def)
  ultimately have "chain (tnext ?s) (used_ptr ?s h) ((xs @ [t]) @ [x])" by (simp del: seg_append)
  moreover have "list_frame h (insert x (set ((xs @ [t]) @ []))) s ?s"
    using put_data[OF te, of "te\<lparr>st_next := Some x\<rparr>"] by (auto simp: list_frame_def)
  moreover have "fl ?s = fl s" using te by (auto simp: fl_def fun_eq_iff)
  ultimately show ?thesis using run by (intro exI[of _ ?s]) (simp add: list_insert_def tmo_ins_def del: put_views)
qed

lemma insert_at_head:
  assumes "chain (tnext s) (used_ptr s h) (c # post)" "x \<notin> set (c # post)" "tm_swt s x = Some ee" "tm_hwt s h \<noteq> None"
    "tm_exp s x < tm_exp s c"
  shows "\<exists>s'. insert_loop x h (Some c) None s = Some s' \<and> list_insert s s' h x [] (c # post)"
proof -
  obtain ce where c: "tm_swt s c = Some ce" using tchain_alloc[OF assms(1), of c] by auto
  have xc: "x \<noteq> c" using assms(2) by auto
  let ?s1 = "swt_put x (ee\<lparr>st_next := Some c\<rparr>) s"
  have d1: "same_data s ?s1" by (rule put_data[OF assms(3)]) simp
  have f1: "fl ?s1 = fl s" using assms(3) by (auto simp: fl_def fun_eq_iff)
  obtain s2 where s2: "used_put h (Some x) ?s1 = Some s2" "same_data ?s1 s2" "tnext s2 = tnext ?s1" "fl s2 = fl ?s1" "tm_free s2 = tm_free ?s1"
      "used_ptr s2 = (used_ptr ?s1)(h := Some x)" "tm_world s2 = tm_world ?s1" "tm_swt s2 = tm_swt ?s1"
    using used_put_views[of ?s1 h "Some x"] assms(4) by auto
  have c2: "tm_swt s2 c = Some ce" using s2(8) c xc by simp
  let ?s = "swt_put c (set_scheduled False ce) s2"
  have run: "insert_loop x h (Some c) None s = Some ?s"
    using c assms(3,5) cmp_exp[OF assms(3) c] s2(1) upd_Some[OF c2] upd_Some[OF assms(3)] by (subst insert_loop.simps) simp
  have tn: "tnext ?s = (tnext s)(x \<mapsto> Some c)" using c s2(3) xc by (auto simp: tnext_def fun_eq_iff)
  have "chain (tnext s) (Some c) (c # post)" using assms(1) by auto
  then have "chain ((tnext s)(x \<mapsto> Some c)) (Some c) (c # post)" using assms(2) by (subst seg_upd)
  then have "chain (tnext ?s) (used_ptr ?s h) (x # c # post)" unfolding tn using s2(6) by (simp del: fun_upd_apply) simp
  moreover have "same_data s ?s" using same_data_trans[OF d1 s2(2)] put_data[OF c2, of "set_scheduled False ce"] same_data_trans by fastforce
  then have "list_frame h (insert x (set ([] @ c # post))) s ?s" unfolding list_frame_def tn using s2(5-7) by simp
  moreover have "bit (fl ?s i) n \<longleftrightarrow> bit (fl s i) n \<and> \<not> (n = 1 \<and> i = c)" for i n using s2(4) f1 c by (auto simp: fl_def)
  moreover have "tmo_ins (tm_exp s) x (c # post) = x # c # post" using assms(5) by (simp add: tmo_ins_Cons)
  ultimately have "list_insert s ?s h x [] (c # post)" using assms(5) unfolding list_insert_def by auto
  then show ?thesis using run by blast
qed

lemma insert_between:
  assumes "chain (tnext s) (used_ptr s h) (xs @ t # c # post)" "x \<notin> set (xs @ t # c # post)" "tm_swt s x = Some ee"
    "tm_exp s x < tm_exp s c"
  shows "\<exists>s'. insert_loop x h (Some c) (Some t) s = Some s' \<and> list_insert s s' h x (xs @ [t]) (c # post)"
proof -
  obtain ce where c: "tm_swt s c = Some ce" using tchain_alloc[OF assms(1), of c] by auto
  obtain te where te: "tm_swt s t = Some te" using tchain_alloc[OF assms(1), of t] by auto
  have ne: "x \<noteq> t" using assms(2) by auto
  let ?s1 = "swt_put x (ee\<lparr>st_next := Some c\<rparr>) s"
  have d1: "same_data s ?s1" by (rule put_data[OF assms(3)]) simp
  have f1: "fl ?s1 = fl s" using assms(3) by (auto simp: fl_def fun_eq_iff)
  have te1: "tm_swt ?s1 t = Some te" using te ne by simp
  let ?s = "swt_put t (te\<lparr>st_next := Some x\<rparr>) ?s1"
  have run: "insert_loop x h (Some c) (Some t) s = Some ?s"
    using c assms(3,4) cmp_exp[OF assms(3) c] upd_Some[OF assms(3)] upd_Some[OF te1] by (subst insert_loop.simps) simp
  have nt: "tnext s t = Some (Some c)" using assms(1) by auto
  have "chain ((tnext s)(t \<mapsto> Some x, x \<mapsto> Some c)) (used_ptr s h) (xs @ t # x # c # post)"
    by (rule chain_insert_mid[OF assms(1) _ nt]) (use assms(2) in auto)
  moreover have "tnext ?s = (tnext s)(t \<mapsto> Some x, x \<mapsto> Some c)" using ne by (auto simp: fun_eq_iff)
  ultimately have "chain (tnext ?s) (used_ptr ?s h) ((xs @ [t]) @ x # c # post)" by (simp del: seg_append)
  moreover have "same_data s ?s" using d1 put_data[OF te1, of "te\<lparr>st_next := Some x\<rparr>"] same_data_trans by fastforce
  then have "list_frame h (insert x (set ((xs @ [t]) @ c # post))) s ?s" by (auto simp: list_frame_def)
  moreover have "fl ?s = fl s" using te f1 ne by (auto simp: fl_def fun_eq_iff)
  moreover have "tmo_ins (tm_exp s) x (c # post) = x # c # post" using assms(4) by (simp add: tmo_ins_Cons)
  ultimately have "list_insert s ?s h x (xs @ [t]) (c # post)" unfolding list_insert_def by (simp del: put_views seg_append)
  then show ?thesis using run by blast
qed

lemma insert_loop_spec:
  assumes "chain (tnext s) (used_ptr s h) (pre @ post)" "seg (tnext s) p post None" "x \<notin> set (pre @ post)"
    "tm_swt s x = Some ee" "st_next ee = None" "tm_hwt s h \<noteq> None" "pre @ post \<noteq> []"
    "prev = (if pre = [] then None else Some (last pre))"
  shows "\<exists>s'. insert_loop x h p prev s = Some s' \<and> list_insert s s' h x pre post"
  using assms
proof (induction post arbitrary: pre p prev)
  case Nil
  then obtain xs t where "pre = xs @ [t]" by (metis append_Nil2 rev_exhaust)
  then show ?case using Nil.prems insert_at_end[of s h xs t x ee] by simp
next
  case (Cons c post)
  then obtain ce where c: "p = Some c" "tm_swt s c = Some ce" "seg (tnext s) (st_next ce) post None"
    by (auto simp: tnext_Some)
  show ?case
  proof (cases "tm_exp s x < tm_exp s c")
    case False
    have e: "(pre @ [c]) @ ys = pre @ c # ys" for ys by simp
    have step: "insert_loop x h p prev s = insert_loop x h (st_next ce) (Some c) s"
      using c Cons.prems(4) False cmp_exp[OF Cons.prems(4) c(2)] by (subst insert_loop.simps) simp
    have "list_insert s s' h x (pre @ [c]) post \<Longrightarrow> list_insert s s' h x pre (c # post)" for s'
      using False by (simp add: list_insert_def tmo_ins_Cons del: seg_append)
    moreover have "\<exists>s'. insert_loop x h (st_next ce) (Some c) s = Some s' \<and> list_insert s s' h x (pre @ [c]) post"
      using Cons.IH[of "pre @ [c]" "st_next ce" "Some c"] Cons.prems c(3) unfolding e by (simp del: seg_append)
    ultimately show ?thesis unfolding step by blast
  next
    case True
    show ?thesis
    proof (cases pre rule: rev_cases)
      case Nil
      then show ?thesis using insert_at_head[of s h c post x ee] Cons.prems c(1) True by (simp del: seg_append)
    next
      case (snoc xs t)
      then show ?thesis using insert_between[of s h xs t c post x ee] Cons.prems c(1) True by (simp del: seg_append)
    qed
  qed
qed

lemmas insert_loop_placed = insert_loop_spec[unfolded list_insert_def]

lemma insert_spec:
  assumes "chain (tnext s) (used_ptr s h) us" "x \<notin> set us" "tm_swt s x = Some ee" "tm_hwt s h = Some hw"
  shows "\<exists>s'. insert_ordered_expiry x h s = Some s' \<and> list_frame h (insert x (set us)) s s' \<and>
     chain (tnext s') (used_ptr s' h) (tmo_ins (tm_exp s) x us) \<and>
     (\<forall>i n. bit (fl s' i) n \<longleftrightarrow> bit (fl s i) n \<and> \<not> (n = 1 \<and> us \<noteq> [] \<and> i = hd us \<and> tm_exp s x < tm_exp s i))"
proof -
  let ?s1 = "swt_put x (ee\<lparr>st_next := None\<rparr>) s"
  have d1: "same_data s ?s1" by (rule put_data[OF assms(3)]) simp
  have f1: "fl ?s1 = fl s" using assms(3) by (auto simp: fl_def fun_eq_iff)
  have e1: "tm_exp ?s1 = tm_exp s" using same_data_views(1)[OF d1] .
  have u: "hi_used_list hw = used_ptr s h" using assms(4) by (simp add: used_ptr_def)
  have c1: "chain (tnext ?s1) (used_ptr ?s1 h) us" using assms(1,2) by simp
  show ?thesis
  proof (cases "us = []")
    case True
    then have n: "used_ptr s h = None" using assms(1) by simp
    obtain s2 where s2: "used_put h (Some x) ?s1 = Some s2" "same_data ?s1 s2" "tnext s2 = tnext ?s1" "fl s2 = fl ?s1" "tm_free s2 = tm_free ?s1"
        "used_ptr s2 = (used_ptr ?s1)(h := Some x)" "tm_world s2 = tm_world ?s1"
      using used_put_views[of ?s1 h "Some x"] assms(4) by auto
    have "insert_ordered_expiry x h s = Some s2"
      using assms(3,4) u n s2(1) upd_Some[OF assms(3)] by (simp add: insert_ordered_expiry_def)
    moreover have "list_frame h (insert x (set us)) s s2" using s2(3-7) same_data_trans[OF d1 s2(2)] by (simp add: list_frame_def)
    moreover have "chain (tnext s2) (used_ptr s2 h) (tmo_ins (tm_exp s) x us)" using s2(3,6) True by (simp add: tmo_ins_def)
    ultimately show ?thesis using True s2(4) f1 by auto
  next
    case False
    then have n: "used_ptr s h \<noteq> None" using seg_nempty[OF assms(1)] by simp
    obtain s' where s': "insert_loop x h (used_ptr s h) None ?s1 = Some s'" "list_frame h (insert x (set us)) ?s1 s'"
      "chain (tnext s') (used_ptr s' h) (tmo_ins (tm_exp ?s1) x us)"
      "\<forall>i n. bit (fl s' i) n \<longleftrightarrow> bit (fl ?s1 i) n \<and> \<not> (n = 1 \<and> us \<noteq> [] \<and> i = hd us \<and> tm_exp ?s1 x < tm_exp ?s1 i)"
      using insert_loop_placed[of ?s1 h "[]" us "used_ptr s h" x "ee\<lparr>st_next := None\<rparr>" None] c1 assms(2,4) False by auto
    have "insert_ordered_expiry x h s = Some s'"
      using assms(4) u n s'(1) upd_Some[OF assms(3)] by (auto simp: insert_ordered_expiry_def)
    moreover have "list_frame h (insert x (set us)) s s'"
      using s'(2) same_data_trans[OF d1] by (auto simp: list_frame_def)
    ultimately show ?thesis using s'(3,4) unfolding e1 f1 by blast
  qed
qed

section \<open>Removal\<close>

lemma remove_loop_spec:
  assumes "chain (tnext s) (used_ptr s h) (pre @ post)" "seg (tnext s) p post None" "x \<notin> set pre"
    "prev = (if pre = [] then None else Some (last pre))" "tm_hwt s h \<noteq> None"
  shows "\<exists>s'. remove_loop x h p prev s = Some (if x \<in> set post then 0 else - 1, s') \<and> list_frame h (set (pre @ post)) s s' \<and> fl s' = fl s \<and>
     chain (tnext s') (used_ptr s' h) (pre @ remove1 x post) \<and> (x \<notin> set post \<longrightarrow> s' = s) \<and> (x \<in> set post \<longrightarrow> tnext s' x = Some None)"
  using assms
proof (induction post arbitrary: pre p prev)
  case Nil
  then show ?case by (simp add: remove_loop.simps list_frame_def)
next
  case (Cons c post)
  then obtain ce where c: "p = Some c" "tm_swt s c = Some ce" "seg (tnext s) (st_next ce) post None"
    by (auto simp: tnext_Some)
  show ?case
  proof (cases "c = x")
    case False
    have e: "(pre @ [c]) @ ys = pre @ c # ys" for ys by simp
    have step: "remove_loop x h p prev s = remove_loop x h (st_next ce) (Some c) s"
      using c False by (subst remove_loop.simps) simp
    show ?thesis using Cons.IH[of "pre @ [c]" "st_next ce" "Some c"] Cons.prems c False
      unfolding step e by (simp del: seg_append)
  next
    case True
    have dist: "distinct (pre @ c # post)" using Cons.prems(1) by (rule chain_distinct)
    show ?thesis
    proof (cases pre rule: rev_cases)
      case Nil
      obtain s1 where s1: "used_put h (st_next ce) s = Some s1" "same_data s s1" "tnext s1 = tnext s" "fl s1 = fl s" "tm_free s1 = tm_free s"
          "used_ptr s1 = (used_ptr s)(h := st_next ce)" "tm_world s1 = tm_world s" "tm_swt s1 = tm_swt s"
        using used_put_views[of s h "st_next ce"] Cons.prems(5) by auto
      have c1: "tm_swt s1 c = Some ce" using s1(8) c(2) by simp
      let ?s = "swt_put c (ce\<lparr>st_next := None\<rparr>) s1"
      have run: "remove_loop x h p prev s = Some (0, ?s)"
        using c True Cons.prems(4) Nil s1(1) upd_Some[OF c1] by (subst remove_loop.simps) simp
      have "same_data s ?s" using s1(2) put_data[OF c1, of "ce\<lparr>st_next := None\<rparr>"] same_data_trans by fastforce
      then have "list_frame h (set (pre @ c # post)) s ?s" using s1(3,5-7) by (simp add: list_frame_def)
      moreover have "chain (tnext ?s) (used_ptr ?s h) post" using c True dist Nil s1(3,6) by simp
      moreover have "fl ?s = fl s" using s1(4) c(2) by (auto simp: fl_def fun_eq_iff)
      ultimately show ?thesis using run True Nil by (intro exI[of _ ?s]) (simp del: put_views fun_upd_apply, simp)
    next
      case (snoc xs t)
      obtain te where te: "tm_swt s t = Some te" using tchain_alloc[OF Cons.prems(1), of t] snoc by auto
      have ne: "x \<noteq> t" using Cons.prems(3) snoc by auto
      let ?s1 = "swt_put t (te\<lparr>st_next := st_next ce\<rparr>) s"
      have c1: "tm_swt ?s1 x = Some ce" using c True ne by simp
      let ?s = "swt_put x (ce\<lparr>st_next := None\<rparr>) ?s1"
      have pv: "prev = Some t" using Cons.prems(4) snoc by simp
      have run: "remove_loop x h p prev s = Some (0, ?s)"
        using c True pv upd_Some[OF te] upd_Some[OF c1] by (subst remove_loop.simps) simp
      have "chain ((tnext s)(t \<mapsto> st_next ce)) (used_ptr s h) (xs @ t # post)"
      proof (rule chain_remove_mid)
        show "chain (tnext s) (used_ptr s h) (xs @ t # c # post)" using Cons.prems(1) snoc by simp
        show "tnext s c = Some (st_next ce)" using c by (simp add: tnext_def)
      qed
      moreover have "x \<notin> set (xs @ t # post)" using dist True snoc by auto
      ultimately have "chain (tnext ?s) (used_ptr ?s h) (pre @ remove1 x (c # post))" using snoc True by (simp del: seg_append)
      moreover have "same_data s ?s"
        using put_data[OF te, of "te\<lparr>st_next := st_next ce\<rparr>"] put_data[OF c1, of "ce\<lparr>st_next := None\<rparr>"] same_data_trans by fastforce
      then have "list_frame h (set (pre @ c # post)) s ?s" using snoc True by (auto simp: list_frame_def)
      moreover have "fl ?s = fl s" using te c True by (auto simp: fl_def fun_eq_iff)
      ultimately show ?thesis using run True snoc by (intro exI[of _ ?s]) (simp del: put_views fun_upd_apply seg_append, simp)
    qed
  qed
qed

lemma remove_spec:
  assumes "chain (tnext s) (used_ptr s h) us" "tm_hwt s h = Some hw"
  shows "\<exists>s'. remove_elem x h s = Some (if x \<in> set us then 0 else - 1, s') \<and> list_frame h (set us) s s' \<and> fl s' = fl s \<and>
     chain (tnext s') (used_ptr s' h) (remove1 x us) \<and> (x \<notin> set us \<longrightarrow> s' = s) \<and> (x \<in> set us \<longrightarrow> tnext s' x = Some None)"
proof -
  have "hi_used_list hw = used_ptr s h" using assms(2) by (simp add: used_ptr_def)
  then show ?thesis using remove_loop_spec[of s h "[]" us "used_ptr s h" x None] assms by (simp add: remove_elem_def)
qed

end
