(* ===== verification/TimerInv.thy ===== *)
theory TimerInv
  imports TimerList
begin

text \<open>
  The invariant of the timer module and its preservation: the free list, the two lists of
  active timers and the chain of expired timers that the interrupt routine works off are
  disjoint, the lists of active timers are sorted by expiry and at most their first timer
  is programmed into the hardware, and the flags of every timer say in which list it is.
\<close>

section \<open>Calls of the hardware timer\<close>

definition hw_ready :: "'w timers \<Rightarrow> nat \<Rightarrow> bool" where
  "hw_ready s h \<longleftrightarrow> (\<exists>hw ops. tm_hwt s h = Some hw \<and> hi_ops hw = Some ops \<and> has_ops_common ops \<and>
     (if hi_64bits hw then has_ops64 ops else has_ops32 ops))"

lemma hw_ready_data:
  assumes "same_data s s'"
  shows "hw_ready s' h = hw_ready s h"
proof (cases "tm_hwt s h")
  case None
  then show ?thesis using same_data_views(4)[OF assms, of h] by (simp add: hw_ready_def)
next
  case (Some x)
  then obtain y where y: "tm_hwt s' h = Some y" "hwt_data y = hwt_data x" using same_data_hwt[OF assms] by blast
  show ?thesis using Some y(1) arg_cong[OF y(2), of hi_ops] arg_cong[OF y(2), of hi_64bits] by (simp add: hw_ready_def)
qed

lemma hw_ready_fun: "same_data s s' \<Longrightarrow> hw_ready s' = hw_ready s"
  by (rule ext) (rule hw_ready_data)

lemmas data_views = same_data_views(1,2) hw_ready_fun

lemma hw_ready_world [simp]: "hw_ready (s\<lparr>tm_world := w\<rparr>) = hw_ready s" "hw_ready (s\<lparr>tm_free := p\<rparr>) = hw_ready s"
  "hw_ready (swt_put i x s) = hw_ready s"
  by (simp_all add: hw_ready_def fun_eq_iff)

lemma hwt_calls:
  assumes "hw_ready s h"
  shows "\<exists>rv w. hwt_start h e s = Some (rv, s\<lparr>tm_world := w\<rparr>)" "\<exists>rv w. hwt_update h e s = Some (rv, s\<lparr>tm_world := w\<rparr>)"
    "\<exists>rv w. hwt_stop h s = Some (rv, s\<lparr>tm_world := w\<rparr>)" "\<exists>b w. hwt_is_running h s = Some (b, s\<lparr>tm_world := w\<rparr>)"
    "\<exists>rv v w. hwt_get_current h s = Some (rv, v, s\<lparr>tm_world := w\<rparr>)" "\<exists>v w. hwt_get_frequency h s = Some (v, s\<lparr>tm_world := w\<rparr>)"
    "\<exists>b. hwt_has_abs_time h s = Some b" "\<exists>b. hwt_is_64bits h s = Some b"
  using assms
  by (auto simp: hw_ready_def has_ops_common_def has_ops32_def has_ops64_def hwt_start_def hwt_update_def hwt_stop_def
      hwt_is_running_def hwt_get_current_def hwt_get_frequency_def hwt_call_def hwt_is_64bits_def hwt_has_abs_time_def
      split: if_splits prod.splits)

lemma sched_spec:
  assumes "tm_swt s x = Some e" "st_hwt_obj e = Some h" "hw_ready s h"
  shows "\<exists>rv s'. sched_timer_if_new x s = Some (rv, s') \<and> same_data s s' \<and> tnext s' = tnext s \<and> used_ptr s' = used_ptr s \<and>
     tm_free s' = tm_free s \<and> (\<forall>i n. i \<noteq> x \<or> n \<noteq> 1 \<longrightarrow> bit (fl s' i) n = bit (fl s i) n) \<and> (rv = 0 \<longrightarrow> bit (fl s' x) 1)"
proof (cases "is_scheduled e")
  case True
  then show ?thesis using assms by (simp add: sched_timer_if_new_def flag_get fl_def)
next
  case False
  obtain b w1 where 1: "hwt_is_running h s = Some (b, s\<lparr>tm_world := w1\<rparr>)" using hwt_calls(4)[OF assms(3)] by blast
  let ?s1 = "s\<lparr>tm_world := w1\<rparr>"
  have r1: "hw_ready ?s1 h" using assms(3) by simp
  obtain rv w2 where 2: "(if b then hwt_update h (st_hwt_expires e) ?s1 else hwt_start h (st_hwt_expires e) ?s1) = Some (rv, s\<lparr>tm_world := w2\<rparr>)"
    using hwt_calls(1,2)[OF r1, of "st_hwt_expires e"] by (cases b) fastforce+
  let ?s2 = "s\<lparr>tm_world := w2\<rparr>"
  have x2: "tm_swt ?s2 x = Some e" using assms(1) by simp
  let ?s3 = "if rv = 0 then swt_put x (set_scheduled True e) ?s2 else ?s2"
  have run: "sched_timer_if_new x s = Some (rv, ?s3)"
    using assms(1,2) False 1 2 upd_Some[OF x2] by (simp add: sched_timer_if_new_def)
  have "same_data s ?s3" using put_data[OF x2, of "set_scheduled True e"] same_data_trans[of s ?s2] by simp
  moreover have "tnext ?s3 = tnext s" using assms(1) by (auto simp: tnext_def fun_eq_iff)
  moreover have "\<forall>i n. i \<noteq> x \<or> n \<noteq> 1 \<longrightarrow> bit (fl ?s3 i) n = bit (fl s i) n" "rv = 0 \<longrightarrow> bit (fl ?s3 x) 1"
    using assms(1) by (auto simp: fl_def)
  ultimately show ?thesis using run by (intro exI[of _ rv] exI[of _ ?s3]) simp
qed

section \<open>The invariant\<close>

definition only_bits :: "u32 \<Rightarrow> bool" where
  "only_bits f \<longleftrightarrow> bit f 2 \<and> (\<forall>n. bit f n \<longrightarrow> n < 4)"

lemma only_bits_cong: "(\<And>n. n \<noteq> 1 \<Longrightarrow> n \<noteq> 3 \<Longrightarrow> bit f n = bit g n) \<Longrightarrow> only_bits f = only_bits g"
proof -
  assume b: "\<And>n. n \<noteq> 1 \<Longrightarrow> n \<noteq> 3 \<Longrightarrow> bit f n = bit g n"
  have "(bit f n \<longrightarrow> n < 4) = (bit g n \<longrightarrow> n < 4)" for n using b[of n] by (cases "n = 1 \<or> n = 3") auto
  moreover have "bit f 2 = bit g 2" using b[of 2] by simp
  ultimately show ?thesis unfolding only_bits_def by simp
qed

text \<open>A timer of the hardware timer \<open>h\<close> that has been started and has not been stopped.\<close>

definition running :: "'w timers \<Rightarrow> nat \<Rightarrow> nat \<Rightarrow> bool" where
  "running s h i \<longleftrightarrow> tm_obj s i = Some h \<and> h < MAX_HWT_PLUG \<and> hw_ready s h \<and> only_bits (fl s i) \<and> bit (fl s i) 3"

text \<open>A timer that is allocated only. The bit \<open>SW_TIMER_PERIODIC\<close> may have been left behind.\<close>

definition idle :: "'w timers \<Rightarrow> nat \<Rightarrow> bool" where
  "idle s i \<longleftrightarrow> (\<exists>h < MAX_HWT_PLUG. tm_obj s i = Some h \<and> hw_ready s h) \<and> only_bits (fl s i) \<and> \<not> bit (fl s i) 1 \<and> \<not> bit (fl s i) 3"

definition module_ok :: "'w timers \<Rightarrow> bool" where
  "module_ok s \<longleftrightarrow> (\<forall>i. tm_swt s i \<noteq> None \<longleftrightarrow> i < MAX_SW_TIMER) \<and> (\<forall>h. tm_hwt s h \<noteq> None \<longleftrightarrow> h < MAX_HWT_PLUG) \<and>
     tm_enbl_irqc s \<noteq> None \<and> tm_dsbl_irqc s \<noteq> None \<and> (\<forall>h hw. tm_hwt s h = Some hw \<and> hi_ops hw \<noteq> None \<longrightarrow> hw_ready s h)"

text \<open>The lists: \<open>fs\<close> free, \<open>us h\<close> active on \<open>h\<close>, \<open>es\<close> expired and linked from \<open>p\<close>, \<open>F\<close> in hand
  (of these the invariant says nothing).\<close>

definition lists_ok :: "'w timers \<Rightarrow> nat list \<Rightarrow> (nat \<Rightarrow> nat list) \<Rightarrow> ptr \<Rightarrow> nat list \<Rightarrow> nat set \<Rightarrow> bool" where
  "lists_ok s fs us p es F \<longleftrightarrow> chain (tnext s) (tm_free s) fs \<and> (\<forall>h < MAX_HWT_PLUG. chain (tnext s) (used_ptr s h) (us h)) \<and>
     chain (tnext s) p es \<and> set fs \<inter> set es = {} \<and> (set fs \<union> set es) \<inter> F = {} \<and>
     (\<forall>h < MAX_HWT_PLUG. set (us h) \<inter> (set fs \<union> set es \<union> F) = {}) \<and>
     (\<forall>h < MAX_HWT_PLUG. \<forall>k < MAX_HWT_PLUG. h \<noteq> k \<longrightarrow> set (us h) \<inter> set (us k) = {})"

definition timers_inv :: "'w timers \<Rightarrow> nat list \<Rightarrow> (nat \<Rightarrow> nat list) \<Rightarrow> ptr \<Rightarrow> nat list \<Rightarrow> nat set \<Rightarrow> bool" where
  "timers_inv s fs us p es F \<longleftrightarrow> module_ok s \<and> lists_ok s fs us p es F \<and>
     (\<forall>h < MAX_HWT_PLUG. sorted (map (tm_exp s) (us h)) \<and> (\<forall>i \<in> set (us h). running s h i) \<and> (\<forall>i \<in> set (tl (us h)). \<not> bit (fl s i) 1)) \<and>
     (\<forall>i \<in> set es. \<exists>h. running s h i) \<and> (\<forall>i \<in> set fs. fl s i = 0) \<and>
     (\<forall>i < MAX_SW_TIMER. i \<notin> set fs \<union> set es \<union> F \<union> (\<Union>h < MAX_HWT_PLUG. set (us h)) \<longrightarrow> idle s i)"

section \<open>Moving a timer between the lists\<close>

lemma lists_ok_move:
  assumes "lists_ok s fs us p es F" "h < MAX_HWT_PLUG" "\<forall>y. y \<notin> A \<longrightarrow> tnext s' y = tnext s y" "A \<subseteq> set (us h) \<union> F"
    "chain (tnext s') (used_ptr s' h) vs" "set vs \<subseteq> set (us h) \<union> F" "F' \<subseteq> F \<union> set (us h)" "F' \<inter> set vs = {}"
    "\<forall>k. k \<noteq> h \<longrightarrow> used_ptr s' k = used_ptr s k" "tm_free s' = tm_free s"
  shows "lists_ok s' fs (us(h := vs)) p es F'"
proof -
  note l = assms(1)[unfolded lists_ok_def]
  have l3: "set fs \<inter> set es = {}" "(set fs \<union> set es) \<inter> F = {}" and l5: "\<And>k. k < MAX_HWT_PLUG \<Longrightarrow> set (us k) \<inter> (set fs \<union> set es \<union> F) = {}"
    and l6: "\<And>k m. k < MAX_HWT_PLUG \<Longrightarrow> m < MAX_HWT_PLUG \<Longrightarrow> k \<noteq> m \<Longrightarrow> set (us k) \<inter> set (us m) = {}" using l by simp_all
  note lh = l5[OF assms(2)]
  have d: "A \<inter> set fs = {}" "A \<inter> set es = {}" using l3 lh assms(4) by auto
  have dk: "A \<inter> set (us k) = {}" if "k < MAX_HWT_PLUG" "k \<noteq> h" for k using l5[OF that(1)] l6[OF that(1) assms(2) that(2)] assms(4) by auto
  have c: "seg (tnext s') q xs None" if "seg (tnext s) q xs None" "A \<inter> set xs = {}" for q xs
    by (rule seg_cong[OF that(1)]) (use that(2) assms(3) in blast)
  have 1: "chain (tnext s') (tm_free s') fs" "chain (tnext s') p es" using l c d assms(10) by auto
  have 2: "\<forall>k < MAX_HWT_PLUG. chain (tnext s') (used_ptr s' k) ((us(h := vs)) k)"
    using l c dk assms(5,9) by auto
  have 3: "(set fs \<union> set es) \<inter> F' = {}" "set vs \<inter> (set fs \<union> set es \<union> F') = {}"
    using l3 lh assms(6-8) by blast+
  have 4: "set (us k) \<inter> (set fs \<union> set es \<union> F') = {}" "set (us k) \<inter> set vs = {}" if "k < MAX_HWT_PLUG" "k \<noteq> h" for k
    using l5[OF that(1)] l6[OF that(1) assms(2) that(2)] assms(6,7) by blast+
  have 5: "\<forall>k < MAX_HWT_PLUG. set ((us(h := vs)) k) \<inter> (set fs \<union> set es \<union> F') = {}" using 3(2) 4(1) by simp
  have 6: "\<forall>k < MAX_HWT_PLUG. \<forall>m < MAX_HWT_PLUG. k \<noteq> m \<longrightarrow> set ((us(h := vs)) k) \<inter> set ((us(h := vs)) m) = {}"
    using l6 4(2) by (simp add: Int_commute)
  show ?thesis unfolding lists_ok_def using 1 2 l3(1) 3(1) 5 6 by simp
qed

text \<open>The invariant depends on the flags, the expiry values of the active timers and the owners only.\<close>

lemma inv_move:
  assumes "timers_inv s fs us p es F" "h < MAX_HWT_PLUG" "module_ok s'" "lists_ok s' fs (us(h := vs)) p es F'"
    "\<forall>y. y \<notin> set vs \<union> F \<union> set (us h) \<longrightarrow> fl s' y = fl s y" "\<forall>y. y \<notin> set vs \<longrightarrow> y \<notin> F \<longrightarrow> tm_exp s' y = tm_exp s y"
    "tm_obj s' = tm_obj s" "hw_ready s' = hw_ready s"
    "sorted (map (tm_exp s') vs)" "\<forall>i \<in> set vs. running s' h i" "\<forall>i \<in> set (tl vs). \<not> bit (fl s' i) 1" "set (us h) \<union> F \<subseteq> set vs \<union> F'"
  shows "timers_inv s' fs (us(h := vs)) p es F'"
proof -
  note i = assms(1)[unfolded timers_inv_def]
  note l = conjunct1[OF conjunct2[OF i], unfolded lists_ok_def] and l' = assms(4)[unfolded lists_ok_def]
  have sv: "set vs \<inter> (set fs \<union> set es \<union> F') = {}" using l' assms(2) by (metis fun_upd_same)
  have same: "fl s' y = fl s y" "tm_exp s' y = tm_exp s y" "\<And>k. running s' k y = running s k y" "idle s' y = idle s y"
    if "y \<notin> set vs \<union> F \<union> set (us h)" for y
    using assms(5-8) that by (auto simp: running_def idle_def)
  have d: "y \<notin> set vs \<union> F \<union> set (us h)" if "y \<in> set fs \<union> set es" for y using that sv l assms(2) by blast
  have dk: "y \<notin> set vs \<union> F \<union> set (us h)" if "k < MAX_HWT_PLUG" "k \<noteq> h" "y \<in> set (us k)" for y k
  proof -
    have "set ((us(h := vs)) k) \<inter> set ((us(h := vs)) h) = {}" using l' that(1,2) assms(2) by blast
    moreover have "set (us k) \<inter> set (us h) = {}" "set (us k) \<inter> F = {}" using l that(1,2) assms(2) by blast+
    ultimately show ?thesis using that by auto
  qed
  have 1: "\<forall>k < MAX_HWT_PLUG. sorted (map (tm_exp s') ((us(h := vs)) k)) \<and> (\<forall>i \<in> set ((us(h := vs)) k). running s' k i) \<and>
      (\<forall>i \<in> set (tl ((us(h := vs)) k)). \<not> bit (fl s' i) 1)"
  proof (intro allI impI)
    fix k assume k: "k < MAX_HWT_PLUG"
    show "sorted (map (tm_exp s') ((us(h := vs)) k)) \<and> (\<forall>i \<in> set ((us(h := vs)) k). running s' k i) \<and>
      (\<forall>i \<in> set (tl ((us(h := vs)) k)). \<not> bit (fl s' i) 1)"
    proof (cases "k = h")
      case True
      then show ?thesis using assms(9-11) by simp
    next
      case False
      have e: "map (tm_exp s') (us k) = map (tm_exp s) (us k)" using same(2)[OF dk[OF k False]] by simp
      have t: "i \<in> set (tl (us k)) \<Longrightarrow> i \<in> set (us k)" for i by (rule list.set_sel(2)) auto
      have u: "(us(h := vs)) k = us k" using False by simp
      show ?thesis unfolding u e using i k t same(1,3)[OF dk[OF k False]] by metis
    qed
  qed
  have 2: "\<forall>i \<in> set es. \<exists>k. running s' k i" "\<forall>i \<in> set fs. fl s' i = 0" using i same(1,3)[OF d] by auto
  have 3: "idle s' y" if "y < MAX_SW_TIMER" "y \<notin> set fs \<union> set es \<union> F' \<union> (\<Union>k < MAX_HWT_PLUG. set ((us(h := vs)) k))" for y
  proof -
    have "y \<notin> set ((us(h := vs)) h)" using that(2) assms(2) by blast
    then have nv: "y \<notin> set vs" by simp
    then have n: "y \<notin> set vs \<union> F \<union> set (us h)" using that(2) assms(12) by blast
    have "y \<notin> (\<Union>k < MAX_HWT_PLUG. set (us k))"
    proof
      assume "y \<in> (\<Union>k < MAX_HWT_PLUG. set (us k))"
      then obtain k where "k < MAX_HWT_PLUG" "y \<in> set (us k)" by blast
      moreover from this have "y \<notin> set ((us(h := vs)) k)" using that(2) by blast
      ultimately show False using n by (cases "k = h") auto
    qed
    then have "idle s y" using i that n by blast
    then show ?thesis using same(4)[OF n] by simp
  qed
  show ?thesis unfolding timers_inv_def using assms(3,4) 1 2 3 by blast
qed

lemma tmo_ins_shape:
  "us = [] \<Longrightarrow> tmo_ins t x us = [x]" "us \<noteq> [] \<Longrightarrow> t x < t (hd us) \<Longrightarrow> tmo_ins t x us = x # us"
  "us \<noteq> [] \<Longrightarrow> \<not> t x < t (hd us) \<Longrightarrow> tmo_ins t x us = hd us # tmo_ins t x (tl us)"
  by (simp_all add: tmo_ins_def neq_Nil_conv) (auto simp: tmo_ins_def)

lemma inv_chain: "timers_inv s fs us p es F \<Longrightarrow> h < MAX_HWT_PLUG \<Longrightarrow> chain (tnext s) (used_ptr s h) (us h)"
  by (simp add: timers_inv_def lists_ok_def)

lemma module_ok_data:
  assumes "same_data s s'" "module_ok s"
  shows "module_ok s'"
proof -
  have "tm_hwt s' h = Some hw \<Longrightarrow> hi_ops hw \<noteq> None \<Longrightarrow> hw_ready s' h" for h hw
  proof -
    assume a: "tm_hwt s' h = Some hw" "hi_ops hw \<noteq> None"
    then obtain x where x: "tm_hwt s h = Some x" using same_data_views(4)[OF assms(1), of h] by (metis not_Some_eq)
    then have "hwt_data hw = hwt_data x" using same_data_hwt[OF assms(1) x] a(1) by auto
    from arg_cong[OF this, of hi_ops] have "hi_ops x \<noteq> None" using a(2) by simp
    then show ?thesis using assms(2) x hw_ready_data[OF assms(1)] by (auto simp: module_ok_def)
  qed
  then show ?thesis using assms same_data_views(3,4)[OF assms(1)] by (simp add: module_ok_def same_data_def)
qed

lemma module_ok_put: "module_ok s \<Longrightarrow> i < MAX_SW_TIMER \<Longrightarrow> module_ok (swt_put i x s)"
  by (auto simp: module_ok_def) (simp_all add: swt_put_def)

lemma module_ok_world [simp]: "module_ok (s\<lparr>tm_world := w\<rparr>) = module_ok s" "module_ok (s\<lparr>tm_free := q\<rparr>) = module_ok s"
  by (simp_all add: module_ok_def hw_ready_def)

lemma inv_world [simp]: "timers_inv (s\<lparr>tm_world := w\<rparr>) = timers_inv s"
  by (intro ext) (simp add: timers_inv_def lists_ok_def running_def idle_def)

text \<open>The part of \<open>setup_timer_exec\<close> after the expiry value is known.\<close>

text \<open>What the insertion, the scheduling and the flag \<open>SW_TIMER_ACTIVE\<close> do to the flags of the timers: bit 1
  is set or cleared at the head of the list only, bit 3 is set at the new timer.\<close>

definition flags_queued :: "'w timers \<Rightarrow> 'w timers \<Rightarrow> nat \<Rightarrow> nat list \<Rightarrow> bool" where
  "flags_queued s s' x us \<longleftrightarrow> (\<forall>i. i \<notin> insert x (set us) \<longrightarrow> fl s' i = fl s i) \<and>
     (\<forall>i n. n \<noteq> 1 \<longrightarrow> bit (fl s' i) n = (i = x \<and> n = 3 \<or> bit (fl s i) n)) \<and>
     (\<forall>i. i \<noteq> hd (tmo_ins (tm_exp s) x us) \<longrightarrow>
        bit (fl s' i) 1 = (bit (fl s i) 1 \<and> \<not> (us \<noteq> [] \<and> i = hd us \<and> tm_exp s x < tm_exp s i)))"

lemma enqueue_run:
  assumes "chain (tnext s) (used_ptr s h) us" "x \<notin> set us" "tm_swt s x = Some e" "\<forall>i \<in> insert x (set us). tm_obj s i = Some h"
    "hw_ready s h"
  shows "\<exists>hd' s1 rv s2 s'. insert_ordered_expiry x h s = Some s1 \<and> used_ptr s1 h = Some hd' \<and> sched_timer_if_new hd' s1 = Some (rv, s2) \<and>
     swt_upd (set_activate True) x s2 = Some s' \<and> same_data s s' \<and> (\<forall>y. y \<notin> insert x (set us) \<longrightarrow> tnext s' y = tnext s y) \<and>
     (\<forall>k. k \<noteq> h \<longrightarrow> used_ptr s' k = used_ptr s k) \<and> tm_free s' = tm_free s \<and> chain (tnext s') (used_ptr s' h) (tmo_ins (tm_exp s) x us) \<and>
     flags_queued s s' x us \<and> (rv = 0 \<longrightarrow> bit (fl s' hd') 1)"
proof -
  let ?vs = "tmo_ins (tm_exp s) x us"
  obtain hw where hw: "tm_hwt s h = Some hw" using assms(5) by (auto simp: hw_ready_def)
  obtain s1 where s1: "insert_ordered_expiry x h s = Some s1" "list_frame h (insert x (set us)) s s1" "chain (tnext s1) (used_ptr s1 h) ?vs"
    "\<forall>i n. bit (fl s1 i) n \<longleftrightarrow> bit (fl s i) n \<and> \<not> (n = 1 \<and> us \<noteq> [] \<and> i = hd us \<and> tm_exp s x < tm_exp s i)"
    using insert_spec[OF assms(1-3) hw] by blast
  note f1 = s1(2)[unfolded list_frame_def]
  then have d1: "same_data s s1" by simp
  have ne: "?vs \<noteq> []" by (simp add: tmo_ins_def)
  then have hd: "used_ptr s1 h = Some (hd ?vs)" using seg_nempty[OF s1(3)] by simp
  have hdv: "hd ?vs \<in> insert x (set us)" using hd_in_set[OF ne] by simp
  obtain he where he: "tm_swt s1 (hd ?vs) = Some he" using tchain_alloc[OF s1(3) hd_in_set[OF ne]] by blast
  have "tm_obj s (hd ?vs) = Some h" using hdv assms(4) by blast
  then have ho: "st_hwt_obj he = Some h" using he same_data_views(2)[OF d1] by (simp add: tm_obj_def fun_eq_iff split: option.splits)
  obtain rv s2 where s2: "sched_timer_if_new (hd ?vs) s1 = Some (rv, s2)" "same_data s1 s2" "tnext s2 = tnext s1" "used_ptr s2 = used_ptr s1"
     "tm_free s2 = tm_free s1" "\<forall>i n. i \<noteq> hd ?vs \<or> n \<noteq> 1 \<longrightarrow> bit (fl s2 i) n = bit (fl s1 i) n" "rv = 0 \<longrightarrow> bit (fl s2 (hd ?vs)) 1"
    using sched_spec[OF he ho] assms(5) hw_ready_data[OF d1] by metis
  have d2: "same_data s s2" by (rule same_data_trans[OF d1 s2(2)])
  obtain e2 where e2: "tm_swt s2 x = Some e2" using same_data_swt[OF d2 assms(3)] by blast
  define s' where "s' = swt_put x (set_activate True e2) s2"
  have d: "same_data s s'" unfolding s'_def by (rule same_data_trans[OF d2 put_data[OF e2]]) simp
  have tn: "tnext s' = tnext s1" unfolding s'_def using put_same(1)[OF e2, of "set_activate True e2"] s2(3) by simp
  have b: "bit (fl s' i) n \<longleftrightarrow> (if i = x \<and> n = 3 then True else bit (fl s2 i) n)" for i n unfolding s'_def using e2 by (auto simp: fl_def)
  have "fl s' i = fl s i" if "i \<notin> insert x (set us)" for i
  proof (rule bit_word_eqI)
    fix n
    have "i \<noteq> hd ?vs" "us \<noteq> [] \<Longrightarrow> i \<noteq> hd us" "i \<noteq> x" using that hdv by auto
    then show "bit (fl s' i) n = bit (fl s i) n" using b[of i n] s2(6) s1(4) by auto
  qed
  then have "flags_queued s s' x us" using b s2(6) s1(4) unfolding flags_queued_def by auto
  moreover have "used_ptr s' = used_ptr s1" "tm_free s' = tm_free s1" "swt_upd (set_activate True) x s2 = Some s'"
    using upd_Some[OF e2] s2(4,5) by (simp_all add: s'_def)
  ultimately show ?thesis using s1(1,3) hd s2(1,7) d f1 b[of "hd ?vs" 1] unfolding tn[symmetric]
    by (intro exI[of _ "hd ?vs"] exI[of _ s1] exI[of _ rv] exI[of _ s2] exI[of _ s']) simp
qed

lemma queued_tail:
  assumes "flags_queued s s' x us" "\<forall>i \<in> set (tl us). \<not> bit (fl s i) 1" "\<not> bit (fl s x) 1"
    "i \<in> set (tl (tmo_ins (tm_exp s) x us))" "i \<noteq> hd (tmo_ins (tm_exp s) x us)"
  shows "\<not> bit (fl s' i) 1"
proof -
  have b: "bit (fl s' i) 1 = (bit (fl s i) 1 \<and> \<not> (us \<noteq> [] \<and> i = hd us \<and> tm_exp s x < tm_exp s i))"
    using assms(1,5) unfolding flags_queued_def by blast
  consider "us = []" | "us \<noteq> []" "tm_exp s x < tm_exp s (hd us)" | "us \<noteq> []" "\<not> tm_exp s x < tm_exp s (hd us)" by blast
  then show ?thesis
  proof cases
    case 1
    then show ?thesis using assms(4) tmo_ins_shape(1)[OF 1, of "tm_exp s" x] by simp
  next
    case 2
    then have "i = hd us \<or> i \<in> set (tl us)" using assms(4) tmo_ins_shape(2)[OF 2] by (cases us) auto
    then show ?thesis using b 2 assms(2) by auto
  next
    case 3
    then have "i = x \<or> i \<in> set (tl us)" using assms(4) tmo_ins_shape(3)[OF 3] by simp
    then show ?thesis using b assms(2,3) by auto
  qed
qed

lemma enqueue_spec:
  assumes "timers_inv s fs us p es F" "x \<in> F" "h < MAX_HWT_PLUG" "tm_swt s x = Some e" "tm_obj s x = Some h" "hw_ready s h"
    "only_bits (fl s x)" "\<not> bit (fl s x) 1"
  shows "\<exists>hd s1 rv s2 s'. insert_ordered_expiry x h s = Some s1 \<and> used_ptr s1 h = Some hd \<and> sched_timer_if_new hd s1 = Some (rv, s2) \<and>
     swt_upd (set_activate True) x s2 = Some s' \<and> same_data s s' \<and> timers_inv s' fs (us(h := tmo_ins (tm_exp s) x (us h))) p es (F - {x}) \<and>
     (\<forall>i. i \<notin> insert x (set (us h)) \<longrightarrow> fl s' i = fl s i) \<and> (rv = 0 \<longrightarrow> bit (fl s' hd) 1)"
proof -
  note i = assms(1)[unfolded timers_inv_def]
  let ?vs = "tmo_ins (tm_exp s) x (us h)"
  have nx: "x \<notin> set (us h)" using i assms(2,3) unfolding lists_ok_def by blast
  have ob: "\<forall>y \<in> insert x (set (us h)). tm_obj s y = Some h" using i assms(3,5) by (auto simp: running_def)
  obtain hd' s1 rv s2 s' where run: "insert_ordered_expiry x h s = Some s1" "used_ptr s1 h = Some hd'"
     "sched_timer_if_new hd' s1 = Some (rv, s2)" "swt_upd (set_activate True) x s2 = Some s'" and d: "same_data s s'"
    and tn: "\<forall>y. y \<notin> insert x (set (us h)) \<longrightarrow> tnext s' y = tnext s y" and up: "\<forall>k. k \<noteq> h \<longrightarrow> used_ptr s' k = used_ptr s k"
     "tm_free s' = tm_free s" and ch: "chain (tnext s') (used_ptr s' h) ?vs" and fq: "flags_queued s s' x (us h)"
    and rv: "rv = 0 \<longrightarrow> bit (fl s' hd') 1"
    using enqueue_run[OF inv_chain[OF assms(1,3)] nx assms(4) ob assms(6)] by (elim exE conjE) (rule that)
  note f = fq[unfolded flags_queued_def]
  have e: "tm_exp s' = tm_exp s" and o: "tm_obj s' = tm_obj s" using same_data_views[OF d] by blast+
  have r: "hw_ready s' = hw_ready s" using hw_ready_data[OF d] by blast
  have run': "running s' h i" if "i \<in> set ?vs" for i
  proof -
    have "only_bits (fl s' i) = only_bits (fl s i)" by (rule only_bits_cong) (use f in simp)
    moreover have "i = x \<or> running s h i" using that i assms(3) by auto
    ultimately show ?thesis using assms(3,5-7) o r f by (auto simp: running_def)
  qed
  have tail: "\<not> bit (fl s' i) 1" if "i \<in> set (tl ?vs)" for i
  proof (rule queued_tail[OF fq _ assms(8) that])
    show "i \<noteq> hd ?vs" using chain_distinct[OF ch] that by (cases ?vs) auto
  qed (use i assms(3) in blast)
  have mv: "lists_ok s' fs (us(h := ?vs)) p es (F - {x})"
  proof (rule lists_ok_move)
    show "lists_ok s fs us p es F" using i by blast
    show "insert x (set (us h)) \<subseteq> set (us h) \<union> F" using assms(2) by blast
    show "(F - {x}) \<inter> set ?vs = {}" using i assms(3) unfolding lists_ok_def by auto
  qed (use assms(2,3) tn up ch in auto)
  have inv: "timers_inv s' fs (us(h := ?vs)) p es (F - {x})"
  proof (rule inv_move[OF assms(1,3) _ mv])
    show "module_ok s'" using module_ok_data[OF d] i by blast
    show "sorted (map (tm_exp s') ?vs)" unfolding e by (rule sorted_tmo_ins) (use i assms(3) in blast)
    show "\<forall>y. y \<notin> set ?vs \<union> F \<union> set (us h) \<longrightarrow> fl s' y = fl s y" using f by auto
  qed (use e o r run' tail assms(2) in auto)
  show ?thesis using run d inv f rv by blast
qed

lemma inv_put:
  assumes "timers_inv s fs us p es F" "x \<in> F" "x < MAX_SW_TIMER"
  shows "timers_inv (swt_put x y s) fs us p es F"
proof -
  note i = assms(1)[unfolded timers_inv_def lists_ok_def]
  have n: "x \<notin> set fs" "x \<notin> set es" "\<And>h. h < MAX_HWT_PLUG \<Longrightarrow> x \<notin> set (us h)" using i assms(2) by blast+
  have r: "running (swt_put x y s) h j = running s h j" "idle (swt_put x y s) j = idle s j" if "j \<noteq> x" for h j
    using that by (simp_all add: running_def idle_def)
  have m: "map ((tm_exp s)(x := v)) (us h) = map (tm_exp s) (us h)" if "h < MAX_HWT_PLUG" for h v
    using n(3)[OF that] by simp
  have t: "j \<noteq> x" if "j \<in> set (tl (us h))" "h < MAX_HWT_PLUG" for j h using n(3)[OF that(2)] list.set_sel(2)[of "us h" j] that(1) by (cases "us h") auto
  have l: "lists_ok (swt_put x y s) fs us p es F" unfolding lists_ok_def using i n by simp
  have u: "sorted (map (tm_exp (swt_put x y s)) (us h)) \<and> (\<forall>j \<in> set (us h). running (swt_put x y s) h j) \<and> (\<forall>j \<in> set (tl (us h)). \<not> bit (fl (swt_put x y s) j) 1)"
    if h: "h < MAX_HWT_PLUG" for h
  proof (intro conjI ballI)
    show "sorted (map (tm_exp (swt_put x y s)) (us h))" unfolding put_views m[OF h] using i h by blast
    show "running (swt_put x y s) h j" if "j \<in> set (us h)" for j using that n(3)[OF h] i h r(1)[of j h] by fastforce
    show "\<not> bit (fl (swt_put x y s) j) 1" if "j \<in> set (tl (us h))" for j using that t[OF that h] i h by simp
  qed
  have es: "\<forall>j \<in> set es. \<exists>h. running (swt_put x y s) h j" "\<forall>j \<in> set fs. fl (swt_put x y s) j = 0" using i n(1,2) r(1) by (fastforce, auto)
  have idle: "idle (swt_put x y s) j" if "j < MAX_SW_TIMER" "j \<notin> set fs \<union> set es \<union> F \<union> (\<Union>h < MAX_HWT_PLUG. set (us h))" for j
    using that assms(2) r(2)[of j] i by blast
  have "module_ok (swt_put x y s)" by (rule module_ok_put[OF _ assms(3)]) (use i in blast)
  then show ?thesis unfolding timers_inv_def by (intro conjI l es allI[OF impI[OF impI[OF idle]]] allI[OF impI[OF u]])
qed

text \<open>What starting or restarting a timer does to the state: only the data of \<open>x\<close> change, and it is in the list.\<close>

definition queued :: "'w timers \<Rightarrow> nat \<Rightarrow> nat \<Rightarrow> nat list \<Rightarrow> 'w timers \<Rightarrow> bool" where
  "queued s h x us s' \<longleftrightarrow> (\<forall>i. i \<notin> insert x (set us) \<longrightarrow> fl s' i = fl s i) \<and> tm_obj s' = tm_obj s \<and> hw_ready s' = hw_ready s \<and>
     (\<forall>i. i \<noteq> x \<longrightarrow> map_option swt_data (tm_swt s' i) = map_option swt_data (tm_swt s i)) \<and>
     (\<forall>k. map_option hwt_data (tm_hwt s' k) = map_option hwt_data (tm_hwt s k))"

lemma read_current_total:
  assumes "hw_ready s h"
  shows "\<exists>rv c w. read_current h s = Some (rv, c, s\<lparr>tm_world := w\<rparr>)"
proof -
  obtain b w1 where 1: "hwt_is_running h s = Some (b, s\<lparr>tm_world := w1\<rparr>)" using hwt_calls(4)[OF assms] by blast
  have r: "hw_ready (s\<lparr>tm_world := w1\<rparr>) h" using assms by simp
  obtain a where 2: "hwt_has_abs_time h (s\<lparr>tm_world := w1\<rparr>) = Some a" using hwt_calls(7)[OF r] by blast
  obtain rv v w2 where 3: "hwt_get_current h (s\<lparr>tm_world := w1\<rparr>) = Some (rv, v, s\<lparr>tm_world := w2\<rparr>)" using hwt_calls(5)[OF r] by auto
  show ?thesis using 1 2 3 by (auto simp: read_current_def)
qed

lemma setup_spec:
  assumes "timers_inv s fs us p es F" "x \<in> F" "h < MAX_HWT_PLUG" "tm_swt s x = Some e" "st_hwt_obj e = Some h" "hw_ready s h"
    "only_bits (fl s x)" "\<not> bit (fl s x) 1" "hwt_has_abs_time h s = Some a"
  shows "\<exists>rv s'. setup_timer_exec x cur hv s = Some (rv, s') \<and>
     (rv = - 1 \<and> cur = None \<and> (\<exists>w. s' = s\<lparr>tm_world := w\<rparr>) \<or>
      rv = 0 \<and> queued s h x (us h) s' \<and> timers_inv s' fs (us(h := tmo_ins (tm_exp s') x (us h))) p es (F - {x}) \<and>
        (\<forall>c. cur = Some c \<and> \<not> hv \<longrightarrow> tm_exp s' x = u64_nat (calc_hwt_expiry a c (st_sw_interval e))))"
proof -
  obtain rv c w where rc: "(case cur of Some c \<Rightarrow> Some (0, c, s) | None \<Rightarrow> read_current h s) = Some (rv, c, s\<lparr>tm_world := w\<rparr>)" "cur \<noteq> None \<Longrightarrow> rv = 0 \<and> cur = Some c"
  proof (cases cur)
    case None
    then show ?thesis using read_current_total[OF assms(6)] that by auto
  next
    case (Some c)
    show ?thesis by (rule that[of 0 c "tm_world s"]) (use Some in simp_all)
  qed
  show ?thesis
  proof (cases "rv = - 1")
    case True
    then have "cur = None" using rc(2) by (cases cur) auto
    then show ?thesis using rc(1) True assms(4,5) by (auto simp: setup_timer_exec_def)
  next
    case False
    let ?e = "if hv then e else e\<lparr>st_hwt_expires := calc_hwt_expiry a c (st_sw_interval e)\<rparr>"
    let ?s1 = "s\<lparr>tm_world := w\<rparr>"
    define s2 where "s2 = swt_put x ?e ?s1"
    have x6: "x < MAX_SW_TIMER" using assms(1,4) unfolding timers_inv_def module_ok_def by blast
    have i2: "timers_inv s2 fs us p es F" unfolding s2_def by (rule inv_put) (use assms(1,2) x6 in simp_all)
    have v2: "tm_swt s2 x = Some ?e" "tm_obj s2 = tm_obj s" "hw_ready s2 = hw_ready s" "fl s2 = fl s" "\<forall>i. i \<noteq> x \<longrightarrow> tm_exp s2 i = tm_exp s i"
      "tm_exp s2 x = u64_nat (st_hwt_expires ?e)"
      using assms(4) put_same(2,3)[of ?s1 x e ?e] by (auto simp: s2_def fun_eq_iff fl_def tm_obj_def)
    have o2: "tm_obj s2 x = Some h" using v2(1) assms(5) by (auto simp: tm_obj_def)
    have r2: "hw_ready s2 h" "only_bits (fl s2 x)" "\<not> bit (fl s2 x) 1" using assms(6-8) v2(3,4) by simp_all
    obtain hd s3 rv2 s4 s' where e: "insert_ordered_expiry x h s2 = Some s3" "used_ptr s3 h = Some hd" "sched_timer_if_new hd s3 = Some (rv2, s4)"
      "swt_upd (set_activate True) x s4 = Some s'" "same_data s2 s'" "timers_inv s' fs (us(h := tmo_ins (tm_exp s2) x (us h))) p es (F - {x})"
      "\<forall>i. i \<notin> insert x (set (us h)) \<longrightarrow> fl s' i = fl s2 i"
      using enqueue_spec[OF i2 assms(2,3) v2(1) o2 r2] by blast
    note d = same_data_views[OF e(5)]
    obtain hw where hw: "tm_hwt s3 h = Some hw" "hi_used_list hw = Some hd" using e(2) by (auto simp: used_ptr_def split: option.splits)
    have a1: "hwt_has_abs_time h ?s1 = Some a" using assms(9) by (simp add: hwt_has_abs_time_def)
    have u: "(if \<not> hv then swt_upd (\<lambda>x. x\<lparr>st_hwt_expires := calc_hwt_expiry a c (st_sw_interval x)\<rparr>) x ?s1 else Some ?s1) = Some s2 \<or>
        hv \<and> s2 = ?s1"
      using assms(4) by (auto simp: s2_def swt_upd_def swt_put_def map_upd_triv)
    then have u: "(if \<not> hv then swt_upd (\<lambda>x. x\<lparr>st_hwt_expires := calc_hwt_expiry a c (st_sw_interval x)\<rparr>) x ?s1 else Some ?s1) = Some s2"
      by auto
    have "setup_timer_exec x cur hv s = Some (0, s')"
      unfolding setup_timer_exec_def using assms(4,5) rc(1) False a1 e(1,3,4) hw u by simp
    moreover have "queued s h x (us h) s'"
    proof -
      have w: "\<forall>i. i \<noteq> x \<longrightarrow> tm_swt s2 i = tm_swt s i" "tm_hwt s2 = tm_hwt s" by (auto simp: s2_def swt_put_def)
      have "\<forall>i. map_option swt_data (tm_swt s' i) = map_option swt_data (tm_swt s2 i)"
        "\<forall>k. map_option hwt_data (tm_hwt s' k) = map_option hwt_data (tm_hwt s2 k)" using e(5) unfolding same_data_def by blast+
      then show ?thesis unfolding queued_def using e(7) d(1,2) v2(2-4) w hw_ready_data[OF e(5)] by auto
    qed
    moreover have "tm_exp s' x = u64_nat (calc_hwt_expiry a c' (st_sw_interval e))" if "cur = Some c'" "\<not> hv" for c'
      using d(1) v2(6) rc(2) that by simp
    ultimately show ?thesis using e(6) d(1) by auto
  qed
qed

end
