(* ===== verification/TimerApi.thy ===== *)
theory TimerApi
  imports TimerInv
begin

text \<open>
  Every operation of the timer API, called with the handle of an allocated timer, runs
  without a bad access and preserves the invariant.
\<close>

section \<open>Taking a timer in hand\<close>

lemma inv_take:
  assumes "timers_inv s fs us p es F" "i \<notin> set fs" "i \<notin> set es" "\<forall>h < MAX_HWT_PLUG. i \<notin> set (us h)"
  shows "timers_inv s fs us p es (insert i F)"
proof -
  have "lists_ok s fs us p es (insert i F)" using assms unfolding timers_inv_def lists_ok_def by simp
  then show ?thesis using assms(1) unfolding timers_inv_def by simp
qed

lemma inv_drop:
  assumes "timers_inv s fs us p es (insert i F)" "idle s i"
  shows "timers_inv s fs us p es F"
proof -
  have l: "lists_ok s fs us p es (insert i F)" using assms(1) by (simp add: timers_inv_def)
  then have "(set fs \<union> set es) \<inter> insert i F = {}" "\<forall>h < MAX_HWT_PLUG. set (us h) \<inter> (set fs \<union> set es \<union> insert i F) = {}"
    unfolding lists_ok_def by - (elim conjE; assumption)+
  then have "(set fs \<union> set es) \<inter> F = {}" "\<forall>h < MAX_HWT_PLUG. set (us h) \<inter> (set fs \<union> set es \<union> F) = {}" by blast+
  then have l: "lists_ok s fs us p es F" using l unfolding lists_ok_def by - (elim conjE, intro conjI; assumption)
  have "idle s j" if "j < MAX_SW_TIMER" "j \<notin> set fs \<union> set es \<union> F \<union> (\<Union>h < MAX_HWT_PLUG. set (us h))" for j
    using assms that unfolding timers_inv_def by (cases "j = i") auto
  then show ?thesis using assms(1) l unfolding timers_inv_def by (simp only: simp_thms) blast
qed

text \<open>An API call leaves the timers in hand as they are.\<close>

definition keeps :: "nat set \<Rightarrow> 'w timers \<Rightarrow> 'w timers \<Rightarrow> bool" where
  "keeps F s s' \<longleftrightarrow> (\<forall>i \<in> F. tm_obj s' i = tm_obj s i \<and> fl s' i = fl s i) \<and> hw_ready s' = hw_ready s"

definition in_hand :: "'w timers \<Rightarrow> nat set \<Rightarrow> bool" where
  "in_hand s F \<longleftrightarrow> (\<forall>i \<in> F. \<exists>h. running s h i)"

lemma keeps_world [simp]: "keeps F s (s\<lparr>tm_world := w\<rparr>)" "keeps F s (t\<lparr>tm_world := w\<rparr>) = keeps F s t" "keeps F (s\<lparr>tm_world := w\<rparr>) t = keeps F s t"
  by (auto simp: keeps_def)

lemma keeps_refl [simp]: "keeps F s s" by (simp add: keeps_def)

lemma keeps_trans: "keeps F s t \<Longrightarrow> keeps F t u \<Longrightarrow> keeps F s u" by (simp add: keeps_def)

lemma keeps_hand: "keeps F s s' \<Longrightarrow> in_hand s F \<Longrightarrow> in_hand s' F"
  by (simp add: keeps_def in_hand_def running_def)

lemma in_hand_world [simp]: "in_hand (s\<lparr>tm_world := w\<rparr>) F = in_hand s F"
  by (simp add: in_hand_def running_def)

lemma alloc_only_fl: "tm_swt s i = Some x \<Longrightarrow> is_alloc_only x \<longleftrightarrow> (\<forall>n. bit (fl s i) n \<longleftrightarrow> n = 2)"
  by (simp add: flag_get fl_def)

text \<open>Where an allocated timer can be.\<close>

lemma alloc_only_idle:
  assumes "timers_inv s fs us p es F" "in_hand s F" "tm_swt s i = Some x" "is_alloc_only x"
  shows "i \<notin> set fs" "i \<notin> set es" "\<forall>h < MAX_HWT_PLUG. i \<notin> set (us h)" "i \<notin> F" "idle s i"
proof -
  note v = assms(1)[unfolded timers_inv_def]
  have b: "bit (fl s i) n \<longleftrightarrow> n = 2" for n using alloc_only_fl[OF assms(3)] assms(4) by simp
  have nr: "\<not> running s h i" for h using b[of 3] by (simp add: running_def)
  have "bit (fl s i) 2" using b by simp
  then have "fl s i \<noteq> 0" by auto
  then show 1: "i \<notin> set fs" "i \<notin> set es" "\<forall>h < MAX_HWT_PLUG. i \<notin> set (us h)" "i \<notin> F"
    using v nr assms(2) unfolding in_hand_def by blast+
  have "i < MAX_SW_TIMER" using v assms(3) unfolding module_ok_def by blast
  then show "idle s i" using v 1 by blast
qed

section \<open>Starting\<close>

lemma estbl_total:
  assumes "tm_swt s x = Some e" "st_hwt_obj e = Some h" "hw_ready s h"
  shows "\<exists>rv iv w. estbl_timer_interval x t s = Some (rv, swt_put x (e\<lparr>st_sw_interval := iv\<rparr>) (s\<lparr>tm_world := w\<rparr>))"
proof -
  obtain a where a: "hwt_has_abs_time h s = Some a" using hwt_calls(7)[OF assms(3)] by blast
  show ?thesis
  proof (cases a)
    case True
    then have "estbl_timer_interval x t s = Some (0, swt_put x (e\<lparr>st_sw_interval := \<lparr>hi_32 = secs t, lo_32 = nsec t\<rparr>\<rparr>) (s\<lparr>tm_world := tm_world s\<rparr>))"
      using assms(1,2) a by (simp add: estbl_timer_interval_def)
    then show ?thesis by blast
  next
    case False
    obtain v w where f: "hwt_get_frequency h s = Some (v, s\<lparr>tm_world := w\<rparr>)" using hwt_calls(6)[OF assms(3)] by blast
    obtain b where b: "hwt_is_64bits h (s\<lparr>tm_world := w\<rparr>) = Some b" using hwt_calls(8)[of "s\<lparr>tm_world := w\<rparr>" h] assms(3) by auto
    obtain rv iv where "calc_ticks_interval h t (st_sw_interval e) s = Some (rv, iv, s\<lparr>tm_world := w\<rparr>)"
      using f b by (cases "NSEC_VAL_FOR_1SEC - 1 < nsec t") (auto simp: calc_ticks_interval_def Let_def case_prod_unfold)
    then show ?thesis using assms(1,2) a False by (auto simp: estbl_timer_interval_def)
  qed
qed

lemma timer_start_inv:
  assumes "timers_inv s fs us p es F" "in_hand s F" "tm_swt s x = Some e"
  shows "\<exists>rv s' us'. timer_start x t opt s = Some (rv, s') \<and> timers_inv s' fs us' p es F \<and> keeps F s s'"
proof (cases "is_alloc_only e")
  case False
  then show ?thesis using assms by (auto simp: timer_start_def)
next
  case True
  note n = alloc_only_idle[OF assms True]
  obtain h where h: "h < MAX_HWT_PLUG" "tm_obj s x = Some h" "hw_ready s h" using n(5) by (auto simp: idle_def)
  then have eo: "st_hwt_obj e = Some h" using assms(3) by (simp add: tm_obj_def)
  have x6: "x < MAX_SW_TIMER" using assms(1,3) unfolding timers_inv_def module_ok_def by blast
  have take: "timers_inv s fs us p es (insert x F)" by (rule inv_take[OF assms(1) n(1-3)])
  let ?hv = "opt AND OPT_TIME_ABS_VALUE \<noteq> 0"
  obtain rv e1 w where e1: "(if ?hv then Some (0, swt_put x (e\<lparr>st_hwt_expires := \<lparr>hi_32 = secs t, lo_32 = nsec t\<rparr>\<rparr>) s)
      else estbl_timer_interval x t s) = Some (rv, swt_put x e1 (s\<lparr>tm_world := w\<rparr>))"
    "st_flags e1 = st_flags e" "st_hwt_obj e1 = Some h"
  proof (cases ?hv)
    case True
    show ?thesis by (rule that[of 0 "e\<lparr>st_hwt_expires := \<lparr>hi_32 = secs t, lo_32 = nsec t\<rparr>\<rparr>" "tm_world s"]) (use True eo in simp_all)
  next
    case False
    obtain rv iv w where "estbl_timer_interval x t s = Some (rv, swt_put x (e\<lparr>st_sw_interval := iv\<rparr>) (s\<lparr>tm_world := w\<rparr>))"
      using estbl_total[OF assms(3) eo h(3)] by blast
    then show ?thesis using that[of rv "e\<lparr>st_sw_interval := iv\<rparr>" w] False eo by simp
  qed
  define s1 where "s1 = swt_put x e1 (s\<lparr>tm_world := w\<rparr>)"
  have i1: "timers_inv s1 fs us p es (insert x F)" unfolding s1_def by (rule inv_put) (use take x6 in simp_all)
  have k1: "keeps F s s1" using n(4) by (auto simp: keeps_def s1_def)
  have v1: "tm_swt s1 x = Some e1" "fl s1 x = fl s x" "hw_ready s1 h" "tm_obj s1 x = Some h"
    using e1(2,3) assms(3) h(3) by (simp_all add: s1_def fl_def)
  have b: "bit (fl s x) k \<longleftrightarrow> k = 2" for k using alloc_only_fl[OF assms(3)] True by simp
  show ?thesis
  proof (cases "rv = - 1")
    case True
    have "idle s1 x" using v1 h(1) b by (auto simp: idle_def only_bits_def)
    then have "timers_inv s1 fs us p es F" using inv_drop[OF i1] by blast
    then show ?thesis using \<open>is_alloc_only e\<close> assms(3) e1(1) True k1 by (auto simp: timer_start_def Let_def s1_def)
  next
    case False
    let ?e2 = "set_periodic (opt AND OPT_TIMER_PERIODIC \<noteq> 0) e1"
    define s2 where "s2 = swt_put x ?e2 s1"
    have i2: "timers_inv s2 fs us p es (insert x F)" unfolding s2_def by (rule inv_put[OF i1 _ x6]) simp
    have k2: "keeps F s s2" using k1 n(4) by (auto simp: keeps_def s2_def)
    have o2: "st_hwt_obj ?e2 = Some h" using e1(3) by (simp add: set_periodic_def set_tflag_def)
    have v2: "tm_swt s2 x = Some ?e2" "hw_ready s2 h" "tm_obj s2 x = Some h" using v1(3) o2 by (simp_all add: s2_def)
    have b2: "bit (fl s2 x) k \<Longrightarrow> k = 0 \<or> k = 2" "bit (fl s2 x) 2" for k
      using b v1(1,2) by (auto simp: s2_def fl_def split: if_splits)
    have ob: "only_bits (fl s2 x)" "\<not> bit (fl s2 x) 1" "\<not> bit (fl s2 x) 3" using b2(2) b2(1)[of 1] b2(1)[of 3] b2(1) by (force simp: only_bits_def)+
    obtain a where a: "hwt_has_abs_time h s2 = Some a" using hwt_calls(7)[OF v2(2)] by blast
    obtain rv2 s' where s': "setup_timer_exec x None ?hv s2 = Some (rv2, s')"
      "rv2 = - 1 \<and> (\<exists>w. s' = s2\<lparr>tm_world := w\<rparr>) \<or> rv2 = 0 \<and> queued s2 h x (us h) s' \<and>
        timers_inv s' fs (us(h := tmo_ins (tm_exp s') x (us h))) p es (insert x F - {x})"
      using setup_spec[OF i2 _ h(1) v2(1) o2 v2(2) ob(1,2) a, of None ?hv] by auto
    have run: "timer_start x t opt s = Some (rv2, s')"
      using \<open>is_alloc_only e\<close> assms(3) e1(1) False upd_Some[OF v1(1)] s'(1) by (simp add: timer_start_def Let_def s1_def[symmetric] s2_def)
    from s'(2) show ?thesis
    proof (elim disjE conjE exE)
      fix w assume w: "rv2 = - 1" "s' = s2\<lparr>tm_world := w\<rparr>"
      have "idle s2 x" using v2 h(1) ob by (auto simp: idle_def)
      then have "timers_inv s2 fs us p es F" using inv_drop[OF i2] by blast
      then show ?thesis using run w k2 by auto
    next
      assume q: "queued s2 h x (us h) s'" "timers_inv s' fs (us(h := tmo_ins (tm_exp s') x (us h))) p es (insert x F - {x})"
      have "i \<notin> insert x (set (us h))" if "i \<in> F" for i using that n(4) assms(1) h(1) unfolding timers_inv_def lists_ok_def by blast
      then have "keeps F s2 s'" using q(1) by (simp add: keeps_def queued_def)
      then show ?thesis using run q(2) n(4) keeps_trans[OF k2] by auto
    qed
  qed
qed

lemma irq_total:
  assumes "module_ok s"
  shows "\<exists>m w. dsbl_irqc s = Some (m, s\<lparr>tm_world := w\<rparr>)" "\<exists>w. enbl_irqc k s = Some (s\<lparr>tm_world := w\<rparr>)"
  using assms by (auto simp: module_ok_def dsbl_irqc_def enbl_irqc_def split: prod.splits)

lemma inv_module: "timers_inv s fs us p es F \<Longrightarrow> module_ok s" by (simp add: timers_inv_def)

lemma allocated_obj:
  assumes "timers_inv s fs us p es F" "in_hand s F" "i < MAX_SW_TIMER" "i \<notin> set fs"
  shows "\<exists>x h. tm_swt s i = Some x \<and> st_hwt_obj x = Some h \<and> h < MAX_HWT_PLUG \<and> hw_ready s h"
proof -
  note v = assms(1)[unfolded timers_inv_def]
  obtain x where x: "tm_swt s i = Some x" using v assms(3) unfolding module_ok_def by blast
  have "(\<exists>h. running s h i) \<or> idle s i"
  proof (cases "i \<in> set es \<union> F \<union> (\<Union>h < MAX_HWT_PLUG. set (us h))")
    case True
    then show ?thesis using v assms(2) unfolding in_hand_def by blast
  next
    case False
    then show ?thesis using v assms(3,4) by blast
  qed
  then have "\<exists>h < MAX_HWT_PLUG. tm_obj s i = Some h \<and> hw_ready s h" unfolding running_def idle_def by blast
  then show ?thesis using x by (auto simp: tm_obj_def)
qed

lemma cc_timer_start_inv:
  assumes "timers_inv s fs us p es F" "in_hand s F" "i < MAX_SW_TIMER" "i \<notin> set fs"
  shows "\<exists>rv s' us'. cc_timer_start (Some i) t opt s = Some (rv, s') \<and> timers_inv s' fs us' p es F \<and> keeps F s s'"
proof -
  obtain x h where x: "tm_swt s i = Some x" "st_hwt_obj x = Some h" "hw_ready s h" using allocated_obj[OF assms] by blast
  obtain a where a: "hwt_has_abs_time h s = Some a" using hwt_calls(7)[OF x(3)] by blast
  have "\<exists>ok. has_valid_opts (st_hwt_obj x) opt s = Some ok" using x(2) a by (auto simp: has_valid_opts_def)
  then obtain ok where ok: "has_valid_opts (st_hwt_obj x) opt s = Some ok" by blast
  show ?thesis
  proof (cases ok)
    case False
    then show ?thesis using x(1) ok assms(1) by (auto simp: cc_timer_start_def)
  next
    case True
    obtain m w where m: "dsbl_irqc s = Some (m, s\<lparr>tm_world := w\<rparr>)" using irq_total(1)[OF inv_module[OF assms(1)]] by blast
    let ?s1 = "s\<lparr>tm_world := w\<rparr>" and ?t = "if a then t\<lparr>nsec := nsec t div 1000000 * 1000000\<rparr> else t"
    obtain rv s2 us' where s2: "timer_start i ?t opt ?s1 = Some (rv, s2)" "timers_inv s2 fs us' p es F" "keeps F ?s1 s2"
      using timer_start_inv[of ?s1 fs us p es F i x ?t opt] assms(1,2) x(1) by auto
    obtain w2 where "enbl_irqc m s2 = Some (s2\<lparr>tm_world := w2\<rparr>)" using irq_total(2)[OF inv_module[OF s2(2)]] by blast
    then have "cc_timer_start (Some i) t opt s = Some (rv, s2\<lparr>tm_world := w2\<rparr>)"
      using x(1,2) ok True a m s2(1) by (simp add: cc_timer_start_def Let_def)
    then show ?thesis using s2(2,3) by auto
  qed
qed

section \<open>Stopping\<close>

lemma set_tl: "set (tl xs) \<subseteq> set xs" by (cases xs) auto

lemma set_tl_remove1: "set (tl (remove1 x xs)) \<subseteq> set (tl xs)"
  using set_tl[of "tl xs"] set_remove1_subset[of x "tl xs"] by (cases xs) auto

lemma sched_head_inv:
  assumes "timers_inv s fs us p es F" "h < MAX_HWT_PLUG" "us h = y # ys"
  shows "\<exists>rv s'. sched_timer_if_new y s = Some (rv, s') \<and> timers_inv s' fs us p es F \<and> keeps F s s' \<and> same_data s s' \<and> tnext s' = tnext s \<and>
     (\<forall>i n. i \<noteq> y \<or> n \<noteq> 1 \<longrightarrow> bit (fl s' i) n = bit (fl s i) n) \<and> used_ptr s' = used_ptr s"
proof -
  note v = assms(1)[unfolded timers_inv_def]
  have ch: "chain (tnext s) (used_ptr s h) (y # ys)" using inv_chain[OF assms(1,2)] assms(3) by simp
  obtain ye where ye: "tm_swt s y = Some ye" using tchain_alloc[OF ch, of y] by auto
  have ry: "running s h y" using v assms(2,3) by auto
  then have yo: "st_hwt_obj ye = Some h" "hw_ready s h" using ye by (simp_all add: running_def tm_obj_def)
  obtain rv s' where s': "sched_timer_if_new y s = Some (rv, s')" "same_data s s'" "tnext s' = tnext s" "used_ptr s' = used_ptr s"
     "tm_free s' = tm_free s" "\<forall>i n. i \<noteq> y \<or> n \<noteq> 1 \<longrightarrow> bit (fl s' i) n = bit (fl s i) n"
    using sched_spec[OF ye yo] by (elim exE conjE) (rule that; assumption)
  have fo: "fl s' i = fl s i" if "i \<noteq> y" for i by (rule bit_word_eqI) (use s'(6) that in blast)
  have views: "tm_exp s' = tm_exp s" "tm_obj s' = tm_obj s" "hw_ready s' = hw_ready s"
    by (rule data_views[OF s'(2)])+
  have "set (us h) \<inter> F = {}" using v assms(2) unfolding lists_ok_def by blast
  then have yF: "y \<notin> F" using assms(3) by auto
  have yt: "y \<notin> set ys" using chain_distinct[OF ch] by simp
  have run: "running s' h i" if "i \<in> set (us h)" for i
  proof -
    have r: "running s h i" using v assms(2) that by blast
    have "only_bits (fl s' i) = only_bits (fl s i)" by (rule only_bits_cong) (use s'(6) in blast)
    then show ?thesis using r views s'(6) by (simp add: running_def)
  qed
  have l: "lists_ok s' fs us p es F" using v s'(3-5) by (simp add: lists_ok_def)
  have upd: "us(h := us h) = us" by simp
  have "timers_inv s' fs (us(h := us h)) p es F"
  proof (rule inv_move[OF assms(1,2)])
    show "module_ok s'" using module_ok_data[OF s'(2)] v by blast
    show "lists_ok s' fs (us(h := us h)) p es F" using l by simp
    show "sorted (map (tm_exp s') (us h))" unfolding views using v assms(2) by blast
    show "\<forall>i \<in> set (tl (us h)). \<not> bit (fl s' i) 1" using v assms(2,3) fo yt by (metis list.sel(3))
  qed (use views fo run assms(3) in auto)
  then have "timers_inv s' fs us p es F" unfolding upd .
  moreover have "\<forall>i \<in> F. fl s' i = fl s i" using fo yF by metis
  then have "keeps F s s'" using views by (simp add: keeps_def)
  ultimately show ?thesis using s'(1-4,6) by blast
qed

lemma remove_inv:
  assumes "timers_inv s fs us p es F" "h < MAX_HWT_PLUG" "x \<in> set (us h)"
  shows "\<exists>s'. remove_elem x h s = Some (0, s') \<and> timers_inv s' fs (us(h := remove1 x (us h))) p es (insert x F) \<and> same_data s s' \<and>
     fl s' = fl s \<and> tnext s' x = Some None \<and> x \<notin> F"
proof -
  note v = assms(1)[unfolded timers_inv_def]
  have rx: "running s h x" using v assms(2,3) by blast
  obtain hw where hw: "tm_hwt s h = Some hw" using rx by (auto simp: running_def hw_ready_def)
  let ?vs = "remove1 x (us h)"
  obtain s1 where s1: "remove_elem x h s = Some (if x \<in> set (us h) then 0 else - 1, s1)" "list_frame h (set (us h)) s s1" "fl s1 = fl s"
     "chain (tnext s1) (used_ptr s1 h) ?vs" "x \<in> set (us h) \<longrightarrow> tnext s1 x = Some None"
    using remove_spec[OF inv_chain[OF assms(1,2)] hw] by blast
  note f1 = s1(2)[unfolded list_frame_def]
  then have d1: "same_data s s1" by simp
  have dist: "distinct (us h)" by (rule chain_distinct[OF inv_chain[OF assms(1,2)]])
  have F: "F \<inter> set (us h) = {}" using v assms(2) unfolding lists_ok_def by blast
  have l1: "lists_ok s1 fs (us(h := ?vs)) p es (insert x F)"
  proof (rule lists_ok_move)
    show "lists_ok s fs us p es F" using v by blast
    show "\<forall>y. y \<notin> set (us h) \<longrightarrow> tnext s1 y = tnext s y" "\<forall>k. k \<noteq> h \<longrightarrow> used_ptr s1 k = used_ptr s k" "tm_free s1 = tm_free s" using f1 by blast+
    show "set ?vs \<subseteq> set (us h) \<union> F" using set_remove1_subset by fastforce
    show "insert x F \<inter> set ?vs = {}" using F dist set_remove1_subset[of x "us h"] by auto
  qed (use assms(2,3) s1(4) in auto)
  note views = data_views[OF d1]
  have "timers_inv s1 fs (us(h := ?vs)) p es (insert x F)"
  proof (rule inv_move[OF assms(1,2) _ l1])
    show "module_ok s1" using module_ok_data[OF d1] v by blast
    have "sorted (map (tm_exp s) (us h))" "\<forall>i \<in> set (us h). running s h i" using v assms(2) by blast+
    then show "sorted (map (tm_exp s1) ?vs)" "\<forall>i \<in> set ?vs. running s1 h i"
      unfolding views running_def s1(3) by (auto intro: sorted_map_remove1 dest: notin_set_remove1[rotated])
    show "\<forall>i \<in> set (tl ?vs). \<not> bit (fl s1 i) 1" unfolding s1(3) using v assms(2) set_tl_remove1[of x "us h"] by blast
  qed (use views s1(3) dist in auto)
  then show ?thesis using s1 d1 assms(3) F by auto
qed

lemma timer_stop_inv:
  assumes "timers_inv s fs us p es F" "tm_swt s x = Some e" "st_hwt_obj e = Some h" "h < MAX_HWT_PLUG" "hw_ready s h"
  shows "\<exists>rv s' us'. timer_stop x s = Some (rv, s') \<and> timers_inv s' fs us' p es F \<and> keeps F s s' \<and>
     (x \<notin> set (us h) \<longrightarrow> rv = - 1 \<and> s' = s) \<and> (x \<in> set (us h) \<longrightarrow> rv = 0 \<and> us' = us(h := remove1 x (us h)))"
proof (cases "x \<in> set (us h)")
  case False
  obtain hw where hw: "tm_hwt s h = Some hw" using assms(5) by (auto simp: hw_ready_def)
  have "remove_elem x h s = Some (- 1, s)" using remove_spec[OF inv_chain[OF assms(1,4)] hw, of x] False by auto
  then have "timer_stop x s = Some (- 1, s)" using assms(2,3) by (simp add: timer_stop_def)
  then show ?thesis using False assms(1) by auto
next
  case True
  let ?vs = "remove1 x (us h)" and ?f = "\<lambda>x. set_activate False (set_periodic False (set_scheduled False x))"
  obtain s1 where s1: "remove_elem x h s = Some (0, s1)" "timers_inv s1 fs (us(h := ?vs)) p es (insert x F)" "same_data s s1" "fl s1 = fl s" "x \<notin> F"
    using remove_inv[OF assms(1,4) True] by blast
  have rx: "running s h x" using assms(1,4) True unfolding timers_inv_def by blast
  have x6: "x < MAX_SW_TIMER" using inv_module[OF assms(1)] assms(2) unfolding module_ok_def by blast
  note views = data_views[OF s1(3)]
  obtain e1 where e1: "tm_swt s1 x = Some e1" "swt_data e1 = swt_data e" using same_data_swt[OF s1(3) assms(2)] by blast
  have o1: "st_hwt_obj (?f e1) = Some h" using arg_cong[OF e1(2), of st_hwt_obj] assms(3) by (simp add: set_activate_def set_periodic_def set_tflag_def)
  define s2 where "s2 = swt_put x (?f e1) s1"
  have i2: "timers_inv s2 fs (us(h := ?vs)) p es (insert x F)" unfolding s2_def by (rule inv_put[OF s1(2) _ x6]) simp
  have "st_flags e1 = fl s x" using e1(1) fun_cong[OF s1(4), of x] by (simp add: fl_def)
  then have b2: "bit (fl s2 x) n \<longleftrightarrow> bit (fl s x) n \<and> n \<noteq> 0 \<and> n \<noteq> 1 \<and> n \<noteq> 3" for n by (auto simp: s2_def)
  have o2: "tm_obj s2 x = Some h" "hw_ready s2 = hw_ready s" using o1 views by (simp_all add: s2_def)
  have "only_bits (fl s2 x)" "\<not> bit (fl s2 x) 1" "\<not> bit (fl s2 x) 3" using rx b2 by (auto simp: running_def only_bits_def)
  then have "idle s2 x" using rx o2 by (simp add: idle_def running_def)
  then have i3: "timers_inv s2 fs (us(h := ?vs)) p es F" using inv_drop[OF i2] by blast
  have k2: "keeps F s s2" using s1(4,5) views by (auto simp: keeps_def s2_def)
  have r2: "hw_ready s2 h" using o2(2) assms(5) by simp
  obtain hw2 where hw2: "tm_hwt s2 h = Some hw2" using r2 by (auto simp: hw_ready_def)
  then have up: "hi_used_list hw2 = used_ptr s2 h" by (simp add: used_ptr_def)
  have ch: "chain (tnext s2) (used_ptr s2 h) ?vs" using inv_chain[OF i3 assms(4)] by simp
  have u2: "swt_upd ?f x s1 = Some s2" using upd_Some[OF e1(1), of ?f] by (simp add: s2_def)
  have pre: "timer_stop x s = do { (_, s) \<leftarrow> (case used_ptr s2 h of Some head \<Rightarrow> sched_timer_if_new head s2 | None \<Rightarrow> hwt_stop h s2); Some (0, s) }"
    using assms(2,3) s1(1) u2 hw2 up by (simp add: timer_stop_def)
  show ?thesis
  proof (cases ?vs)
    case Nil
    then have n: "used_ptr s2 h = None" using ch by simp
    obtain rv w where "hwt_stop h s2 = Some (rv, s2\<lparr>tm_world := w\<rparr>)" using hwt_calls(3)[OF r2] by blast
    then have "timer_stop x s = Some (0, s2\<lparr>tm_world := w\<rparr>)" using pre n by simp
    then show ?thesis using i3 k2 True by auto
  next
    case (Cons y ys)
    then have n: "used_ptr s2 h = Some y" using ch by simp
    have "(us(h := ?vs)) h = y # ys" using Cons by simp
    from sched_head_inv[OF i3 assms(4) this]
    obtain rv s3 where s3: "sched_timer_if_new y s2 = Some (rv, s3)" "timers_inv s3 fs (us(h := ?vs)) p es F" "keeps F s2 s3" by blast
    have "timer_stop x s = Some (0, s3)" using pre n s3(1) by simp
    then show ?thesis using True s3(2) keeps_trans[OF k2 s3(3)] by auto
  qed
qed

lemma cc_timer_stop_inv:
  assumes "timers_inv s fs us p es F" "in_hand s F" "i < MAX_SW_TIMER" "i \<notin> set fs"
  shows "\<exists>rv s' us'. cc_timer_stop (Some i) s = Some (rv, s') \<and> timers_inv s' fs us' p es F \<and> keeps F s s' \<and>
     ((\<forall>h < MAX_HWT_PLUG. i \<notin> set (us h)) \<longrightarrow> rv = - 1 \<and> us' = us) \<and>
     (\<forall>h < MAX_HWT_PLUG. i \<in> set (us h) \<longrightarrow> rv = 0 \<and> us' = us(h := remove1 i (us h)))"
proof -
  obtain x h where x: "tm_swt s i = Some x" "st_hwt_obj x = Some h" "h < MAX_HWT_PLUG" "hw_ready s h" using allocated_obj[OF assms] by blast
  obtain m w where m: "dsbl_irqc s = Some (m, s\<lparr>tm_world := w\<rparr>)" using irq_total(1)[OF inv_module[OF assms(1)]] by blast
  let ?s1 = "s\<lparr>tm_world := w\<rparr>"
  have h: "k = h" if "k < MAX_HWT_PLUG" "i \<in> set (us k)" for k
  proof -
    have "running s k i" using assms(1) that unfolding timers_inv_def by blast
    then show ?thesis using x(1,2) by (simp add: running_def tm_obj_def)
  qed
  have "\<exists>rv s' us'. (if has_started x then timer_stop i ?s1 else Some (- 1, ?s1)) = Some (rv, s') \<and> timers_inv s' fs us' p es F \<and> keeps F s s' \<and>
     (i \<notin> set (us h) \<longrightarrow> rv = - 1 \<and> us' = us) \<and> (i \<in> set (us h) \<longrightarrow> rv = 0 \<and> us' = us(h := remove1 i (us h)))"
  proof (cases "has_started x")
    case True
    obtain rv s' us' where st: "timer_stop i ?s1 = Some (rv, s')" "timers_inv s' fs us' p es F" "keeps F ?s1 s'"
       "i \<notin> set (us h) \<longrightarrow> rv = - 1 \<and> s' = ?s1" "i \<in> set (us h) \<longrightarrow> rv = 0 \<and> us' = us(h := remove1 i (us h))"
      using timer_stop_inv[of ?s1 fs us p es F i x h] assms(1) x by auto
    show ?thesis
    proof (cases "i \<in> set (us h)")
      case True
      then show ?thesis using st \<open>has_started x\<close> by auto
    next
      case False
      then show ?thesis using st(1,4) assms(1) \<open>has_started x\<close> by (intro exI[of _ rv] exI[of _ s'] exI[of _ us]) auto
    qed
  next
    case False
    then have "i \<notin> set (us h)" using alloc_only_idle(3)[OF assms(1,2) x(1)] x(3) by (simp add: has_started_def)
    then show ?thesis using False assms(1) by (intro exI[of _ "- 1"] exI[of _ ?s1] exI[of _ us]) simp
  qed
  then obtain rv s2 us' where s2: "(if has_started x then timer_stop i ?s1 else Some (- 1, ?s1)) = Some (rv, s2)" "timers_inv s2 fs us' p es F" "keeps F s s2"
     "i \<notin> set (us h) \<longrightarrow> rv = - 1 \<and> us' = us" "i \<in> set (us h) \<longrightarrow> rv = 0 \<and> us' = us(h := remove1 i (us h))" by blast
  obtain w2 where "enbl_irqc m s2 = Some (s2\<lparr>tm_world := w2\<rparr>)" using irq_total(2)[OF inv_module[OF s2(2)]] by blast
  then have "cc_timer_stop (Some i) s = Some (rv, s2\<lparr>tm_world := w2\<rparr>)" using m x(1) s2(1) by (simp add: cc_timer_stop_def)
  moreover have "(\<forall>k < MAX_HWT_PLUG. i \<notin> set (us k)) \<longrightarrow> rv = - 1 \<and> us' = us" using s2(4) x(3) by blast
  moreover have "\<forall>k < MAX_HWT_PLUG. i \<in> set (us k) \<longrightarrow> rv = 0 \<and> us' = us(k := remove1 i (us k))" using s2(5) h by blast
  moreover have "timers_inv (s2\<lparr>tm_world := w2\<rparr>) fs us' p es F" "keeps F s (s2\<lparr>tm_world := w2\<rparr>)" using s2(2,3) by simp_all
  ultimately show ?thesis by blast
qed

section \<open>Creation and deletion\<close>

lemma cc_timer_create_inv:
  assumes "timers_inv s fs us p es F"
  shows "\<exists>r s'. cc_timer_create cfg s = Some (r, s') \<and> keeps F s s' \<and>
     (case r of None \<Rightarrow> timers_inv s' fs us p es F | Some i \<Rightarrow> fs = i # tl fs \<and> timers_inv s' (tl fs) us p es F)"
proof -
  note v = assms[unfolded timers_inv_def lists_ok_def]
  show ?thesis
  proof (cases "\<exists>h hw. get_hwt (cfg_source cfg) = Some h \<and> tm_hwt s h = Some hw \<and> hi_ops hw \<noteq> None \<and> tm_free s \<noteq> None")
    case False
    have d: "tm_hwt s h \<noteq> None" if "get_hwt (cfg_source cfg) = Some h" for h
    proof -
      have "h = 0 \<or> h = 1" using that by (auto simp: get_hwt_def split: if_splits)
      then show ?thesis using v by (auto simp: module_ok_def MAX_HWT_PLUG_def)
    qed
    obtain m w where m: "dsbl_irqc s = Some (m, s\<lparr>tm_world := w\<rparr>)" using irq_total(1)[OF inv_module[OF assms]] by blast
    obtain w2 where w2: "enbl_irqc m (s\<lparr>tm_world := w\<rparr>) = Some (s\<lparr>tm_world := w2\<rparr>)" using irq_total(2)[of "s\<lparr>tm_world := w\<rparr>"] inv_module[OF assms] by auto
    have "cc_timer_create cfg s = Some (None, s) \<or> cc_timer_create cfg s = Some (None, s\<lparr>tm_world := w2\<rparr>)"
      using False d m w2 by (auto simp: cc_timer_create_def split: option.splits)
    then show ?thesis using assms by auto
  next
    case True
    then obtain h hw i where h: "get_hwt (cfg_source cfg) = Some h" "tm_hwt s h = Some hw" "hi_ops hw \<noteq> None" "tm_free s = Some i" by auto
    have "chain (tnext s) (tm_free s) fs" using v by blast
    then have cf: "chain (tnext s) (Some i) fs" unfolding h(4) .
    then obtain gs where fs: "fs = i # gs" by (cases fs) auto
    obtain x where x: "tm_swt s i = Some x" "chain (tnext s) (st_next x) gs" using cf fs by (auto simp: tnext_Some)
    have mo: "module_ok s" by (rule inv_module[OF assms])
    have i6: "i < MAX_SW_TIMER" using mo x(1) unfolding module_ok_def by blast
    have hr: "hw_ready s h" "h < MAX_HWT_PLUG" using mo h(2,3) unfolding module_ok_def by blast+
    let ?x = "(set_alloc_status True (x\<lparr>st_next := None\<rparr>))\<lparr>st_hwt_obj := Some h, st_timeout_cb := cfg_timeout_cb cfg, st_cb_param := cfg_cb_param cfg\<rparr>"
    obtain m w where m: "dsbl_irqc s = Some (m, s\<lparr>tm_world := w\<rparr>)" using irq_total(1)[OF inv_module[OF assms]] by blast
    let ?s0 = "s\<lparr>tm_world := w, tm_free := st_next x\<rparr>"
    have ng: "i \<notin> set gs" using chain_distinct[OF cf] fs by simp
    have "timers_inv ?s0 gs us p es (insert i F)"
      using assms x(2) ng unfolding timers_inv_def lists_ok_def fs by (simp add: running_def idle_def) 
    define s1 where "s1 = swt_put i ?x ?s0"
    have i1: "timers_inv s1 gs us p es (insert i F)" unfolding s1_def by (rule inv_put[OF _ _ i6]) (use \<open>timers_inv ?s0 gs us p es (insert i F)\<close> in simp_all)
    have "(4 :: u32) = 2 ^ 2" by simp
    then have b4: "bit (4 :: u32) n \<longleftrightarrow> n = 2" for n by (simp only: bit_exp_iff) (auto simp: possible_bit_def)
    have "idle s1 i" using hr b4 by (auto simp: s1_def idle_def only_bits_def set_alloc_status_def)
    then have i2: "timers_inv s1 gs us p es F" using inv_drop[OF i1] by blast
    have "(set fs \<union> set es) \<inter> F = {}" using v by blast
    then have iF: "i \<notin> F" using fs by auto
    obtain w2 where w2: "enbl_irqc m s1 = Some (s1\<lparr>tm_world := w2\<rparr>)" using irq_total(2)[OF inv_module[OF i2]] by blast
    have "cc_timer_create cfg s = Some (Some i, s1\<lparr>tm_world := w2\<rparr>)"
      using h m x(1) w2 by (simp add: cc_timer_create_def s1_def)
    moreover have "keeps F s s1" using iF by (auto simp: keeps_def s1_def)
    ultimately show ?thesis using fs i2 by auto
  qed
qed

lemma cc_timer_delete_inv:
  assumes "timers_inv s fs us p es F" "in_hand s F" "tm_swt s i = Some x"
  shows "\<exists>rv s'. cc_timer_delete (Some i) s = Some (rv, s') \<and> keeps F s s' \<and>
     (rv = - 1 \<and> \<not> is_alloc_only x \<and> timers_inv s' fs us p es F \<or> rv = 0 \<and> is_alloc_only x \<and> timers_inv s' (i # fs) us p es F)"
proof -
  obtain m w where m: "dsbl_irqc s = Some (m, s\<lparr>tm_world := w\<rparr>)" using irq_total(1)[OF inv_module[OF assms(1)]] by blast
  show ?thesis
  proof (cases "is_alloc_only x")
    case False
    obtain w2 where "enbl_irqc m (s\<lparr>tm_world := w\<rparr>) = Some (s\<lparr>tm_world := w2\<rparr>)" using irq_total(2)[of "s\<lparr>tm_world := w\<rparr>"] inv_module[OF assms(1)] by auto
    then have "cc_timer_delete (Some i) s = Some (- 1, s\<lparr>tm_world := w2\<rparr>)" using m assms(3) False by (simp add: cc_timer_delete_def)
    then show ?thesis using False assms(1) by auto
  next
    case True
    note n = alloc_only_idle[OF assms True]
    have i6: "i < MAX_SW_TIMER" using assms(1,3) unfolding timers_inv_def module_ok_def by blast
    let ?x = "(set_alloc_status False x)\<lparr>st_hwt_obj := None, st_next := tm_free s\<rparr>"
    define s1 where "s1 = swt_put i ?x (s\<lparr>tm_world := w\<rparr>)"
    have i1: "timers_inv s1 fs us p es (insert i F)" unfolding s1_def by (rule inv_put[OF _ _ i6]) (use inv_take[OF assms(1) n(1-3)] in simp_all)
    have f1: "fl s1 i = 0" "tnext s1 i = Some (tm_free s)" "tm_free s1 = tm_free s" by (simp_all add: s1_def set_alloc_status_def)
    let ?s2 = "s1\<lparr>tm_free := Some i\<rparr>"
    have i2: "timers_inv ?s2 (i # fs) us p es F"
      using i1 n f1 unfolding timers_inv_def lists_ok_def by (simp add: running_def idle_def)
    obtain w2 where "enbl_irqc m ?s2 = Some (?s2\<lparr>tm_world := w2\<rparr>)" using irq_total(2)[OF inv_module[OF i2]] by blast
    then have "cc_timer_delete (Some i) s = Some (0, ?s2\<lparr>tm_world := w2\<rparr>)" using m assms(3) True by (simp add: cc_timer_delete_def s1_def)
    moreover have "keeps F s ?s2" using n(4) by (auto simp: keeps_def s1_def)
    moreover have "timers_inv (?s2\<lparr>tm_world := w2\<rparr>) (i # fs) us p es F" using i2 by simp
    ultimately show ?thesis using True by (intro exI[of _ 0] exI[of _ "?s2\<lparr>tm_world := w2\<rparr>"]) simp
  qed
qed

end
