(* ===== verification/TimerIsr.thy ===== *)
theory TimerIsr
  imports TimerApi
begin

text \<open>
  The interrupt service routine of the timer module, the module as a state machine whose
  steps are the API calls and the interrupts, and the properties of its reachable states.
\<close>

section \<open>Isolating the expired timers\<close>

lemma inv_expire_first:
  assumes "timers_inv s fs us None [] (insert y F)" "y \<notin> F" "tnext s y = Some None" "running s h y"
  shows "timers_inv s fs us (Some y) [y] F"
  using assms unfolding timers_inv_def lists_ok_def by auto

lemma inv_expire_next:
  assumes "timers_inv s fs us p (es @ [t]) (insert y F)" "y \<notin> F" "tnext s y = Some None" "running s h y" "tm_swt s t = Some te"
  shows "timers_inv (swt_put t (te\<lparr>st_next := Some y\<rparr>) s) fs us p (es @ [t, y]) F"
proof -
  let ?s = "swt_put t (te\<lparr>st_next := Some y\<rparr>) s"
  note l = assms(1)[unfolded timers_inv_def lists_ok_def]
  have ce: "chain (tnext s) p (es @ [t])" and F1: "(set fs \<union> set (es @ [t])) \<inter> insert y F = {}" and fe: "set fs \<inter> set (es @ [t]) = {}"
    and F2: "\<And>k. k < MAX_HWT_PLUG \<Longrightarrow> set (us k) \<inter> (set fs \<union> set (es @ [t]) \<union> insert y F) = {}"
    and F3: "\<And>k m. k < MAX_HWT_PLUG \<Longrightarrow> m < MAX_HWT_PLUG \<Longrightarrow> k \<noteq> m \<Longrightarrow> set (us k) \<inter> set (us m) = {}"
    and cf: "chain (tnext s) (tm_free s) fs" and cu: "\<And>k. k < MAX_HWT_PLUG \<Longrightarrow> chain (tnext s) (used_ptr s k) (us k)"
    and mo: "module_ok s" using l by simp_all
  have t6: "t < MAX_SW_TIMER" using mo assms(5) unfolding module_ok_def by blast
  have "(tnext s)(y \<mapsto> None) = tnext s" using assms(3) by (auto simp: fun_eq_iff)
  moreover have "y \<notin> set (es @ [t])" using F1 by auto
  ultimately have c: "chain (tnext ?s) p (es @ [t, y])" using chain_snoc[OF ce, of y] by (simp del: seg_append)
  have tn: "t \<notin> set fs" "\<And>k. k < MAX_HWT_PLUG \<Longrightarrow> t \<notin> set (us k)" using fe F2 by auto
  have li: "lists_ok ?s fs us p (es @ [t, y]) F"
    unfolding lists_ok_def
  proof (intro conjI allI impI)
    show "chain (tnext ?s) (tm_free ?s) fs" using cf tn(1) by simp
    show "chain (tnext ?s) (used_ptr ?s k) (us k)" if "k < MAX_HWT_PLUG" for k using cu[OF that] tn(2)[OF that] by simp
    show "set fs \<inter> set (es @ [t, y]) = {}" "(set fs \<union> set (es @ [t, y])) \<inter> F = {}" using fe F1 assms(2) by auto
    show "set (us k) \<inter> (set fs \<union> set (es @ [t, y]) \<union> F) = {}" if "k < MAX_HWT_PLUG" for k using F2[OF that] by auto
    show "set (us k) \<inter> set (us m) = {}" if "k < MAX_HWT_PLUG" "m < MAX_HWT_PLUG" "k \<noteq> m" for k m by (rule F3[OF that])
  qed (rule c)
  have f: "fl ?s = fl s" "tm_obj ?s = tm_obj s" "tm_exp ?s = tm_exp s" using put_same(2-4)[OF assms(5), of "te\<lparr>st_next := Some y\<rparr>"] by simp_all
  have r: "running ?s = running s" "idle ?s = idle s" using f by (auto simp: running_def idle_def fun_eq_iff)
  have U: "\<forall>k < MAX_HWT_PLUG. sorted (map (tm_exp s) (us k)) \<and> (\<forall>i \<in> set (us k). running s k i) \<and> (\<forall>i \<in> set (tl (us k)). \<not> bit (fl s i) 1)"
    and E: "\<forall>i \<in> set (es @ [t]). \<exists>k. running s k i" and Z: "\<forall>i \<in> set fs. fl s i = 0"
    and I: "\<forall>i < MAX_SW_TIMER. i \<notin> set fs \<union> set (es @ [t]) \<union> insert y F \<union> (\<Union>k < MAX_HWT_PLUG. set (us k)) \<longrightarrow> idle s i"
    using l by blast+
  have E': "\<forall>i \<in> set (es @ [t, y]). \<exists>k. running s k i" using E assms(4) by auto
  have I': "\<forall>i < MAX_SW_TIMER. i \<notin> set fs \<union> set (es @ [t, y]) \<union> F \<union> (\<Union>k < MAX_HWT_PLUG. set (us k)) \<longrightarrow> idle s i" using I by auto
  show ?thesis unfolding timers_inv_def r f using module_ok_put[OF mo t6] li U E' Z I' by blast
qed

lemma running_data: "same_data s s' \<Longrightarrow> fl s' = fl s \<Longrightarrow> running s' = running s"
  by (intro ext) (simp add: running_def data_views)

lemma isolate_loop_spec:
  assumes "timers_inv s fs us p es F" "h < MAX_HWT_PLUG" "hw_ready s h" "q = (if es = [] then None else Some (last es))" "es = [] \<longrightarrow> p = None"
  shows "\<exists>p' s'. isolate_loop h c p q s = Some (p', s') \<and> same_data s s' \<and> keeps F s s' \<and> (\<forall>i n. n \<noteq> 1 \<longrightarrow> bit (fl s' i) n = bit (fl s i) n) \<and>
     timers_inv s' fs (us(h := dropWhile (\<lambda>i. tm_exp s i \<le> u64_nat c) (us h))) p' (es @ takeWhile (\<lambda>i. tm_exp s i \<le> u64_nat c) (us h)) F"
  using assms
proof (induction "us h" arbitrary: s us p es q)
  case Nil
  obtain hw where hw: "tm_hwt s h = Some hw" using Nil.prems(3) by (auto simp: hw_ready_def)
  have "chain (tnext s) (used_ptr s h) []" using inv_chain[OF Nil.prems(1,2)] Nil.hyps by simp
  then have n: "hi_used_list hw = None" using hw by (simp add: used_ptr_def)
  have "isolate_loop h c p q s = Some (p, s)" using hw n by (simp add: isolate_loop.simps)
  moreover have "us(h := []) = us" using Nil.hyps by (simp add: fun_upd_idem)
  ultimately show ?case using Nil.prems(1) Nil.hyps[symmetric] by simp
next
  case (Cons y ys)
  obtain hw where hw: "tm_hwt s h = Some hw" using Cons.prems(3) by (auto simp: hw_ready_def)
  have ch: "chain (tnext s) (used_ptr s h) (y # ys)" using inv_chain[OF Cons.prems(1,2)] Cons.hyps(2) by simp
  then have n: "hi_used_list hw = Some y" using hw by (simp add: used_ptr_def)
  obtain ye where ye: "tm_swt s y = Some ye" using tchain_alloc[OF ch, of y] by auto
  have cmp: "cmp_u64 c (st_hwt_expires ye) < 0 \<longleftrightarrow> u64_nat c < tm_exp s y" using ye by (simp add: cmp_u64_def u64_cmp_less tm_exp_def)
  show ?case
  proof (cases "u64_nat c < tm_exp s y")
    case True
    obtain rv s' where s': "sched_timer_if_new y s = Some (rv, s')" "timers_inv s' fs us p es F" "keeps F s s'" "same_data s s'"
       "\<forall>i n. n \<noteq> 1 \<longrightarrow> bit (fl s' i) n = bit (fl s i) n"
      using sched_head_inv[OF Cons.prems(1,2) Cons.hyps(2)[symmetric]] by blast
    have "isolate_loop h c p q s = Some (p, s')" using hw n ye cmp True s'(1) by (simp add: isolate_loop.simps)
    moreover have "us(h := y # ys) = us" using Cons.hyps(2) by (simp add: fun_upd_idem)
    ultimately show ?thesis using s'(2-5) True Cons.hyps(2)[symmetric] by simp
  next
    case False
    have yin: "y \<in> set (us h)" using Cons.hyps(2)[symmetric] by simp
    obtain s1 where s1: "remove_elem y h s = Some (0, s1)" "timers_inv s1 fs (us(h := remove1 y (us h))) p es (insert y F)" "same_data s s1"
       "fl s1 = fl s" "tnext s1 y = Some None" "y \<notin> F"
      using remove_inv[OF Cons.prems(1,2) yin] by blast
    have us1: "us(h := remove1 y (us h)) = us(h := ys)" using Cons.hyps(2)[symmetric] by simp
    have ry: "running s1 h y" using Cons.prems(1,2) yin running_data[OF s1(3,4)] unfolding timers_inv_def by simp
    obtain s2 p2 where s2: "(case q of None \<Rightarrow> Some s1 | Some t \<Rightarrow> swt_upd (st_next_update (\<lambda>_. Some y)) t s1) = Some s2"
      "p2 = (if p = None then Some y else p)" "timers_inv s2 fs (us(h := ys)) p2 (es @ [y]) F" "same_data s1 s2" "fl s2 = fl s1"
    proof (cases es rule: rev_cases)
      case Nil
      have i: "timers_inv s1 fs (us(h := ys)) (Some y) [y] F"
        by (rule inv_expire_first[OF _ s1(6,5) ry]) (use s1(2) Nil Cons.prems(5) us1 in simp)
      show ?thesis by (rule that[of s1 "Some y"]) (use i Nil Cons.prems(4,5) in simp_all)
    next
      case (snoc xs t)
      have pe: "chain (tnext s1) p (xs @ [t])" using s1(2) snoc unfolding timers_inv_def lists_ok_def by blast
      obtain te where te: "tm_swt s1 t = Some te" using tchain_alloc[OF pe, of t] by auto
      have pn: "p \<noteq> None" using seg_nempty[OF pe] by simp
      have i: "timers_inv (swt_put t (te\<lparr>st_next := Some y\<rparr>) s1) fs (us(h := ys)) p (xs @ [t, y]) F"
        by (rule inv_expire_next[OF _ s1(6,5) ry te]) (use s1(2) snoc us1 in simp)
      show ?thesis by (rule that[of "swt_put t (te\<lparr>st_next := Some y\<rparr>) s1" p])
          (use i snoc Cons.prems(4) upd_Some[OF te] pn put_data[OF te] put_same(2)[OF te] in simp_all)
    qed
    note d = same_data_trans[OF s1(3) s2(4)]
    have step: "isolate_loop h c p q s = isolate_loop h c p2 (Some y) s2"
      using hw n ye cmp False s1(1) s2(1,2) by (subst isolate_loop.simps) (auto split: option.splits)
    have r2: "hw_ready s2 h" using Cons.prems(3) data_views(3)[OF d] by simp
    obtain p' s' where r: "isolate_loop h c p2 (Some y) s2 = Some (p', s')" "same_data s2 s'" "keeps F s2 s'" "\<forall>i n. n \<noteq> 1 \<longrightarrow> bit (fl s' i) n = bit (fl s2 i) n"
      "timers_inv s' fs ((us(h := ys))(h := dropWhile (\<lambda>i. tm_exp s2 i \<le> u64_nat c) ((us(h := ys)) h))) p'
         ((es @ [y]) @ takeWhile (\<lambda>i. tm_exp s2 i \<le> u64_nat c) ((us(h := ys)) h)) F"
      using Cons.hyps(1)[of "us(h := ys)" s2 p2 "es @ [y]" "Some y"] s2(3) Cons.prems(2) r2 by auto
    have k: "keeps F s s2" using s1(4) s2(5) data_views[OF d] by (simp add: keeps_def)
    show ?thesis
      using r(1,4,5) s1(4) s2(5) step same_data_trans[OF d r(2)] keeps_trans[OF k r(3)] False Cons.hyps(2)[symmetric] data_views(1)[OF d] by simp
  qed
qed

section \<open>The steps of the module\<close>

text \<open>A handle that a client may use: \<open>NULL\<close> or that of a timer which is allocated.\<close>

definition live :: "'w timers \<Rightarrow> ptr \<Rightarrow> bool" where
  "live s hndl \<longleftrightarrow> (case hndl of None \<Rightarrow> True | Some i \<Rightarrow> i < MAX_SW_TIMER \<and> fl s i AND SW_TIMER_ALLOCATE \<noteq> 0)"

inductive api_step :: "'w timers \<Rightarrow> 'w timers \<Rightarrow> bool" where
  create: "cc_timer_create cfg s = Some (r, s') \<Longrightarrow> api_step s s'"
| start: "live s hndl \<Longrightarrow> cc_timer_start hndl t opt s = Some (rv, s') \<Longrightarrow> api_step s s'"
| stop: "live s hndl \<Longrightarrow> cc_timer_stop hndl s = Some (rv, s') \<Longrightarrow> api_step s s'"
| delete: "live s hndl \<Longrightarrow> cc_timer_delete hndl s = Some (rv, s') \<Longrightarrow> api_step s s'"

text \<open>The call-backs of the clients return, and use the module through its API only.\<close>

definition cb_safe :: "'w callback \<Rightarrow> bool" where
  "cb_safe cb \<longleftrightarrow> (\<forall>f a s. module_ok s \<longrightarrow> (\<exists>w s'. cb f a s = Some s' \<and> api_step\<^sup>*\<^sup>* (s\<lparr>tm_world := w\<rparr>) s'))"

inductive cc_step :: "'w timers \<Rightarrow> 'w timers \<Rightarrow> bool" where
  api: "api_step s s' \<Longrightarrow> cc_step s s'"
| isr: "cb_safe cb \<Longrightarrow> h < MAX_HWT_PLUG \<Longrightarrow> hw_ready s h \<Longrightarrow> timer_isr cb (Some h) s = Some s' \<Longrightarrow> cc_step s s'"
| register: "cc_timer_register_hwt_ops source hndl ops s = Some (rv, s') \<Longrightarrow> cc_step s s'"

inductive reachable :: "'w timers \<Rightarrow> bool" where
  init: "tm_free s = None \<Longrightarrow> cc_timer_module_init su s = Some (0, s') \<Longrightarrow> reachable s'"
| step: "reachable s \<Longrightarrow> cc_step s s' \<Longrightarrow> reachable s'"

inductive_cases api_stepE: "api_step s s'"
inductive_cases cc_stepE: "cc_step s s'"

section \<open>The steps preserve the invariant\<close>

lemma live_alloc:
  assumes "timers_inv s fs us p es F" "live s (Some i)"
  shows "i < MAX_SW_TIMER" "i \<notin> set fs" "\<exists>x. tm_swt s i = Some x"
proof -
  show 6: "i < MAX_SW_TIMER" using assms(2) by (simp add: live_def)
  have "fl s i \<noteq> 0" using assms(2) by (auto simp: live_def)
  then show "i \<notin> set fs" using assms(1) unfolding timers_inv_def by blast
  show "\<exists>x. tm_swt s i = Some x" using inv_module[OF assms(1)] 6 unfolding module_ok_def by blast
qed

lemma null_calls:
  assumes "module_ok s"
  shows "\<exists>w. cc_timer_stop None s = Some (- 1, s\<lparr>tm_world := w\<rparr>)" "\<exists>w. cc_timer_delete None s = Some (- 1, s\<lparr>tm_world := w\<rparr>)"
proof -
  obtain m w where m: "dsbl_irqc s = Some (m, s\<lparr>tm_world := w\<rparr>)" using irq_total(1)[OF assms] by blast
  obtain w2 where "enbl_irqc m (s\<lparr>tm_world := w\<rparr>) = Some (s\<lparr>tm_world := w2\<rparr>)" using irq_total(2)[of "s\<lparr>tm_world := w\<rparr>"] assms by auto
  then show "\<exists>w. cc_timer_stop None s = Some (- 1, s\<lparr>tm_world := w\<rparr>)" "\<exists>w. cc_timer_delete None s = Some (- 1, s\<lparr>tm_world := w\<rparr>)"
    using m by (auto simp: cc_timer_stop_def cc_timer_delete_def)
qed

text \<open>Every call with a live handle returns, and its result satisfies the invariant.\<close>

lemma api_total:
  assumes "timers_inv s fs us p es F" "in_hand s F"
  shows "\<exists>r s' fs'. cc_timer_create cfg s = Some (r, s') \<and> timers_inv s' fs' us p es F \<and> keeps F s s'"
    "live s hndl \<Longrightarrow> \<exists>rv s' us'. cc_timer_start hndl t opt s = Some (rv, s') \<and> timers_inv s' fs us' p es F \<and> keeps F s s'"
    "live s hndl \<Longrightarrow> \<exists>rv s' us'. cc_timer_stop hndl s = Some (rv, s') \<and> timers_inv s' fs us' p es F \<and> keeps F s s'"
    "live s hndl \<Longrightarrow> \<exists>rv s' fs'. cc_timer_delete hndl s = Some (rv, s') \<and> timers_inv s' fs' us p es F \<and> keeps F s s'"
proof -
  obtain r s' where c: "cc_timer_create cfg s = Some (r, s')" "keeps F s s'"
     "case r of None \<Rightarrow> timers_inv s' fs us p es F | Some i \<Rightarrow> fs = i # tl fs \<and> timers_inv s' (tl fs) us p es F"
    using cc_timer_create_inv[OF assms(1)] by blast
  then show "\<exists>r s' fs'. cc_timer_create cfg s = Some (r, s') \<and> timers_inv s' fs' us p es F \<and> keeps F s s'" by (cases r) auto
  show "\<exists>rv s' us'. cc_timer_start hndl t opt s = Some (rv, s') \<and> timers_inv s' fs us' p es F \<and> keeps F s s'" if "live s hndl"
  proof (cases hndl)
    case None
    then show ?thesis using assms(1) by (auto simp: cc_timer_start_def)
  next
    case (Some i)
    then show ?thesis using cc_timer_start_inv[OF assms] live_alloc[OF assms(1)] that by simp
  qed
  show "\<exists>rv s' us'. cc_timer_stop hndl s = Some (rv, s') \<and> timers_inv s' fs us' p es F \<and> keeps F s s'" if "live s hndl"
  proof (cases hndl)
    case None
    then show ?thesis using null_calls(1)[OF inv_module[OF assms(1)]] assms(1) by auto
  next
    case (Some i)
    then show ?thesis using cc_timer_stop_inv[OF assms live_alloc(1,2)[OF assms(1)]] that by blast
  qed
  show "\<exists>rv s' fs'. cc_timer_delete hndl s = Some (rv, s') \<and> timers_inv s' fs' us p es F \<and> keeps F s s'" if "live s hndl"
  proof (cases hndl)
    case None
    then show ?thesis using null_calls(2)[OF inv_module[OF assms(1)]] assms(1) by auto
  next
    case (Some i)
    have "live s (Some i)" using that Some by simp
    from live_alloc(3)[OF assms(1) this] obtain x where "tm_swt s i = Some x" by blast
    from cc_timer_delete_inv[OF assms this] show ?thesis using Some by blast
  qed
qed

lemma api_step_inv:
  assumes "api_step s s'" "timers_inv s fs us p es F" "in_hand s F"
  shows "\<exists>fs' us'. timers_inv s' fs' us' p es F \<and> keeps F s s'"
  using assms(1)
proof (cases rule: api_step.cases)
  case (create cfg r)
  then show ?thesis using api_total(1)[OF assms(2,3), of cfg] by auto
next
  case (start hndl t opt rv)
  then show ?thesis using api_total(2)[OF assms(2,3), of hndl t opt] by auto
next
  case (stop hndl rv)
  then show ?thesis using api_total(3)[OF assms(2,3), of hndl] by auto
next
  case (delete hndl rv)
  then show ?thesis using api_total(4)[OF assms(2,3), of hndl] by auto
qed

lemma api_steps_inv:
  assumes "api_step\<^sup>*\<^sup>* s s'" "timers_inv s fs us p es F" "in_hand s F"
  shows "\<exists>fs' us'. timers_inv s' fs' us' p es F \<and> keeps F s s'"
  using assms(1)
proof (induction rule: rtranclp_induct)
  case base
  then show ?case using assms(2) by auto
next
  case (step t u)
  then obtain gs vs where t: "timers_inv t gs vs p es F" "keeps F s t" by blast
  from api_step_inv[OF step.hyps(2) t(1) keeps_hand[OF t(2) assms(3)]] show ?case using keeps_trans[OF t(2)] by blast
qed

lemma hwt_has_abs_data: "\<forall>k. map_option hwt_data (tm_hwt s' k) = map_option hwt_data (tm_hwt s k) \<Longrightarrow> hwt_has_abs_time h s' = hwt_has_abs_time h s"
proof -
  assume a: "\<forall>k. map_option hwt_data (tm_hwt s' k) = map_option hwt_data (tm_hwt s k)"
  have "map_option hi_source (map_option hwt_data (tm_hwt s' h)) = map_option hi_source (map_option hwt_data (tm_hwt s h))" using a by simp
  then have "map_option hi_source (tm_hwt s' h) = map_option hi_source (tm_hwt s h)" by (simp add: option.map_comp o_def)
  then show ?thesis unfolding hwt_has_abs_time_def by (cases "tm_hwt s' h"; cases "tm_hwt s h") auto
qed

text \<open>What \<open>handle_expired_swt\<close> does with the timer \<open>x\<close> once its call-back has returned.\<close>

definition rearmed :: "'w timers \<Rightarrow> nat \<Rightarrow> nat \<Rightarrow> sw_timer \<Rightarrow> (nat \<Rightarrow> nat list) \<Rightarrow> 'w timers \<Rightarrow> (nat \<Rightarrow> nat list) \<Rightarrow> bool" where
  "rearmed s h x e us s' us' \<longleftrightarrow>
     (\<forall>i. i \<noteq> x \<longrightarrow> map_option swt_data (tm_swt s' i) = map_option swt_data (tm_swt s i) \<and> (i \<notin> set (us h) \<longrightarrow> fl s' i = fl s i)) \<and>
     (\<forall>k. map_option hwt_data (tm_hwt s' k) = map_option hwt_data (tm_hwt s k)) \<and>
     (if is_periodic e then us' = us(h := tmo_ins (tm_exp s') x (us h)) \<and>
        (\<exists>a. hwt_has_abs_time h s = Some a \<and> tm_exp s' x = u64_nat (calc_hwt_expiry a (st_hwt_expires e) (st_sw_interval e)))
      else us' = us \<and> tm_exp s' x = tm_exp s x)"

lemma rearm_inv:
  assumes "timers_inv s fs us p es {x}" "tm_swt s x = Some e" "running s h x" "\<not> bit (fl s x) 1"
  shows "\<exists>s' us'. rearm_swt x s = Some s' \<and> timers_inv s' fs us' p es {} \<and> hw_ready s' = hw_ready s \<and> rearmed s h x e us s' us'"
proof -
  have h: "h < MAX_HWT_PLUG" "hw_ready s h" "only_bits (fl s x)" "st_hwt_obj e = Some h" using assms(2,3) by (auto simp: running_def tm_obj_def)
  have x6: "x < MAX_SW_TIMER" using inv_module[OF assms(1)] assms(2) unfolding module_ok_def by blast
  show ?thesis
  proof (cases "is_periodic e")
    case True
    obtain m w where m: "dsbl_irqc s = Some (m, s\<lparr>tm_world := w\<rparr>)" using irq_total(1)[OF inv_module[OF assms(1)]] by blast
    let ?s1 = "s\<lparr>tm_world := w\<rparr>"
    obtain a where a: "hwt_has_abs_time h ?s1 = Some a" using hwt_calls(7)[of ?s1 h] h(2) by auto
    obtain s2 where s2: "setup_timer_exec x (Some (st_hwt_expires e)) False ?s1 = Some (0, s2)" "queued ?s1 h x (us h) s2"
      "timers_inv s2 fs (us(h := tmo_ins (tm_exp s2) x (us h))) p es {}"
      "tm_exp s2 x = u64_nat (calc_hwt_expiry a (st_hwt_expires e) (st_sw_interval e))"
      using setup_spec[of ?s1 fs us p es "{x}" x h e a "Some (st_hwt_expires e)" False] assms(1,2,4) h a by auto
    obtain w2 where w2: "enbl_irqc m s2 = Some (s2\<lparr>tm_world := w2\<rparr>)" using irq_total(2)[OF inv_module[OF s2(3)]] by blast
    have "rearm_swt x s = Some (s2\<lparr>tm_world := w2\<rparr>)" using assms(2) True m s2(1) w2 by (simp add: rearm_swt_def)
    moreover have "hwt_has_abs_time h s = Some a" using a by (simp add: hwt_has_abs_time_def)
    then have "rearmed s h x e us (s2\<lparr>tm_world := w2\<rparr>) (us(h := tmo_ins (tm_exp s2) x (us h)))"
      using True s2(2,4) by (simp add: rearmed_def queued_def)
    moreover have "timers_inv (s2\<lparr>tm_world := w2\<rparr>) fs (us(h := tmo_ins (tm_exp s2) x (us h))) p es {}" "hw_ready (s2\<lparr>tm_world := w2\<rparr>) = hw_ready s"
      using s2(2,3) by (simp_all add: queued_def)
    ultimately show ?thesis by blast
  next
    case False
    let ?s1 = "swt_put x (set_activate False e) s"
    have "timers_inv ?s1 fs us p es {x}" by (rule inv_put[OF assms(1) _ x6]) simp
    moreover have "idle ?s1 x"
    proof -
      have b: "bit (fl ?s1 x) n \<longleftrightarrow> bit (fl s x) n \<and> n \<noteq> 3" for n using assms(2) by (auto simp: fl_def)
      have "only_bits (fl ?s1 x)" using h(3) only_bits_cong[of "fl ?s1 x" "fl s x"] b by (simp del: put_views)
      moreover have "tm_obj ?s1 x = Some h" using h(4) by (simp add: set_activate_def set_tflag_def)
      ultimately show ?thesis using b[of 1] b[of 3] h(1,2) assms(4) unfolding idle_def hw_ready_world by blast
    qed
    ultimately have "timers_inv ?s1 fs us p es {}" by (rule inv_drop)
    moreover have "rearm_swt x s = Some ?s1" using assms(2) False upd_Some[OF assms(2)] by (simp add: rearm_swt_def)
    moreover have "st_hwt_expires (set_activate False e) = st_hwt_expires e" by (simp add: set_activate_def set_tflag_def)
    then have "rearmed s h x e us ?s1 us" using False assms(2) by (simp add: rearmed_def tm_exp_def)
    ultimately show ?thesis using hw_ready_world(3)[of x "set_activate False e" s] by blast
  qed
qed

text \<open>The first half: the timer leaves the chain of expired ones and its call-back runs.\<close>

lemma expired_head:
  assumes "timers_inv s fs us p (x # es) {}" "tm_swt s x = Some e"
  shows "\<exists>h s1. swt_upd (set_scheduled False) x s = Some s1 \<and> timers_inv s1 fs us (st_next e) es {x} \<and> s1 = swt_put x (set_scheduled False e) s \<and>
     running s1 h x \<and> running s h x \<and> \<not> bit (fl s1 x) 1"
proof -
  note v = assms(1)[unfolded timers_inv_def]
  have ch: "chain (tnext s) p (x # es)" using v unfolding lists_ok_def by blast
  have c2: "p = Some x" "chain (tnext s) (st_next e) es" "x \<notin> set es"
    using ch chain_distinct[OF ch] assms(2) by (auto simp: tnext_Some)
  obtain h where rx: "running s h x" using v by auto
  have x6: "x < MAX_SW_TIMER" using inv_module[OF assms(1)] assms(2) unfolding module_ok_def by blast
  have "lists_ok s fs us p (x # es) {}" using v by blast
  then have "lists_ok s fs us (st_next e) es {x}" using c2 unfolding lists_ok_def by auto
  then have i0: "timers_inv s fs us (st_next e) es {x}" using v unfolding timers_inv_def by auto
  define s1 where "s1 = swt_put x (set_scheduled False e) s"
  have i1: "timers_inv s1 fs us (st_next e) es {x}" unfolding s1_def by (rule inv_put[OF i0 _ x6]) simp
  have f1: "bit (fl s1 x) n \<longleftrightarrow> bit (fl s x) n \<and> n \<noteq> 1" for n using assms(2) by (auto simp: s1_def fl_def)
  have v1: "tm_obj s1 = tm_obj s" "hw_ready s1 = hw_ready s"
    using put_same(3)[OF assms(2), of "set_scheduled False e"] by (simp_all add: s1_def)
  have "only_bits (fl s1 x)" using rx f1 only_bits_cong[of "fl s1 x" "fl s x"] by (simp add: running_def)
  then have r1: "running s1 h x" using rx v1 f1[of 3] by (simp add: running_def)
  then show ?thesis using i1 f1[of 1] rx upd_Some[OF assms(2)] s1_def by blast
qed

lemma handle_expired_inv:
  assumes "timers_inv s fs us p (x # es) {}" "tm_swt s x = Some e" "cb_safe cb"
  shows "\<exists>s' fs' us'. handle_expired_swt cb x s = Some s' \<and> timers_inv s' fs' us' (st_next e) es {} \<and> hw_ready s' = hw_ready s"
proof -
  obtain h s1 where s1: "swt_upd (set_scheduled False) x s = Some s1" "timers_inv s1 fs us (st_next e) es {x}" "s1 = swt_put x (set_scheduled False e) s"
     "running s1 h x" "\<not> bit (fl s1 x) 1"
    using expired_head[OF assms(1,2)] by blast
  have e1: "tm_swt s1 x = Some (set_scheduled False e)" "hw_ready s1 = hw_ready s" by (simp_all add: s1(3))
  obtain s2 fs2 us2 where s2: "(case st_timeout_cb (set_scheduled False e) of None \<Rightarrow> Some s1 | Some f \<Rightarrow> cb f (st_cb_param (set_scheduled False e)) s1) = Some s2"
     "timers_inv s2 fs2 us2 (st_next e) es {x}" "keeps {x} s1 s2"
  proof (cases "st_timeout_cb (set_scheduled False e)")
    case None
    then show ?thesis using that[of s1 fs us] s1(2) by simp
  next
    case (Some f)
    obtain w s2 where c: "cb f (st_cb_param (set_scheduled False e)) s1 = Some s2" "api_step\<^sup>*\<^sup>* (s1\<lparr>tm_world := w\<rparr>) s2"
      using assms(3) inv_module[OF s1(2)] unfolding cb_safe_def by blast
    have "in_hand (s1\<lparr>tm_world := w\<rparr>) {x}" using s1(4) by (auto simp: in_hand_def running_def)
    from api_steps_inv[OF c(2) _ this] s1(2) obtain fs2 us2 where "timers_inv s2 fs2 us2 (st_next e) es {x}" "keeps {x} s1 s2" by force
    then show ?thesis using that c(1) Some by simp
  qed
  have k: "running s2 h x" "\<not> bit (fl s2 x) 1" "hw_ready s2 = hw_ready s" using s2(3) s1(4,5) e1(2) by (auto simp: keeps_def running_def)
  have "x < MAX_SW_TIMER" using inv_module[OF assms(1)] assms(2) unfolding module_ok_def by blast
  then obtain e2 where e2: "tm_swt s2 x = Some e2" using inv_module[OF s2(2)] unfolding module_ok_def by blast
  from rearm_inv[OF s2(2) e2 k(1,2)] obtain s' us' where "rearm_swt x s2 = Some s'" "timers_inv s' fs2 us' (st_next e) es {}" "hw_ready s' = hw_ready s2" by blast
  then show ?thesis using s1(1) e1(1) s2(1) k(3) by (auto simp: handle_expired_swt_def)
qed

lemma expired_loop_inv:
  assumes "timers_inv s fs us p es {}" "cb_safe cb"
  shows "\<exists>s' fs' us'. expired_loop cb p s = Some s' \<and> timers_inv s' fs' us' None [] {} \<and> hw_ready s' = hw_ready s"
  using assms(1)
proof (induction es arbitrary: s fs us p)
  case Nil
  then have "p = None" unfolding timers_inv_def lists_ok_def by simp
  then show ?case using Nil by (auto simp: expired_loop.simps)
next
  case (Cons x es)
  have ch: "chain (tnext s) p (x # es)" using Cons.prems unfolding timers_inv_def lists_ok_def by blast
  then obtain e where e: "p = Some x" "tm_swt s x = Some e" by (auto simp: tnext_Some)
  obtain s1 fs1 us1 where s1: "handle_expired_swt cb x s = Some s1" "timers_inv s1 fs1 us1 (st_next e) es {}" "hw_ready s1 = hw_ready s"
    using handle_expired_inv[OF Cons.prems e(2) assms(2)] by blast
  have "expired_loop cb p s = expired_loop cb (st_next e) s1" using e s1(1) by (subst expired_loop.simps) simp
  then show ?case using Cons.IH[OF s1(2)] s1(3) by simp
qed

lemma isolate_inv:
  assumes "timers_inv s fs us None [] {}" "h < MAX_HWT_PLUG" "hw_ready s h"
  shows "\<exists>p es us' s'. isolate_expired_swt_list h s = Some (p, s') \<and> timers_inv s' fs us' p es {} \<and> hw_ready s' = hw_ready s"
proof -
  obtain rv c w where g: "hwt_get_current h s = Some (rv, c, s\<lparr>tm_world := w\<rparr>)" using hwt_calls(5)[OF assms(3)] by blast
  show ?thesis
  proof (cases "rv = 0")
    case False
    then have "isolate_expired_swt_list h s = Some (None, s\<lparr>tm_world := w\<rparr>)" using g by (simp add: isolate_expired_swt_list_def)
    then show ?thesis using assms(1) by auto
  next
    case True
    obtain p' s' where i: "isolate_loop h c None None (s\<lparr>tm_world := w\<rparr>) = Some (p', s')" "same_data (s\<lparr>tm_world := w\<rparr>) s'"
      "timers_inv s' fs (us(h := dropWhile (\<lambda>i. tm_exp s i \<le> u64_nat c) (us h))) p' (takeWhile (\<lambda>i. tm_exp s i \<le> u64_nat c) (us h)) {}"
      using isolate_loop_spec[of "s\<lparr>tm_world := w\<rparr>" fs us None "[]" "{}" h None c] assms by auto
    have "isolate_expired_swt_list h s = Some (p', s')" using g True i(1) by (simp add: isolate_expired_swt_list_def)
    then show ?thesis using i(3) data_views(3)[OF i(2)] by auto
  qed
qed

lemma timer_isr_inv:
  assumes "timers_inv s fs us None [] {}" "h < MAX_HWT_PLUG" "hw_ready s h" "cb_safe cb"
  shows "\<exists>s' fs' us'. timer_isr cb (Some h) s = Some s' \<and> timers_inv s' fs' us' None [] {}"
proof -
  obtain m w where m: "dsbl_irqc s = Some (m, s\<lparr>tm_world := w\<rparr>)" using irq_total(1)[OF inv_module[OF assms(1)]] by blast
  obtain p es us1 s1 where s1: "isolate_expired_swt_list h (s\<lparr>tm_world := w\<rparr>) = Some (p, s1)" "timers_inv s1 fs us1 p es {}" "hw_ready s1 = hw_ready s"
    using isolate_inv[of "s\<lparr>tm_world := w\<rparr>" fs us h] assms(1-3) by auto
  obtain w1 where w1: "enbl_irqc m s1 = Some (s1\<lparr>tm_world := w1\<rparr>)" using irq_total(2)[OF inv_module[OF s1(2)]] by blast
  obtain s2 fs2 us2 where s2: "expired_loop cb p (s1\<lparr>tm_world := w1\<rparr>) = Some s2" "timers_inv s2 fs2 us2 None [] {}" "hw_ready s2 = hw_ready s"
    using expired_loop_inv[of "s1\<lparr>tm_world := w1\<rparr>" fs us1 p es cb] s1(2,3) assms(4) by auto
  obtain m2 w2 where m2: "dsbl_irqc s2 = Some (m2, s2\<lparr>tm_world := w2\<rparr>)" using irq_total(1)[OF inv_module[OF s2(2)]] by blast
  have r: "hw_ready (s2\<lparr>tm_world := w2\<rparr>) h" using assms(3) s2(3) by simp
  then obtain hw where hw: "tm_hwt s2 h = Some hw" by (auto simp: hw_ready_def)
  obtain rv w3 where w3: "hwt_stop h (s2\<lparr>tm_world := w2\<rparr>) = Some (rv, s2\<lparr>tm_world := w3\<rparr>)" using hwt_calls(3)[OF r] by auto
  let ?w = "if hi_used_list hw = None then w3 else w2"
  obtain w4 where w4: "enbl_irqc m2 (s2\<lparr>tm_world := ?w\<rparr>) = Some (s2\<lparr>tm_world := w4\<rparr>)"
    using irq_total(2)[of "s2\<lparr>tm_world := ?w\<rparr>"] inv_module[OF s2(2)] by auto
  have "timer_isr cb (Some h) s = Some (s2\<lparr>tm_world := w4\<rparr>)"
    using m s1(1) w1 s2(1) m2 hw w3 w4 by (cases "hi_used_list hw") (simp_all add: timer_isr_def)
  then show ?thesis using s2(2) by auto
qed

lemma push_timers_inv:
  assumes "\<forall>i. tm_swt s i = (if i < n then Some (z i) else None)" "chain (tnext s) (tm_free s) fs" "distinct (rev is @ fs)" "set is \<subseteq> {..<n}"
    "set fs \<subseteq> {..<n}"
  shows "\<exists>s' y. push_timers is s = Some s' \<and> chain (tnext s') (tm_free s') (rev is @ fs) \<and>
     (\<forall>i. tm_swt s' i = (if i < n then Some ((z i)\<lparr>st_next := y i\<rparr>) else None)) \<and> tm_hwt s' = tm_hwt s \<and> tm_enbl_irqc s' = tm_enbl_irqc s \<and>
     tm_dsbl_irqc s' = tm_dsbl_irqc s"
  using assms
proof (induction "is" arbitrary: s z fs)
  case Nil
  have "\<forall>i. tm_swt s i = (if i < n then Some ((z i)\<lparr>st_next := st_next (z i)\<rparr>) else None)" using Nil.prems(1) by simp
  then show ?case using Nil by (intro exI[of _ s] exI[of _ "\<lambda>i. st_next (z i)"]) simp
next
  case (Cons i is')
  have i: "i < n" "i \<notin> set fs" "i \<notin> set is'" using Cons.prems(3,4) by auto
  let ?x = "(z i)\<lparr>st_next := tm_free s\<rparr>"
  let ?s = "(swt_put i ?x s)\<lparr>tm_free := Some i\<rparr>"
  have u: "swt_upd (st_next_update (\<lambda>_. tm_free s)) i s = Some (swt_put i ?x s)" using Cons.prems(1) i(1) by (simp add: swt_upd_def)
  have 1: "\<forall>j. tm_swt ?s j = (if j < n then Some ((z(i := ?x)) j) else None)" using Cons.prems(1) i(1) by (auto simp: swt_put_def)
  have 2: "chain (tnext ?s) (tm_free ?s) (i # fs)" using Cons.prems(2) i by simp
  obtain s' y where r: "push_timers is' ?s = Some s'" "chain (tnext s') (tm_free s') (rev is' @ i # fs)"
     "\<forall>j. tm_swt s' j = (if j < n then Some (((z(i := ?x)) j)\<lparr>st_next := y j\<rparr>) else None)" "tm_hwt s' = tm_hwt ?s"
     "tm_enbl_irqc s' = tm_enbl_irqc ?s" "tm_dsbl_irqc s' = tm_dsbl_irqc ?s"
    using Cons.IH[OF 1 2] Cons.prems(3-5) i by (auto simp del: seg_append)
  have "\<forall>j. tm_swt s' j = (if j < n then Some ((z j)\<lparr>st_next := y j\<rparr>) else None)" using r(3) by simp
  then show ?case using r(1,2,4-6) u by (intro exI[of _ s'] exI[of _ y]) (simp add: swt_put_def)
qed

lemma init_inv:
  assumes "tm_free s = None" "cc_timer_module_init su s = Some (0, s')"
  shows "timers_inv s' (rev [0..<MAX_SW_TIMER]) (\<lambda>_. []) None [] {}"
proof -
  have irq: "su_enbl_irqc su \<noteq> None" "su_dsbl_irqc su \<noteq> None" using assms(2) by (auto simp: cc_timer_module_init_def split: if_splits)
  let ?s0 = "s\<lparr>tm_enbl_irqc := su_enbl_irqc su, tm_dsbl_irqc := su_dsbl_irqc su, tm_swt := (\<lambda>i. if i < MAX_SW_TIMER then Some zero_timer else None)\<rparr>"
  have c0: "chain (tnext ?s0) (tm_free ?s0) []" using assms(1) by simp
  obtain s1 y where s1: "push_timers [0..<MAX_SW_TIMER] ?s0 = Some s1" "chain (tnext s1) (tm_free s1) (rev [0..<MAX_SW_TIMER])"
     "\<forall>i. tm_swt s1 i = (if i < MAX_SW_TIMER then Some (zero_timer\<lparr>st_next := y i\<rparr>) else None)"
     "tm_enbl_irqc s1 = su_enbl_irqc su" "tm_dsbl_irqc s1 = su_dsbl_irqc su"
    using push_timers_inv[of ?s0 MAX_SW_TIMER "\<lambda>_. zero_timer" "[]" "[0..<MAX_SW_TIMER]"] c0 by (auto simp: lessThan_atLeast0)
  have "s' = snd (hw_timers_init s1)"
    using assms(2) irq s1(1) by (simp add: cc_timer_module_init_def sw_timers_init_def hw_timers_init_def Let_def MAX_HWT_PLUG_def split: if_splits)
  then have s': "s' = s1\<lparr>tm_hwt := (\<lambda>i. if i < MAX_HWT_PLUG
                 then Some \<lparr>hi_ops = None, hi_hndl = None, hi_used_list = None, hi_64bits = False, hi_source = of_nat i\<rparr> else None)\<rparr>"
    by (simp add: hw_timers_init_def MAX_HWT_PLUG_def Let_def)
  have v: "tnext s' = tnext s1" "tm_free s' = tm_free s1" "tm_swt s' = tm_swt s1" "fl s' = (\<lambda>_. 0)"
    using s1(3) by (auto simp: s' tnext_def fl_def fun_eq_iff zero_timer_def)
  have "module_ok s'" using s1(3-5) irq by (auto simp: module_ok_def s')
  moreover have "lists_ok s' (rev [0..<MAX_SW_TIMER]) (\<lambda>_. []) None [] {}"
    using s1(2) v by (auto simp: lists_ok_def used_ptr_def s')
  ultimately show ?thesis using v(4) by (auto simp: timers_inv_def)
qed

lemma register_inv:
  assumes "timers_inv s fs us p es F" "cc_timer_register_hwt_ops source hndl ops s = Some (rv, s')"
  shows "timers_inv s' fs us p es F"
proof -
  consider "s' = s\<lparr>tm_world := tm_world s'\<rparr>" |
    (reg) h hw where "get_hwt source = Some h" "tm_hwt s h = Some hw" "hi_ops hw = None" "has_ops_common ops" "has_ops64 ops \<or> has_ops32 ops"
      "s' = s\<lparr>tm_world := tm_world s', tm_hwt := (tm_hwt s)(h \<mapsto> hw\<lparr>hi_ops := Some ops, hi_hndl := hndl, hi_64bits := has_ops64 ops\<rparr>)\<rparr>"
    using assms(2) by (auto simp: cc_timer_register_hwt_ops_def Let_def split: if_splits option.splits prod.splits Option.bind_splits)
  then show ?thesis
  proof cases
    case 1
    then show ?thesis using assms(1) inv_world by metis
  next
    case (reg h hw)
    note a = reg(2-5) and s' = reg(6)
    have h: "h < MAX_HWT_PLUG" using reg(1) by (auto simp: get_hwt_def MAX_HWT_PLUG_def split: if_splits)
    have v: "tnext s' = tnext s" "tm_free s' = tm_free s" "fl s' = fl s" "tm_exp s' = tm_exp s" "tm_obj s' = tm_obj s" "used_ptr s' = used_ptr s"
      by (subst s', use a(1) in \<open>auto simp: tnext_def fl_def tm_exp_def tm_obj_def used_ptr_def fun_eq_iff\<close>)+
    have r: "hw_ready s k \<Longrightarrow> hw_ready s' k" for k by (subst s') (use a(1,2) in \<open>auto simp: hw_ready_def\<close>)
    have rh: "hw_ready s' h" by (subst s') (use a(3,4) in \<open>auto simp: hw_ready_def\<close>)
    have d: "tm_swt s' = tm_swt s" "tm_enbl_irqc s' = tm_enbl_irqc s" "tm_dsbl_irqc s' = tm_dsbl_irqc s" "\<And>k. k \<noteq> h \<Longrightarrow> tm_hwt s' k = tm_hwt s k"
      "tm_hwt s' h \<noteq> None" by (subst s', simp)+
    have "hw_ready s' k" if "tm_hwt s' k = Some x" "hi_ops x \<noteq> None" for k x
    proof (cases "k = h")
      case False
      then have "tm_hwt s k = Some x" using d(4) that(1) by metis
      then show ?thesis using inv_module[OF assms(1)] that(2) r unfolding module_ok_def by blast
    qed (use rh in simp)
    then have "module_ok s'" using inv_module[OF assms(1)] h d a(1) unfolding module_ok_def by (metis option.distinct(1))
    moreover have "lists_ok s' fs us p es F" using assms(1) v by (simp add: timers_inv_def lists_ok_def)
    moreover have i: "running s k i \<Longrightarrow> running s' k i" "idle s i \<Longrightarrow> idle s' i" for k i using v r by (auto simp: running_def idle_def)
    have "\<forall>i \<in> set es. \<exists>k. running s k i" using assms(1) unfolding timers_inv_def by blast
    then have "\<forall>i \<in> set es. \<exists>k. running s' k i" using i(1) by blast
    ultimately show ?thesis using assms(1) v i unfolding timers_inv_def by simp
  qed
qed

lemma reachable_inv: "reachable s \<Longrightarrow> \<exists>fs us. timers_inv s fs us None [] {}"
proof (induction rule: reachable.induct)
  case (init s su s')
  then show ?case using init_inv by blast
next
  case (step s s')
  then obtain fs us where i: "timers_inv s fs us None [] {}" by blast
  from step.hyps(2) show ?case
  proof (cases rule: cc_step.cases)
    case api
    then show ?thesis using api_step_inv[OF _ i] by (auto simp: in_hand_def)
  next
    case (isr cb h)
    then show ?thesis using timer_isr_inv[OF i] by fastforce
  next
    case (register source hndl ops rv)
    then show ?thesis using register_inv[OF i] by blast
  qed
qed

end
