(* ===== verification/TimerProps.thy ===== *)
theory TimerProps
  imports TimerIsr
begin

text \<open>
  The properties of the timer module and of the 64-bit arithmetic it rests on, for the
  states reachable by its initialisation, the registration of hardware timers, API calls
  and interrupts; with a small hardware timer as the instance of the parameters.
\<close>

section \<open>Arithmetic\<close>

text \<open>
  C38: the operations on pairs of 32-bit words are the operations of 64-bit arithmetic:
  addition of two counts is addition modulo \<open>2 ^ 64\<close>, comparison is the order of the numbers,
  and for normalised times (nanoseconds below a second) addition is addition of the
  durations modulo \<open>2 ^ 32\<close> seconds and subtraction of a duration that is not longer is exact.
\<close>

theorem util64_arithmetic:
  "u64_nat (util_u64_data_add a b) = (u64_nat a + u64_nat b) mod 2 ^ 64 \<and>
   util_u64_data_cmp a b = (if u64_nat a = u64_nat b then 0 else if u64_nat b < u64_nat a then 1 else - 1) \<and>
   (time_ok x \<and> time_ok y \<longrightarrow> time_ok (util_u64_time_add x y) \<and>
     time_nat (util_u64_time_add x y) = (time_nat x + time_nat y) mod (2 ^ 32 * GIGA) \<and>
     (time_nat y \<le> time_nat x \<longrightarrow> time_ok (util_u64_time_sub x y) \<and> time_nat (util_u64_time_sub x y) = time_nat x - time_nat y))"
  using u64_add_nat u64_cmp_nat time_add_nat time_sub_nat by blast

theorem util64_arithmetic_witness:
  "time_nat (util_u64_time_add \<lparr>secs = 3, nsec = 700000000\<rparr> \<lparr>secs = 1, nsec = 400000000\<rparr>) = 5100000000"
proof -
  have "time_ok \<lparr>secs = 3, nsec = 700000000\<rparr>" "time_ok \<lparr>secs = 1, nsec = 400000000\<rparr>" by (simp_all add: time_ok_def)
  then show ?thesis
    using util64_arithmetic[of _ _ "\<lparr>secs = 3, nsec = 700000000\<rparr>" "\<lparr>secs = 1, nsec = 400000000\<rparr>"] by (simp add: time_nat_def)
qed

lemma ticks_nat: "(m * GIGA + n) * f div GIGA = m * f + n * f div GIGA" for f :: nat
proof -
  have "(m * GIGA + n) * f = n * f + m * f * GIGA" by (simp add: algebra_simps)
  then show ?thesis by (simp only: div_mult_self1)
qed

lemma low_word: "unat (ucast (w AND 0xFFFFFFFF) :: u32) = unat w mod 2 ^ 32" for w :: "64 word"
proof -
  have "(0xFFFFFFFF :: 64 word) = mask 32" by (simp add: mask_eq_exp_minus_1)
  then have "w AND 0xFFFFFFFF = take_bit 32 w" by (simp only: take_bit_eq_mask)
  then have "unat (w AND 0xFFFFFFFF) = take_bit 32 (unat w)" by (simp only: unsigned_take_bit_eq)
  then have "unat (w AND 0xFFFFFFFF) = unat w mod 2 ^ 32" by (simp only: take_bit_eq_mod)
  then show ?thesis by (simp add: unsigned_ucast_eq take_bit_eq_mod)
qed

lemma high_word: "unat (ucast (drop_bit 32 w AND 0xFFFFFFFF) :: u32) = unat w div 2 ^ 32" for w :: "64 word"
proof -
  have "unat w < 2 ^ 64" using unsigned_less[of w, where 'a = nat] by simp
  then have "unat w div 2 ^ 32 < 2 ^ 32" by (simp add: less_mult_imp_div_less)
  then show ?thesis unfolding low_word unat_drop_bit by simp
qed

lemma unat_u64_of_u32: "unat (ucast x :: 64 word) = unat x" for x :: u32
  by (simp add: unat_ucast_up_simp)

text \<open>
  C37: the conversion of a time into timer ticks does not overflow in its 64-bit
  intermediate values: on a 64-bit timer the interval is exactly the time in ticks, rounded
  down; on a 32-bit timer it is so when it fits into 32 bits, and the call fails otherwise.
\<close>

theorem ticks_interval_exact:
  assumes "hwt_get_frequency h s = Some (f, s')" "hwt_is_64bits h s' = Some b" "time_ok t"
  shows "\<exists>rv iv. calc_ticks_interval h t iv0 s = Some (rv, iv, s') \<and>
     (if b \<or> time_nat t * unat f div GIGA < 2 ^ 32 then rv = 0 \<and> u64_nat iv = time_nat t * unat f div GIGA else rv = - 1)"
proof -
  let ?n = "unat (nsec t)" and ?s = "unat (secs t)" and ?f = "unat f"
  have n: "?n < GIGA" using assms(3) by (simp add: time_ok_nat)
  have lt: "?s < 2 ^ 32" "?f < 2 ^ 32" by (rule u32_lt)+
  have nf: "?n * ?f < GIGA * 2 ^ 32" using n lt(2) by (intro mult_strict_mono) auto
  have q: "?n * ?f div GIGA < 2 ^ 32" using nf by (simp add: less_mult_imp_div_less mult.commute)
  have sf: "?s * ?f \<le> (2 ^ 32 - 1) * (2 ^ 32 - 1)" using lt by (intro mult_mono) auto
  have p: "unat (ucast (nsec t) * ucast f :: 64 word) = ?n * ?f" using nf by (simp add: unat_word_ariths unat_u64_of_u32)
  have a: "unat (ucast (secs t) * ucast f :: 64 word) = ?s * ?f" using sf by (simp add: unat_word_ariths unat_u64_of_u32)
  define lo where "lo = (ucast (ucast (nsec t) * ucast f div ucast NSEC_VAL_FOR_1SEC :: 64 word) :: u32)"
  have lo: "unat lo = ?n * ?f div GIGA" using q by (simp add: lo_def unsigned_ucast_eq take_bit_eq_mod unat_div p)
  define w where "w = (ucast (secs t) * ucast f + ucast lo :: 64 word)"
  have w: "unat w = time_nat t * ?f div GIGA"
    using sf q lo by (simp add: w_def unat_word_ariths(1) a unat_u64_of_u32 time_nat_def ticks_nat)
  have le: "\<not> NSEC_VAL_FOR_1SEC - 1 < nsec t" using n by (simp add: word_less_nat_alt)
  let ?iv = "iv0\<lparr>lo_32 := lo\<rparr>" and ?ad = "ucast (secs t) * ucast f :: 64 word"
  have run: "calc_ticks_interval h t iv0 s = (let (rv, iv) = (if b then calc_ticks_interval_u64 ?ad ?iv else calc_ticks_interval_u32 ?ad ?iv) in Some (rv, iv, s'))"
    using assms(1,2) le by (simp add: calc_ticks_interval_def Let_def lo_def)
  have split: "u64_nat \<lparr>hi_32 = ucast (drop_bit 32 w AND 0xFFFFFFFF), lo_32 = ucast (w AND 0xFFFFFFFF)\<rparr> = unat w"
    by (simp only: u64_nat_def u64_val.select_convs high_word) (simp only: low_word div_mult_mod_eq)
  have gt: "(0xFFFFFFFF :: 64 word) < w \<longleftrightarrow> \<not> unat w < 2 ^ 32" by (auto simp: word_less_nat_alt)
  show ?thesis
  proof (cases b)
    case True
    then show ?thesis using run split w by (simp add: calc_ticks_interval_u64_def w_def[symmetric])
  next
    case False
    show ?thesis
    proof (cases "unat w < 2 ^ 32")
      case True
      have "u64_nat \<lparr>hi_32 = 0, lo_32 = ucast (w AND 0xFFFFFFFF)\<rparr> = unat w" using True low_word[of w] by (simp add: u64_nat_def)
      then show ?thesis using run w False True gt by (simp add: calc_ticks_interval_u32_def w_def[symmetric])
    next
      case big: False
      then show ?thesis using run w False gt by (simp add: calc_ticks_interval_u32_def w_def[symmetric])
    qed
  qed
qed

section \<open>Reachable states\<close>

text \<open>
  C7: in every reachable state the free list and the lists of the two hardware timers are
  finite, free of repetitions and disjoint; a timer is free exactly when it is not allocated;
  every list is sorted by expiry and holds started timers of its own hardware timer only;
  only the first timer of a list can be the one programmed into the hardware; and every
  other timer is allocated and not started.
\<close>

theorem reachable_timers_inv:
  assumes "reachable s"
  shows "\<exists>fs us. chain (tnext s) (tm_free s) fs \<and> distinct (fs @ us 0 @ us 1) \<and>
     (\<forall>i < MAX_SW_TIMER. i \<in> set fs \<longleftrightarrow> \<not> bit (fl s i) 2) \<and>
     (\<forall>h < MAX_HWT_PLUG. chain (tnext s) (used_ptr s h) (us h) \<and> sorted (map (tm_exp s) (us h)) \<and>
        (\<forall>i \<in> set (us h). i < MAX_SW_TIMER \<and> tm_obj s i = Some h \<and> hw_ready s h \<and> bit (fl s i) 3) \<and> (\<forall>i \<in> set (tl (us h)). \<not> bit (fl s i) 1)) \<and>
     (\<forall>i < MAX_SW_TIMER. i \<notin> set (fs @ us 0 @ us 1) \<longrightarrow> \<not> bit (fl s i) 1 \<and> \<not> bit (fl s i) 3)"
proof -
  obtain fs us where i: "timers_inv s fs us None [] {}" using reachable_inv[OF assms] by blast
  note v = i[unfolded timers_inv_def]
  have h01: "(0 :: nat) < MAX_HWT_PLUG" "1 < MAX_HWT_PLUG" "\<And>h. h < MAX_HWT_PLUG \<Longrightarrow> h = 0 \<or> h = 1" by (auto simp: MAX_HWT_PLUG_def)
  have cf: "chain (tnext s) (tm_free s) fs" using v unfolding lists_ok_def by blast
  have dj: "set (us 0) \<inter> set (us 1) = {}" "set fs \<inter> set (us 0) = {}" "set fs \<inter> set (us 1) = {}" using v h01(1,2) unfolding lists_ok_def by blast+
  have d: "distinct (fs @ us 0 @ us 1)"
    using chain_distinct[OF cf] chain_distinct[OF inv_chain[OF i h01(1)]] chain_distinct[OF inv_chain[OF i h01(2)]] dj by auto
  have all: "i \<in> set fs \<union> set [] \<union> {} \<union> (\<Union>h < MAX_HWT_PLUG. set (us h)) \<longleftrightarrow> i \<in> set (fs @ us 0 @ us 1)" for i using h01 by auto
  have idle: "idle s i" if "i < MAX_SW_TIMER" "i \<notin> set (fs @ us 0 @ us 1)" for i using v that all[of i] by blast
  have run: "running s h i" if "h < MAX_HWT_PLUG" "i \<in> set (us h)" for h i using v that by blast
  have fb: "i \<in> set fs \<longleftrightarrow> \<not> bit (fl s i) 2" if "i < MAX_SW_TIMER" for i
  proof
    show "\<not> bit (fl s i) 2" if "i \<in> set fs" using v that by auto
    show "i \<in> set fs" if "\<not> bit (fl s i) 2"
    proof (rule ccontr)
      assume "i \<notin> set fs"
      then have "idle s i \<or> (\<exists>h. running s h i)" using idle[OF \<open>i < MAX_SW_TIMER\<close>] run[OF h01(1)] run[OF h01(2)] by auto
      then show False using that by (auto simp: idle_def running_def only_bits_def)
    qed
  qed
  have lt: "i < MAX_SW_TIMER" if "h < MAX_HWT_PLUG" "i \<in> set (us h)" for h i
    using tchain_alloc[OF inv_chain[OF i that(1)] that(2)] inv_module[OF i] unfolding module_ok_def by blast
  have u: "chain (tnext s) (used_ptr s h) (us h) \<and> sorted (map (tm_exp s) (us h)) \<and>
      (\<forall>i \<in> set (us h). i < MAX_SW_TIMER \<and> tm_obj s i = Some h \<and> hw_ready s h \<and> bit (fl s i) 3) \<and> (\<forall>i \<in> set (tl (us h)). \<not> bit (fl s i) 1)"
    if "h < MAX_HWT_PLUG" for h
    using inv_chain[OF i that] v run[OF that] lt[OF that] that unfolding running_def by blast
  show ?thesis
    by (rule exI[of _ fs], rule exI[of _ us]) (use cf d fb u idle in \<open>simp add: idle_def\<close>)
qed

text \<open>
  C22: no call of the API with a live handle accesses memory outside the pools or goes into
  a loop, in any reachable state; neither does the interrupt routine of a registered
  hardware timer, whatever call-backs it runs, as long as these return and use the API.
\<close>

theorem calls_return:
  assumes "reachable s"
  shows "cc_timer_create cfg s \<noteq> None \<and>
    (live s hndl \<longrightarrow> cc_timer_start hndl t opt s \<noteq> None \<and> cc_timer_stop hndl s \<noteq> None \<and> cc_timer_delete hndl s \<noteq> None) \<and>
    (cb_safe cb \<and> h < MAX_HWT_PLUG \<and> hw_ready s h \<longrightarrow> timer_isr cb (Some h) s \<noteq> None)"
proof -
  obtain fs us where i: "timers_inv s fs us None [] {}" using reachable_inv[OF assms] by blast
  have e: "in_hand s {}" by (simp add: in_hand_def)
  have "cc_timer_create cfg s \<noteq> None" using api_total(1)[OF i e, of cfg] by auto
  moreover have "cc_timer_start hndl t opt s \<noteq> None \<and> cc_timer_stop hndl s \<noteq> None \<and> cc_timer_delete hndl s \<noteq> None" if "live s hndl"
    using api_total(2)[OF i e that, of t opt] api_total(3)[OF i e that] api_total(4)[OF i e that] by auto
  moreover have "timer_isr cb (Some h) s \<noteq> None" if "cb_safe cb" "h < MAX_HWT_PLUG" "hw_ready s h"
    using timer_isr_inv[OF i that(2,3,1)] by auto
  ultimately show ?thesis by blast
qed

section \<open>Expiry\<close>

lemma sorted_split:
  "sorted (map f xs) \<Longrightarrow> takeWhile (\<lambda>i. f i \<le> c) xs = filter (\<lambda>i. f i \<le> c) xs"
  "sorted (map f xs) \<Longrightarrow> dropWhile (\<lambda>i. f i \<le> c) xs = filter (\<lambda>i. c < f i) xs" for c :: "'a::linorder"
proof (induction xs)
  case (Cons x xs)
  {
    case 1
    then have "\<forall>y \<in> set xs. f x \<le> f y" by simp
    then have "\<not> f x \<le> c \<Longrightarrow> filter (\<lambda>i. f i \<le> c) xs = []" by (auto simp: filter_empty_conv)
    then show ?case using Cons.IH(1) 1 by simp
  next
    case 2
    then have "\<forall>y \<in> set xs. f x \<le> f y" by simp
    then have "\<not> f x \<le> c \<Longrightarrow> filter (\<lambda>i. c < f i) xs = xs" by (auto simp: filter_id_conv)
    then show ?case using Cons.IH(2) 2 by auto
  }
qed simp_all

definition quiet :: "'w callback \<Rightarrow> bool" where
  "quiet cb \<longleftrightarrow> (\<forall>f a s. \<exists>w. cb f a s = Some (s\<lparr>tm_world := w\<rparr>))"

definition periodic :: "'w timers \<Rightarrow> nat \<Rightarrow> bool" where
  "periodic s i \<longleftrightarrow> bit (fl s i) 0"

text \<open>The expiry value after the present one.\<close>

definition next_exp :: "bool \<Rightarrow> 'w timers \<Rightarrow> nat \<Rightarrow> nat" where
  "next_exp a s i = (case tm_swt s i of None \<Rightarrow> 0 | Some x \<Rightarrow> u64_nat (calc_hwt_expiry a (st_hwt_expires x) (st_sw_interval x)))"

lemma data_exp:
  fixes s s' :: "'w timers"
  assumes "map_option swt_data (tm_swt s' i) = map_option swt_data (tm_swt s i)"
  shows "tm_exp s' i = tm_exp s i" "next_exp a s' i = next_exp a s i" "tm_obj s' i = tm_obj s i"
proof -
  have e: "tm_exp u i = (case map_option swt_data (tm_swt u i) of None \<Rightarrow> 0 | Some x \<Rightarrow> u64_nat (st_hwt_expires x))"
    "next_exp a u i = (case map_option swt_data (tm_swt u i) of None \<Rightarrow> 0 | Some x \<Rightarrow> u64_nat (calc_hwt_expiry a (st_hwt_expires x) (st_sw_interval x)))"
    "tm_obj u i = (case map_option swt_data (tm_swt u i) of None \<Rightarrow> None | Some x \<Rightarrow> st_hwt_obj x)" for u :: "'w timers"
    by (simp_all add: tm_exp_def next_exp_def tm_obj_def split: option.splits)
  show "tm_exp s' i = tm_exp s i" "next_exp a s' i = next_exp a s i" "tm_obj s' i = tm_obj s i"
    by (simp_all only: e[of s'] e[of s] assms)
qed

lemma quiet_handle:
  assumes "timers_inv s fs us p (x # es) {}" "tm_swt s x = Some e" "quiet cb" "tm_obj s x = Some h"
  shows "\<exists>s' us'. handle_expired_swt cb x s = Some s' \<and> timers_inv s' fs us' (st_next e) es {} \<and> hw_ready s' = hw_ready s \<and>
     (\<forall>k. map_option hwt_data (tm_hwt s' k) = map_option hwt_data (tm_hwt s k)) \<and>
     (\<forall>i. i \<noteq> x \<longrightarrow> map_option swt_data (tm_swt s' i) = map_option swt_data (tm_swt s i) \<and> (i \<notin> set (us h) \<longrightarrow> fl s' i = fl s i)) \<and>
     (if periodic s x then us' = us(h := tmo_ins (tm_exp s') x (us h)) \<and> (\<exists>a. hwt_has_abs_time h s = Some a \<and> tm_exp s' x = next_exp a s x)
      else us' = us \<and> tm_exp s' x = tm_exp s x)"
proof -
  obtain k s1 where s1: "swt_upd (set_scheduled False) x s = Some s1" "timers_inv s1 fs us (st_next e) es {x}" "s1 = swt_put x (set_scheduled False e) s"
     "running s1 k x" "\<not> bit (fl s1 x) 1"
    using expired_head[OF assms(1,2)] by blast
  let ?e = "set_scheduled False e"
  have e1: "tm_swt s1 x = Some ?e" "hw_ready s1 = hw_ready s" "tm_hwt s1 = tm_hwt s" by (simp_all add: s1(3))
  have k: "k = h" using s1(3,4) assms(2,4) by (simp add: running_def tm_obj_def)
  have "\<exists>w. (case st_timeout_cb ?e of None \<Rightarrow> Some s1 | Some f \<Rightarrow> cb f (st_cb_param ?e) s1) = Some (s1\<lparr>tm_world := w\<rparr>)"
  proof (cases "st_timeout_cb ?e")
    case None
    then show ?thesis by (intro exI[of _ "tm_world s1"]) simp
  next
    case (Some f)
    then show ?thesis using assms(3) by (simp add: quiet_def)
  qed
  then obtain w where w: "(case st_timeout_cb ?e of None \<Rightarrow> Some s1 | Some f \<Rightarrow> cb f (st_cb_param ?e) s1) = Some (s1\<lparr>tm_world := w\<rparr>)" by blast
  let ?s2 = "s1\<lparr>tm_world := w\<rparr>"
  have "running ?s2 h x" using s1(4) k by (simp add: running_def)
  then obtain s' us' where r: "rearm_swt x ?s2 = Some s'" "timers_inv s' fs us' (st_next e) es {}" "hw_ready s' = hw_ready ?s2" "rearmed ?s2 h x ?e us s' us'"
    using rearm_inv[of ?s2 fs us "st_next e" es x ?e h] s1(2,5) e1(1) by auto
  have p: "is_periodic ?e \<longleftrightarrow> periodic s x" using assms(2) by (simp add: flag_get periodic_def fl_def)
  have n: "st_hwt_expires ?e = st_hwt_expires e" "st_sw_interval ?e = st_sw_interval e" by (simp_all add: set_scheduled_def set_tflag_def)
  have run: "handle_expired_swt cb x s = Some s'" using s1(1) e1(1) w r(1) by (simp add: handle_expired_swt_def)
  have o: "tm_swt s1 i = tm_swt s i" "fl s1 i = fl s i" if "i \<noteq> x" for i using that by (simp_all add: s1(3))
  have ab: "hwt_has_abs_time h ?s2 = hwt_has_abs_time h s" using e1(3) by (simp add: hwt_has_abs_time_def)
  have ex: "tm_exp ?s2 x = tm_exp s x" "next_exp a s x = u64_nat (calc_hwt_expiry a (st_hwt_expires ?e) (st_sw_interval ?e))" for a
    using assms(2) n by (simp_all add: s1(3) tm_exp_def next_exp_def)
  show ?thesis
    using run r(2,3) r(4)[unfolded rearmed_def p ab ex(1)] e1(2,3) o unfolding ex(2) by (intro exI[of _ s'] exI[of _ us']) (simp split: if_splits)
qed

lemma quiet_expired:
  assumes "timers_inv s fs us p es {}" "quiet cb" "\<forall>i \<in> set es. tm_obj s i = Some h" "h < MAX_HWT_PLUG" "hwt_has_abs_time h s = Some a"
  shows "\<exists>s' us'. expired_loop cb p s = Some s' \<and> timers_inv s' fs us' None [] {} \<and> hw_ready s' = hw_ready s \<and>
     (\<forall>k. k \<noteq> h \<longrightarrow> us' k = us k) \<and> set (us' h) = set (us h) \<union> {i \<in> set es. periodic s i} \<and>
     (\<forall>i. i \<notin> set es \<longrightarrow> tm_exp s' i = tm_exp s i) \<and> (\<forall>i \<in> set es. tm_exp s' i = (if periodic s i then next_exp a s i else tm_exp s i))"
  using assms(1,3,5)
proof (induction es arbitrary: s us p)
  case Nil
  then have "p = None" unfolding timers_inv_def lists_ok_def by simp
  then show ?case using Nil.prems by (intro exI[of _ s] exI[of _ us]) (simp add: expired_loop.simps)
next
  case (Cons x es)
  note v = Cons.prems(1)[unfolded timers_inv_def lists_ok_def]
  have ch: "chain (tnext s) p (x # es)" using v by blast
  then obtain e where e: "p = Some x" "tm_swt s x = Some e" by (auto simp: tnext_Some)
  have xo: "tm_obj s x = Some h" and xe: "x \<notin> set es" using Cons.prems(2) chain_distinct[OF ch] by auto
  have "set (us h) \<inter> (set fs \<union> set (x # es) \<union> {}) = {}" using v assms(4) by blast
  then have eu: "i \<notin> set (us h)" if "i \<in> set es" for i using that by auto
  obtain s1 us1 where s1: "handle_expired_swt cb x s = Some s1" "timers_inv s1 fs us1 (st_next e) es {}" "hw_ready s1 = hw_ready s"
     "\<forall>k. map_option hwt_data (tm_hwt s1 k) = map_option hwt_data (tm_hwt s k)"
     "\<forall>i. i \<noteq> x \<longrightarrow> map_option swt_data (tm_swt s1 i) = map_option swt_data (tm_swt s i) \<and> (i \<notin> set (us h) \<longrightarrow> fl s1 i = fl s i)"
     "if periodic s x then us1 = us(h := tmo_ins (tm_exp s1) x (us h)) \<and> (\<exists>a. hwt_has_abs_time h s = Some a \<and> tm_exp s1 x = next_exp a s x)
      else us1 = us \<and> tm_exp s1 x = tm_exp s x"
    using quiet_handle[OF Cons.prems(1) e(2) assms(2) xo] by blast
  have d: "tm_exp s1 i = tm_exp s i" "next_exp a s1 i = next_exp a s i" "tm_obj s1 i = tm_obj s i" if "i \<noteq> x" for i
    using data_exp[of s1 i s] s1(5) that by blast+
  have pe: "periodic s1 i = periodic s i" if "i \<in> set es" for i
  proof -
    have "i \<noteq> x" using that xe by auto
    then show ?thesis using s1(5) eu[OF that] by (simp add: periodic_def)
  qed
  have "\<forall>i \<in> set es. tm_obj s1 i = Some h" using Cons.prems(2) d(3) xe by (metis list.set_intros(2))
  moreover have "hwt_has_abs_time h s1 = Some a" using hwt_has_abs_data[OF s1(4)] Cons.prems(3) by simp
  ultimately obtain s' us' where r: "expired_loop cb (st_next e) s1 = Some s'" "timers_inv s' fs us' None [] {}" "hw_ready s' = hw_ready s1"
     "\<forall>k. k \<noteq> h \<longrightarrow> us' k = us1 k" "set (us' h) = set (us1 h) \<union> {i \<in> set es. periodic s1 i}"
     "\<forall>i. i \<notin> set es \<longrightarrow> tm_exp s' i = tm_exp s1 i" "\<forall>i \<in> set es. tm_exp s' i = (if periodic s1 i then next_exp a s1 i else tm_exp s1 i)"
    using Cons.IH[OF s1(2)] by blast
  have "expired_loop cb p s = Some s'" using e s1(1) r(1) by (subst expired_loop.simps) simp
  moreover have "\<forall>k. k \<noteq> h \<longrightarrow> us' k = us k" using r(4) s1(6) by (simp split: if_splits)
  moreover have "set (us1 h) = set (us h) \<union> {i. i = x \<and> periodic s x}" using s1(6) by (auto split: if_splits)
  then have "set (us' h) = set (us h) \<union> {i \<in> set (x # es). periodic s i}" using r(5) pe by auto
  moreover have "tm_exp s' i = tm_exp s i" if "i \<notin> set (x # es)" for i using r(6) d(1)[of i] that by auto
  moreover have "tm_exp s' i = (if periodic s i then next_exp a s i else tm_exp s i)" if "i \<in> set (x # es)" for i
  proof (cases "i = x")
    case True
    then show ?thesis using r(6) xe s1(6) Cons.prems(3) by (auto split: if_splits)
  next
    case False
    then show ?thesis using r(7) d[OF False] pe that by auto
  qed
  ultimately show ?case using r(2,3) s1(3) by (intro exI[of _ s'] exI[of _ us']) simp
qed

lemma get_current_world:
  "hwt_get_current h t = Some (rv, c, u) \<Longrightarrow> tm_hwt t' = tm_hwt t \<Longrightarrow> tm_world t' = tm_world t \<Longrightarrow>
     hwt_get_current h t' = Some (rv, c, t'\<lparr>tm_world := tm_world u\<rparr>)"
  by (auto simp: hwt_get_current_def hwt_is_64bits_def hwt_call_def Let_def split: if_splits prod.splits Option.bind_splits)

lemma isr_run:
  assumes "reachable s" "h < MAX_HWT_PLUG" "hw_ready s h" "quiet cb" "hwt_has_abs_time h s = Some a"
    "dsbl_irqc s = Some (m, s0)" "hwt_get_current h s0 = Some (0, c, sc)" "chain (tnext s) (used_ptr s h) us"
  shows "\<exists>s' us'. timer_isr cb (Some h) s = Some s' \<and> chain (tnext s') (used_ptr s' h) us' \<and> distinct us' \<and> sorted (map (tm_exp s') us') \<and>
     set us' = {i \<in> set us. u64_nat c < tm_exp s i \<or> periodic s i} \<and>
     (\<forall>i \<in> set us. tm_exp s' i = (if tm_exp s i \<le> u64_nat c \<and> periodic s i then next_exp a s i else tm_exp s i))"
proof -
  obtain fs vs where i: "timers_inv s fs vs None [] {}" using reachable_inv[OF assms(1)] by blast
  have us: "vs h = us" by (rule chain_det[OF inv_chain[OF i assms(2)] assms(8)])
  have so: "sorted (map (tm_exp s) us)" and ru: "\<And>j. j \<in> set us \<Longrightarrow> running s h j" using i assms(2) us unfolding timers_inv_def by blast+
  note sp = sorted_split[OF so, of "u64_nat c"]
  obtain w where m: "dsbl_irqc s = Some (m, s\<lparr>tm_world := w\<rparr>)" "s0 = s\<lparr>tm_world := w\<rparr>" using irq_total(1)[OF inv_module[OF i]] assms(6) by auto
  obtain w' where g: "hwt_get_current h (s\<lparr>tm_world := w\<rparr>) = Some (0, c, s\<lparr>tm_world := w'\<rparr>)"
    using get_current_world[OF assms(7) refl refl] m(2) by auto
  let ?es = "filter (\<lambda>j. tm_exp s j \<le> u64_nat c) us" and ?rs = "filter (\<lambda>j. u64_nat c < tm_exp s j) us"
  obtain p s1 where s1: "isolate_loop h c None None (s\<lparr>tm_world := w'\<rparr>) = Some (p, s1)" "same_data s s1"
      "timers_inv s1 fs (vs(h := ?rs)) p ?es {}" "\<forall>j n. n \<noteq> 1 \<longrightarrow> bit (fl s1 j) n = bit (fl s j) n"
    using isolate_loop_spec[of "s\<lparr>tm_world := w'\<rparr>" fs vs None "[]" "{}" h None c] i assms(2,3) us sp same_data_trans[of s "s\<lparr>tm_world := w'\<rparr>"] by auto
  have d1: "tm_exp s1 = tm_exp s" "tm_obj s1 = tm_obj s" "hw_ready s1 = hw_ready s" by (rule data_views[OF s1(2)])+
  have nx: "next_exp a s1 j = next_exp a s j" for j using data_exp(2)[of s1 j s] s1(2) by (simp add: same_data_def)
  have pe: "periodic s1 j = periodic s j" for j using s1(4) by (simp add: periodic_def)
  have iso: "isolate_expired_swt_list h (s\<lparr>tm_world := w\<rparr>) = Some (p, s1)" using g s1(1) by (simp add: isolate_expired_swt_list_def)
  obtain w1 where w1: "enbl_irqc m s1 = Some (s1\<lparr>tm_world := w1\<rparr>)" using irq_total(2)[OF inv_module[OF s1(3)]] by blast
  let ?s1 = "s1\<lparr>tm_world := w1\<rparr>"
  have "hwt_has_abs_time h s1 = hwt_has_abs_time h s" by (rule hwt_has_abs_data) (use s1(2) in \<open>simp add: same_data_def\<close>)
  then have ab: "hwt_has_abs_time h ?s1 = Some a" using assms(5) by (simp add: hwt_has_abs_time_def)
  have ob: "\<forall>j \<in> set ?es. tm_obj ?s1 j = Some h" using ru d1(2) by (simp add: running_def)
  have i1: "timers_inv ?s1 fs (vs(h := ?rs)) p ?es {}" using s1(3) by simp
  obtain s2 us2 where s2: "expired_loop cb p ?s1 = Some s2" "timers_inv s2 fs us2 None [] {}" "hw_ready s2 = hw_ready ?s1"
     "set (us2 h) = set ?rs \<union> {j \<in> set ?es. periodic ?s1 j}" "\<forall>j. j \<notin> set ?es \<longrightarrow> tm_exp s2 j = tm_exp ?s1 j"
     "\<forall>j \<in> set ?es. tm_exp s2 j = (if periodic ?s1 j then next_exp a ?s1 j else tm_exp ?s1 j)"
    using quiet_expired[OF i1 assms(4) ob assms(2) ab] by auto
  obtain m2 w2 where m2: "dsbl_irqc s2 = Some (m2, s2\<lparr>tm_world := w2\<rparr>)" using irq_total(1)[OF inv_module[OF s2(2)]] by blast
  have r: "hw_ready (s2\<lparr>tm_world := w2\<rparr>) h" using assms(3) s2(3) d1(3) by simp
  then obtain hw where hw: "tm_hwt s2 h = Some hw" by (auto simp: hw_ready_def)
  obtain rv w3 where w3: "hwt_stop h (s2\<lparr>tm_world := w2\<rparr>) = Some (rv, s2\<lparr>tm_world := w3\<rparr>)" using hwt_calls(3)[OF r] by auto
  let ?w = "if hi_used_list hw = None then w3 else w2"
  obtain w4 where w4: "enbl_irqc m2 (s2\<lparr>tm_world := ?w\<rparr>) = Some (s2\<lparr>tm_world := w4\<rparr>)"
    using irq_total(2)[of "s2\<lparr>tm_world := ?w\<rparr>"] inv_module[OF s2(2)] by auto
  let ?s' = "s2\<lparr>tm_world := w4\<rparr>"
  have "timer_isr cb (Some h) s = Some ?s'"
    using m(1) iso w1 s2(1) m2 hw w3 w4 by (cases "hi_used_list hw") (simp_all add: timer_isr_def)
  moreover have "chain (tnext ?s') (used_ptr ?s' h) (us2 h)" using inv_chain[OF s2(2) assms(2)] by simp
  moreover have "distinct (us2 h)" by (rule chain_distinct[OF inv_chain[OF s2(2) assms(2)]])
  moreover have "sorted (map (tm_exp ?s') (us2 h))" using s2(2) assms(2) unfolding timers_inv_def by simp
  moreover have p1: "periodic ?s1 j = periodic s j" "next_exp a ?s1 j = next_exp a s j" for j
    using pe nx by (simp_all add: periodic_def next_exp_def)
  then have "set (us2 h) = {j \<in> set us. u64_nat c < tm_exp s j \<or> periodic s j}" using s2(4) by auto
  moreover have "tm_exp ?s' j = (if tm_exp s j \<le> u64_nat c \<and> periodic s j then next_exp a s j else tm_exp s j)" if "j \<in> set us" for j
    using s2(5,6) p1 d1(1) that by (cases "tm_exp s j \<le> u64_nat c"; cases "periodic s j") simp_all
  ultimately show ?thesis by blast
qed

text \<open>The expiry and the interval of a timer. With a timer of the kind that keeps the absolute time the words are seconds and
  nanoseconds, else they are the two halves of a number of ticks.\<close>

definition expiry :: "'w timers \<Rightarrow> nat \<Rightarrow> u64_val" where
  "expiry s i = (case tm_swt s i of None \<Rightarrow> \<lparr>hi_32 = 0, lo_32 = 0\<rparr> | Some x \<Rightarrow> st_hwt_expires x)"

definition interval :: "'w timers \<Rightarrow> nat \<Rightarrow> u64_val" where
  "interval s i = (case tm_swt s i of None \<Rightarrow> \<lparr>hi_32 = 0, lo_32 = 0\<rparr> | Some x \<Rightarrow> st_sw_interval x)"

definition as_time :: "u64_val \<Rightarrow> u64_time" where
  "as_time v = \<lparr>secs = hi_32 v, nsec = lo_32 v\<rparr>"

text \<open>\<open>new\<close> is one interval after \<open>old\<close>, as numbers of nanoseconds or of ticks.\<close>

definition interval_later :: "bool \<Rightarrow> u64_val \<Rightarrow> u64_val \<Rightarrow> u64_val \<Rightarrow> bool" where
  "interval_later a old iv new \<longleftrightarrow>
     (if a then time_ok (as_time old) \<and> time_ok (as_time iv) \<longrightarrow>
        time_ok (as_time new) \<and> time_nat (as_time new) = (time_nat (as_time old) + time_nat (as_time iv)) mod (2 ^ 32 * GIGA)
      else u64_nat new = (u64_nat old + u64_nat iv) mod 2 ^ 64)"

lemma calc_interval_later: "interval_later a old iv (calc_hwt_expiry a old iv)"
proof (cases a)
  case True
  have "as_time (calc_hwt_expiry True old iv) = util_u64_time_add (as_time old) (as_time iv)"
    by (simp add: as_time_def calc_hwt_expiry_def calc_hwt_expiry_secs_def util_u64_time_add_def Let_def)
  then show ?thesis using True time_add_nat by (simp add: interval_later_def)
next
  case False
  then show ?thesis by (simp add: interval_later_def calc_hwt_expiry_def calc_hwt_expiry_tick_def u64_add_nat)
qed

lemma expiry_exp: "tm_exp s i = u64_nat (expiry s i)" "tm_swt s i \<noteq> None \<Longrightarrow> next_exp a s i = u64_nat (calc_hwt_expiry a (expiry s i) (interval s i))"
  by (auto simp: tm_exp_def next_exp_def expiry_def interval_def u64_nat_def split: option.splits)

text \<open>
  C8: the interrupt routine, where \<open>c\<close> is the value of the counter that it reads and the call-backs do not use the module:
  the timers of the list that have reached their expiry leave it, all others stay with
  their expiry unchanged; of the expired ones exactly the periodic ones are queued again, in
  order, with an expiry that is their previous expiry plus their interval (and not the time of the interrupt plus the interval), so
  that a period does not drift with the latency of the interrupt. The sum is taken as a number of nanoseconds, modulo \<open>2 ^ 32\<close>
  seconds, for a hardware timer that keeps the absolute time, when both are normalised, and as a number of ticks modulo \<open>2 ^ 64\<close> else.
\<close>

theorem isr_outcome:
  assumes "reachable s" "h < MAX_HWT_PLUG" "hw_ready s h" "quiet cb" "hwt_has_abs_time h s = Some a"
    "dsbl_irqc s = Some (m, s0)" "hwt_get_current h s0 = Some (0, c, sc)" "chain (tnext s) (used_ptr s h) us"
  shows "\<exists>s' us'. timer_isr cb (Some h) s = Some s' \<and> chain (tnext s') (used_ptr s' h) us' \<and> distinct us' \<and> sorted (map (tm_exp s') us') \<and>
     set us' = {i \<in> set us. u64_nat c < tm_exp s i \<or> periodic s i} \<and>
     (\<forall>i \<in> set us. if tm_exp s i \<le> u64_nat c \<and> periodic s i then interval_later a (expiry s i) (interval s i) (expiry s' i)
        else expiry s' i = expiry s i)"
proof -
  obtain s' us' where r: "timer_isr cb (Some h) s = Some s'" "chain (tnext s') (used_ptr s' h) us'" "distinct us'" "sorted (map (tm_exp s') us')"
     "set us' = {i \<in> set us. u64_nat c < tm_exp s i \<or> periodic s i}"
     "\<forall>i \<in> set us. tm_exp s' i = (if tm_exp s i \<le> u64_nat c \<and> periodic s i then next_exp a s i else tm_exp s i)"
    using isr_run[OF assms] by blast
  have "if tm_exp s i \<le> u64_nat c \<and> periodic s i then interval_later a (expiry s i) (interval s i) (expiry s' i)
      else expiry s' i = expiry s i" if i: "i \<in> set us" for i
  proof -
    obtain x where "tm_swt s i = Some x" using tchain_alloc[OF assms(8) i] by blast
    then have "u64_nat (expiry s' i) = (if tm_exp s i \<le> u64_nat c \<and> periodic s i then u64_nat (calc_hwt_expiry a (expiry s i) (interval s i))
        else u64_nat (expiry s i))"
      using bspec[OF r(6) i] expiry_exp(2)[of s i a] unfolding expiry_exp(1) by simp
    then show ?thesis using calc_interval_later[of a "expiry s i" "interval s i"] by (auto simp: u64_nat_eq split: if_splits)
  qed
  then show ?thesis using r(1-5) by blast
qed

section \<open>A start that fails\<close>

text \<open>A timer that is marked as periodic and is in no list.\<close>

definition stranded :: "'w timers \<Rightarrow> nat \<Rightarrow> bool" where
  "stranded s i \<longleftrightarrow> (\<forall>n. bit (fl s i) n \<longleftrightarrow> n = 0 \<or> n = 2)"

lemma stranded_calls:
  assumes "timers_inv s fs us None [] {}" "stranded s i" "i < MAX_SW_TIMER"
  shows "\<exists>s'. cc_timer_start (Some i) t opt s = Some (- 1, s') \<and> stranded s' i" "\<exists>s'. cc_timer_stop (Some i) s = Some (- 1, s') \<and> stranded s' i"
    "\<exists>s'. cc_timer_delete (Some i) s = Some (- 1, s') \<and> stranded s' i"
proof -
  obtain x where x: "tm_swt s i = Some x" using inv_module[OF assms(1)] assms(3) unfolding module_ok_def by blast
  have b: "bit (st_flags x) n \<longleftrightarrow> n = 0 \<or> n = 2" for n using assms(2) x by (simp add: stranded_def fl_def)
  have na: "\<not> is_alloc_only x" using b[of 0] unfolding flag_get(3) by (metis zero_neq_numeral)
  have "fl s i \<noteq> 0" using assms(2) by (auto simp: stranded_def)
  then have nf: "i \<notin> set fs" using assms(1) unfolding timers_inv_def by blast
  have "\<not> running s h i" for h using assms(2) by (simp add: stranded_def running_def)
  then have nu: "i \<notin> set (us h)" if "h < MAX_HWT_PLUG" for h using assms(1) that unfolding timers_inv_def by blast
  have e: "in_hand s {}" by (simp add: in_hand_def)
  obtain h where h: "st_hwt_obj x = Some h" "hw_ready s h" using allocated_obj[OF assms(1) e assms(3) nf] x by auto
  have w: "stranded (s\<lparr>tm_world := w\<rparr>) i" for w using assms(2) by (simp add: stranded_def)
  obtain m w1 where m: "dsbl_irqc s = Some (m, s\<lparr>tm_world := w1\<rparr>)" using irq_total(1)[OF inv_module[OF assms(1)]] by blast
  obtain w2 where w2: "enbl_irqc m (s\<lparr>tm_world := w1\<rparr>) = Some (s\<lparr>tm_world := w2\<rparr>)" using irq_total(2)[of "s\<lparr>tm_world := w1\<rparr>"] inv_module[OF assms(1)] by auto
  obtain a where a: "hwt_has_abs_time h s = Some a" using hwt_calls(7)[OF h(2)] by blast
  have "cc_timer_start (Some i) t opt s = Some (- 1, s) \<or> cc_timer_start (Some i) t opt s = Some (- 1, s\<lparr>tm_world := w2\<rparr>)"
    using x h(1) a m w2 na by (simp add: cc_timer_start_def has_valid_opts_def timer_start_def)
  then show "\<exists>s'. cc_timer_start (Some i) t opt s = Some (- 1, s') \<and> stranded s' i" using assms(2) w by blast
  obtain rv s' us' where s': "cc_timer_stop (Some i) s = Some (rv, s')" "(\<forall>h < MAX_HWT_PLUG. i \<notin> set (us h)) \<longrightarrow> rv = - 1 \<and> us' = us"
    using cc_timer_stop_inv[OF assms(1) e assms(3) nf] by blast
  have hw: "\<exists>hw. tm_hwt s h = Some hw" using h(2) by (auto simp: hw_ready_def)
  have hl: "h < MAX_HWT_PLUG" using hw inv_module[OF assms(1)] unfolding module_ok_def by blast
  have "timer_stop i (s\<lparr>tm_world := w1\<rparr>) = Some (- 1, s\<lparr>tm_world := w1\<rparr>)"
    using timer_stop_inv[of "s\<lparr>tm_world := w1\<rparr>" fs us None "[]" "{}" i x h] assms(1) x h hl nu[OF hl] by auto
  then have "cc_timer_stop (Some i) s = Some (- 1, s\<lparr>tm_world := w2\<rparr>)" using x m w2 na by (simp add: cc_timer_stop_def has_started_def)
  then show "\<exists>s'. cc_timer_stop (Some i) s = Some (- 1, s') \<and> stranded s' i" using w by blast
  have "cc_timer_delete (Some i) s = Some (- 1, s\<lparr>tm_world := w2\<rparr>)" using x m w2 na by (simp add: cc_timer_delete_def)
  then show "\<exists>s'. cc_timer_delete (Some i) s = Some (- 1, s') \<and> stranded s' i" using w by blast
qed

text \<open>
  C36: when the counter of the hardware timer cannot be read, starting a periodic timer fails
  after the timer has been marked as periodic, and the mark is not taken back: the timer can
  from then on neither be started nor stopped nor deleted, each call fails and leaves it so.
\<close>

theorem failed_start_strands_timer:
  assumes "reachable s" "tm_swt s i = Some x" "is_alloc_only x" "st_hwt_obj x = Some h" "hwt_has_abs_time h s = Some True"
    "\<forall>w. \<exists>c w'. hwt_get_current h (s\<lparr>tm_world := w\<rparr>) = Some (- 1, c, s\<lparr>tm_world := w'\<rparr>)"
  shows "\<exists>s'. cc_timer_start (Some i) t OPT_TIMER_PERIODIC s = Some (- 1, s') \<and> stranded s' i \<and>
     (\<exists>u. cc_timer_start (Some i) t' opt s' = Some (- 1, u) \<and> stranded u i) \<and> (\<exists>u. cc_timer_stop (Some i) s' = Some (- 1, u) \<and> stranded u i) \<and>
     (\<exists>u. cc_timer_delete (Some i) s' = Some (- 1, u) \<and> stranded u i)"
proof -
  obtain fs us where i: "timers_inv s fs us None [] {}" using reachable_inv[OF assms(1)] by blast
  have e: "in_hand s {}" by (simp add: in_hand_def)
  note n = alloc_only_idle[OF i e assms(2,3)]
  have i6: "i < MAX_SW_TIMER" using inv_module[OF i] assms(2) unfolding module_ok_def by blast
  have r: "hw_ready s h" using n(5) assms(2,4) by (auto simp: idle_def tm_obj_def)
  let ?t = "t\<lparr>nsec := nsec t div 1000000 * 1000000\<rparr>"
  let ?y = "set_periodic True (x\<lparr>st_sw_interval := \<lparr>hi_32 = secs ?t, lo_32 = nsec ?t\<rparr>\<rparr>)"
  obtain m w where m: "dsbl_irqc s = Some (m, s\<lparr>tm_world := w\<rparr>)" using irq_total(1)[OF inv_module[OF i]] by blast
  define s1 where "s1 = swt_put i ?y (s\<lparr>tm_world := w\<rparr>)"
  have y1: "tm_swt s1 i = Some ?y" "st_hwt_obj ?y = Some h" "hw_ready s1 h" "tm_hwt s1 = tm_hwt s"
    using assms(4) r by (simp_all add: s1_def set_periodic_def set_tflag_def)
  obtain b w1 where b: "hwt_is_running h s1 = Some (b, s1\<lparr>tm_world := w1\<rparr>)" using hwt_calls(4)[OF y1(3)] by blast
  have ab: "hwt_has_abs_time h s1 = Some True" "hwt_has_abs_time h (s1\<lparr>tm_world := w1\<rparr>) = Some True" "hwt_has_abs_time h (s\<lparr>tm_world := w\<rparr>) = Some True"
    using assms(5) y1(4) by (simp_all add: hwt_has_abs_time_def)
  obtain c w2 where "hwt_get_current h (s\<lparr>tm_world := w1\<rparr>) = Some (- 1, c, s\<lparr>tm_world := w2\<rparr>)" using assms(6) by blast
  then have g: "hwt_get_current h (s1\<lparr>tm_world := w1\<rparr>) = Some (- 1, c, s1\<lparr>tm_world := w2\<rparr>)"
    using get_current_world[of h "s\<lparr>tm_world := w1\<rparr>" "- 1" c _ "s1\<lparr>tm_world := w1\<rparr>"] y1(4) by simp
  have se: "setup_timer_exec i None False s1 = Some (- 1, s1\<lparr>tm_world := w2\<rparr>)"
    using y1(1,2) b ab g by (simp add: setup_timer_exec_def read_current_def)
  let ?x1 = "x\<lparr>st_sw_interval := \<lparr>hi_32 = secs ?t, lo_32 = nsec ?t\<rparr>\<rparr>"
  have es: "estbl_timer_interval i ?t (s\<lparr>tm_world := w\<rparr>) = Some (0, swt_put i ?x1 (s\<lparr>tm_world := w\<rparr>))"
    using assms(2,4) ab(3) by (simp add: estbl_timer_interval_def)
  have up: "swt_upd (set_periodic True) i (swt_put i ?x1 (s\<lparr>tm_world := w\<rparr>)) = Some s1"
    unfolding swt_upd_def s1_def swt_put_def by (simp add: fun_upd_def cong: if_cong)
  have xw: "tm_swt (s\<lparr>tm_world := w\<rparr>) i = Some x" using assms(2) by simp
  have st: "timer_start i ?t OPT_TIMER_PERIODIC (s\<lparr>tm_world := w\<rparr>) = Some (- 1, s1\<lparr>tm_world := w2\<rparr>)"
    unfolding timer_start_def xw using assms(3) es up se by (simp del: put_views)
  have mo: "module_ok (s1\<lparr>tm_world := w2\<rparr>)" unfolding s1_def
    using module_ok_put[OF _ i6, of "s\<lparr>tm_world := w\<rparr>" ?y] inv_module[OF i] by simp
  obtain w3 where w3: "enbl_irqc m (s1\<lparr>tm_world := w2\<rparr>) = Some (s1\<lparr>tm_world := w3\<rparr>)" using irq_total(2)[OF mo] by auto
  have run: "cc_timer_start (Some i) t OPT_TIMER_PERIODIC s = Some (- 1, s1\<lparr>tm_world := w3\<rparr>)"
    using assms(2,4,5) m st w3 by (simp add: cc_timer_start_def has_valid_opts_def Let_def)
  obtain us' where i': "timers_inv (s1\<lparr>tm_world := w3\<rparr>) fs us' None [] {}" using cc_timer_start_inv[OF i e i6 n(1), of t OPT_TIMER_PERIODIC] run by auto
  have "bit (fl s1 i) k \<longleftrightarrow> k = 0 \<or> k = 2" for k using assms(3) by (auto simp: s1_def flag_get)
  then have "stranded (s1\<lparr>tm_world := w3\<rparr>) i" by (simp add: stranded_def)
  from run this stranded_calls[OF i' this i6] show ?thesis by blast
qed

end
