(* ===== verification/TimerRuns.thy ===== *)
theory TimerRuns
  imports TimerProps
begin

text \<open>
  Concrete runs of the timer module, on hardware whose counter is constant: the inputs at
  which the properties of \<open>TimerProps\<close> are applied.
\<close>

declare insert_loop.simps [code] remove_loop.simps [code] isolate_loop.simps [code] expired_loop.simps [code]

definition demo_ops :: "i32 \<Rightarrow> u64_val \<Rightarrow> unit hw_timer_ops" where
  "demo_ops rv c = \<lparr>op_start32 = None, op_start64 = Some (\<lambda>h e m w. (0, w)), op_update_exp32 = None,
     op_update_exp64 = Some (\<lambda>h e w. (0, w)), op_stop = Some (\<lambda>h w. (0, w)), op_is_running = Some (\<lambda>h w. (True, w)),
     op_get_remaining32 = None, op_get_remaining64 = Some (\<lambda>h w. (0, c, w)), op_get_current32 = None,
     op_get_current64 = Some (\<lambda>h w. (rv, c, w)), op_get_rollovers = Some (\<lambda>h w. (0, w)),
     op_get_frequency = Some (\<lambda>h w. (32768, w)), op_register_cb = Some (\<lambda>h k w. (0, w))\<rparr>"

definition demo_setup :: "unit cc_timer_setup" where
  "demo_setup = \<lparr>su_enbl_irqc = Some (\<lambda>m w. w), su_dsbl_irqc = Some (\<lambda>w. (0, w))\<rparr>"

definition demo_blank :: "unit timers" where
  "demo_blank = \<lparr>tm_swt = (\<lambda>_. None), tm_free = None, tm_hwt = (\<lambda>_. None), tm_enbl_irqc = None, tm_dsbl_irqc = None, tm_world = ()\<rparr>"

definition demo_cfg :: cc_timer_cfg where
  "demo_cfg = \<lparr>cfg_source = HW_REALTIME_CLK, cfg_timeout_cb = Some 7, cfg_cb_param = 3\<rparr>"

abbreviation after :: "('b \<times> unit timers) option \<Rightarrow> unit timers" where "after r \<equiv> snd (the r)"

definition demo_init :: "i32 \<Rightarrow> unit timers" where
  "demo_init rv = after (cc_timer_register_hwt_ops HW_REALTIME_CLK (Some 1) (demo_ops rv \<lparr>hi_32 = 100, lo_32 = 0\<rparr>)
     (after (cc_timer_module_init demo_setup demo_blank)))"

definition demo_two :: "i32 \<Rightarrow> unit timers" where
  "demo_two rv = after (cc_timer_create demo_cfg (after (cc_timer_create demo_cfg (demo_init rv))))"

definition demo_run :: "unit timers" where
  "demo_run = after (cc_timer_start (Some 4) \<lparr>secs = 200, nsec = 0\<rparr> OPT_TIME_ABS_VALUE
     (after (cc_timer_start (Some 5) \<lparr>secs = 50, nsec = 0\<rparr> OPT_TIME_ABS_VALUE (demo_two 0))))"

lemma some_after: "map_option fst r = Some v \<Longrightarrow> r = Some (v, after r)" by auto

lemma demo_two_results:
  "map_option fst (cc_timer_module_init demo_setup demo_blank) = Some 0"
  "map_option fst (cc_timer_register_hwt_ops HW_REALTIME_CLK (Some 1) (demo_ops rv \<lparr>hi_32 = 100, lo_32 = 0\<rparr>)
     (after (cc_timer_module_init demo_setup demo_blank))) = Some 0"
  "map_option fst (cc_timer_create demo_cfg (demo_init rv)) = Some (Some 5)"
  "map_option fst (cc_timer_create demo_cfg (after (cc_timer_create demo_cfg (demo_init rv)))) = Some (Some 4)"
  by code_simp+

lemma demo_run_results:
  "live (demo_two 0) (Some 5)"
  "map_option fst (cc_timer_start (Some 5) \<lparr>secs = 50, nsec = 0\<rparr> OPT_TIME_ABS_VALUE (demo_two 0)) = Some 0"
  "live (after (cc_timer_start (Some 5) \<lparr>secs = 50, nsec = 0\<rparr> OPT_TIME_ABS_VALUE (demo_two 0))) (Some 4)"
  "map_option fst (cc_timer_start (Some 4) \<lparr>secs = 200, nsec = 0\<rparr> OPT_TIME_ABS_VALUE
     (after (cc_timer_start (Some 5) \<lparr>secs = 50, nsec = 0\<rparr> OPT_TIME_ABS_VALUE (demo_two 0)))) = Some 0"
  by code_simp+

lemma demo_reachable: "reachable (demo_two rv)" "reachable demo_run"
proof -
  note r = demo_two_results[THEN some_after] and q = demo_run_results(2,4)[THEN some_after]
  have "reachable (after (cc_timer_module_init demo_setup demo_blank))"
    by (rule init[OF _ r(1)]) (simp add: demo_blank_def)
  then have "reachable (demo_init rv)" for rv unfolding demo_init_def by (rule step[OF _ register[OF r(2)]])
  then have "reachable (after (cc_timer_create demo_cfg (demo_init rv)))" for rv by (rule step[OF _ api[OF create[OF r(3)]]])
  then show t: "reachable (demo_two rv)" for rv unfolding demo_two_def by (rule step[OF _ api[OF create[OF r(4)]]])
  have "reachable (after (cc_timer_start (Some 5) \<lparr>secs = 50, nsec = 0\<rparr> OPT_TIME_ABS_VALUE (demo_two 0)))"
    by (rule step[OF t api[OF start[OF demo_run_results(1) q(1)]]])
  then show "reachable demo_run" unfolding demo_run_def by (rule step[OF _ api[OF start[OF demo_run_results(3) q(2)]]])
qed

lemma hw_ready_code:
  "hw_ready s h = (case Option.bind (tm_hwt s h) (\<lambda>hw. map_option (\<lambda>ops. has_ops_common ops \<and> (if hi_64bits hw then has_ops64 ops else has_ops32 ops)) (hi_ops hw))
     of None \<Rightarrow> False | Some b \<Rightarrow> b)"
  by (auto simp: hw_ready_def split: option.splits Option.bind_splits)

lemma get_current_unit: "map_option (\<lambda>(rv, c, s'). (rv, c)) (hwt_get_current h s) = Some (rv, c) \<Longrightarrow> hwt_get_current h (s\<lparr>tm_world := w\<rparr>) = Some (rv, c, s\<lparr>tm_world := ()\<rparr>)"
  for s :: "unit timers"
  by (auto simp: hwt_get_current_def hwt_is_64bits_def hwt_call_def Let_def split: if_splits prod.splits Option.bind_splits)

lemma demo_run_timers:
  "tm_swt demo_run 5 = Some \<lparr>st_flags = 14, st_hwt_expires = \<lparr>hi_32 = 50, lo_32 = 0\<rparr>, st_sw_interval = \<lparr>hi_32 = 0, lo_32 = 0\<rparr>,
     st_timeout_cb = Some 7, st_cb_param = 3, st_hwt_obj = Some 1, st_next = Some 4\<rparr>"
  "tm_swt demo_run 4 = Some \<lparr>st_flags = 12, st_hwt_expires = \<lparr>hi_32 = 200, lo_32 = 0\<rparr>, st_sw_interval = \<lparr>hi_32 = 0, lo_32 = 0\<rparr>,
     st_timeout_cb = Some 7, st_cb_param = 3, st_hwt_obj = Some 1, st_next = None\<rparr>"
  by code_simp+

lemma demo_run_hw:
  "map_option hi_used_list (tm_hwt demo_run 1) = Some (Some 5)" "map_option hi_source (tm_hwt demo_run 1) = Some 1"
  "map_option (\<lambda>(rv, c, s'). (rv, c)) (hwt_get_current 1 demo_run) = Some (0, \<lparr>hi_32 = 100, lo_32 = 0\<rparr>)"
  by code_simp+

lemma demo_ready: "hw_ready demo_run 1"
  unfolding hw_ready_code by code_simp

lemma unit_world [simp]: "s\<lparr>tm_world := w\<rparr> = s" for s :: "unit timers"
  by simp

lemma demo_bad:
  "map_option is_alloc_only (tm_swt (demo_two (- 1)) 5) = Some True" "map_option st_hwt_obj (tm_swt (demo_two (- 1)) 5) = Some (Some 1)"
  "map_option hi_source (tm_hwt (demo_two (- 1)) 1) = Some 1"
  "map_option (\<lambda>(rv, c, s'). (rv, c)) (hwt_get_current 1 (demo_two (- 1))) = Some (- 1, \<lparr>hi_32 = 100, lo_32 = 0\<rparr>)"
  by code_simp+

theorem ticks_interval_exact_witness:
  "\<exists>iv s'. calc_ticks_interval 1 \<lparr>secs = 1, nsec = 500000000\<rparr> \<lparr>hi_32 = 0, lo_32 = 0\<rparr> (demo_init 0) = Some (0, iv, s') \<and> u64_nat iv = 49152"
proof -
  have "map_option fst (hwt_get_frequency 1 (demo_init 0)) = Some 32768" "hwt_is_64bits 1 (demo_init 0) = Some True" by code_simp+
  then have "hwt_get_frequency 1 (demo_init 0) = Some (32768, demo_init 0)"
    by (auto simp: hwt_get_frequency_def Let_def split: prod.splits Option.bind_splits)
  from ticks_interval_exact[OF this \<open>hwt_is_64bits 1 (demo_init 0) = Some True\<close>, of "\<lparr>secs = 1, nsec = 500000000\<rparr>" "\<lparr>hi_32 = 0, lo_32 = 0\<rparr>"]
  show ?thesis by (force simp: time_ok_def time_nat_def)
qed

theorem reachable_timers_inv_witness:
  "\<exists>us. chain (tnext demo_run) (used_ptr demo_run 1) us \<and> sorted (map (tm_exp demo_run) us) \<and> set us \<subseteq> {i. bit (fl demo_run i) 3}"
proof -
  have m: "(1 :: nat) < MAX_HWT_PLUG" by (simp add: MAX_HWT_PLUG_def)
  show ?thesis using reachable_timers_inv[OF demo_reachable(2)] m by blast
qed

lemma quiet_cb: "cb_safe (\<lambda>f a s. Some s)" "quiet (\<lambda>f a s. Some s)"
proof -
  have w: "s\<lparr>tm_world := tm_world s\<rparr> = s" for s :: "'w timers" by simp
  show "cb_safe (\<lambda>f a s. Some s)" unfolding cb_safe_def using w by (metis rtranclp.rtrancl_refl)
  show "quiet (\<lambda>f a s. Some s)" unfolding quiet_def using w by metis
qed

theorem calls_return_witness:
  "cc_timer_create demo_cfg demo_run \<noteq> None \<and> cc_timer_stop (Some 5) demo_run \<noteq> None \<and> timer_isr (\<lambda>f a s. Some s) (Some 1) demo_run \<noteq> None"
proof -
  have "live demo_run (Some 5)" by (simp add: live_def fl_def demo_run_timers MAX_SW_TIMER_def)
  moreover have "(1 :: nat) < MAX_HWT_PLUG" by (simp add: MAX_HWT_PLUG_def)
  ultimately show ?thesis using calls_return[OF demo_reachable(2), of demo_cfg "Some 5" _ _ "\<lambda>f a s. Some s" 1] quiet_cb(1) demo_ready by blast
qed

text \<open>A counter that moves on by a hundred seconds with each reading: a periodic timer of fifty seconds that is started at 100
  expires at 150 and is seen by the interrupt at 200.\<close>

definition tick_ops :: "u64_val hw_timer_ops" where
  "tick_ops = \<lparr>op_start32 = None, op_start64 = Some (\<lambda>h e m w. (0, w)), op_update_exp32 = None,
     op_update_exp64 = Some (\<lambda>h e w. (0, w)), op_stop = Some (\<lambda>h w. (0, w)), op_is_running = Some (\<lambda>h w. (True, w)),
     op_get_remaining32 = None, op_get_remaining64 = Some (\<lambda>h w. (0, w, w)), op_get_current32 = None,
     op_get_current64 = Some (\<lambda>h w. (0, w, \<lparr>hi_32 = hi_32 w + 100, lo_32 = lo_32 w\<rparr>)), op_get_rollovers = Some (\<lambda>h w. (0, w)),
     op_get_frequency = Some (\<lambda>h w. (32768, w)), op_register_cb = Some (\<lambda>h k w. (0, w))\<rparr>"

definition tick_blank :: "u64_val timers" where
  "tick_blank = \<lparr>tm_swt = (\<lambda>_. None), tm_free = None, tm_hwt = (\<lambda>_. None), tm_enbl_irqc = None, tm_dsbl_irqc = None,
     tm_world = \<lparr>hi_32 = 100, lo_32 = 0\<rparr>\<rparr>"

definition tick_start :: "u64_val timers" where
  "tick_start = snd (the (cc_timer_module_init \<lparr>su_enbl_irqc = Some (\<lambda>m w. w), su_dsbl_irqc = Some (\<lambda>w. (0, w))\<rparr> tick_blank))"

definition tick_hw :: "u64_val timers" where
  "tick_hw = snd (the (cc_timer_register_hwt_ops HW_REALTIME_CLK (Some 1) tick_ops tick_start))"

definition tick_one :: "u64_val timers" where
  "tick_one = snd (the (cc_timer_create demo_cfg tick_hw))"

definition tick_run :: "u64_val timers" where
  "tick_run = snd (the (cc_timer_start (Some 5) \<lparr>secs = 50, nsec = 0\<rparr> OPT_TIMER_PERIODIC tick_one))"

lemma tick_results:
  "map_option fst (cc_timer_module_init \<lparr>su_enbl_irqc = Some (\<lambda>m w. w), su_dsbl_irqc = Some (\<lambda>w. (0, w))\<rparr> tick_blank) = Some 0"
  "map_option fst (cc_timer_register_hwt_ops HW_REALTIME_CLK (Some 1) tick_ops tick_start) = Some 0"
  "map_option fst (cc_timer_create demo_cfg tick_hw) = Some (Some 5)"
  "map_option fst (cc_timer_start (Some 5) \<lparr>secs = 50, nsec = 0\<rparr> OPT_TIMER_PERIODIC tick_one) = Some 0"
  by code_simp+

lemma tick_facts:
  "live tick_one (Some 5)"
  "tm_swt tick_run 5 = Some \<lparr>st_flags = 15, st_hwt_expires = \<lparr>hi_32 = 150, lo_32 = 0\<rparr>, st_sw_interval = \<lparr>hi_32 = 50, lo_32 = 0\<rparr>,
     st_timeout_cb = Some 7, st_cb_param = 3, st_hwt_obj = Some 1, st_next = None\<rparr>"
  "map_option hi_used_list (tm_hwt tick_run 1) = Some (Some 5)" "hwt_has_abs_time 1 tick_run = Some True"
  "map_option (\<lambda>(rv, c, s'). (rv, c)) (Option.bind (dsbl_irqc tick_run) (\<lambda>(m, s). hwt_get_current 1 s)) = Some (0, \<lparr>hi_32 = 200, lo_32 = 0\<rparr>)"
  by code_simp+

lemma tick_ready: "hw_ready tick_run 1"
  unfolding hw_ready_code by code_simp

lemma snd_after: "map_option fst r = Some v \<Longrightarrow> r = Some (v, snd (the r))" by auto

lemma tick_reachable: "reachable tick_run"
proof -
  note r = tick_results[THEN snd_after]
  have "reachable tick_start" unfolding tick_start_def by (rule init[OF _ r(1)]) (simp add: tick_blank_def)
  then have "reachable tick_hw" unfolding tick_hw_def by (rule step[OF _ register[OF r(2)]])
  then have "reachable tick_one" unfolding tick_one_def by (rule step[OF _ api[OF create[OF r(3)]]])
  then show ?thesis unfolding tick_run_def by (rule step[OF _ api[OF start[OF tick_facts(1) r(4)]]])
qed

theorem isr_outcome_witness:
  "\<exists>s'. timer_isr (\<lambda>f a s. Some s) (Some 1) tick_run = Some s' \<and> chain (tnext s') (used_ptr s' 1) [5] \<and>
     time_nat (as_time (expiry s' 5)) = 200 * GIGA"
proof -
  have ch: "chain (tnext tick_run) (used_ptr tick_run 1) [5]"
    using tick_facts(2,3) by (auto simp: used_ptr_def tnext_def)
  obtain m s0 sc where g: "dsbl_irqc tick_run = Some (m, s0)" "hwt_get_current 1 s0 = Some (0, \<lparr>hi_32 = 200, lo_32 = 0\<rparr>, sc)"
    using tick_facts(5) by (auto split: Option.bind_splits)
  have h: "(1 :: nat) < MAX_HWT_PLUG" by (simp add: MAX_HWT_PLUG_def)
  obtain s' us' where r: "timer_isr (\<lambda>f a s. Some s) (Some 1) tick_run = Some s'" "chain (tnext s') (used_ptr s' 1) us'" "distinct us'"
    "set us' = {i \<in> set [5]. u64_nat \<lparr>hi_32 = 200, lo_32 = 0\<rparr> < tm_exp tick_run i \<or> periodic tick_run i}"
    "\<forall>i \<in> set [5]. if tm_exp tick_run i \<le> u64_nat \<lparr>hi_32 = 200, lo_32 = 0\<rparr> \<and> periodic tick_run i
        then interval_later True (expiry tick_run i) (interval tick_run i) (expiry s' i) else expiry s' i = expiry tick_run i"
    using isr_outcome[OF tick_reachable h tick_ready quiet_cb(2) tick_facts(4) g ch] by blast
  have b: "periodic tick_run 5" by (simp add: periodic_def fl_def tick_facts(2))
  then have "set us' = {5}" using r(4) by auto
  then have us: "us' = [5]" using r(3) by (cases us' rule: remdups_adj.cases) auto
  have "tm_exp tick_run 5 \<le> u64_nat \<lparr>hi_32 = 200, lo_32 = 0\<rparr>" by (simp add: tm_exp_def u64_nat_def tick_facts(2))
  then have "interval_later True (expiry tick_run 5) (interval tick_run 5) (expiry s' 5)" using r(5) b by simp
  then have "time_nat (as_time (expiry s' 5)) = 200 * GIGA"
    by (simp add: interval_later_def expiry_def interval_def tick_facts(2) as_time_def time_ok_def time_nat_def)
  then show ?thesis using r(1,2) us by blast
qed

theorem failed_start_strands_timer_witness:
  "\<exists>s'. cc_timer_start (Some 5) \<lparr>secs = 1, nsec = 0\<rparr> OPT_TIMER_PERIODIC (demo_two (- 1)) = Some (- 1, s') \<and> stranded s' 5 \<and>
     (\<exists>u. cc_timer_delete (Some 5) s' = Some (- 1, u))"
proof -
  obtain x where x: "tm_swt (demo_two (- 1)) 5 = Some x" "is_alloc_only x" "st_hwt_obj x = Some 1" using demo_bad(1,2) by auto
  have ab: "hwt_has_abs_time 1 (demo_two (- 1)) = Some True" using demo_bad(3) by (auto simp: hwt_has_abs_time_def)
  have "\<forall>w. \<exists>c w'. hwt_get_current 1 ((demo_two (- 1))\<lparr>tm_world := w\<rparr>) = Some (- 1, c, (demo_two (- 1))\<lparr>tm_world := w'\<rparr>)"
    using get_current_unit[OF demo_bad(4)] by blast
  from failed_start_strands_timer[OF demo_reachable(1) x ab this] show ?thesis by blast
qed

end
