(* ===== verification/Tftp.thy ===== *)
theory Tftp
  imports MqttPrelude
begin

text \<open>
  The TFTP client, \<open>src/netapps/tftp/client/tftp.c\<close>: the transfer of one file from or to a
  server over UDP.  A record holds the structure \<open>TFTP\<close>, the results that the calls of
  \<open>recvfrom\<close> and \<open>recv\<close> still to come will have, and the datagrams handed to \<open>sendto\<close>.
  Addresses and ports are kept in host order (\<open>htons\<close> and \<open>sl_Htonl\<close> only rearrange their bytes);
  the header of a packet is read and written in network order.  The memory
  that \<open>mmAlloc\<close> returns and the results of the socket calls come from an environment; when the list of
  results is exhausted, every receive call times out.
\<close>

section \<open>Data\<close>

definition TFTP_RRQ :: u16 where "TFTP_RRQ = 1"
definition TFTP_WRQ :: u16 where "TFTP_WRQ = 2"
definition TFTP_DATA :: u16 where "TFTP_DATA = 3"
definition TFTP_ACK :: u16 where "TFTP_ACK = 4"
definition TFTP_ERROR :: u16 where "TFTP_ERROR = 5"

definition TFTPERROR_SOCKET :: i32 where "TFTPERROR_SOCKET = -1"
definition TFTPERROR_FAILED :: i32 where "TFTPERROR_FAILED = -2"
definition TFTPERROR_ERRORREPLY :: i32 where "TFTPERROR_ERRORREPLY = -3"
definition TFTPERROR_BADPARAM :: i32 where "TFTPERROR_BADPARAM = -4"
definition TFTPERROR_RESOURCES :: i32 where "TFTPERROR_RESOURCES = -5"

definition SEGSIZE :: nat where "SEGSIZE = 512"
definition TFTP_HEADER :: nat where "TFTP_HEADER = 4"
definition DATA_SIZE :: nat where "DATA_SIZE = SEGSIZE + TFTP_HEADER"
definition PORT_TFTP :: u16 where "PORT_TFTP = 69"
definition MAX_SYNC_TRIES :: i32 where "MAX_SYNC_TRIES = 4"
definition EWOULDBLOCK :: int where "EWOULDBLOCK = -11"

lemmas tftp_consts = TFTP_RRQ_def TFTP_WRQ_def TFTP_DATA_def TFTP_ACK_def TFTP_ERROR_def
  TFTPERROR_SOCKET_def TFTPERROR_FAILED_def TFTPERROR_ERRORREPLY_def TFTPERROR_BADPARAM_def TFTPERROR_RESOURCES_def
  SEGSIZE_def TFTP_HEADER_def DATA_SIZE_def PORT_TFTP_def MAX_SYNC_TRIES_def EWOULDBLOCK_def

type_synonym endpoint = "u32 \<times> u16"

text \<open>The result of a receive call: a datagram, or an error code.\<close>

datatype rx_result = Rx endpoint "u8 list" | Rx_fail int

record tftp =
  tf_PeerAddress :: u32
  tf_szFileName :: "c8 list"
  tf_Buffer :: "u8 list"
  tf_BufferSize :: u32
  tf_Sock :: int
  tf_PacketBuffer :: "u8 list"
  tf_Length :: u32
  tf_BufferUsed :: u32
  tf_FileSize :: u32
  tf_NextBlock :: u16
  tf_ErrorCode :: u16
  tf_MaxSyncError :: i32
  tf_tmpaddr :: endpoint
  tf_peeraddr :: endpoint
  tf_rx :: "rx_result list"
  tf_tx :: "(endpoint \<times> u8 list) list"

text \<open>\<open>te_sendto n p\<close> is the result of the \<open>n\<close>-th call of \<open>sendto\<close>, with the datagram \<open>p\<close>;
  \<open>te_packet\<close> the contents of the memory allocated for packets, \<open>te_setsockopt i\<close> the result of
  the \<open>i\<close>-th call.\<close>

record tftp_env =
  te_alloc :: bool
  te_packet :: "u8 list option"
  te_socket :: int
  te_bind :: int
  te_setsockopt :: "nat \<Rightarrow> int"
  te_sendto :: "nat \<Rightarrow> u8 list \<Rightarrow> int"

text \<open>What \<open>sl_TftpRecv\<close> and \<open>sl_TftpSend\<close> leave behind: their result, the buffer, \<open>*FileSize\<close>, what was
  written to \<open>*pErrorCode\<close>, the datagrams sent and the socket that was closed.\<close>

record tftp_out =
  to_rc :: i32
  to_Buffer :: "u8 list option"
  to_FileSize :: "u32 option"
  to_ErrorCode :: "u16 option"
  to_tx :: "(endpoint \<times> u8 list) list"
  to_closed :: "int option"

section \<open>Packets\<close>

definition mmCopy :: "u8 list \<Rightarrow> nat \<Rightarrow> u8 list \<Rightarrow> nat \<Rightarrow> u32 \<Rightarrow> u8 list option" where
  "mmCopy dst d src s n =
     (if n = 0 \<or> s + unat n \<le> length src \<and> d + unat n \<le> length dst
      then Some (overlay dst d (take (unat n) (drop s src))) else None)"

definition octet :: "c8 list" where "octet = [0x6F, 0x63, 0x74, 0x65, 0x74]"

definition strcpy_at :: "u8 list \<Rightarrow> nat \<Rightarrow> c8 list \<Rightarrow> u8 list option" where
  "strcpy_at dst d s = buf_wr_nbytes dst d (s @ [0]) (length s + 1)"

text \<open>The two requests differ in their operation code only.\<close>

definition request_build :: "u16 \<Rightarrow> tftp \<Rightarrow> tftp option" where
  "request_build opcode t = do {
     b \<leftarrow> buf_wr_nbo_2B (tf_PacketBuffer t) 0 opcode;
     name \<leftarrow> cstr_get (tf_szFileName t);
     b \<leftarrow> strcpy_at b 2 name;
     let p = 2 + length name + 1;
     b \<leftarrow> strcpy_at b p octet;
     let p = p + length octet + 1;
     Some (t\<lparr>tf_PacketBuffer := b, tf_Length := of_nat p\<rparr>) }"

definition tftpRRQBuild :: "tftp \<Rightarrow> tftp option" where
  "tftpRRQBuild = request_build TFTP_RRQ"

definition tftpWRQBuild :: "tftp \<Rightarrow> tftp option" where
  "tftpWRQBuild = request_build TFTP_WRQ"

definition tftpACKBuild :: "tftp \<Rightarrow> tftp option" where
  "tftpACKBuild t = do {
     b \<leftarrow> buf_wr_nbo_2B (tf_PacketBuffer t) 0 TFTP_ACK;
     b \<leftarrow> buf_wr_nbo_2B b 2 (tf_NextBlock t);
     Some (t\<lparr>tf_PacketBuffer := b, tf_Length := 4\<rparr>) }"

definition tftpDATABuild :: "tftp \<Rightarrow> tftp option" where
  "tftpDATABuild t = do {
     b \<leftarrow> buf_wr_nbo_2B (tf_PacketBuffer t) 0 TFTP_DATA;
     b \<leftarrow> buf_wr_nbo_2B b 2 (tf_NextBlock t);
     b \<leftarrow> mmCopy b TFTP_HEADER (tf_Buffer t) (unat (tf_BufferUsed t)) (tf_Length t);
     Some (t\<lparr>tf_PacketBuffer := b\<rparr>) }"

section \<open>The socket\<close>

definition tftpSocketSetup :: "tftp_env \<Rightarrow> tftp \<Rightarrow> i32 \<times> tftp" where
  "tftpSocketSetup env t =
     (let t = t\<lparr>tf_Sock := te_socket env\<rparr> in
      if tf_Sock t < 0 then (TFTPERROR_SOCKET, t) else
      let t = t\<lparr>tf_tmpaddr := (0, 0)\<rparr> in
      if te_bind env < 0 then (TFTPERROR_SOCKET, t) else
      if te_setsockopt env 0 < 0 then (TFTPERROR_SOCKET, t) else
      if te_setsockopt env 1 < 0 then (TFTPERROR_SOCKET, t) else
      (0, t\<lparr>tf_peeraddr := (tf_PeerAddress t, PORT_TFTP)\<rparr>))"

definition tftpSend :: "tftp_env \<Rightarrow> tftp \<Rightarrow> (i32 \<times> tftp) option" where
  "tftpSend env t =
     (if length (tf_PacketBuffer t) < unat (tf_Length t) then None else
      let p = take (unat (tf_Length t)) (tf_PacketBuffer t);
          BytesSent = te_sendto env (length (tf_tx t)) p;
          t' = t\<lparr>tf_tx := tf_tx t @ [(tf_peeraddr t, p)]\<rparr>
      in Some (if BytesSent \<noteq> sint (tf_Length t) then TFTPERROR_SOCKET else 0, t'))"

text \<open>At the label \<open>ABORT\<close> of \<open>tftpReadPacket\<close> after a read error, and when nothing more comes.\<close>

definition read_error :: "int \<Rightarrow> tftp \<Rightarrow> i32 \<times> tftp" where
  "read_error r t =
     (if r = EWOULDBLOCK then (0, t\<lparr>tf_Length := 0\<rparr>) else (TFTPERROR_SOCKET, t\<lparr>tf_Length := word_of_int r\<rparr>))"

definition rx_error :: "int \<Rightarrow> int" where
  "rx_error e = (if e < 0 then e else EWOULDBLOCK)"

definition rx_store :: "u8 list \<Rightarrow> tftp \<Rightarrow> tftp" where
  "rx_store d t = t\<lparr>tf_PacketBuffer := overlay (tf_PacketBuffer t) 0 (take DATA_SIZE d)\<rparr>"

fun read_loop :: "rx_result list \<Rightarrow> tftp \<Rightarrow> i32 \<times> tftp" where
  "read_loop [] t = read_error EWOULDBLOCK (t\<lparr>tf_rx := []\<rparr>)"
| "read_loop (Rx_fail e # es) t = read_error (rx_error e) (t\<lparr>tf_rx := es\<rparr>)"
| "read_loop (Rx a d # es) t =
     (let t = (rx_store d t)\<lparr>tf_tmpaddr := a\<rparr> in
      if fst (tf_tmpaddr t) \<noteq> tf_PeerAddress t then read_loop es t else
      if snd (tf_peeraddr t) \<noteq> PORT_TFTP \<and> snd (tf_tmpaddr t) \<noteq> snd (tf_peeraddr t) then read_loop es t else
      (0, t\<lparr>tf_rx := es, tf_Length := of_nat (length (take DATA_SIZE d))\<rparr>))"

definition tftpReadPacket :: "tftp \<Rightarrow> i32 \<times> tftp" where
  "tftpReadPacket t = read_loop (tf_rx t) t"

fun flush_loop :: "rx_result list \<Rightarrow> tftp \<Rightarrow> tftp" where
  "flush_loop [] t = t\<lparr>tf_rx := []\<rparr>"
| "flush_loop (Rx_fail e # es) t = t\<lparr>tf_rx := es\<rparr>"
| "flush_loop (Rx a d # es) t =
     (if 0 < length (take DATA_SIZE d) then flush_loop es (rx_store d t) else t\<lparr>tf_rx := es\<rparr>)"

definition tftpFlushPackets :: "tftp \<Rightarrow> tftp" where
  "tftpFlushPackets t = flush_loop (tf_rx t) t"

section \<open>The protocol\<close>

definition resync_send :: "tftp_env \<Rightarrow> tftp \<Rightarrow> (i32 \<times> tftp) option" where
  "resync_send env t = do {
     (rc, t) \<leftarrow> tftpSend env t;
     if rc < 0 then Some (rc, t) else Some (rc, t\<lparr>tf_NextBlock := tf_NextBlock t + 1\<rparr>) }"

definition tftpReSync :: "tftp_env \<Rightarrow> tftp \<Rightarrow> (i32 \<times> tftp) option" where
  "tftpReSync env t =
     (let t = tftpFlushPackets t;
          t = t\<lparr>tf_MaxSyncError := tf_MaxSyncError t - 1\<rparr> in
      if tf_MaxSyncError t = 0 then Some (TFTPERROR_FAILED, t) else
      let t = t\<lparr>tf_NextBlock := tf_NextBlock t - 1\<rparr> in
      do { OpCode \<leftarrow> buf_rd_nbo_2B (tf_PacketBuffer t) 0;
           if OpCode = TFTP_DATA then do {
             t \<leftarrow> (if tf_NextBlock t = 0 then tftpRRQBuild t else tftpACKBuild t);
             resync_send env t }
           else if OpCode = TFTP_ACK then do {
             t \<leftarrow> (if tf_NextBlock t = 0xFFFF then tftpWRQBuild t else tftpDATABuild t);
             resync_send env t }
           else Some (TFTPERROR_FAILED, t) })"

text \<open>The cases of \<open>tftpProcessPacket\<close>.\<close>

definition resync_block :: "tftp_env \<Rightarrow> tftp \<Rightarrow> (i32 \<times> tftp) option" where
  "resync_block env t = do { (rc, t) \<leftarrow> tftpReSync env t; Some (rc, t\<lparr>tf_Length := 0\<rparr>) }"

definition error_rx :: "tftp \<Rightarrow> (i32 \<times> tftp) option" where
  "error_rx t = do {
     code \<leftarrow> buf_rd_nbo_2B (tf_PacketBuffer t) 2;
     let t = t\<lparr>tf_ErrorCode := code\<rparr>;
     let t = t\<lparr>tf_Length := tf_Length t - of_nat TFTP_HEADER\<rparr>;
     if tf_Length t \<le> tf_BufferSize t then do {
       b \<leftarrow> mmCopy (tf_Buffer t) 0 (tf_PacketBuffer t) TFTP_HEADER (tf_Length t);
       Some (TFTPERROR_ERRORREPLY, t\<lparr>tf_Buffer := b, tf_BufferUsed := tf_Length t\<rparr>) }
     else Some (TFTPERROR_ERRORREPLY, t\<lparr>tf_BufferUsed := 0\<rparr>) }"

definition data_store :: "u32 \<Rightarrow> tftp \<Rightarrow> tftp option" where
  "data_store CopySize t =
     (if tf_BufferUsed t < tf_BufferSize t then
        let room = tf_BufferSize t - tf_BufferUsed t;
            n = (if room < CopySize then room else CopySize)
        in if n \<noteq> 0 then do {
             b \<leftarrow> mmCopy (tf_Buffer t) (unat (tf_BufferUsed t)) (tf_PacketBuffer t) TFTP_HEADER n;
             Some (t\<lparr>tf_Buffer := b, tf_BufferUsed := tf_BufferUsed t + n\<rparr>) }
           else Some t
      else Some t)"

definition data_rx :: "tftp_env \<Rightarrow> tftp \<Rightarrow> (i32 \<times> tftp) option" where
  "data_rx env t = do {
     ServerBlock \<leftarrow> buf_rd_nbo_2B (tf_PacketBuffer t) 2;
     if tf_NextBlock t \<noteq> ServerBlock then resync_block env t else do {
       let t = (if tf_NextBlock t = 1 then t\<lparr>tf_peeraddr := (fst (tf_peeraddr t), snd (tf_tmpaddr t))\<rparr> else t);
       let t = t\<lparr>tf_MaxSyncError := MAX_SYNC_TRIES\<rparr>;
       let t = t\<lparr>tf_Length := tf_Length t - of_nat TFTP_HEADER\<rparr>;
       let CopySize = tf_Length t;
       let t = t\<lparr>tf_FileSize := tf_FileSize t + CopySize\<rparr>;
       t \<leftarrow> data_store CopySize t;
       let complete = (if tf_Length t < of_nat SEGSIZE then 1 else 0);
       t \<leftarrow> tftpACKBuild t;
       (rc, t) \<leftarrow> tftpSend env t;
       if rc < 0 then Some (rc, t) else
       Some (complete, t\<lparr>tf_NextBlock := tf_NextBlock t + 1\<rparr>) } }"

definition ack_rx :: "tftp_env \<Rightarrow> tftp \<Rightarrow> (i32 \<times> tftp) option" where
  "ack_rx env t = do {
     ServerBlock \<leftarrow> buf_rd_nbo_2B (tf_PacketBuffer t) 2;
     if tf_NextBlock t \<noteq> ServerBlock then resync_block env t else do {
       let t = (if tf_NextBlock t = 0 then t\<lparr>tf_peeraddr := (fst (tf_peeraddr t), snd (tf_tmpaddr t))\<rparr> else t);
       let CopySize = tf_BufferSize t - tf_BufferUsed t;
       let t = t\<lparr>tf_Length := (if CopySize < of_nat SEGSIZE then CopySize else of_nat SEGSIZE)\<rparr>;
       let complete = (if CopySize = 0 then 1 else 0);
       let t = t\<lparr>tf_NextBlock := tf_NextBlock t + 1\<rparr>;
       t \<leftarrow> tftpDATABuild t;
       let t = t\<lparr>tf_BufferUsed := tf_BufferUsed t + tf_Length t\<rparr>;
       let t = t\<lparr>tf_Length := tf_Length t + 4\<rparr>;
       (rc, t) \<leftarrow> tftpSend env t;
       if rc < 0 then Some (rc, t) else Some (complete, t) } }"

definition tftpProcessPacket :: "tftp_env \<Rightarrow> tftp \<Rightarrow> (i32 \<times> tftp) option" where
  "tftpProcessPacket env t =
     (if tf_Length t = 0 then tftpReSync env t else do {
        OpCode \<leftarrow> buf_rd_nbo_2B (tf_PacketBuffer t) 0;
        if OpCode = TFTP_ERROR then error_rx t
        else if OpCode = TFTP_DATA then data_rx env t
        else if OpCode = TFTP_ACK then ack_rx env t
        else Some (TFTPERROR_FAILED, t) })"

text \<open>The loop of \<open>tftpGetFile\<close> and \<open>tftpSendFile\<close>, and the result they make of it.\<close>

partial_function (option) transfer_loop :: "tftp_env \<Rightarrow> tftp \<Rightarrow> (i32 \<times> tftp) option" where
  "transfer_loop env t =
     (case tftpReadPacket t of (rc, t) \<Rightarrow>
        if rc < 0 then Some (rc, t) else do {
          (rc, t) \<leftarrow> tftpProcessPacket env t;
          if rc < 0 then Some (rc, t) else
          if rc = 1 then Some (rc, t) else transfer_loop env t })"

declare transfer_loop.simps [code]

definition transfer :: "tftp_env \<Rightarrow> u16 \<Rightarrow> tftp \<Rightarrow> (i32 \<times> tftp) option" where
  "transfer env first t = do {
     (rc, t) \<leftarrow> tftpSend env t;
     if rc < 0 then Some (rc, t) else do {
       let t = t\<lparr>tf_MaxSyncError := MAX_SYNC_TRIES\<rparr>;
       let t = t\<lparr>tf_NextBlock := first\<rparr>;
       (rc, t) \<leftarrow> transfer_loop env t;
       if rc < 0 then Some (rc, t) else
       Some (if tf_BufferUsed t < tf_FileSize t then 0 else 1, t) } }"

definition tftpGetFile :: "tftp_env \<Rightarrow> tftp \<Rightarrow> (i32 \<times> tftp) option" where
  "tftpGetFile env t = do { t \<leftarrow> tftpRRQBuild t; transfer env 1 t }"

definition tftpSendFile :: "tftp_env \<Rightarrow> tftp \<Rightarrow> (i32 \<times> tftp) option" where
  "tftpSendFile env t = do { t \<leftarrow> tftpWRQBuild t; transfer env 0 t }"

section \<open>The calls of the application\<close>

definition tftp_zero :: "rx_result list \<Rightarrow> tftp" where
  "tftp_zero rx = \<lparr>tf_PeerAddress = 0, tf_szFileName = [], tf_Buffer = [], tf_BufferSize = 0, tf_Sock = -1,
     tf_PacketBuffer = [], tf_Length = 0, tf_BufferUsed = 0, tf_FileSize = 0, tf_NextBlock = 0, tf_ErrorCode = 0,
     tf_MaxSyncError = 0, tf_tmpaddr = (0, 0), tf_peeraddr = (0, 0), tf_rx = rx, tf_tx = []\<rparr>"

text \<open>\<open>sl_TftpRecv\<close> and \<open>sl_TftpSend\<close> are the same but for the transfer they run.  A \<open>NULL\<close> pointer is
  \<open>None\<close>; \<open>perr\<close> says whether \<open>pErrorCode\<close> is not \<open>NULL\<close>.  The code at \<open>ABORT\<close> closes the socket
  and releases the memory.\<close>

definition leave :: "i32 \<Rightarrow> u8 list option \<Rightarrow> u32 option \<Rightarrow> u16 option \<Rightarrow> tftp \<Rightarrow> tftp_out" where
  "leave rc buf fsz err t = \<lparr>to_rc = rc, to_Buffer = buf, to_FileSize = fsz, to_ErrorCode = err, to_tx = tf_tx t,
     to_closed = (if tf_Sock t \<noteq> -1 then Some (tf_Sock t) else None)\<rparr>"

definition tftp_run ::
  "(tftp \<Rightarrow> (i32 \<times> tftp) option) \<Rightarrow> tftp_env \<Rightarrow> u32 \<Rightarrow> c8 list option \<Rightarrow> u8 list option \<Rightarrow> u32 option \<Rightarrow> bool \<Rightarrow>
   rx_result list \<Rightarrow> tftp_out option" where
  "tftp_run run env TftpIP szFileName FileBuffer FileSize perr rx =
     (let t = tftp_zero rx in
      case (szFileName, FileSize) of
        (Some name, Some fsize) \<Rightarrow>
          if fsize \<noteq> 0 \<and> FileBuffer = None then Some (leave TFTPERROR_BADPARAM FileBuffer FileSize None t) else
          if \<not> te_alloc env then Some (leave TFTPERROR_RESOURCES FileBuffer FileSize None t) else
          (case te_packet env of
             None \<Rightarrow> Some (leave TFTPERROR_RESOURCES FileBuffer FileSize None t)
           | Some mem \<Rightarrow>
               let t = t\<lparr>tf_PacketBuffer := mem\<rparr>;
                   t = t\<lparr>tf_PeerAddress := TftpIP\<rparr> in
               case tftpSocketSetup env t of (rc, t) \<Rightarrow>
                 if rc < 0 then Some (leave rc FileBuffer FileSize None t) else
                 let t = t\<lparr>tf_szFileName := name\<rparr>;
                     t = t\<lparr>tf_Buffer := (case FileBuffer of Some b \<Rightarrow> b | None \<Rightarrow> [])\<rparr>;
                     t = t\<lparr>tf_BufferSize := fsize\<rparr> in
                 do { (rc, t) \<leftarrow> run t;
                      let buf = map_option (\<lambda>_. tf_Buffer t) FileBuffer;
                      if rc < 0
                      then Some (leave rc buf (Some (tf_BufferUsed t)) (if perr then Some (tf_ErrorCode t) else None) t)
                      else Some (leave rc buf (Some (tf_FileSize t)) None t) })
      | _ \<Rightarrow> Some (leave TFTPERROR_BADPARAM FileBuffer FileSize None t))"

definition sl_TftpRecv ::
  "tftp_env \<Rightarrow> u32 \<Rightarrow> c8 list option \<Rightarrow> u8 list option \<Rightarrow> u32 option \<Rightarrow> bool \<Rightarrow> rx_result list \<Rightarrow> tftp_out option" where
  "sl_TftpRecv env = tftp_run (tftpGetFile env) env"

definition sl_TftpSend ::
  "tftp_env \<Rightarrow> u32 \<Rightarrow> c8 list option \<Rightarrow> u8 list option \<Rightarrow> u32 option \<Rightarrow> bool \<Rightarrow> rx_result list \<Rightarrow> tftp_out option" where
  "sl_TftpSend env = tftp_run (tftpSendFile env) env"

end
