(* ===== verification/TftpProps.thy ===== *)
theory TftpProps
  imports Tftp
begin

text \<open>
  Properties of the TFTP client: a file is received and sent block by block, whatever datagrams of
  other hosts and ports come between; what happens when the server falls silent; and the
  datagram by which a server makes the client write outside its packet buffer.
\<close>

section \<open>Packets on the wire\<close>

definition head :: "u16 \<Rightarrow> u16 \<Rightarrow> u8 list" where
  "head opcode block = [hi8 opcode, lo8 opcode, hi8 block, lo8 block]"

definition data_packet :: "u16 \<Rightarrow> u8 list \<Rightarrow> u8 list" where
  "data_packet b d = head TFTP_DATA b @ d"

definition ack_packet :: "u16 \<Rightarrow> u8 list" where
  "ack_packet b = head TFTP_ACK b"

definition request_packet :: "u16 \<Rightarrow> c8 list \<Rightarrow> u8 list" where
  "request_packet opcode name = [hi8 opcode, lo8 opcode] @ name @ [0] @ octet @ [0]"

definition packet_buffer :: "tftp \<Rightarrow> bool" where
  "packet_buffer t \<longleftrightarrow> length (tf_PacketBuffer t) = DATA_SIZE"

definition sends_ok :: "tftp_env \<Rightarrow> bool" where
  "sends_ok env \<longleftrightarrow> (\<forall>n p. te_sendto env n p = int (length p))"

lemma length_head [simp]: "length (head opc b) = 4"
  by (simp add: head_def)

lemma length_packets [simp]: "length (data_packet b d) = 4 + length d" "length (ack_packet b) = 4"
  by (simp_all add: data_packet_def ack_packet_def)

lemma overlay_zero: "length xs \<le> length buf \<Longrightarrow> take (length xs) (overlay buf 0 xs) = xs"
  by (simp add: overlay_def)

lemma overlay_zero_more: "length xs \<le> n \<Longrightarrow> overlay (overlay buf 0 xs) (length xs) ys = overlay buf 0 (xs @ ys)"
  by (simp add: overlay_def ac_simps)

lemma take_overlay_prefix:
  "n \<le> length xs \<Longrightarrow> take n (overlay buf 0 xs) = take n xs"
  by (simp add: overlay_def)

lemma write_head:
  assumes "length buf = DATA_SIZE"
  shows "(do { b \<leftarrow> buf_wr_nbo_2B buf 0 opcode; buf_wr_nbo_2B b 2 block }) = Some (overlay buf 0 (head opcode block))"
proof -
  have "overlay (overlay buf 0 [hi8 opcode, lo8 opcode]) (0 + length [hi8 opcode, lo8 opcode]) [hi8 block, lo8 block]
     = overlay buf 0 ([hi8 opcode, lo8 opcode] @ [hi8 block, lo8 block])"
    by (rule overlay_overlay) (use assms in \<open>simp add: tftp_consts\<close>)
  then show ?thesis using assms by (simp add: buf_wr_nbo_2B_eq tftp_consts head_def numeral_2_eq_2)
qed

lemma read_head:
  assumes "take 4 buf = head opcode block"
  shows "buf_rd_nbo_2B buf 0 = Some opcode" "buf_rd_nbo_2B buf 2 = Some block"
proof -
  have "buf = head opcode block @ drop 4 buf" using assms by (metis append_take_drop_id)
  then obtain r where "buf = head opcode block @ r" ..
  then show "buf_rd_nbo_2B buf 0 = Some opcode" "buf_rd_nbo_2B buf 2 = Some block"
    by (simp_all add: buf_rd_nbo_2B_eq head_def numeral_2_eq_2)
qed

lemma sint_small: "n < 2 ^ 31 \<Longrightarrow> sint (of_nat n :: u32) = int n"
  by (simp add: signed_of_nat signed_take_bit_int_eq_self)

lemma ack_build:
  assumes "packet_buffer t"
  shows "tftpACKBuild t = Some (t\<lparr>tf_PacketBuffer := overlay (tf_PacketBuffer t) 0 (ack_packet (tf_NextBlock t)), tf_Length := 4\<rparr>)"
  using assms write_head[of "tf_PacketBuffer t" TFTP_ACK "tf_NextBlock t"]
  by (simp add: tftpACKBuild_def packet_buffer_def ack_packet_def flip: Option.bind_assoc)

lemma send_take:
  assumes "sends_ok env" "tf_Length t = of_nat n" "n \<le> length q"
    "tf_PacketBuffer t = overlay b 0 q" "length q \<le> length b" "length b = DATA_SIZE"
  shows "tftpSend env t = Some (0, t\<lparr>tf_tx := tf_tx t @ [(tf_peeraddr t, take n q)]\<rparr>)"
proof -
  have s: "n < 2 ^ 31" using assms(3,5,6) by (simp add: tftp_consts)
  have n: "unat (tf_Length t) = n" unfolding assms(2) by (rule unat_of_nat_eq) (use s in simp)
  have l: "length (tf_PacketBuffer t) = length b" unfolding assms(4) using assms(5) by simp
  have p: "take n (tf_PacketBuffer t) = take n q" unfolding assms(4) by (rule take_overlay_prefix[OF assms(3)])
  have "te_sendto env (length (tf_tx t)) (take n q) = int n" using assms(1,3) by (simp add: sends_ok_def)
  also have "\<dots> = sint (tf_Length t)" unfolding assms(2) by (rule sint_small[OF s, symmetric])
  finally have r: "te_sendto env (length (tf_tx t)) (take n q) = sint (tf_Length t)" .
  show ?thesis unfolding tftpSend_def n p using l assms(3,5) r by (simp add: Let_def)
qed

lemma send_prefix:
  assumes "sends_ok env" "tf_Length t = of_nat (length p)"
    "tf_PacketBuffer t = overlay b 0 p" "length p \<le> length b" "length b = DATA_SIZE"
  shows "tftpSend env t = Some (0, t\<lparr>tf_tx := tf_tx t @ [(tf_peeraddr t, p)]\<rparr>)"
  using send_take[OF assms(1,2) _ assms(3,4,5)] by simp

section \<open>Reading\<close>

text \<open>What \<open>tftpReadPacket\<close> passes over: datagrams of other hosts, and of other ports once the port
  of the server is known.\<close>

definition stray :: "tftp \<Rightarrow> rx_result \<Rightarrow> bool" where
  "stray t e = (case e of Rx a d \<Rightarrow> fst a \<noteq> tf_PeerAddress t \<or>
     snd (tf_peeraddr t) \<noteq> PORT_TFTP \<and> snd a \<noteq> snd (tf_peeraddr t) | Rx_fail _ \<Rightarrow> False)"

definition from_peer :: "tftp \<Rightarrow> endpoint \<Rightarrow> bool" where
  "from_peer t a \<longleftrightarrow> fst a = tf_PeerAddress t \<and> (snd (tf_peeraddr t) = PORT_TFTP \<or> snd a = snd (tf_peeraddr t))"

lemma stray_same: "tf_PeerAddress t' = tf_PeerAddress t \<Longrightarrow> tf_peeraddr t' = tf_peeraddr t \<Longrightarrow> stray t' e = stray t e"
  by (cases e) (simp_all add: stray_def)

lemma store_packet_buffer: "packet_buffer t \<Longrightarrow> packet_buffer (rx_store d t)"
  by (simp add: packet_buffer_def rx_store_def)

lemma read_strays:
  "packet_buffer t \<Longrightarrow> \<forall>e\<in>set ss. stray t e \<Longrightarrow>
   \<exists>b a. length b = DATA_SIZE \<and> read_loop (ss @ es) t = read_loop es (t\<lparr>tf_PacketBuffer := b, tf_tmpaddr := a\<rparr>)"
proof (induction ss arbitrary: t)
  case Nil
  show ?case using Nil.prems by (intro exI[of _ "tf_PacketBuffer t"] exI[of _ "tf_tmpaddr t"]) (simp add: packet_buffer_def)
next
  case (Cons e ss)
  obtain a d where e: "e = Rx a d" using Cons.prems(2) by (cases e) (auto simp: stray_def)
  let ?t = "(rx_store d t)\<lparr>tf_tmpaddr := a\<rparr>"
  have pb: "packet_buffer ?t" using store_packet_buffer[OF Cons.prems(1), of d] by (simp add: packet_buffer_def)
  have st: "\<forall>e\<in>set ss. stray ?t e" using Cons.prems(2) stray_same[of ?t t] by (simp add: rx_store_def)
  have "read_loop ((e # ss) @ es) t = read_loop (ss @ es) ?t"
    using Cons.prems(2) unfolding e by (auto simp: stray_def Let_def rx_store_def)
  moreover obtain b a' where "length b = DATA_SIZE"
      "read_loop (ss @ es) ?t = read_loop es (?t\<lparr>tf_PacketBuffer := b, tf_tmpaddr := a'\<rparr>)"
    using Cons.IH[OF pb st] by blast
  ultimately show ?case by (intro exI[of _ b] exI[of _ a']) (simp add: rx_store_def)
qed

lemma read_packet:
  assumes "packet_buffer t" "\<forall>e\<in>set ss. stray t e" "from_peer t a" "length d \<le> DATA_SIZE"
    "tf_rx t = ss @ Rx a d # es"
  shows "\<exists>b. length b = DATA_SIZE \<and> tftpReadPacket t =
    (0, t\<lparr>tf_PacketBuffer := overlay b 0 d, tf_tmpaddr := a, tf_rx := es, tf_Length := of_nat (length d)\<rparr>)"
proof -
  obtain b a' where b: "length b = DATA_SIZE"
      and r: "read_loop (ss @ Rx a d # es) t = read_loop (Rx a d # es) (t\<lparr>tf_PacketBuffer := b, tf_tmpaddr := a'\<rparr>)"
    using read_strays[OF assms(1,2)] by blast
  show ?thesis using b r assms(3,4)
    by (intro exI[of _ b]) (auto simp: tftpReadPacket_def assms(5) Let_def rx_store_def from_peer_def)
qed

lemma read_silence: "tf_rx t = [] \<Longrightarrow> tftpReadPacket t = (0, t\<lparr>tf_Length := 0\<rparr>)"
  by (simp add: tftpReadPacket_def read_error_def)

section \<open>Receiving a file\<close>

text \<open>The state after the part \<open>f\<close> of the file was received.\<close>

definition got :: "u32 \<Rightarrow> u16 \<Rightarrow> u32 \<Rightarrow> u8 list \<Rightarrow> u8 list \<Rightarrow> tftp \<Rightarrow> bool" where
  "got ip port bs buf f t \<longleftrightarrow> packet_buffer t \<and> tf_PeerAddress t = ip \<and> tf_peeraddr t = (ip, port) \<and> tf_BufferSize t = bs \<and>
     tf_Buffer t = overlay buf 0 (take (unat bs) f) \<and> tf_BufferUsed t = of_nat (min (length f) (unat bs)) \<and>
     tf_FileSize t = of_nat (length f)"

lemma u32_nat: "n < 2 ^ 32 \<Longrightarrow> unat (of_nat n :: u32) = n"
  by (rule unat_of_nat_eq) simp

lemma data_store_spec:
  assumes "tf_BufferSize t = bs" "tf_Buffer t = overlay buf 0 (take (unat bs) f)"
    "tf_BufferUsed t = of_nat (min (length f) (unat bs))" "unat bs \<le> length buf"
    "tf_PacketBuffer t = overlay pb 0 (data_packet b d)" "length pb = DATA_SIZE" "length d \<le> SEGSIZE"
  shows "data_store (of_nat (length d)) t = Some (t\<lparr>tf_Buffer := overlay buf 0 (take (unat bs) (f @ d)),
     tf_BufferUsed := of_nat (min (length (f @ d)) (unat bs))\<rparr>)"
proof -
  define n u c where "n = unat bs" and "u = min (length f) n" and "c = min (n - u) (length d)"
  have bs: "bs = of_nat n" "n < 2 ^ 32" unfolding n_def using unsigned_less[of bs] by simp_all
  have d: "length d < 2 ^ 32" using assms(7) by (simp add: tftp_consts)
  have u: "u \<le> n" "tf_BufferUsed t = of_nat u" unfolding u_def assms(3) n_def by simp_all
  have un: "unat (tf_BufferUsed t) = u" unfolding u(2) by (rule u32_nat) (use u bs in simp)
  have room: "tf_BufferSize t - tf_BufferUsed t = of_nat (n - u)" unfolding assms(1) u(2) bs(1) using u(1) by simp
  have less: "(tf_BufferUsed t < tf_BufferSize t) = (u < n)"
    unfolding word_less_nat_alt un assms(1) n_def ..
  have less2: "((of_nat (n - u) :: u32) < of_nat (length d)) = (n - u < length d)"
    unfolding word_less_nat_alt using bs(2) d by (simp add: u32_nat)
  have cc: "(if n - u < length d then of_nat (n - u) else of_nat (length d) :: u32) = of_nat c" unfolding c_def by simp
  have c: "c < 2 ^ 32" "c \<le> length d" "c \<le> n - u" using d unfolding c_def by (simp only: min_less_iff_disj, simp_all)
  have c0: "((of_nat c :: u32) = 0) = (c = 0)" using unat_eq_zero[of "of_nat c :: u32"] unfolding u32_nat[OF c(1)] by (rule sym)
  have len: "length (take n f) = u" by (simp add: u_def)
  have res: "overlay (tf_Buffer t) u (take c d) = overlay buf 0 (take n (f @ d))"
  proof -
    have "take c d = take (n - length f) d" using c(2) by (auto simp: c_def u_def min_def)
    then show ?thesis unfolding assms(2) n_def[symmetric] using overlay_zero_more[of "take n f" u buf "take c d"] len by simp
  qed
  have used: "of_nat u + of_nat c = (of_nat (min (length (f @ d)) n) :: u32)"
  proof -
    have "u + c = min (length (f @ d)) n" by (auto simp: u_def c_def)
    then show ?thesis by (simp only: of_nat_add[symmetric])
  qed
  have pl: "take c (drop TFTP_HEADER (tf_PacketBuffer t)) = take c d"
    unfolding assms(5) using c(2) by (simp add: tftp_consts overlay_def data_packet_def)
  have fit: "TFTP_HEADER + c \<le> length (tf_PacketBuffer t)" "u + c \<le> length (tf_Buffer t)"
    unfolding assms(2,5) using assms(4,6,7) c u(1) by (simp_all add: tftp_consts n_def)
  show ?thesis
  proof (cases "c = 0")
    case True
    have "data_store (of_nat (length d)) t = Some t"
      unfolding data_store_def less room Let_def less2 cc using c0 True by simp
    moreover have "tf_Buffer t = overlay buf 0 (take n (f @ d))" using res True by simp
    moreover have "tf_BufferUsed t = of_nat (min (length (f @ d)) n)" using used True u(2) by simp
    ultimately show ?thesis unfolding n_def[symmetric] by (cases t) simp
  next
    case False
    then have "u < n" by (simp add: c_def)
    moreover have "mmCopy (tf_Buffer t) u (tf_PacketBuffer t) TFTP_HEADER (of_nat c) = Some (overlay buf 0 (take n (f @ d)))"
      unfolding mmCopy_def u32_nat[OF c(1)] pl res using fit by simp
    ultimately show ?thesis
      unfolding data_store_def less room Let_def less2 cc un n_def[symmetric] unfolding u(2) used
      using c0 False by simp
  qed
qed

lemma got_ack:
  assumes "got ip port bs buf f t" "sends_ok env"
  shows "\<exists>t'. (do { t \<leftarrow> tftpACKBuild t; tftpSend env t }) = Some (0, t') \<and> got ip port bs buf f t' \<and>
     tf_tx t' = tf_tx t @ [((ip, port), ack_packet (tf_NextBlock t))] \<and> tf_rx t' = tf_rx t \<and>
     tf_NextBlock t' = tf_NextBlock t \<and> tf_MaxSyncError t' = tf_MaxSyncError t \<and> tf_ErrorCode t' = tf_ErrorCode t \<and>
     tf_Sock t' = tf_Sock t \<and> take 4 (tf_PacketBuffer t') = ack_packet (tf_NextBlock t)"
proof -
  let ?p = "ack_packet (tf_NextBlock t)"
  let ?t = "t\<lparr>tf_PacketBuffer := overlay (tf_PacketBuffer t) 0 ?p, tf_Length := 4\<rparr>"
  have pb: "packet_buffer t" and pr: "tf_peeraddr t = (ip, port)" using assms(1) by (simp_all add: got_def)
  have l: "length ?p \<le> length (tf_PacketBuffer t)" using pb by (simp add: packet_buffer_def tftp_consts)
  have s: "tftpSend env ?t = Some (0, ?t\<lparr>tf_tx := tf_tx ?t @ [(tf_peeraddr ?t, ?p)]\<rparr>)"
    by (rule send_prefix[OF assms(2) _ _ l]) (use pb in \<open>simp_all add: packet_buffer_def\<close>)
  have g: "got ip port bs buf f (?t\<lparr>tf_tx := tf_tx ?t @ [(tf_peeraddr ?t, ?p)]\<rparr>)"
    using assms(1) l by (simp add: got_def packet_buffer_def)
  show ?thesis unfolding ack_build[OF pb] bind.bind_lunit s
    using g pr overlay_zero[OF l] by auto
qed

lemma data_step:
  assumes "sends_ok env" "got ip p bs buf f t" "tf_NextBlock t = b" "b = 1 \<or> port = p" "tf_tmpaddr t = (ip, port)"
    "tf_PacketBuffer t = overlay pb 0 (data_packet b d)" "length pb = DATA_SIZE"
    "tf_Length t = of_nat (4 + length d)" "length d \<le> SEGSIZE" "unat bs \<le> length buf"
  shows "\<exists>t'. tftpProcessPacket env t = Some (if length d < SEGSIZE then 1 else 0, t') \<and> got ip port bs buf (f @ d) t' \<and>
     tf_tx t' = tf_tx t @ [((ip, port), ack_packet b)] \<and> tf_rx t' = tf_rx t \<and> tf_NextBlock t' = b + 1 \<and>
     tf_MaxSyncError t' = MAX_SYNC_TRIES \<and> tf_ErrorCode t' = tf_ErrorCode t \<and> tf_Sock t' = tf_Sock t \<and>
     take 4 (tf_PacketBuffer t') = ack_packet b"
proof -
  have d: "length d < 2 ^ 32" "4 + length d < 2 ^ 32" using assms(9) by (simp_all add: tftp_consts)
  have "take 4 (tf_PacketBuffer t) = head TFTP_DATA b" unfolding assms(6)
    by (simp add: overlay_def data_packet_def)
  note hd = read_head[OF this]
  have nz: "tf_Length t \<noteq> 0" unfolding assms(8) using u32_nat[OF d(2)] by (metis add_is_0 unat_0 zero_neq_numeral)
  have len: "tf_Length t - of_nat TFTP_HEADER = of_nat (length d)" unfolding assms(8) by (simp add: tftp_consts)
  have short: "((of_nat (length d) :: u32) < of_nat SEGSIZE) = (length d < SEGSIZE)"
    unfolding word_less_nat_alt by (subst (1 2) u32_nat) (use d(1) in \<open>simp_all add: tftp_consts\<close>)
  define t1 where "t1 = t\<lparr>tf_peeraddr := (ip, port), tf_MaxSyncError := MAX_SYNC_TRIES, tf_Length := of_nat (length d),
     tf_FileSize := tf_FileSize t + of_nat (length d)\<rparr>"
  have pr: "(if tf_NextBlock t = 1 then t\<lparr>tf_peeraddr := (fst (tf_peeraddr t), snd (tf_tmpaddr t))\<rparr> else t) = t\<lparr>tf_peeraddr := (ip, port)\<rparr>"
    using assms(2-5) by (cases t) (auto simp: got_def)
  have st: "data_store (of_nat (length d)) t1 = Some (t1\<lparr>tf_Buffer := overlay buf 0 (take (unat bs) (f @ d)),
     tf_BufferUsed := of_nat (min (length (f @ d)) (unat bs))\<rparr>)"
    by (rule data_store_spec[of _ bs buf f pb b]) (use assms(2,6,7,9,10) in \<open>simp_all add: t1_def got_def\<close>)
  define t2 where "t2 = t1\<lparr>tf_Buffer := overlay buf 0 (take (unat bs) (f @ d)),
     tf_BufferUsed := of_nat (min (length (f @ d)) (unat bs))\<rparr>"
  have st2: "data_store (of_nat (length d)) t1 = Some t2" unfolding t2_def by (rule st)
  have l1: "tf_Length t1 = of_nat (length d)" by (simp add: t1_def)
  have "got ip port bs buf (f @ d) t2" using assms(2) by (simp add: got_def t2_def t1_def packet_buffer_def)
  from got_ack[OF this assms(1)] obtain t3 where
    a: "(do { t \<leftarrow> tftpACKBuild t2; tftpSend env t }) = Some (0, t3)" and
    g: "got ip port bs buf (f @ d) t3" "tf_tx t3 = tf_tx t2 @ [((ip, port), ack_packet (tf_NextBlock t2))]" "tf_rx t3 = tf_rx t2"
       "tf_NextBlock t3 = tf_NextBlock t2" "tf_MaxSyncError t3 = tf_MaxSyncError t2" "tf_ErrorCode t3 = tf_ErrorCode t2"
       "tf_Sock t3 = tf_Sock t2" "take 4 (tf_PacketBuffer t3) = ack_packet (tf_NextBlock t2)"
    by (elim exE conjE) (erule (8) that)
  obtain t4 where a4: "tftpACKBuild t2 = Some t4" "tftpSend env t4 = Some (0, t3)"
    using a by (cases "tftpACKBuild t2") auto
  have t2v: "tf_tx t2 = tf_tx t" "tf_rx t2 = tf_rx t" "tf_NextBlock t2 = b" "tf_MaxSyncError t2 = MAX_SYNC_TRIES"
     "tf_ErrorCode t2 = tf_ErrorCode t" "tf_Sock t2 = tf_Sock t" "tf_Length t2 = of_nat (length d)"
    by (simp_all add: t2_def t1_def assms(3))
  have "data_rx env t = Some (if length d < SEGSIZE then 1 else 0, t3\<lparr>tf_NextBlock := tf_NextBlock t3 + 1\<rparr>)"
    unfolding data_rx_def hd bind.bind_lunit Let_def pr
    using st2 a4 t2v(7) short len l1 by (simp add: assms(3) t1_def[symmetric])
  moreover have "tftpProcessPacket env t = data_rx env t"
    unfolding tftpProcessPacket_def hd using nz by (simp add: tftp_consts)
  ultimately show ?thesis
    using g t2v by (intro exI[of _ "t3\<lparr>tf_NextBlock := tf_NextBlock t3 + 1\<rparr>"]) (simp add: got_def packet_buffer_def)
qed

text \<open>
  A file is cut into segments, all full but the last.  The server sends them as blocks numbered from
  \<open>b\<close> on; before each come datagrams that are none of the client's business.
\<close>

function segments :: "u8 list \<Rightarrow> u8 list list" where
  "segments f = (if length f < SEGSIZE then [f] else take SEGSIZE f # segments (drop SEGSIZE f))"
  by pat_completeness auto
termination
  by (relation "measure length") (auto simp: SEGSIZE_def)

declare segments.simps [simp del]

fun serve :: "endpoint \<Rightarrow> u16 \<Rightarrow> (rx_result list \<times> u8 list) list \<Rightarrow> rx_result list" where
  "serve a b [] = []"
| "serve a b ((ss, d) # xs) = ss @ Rx a (data_packet b d) # serve a (b + 1) xs"

fun noise :: "endpoint \<Rightarrow> bool \<Rightarrow> (rx_result list \<times> 'a) list \<Rightarrow> bool" where
  "noise a started [] = True"
| "noise a started ((ss, d) # xs) =
     (list_all (\<lambda>e. case e of Rx a' _ \<Rightarrow> fst a' \<noteq> fst a \<or> started \<and> snd a' \<noteq> snd a | Rx_fail _ \<Rightarrow> False) ss \<and> noise a True xs)"

lemma segments_cases:
  "\<exists>bs d. segments f = bs @ [d] \<and> (\<forall>b\<in>set bs. length b = SEGSIZE) \<and> length d < SEGSIZE \<and> f = concat bs @ d"
proof (induction f rule: segments.induct)
  case (1 f)
  show ?case
  proof (cases "length f < SEGSIZE")
    case True
    then show ?thesis by (intro exI[of _ "[]"] exI[of _ f]) (simp add: segments.simps[of f])
  next
    case False
    then obtain bs d where r: "segments (drop SEGSIZE f) = bs @ [d]" "\<forall>b\<in>set bs. length b = SEGSIZE" "length d < SEGSIZE"
        "drop SEGSIZE f = concat bs @ d" using "1.IH" by blast
    have "f = concat (take SEGSIZE f # bs) @ d" using r(4) append_take_drop_id[of SEGSIZE f] by simp
    then show ?thesis using r False
      by (intro exI[of _ "take SEGSIZE f # bs"] exI[of _ d]) (simp add: segments.simps[of f])
  qed
qed

lemma serve_append: "serve a b (xs @ ys) = serve a b xs @ serve a (b + of_nat (length xs)) ys"
  by (induction a b xs rule: serve.induct) (simp_all add: ac_simps)

lemma noise_append: "noise a st (xs @ ys) = (noise a st xs \<and> noise a (st \<or> xs \<noteq> []) ys)"
  by (induction a st xs rule: noise.induct) simp_all

lemma loop_step:
  assumes "tftpReadPacket t = (0, t1)" "tftpProcessPacket env t1 = Some (rc, t2)"
  shows "transfer_loop env t = (if rc < 0 \<or> rc = 1 then Some (rc, t2) else transfer_loop env t2)"
  by (subst transfer_loop.simps) (simp add: assms)

text \<open>A block arrives: \<open>p\<close> is the port known so far.\<close>

definition expects :: "endpoint \<Rightarrow> nat \<Rightarrow> u16 \<Rightarrow> tftp \<Rightarrow> bool" where
  "expects a k p t \<longleftrightarrow> tf_NextBlock t = of_nat (Suc k) \<and> (if k = 0 then p = PORT_TFTP else p = snd a) \<and>
     (0 < k \<longrightarrow> take 4 (tf_PacketBuffer t) = ack_packet (of_nat k) \<and> tf_MaxSyncError t = MAX_SYNC_TRIES)"

definition acks :: "endpoint \<Rightarrow> nat \<Rightarrow> nat \<Rightarrow> (endpoint \<times> u8 list) list" where
  "acks a k n = map (\<lambda>i. (a, ack_packet (of_nat i))) [Suc k..<Suc (k + n)]"

lemma recv_block:
  assumes "sends_ok env" "got (fst a) p bs buf f t" "expects a k p t" "snd a \<noteq> PORT_TFTP" "noise a (0 < k) [(ss, d)]"
    "tf_rx t = serve a (of_nat (Suc k)) [(ss, d)] @ rest" "length d \<le> SEGSIZE" "unat bs \<le> length buf"
  shows "\<exists>t'. transfer_loop env t = (if length d < SEGSIZE then Some (1, t') else transfer_loop env t') \<and>
     got (fst a) (snd a) bs buf (f @ d) t' \<and> expects a (Suc k) (snd a) t' \<and> tf_tx t' = tf_tx t @ acks a k 1 \<and>
     tf_rx t' = rest \<and> tf_Sock t' = tf_Sock t \<and> tf_ErrorCode t' = tf_ErrorCode t"
proof -
  let ?b = "of_nat (Suc k) :: u16"
  have g: "packet_buffer t" "tf_PeerAddress t = fst a" "tf_peeraddr t = (fst a, p)" using assms(2) by (simp_all add: got_def)
  have st: "\<forall>e\<in>set ss. stray t e" using assms(3-5) g
    by (auto simp: expects_def stray_def list_all_iff split: rx_result.splits if_splits)
  have pe: "from_peer t a" using assms(3) g by (auto simp: expects_def from_peer_def split: if_splits)
  have rx: "tf_rx t = ss @ Rx a (data_packet ?b d) # rest" using assms(6) by simp
  obtain pb where pb: "length pb = DATA_SIZE" and rd: "tftpReadPacket t = (0, t\<lparr>tf_PacketBuffer := overlay pb 0 (data_packet ?b d),
      tf_tmpaddr := a, tf_rx := rest, tf_Length := of_nat (length (data_packet ?b d))\<rparr>)"
    using read_packet[OF g(1) st pe _ rx] assms(7) by (auto simp: tftp_consts)
  define t1 where "t1 = t\<lparr>tf_PacketBuffer := overlay pb 0 (data_packet ?b d), tf_tmpaddr := a, tf_rx := rest,
      tf_Length := of_nat (length (data_packet ?b d))\<rparr>"
  have g1: "got (fst a) p bs buf f t1" using assms(2,7) pb by (simp add: got_def t1_def packet_buffer_def tftp_consts)
  have b1: "?b = 1 \<or> snd a = p" using assms(3) by (auto simp: expects_def split: if_splits)
  obtain t2 where
    pr: "tftpProcessPacket env t1 = Some (if length d < SEGSIZE then 1 else 0, t2)" and
    g2: "got (fst a) (snd a) bs buf (f @ d) t2" and
    v2: "tf_tx t2 = tf_tx t1 @ [((fst a, snd a), ack_packet ?b)]" "tf_rx t2 = tf_rx t1" "tf_NextBlock t2 = ?b + 1"
      "tf_MaxSyncError t2 = MAX_SYNC_TRIES" "tf_ErrorCode t2 = tf_ErrorCode t1" "tf_Sock t2 = tf_Sock t1"
      "take 4 (tf_PacketBuffer t2) = ack_packet ?b"
    using data_step[OF assms(1) g1 _ b1, of pb d] pb assms(3,7,8) by (force simp: t1_def expects_def)
  have "transfer_loop env t = (if length d < SEGSIZE then Some (1, t2) else transfer_loop env t2)"
    using loop_step[OF rd[folded t1_def] pr] by simp
  moreover have "expects a (Suc k) (snd a) t2" using v2 by (simp add: expects_def)
  moreover have "acks a k 1 = [(a, ack_packet ?b)]" by (simp add: acks_def)
  ultimately show ?thesis using g2 v2 by (intro exI[of _ t2]) (simp add: t1_def)
qed

lemma recv_blocks:
  assumes "sends_ok env" "snd a \<noteq> PORT_TFTP" "unat bs \<le> length buf"
  shows "got (fst a) p bs buf f t \<Longrightarrow> expects a k p t \<Longrightarrow> noise a (0 < k) xs \<Longrightarrow>
    tf_rx t = serve a (of_nat (Suc k)) xs @ rest \<Longrightarrow> \<forall>x\<in>set xs. length (snd x) = SEGSIZE \<Longrightarrow>
   \<exists>t' p'. transfer_loop env t = transfer_loop env t' \<and> got (fst a) p' bs buf (f @ concat (map snd xs)) t' \<and>
     expects a (k + length xs) p' t' \<and> tf_tx t' = tf_tx t @ acks a k (length xs) \<and> tf_rx t' = rest \<and> tf_Sock t' = tf_Sock t \<and>
     tf_ErrorCode t' = tf_ErrorCode t"
proof (induction xs arbitrary: t f k p)
  case Nil
  then show ?case by (intro exI[of _ t] exI[of _ p]) (simp add: acks_def)
next
  case (Cons x xs)
  obtain ss d where x: "x = (ss, d)" by (cases x)
  have d: "length d = SEGSIZE" using Cons.prems(5) by (simp add: x)
  have nz: "noise a (0 < k) [(ss, d)]" "noise a (0 < Suc k) xs" using Cons.prems(3) by (simp_all add: x)
  have rx: "tf_rx t = serve a (of_nat (Suc k)) [(ss, d)] @ (serve a (of_nat (Suc (Suc k))) xs @ rest)"
    using Cons.prems(4) by (simp add: x ac_simps)
  obtain t1 where t1: "transfer_loop env t = transfer_loop env t1" "got (fst a) (snd a) bs buf (f @ d) t1"
      "expects a (Suc k) (snd a) t1" "tf_tx t1 = tf_tx t @ acks a k 1" "tf_rx t1 = serve a (of_nat (Suc (Suc k))) xs @ rest"
      "tf_Sock t1 = tf_Sock t" "tf_ErrorCode t1 = tf_ErrorCode t"
    using recv_block[OF assms(1) Cons.prems(1,2) assms(2) nz(1) rx _ assms(3)] d by auto
  obtain t2 p' where t2: "transfer_loop env t1 = transfer_loop env t2"
      "got (fst a) p' bs buf ((f @ d) @ concat (map snd xs)) t2" "expects a (Suc k + length xs) p' t2"
      "tf_tx t2 = tf_tx t1 @ acks a (Suc k) (length xs)" "tf_rx t2 = rest" "tf_Sock t2 = tf_Sock t1"
      "tf_ErrorCode t2 = tf_ErrorCode t1"
    using Cons.IH[OF t1(2,3) nz(2) t1(5)] Cons.prems(5) by auto
  have "acks a k 1 @ acks a (Suc k) (length xs) = acks a k (length (x # xs))"
    unfolding acks_def map_append[symmetric] by (simp add: upt_conv_Cons del: upt_Suc)
  then show ?case using t1 t2 x by (intro exI[of _ t2] exI[of _ p']) simp
qed

section \<open>From the call of the application to the loop\<close>

definition env_ok :: "tftp_env \<Rightarrow> bool" where
  "env_ok env \<longleftrightarrow> te_alloc env \<and> (case te_packet env of Some mem \<Rightarrow> length mem = DATA_SIZE | None \<Rightarrow> False) \<and>
     0 \<le> te_socket env \<and> 0 \<le> te_bind env \<and> 0 \<le> te_setsockopt env 0 \<and> 0 \<le> te_setsockopt env 1 \<and> sends_ok env"

definition name_ok :: "c8 list \<Rightarrow> bool" where
  "name_ok name \<longleftrightarrow> 0 \<notin> set name \<and> length (request_packet 0 name) \<le> DATA_SIZE"

definition conclude :: "bool \<Rightarrow> i32 \<times> tftp \<Rightarrow> tftp_out" where
  "conclude perr r = (case r of (rc, t) \<Rightarrow>
     if rc < 0 then leave rc (Some (tf_Buffer t)) (Some (tf_BufferUsed t)) (if perr then Some (tf_ErrorCode t) else None) t
     else leave (if tf_BufferUsed t < tf_FileSize t then 0 else 1) (Some (tf_Buffer t)) (Some (tf_FileSize t)) None t)"

lemma length_request: "length (request_packet opc name) = length name + 9"
  by (simp add: request_packet_def octet_def)

lemma request_spec:
  assumes "packet_buffer t" "tf_szFileName t = name @ [0]" "name_ok name"
  shows "request_build opc t = Some (t\<lparr>tf_PacketBuffer := overlay (tf_PacketBuffer t) 0 (request_packet opc name),
     tf_Length := of_nat (length (request_packet opc name))\<rparr>)"
proof -
  let ?b = "tf_PacketBuffer t" and ?o = "[hi8 opc, lo8 opc]"
  have l: "length ?b = 516" "length name + 9 \<le> 516" "0 \<notin> set name"
    using assms(1,3) by (simp_all add: packet_buffer_def name_ok_def length_request tftp_consts)
  have nm: "cstr_get (name @ [0]) = Some name" using l(3) by (auto simp: cstr_get_def cstr_of_def takeWhile_append)
  have w1: "buf_wr_nbo_2B ?b 0 opc = Some (overlay ?b 0 ?o)" using l by (simp add: buf_wr_nbo_2B_eq)
  have o1: "overlay (overlay ?b 0 ?o) 2 (name @ [0]) = overlay ?b 0 (?o @ name @ [0])"
    using overlay_zero_more[of ?o 2 ?b "name @ [0]"] by (simp add: numeral_2_eq_2)
  have w2: "strcpy_at (overlay ?b 0 ?o) 2 name = Some (overlay ?b 0 (?o @ name @ [0]))"
    unfolding strcpy_at_def buf_wr_nbytes_eq using l o1 by simp
  have o2: "overlay (overlay ?b 0 (?o @ name @ [0])) (2 + length name + 1) (octet @ [0]) = overlay ?b 0 (request_packet opc name)"
    using overlay_zero_more[of "?o @ name @ [0]" "2 + length name + 1" ?b "octet @ [0]"] by (simp add: request_packet_def)
  have w3: "strcpy_at (overlay ?b 0 (?o @ name @ [0])) (2 + length name + 1) octet = Some (overlay ?b 0 (request_packet opc name))"
    unfolding strcpy_at_def buf_wr_nbytes_eq using l o2 by (simp add: octet_def)
  show ?thesis unfolding request_build_def assms(2) w1 nm Let_def bind.bind_lunit w2 w3 length_request
    by (simp add: octet_def)
qed

definition fresh_transfer :: "u32 \<Rightarrow> u8 list \<Rightarrow> u32 \<Rightarrow> rx_result list \<Rightarrow> int \<Rightarrow> u16 \<Rightarrow> u16 \<Rightarrow> c8 list \<Rightarrow> tftp \<Rightarrow> bool" where
  "fresh_transfer ip buf fsize rx sock opc first name t \<longleftrightarrow> got ip PORT_TFTP fsize buf [] t \<and> tf_NextBlock t = first \<and>
     tf_MaxSyncError t = MAX_SYNC_TRIES \<and> tf_tx t = [((ip, PORT_TFTP), request_packet opc name)] \<and> tf_rx t = rx \<and>
     tf_Sock t = sock \<and> tf_ErrorCode t = 0 \<and> tf_szFileName t = name @ [0] \<and>
     take 2 (tf_PacketBuffer t) = [hi8 opc, lo8 opc]"

lemma run_start:
  assumes "env_ok env" "name_ok name"
  shows "\<exists>t. fresh_transfer ip buf fsize rx (te_socket env) opc first name t \<and>
    tftp_run (\<lambda>t. do { t \<leftarrow> request_build opc t; transfer env first t }) env ip (Some (name @ [0])) (Some buf) (Some fsize) perr rx
    = map_option (conclude perr) (transfer_loop env t)"
proof -
  obtain mem where mem: "te_packet env = Some mem" "length mem = DATA_SIZE"
    using assms(1) by (auto simp: env_ok_def split: option.splits)
  let ?p = "request_packet opc name"
  define t0 where "t0 = (tftp_zero rx)\<lparr>tf_PacketBuffer := mem, tf_PeerAddress := ip, tf_Sock := te_socket env,
    tf_peeraddr := (ip, PORT_TFTP), tf_szFileName := name @ [0], tf_Buffer := buf, tf_BufferSize := fsize\<rparr>"
  define t1 where "t1 = t0\<lparr>tf_PacketBuffer := overlay mem 0 ?p, tf_Length := of_nat (length ?p)\<rparr>"
  define t2 where "t2 = t1\<lparr>tf_tx := [((ip, PORT_TFTP), ?p)]\<rparr>"
  define t3 where "t3 = t2\<lparr>tf_MaxSyncError := MAX_SYNC_TRIES, tf_NextBlock := first\<rparr>"
  have lp: "length ?p \<le> DATA_SIZE" using assms(2) by (simp add: name_ok_def length_request)
  have sock: "tftpSocketSetup env ((tftp_zero rx)\<lparr>tf_PacketBuffer := mem, tf_PeerAddress := ip\<rparr>) =
      (0, (tftp_zero rx)\<lparr>tf_PacketBuffer := mem, tf_PeerAddress := ip, tf_Sock := te_socket env, tf_peeraddr := (ip, PORT_TFTP)\<rparr>)"
    using assms(1) by (simp add: tftpSocketSetup_def env_ok_def tftp_zero_def)
  have rq: "request_build opc t0 = Some t1"
    using request_spec[of t0 name opc] assms(2) mem by (simp add: t0_def t1_def packet_buffer_def)
  have sd: "tftpSend env t1 = Some (0, t2)"
    using send_prefix[of env t1 ?p mem] assms(1) lp mem by (simp add: env_ok_def t2_def t1_def t0_def tftp_zero_def)
  have tr: "transfer env first t1 = do { (rc, t) \<leftarrow> transfer_loop env t3;
       if rc < 0 then Some (rc, t) else Some (if tf_BufferUsed t < tf_FileSize t then 0 else 1, t) }"
    unfolding transfer_def sd by (simp add: t3_def)
  have "tftp_run (\<lambda>t. do { t \<leftarrow> request_build opc t; transfer env first t }) env ip (Some (name @ [0])) (Some buf) (Some fsize) perr rx
     = map_option (conclude perr) (transfer_loop env t3)"
    unfolding tftp_run_def using assms(1) mem sock rq tr
    by (cases "transfer_loop env t3") (auto simp: env_ok_def Let_def t0_def conclude_def)
  moreover have "fresh_transfer ip buf fsize rx (te_socket env) opc first name t3"
  proof -
    have "take 2 (overlay mem 0 ?p) = [hi8 opc, lo8 opc]"
      using take_overlay_prefix[of 2 ?p mem] by (simp add: length_request) (simp add: request_packet_def)
    then show ?thesis using mem(2) lp
      by (simp add: fresh_transfer_def got_def packet_buffer_def t3_def t2_def t1_def t0_def tftp_zero_def)
  qed
  ultimately show ?thesis by blast
qed

lemma recv_eq: "sl_TftpRecv env = tftp_run (\<lambda>t. do { t \<leftarrow> request_build TFTP_RRQ t; transfer env 1 t }) env"
  by (simp add: sl_TftpRecv_def tftpGetFile_def[abs_def] tftpRRQBuild_def)

lemma send_eq: "sl_TftpSend env = tftp_run (\<lambda>t. do { t \<leftarrow> request_build TFTP_WRQ t; transfer env 0 t }) env"
  by (simp add: sl_TftpSend_def tftpSendFile_def[abs_def] tftpWRQBuild_def)

lemmas run_recv = run_start[where opc = TFTP_RRQ and first = 1, folded recv_eq]
lemmas run_send = run_start[where opc = TFTP_WRQ and first = 0, folded send_eq]

lemma segments_served:
  assumes "map snd xs = segments file"
  shows "\<exists>ys ss d. xs = ys @ [(ss, d)] \<and> (\<forall>y\<in>set ys. length (snd y) = SEGSIZE) \<and> length d < SEGSIZE \<and> file = concat (map snd ys) @ d"
proof -
  obtain bs d where seg: "segments file = bs @ [d]" "\<forall>b\<in>set bs. length b = SEGSIZE" "length d < SEGSIZE" "file = concat bs @ d"
    using segments_cases by blast
  then obtain ys x where xs: "xs = ys @ [x]" "map snd ys = bs" "snd x = d"
    using assms by (cases xs rule: rev_cases) auto
  show ?thesis using xs seg by (intro exI[of _ ys] exI[of _ "fst x"] exI[of _ d]) force
qed

lemma recv_segments:
  assumes "sends_ok env" "snd a \<noteq> PORT_TFTP" "unat fsize \<le> length buf"
    "fresh_transfer (fst a) buf fsize (serve a 1 xs @ rest) sock TFTP_RRQ 1 name t" "map snd xs = segments file" "noise a False xs"
  shows "\<exists>t'. transfer_loop env t = Some (1, t') \<and> got (fst a) (snd a) fsize buf file t' \<and>
     tf_tx t' = tf_tx t @ acks a 0 (length xs) \<and> tf_Sock t' = tf_Sock t"
proof -
  obtain ys ss d where xs: "xs = ys @ [(ss, d)]" and full: "\<forall>y\<in>set ys. length (snd y) = SEGSIZE"
    and d: "length d < SEGSIZE" and fl: "file = concat (map snd ys) @ d"
    using segments_served[OF assms(5)] by (elim exE conjE) (erule (3) that)
  let ?rest = "serve a (of_nat (Suc (length ys))) [(ss, d)] @ rest"
  have g: "got (fst a) PORT_TFTP fsize buf [] t" and e: "expects a 0 PORT_TFTP t"
    and rx: "tf_rx t = serve a (of_nat (Suc 0)) ys @ ?rest"
    using assms(4) by (simp_all add: fresh_transfer_def expects_def xs serve_append)
  have nz: "noise a (0 < (0::nat)) ys" "noise a (0 < 0 + length ys) [(ss, d)]"
    using assms(6) by (simp_all add: xs noise_append)
  obtain t1 p' where t1: "transfer_loop env t = transfer_loop env t1" "got (fst a) p' fsize buf (concat (map snd ys)) t1"
      "expects a (0 + length ys) p' t1" "tf_tx t1 = tf_tx t @ acks a 0 (length ys)" "tf_rx t1 = ?rest" "tf_Sock t1 = tf_Sock t"
    using recv_blocks[OF assms(1-3) g e nz(1) rx full] unfolding append_Nil by (elim exE conjE) (erule (5) that)
  have rx1: "tf_rx t1 = serve a (of_nat (Suc (0 + length ys))) [(ss, d)] @ rest" using t1(5) by (simp only: add_0)
  obtain t2 where t2: "transfer_loop env t1 = Some (1, t2)" "got (fst a) (snd a) fsize buf file t2"
      "tf_tx t2 = tf_tx t1 @ acks a (0 + length ys) 1" "tf_Sock t2 = tf_Sock t1"
    using recv_block[OF assms(1) t1(2,3) assms(2) nz(2) rx1 less_imp_le[OF d] assms(3)]
    unfolding if_P[OF d] fl[symmetric] by (elim exE conjE) (erule (3) that)
  have "acks a 0 (length ys) @ acks a (length ys) 1 = acks a 0 (length xs)" by (simp add: acks_def xs)
  then show ?thesis using t1(1,4,6) t2 by (intro exI[of _ t2]) simp
qed

section \<open>Silence\<close>

lemma flush_silence: "tf_rx t = [] \<Longrightarrow> tftpFlushPackets t = t"
  by (cases t) (simp add: tftpFlushPackets_def)

lemma data_build:
  assumes "packet_buffer t" "tf_Length t = of_nat n" "n = 0 \<or> unat (tf_BufferUsed t) + n \<le> length (tf_Buffer t)" "n \<le> SEGSIZE"
  shows "tftpDATABuild t = Some (t\<lparr>tf_PacketBuffer := overlay (tf_PacketBuffer t) 0
     (data_packet (tf_NextBlock t) (take n (drop (unat (tf_BufferUsed t)) (tf_Buffer t))))\<rparr>)"
proof -
  let ?b = "tf_PacketBuffer t" and ?h = "head TFTP_DATA (tf_NextBlock t)" and ?d = "take n (drop (unat (tf_BufferUsed t)) (tf_Buffer t))"
  have l: "length ?b = 516" using assms(1) by (simp add: packet_buffer_def tftp_consts)
  have n: "unat (tf_Length t) = n" unfolding assms(2) by (rule u32_nat) (use assms(4) in \<open>simp add: tftp_consts\<close>)
  have z: "(tf_Length t = 0) = (n = 0)" using n by (metis unat_eq_zero)
  have "mmCopy (overlay ?b 0 ?h) TFTP_HEADER (tf_Buffer t) (unat (tf_BufferUsed t)) (tf_Length t) = Some (overlay (overlay ?b 0 ?h) 4 ?d)"
    unfolding mmCopy_def n z using assms(3,4) l by (auto simp: tftp_consts)
  moreover have "overlay (overlay ?b 0 ?h) 4 ?d = overlay ?b 0 (?h @ ?d)"
    using overlay_zero_more[of ?h 4 ?b ?d] by simp
  ultimately show ?thesis using write_head[of ?b TFTP_DATA "tf_NextBlock t"] l
    by (cases "buf_wr_nbo_2B ?b 0 TFTP_DATA") (auto simp: tftpDATABuild_def data_packet_def tftp_consts)
qed

lemma last_block: "(x - 1 = (0xFFFF :: u16)) = (x = 0)"
proof -
  have m: "(0xFFFF :: u16) = - 1" by simp
  show ?thesis unfolding m by (metis add.right_inverse diff_0 diff_eq_eq add.commute)
qed

lemma resync_eval:
  assumes "tf_rx t = []" "t0 = t\<lparr>tf_MaxSyncError := tf_MaxSyncError t - 1\<rparr>" "tf_MaxSyncError t \<noteq> 1"
    "t1 = t0\<lparr>tf_NextBlock := tf_NextBlock t0 - 1\<rparr>" "buf_rd_nbo_2B (tf_PacketBuffer t) 0 = Some opc"
    "(if opc = TFTP_DATA then if tf_NextBlock t1 = 0 then tftpRRQBuild t1 else tftpACKBuild t1
      else if tf_NextBlock t1 = 0xFFFF then tftpWRQBuild t1 else tftpDATABuild t1) = r" "opc = TFTP_DATA \<or> opc = TFTP_ACK"
  shows "tftpReSync env t = Option.bind r (resync_send env)"
proof -
  have m: "tf_MaxSyncError t0 \<noteq> 0" "tf_PacketBuffer t1 = tf_PacketBuffer t" using assms(2-4) by simp_all
  show ?thesis
    unfolding tftpReSync_def flush_silence[OF assms(1)] Let_def assms(2)[symmetric] assms(4)[symmetric] m(2) assms(5) bind.bind_lunit
      if_not_P[OF m(1)] assms(6)[symmetric]
    using assms(7) by (auto simp: tftp_consts)
qed

text \<open>Resynchronisation after a packet that began like an acknowledgment, and after one that began like data.\<close>

lemma resync_after_ack:
  assumes "sends_ok env" "packet_buffer t" "tf_rx t = []" "tf_MaxSyncError t \<noteq> 1" "take 4 (tf_PacketBuffer t) = ack_packet c"
    "tf_NextBlock t \<noteq> 0" "tf_Length t = of_nat n" "n = 0 \<or> unat (tf_BufferUsed t) + n \<le> length (tf_Buffer t)" "n \<le> SEGSIZE"
  shows "tftpReSync env t = Some (0, t\<lparr>tf_MaxSyncError := tf_MaxSyncError t - 1, tf_NextBlock := tf_NextBlock t,
     tf_PacketBuffer := overlay (tf_PacketBuffer t) 0 (data_packet (tf_NextBlock t - 1) (take n (drop (unat (tf_BufferUsed t)) (tf_Buffer t)))),
     tf_tx := tf_tx t @ [(tf_peeraddr t, take n (data_packet (tf_NextBlock t - 1) (take n (drop (unat (tf_BufferUsed t)) (tf_Buffer t)))))]\<rparr>)"
proof -
  let ?d = "take n (drop (unat (tf_BufferUsed t)) (tf_Buffer t))"
  define q where "q = data_packet (tf_NextBlock t - 1) ?d"
  define t1 where "t1 = t\<lparr>tf_MaxSyncError := tf_MaxSyncError t - 1, tf_NextBlock := tf_NextBlock t - 1\<rparr>"
  define t2 where "t2 = t1\<lparr>tf_PacketBuffer := overlay (tf_PacketBuffer t) 0 q\<rparr>"
  have op: "buf_rd_nbo_2B (tf_PacketBuffer t) 0 = Some TFTP_ACK" using assms(5) unfolding ack_packet_def by (rule read_head)
  have nb: "tf_NextBlock t1 \<noteq> 0xFFFF" unfolding t1_def using assms(6) last_block by simp
  have bd: "tftpDATABuild t1 = Some t2"
    using data_build[of t1 n] assms(2,7-9) by (simp add: t1_def t2_def q_def packet_buffer_def)
  have lq: "n \<le> length q" "length q \<le> length (tf_PacketBuffer t)" "length (tf_PacketBuffer t) = DATA_SIZE"
    using assms(2,8,9) by (auto simp: q_def packet_buffer_def tftp_consts)
  have sd: "tftpSend env t2 = Some (0, t2\<lparr>tf_tx := tf_tx t2 @ [(tf_peeraddr t2, take n q)]\<rparr>)"
    by (rule send_take[OF assms(1) _ lq(1) _ lq(2,3)]) (simp_all add: t2_def t1_def assms(7))
  show ?thesis unfolding q_def[symmetric]
    using resync_eval[OF assms(3) refl assms(4) refl op refl] nb bd sd
    by (simp add: resync_send_def t1_def tftp_consts) (simp add: t2_def t1_def)
qed



lemma silent_round:
  assumes "tf_rx t = []" "tftpReSync env (t\<lparr>tf_Length := 0\<rparr>) = Some (rc, t')"
  shows "transfer_loop env t = (if rc < 0 \<or> rc = 1 then Some (rc, t') else transfer_loop env t')"
  by (rule loop_step[OF read_silence[OF assms(1)]]) (simp add: tftpProcessPacket_def assms(2))

text \<open>With data of the first block in the packet buffer, the request is sent again.\<close>

lemma resync_request:
  assumes "sends_ok env" "packet_buffer t" "tf_rx t = []" "tf_MaxSyncError t \<noteq> 1" "take 4 (tf_PacketBuffer t) = head TFTP_DATA c"
    "tf_NextBlock t = 1" "tf_szFileName t = name @ [0]" "name_ok name"
  shows "tftpReSync env t = Some (0, t\<lparr>tf_MaxSyncError := tf_MaxSyncError t - 1, tf_NextBlock := 1,
     tf_PacketBuffer := overlay (tf_PacketBuffer t) 0 (request_packet TFTP_RRQ name),
     tf_Length := of_nat (length (request_packet TFTP_RRQ name)), tf_tx := tf_tx t @ [(tf_peeraddr t, request_packet TFTP_RRQ name)]\<rparr>)"
proof -
  define q where "q = request_packet TFTP_RRQ name"
  define t1 where "t1 = t\<lparr>tf_MaxSyncError := tf_MaxSyncError t - 1, tf_NextBlock := tf_NextBlock t - 1\<rparr>"
  define t2 where "t2 = t1\<lparr>tf_PacketBuffer := overlay (tf_PacketBuffer t) 0 q, tf_Length := of_nat (length q)\<rparr>"
  have op: "buf_rd_nbo_2B (tf_PacketBuffer t) 0 = Some TFTP_DATA" using assms(5) by (rule read_head)
  have bd: "tftpRRQBuild t1 = Some t2"
    using request_spec[of t1 name TFTP_RRQ] assms(2,7,8) by (simp add: tftpRRQBuild_def t1_def t2_def q_def packet_buffer_def)
  have lq: "length q \<le> length (tf_PacketBuffer t)" "length (tf_PacketBuffer t) = DATA_SIZE"
    using assms(2,8) by (auto simp: q_def packet_buffer_def name_ok_def length_request)
  have sd: "tftpSend env t2 = Some (0, t2\<lparr>tf_tx := tf_tx t2 @ [(tf_peeraddr t2, q)]\<rparr>)"
    by (rule send_prefix[OF assms(1) _ _ lq]) (simp_all add: t2_def t1_def)
  show ?thesis unfolding q_def[symmetric]
    using resync_eval[OF assms(3) refl assms(4) refl op refl] bd sd assms(6)
    by (simp add: resync_send_def t1_def tftp_consts) (simp add: t2_def t1_def)
qed



lemma silent_after_request:
  assumes "packet_buffer t" "tf_rx t = []" "tf_MaxSyncError t \<noteq> 1" "take 2 (tf_PacketBuffer t) = [hi8 opc, lo8 opc]"
    "opc \<noteq> TFTP_DATA" "opc \<noteq> TFTP_ACK"
  shows "\<exists>t'. transfer_loop env t = Some (TFTPERROR_FAILED, t') \<and> tf_tx t' = tf_tx t \<and> tf_Buffer t' = tf_Buffer t \<and>
     tf_BufferUsed t' = tf_BufferUsed t \<and> tf_Sock t' = tf_Sock t \<and> tf_ErrorCode t' = tf_ErrorCode t"
proof -
  have l: "length (tf_PacketBuffer t) = 516" using assms(1) by (simp add: packet_buffer_def tftp_consts)
  have "tf_PacketBuffer t = [hi8 opc, lo8 opc] @ drop 2 (tf_PacketBuffer t)" using assms(4) by (metis append_take_drop_id)
  then obtain r where r: "tf_PacketBuffer t = [hi8 opc, lo8 opc] @ r" ..
  have op: "buf_rd_nbo_2B (tf_PacketBuffer t) 0 = Some opc" unfolding r by (simp add: buf_rd_nbo_2B_eq)
  let ?t = "t\<lparr>tf_Length := 0\<rparr>"
  have "tftpReSync env ?t = Some (TFTPERROR_FAILED, ?t\<lparr>tf_MaxSyncError := tf_MaxSyncError t - 1, tf_NextBlock := tf_NextBlock t - 1\<rparr>)"
    using assms(2,3,5,6) op by (simp add: tftpReSync_def flush_silence Let_def)
  from silent_round[OF assms(2) this] show ?thesis by (simp add: tftp_consts)
qed

section \<open>Sending a file\<close>

text \<open>The state in which \<open>used\<close> bytes of the buffer were sent in \<open>k\<close> blocks.\<close>

definition sent :: "endpoint \<Rightarrow> nat \<Rightarrow> u32 \<Rightarrow> u8 list \<Rightarrow> nat \<Rightarrow> tftp \<Rightarrow> bool" where
  "sent a k bs buf used t \<longleftrightarrow> packet_buffer t \<and> tf_PeerAddress t = fst a \<and> tf_peeraddr t = (fst a, if k = 0 then PORT_TFTP else snd a) \<and>
     tf_BufferSize t = bs \<and> tf_Buffer t = buf \<and> tf_BufferUsed t = of_nat used \<and> used \<le> unat bs \<and> unat bs \<le> length buf \<and>
     tf_NextBlock t = of_nat k \<and> tf_FileSize t = 0"

text \<open>The blocks that the client makes of a file: it goes on until an acknowledgment finds nothing left.\<close>

function pieces :: "u8 list \<Rightarrow> u8 list list" where
  "pieces f = (if f = [] then [[]] else take SEGSIZE f # pieces (drop SEGSIZE f))"
  by pat_completeness auto
termination
  by (relation "measure length") (auto simp: SEGSIZE_def)

declare pieces.simps [simp del]

fun confirm :: "endpoint \<Rightarrow> u16 \<Rightarrow> (rx_result list \<times> unit) list \<Rightarrow> rx_result list" where
  "confirm a b [] = []"
| "confirm a b ((ss, u) # xs) = ss @ Rx a (ack_packet b) # confirm a (b + 1) xs"

fun data_blocks :: "endpoint \<Rightarrow> u16 \<Rightarrow> u8 list list \<Rightarrow> (endpoint \<times> u8 list) list" where
  "data_blocks a b [] = []"
| "data_blocks a b (d # ds) = (a, data_packet b d) # data_blocks a (b + 1) ds"

lemma ack_step:
  assumes "sends_ok env" "sent a k bs buf used t" "tf_tmpaddr t = a" "take 4 (tf_PacketBuffer t) = ack_packet (of_nat k)"
    "tf_Length t = 4" "n = min SEGSIZE (unat bs - used)"
  shows "\<exists>t'. tftpProcessPacket env t = Some (if used = unat bs then 1 else 0, t') \<and> sent a (Suc k) bs buf (used + n) t' \<and>
    tf_tx t' = tf_tx t @ [(a, data_packet (of_nat (Suc k)) (take n (drop used buf)))] \<and> tf_rx t' = tf_rx t \<and> tf_Sock t' = tf_Sock t"
proof -
  have s: "packet_buffer t" "used \<le> unat bs" "unat bs \<le> length buf" "tf_NextBlock t = of_nat k" "tf_Buffer t = buf"
    using assms(2) by (simp_all add: sent_def)
  have bs: "unat bs < 2 ^ 32" "bs = of_nat (unat bs)" using unsigned_less[of bs] by simp_all
  have un: "unat (of_nat used :: u32) = used" by (rule u32_nat) (use s(2) bs(1) in simp)
  have room: "tf_BufferSize t - tf_BufferUsed t = of_nat (unat bs - used)"
    using assms(2) s(2) by (simp add: sent_def)
  have r: "unat (of_nat (unat bs - used) :: u32) = unat bs - used" by (rule u32_nat) (use bs(1) in simp)
  have short: "((of_nat (unat bs - used) :: u32) < of_nat SEGSIZE) = (unat bs - used < SEGSIZE)"
    unfolding word_less_nat_alt r by (subst u32_nat) (simp_all add: tftp_consts)
  have zero: "((of_nat (unat bs - used) :: u32) = 0) = (used = unat bs)"
    using unat_eq_zero[of "of_nat (unat bs - used) :: u32"] s(2) unfolding r by auto
  have n: "(if unat bs - used < SEGSIZE then of_nat (unat bs - used) else of_nat SEGSIZE :: u32) = of_nat n"
    unfolding assms(6) by simp
  define d where "d = take n (drop used buf)"
  define q where "q = data_packet (of_nat (Suc k)) d"
  have ld: "length d = n" "n \<le> SEGSIZE" "used + n \<le> unat bs" using s(2,3) by (auto simp: d_def assms(6))
  define tp where "tp = t\<lparr>tf_peeraddr := a\<rparr>"
  define t1 where "t1 = tp\<lparr>tf_Length := of_nat n, tf_NextBlock := tf_NextBlock tp + 1\<rparr>"
  define t2 where "t2 = t1\<lparr>tf_PacketBuffer := overlay (tf_PacketBuffer t) 0 q, tf_BufferUsed := of_nat (used + n), tf_Length := of_nat (length q)\<rparr>"
  have pr: "(if tf_NextBlock t = 0 then t\<lparr>tf_peeraddr := (fst (tf_peeraddr t), snd (tf_tmpaddr t))\<rparr> else t) = tp"
    unfolding tp_def using assms(2,3) by (cases t) (auto simp: sent_def)
  have tpv: "tf_BufferSize tp - tf_BufferUsed tp = of_nat (unat bs - used)" unfolding tp_def using room by simp
  have bd: "tftpDATABuild t1 = Some (t1\<lparr>tf_PacketBuffer := overlay (tf_PacketBuffer t) 0 q\<rparr>)"
    using data_build[of t1 n] s(1,3,5) ld un assms(2) by (simp add: t1_def tp_def packet_buffer_def q_def d_def sent_def ac_simps)
  have lq: "length q \<le> length (tf_PacketBuffer t)" "length (tf_PacketBuffer t) = DATA_SIZE"
    using s(1) ld by (auto simp: q_def packet_buffer_def tftp_consts)
  have sd: "tftpSend env t2 = Some (0, t2\<lparr>tf_tx := tf_tx t2 @ [(tf_peeraddr t2, q)]\<rparr>)"
    by (rule send_prefix[OF assms(1) _ _ lq]) (simp_all add: t2_def t1_def tp_def)
  have t2: "t1\<lparr>tf_PacketBuffer := overlay (tf_PacketBuffer t) 0 q, tf_BufferUsed := tf_BufferUsed t1 + tf_Length t1,
      tf_Length := tf_Length t1 + 4\<rparr> = t2"
    using assms(2) ld(1) by (simp add: t2_def t1_def tp_def q_def sent_def ac_simps)
  have hd: "buf_rd_nbo_2B (tf_PacketBuffer t) 0 = Some TFTP_ACK" "buf_rd_nbo_2B (tf_PacketBuffer t) 2 = Some (tf_NextBlock t)"
    using read_head[OF assms(4)[unfolded ack_packet_def]] s(4) by simp_all
  have "ack_rx env t = Some (if used = unat bs then 1 else 0, t2\<lparr>tf_tx := tf_tx t2 @ [(tf_peeraddr t2, q)]\<rparr>)"
    unfolding ack_rx_def hd bind.bind_lunit Let_def pr tpv short n zero
    using bd sd t2 by (simp add: t1_def[symmetric])
  moreover have "tftpProcessPacket env t = ack_rx env t"
    unfolding tftpProcessPacket_def hd using assms(5) by (simp add: tftp_consts)
  ultimately show ?thesis using assms(2) ld(3) lq
    by (intro exI[of _ "t2\<lparr>tf_tx := tf_tx t2 @ [(tf_peeraddr t2, q)]\<rparr>"])
      (simp add: t2_def t1_def tp_def q_def d_def sent_def packet_buffer_def)
qed

lemma pieces_nempty: "pieces f \<noteq> []"
  by (subst pieces.simps) simp

lemma send_acked:
  assumes "sends_ok env" "snd a \<noteq> PORT_TFTP"
  shows "sent a k bs buf used t \<Longrightarrow> noise a (0 < k) xs \<Longrightarrow> tf_rx t = confirm a (of_nat k) xs @ rest \<Longrightarrow>
    length xs = length (pieces (drop used (take (unat bs) buf))) \<Longrightarrow>
    \<exists>t'. transfer_loop env t = Some (1, t') \<and> tf_Buffer t' = buf \<and> tf_FileSize t' = 0 \<and> tf_Sock t' = tf_Sock t \<and>
      tf_tx t' = tf_tx t @ data_blocks a (of_nat (Suc k)) (pieces (drop used (take (unat bs) buf)))"
proof (induction xs arbitrary: t k used)
  case Nil
  then show ?case using pieces_nempty by (metis length_0_conv)
next
  case (Cons x xs)
  let ?f = "drop used (take (unat bs) buf)" and ?b = "of_nat k :: u16"
  obtain ss where x: "x = (ss, ())" by (cases x) simp
  have g: "packet_buffer t" "tf_PeerAddress t = fst a" "tf_peeraddr t = (fst a, if k = 0 then PORT_TFTP else snd a)"
    "used \<le> unat bs" "unat bs \<le> length buf"
    using Cons.prems(1) by (simp_all add: sent_def)
  have st: "\<forall>e\<in>set ss. stray t e" using Cons.prems(2) g assms(2)
    by (auto simp: x stray_def list_all_iff split: rx_result.splits if_splits)
  have pe: "from_peer t a" using g by (auto simp: from_peer_def)
  have rx: "tf_rx t = ss @ Rx a (ack_packet ?b) # confirm a (?b + 1) xs @ rest" using Cons.prems(3) by (simp add: x)
  obtain pb where pb: "length pb = DATA_SIZE" and rd: "tftpReadPacket t = (0, t\<lparr>tf_PacketBuffer := overlay pb 0 (ack_packet ?b),
      tf_tmpaddr := a, tf_rx := confirm a (?b + 1) xs @ rest, tf_Length := of_nat (length (ack_packet ?b))\<rparr>)"
    using read_packet[OF g(1) st pe _ rx] by (auto simp: tftp_consts)
  define t1 where "t1 = t\<lparr>tf_PacketBuffer := overlay pb 0 (ack_packet ?b), tf_tmpaddr := a, tf_rx := confirm a (?b + 1) xs @ rest,
      tf_Length := of_nat (length (ack_packet ?b))\<rparr>"
  define n where "n = min SEGSIZE (unat bs - used)"
  have s1: "sent a k bs buf used t1" using Cons.prems(1) pb by (simp add: sent_def t1_def packet_buffer_def tftp_consts)
  have h1: "take 4 (tf_PacketBuffer t1) = ack_packet ?b"
    using overlay_zero[of "ack_packet ?b" pb] pb by (simp add: t1_def tftp_consts)
  have v1: "tf_tmpaddr t1 = a" "tf_Length t1 = 4" by (simp_all add: t1_def)
  obtain t2 where pr: "tftpProcessPacket env t1 = Some (if used = unat bs then 1 else 0, t2)"
    and s2: "sent a (Suc k) bs buf (used + n) t2"
    and v2: "tf_tx t2 = tf_tx t1 @ [(a, data_packet (of_nat (Suc k)) (take n (drop used buf)))]" "tf_rx t2 = tf_rx t1" "tf_Sock t2 = tf_Sock t1"
    using ack_step[OF assms(1) s1 v1(1) h1 v1(2) n_def] by (elim exE conjE) (erule (4) that)
  have lp: "transfer_loop env t = (if used = unat bs then Some (1, t2) else transfer_loop env t2)"
    using loop_step[OF rd[folded t1_def] pr] by simp
  have piece: "take n (drop used buf) = take SEGSIZE ?f" by (simp add: n_def drop_take)
  have tx1: "tf_tx t1 = tf_tx t" "tf_Sock t1 = tf_Sock t" "tf_rx t1 = confirm a (?b + 1) xs @ rest" by (simp_all add: t1_def)
  show ?case
  proof (cases "used = unat bs")
    case True
    then have "pieces ?f = [[]]" by (subst pieces.simps) simp
    then show ?thesis using lp True v2 tx1 s2 piece by (intro exI[of _ t2]) (simp add: sent_def)
  next
    case False
    then have "?f \<noteq> []" using g(4,5) by simp
    then have ps: "pieces ?f = take SEGSIZE ?f # pieces (drop SEGSIZE ?f)" by (subst pieces.simps) simp
    have "drop (used + n) (take (unat bs) buf) = drop SEGSIZE ?f" using g(4,5) by (auto simp: n_def min_def ac_simps)
    then obtain t3 where t3: "transfer_loop env t2 = Some (1, t3)" "tf_Buffer t3 = buf" "tf_FileSize t3 = 0" "tf_Sock t3 = tf_Sock t2"
        "tf_tx t3 = tf_tx t2 @ data_blocks a (of_nat (Suc (Suc k))) (pieces (drop SEGSIZE ?f))"
      using Cons.IH[OF s2] Cons.prems(2,4) v2(2) tx1(3) ps by (auto simp: x ac_simps)
    show ?thesis using lp False t3 v2 tx1 ps piece by (intro exI[of _ t3]) (simp add: ac_simps)
  qed
qed

text \<open>A client that waits for the first block receives the acknowledgment of another block, and then nothing.\<close>

definition foreign_ack :: "u32 \<Rightarrow> u8 list \<Rightarrow> int \<Rightarrow> c8 list \<Rightarrow> u16 \<Rightarrow> nat \<Rightarrow> tftp \<Rightarrow> bool" where
  "foreign_ack ip buf sock name b n t \<longleftrightarrow> packet_buffer t \<and> take 4 (tf_PacketBuffer t) = ack_packet b \<and> tf_rx t = [] \<and>
     tf_MaxSyncError t = 4 \<and> tf_NextBlock t = 1 \<and> tf_BufferUsed t = 0 \<and> tf_Buffer t = buf \<and> tf_peeraddr t = (ip, PORT_TFTP) \<and>
     tf_szFileName t = name @ [0] \<and> tf_Sock t = sock \<and> tf_ErrorCode t = 0 \<and>
     tf_tx t = [((ip, PORT_TFTP), request_packet TFTP_RRQ name)] \<and> tf_Length t = of_nat n"

lemma foreign_ack_read:
  assumes "fresh_transfer (fst a) buf fsize [Rx a (ack_packet b @ junk)] sock TFTP_RRQ 1 name t" "length junk \<le> 512"
  shows "\<exists>t1. tftpReadPacket t = (0, t1) \<and> foreign_ack (fst a) buf sock name b (4 + length junk) t1"
proof -
  let ?d = "ack_packet b @ junk"
  have g: "packet_buffer t" "from_peer t a" "tf_rx t = [] @ Rx a ?d # []"
    using assms(1) by (simp_all add: fresh_transfer_def got_def from_peer_def)
  obtain pb where pb: "length pb = DATA_SIZE" and rd: "tftpReadPacket t = (0, t\<lparr>tf_PacketBuffer := overlay pb 0 ?d,
      tf_tmpaddr := a, tf_rx := [], tf_Length := of_nat (length ?d)\<rparr>)"
    using read_packet[OF g(1) _ g(2) _ g(3)] assms(2) by (auto simp: tftp_consts)
  have "length (overlay pb 0 ?d) = DATA_SIZE" "take 4 (overlay pb 0 ?d) = ack_packet b"
    using pb assms(2) by (simp_all add: tftp_consts overlay_def)
  then show ?thesis using assms(1) unfolding rd
    by (simp add: foreign_ack_def fresh_transfer_def got_def MAX_SYNC_TRIES_def packet_buffer_def)
qed

lemma foreign_ack_resync:
  assumes "foreign_ack ip buf sock name b n t" "b \<noteq> 1" "4 \<le> n" "n \<le> DATA_SIZE"
  shows "tftpProcessPacket env t = resync_block env t" "unat (tf_Length t) = n"
proof -
  have h: "take 4 (tf_PacketBuffer t) = head TFTP_ACK b" "tf_Length t = of_nat n" "tf_NextBlock t = 1"
    using assms(1) by (simp_all add: foreign_ack_def ack_packet_def)
  show un: "unat (tf_Length t) = n" unfolding h(2) by (rule u32_nat) (use assms(4) in \<open>simp add: tftp_consts\<close>)
  then have nz: "tf_Length t \<noteq> 0" using assms(3) by (metis not_numeral_le_zero unat_0)
  note hd = read_head[OF h(1)]
  show "tftpProcessPacket env t = resync_block env t"
    unfolding tftpProcessPacket_def if_not_P[OF nz] hd using assms(2) h(3) hd by (simp add: ack_rx_def tftp_consts)
qed

lemma foreign_ack_wide:
  assumes "foreign_ack ip buf sock name b n t" "b \<noteq> 1" "SEGSIZE < n" "n \<le> DATA_SIZE"
  shows "tftpProcessPacket env t = None"
proof -
  define t0 where "t0 = t\<lparr>tf_MaxSyncError := tf_MaxSyncError t - 1\<rparr>"
  define tb where "tb = t0\<lparr>tf_NextBlock := tf_NextBlock t0 - 1\<rparr>"
  have n: "4 \<le> n" using assms(3) by (simp add: tftp_consts)
  note f = foreign_ack_resync[OF assms(1,2) n assms(4)]
  have v: "tf_rx t = []" "tf_MaxSyncError t \<noteq> 1" "length (tf_PacketBuffer t) = 516"
      "take 4 (tf_PacketBuffer t) = head TFTP_ACK b" "tf_NextBlock t = 1"
    using assms(1) by (simp_all add: foreign_ack_def ack_packet_def packet_buffer_def tftp_consts)
  have tb: "tf_NextBlock tb = 0" "tf_PacketBuffer tb = tf_PacketBuffer t" "tf_Length tb = tf_Length t"
    using v(5) by (simp_all add: tb_def t0_def)
  have nz: "tf_Length t \<noteq> 0" using f(2) n by (metis not_numeral_le_zero unat_0)
  have wide: "mmCopy x TFTP_HEADER y i (tf_Length tb) = None" if "length x = 516" for x y i
    using assms(3) that nz f(2) unfolding mmCopy_def tb(3) by (simp add: tftp_consts)
  have "tftpDATABuild tb = None"
    using v(3) wide unfolding tftpDATABuild_def tb(1,2) by (simp add: buf_wr_nbo_2B_eq)
  then have "tftpReSync env t = None"
    using resync_eval[OF v(1) t0_def v(2) tb_def read_head(1)[OF v(4)] refl] tb(1) by (simp add: tftp_consts)
  then show ?thesis unfolding f(1) resync_block_def by simp
qed

lemma foreign_ack_answer:
  assumes "foreign_ack ip buf sock name b n t" "b \<noteq> 1" "4 \<le> n" "n \<le> SEGSIZE" "n \<le> length buf" "sends_ok env" "name_ok name"
  shows "\<exists>t1 t2. tftpProcessPacket env t = Some (0, t1) \<and> transfer_loop env t1 = Some (TFTPERROR_FAILED, t2) \<and>
    tf_tx t2 = tf_tx t @ [((ip, PORT_TFTP), data_packet 0 (take (n - 4) buf)), ((ip, PORT_TFTP), request_packet TFTP_RRQ name)] \<and>
    tf_Buffer t2 = buf \<and> tf_BufferUsed t2 = 0 \<and> tf_Sock t2 = sock \<and> tf_ErrorCode t2 = 0"
proof -
  let ?p = "(ip, PORT_TFTP)"
  define q where "q = data_packet 0 (take n buf)"
  define t2 where "t2 = t\<lparr>tf_MaxSyncError := 3, tf_NextBlock := 1, tf_PacketBuffer := overlay (tf_PacketBuffer t) 0 q,
     tf_tx := tf_tx t @ [(?p, take n q)], tf_Length := 0\<rparr>"
  define t3 where "t3 = t2\<lparr>tf_Length := of_nat (length (request_packet TFTP_RRQ name)), tf_MaxSyncError := 2, tf_NextBlock := 1,
     tf_PacketBuffer := overlay (tf_PacketBuffer t2) 0 (request_packet TFTP_RRQ name), tf_tx := tf_tx t2 @ [(?p, request_packet TFTP_RRQ name)]\<rparr>"
  have n: "n \<le> DATA_SIZE" using assms(4) by (simp add: tftp_consts)
  note f = foreign_ack_resync[OF assms(1,2,3) n]
  note v = assms(1)[unfolded foreign_ack_def]
  have "tftpReSync env t = Some (0, t\<lparr>tf_MaxSyncError := 3, tf_NextBlock := 1,
     tf_PacketBuffer := overlay (tf_PacketBuffer t) 0 q, tf_tx := tf_tx t @ [(?p, take n q)]\<rparr>)"
    using resync_after_ack[OF assms(6), of t b n] v assms(4,5) by (simp add: q_def tftp_consts)
  then have p1: "tftpProcessPacket env t = Some (0, t2)" unfolding f(1) resync_block_def by (simp add: t2_def)
  have l2: "length (tf_PacketBuffer t2) = 516" using v assms(4) by (simp add: t2_def q_def packet_buffer_def tftp_consts)
  have h2: "take 4 (tf_PacketBuffer t2) = head TFTP_DATA 0" by (simp add: t2_def q_def data_packet_def overlay_def)
  have v2: "tf_rx t2 = []" "tf_MaxSyncError t2 = 3" "tf_NextBlock t2 = 1" "tf_szFileName t2 = name @ [0]" "tf_peeraddr t2 = ?p"
    using v by (simp_all add: t2_def)
  have r2: "tftpReSync env (t2\<lparr>tf_Length := 0\<rparr>) = Some (0, t3)"
    using resync_request[OF assms(6), of "t2\<lparr>tf_Length := 0\<rparr>" 0 name] assms(7) l2 h2 v2
    by (simp add: packet_buffer_def t3_def tftp_consts)
  have l3: "packet_buffer t3" using l2 assms(7) by (simp add: t3_def packet_buffer_def name_ok_def length_request tftp_consts)
  have h3: "take 2 (tf_PacketBuffer t3) = [hi8 TFTP_RRQ, lo8 TFTP_RRQ]" by (simp add: t3_def overlay_def request_packet_def)
  have "\<exists>t'. transfer_loop env t3 = Some (TFTPERROR_FAILED, t') \<and> tf_tx t' = tf_tx t3 \<and> tf_Buffer t' = tf_Buffer t3 \<and>
      tf_BufferUsed t' = tf_BufferUsed t3 \<and> tf_Sock t' = tf_Sock t3 \<and> tf_ErrorCode t' = tf_ErrorCode t3"
    by (rule silent_after_request[OF l3 _ _ h3]) (use v2 in \<open>simp_all add: t3_def tftp_consts\<close>)
  then obtain t' where t': "transfer_loop env t3 = Some (TFTPERROR_FAILED, t')" "tf_tx t' = tf_tx t3" "tf_Buffer t' = tf_Buffer t3"
      "tf_BufferUsed t' = tf_BufferUsed t3" "tf_Sock t' = tf_Sock t3" "tf_ErrorCode t' = tf_ErrorCode t3"
    by (elim exE conjE) (erule (5) that)
  have "take n q = data_packet 0 (take (n - 4) buf)" using assms(3) by (simp add: q_def data_packet_def)
  then show ?thesis using p1 silent_round[OF v2(1) r2] t' v by (simp add: t3_def t2_def)
qed

section \<open>The properties\<close>

text \<open>
  C14: \<open>sl_TftpRecv\<close> receives a file that the server sends as blocks numbered from 1 on (modulo \<open>2^16\<close>),
  whatever datagrams of other hosts, and after the first block of other ports, come between.  The result is 1 when the file fits and
  0 when it does not; the buffer then holds as much of the file as there is room for, \<open>*FileSize\<close> is its full length; the
  client has sent the request to port 69 and one acknowledgment per block to the port from which the server answered.
\<close>

theorem tftp_recv_file:
  assumes "env_ok env" "name_ok name" "snd a \<noteq> PORT_TFTP" "unat fsize \<le> length buf" "length file < 2 ^ 32"
    "map snd xs = segments file" "noise a False xs"
  shows "sl_TftpRecv env (fst a) (Some (name @ [0])) (Some buf) (Some fsize) perr (serve a 1 xs @ rest) =
    Some \<lparr>to_rc = (if length file \<le> unat fsize then 1 else 0),
      to_Buffer = Some (overlay buf 0 (take (unat fsize) file)), to_FileSize = Some (of_nat (length file)), to_ErrorCode = None,
      to_tx = ((fst a, PORT_TFTP), request_packet TFTP_RRQ name) # acks a 0 (length xs), to_closed = Some (te_socket env)\<rparr>"
proof -
  have so: "sends_ok env" "0 \<le> te_socket env" using assms(1) by (simp_all add: env_ok_def)
  obtain t where ft: "fresh_transfer (fst a) buf fsize (serve a 1 xs @ rest) (te_socket env) TFTP_RRQ 1 name t"
    and run: "sl_TftpRecv env (fst a) (Some (name @ [0])) (Some buf) (Some fsize) perr (serve a 1 xs @ rest)
      = map_option (conclude perr) (transfer_loop env t)"
    using run_recv[OF assms(1,2)] by blast
  obtain t2 where t2: "transfer_loop env t = Some (1, t2)" "got (fst a) (snd a) fsize buf file t2"
      "tf_tx t2 = tf_tx t @ acks a 0 (length xs)" "tf_Sock t2 = tf_Sock t"
    using recv_segments[OF so(1) assms(3,4) ft assms(6,7)] by (elim exE conjE) (erule (3) that)
  have less: "((of_nat (min (length file) (unat fsize)) :: u32) < of_nat (length file)) = (unat fsize < length file)"
  proof -
    have "min (length file) (unat fsize) < 2 ^ 32" using assms(5) by (rule le_less_trans[rotated]) simp
    then show ?thesis unfolding word_less_nat_alt u32_nat[OF assms(5)] by (auto simp: u32_nat)
  qed
  show ?thesis unfolding run t2(1)
    using t2(2-4) ft less so(2)
    by (simp add: conclude_def leave_def got_def fresh_transfer_def not_le[symmetric])
qed


text \<open>
  C15: \<open>sl_TftpSend\<close> sends a file to a server that acknowledges the request and each block, whatever comes between.  It
  hands out the blocks of the file, numbered from 1 on, and then always an empty block, whose acknowledgment it does not
  wait for; \<open>*FileSize\<close> is set to 0.
\<close>

theorem tftp_send_file:
  assumes "env_ok env" "name_ok name" "snd a \<noteq> PORT_TFTP" "unat fsize \<le> length buf"
    "length xs = length (pieces (take (unat fsize) buf))" "noise a False xs"
  shows "sl_TftpSend env (fst a) (Some (name @ [0])) (Some buf) (Some fsize) perr (confirm a 0 xs @ rest) =
    Some \<lparr>to_rc = 1, to_Buffer = Some buf, to_FileSize = Some 0, to_ErrorCode = None,
      to_tx = ((fst a, PORT_TFTP), request_packet TFTP_WRQ name) # data_blocks a 1 (pieces (take (unat fsize) buf)),
      to_closed = Some (te_socket env)\<rparr>"
proof -
  have so: "sends_ok env" "0 \<le> te_socket env" using assms(1) by (simp_all add: env_ok_def)
  obtain t where ft: "fresh_transfer (fst a) buf fsize (confirm a 0 xs @ rest) (te_socket env) TFTP_WRQ 0 name t"
    and run: "sl_TftpSend env (fst a) (Some (name @ [0])) (Some buf) (Some fsize) perr (confirm a 0 xs @ rest)
      = map_option (conclude perr) (transfer_loop env t)"
    using run_send[OF assms(1,2)] by blast
  have g: "sent a 0 fsize buf 0 t" and rx: "tf_rx t = confirm a (of_nat 0) xs @ rest"
    using ft assms(4) by (simp_all add: fresh_transfer_def got_def sent_def)
  obtain t' where t': "transfer_loop env t = Some (1, t')" "tf_Buffer t' = buf" "tf_FileSize t' = 0" "tf_Sock t' = tf_Sock t"
      "tf_tx t' = tf_tx t @ data_blocks a (of_nat (Suc 0)) (pieces (take (unat fsize) buf))"
    using send_acked[OF so(1) assms(3) g _ rx] assms(5,6) by auto
  show ?thesis unfolding run t'(1) using t'(2-) ft so(2)
    by (simp add: conclude_def leave_def fresh_transfer_def)
qed

text \<open>
  C24: an acknowledgment that a client receives while it waits for data makes it send what is in the application's buffer, as
  much as the acknowledgment is long; if the datagram is longer than 512 bytes, the client writes outside its packet buffer.
\<close>

theorem tftp_ack_overflow:
  assumes "env_ok env" "name_ok name" "b \<noteq> 1" "length junk \<le> 512" "4 + length junk \<le> unat fsize" "unat fsize \<le> length buf"
  shows "sl_TftpRecv env (fst a) (Some (name @ [0])) (Some buf) (Some fsize) perr [Rx a (ack_packet b @ junk)] =
    (if 508 < length junk then None else
     Some \<lparr>to_rc = TFTPERROR_FAILED, to_Buffer = Some buf, to_FileSize = Some 0, to_ErrorCode = (if perr then Some 0 else None),
      to_tx = [((fst a, PORT_TFTP), request_packet TFTP_RRQ name), ((fst a, PORT_TFTP), data_packet 0 (take (length junk) buf)),
        ((fst a, PORT_TFTP), request_packet TFTP_RRQ name)], to_closed = Some (te_socket env)\<rparr>)"
proof -
  have so: "sends_ok env" "0 \<le> te_socket env" using assms(1) by (simp_all add: env_ok_def)
  obtain t where ft: "fresh_transfer (fst a) buf fsize [Rx a (ack_packet b @ junk)] (te_socket env) TFTP_RRQ 1 name t"
    and run: "sl_TftpRecv env (fst a) (Some (name @ [0])) (Some buf) (Some fsize) perr [Rx a (ack_packet b @ junk)]
      = map_option (conclude perr) (transfer_loop env t)"
    using run_recv[OF assms(1,2)] by blast
  obtain t1 where rd: "tftpReadPacket t = (0, t1)" and fa: "foreign_ack (fst a) buf (te_socket env) name b (4 + length junk) t1"
    using foreign_ack_read[OF ft assms(4)] by blast
  show ?thesis
  proof (cases "508 < length junk")
    case True
    have "tftpProcessPacket env t1 = None"
      by (rule foreign_ack_wide[OF fa assms(3)]) (use True assms(4) in \<open>simp_all add: tftp_consts\<close>)
    then have "transfer_loop env t = None" using rd by (subst transfer_loop.simps) simp
    then show ?thesis using run True by simp
  next
    case False
    have n: "4 + length junk \<le> SEGSIZE" "4 + length junk \<le> length buf" using False assms(5,6) by (simp_all add: tftp_consts)
    obtain t2 t3 where t3: "tftpProcessPacket env t1 = Some (0, t2)" "transfer_loop env t2 = Some (TFTPERROR_FAILED, t3)"
        "tf_tx t3 = tf_tx t1 @ [((fst a, PORT_TFTP), data_packet 0 (take (4 + length junk - 4) buf)),
           ((fst a, PORT_TFTP), request_packet TFTP_RRQ name)]"
        "tf_Buffer t3 = buf" "tf_BufferUsed t3 = 0" "tf_Sock t3 = te_socket env" "tf_ErrorCode t3 = 0"
      using foreign_ack_answer[OF fa assms(3) _ n so(1) assms(2)] by auto
    have "transfer_loop env t = Some (TFTPERROR_FAILED, t3)" using loop_step[OF rd t3(1)] t3(2) by simp
    then show ?thesis unfolding run using False t3(3-) fa so(2)
      by (simp add: conclude_def leave_def foreign_ack_def TFTPERROR_FAILED_def)
  qed
qed

section \<open>Examples\<close>

definition tftp_sample :: tftp_env where
  "tftp_sample = \<lparr>te_alloc = True, te_packet = Some (replicate 516 0), te_socket = 3, te_bind = 0, te_setsockopt = (\<lambda>_. 0),
     te_sendto = (\<lambda>_ p. int (length p))\<rparr>"

lemma tftp_sample_ok: "env_ok tftp_sample" "te_socket tftp_sample = 3"
  by (simp_all add: env_ok_def tftp_sample_def sends_ok_def tftp_consts)

lemma tftp_sample_name: "name_ok [0x61]"
  by (simp add: name_ok_def length_request tftp_consts)

lemma sample_packets: "request_packet TFTP_RRQ [0x61] = [0, 1, 0x61, 0, 0x6F, 0x63, 0x74, 0x65, 0x74, 0]"
  "request_packet TFTP_WRQ [0x61] = [0, 2, 0x61, 0, 0x6F, 0x63, 0x74, 0x65, 0x74, 0]"
  "ack_packet 1 = [0, 4, 0, 1]" "ack_packet 0 = [0, 4, 0, 0]" "data_packet 1 d = [0, 3, 0, 1] @ d" "data_packet 0 d = [0, 3, 0, 0] @ d" "data_packet 2 d = [0, 3, 0, 2] @ d"
  by (simp_all add: request_packet_def ack_packet_def data_packet_def head_def octet_def tftp_consts hi8_def lo8_def)

lemmas tftp_sample_facts = tftp_sample_ok sample_packets

theorem tftp_recv_file_witness:
  "sl_TftpRecv tftp_sample 7 (Some [0x61, 0]) (Some [0, 0]) (Some 2) True
     ([Rx (8, 1000) [0, 3], Rx (7, 1000) [0, 3, 0, 1, 1, 2, 3]]) =
   Some \<lparr>to_rc = 0, to_Buffer = Some [1, 2], to_FileSize = Some 3, to_ErrorCode = None,
     to_tx = [((7, 69), [0, 1, 0x61, 0, 0x6F, 0x63, 0x74, 0x65, 0x74, 0]), ((7, 1000), [0, 4, 0, 1])], to_closed = Some 3\<rparr>"
  using tftp_recv_file[OF tftp_sample_ok(1) tftp_sample_name, of "(7, 1000)" 2 "[0, 0]" "[1, 2, 3]" "[([Rx (8, 1000) [0, 3]], [1, 2, 3])]" True "[]"]
  by (simp add: tftp_sample_facts segments.simps PORT_TFTP_def SEGSIZE_def acks_def overlay_def)


theorem tftp_send_file_witness:
  "sl_TftpSend tftp_sample 7 (Some [0x61, 0]) (Some [1, 2]) (Some 2) True
     ([Rx (7, 1000) [0, 4, 0, 0], Rx (7, 1001) [0, 4, 0, 0], Rx (7, 1000) [0, 4, 0, 1]]) =
   Some \<lparr>to_rc = 1, to_Buffer = Some [1, 2], to_FileSize = Some 0, to_ErrorCode = None,
     to_tx = [((7, 69), [0, 2, 0x61, 0, 0x6F, 0x63, 0x74, 0x65, 0x74, 0]), ((7, 1000), [0, 3, 0, 1, 1, 2]), ((7, 1000), [0, 3, 0, 2])],
     to_closed = Some 3\<rparr>"
  using tftp_send_file[OF tftp_sample_ok(1) tftp_sample_name, of "(7, 1000)" 2 "[1, 2]" "[([], ()), ([Rx (7, 1001) [0, 4, 0, 0]], ())]" True "[]"]
  by (simp add: tftp_sample_facts pieces.simps PORT_TFTP_def SEGSIZE_def)

theorem tftp_ack_overflow_witness:
  "sl_TftpRecv tftp_sample 7 (Some [0x61, 0]) (Some (replicate 600 0)) (Some 600) True [Rx (7, 1000) ([0, 4, 0, 0] @ replicate 512 1)] = None"
  using tftp_ack_overflow[OF tftp_sample_ok(1) tftp_sample_name, of 0 "replicate 512 1" 600 "replicate 600 0" "(7, 1000)" True]
  by (simp add: tftp_sample_facts)

end
