(* ===== verification/Spec2Isabelle.thy ===== *)
theory Spec2Isabelle
  imports MqttRecv Qos2Cq AckWlist ClientCtx TopicSearch TopicText PktsRx Subscribe ClientConn ClientProps TimerRuns TftpProps
begin

text \<open>
  A verification library for the CC3200 SDK, \<open>SimpleLink-CC3200\<close>: its MQTT implementation
  (\<open>src/netapps/mqtt\<close>), the software timers of its middleware
  (\<open>src/middleware/framework/timer\<close>) and its TFTP client (\<open>src/netapps/tftp/client/tftp.c\<close>).

  \<^bold>\<open>The program.\<close>  The MQTT library has a common part (packets, their wire format, the receive
  routine, the queue of QoS2 identifiers, the list of packets that wait for an
  acknowledgment, the list of network contexts ordered by timeout), a broker and a client.  The broker
  has four layers: \<open>server_pkts.c\<close> keeps a context per connection, reads and parses packets,
  watches the keep-alive times; \<open>server_core.c\<close> keeps the tree of topics and handles
  CONNECT, SUBSCRIBE, UNSUBSCRIBE and PUBLISH; \<open>client_mgmt.c\<close> keeps a record per user, its
  session, its unacknowledged packets, and hands publications to the connections;
  \<open>server_plug.c\<close> keeps the applications on the broker itself.  The client,
  \<open>client/mqtt_client.c\<close>, keeps a context per connection to a broker and a pool of packets: it
  builds messages and sends them, whole or in parts when the application polls, keeps those
  that wait for an acknowledgment, and receives for one context or for a group of contexts.  The timer framework runs six
  software timers on two hardware timers.  The TFTP client transfers one file per call over UDP: it answers every
  block or acknowledgment of the server, and on a time-out or an unexpected block it tries to resynchronise.

  \<^bold>\<open>Conventions.\<close>  A function of the source is a definition of the same name (\<open>pk_\<close> distinguishes
  the handlers of \<open>server_pkts.c\<close> from those of \<open>server_core.c\<close> that have the same name).  A
  routine that can read or write outside an object, follow a null pointer or not return has
  an \<open>option\<close> result, and \<open>None\<close> is that outcome; status codes are returned as the code
  returns them, integers \<open>i32\<close> being \<open>int\<close> and \<open>u8\<close>, \<open>u16\<close>, \<open>u32\<close> words with their wrap-around.
  A static array is a partial map from indices, a pointer into it is a \<open>nat option\<close>, a
  structure a record.  Loops are structural recursions, recursions over the remaining number of
  elements, or \<open>partial_function (option)\<close>; for the latter it is proved that they return.
  The network services, the time, the call-backs of applications and the hardware
  are parameters: functions in an environment record, on a state of their own or with
  their results supplied by a list.

  \<^bold>\<open>The theories.\<close>

  \<^item> \<open>MqttPrelude\<close>: the types of the machine, monad lemmas, words and lists of bytes.
  \<^item> \<open>MqttWire\<close> (\<open>common/mqtt_common.h\<close>, \<open>.c\<close>): packet buffers, UTF-8 strings, remaining lengths,
    the construction and parsing of PUBLISH; wire format, round trip, and the two places where
    the length of a topic is not examined.  \<open>MqttRecv\<close>: the routine \<open>mqp_recv\<close> over a
    stream that delivers any number of bytes per call; totality, and the round trip of a
    PUBLISH through the network.
  \<^item> \<open>Qos2Cq\<close>: the circular queue of eight identifiers, refining a list (locale \<open>msg_id_log\<close>).
    \<open>Chain\<close>: linked lists in a pool, ordered insertion (\<open>tmo_ins\<close>).  \<open>AckWlist\<close>: the
    list of waiting packets, refining a list (locale \<open>wait_list\<close>).  \<open>ClientCtx\<close>: the context
    pool (locale \<open>object_pool\<close>, also interpreted on the pool of topic nodes) and the
    list of contexts sorted by timeout; the states that the broker's calls reach (\<open>pool_state\<close>) and their invariant.
  \<^item> \<open>TopicTree\<close>, \<open>TopicOps\<close>, \<open>TopicSearch\<close> (\<open>server/server_core.c\<close>, first half): the pool of
    nodes, lookup, creation and release of topics (locale \<open>topic_store\<close>), and the searches
    with wildcards, against a match level by level (\<open>topic_match\<close>) and against the matching rule of the MQTT standard
    (\<open>names_match\<close>, \<open>mqtt_match\<close>), from which the search differs for the parent level of \<open>#\<close> and for topics that begin with \<open>$\<close>.  \<open>TopicText\<close>: normal form
    of a topic and validity of a filter.
  \<^item> \<open>ServerEnv\<close>, \<open>ServerPlug\<close>, \<open>Broker\<close>, \<open>BrokerTx\<close>, \<open>ClientMgmt\<close>, \<open>ServerPub\<close>, \<open>ServerSub\<close>,
    \<open>ServerCore\<close>, \<open>PktsRx\<close>: the environment, the state of the broker, and the operations of
    \<open>server_plug.c\<close>, \<open>server_util.c\<close>, \<open>client_mgmt.c\<close>, \<open>server_core.c\<close> and
    \<open>server_pkts.c\<close> up to the rounds of \<open>mqtt_server_run\<close>.
  \<^item> \<open>Dispatch\<close>, \<open>Deliver\<close>, \<open>Subscribe\<close>: the properties of the broker as a whole, each
    using the previous: one packet goes to the clients of a map; a publication goes to the clients
    of all matching nodes, as far as their index is below eight; such a client that subscribed receives the publications that match.
  \<^item> \<open>ClientLib\<close>, \<open>ClientMsg\<close>, \<open>ClientRx\<close>, \<open>ClientRun\<close> (\<open>client/mqtt_client.c\<close>): the state of the
    client library, the pool of packets, transmission in parts and the closing of connections;
    the messages it sends; reception, acknowledgments, keep-alive and the loops of a single context;
    groups of contexts, registration and set-up.  \<open>ClientTx\<close>: a message sent in any number of
    parts reaches the network in order and once.  \<open>ClientPub\<close>, \<open>ClientSub\<close>, \<open>ClientConn\<close>: what the client
    sends for PUBLISH, SUBSCRIBE and CONNECT is what the parsers of the broker read, and
    the free-space test of a subscription does not work.  \<open>ClientProps\<close>: a QoS2 PUBLISH
    that comes twice is handed to the application once; publications made without a
    connection lose a packet each.
  \<^item> \<open>Util64\<close> (\<open>driver/hal/util64.c\<close>): pairs of words as 64-bit numbers and as durations.
    \<open>CcTimer\<close> (\<open>framework/timer/cc_timer.c\<close>): the timer module.  \<open>TimerList\<close>: what the list
    operations do.  \<open>TimerInv\<close>: the invariant and what setting up a timer does to it.  \<open>TimerApi\<close>,
    \<open>TimerIsr\<close>: every call and the interrupt routine preserve it; the step relations
    \<open>api_step\<close> and \<open>cc_step\<close> and the reachable states.  \<open>TimerProps\<close>: the properties.
    \<open>TimerRuns\<close>: concrete runs.
  \<^item> \<open>Tftp\<close> (\<open>tftp.c\<close>): the structure \<open>TFTP\<close> with the results of the receive calls to come and the datagrams sent, the
    construction of packets, reading, flushing, resynchronisation, the cases of \<open>tftpProcessPacket\<close>, the transfer loop and the calls
    \<open>sl_TftpRecv\<close>, \<open>sl_TftpSend\<close>.  \<open>TftpProps\<close>: one block is received or sent (\<open>recv_block\<close>, \<open>send_acked\<close>), what
    each resynchronisation sends, and from these: whole files in both directions, silence of the server, and the
    acknowledgment that overflows the packet buffer.

  \<^bold>\<open>Bounds and fuel.\<close>  Pool sizes are those of the build (six contexts, sixteen clients, the
    number of topic nodes is \<open>MAX_TOP_NODES\<close>, six timers, two hardware timers).  The length
    of a walk through the topic tree is bounded by the number of nodes: every node is
    visited at most once.  The loop \<open>server_loop\<close> of \<open>mqtt_server_run\<close>, which never ends, takes the number of
    rounds as an argument.

  \<^bold>\<open>Not modelled.\<close>  The port of the MQTT library to the SimpleLink sockets
    (\<open>mqtt/sl\<close>, \<open>mqtt/platform\<close>), whose calls are the network parameters of the model; the
    SimpleLink host driver (\<open>simplelink/source\<close>) and its extensions; the operating system
    layer; the peripheral drivers (\<open>driverlib\<close>, \<open>middleware/driver\<close>, \<open>middleware/soc\<close>), which
    are accesses to registers; TFTP over IPv6 (\<open>tftp6.c\<close>) and the
    other network applications (HTTP, JSON, SMTP, XMPP); the third-party and
    generated parts (FreeRTOS, FatFs, TI-RTOS configurations, register headers); the examples.  Within
    the modelled files, debug output and the mutex hooks are left out: handlers are atomic.
\<close>

end
